(* ===== verification/Toolkit_Prelude.thy ===== *)
theory Toolkit_Prelude
  imports Main "HOL-Library.AList" "HOL-Library.Multiset" "HOL-Library.Sublist" "HOL-Library.Word"
begin

text \<open>
  Shared vocabulary of the development.

  \<^item> Rust strings are modelled as \<^typ>\<open>string\<close>, one \<^typ>\<open>char\<close> per UTF-8 byte, with the
    \<open>str\<close> methods the sources use (\<open>starts_with\<close>, \<open>ends_with\<close>, \<open>contains\<close>, \<open>join\<close>,
    \<open>to_ascii_lowercase\<close>) and the decimal rendering of \<open>format!\<close>.
  \<^item> \<open>Instant\<close> and \<open>Duration\<close> are natural numbers of nanoseconds: \<open>Instant::elapsed\<close>
    saturates at zero, exactly as subtraction on \<^typ>\<open>nat\<close> does.  \<open>DateTime<Utc>\<close> is an
    \<^typ>\<open>int\<close> of nanoseconds and \<open>TimeDelta::num_days\<close> truncates towards zero.
  \<^item> \<open>HashMap\<close> is an association list with distinct keys (\<open>AList\<close>), \<open>BTreeMap\<close> an association
    list sorted by key.  The laws a client may rely on are the locale \<open>ordered_index\<close>,
    interpreted on the sorted lists.
  \<^item> \<open>keep_first\<close> is the idiom \<open>iter().filter(|x| seen.insert(key(x)))\<close>.
\<close>

named_theorems time_defs \<open>unfolding of the clock and calendar arithmetic\<close>
named_theorems str_defs \<open>unfolding of the string methods\<close>

section \<open>Strings\<close>

definition starts_with :: "string \<Rightarrow> string \<Rightarrow> bool" where
  "starts_with s p \<longleftrightarrow> prefix p s"

definition ends_with :: "string \<Rightarrow> string \<Rightarrow> bool" where
  "ends_with s p \<longleftrightarrow> prefix (rev p) (rev s)"

fun contains_str :: "string \<Rightarrow> string \<Rightarrow> bool" where
  "contains_str [] p \<longleftrightarrow> p = []"
| "contains_str (c # s) p \<longleftrightarrow> prefix p (c # s) \<or> contains_str s p"

fun join :: "string \<Rightarrow> string list \<Rightarrow> string" where
  "join sep [] = []"
| "join sep [s] = s"
| "join sep (s # t # ts) = s @ sep @ join sep (t # ts)"

text \<open>\<open>str::split_once\<close> on a character and \<open>str::split\<close> on one.\<close>

fun split_once :: "char \<Rightarrow> string \<Rightarrow> (string \<times> string) option" where
  "split_once sep [] = None"
| "split_once sep (c # cs) =
     (if c = sep then Some ([], cs) else map_option (\<lambda>(a, b). (c # a, b)) (split_once sep cs))"

fun split_on :: "char \<Rightarrow> string \<Rightarrow> string list" where
  "split_on sep [] = [[]]"
| "split_on sep (c # cs) =
     (if c = sep then [] # split_on sep cs
      else (case split_on sep cs of [] \<Rightarrow> [[c]] | s # ss \<Rightarrow> (c # s) # ss))"

definition ascii_lower :: "char \<Rightarrow> char" where
  "ascii_lower c =
     (if 65 \<le> (of_char c :: nat) \<and> (of_char c :: nat) \<le> 90
      then char_of ((of_char c :: nat) + 32) else c)"

definition to_ascii_lowercase :: "string \<Rightarrow> string" where
  "to_ascii_lowercase s = map ascii_lower s"

fun show_nat :: "nat \<Rightarrow> string" where
  "show_nat n = (if n < 10 then [char_of (48 + n)]
                 else show_nat (n div 10) @ [char_of (48 + n mod 10)])"

declare show_nat.simps [simp del]

definition show_int :: "int \<Rightarrow> string" where
  "show_int i = (if i < 0 then CHR ''-'' # show_nat (nat (- i)) else show_nat (nat i))"

text \<open>The three non-ASCII characters of the operator-facing texts, in UTF-8.\<close>

definition em_dash :: string where
  "em_dash = [CHR 0xE2, CHR 0x80, CHR 0x94]"

definition right_arrow :: string where
  "right_arrow = [CHR 0xE2, CHR 0x86, CHR 0x92]"

definition ellipsis :: string where
  "ellipsis = [CHR 0xE2, CHR 0x80, CHR 0xA6]"

text \<open>\<open>char::is_whitespace\<close>, written out on the UTF-8 encodings of the white-space characters, and
  \<open>str::trim\<close>: leading white space goes, and so does the longest suffix that is nothing else.\<close>

definition is_space :: "char \<Rightarrow> bool" where
  "is_space c \<longleftrightarrow> (of_char c :: nat) \<in> {9, 10, 11, 12, 13, 32}"

text \<open>The length of the white-space character a text starts with, or 0.\<close>

definition whitespace_len :: "string \<Rightarrow> nat" where
  "whitespace_len s =
     (let b = (\<lambda>i. if i < length s then (of_char (s ! i) :: nat) else 0)
      in if b 0 \<in> {9, 10, 11, 12, 13, 32} then 1
         else if b 0 = 0xC2 \<and> b 1 \<in> {0x85, 0xA0} then 2
         else if b 0 = 0xE1 \<and> b 1 = 0x9A \<and> b 2 = 0x80 then 3
         else if b 0 = 0xE2 \<and> b 1 = 0x80 \<and> (0x80 \<le> b 2 \<and> b 2 \<le> 0x8A \<or> b 2 \<in> {0xA8, 0xA9, 0xAF}) then 3
         else if b 0 = 0xE2 \<and> b 1 = 0x81 \<and> b 2 = 0x9F then 3
         else if b 0 = 0xE3 \<and> b 1 = 0x80 \<and> b 2 = 0x80 then 3
         else 0)"

text \<open>A text without its white space; the empty one is what \<open>trim().is_empty()\<close> accepts.\<close>

function strip_whitespace :: "string \<Rightarrow> string" where
  "strip_whitespace [] = []"
| "strip_whitespace (c # s) =
     (if whitespace_len (c # s) = 0 then c # strip_whitespace s
      else strip_whitespace (drop (whitespace_len (c # s)) (c # s)))"
  by pat_completeness auto
termination
  by (relation "measure length") auto

definition is_blank :: "string \<Rightarrow> bool" where
  "is_blank s \<longleftrightarrow> strip_whitespace s = []"

function trim_start :: "string \<Rightarrow> string" where
  "trim_start [] = []"
| "trim_start (c # s) =
     (if whitespace_len (c # s) = 0 then c # s else trim_start (drop (whitespace_len (c # s)) (c # s)))"
  by pat_completeness auto
termination
  by (relation "measure length") auto

fun trim_end :: "string \<Rightarrow> string" where
  "trim_end [] = []"
| "trim_end (c # s) = (if is_blank (c # s) then [] else c # trim_end s)"

definition trim :: "string \<Rightarrow> string" where
  "trim s = trim_end (trim_start s)"

section \<open>Characters\<close>

text \<open>The characters of a UTF-8 string, each as its bytes: a lead byte and the continuation bytes after it.\<close>

definition utf8_continuation :: "char \<Rightarrow> bool" where
  "utf8_continuation c \<longleftrightarrow> 128 \<le> (of_char c :: nat) \<and> (of_char c :: nat) < 192"

function utf8_chars :: "string \<Rightarrow> string list" where
  "utf8_chars [] = []"
| "utf8_chars (c # s) = (c # takeWhile utf8_continuation s) # utf8_chars (dropWhile utf8_continuation s)"
  by pat_completeness auto

termination
  by (relation "measure length") (simp_all add: le_imp_less_Suc length_dropWhile_le)

lemma concat_utf8_chars [simp]: "concat (utf8_chars s) = s"
  by (induction s rule: utf8_chars.induct) simp_all

lemma utf8_chars_nonempty: "c \<in> set (utf8_chars s) \<Longrightarrow> c \<noteq> []"
  by (induction s rule: utf8_chars.induct) auto

text \<open>\<open>char::is_control\<close>: the C0 and C1 ranges and DEL.\<close>

definition is_control :: "string \<Rightarrow> bool" where
  "is_control c \<longleftrightarrow>
     (case c of
        [a] \<Rightarrow> (of_char a :: nat) < 32 \<or> (of_char a :: nat) = 127
      | [a, b] \<Rightarrow> (of_char a :: nat) = 194 \<and> 128 \<le> (of_char b :: nat) \<and> (of_char b :: nat) < 160
      | _ \<Rightarrow> False)"

text \<open>The digit loop of the integer parsers with its checked arithmetic: \<open>bound\<close> is the first value that
  overflows.\<close>

definition is_digit :: "char \<Rightarrow> bool" where
  "is_digit c \<longleftrightarrow> 48 \<le> (of_char c :: nat) \<and> (of_char c :: nat) \<le> 57"

definition digit_value :: "char \<Rightarrow> nat" where
  "digit_value c = of_char c - 48"

fun parse_digits :: "nat \<Rightarrow> nat \<Rightarrow> string \<Rightarrow> nat option" where
  "parse_digits bound acc [] = Some acc"
| "parse_digits bound acc (c # cs) =
     (if \<not> is_digit c then None
      else if bound \<le> acc * 10 then None
      else if bound \<le> acc * 10 + digit_value c then None
      else parse_digits bound (acc * 10 + digit_value c) cs)"

section \<open>Time\<close>

type_synonym instant = nat
type_synonym duration = nat
type_synonym datetime = int

abbreviation NANOS_PER_SEC :: nat where
  "NANOS_PER_SEC \<equiv> 1000000000"

abbreviation NANOS_PER_DAY :: int where
  "NANOS_PER_DAY \<equiv> 86400000000000"

definition from_secs :: "nat \<Rightarrow> duration" where
  "from_secs s = s * NANOS_PER_SEC"

definition from_millis :: "nat \<Rightarrow> duration" where
  "from_millis ms = ms * 1000000"

definition DURATION_MAX :: duration where
  "DURATION_MAX = (2 ^ 64 - 1) * NANOS_PER_SEC + 999999999"

definition duration_saturating_add :: "duration \<Rightarrow> duration \<Rightarrow> duration" where
  "duration_saturating_add a b = min (a + b) DURATION_MAX"

definition elapsed :: "instant \<Rightarrow> instant \<Rightarrow> duration" where
  "elapsed now t = now - t"

definition num_days :: "int \<Rightarrow> int" where
  "num_days d = (if 0 \<le> d then d div NANOS_PER_DAY else - ((- d) div NANOS_PER_DAY))"

declare from_secs_def [time_defs] from_millis_def [time_defs] elapsed_def [time_defs]
  duration_saturating_add_def [time_defs] DURATION_MAX_def [time_defs] num_days_def [time_defs]

section \<open>Unsigned machine integers\<close>

text \<open>\<open>saturating_add\<close> and \<open>saturating_mul\<close> of Rust's unsigned integers, at any width.\<close>

definition saturating_add :: "'w::len word \<Rightarrow> 'w word \<Rightarrow> 'w word" where
  "saturating_add a b = (if unat a + unat b < 2 ^ LENGTH('w) then a + b else - 1)"

definition saturating_mul :: "'w::len word \<Rightarrow> 'w word \<Rightarrow> 'w word" where
  "saturating_mul a b = (if unat a * unat b < 2 ^ LENGTH('w) then a * b else - 1)"

lemma unat_saturating_add:
  "unat (saturating_add a b) = min (unat a + unat b) (2 ^ LENGTH('w) - 1)" for a b :: "'w::len word"
  by (auto simp: saturating_add_def unsigned_minus_1_eq_mask mask_eq_exp_minus_1 unat_word_ariths min_def)

lemma unat_saturating_mul:
  "unat (saturating_mul a b) = min (unat a * unat b) (2 ^ LENGTH('w) - 1)" for a b :: "'w::len word"
proof (cases "unat a * unat b < 2 ^ LENGTH('w)")
  case True
  then have "unat a * unat b \<le> 2 ^ LENGTH('w) - 1" by simp
  with True show ?thesis by (simp add: saturating_mul_def unat_word_ariths min_absorb1)
next
  case False
  then have "2 ^ LENGTH('w) - 1 \<le> unat a * unat b" by simp
  with False show ?thesis
    by (simp add: saturating_mul_def unsigned_minus_1_eq_mask mask_eq_exp_minus_1 min_absorb2)
qed

lemma unat_min: "unat (min a b) = min (unat a) (unat b)"
  by (simp add: min_def word_le_nat_alt)

section \<open>First occurrences\<close>

fun keep_first_aux :: "('a \<Rightarrow> 'k) \<Rightarrow> 'k list \<Rightarrow> 'a list \<Rightarrow> 'a list" where
  "keep_first_aux key seen [] = []"
| "keep_first_aux key seen (x # xs) =
     (if key x \<in> set seen then keep_first_aux key seen xs
      else x # keep_first_aux key (key x # seen) xs)"

definition keep_first :: "('a \<Rightarrow> 'k) \<Rightarrow> 'a list \<Rightarrow> 'a list" where
  "keep_first key xs = keep_first_aux key [] xs"

section \<open>Sorted association lists: the model of BTreeMap\<close>

fun bt_insert :: "'k::linorder \<Rightarrow> 'v \<Rightarrow> ('k \<times> 'v) list \<Rightarrow> ('k \<times> 'v) list" where
  "bt_insert k v [] = [(k, v)]"
| "bt_insert k v (p # m) =
     (if fst p < k then p # bt_insert k v m
      else if k < fst p then (k, v) # p # m
      else (k, v) # m)"

definition bt_remove :: "'k \<Rightarrow> ('k \<times> 'v) list \<Rightarrow> ('k \<times> 'v) list" where
  "bt_remove k m = filter (\<lambda>p. fst p \<noteq> k) m"

fun bt_extend :: "('k::linorder \<times> 'v) list \<Rightarrow> ('k \<times> 'v) list \<Rightarrow> ('k \<times> 'v) list" where
  "bt_extend m [] = m"
| "bt_extend m (p # ps) = bt_extend (bt_insert (fst p) (snd p) m) ps"

abbreviation bt_sorted :: "('k::linorder \<times> 'v) list \<Rightarrow> bool" where
  "bt_sorted m \<equiv> sorted_wrt (<) (map fst m)"

section \<open>Lemmas on strings\<close>

lemma starts_with_code [simp]: "starts_with s p \<longleftrightarrow> take (length p) s = p"
  unfolding starts_with_def by (metis append_eq_conv_conj prefix_def take_is_prefix)

declare starts_with_def [str_defs] ends_with_def [str_defs]

lemma ends_with_iff: "ends_with s p \<longleftrightarrow> suffix p s"
  by (simp add: ends_with_def suffix_to_prefix)

lemma contains_str_iff: "contains_str s p \<longleftrightarrow> sublist p s"
proof (induction s)
  case (Cons c s)
  then show ?case by (simp add: sublist_Cons_right)
qed simp

lemma starts_with_append [simp]: "starts_with (p @ s) p"
  by simp

lemma join_nonempty_eq: "xs \<noteq> [] \<Longrightarrow> join sep (x # xs) = x @ sep @ join sep xs"
  by (cases xs) auto

lemma split_once_absent: "sep \<notin> set s \<Longrightarrow> split_once sep s = None"
  by (induction s) auto

lemma split_once_first: "sep \<notin> set s \<Longrightarrow> split_once sep (s @ sep # t) = Some (s, t)"
  by (induction s) auto

lemma split_on_nonempty [simp]: "split_on sep s \<noteq> []"
  by (induction s) (auto split: list.split)

lemma join_split_on: "join [sep] (split_on sep s) = s"
proof (induction s)
  case (Cons c s)
  then show ?case
    by (cases "split_on sep s"; cases "tl (split_on sep s)") (auto simp: join_nonempty_eq)
qed simp

lemma split_on_join:
  assumes "ss \<noteq> []" and "\<forall>s \<in> set ss. sep \<notin> set s"
  shows "split_on sep (join [sep] ss) = ss"
proof -
  have piece: "sep \<notin> set s \<Longrightarrow> split_on sep (s @ sep # t) = s # split_on sep t" for s t
    by (induction s) auto
  have last: "sep \<notin> set s \<Longrightarrow> split_on sep s = [s]" for s
    by (induction s) auto
  show ?thesis using assms
  proof (induction ss rule: list_nonempty_induct)
    case (cons x xs)
    then show ?case using piece [of x "join [sep] xs"] by (simp add: join_nonempty_eq)
  qed (simp add: last)
qed

section \<open>Lemmas on numerals\<close>

text \<open>\<open>str::parse::<usize>\<close>: an optional plus sign, then at least one digit, with checked arithmetic.\<close>

definition parse_usize :: "string \<Rightarrow> nat option" where
  "parse_usize s =
     (let digits = (if s \<noteq> [] \<and> hd s = CHR ''+'' then tl s else s)
      in if digits = [] then None else parse_digits (2 ^ 64) 0 digits)"

lemma digit_char: "d < 10 \<Longrightarrow> is_digit (char_of (48 + d)) \<and> digit_value (char_of (48 + d)) = d" for d :: nat
  by (simp add: is_digit_def digit_value_def)

lemma show_nat_digits: "show_nat n \<noteq> [] \<and> list_all is_digit (show_nat n)"
proof (induction n rule: less_induct)
  case (less n)
  show ?case
    using less [of "n div 10"] digit_char [of n] digit_char [of "n mod 10"] by (subst (1 2) show_nat.simps) auto
qed

lemma parse_digits_append:
  "parse_digits bound acc (xs @ [c]) = Option.bind (parse_digits bound acc xs) (\<lambda>m. parse_digits bound m [c])"
  by (induction xs arbitrary: acc) simp_all

lemma parse_digits_show:
  assumes "10 \<le> bound" shows "parse_digits bound 0 (show_nat n) = (if n < bound then Some n else None)"
proof (induction n rule: less_induct)
  case (less n)
  show ?case
  proof (cases "n < 10")
    case True
    then show ?thesis using digit_char [of n] by (subst show_nat.simps) simp
  next
    case False
    then have "show_nat n = show_nat (n div 10) @ [char_of (48 + n mod 10)]" by (subst show_nat.simps) simp
    moreover have "n div 10 * 10 + n mod 10 = n" by simp
    moreover have "n div 10 < bound" if "n < bound" using that by linarith
    moreover have "parse_digits bound m [char_of (48 + n mod 10)] =
        (if m * 10 + n mod 10 < bound then Some (m * 10 + n mod 10) else None)" for m
      using digit_char [of "n mod 10"] by simp
    ultimately show ?thesis
      using less [of "n div 10"] False by (auto simp: parse_digits_append simp del: parse_digits.simps)
  qed
qed

lemma parse_usize_show: "parse_usize (show_nat n) = (if n < 2 ^ 64 then Some n else None)"
proof -
  have "hd (show_nat n) \<noteq> CHR ''+''"
    using show_nat_digits [of n] by (cases "show_nat n") (auto simp: is_digit_def)
  then show ?thesis using show_nat_digits [of n] by (simp add: parse_usize_def parse_digits_show)
qed

lemma length_show_nat: "n < 10 ^ Suc k \<Longrightarrow> length (show_nat n) \<le> Suc k"
proof (induction k arbitrary: n)
  case 0
  then show ?case by (simp add: show_nat.simps)
next
  case (Suc k)
  have "length (show_nat (n div 10)) \<le> Suc k" using Suc by (intro Suc.IH) auto
  then show ?case by (subst show_nat.simps) simp
qed

lemma digit_not_space: "is_digit c \<Longrightarrow> \<not> is_space c"
  by (auto simp: is_digit_def is_space_def)

definition solid :: "char \<Rightarrow> bool" where
  "solid c \<longleftrightarrow> (of_char c :: nat) < 128 \<and> \<not> is_space c"

lemma whitespace_len_simps [simp]:
  "is_space c \<Longrightarrow> whitespace_len (c # s) = 1"
  "solid c \<Longrightarrow> whitespace_len (c # s) = 0"
  "\<not> is_space c \<Longrightarrow> whitespace_len [c] = 0"
  by (auto simp: whitespace_len_def is_space_def solid_def Let_def)

lemma blank_simps [simp]:
  "is_blank []" "solid c \<Longrightarrow> \<not> is_blank (c # s)" "\<not> is_space c \<Longrightarrow> \<not> is_blank [c]"
  "is_space c \<Longrightarrow> is_blank (c # s) = is_blank s"
  by (simp_all add: is_blank_def)

lemma digit_solid: "is_digit c \<Longrightarrow> solid c"
  by (auto simp: is_digit_def is_space_def solid_def)

lemma blank_spaces: "list_all is_space s \<Longrightarrow> is_blank s"
  by (induction s) auto

lemma trim_start_spaces: "list_all is_space l \<Longrightarrow> trim_start (l @ s) = trim_start s"
  by (induction l) auto

lemma trim_end_solid: "list_all solid s \<Longrightarrow> trim_end (s @ t) = s @ trim_end t"
  by (induction s) auto

lemma trim_end_blank: "is_blank s \<Longrightarrow> trim_end s = []"
  by (cases s) auto

lemma trim_solid: "list_all solid s \<Longrightarrow> s \<noteq> [] \<Longrightarrow> \<not> is_space u \<Longrightarrow> trim (s @ [u]) = s @ [u]"
  by (cases s) (simp_all add: trim_def trim_end_solid)

lemma trim_padded:
  assumes "list_all is_space l" and "list_all is_space r" and "list_all is_digit ds" and "ds \<noteq> []"
  shows "trim (l @ ds @ r) = ds"
proof -
  have "list_all solid ds" using assms(3) by (auto simp: list_all_iff digit_solid)
  moreover from this have "trim_start (ds @ r) = ds @ r" using assms(4) by (cases ds) simp_all
  ultimately show ?thesis
    using assms(1,2) by (simp add: trim_def trim_start_spaces trim_end_solid trim_end_blank blank_spaces)
qed

section \<open>Sorting and deduplication\<close>

lemma distinct_remdups_adj_sorted: "sorted xs \<Longrightarrow> distinct (remdups_adj xs)"
  by (induction xs rule: remdups_adj.induct) (auto dest: order.antisym)

lemma dedup_sorted: "remdups_adj (sort xs) = sorted_list_of_set (set xs)"
  by (rule sorted_distinct_set_unique) (simp_all add: distinct_remdups_adj_sorted)

lemma set_map_filter: "set (List.map_filter f xs) = {y. \<exists>x \<in> set xs. f x = Some y}"
  by (induction xs) (auto simp: List.map_filter_simps split: option.splits)

section \<open>Lemmas on time\<close>

lemma num_days_mono: "a \<le> b \<Longrightarrow> num_days a \<le> num_days b"
  unfolding num_days_def by (auto intro: zdiv_mono1 simp: order_trans[of "- _" 0])

lemma num_days_neg_iff: "num_days d < 0 \<longleftrightarrow> d \<le> - NANOS_PER_DAY"
  unfolding num_days_def by auto

lemma num_days_gt_iff: "0 \<le> n \<Longrightarrow> num_days d > n \<longleftrightarrow> d \<ge> (n + 1) * NANOS_PER_DAY"
  unfolding num_days_def by (auto simp: algebra_simps)

section \<open>Lemmas on first occurrences\<close>

lemma set_keep_first_aux:
  "key ` set (keep_first_aux key seen xs) = key ` set xs - set seen"
  by (induction xs arbitrary: seen) auto

lemma keep_first_aux_subset: "set (keep_first_aux key seen xs) \<subseteq> set xs"
  by (induction xs arbitrary: seen) (auto split: if_splits)

lemma distinct_keep_first_aux: "distinct (map key (keep_first_aux key seen xs))"
proof (induction xs arbitrary: seen)
  case (Cons x xs)
  have "key x \<notin> set (map key (keep_first_aux key (key x # seen) xs))"
    using set_keep_first_aux [of key "key x # seen" xs] by force
  with Cons show ?case by simp
qed simp

lemma keep_first_keys [simp]: "key ` set (keep_first key xs) = key ` set xs"
  by (simp add: keep_first_def set_keep_first_aux)

lemma keep_first_subset: "set (keep_first key xs) \<subseteq> set xs"
  by (simp add: keep_first_def keep_first_aux_subset)

lemma distinct_keep_first [simp]: "distinct (map key (keep_first key xs))"
  by (simp add: keep_first_def distinct_keep_first_aux)

lemma keep_first_aux_id:
  "distinct (map key xs) \<Longrightarrow> key ` set xs \<inter> set seen = {} \<Longrightarrow> keep_first_aux key seen xs = xs"
  by (induction xs arbitrary: seen) auto

lemma keep_first_idem [simp]: "keep_first key (keep_first key xs) = keep_first key xs"
  by (metis keep_first_def keep_first_aux_id distinct_keep_first_aux inf_bot_right list.set(1))

lemma keep_first_aux_skip:
  "set xs \<subseteq> set seen \<Longrightarrow> keep_first_aux id seen xs = []"
  by (induction xs) auto

lemma keep_first_id_set [simp]: "set (keep_first id xs) = set xs"
  using keep_first_keys [of id xs] by simp

section \<open>Lemmas on association lists\<close>

lemma map_of_filter_key:
  "map_of (filter (\<lambda>p. P (fst p)) m) k = (if P k then map_of m k else None)"
  by (induction m) auto

lemma map_of_filter_pred:
  "distinct (map fst m) \<Longrightarrow>
   map_of (filter P m) k = (case map_of m k of None \<Rightarrow> None | Some v \<Rightarrow> if P (k, v) then Some v else None)"
proof (induction m)
  case (Cons p m)
  then show ?case
    by (cases p) (auto simp: map_of_eq_None_iff rev_image_eqI split: option.splits)
qed simp

lemma distinct_fst_filter: "distinct (map fst m) \<Longrightarrow> distinct (map fst (filter P m))"
  by (induction m) auto

lemma delete_filter: "AList.delete k m = filter (\<lambda>p. fst p \<noteq> k) m"
  by (simp add: AList.delete_eq case_prod_unfold eq_commute)

lemma length_filter_delete:
  "distinct (map fst m) \<Longrightarrow> map_of m k = Some v \<Longrightarrow>
   length (filter P m) = (if P (k, v) then 1 else 0) + length (filter P (AList.delete k m))"
proof (induction m)
  case (Cons p m)
  show ?case
  proof (cases "fst p = k")
    case True
    with Cons.prems have "p = (k, v)" and "k \<notin> fst ` set m" by (cases p, auto)+
    then have "AList.delete k m = m"
      by (auto simp: delete_filter filter_id_conv)
    with \<open>p = (k, v)\<close> show ?thesis by (simp add: delete_filter)
  next
    case False
    with Cons show ?thesis by (cases p) (simp add: delete_filter)
  qed
qed simp

lemma length_delete:
  "distinct (map fst m) \<Longrightarrow> map_of m k = Some v \<Longrightarrow> length m = Suc (length (AList.delete k m))"
  using length_filter_delete [of m k v "\<lambda>_. True"] by simp

lemma set_delete: "set (AList.delete k m) = {p \<in> set m. fst p \<noteq> k}"
  by (simp add: delete_filter)

lemma mset_update:
  "distinct (map fst m) \<Longrightarrow> mset (AList.update k v m) = add_mset (k, v) (mset (AList.delete k m))"
proof (induction m)
  case (Cons p m)
  show ?case
  proof (cases "fst p = k")
    case True
    with Cons.prems have "AList.delete k m = m"
      by (auto simp: delete_filter filter_id_conv rev_image_eqI)
    with True show ?thesis by (cases p) (simp add: delete_filter)
  next
    case False
    with Cons show ?thesis by (cases p) (simp add: delete_filter)
  qed
qed simp

lemma set_update:
  "distinct (map fst m) \<Longrightarrow> set (AList.update k v m) = insert (k, v) {p \<in> set m. fst p \<noteq> k}"
  using arg_cong [OF mset_update [of m k v], of set_mset] by (simp add: set_delete)

lemma length_filter_update:
  "distinct (map fst m) \<Longrightarrow>
   length (filter P (AList.update k v m)) = (if P (k, v) then 1 else 0) + length (filter P (AList.delete k m))"
  using arg_cong [OF mset_update [of m k v], of "\<lambda>x. size (filter_mset P x)"]
  by (simp flip: mset_filter)

lemma alist_unique: "distinct (map fst m) \<Longrightarrow> map_of m k = Some v \<Longrightarrow> (k, w) \<in> set m \<Longrightarrow> w = v"
  by (metis map_of_is_SomeI option.inject)

section \<open>The ordered index interface\<close>

text \<open>
  What the clients of a \<open>BTreeMap\<close> rely on: the rows kept after an insertion and a removal,
  that both keep the order, and that the first row has the least key.
\<close>

locale ordered_index =
  fixes insert_row :: "'k::linorder \<Rightarrow> 'v \<Rightarrow> 'm \<Rightarrow> 'm"
    and remove_row :: "'k \<Rightarrow> 'm \<Rightarrow> 'm"
    and rows :: "'m \<Rightarrow> ('k \<times> 'v) list"
    and ordered :: "'m \<Rightarrow> bool"
  assumes rows_insert: "ordered m \<Longrightarrow>
      set (rows (insert_row k v m)) = insert (k, v) {p \<in> set (rows m). fst p \<noteq> k}"
    and rows_remove: "ordered m \<Longrightarrow> set (rows (remove_row k m)) = {p \<in> set (rows m). fst p \<noteq> k}"
    and ordered_insert: "ordered m \<Longrightarrow> ordered (insert_row k v m)"
    and ordered_remove: "ordered m \<Longrightarrow> ordered (remove_row k m)"
    and ordered_rows: "ordered m \<Longrightarrow> sorted_wrt (<) (map fst (rows m))"
begin

lemma row_unique:
  "ordered m \<Longrightarrow> (k, v) \<in> set (rows m) \<Longrightarrow> (k, w) \<in> set (rows m) \<Longrightarrow> v = w"
  using ordered_rows [of m] by (meson eq_key_imp_eq_value strict_sorted_iff)

lemma rows_distinct: "ordered m \<Longrightarrow> distinct (rows m)"
  using ordered_rows [of m] by (metis distinct_map strict_sorted_iff)

lemma rows_replace:
  "ordered m \<Longrightarrow> set (rows (insert_row k v (remove_row j m)))
     = insert (k, v) {p \<in> set (rows m). fst p \<noteq> j \<and> fst p \<noteq> k}"
  by (auto simp: rows_insert rows_remove ordered_remove)

lemma first_row_least:
  "ordered m \<Longrightarrow> rows m = p # ps \<Longrightarrow> q \<in> set ps \<Longrightarrow> fst p < fst q"
  using ordered_rows [of m] by auto

end

lemma set_bt_insert:
  "bt_sorted m \<Longrightarrow> set (bt_insert k v m) = insert (k, v) {p \<in> set m. fst p \<noteq> k}"
proof (induction m)
  case (Cons p m)
  then have "\<forall>q \<in> set m. fst p < fst q" by auto
  with Cons show ?case by (auto dest: order.strict_trans)
qed simp

lemma bt_sorted_insert: "bt_sorted m \<Longrightarrow> bt_sorted (bt_insert k v m)"
proof (induction m)
  case (Cons p m)
  then have "fst ` set (bt_insert k v m) \<subseteq> insert k (fst ` set m)"
    by (auto simp: set_bt_insert)
  with Cons show ?case by fastforce
qed simp

lemma bt_sorted_filter: "bt_sorted m \<Longrightarrow> bt_sorted (filter P m)"
  by (induction m) auto

interpretation bt: ordered_index bt_insert bt_remove "\<lambda>m. m" "\<lambda>m. bt_sorted m"
  by unfold_locales (auto simp: set_bt_insert bt_sorted_insert bt_remove_def bt_sorted_filter)

lemma bt_sorted_extend: "bt_sorted m \<Longrightarrow> bt_sorted (bt_extend m ps)"
  by (induction ps arbitrary: m) (auto simp: bt_sorted_insert)

lemma set_bt_extend:
  "bt_sorted m \<Longrightarrow> distinct (map fst (ps @ m)) \<Longrightarrow> set (bt_extend m ps) = set m \<union> set ps"
proof (induction ps arbitrary: m)
  case (Cons p ps)
  from Cons.prems have new: "{q \<in> set m. fst q \<noteq> fst p} = set m"
    by (auto simp: rev_image_eqI)
  then have s: "set (bt_insert (fst p) (snd p) m) = insert p (set m)"
    using Cons.prems by (simp add: set_bt_insert)
  have "distinct (map fst (bt_insert (fst p) (snd p) m))"
    using bt_sorted_insert [OF Cons.prems(1)] by (simp add: strict_sorted_iff)
  then have "distinct (map fst (ps @ bt_insert (fst p) (snd p) m))"
    using Cons.prems(2) by (auto simp: s)
  with Cons.IH [OF bt_sorted_insert [OF Cons.prems(1)]] s show ?case by auto
qed simp

section \<open>Further lemmas on strings and first occurrences\<close>

lemma keep_first_aux_cong: "set l = set l' \<Longrightarrow> keep_first_aux key l xs = keep_first_aux key l' xs"
proof (induction xs arbitrary: l l')
  case (Cons x xs)
  from Cons.prems have "set (key x # l) = set (key x # l')" by simp
  from Cons.IH [OF this] Cons.IH [OF Cons.prems] Cons.prems show ?case by simp
qed simp

lemma keep_first_aux_app:
  "keep_first_aux key l (xs @ ys) = keep_first_aux key l xs @ keep_first_aux key (map key xs @ l) ys"
proof (induction xs arbitrary: l)
  case (Cons x xs)
  have "set (map key xs @ key x # l) = set (map key (x # xs) @ l)" by auto
  then have eq: "keep_first_aux key (map key xs @ key x # l) ys = keep_first_aux key (map key (x # xs) @ l) ys"
    by (rule keep_first_aux_cong)
  show ?case
  proof (cases "key x \<in> set l")
    case True
    then have "set (map key xs @ l) = set (map key (x # xs) @ l)" by auto
    then have "keep_first_aux key (map key xs @ l) ys = keep_first_aux key (map key (x # xs) @ l) ys" by (rule keep_first_aux_cong)
    with True Cons.IH [of l] show ?thesis by simp
  next
    case False
    with Cons.IH [of "key x # l"] eq show ?thesis by simp
  qed
qed simp

lemma split_once_SomeD: "split_once sep s = Some (a, b) \<Longrightarrow> s = a @ sep # b \<and> sep \<notin> set a"
  by (induction s arbitrary: a) (auto split: if_splits)

lemma split_once_NoneD: "split_once sep s = None \<Longrightarrow> sep \<notin> set s"
  by (induction s) (auto split: if_splits)

lemma hd_split_on: "hd (split_on sep s) = takeWhile (\<lambda>c. c \<noteq> sep) s"
  by (induction s) (auto split: list.splits)

lemma last_split_on_absent: "sep \<notin> set s \<Longrightarrow> split_on sep s = [s]"
  by (induction s) auto

lemma starts_with_drop: "starts_with s p \<Longrightarrow> s = p @ drop (length p) s"
  by (auto simp: starts_with_def prefix_def simp del: starts_with_code)

lemma contains_middle: "contains_str (a @ k @ b) k"
  by (simp add: contains_str_iff)

end
