(* ===== verification/Cache_Bucket.thy ===== *)
theory Cache_Bucket
  imports Toolkit_Prelude
begin

text \<open>
  One kind's bucket of the LRU + TTL cache: \<open>Entry\<close>, \<open>Bucket\<close> and every method of
  \<open>impl Bucket\<close> in \<^verbatim>\<open>crates/azapptoolkit-core/src/cache.rs\<close>.

  The entry map is an association list, the LRU index a list sorted by tick.  A typed handle
  (\<open>Arc<dyn Any>\<close>) is a pair of its address and its payload, so that \<open>Arc::ptr_eq\<close> compares
  addresses.  Every method that reads the clock takes \<open>now\<close>.  The counters
  (\<open>tick\<close>, \<open>next_stamp\<close>, \<open>pinned\<close>) are natural numbers: overflowing the 64-bit ones takes
  \<open>2 ^ 64\<close> operations, and \<open>bucket_inv\<close> shows that \<open>pinned\<close> is never decremented at zero.
  The test-only field \<open>expired_sweeps\<close> is left out.

  \<open>bucket_inv now b\<close> is the well-formedness every method keeps: keys distinct, the LRU index
  has exactly one row per live entry under its last-access tick, \<open>pinned\<close> counts the pinned
  entries, stamps are unique and never ahead of \<open>next_stamp\<close>, and \<open>oldest_insert\<close> is a lower
  bound of the insertion times.
\<close>

section \<open>State\<close>

type_synonym 'a typed_ref = "nat \<times> 'a"

record ('j, 'a) entry =
  e_value :: 'j
  e_typed :: "'a typed_ref option"
  e_inserted :: instant
  e_last_access :: nat
  e_pinned :: bool
  e_stamp :: nat

record ('j, 'a) bucket =
  b_entries :: "(string \<times> ('j, 'a) entry) list"
  b_pinned :: nat
  b_lru :: "(nat \<times> string) list"
  b_tick :: nat
  b_oldest_insert :: "instant option"
  b_last_sweep :: "instant option"
  b_next_stamp :: nat

abbreviation b_lookup :: "('j, 'a) bucket \<Rightarrow> string \<Rightarrow> ('j, 'a) entry option" where
  "b_lookup b k \<equiv> map_of (b_entries b) k"

section \<open>Operations\<close>

definition bucket_new :: "('j, 'a) bucket" where
  "bucket_new = \<lparr>b_entries = [], b_pinned = 0, b_lru = [], b_tick = 0, b_oldest_insert = None,
     b_last_sweep = None, b_next_stamp = 0\<rparr>"

definition bucket_touch :: "string \<Rightarrow> ('j, 'a) bucket \<Rightarrow> ('j, 'a) bucket" where
  "bucket_touch key b =
     (let tick = b_tick b + 1; b1 = b\<lparr>b_tick := tick\<rparr> in
      case b_lookup b key of
        None \<Rightarrow> b1
      | Some e \<Rightarrow>
          (let previous = e_last_access e;
               owned = (case map_of (b_lru b) previous of
                          Some o' \<Rightarrow> if o' = key then o' else key
                        | None \<Rightarrow> key)
           in b1\<lparr>b_entries := AList.update key (e\<lparr>e_last_access := tick\<rparr>) (b_entries b),
                 b_lru := bt_insert tick owned (bt_remove previous (b_lru b))\<rparr>))"

definition bucket_insert ::
  "string \<Rightarrow> 'j \<Rightarrow> 'a typed_ref option \<Rightarrow> bool \<Rightarrow> instant \<Rightarrow> ('j, 'a) bucket
     \<Rightarrow> nat \<times> ('j, 'a) bucket" where
  "bucket_insert key v t pin now b =
     (let tick = b_tick b + 1;
          stamp = b_next_stamp b + 1;
          oldest = (case b_oldest_insert b of None \<Rightarrow> Some now | Some x \<Rightarrow> Some x);
          entry = \<lparr>e_value = v, e_typed = t, e_inserted = now, e_last_access = tick,
                   e_pinned = pin, e_stamp = stamp\<rparr>;
          p1 = (if pin then b_pinned b + 1 else b_pinned b);
          es = AList.update key entry (b_entries b);
          (lru1, p2) = (case b_lookup b key of
              None \<Rightarrow> (b_lru b, p1)
            | Some previous \<Rightarrow>
                (bt_remove (e_last_access previous) (b_lru b),
                 if e_pinned previous then p1 - 1 else p1))
      in (stamp,
          b\<lparr>b_entries := es, b_pinned := p2, b_lru := bt_insert tick key lru1, b_tick := tick,
            b_oldest_insert := oldest, b_next_stamp := stamp\<rparr>))"

definition bucket_remove :: "string \<Rightarrow> ('j, 'a) bucket \<Rightarrow> bool \<times> ('j, 'a) bucket" where
  "bucket_remove key b =
     (case b_lookup b key of
        Some previous \<Rightarrow>
          (True, b\<lparr>b_entries := AList.delete key (b_entries b),
                   b_lru := bt_remove (e_last_access previous) (b_lru b),
                   b_pinned := (if e_pinned previous then b_pinned b - 1 else b_pinned b)\<rparr>)
      | None \<Rightarrow> (False, b))"

definition unpinned_len :: "('j, 'a) bucket \<Rightarrow> nat" where
  "unpinned_len b = length (b_entries b) - b_pinned b"

definition remove_if_stamp :: "string \<Rightarrow> nat \<Rightarrow> ('j, 'a) bucket \<Rightarrow> bool \<times> ('j, 'a) bucket" where
  "remove_if_stamp key stamp b =
     (case b_lookup b key of
        Some e \<Rightarrow> if e_stamp e = stamp then bucket_remove key b else (False, b)
      | None \<Rightarrow> (False, b))"

definition ptr_eq :: "'a typed_ref \<Rightarrow> 'a typed_ref \<Rightarrow> bool" where
  "ptr_eq r s \<longleftrightarrow> fst r = fst s"

definition replace_typed_if_same ::
  "string \<Rightarrow> 'a typed_ref \<Rightarrow> 'a typed_ref \<Rightarrow> ('j, 'a) bucket \<Rightarrow> bool \<times> ('j, 'a) bucket" where
  "replace_typed_if_same key expected nxt b =
     (case b_lookup b key of
        Some e \<Rightarrow>
          (if (case e_typed e of Some t \<Rightarrow> ptr_eq t expected | None \<Rightarrow> False)
           then (True, b\<lparr>b_entries := AList.update key (e\<lparr>e_typed := Some nxt\<rparr>) (b_entries b)\<rparr>)
           else (False, b))
      | None \<Rightarrow> (False, b))"

definition holds_typed :: "string \<Rightarrow> 'a typed_ref \<Rightarrow> ('j, 'a) bucket \<Rightarrow> bool" where
  "holds_typed key expected b =
     (case Option.bind (b_lookup b key) e_typed of
        Some t \<Rightarrow> ptr_eq t expected
      | None \<Rightarrow> False)"

definition prune_lru :: "('j, 'a) bucket \<Rightarrow> ('j, 'a) bucket" where
  "prune_lru b =
     b\<lparr>b_lru := filter (\<lambda>(tick, key). case b_lookup b key of
                          Some e \<Rightarrow> e_last_access e = tick | None \<Rightarrow> False) (b_lru b)\<rparr>"

definition bucket_retain :: "(string \<Rightarrow> bool) \<Rightarrow> ('j, 'a) bucket \<Rightarrow> ('j, 'a) bucket" where
  "bucket_retain keep b =
     (let pinned_dropped = length (filter (\<lambda>(k, e). \<not> keep k \<and> e_pinned e) (b_entries b))
      in prune_lru (b\<lparr>b_entries := filter (\<lambda>(k, e). keep k) (b_entries b),
                      b_pinned := b_pinned b - pinned_dropped\<rparr>))"

definition bucket_clear :: "('j, 'a) bucket \<Rightarrow> ('j, 'a) bucket" where
  "bucket_clear b = b\<lparr>b_entries := [], b_pinned := 0, b_lru := [], b_tick := 0,
     b_oldest_insert := None\<rparr>"

fun oldest_of :: "(string \<times> ('j, 'a) entry) list \<Rightarrow> instant option" where
  "oldest_of [] = None"
| "oldest_of ((k, e) # es) =
     (case oldest_of es of None \<Rightarrow> Some (e_inserted e) | Some x \<Rightarrow> Some (min x (e_inserted e)))"

definition evict_expired :: "duration \<Rightarrow> instant \<Rightarrow> ('j, 'a) bucket \<Rightarrow> ('j, 'a) bucket" where
  "evict_expired ttl now b =
     (let kept = filter (\<lambda>(k, e). elapsed now (e_inserted e) \<le> ttl) (b_entries b);
          b1 = prune_lru (b\<lparr>b_entries := kept,
                 b_pinned := length (filter (\<lambda>(k, e). e_pinned e) kept)\<rparr>)
      in b1\<lparr>b_oldest_insert := oldest_of kept, b_last_sweep := Some now\<rparr>)"

definition sweep_after :: "duration \<Rightarrow> duration" where
  "sweep_after ttl = duration_saturating_add ttl (ttl div 8)"

definition at_cap_sweep_interval :: "duration \<Rightarrow> duration" where
  "at_cap_sweep_interval ttl = max (ttl div 64) (from_millis 5)"

fun evict_lru_loop ::
  "nat \<Rightarrow> nat \<Rightarrow> (string \<times> ('j, 'a) entry) list \<Rightarrow> (nat \<times> string) list \<Rightarrow> (nat \<times> string) list
     \<Rightarrow> (string \<times> ('j, 'a) entry) list \<times> (nat \<times> string) list \<times> (nat \<times> string) list" where
  "evict_lru_loop max_size pinned es [] skipped = (es, [], skipped)"
| "evict_lru_loop max_size pinned es ((tick, key) # lru) skipped =
     (if length es - pinned > max_size then
        (case map_of es key of
           Some e \<Rightarrow>
             if e_last_access e \<noteq> tick then evict_lru_loop max_size pinned es lru skipped
             else if e_pinned e
               then evict_lru_loop max_size pinned es lru (skipped @ [(tick, key)])
             else evict_lru_loop max_size pinned (AList.delete key es) lru skipped
         | None \<Rightarrow> evict_lru_loop max_size pinned es lru skipped)
      else (es, (tick, key) # lru, skipped))"

definition evict_lru :: "nat \<Rightarrow> ('j, 'a) bucket \<Rightarrow> ('j, 'a) bucket" where
  "evict_lru max_size b =
     (let (es, lru, skipped) = evict_lru_loop max_size (b_pinned b) (b_entries b) (b_lru b) []
      in b\<lparr>b_entries := es, b_lru := bt_extend lru skipped\<rparr>)"

definition evict_if_needed ::
  "duration \<Rightarrow> nat \<Rightarrow> instant \<Rightarrow> ('j, 'a) bucket \<Rightarrow> ('j, 'a) bucket" where
  "evict_if_needed ttl max_size now b =
     (let over_cap = unpinned_len b > max_size;
          exact_allowed = (over_cap \<and>
            (case b_last_sweep b of None \<Rightarrow> True | Some t \<Rightarrow> elapsed now t > at_cap_sweep_interval ttl));
          limit = (if exact_allowed then ttl else sweep_after ttl);
          anything_expired =
            (case b_oldest_insert b of None \<Rightarrow> False | Some o' \<Rightarrow> elapsed now o' > limit)
      in if \<not> anything_expired \<and> \<not> over_cap then b
         else evict_lru max_size (if anything_expired then evict_expired ttl now b else b))"

section \<open>Well-formedness\<close>

definition lru_rows :: "(string \<times> ('j, 'a) entry) list \<Rightarrow> (nat \<times> string) set" where
  "lru_rows es = (\<lambda>(k, e). (e_last_access e, k)) ` set es"

definition n_pinned :: "(string \<times> ('j, 'a) entry) list \<Rightarrow> nat" where
  "n_pinned es = length (filter (\<lambda>(k, e). e_pinned e) es)"

definition lru_inv :: "nat \<Rightarrow> (string \<times> ('j, 'a) entry) list \<Rightarrow> (nat \<times> string) list \<Rightarrow> bool" where
  "lru_inv tick es lru \<longleftrightarrow> distinct (map fst es) \<and> bt_sorted lru \<and> set lru = lru_rows es
     \<and> (\<forall>r \<in> set lru. fst r \<le> tick)"

definition stamp_inv :: "nat \<Rightarrow> (string \<times> ('j, 'a) entry) list \<Rightarrow> bool" where
  "stamp_inv next es \<longleftrightarrow> inj_on (\<lambda>p. e_stamp (snd p)) (set es) \<and> (\<forall>p \<in> set es. e_stamp (snd p) \<le> next)"

definition oldest_inv ::
  "instant \<Rightarrow> instant option \<Rightarrow> (string \<times> ('j, 'a) entry) list \<Rightarrow> bool" where
  "oldest_inv now oldest es \<longleftrightarrow>
     (case oldest of
        None \<Rightarrow> es = []
      | Some x \<Rightarrow> x \<le> now \<and> (\<forall>p \<in> set es. x \<le> e_inserted (snd p) \<and> e_inserted (snd p) \<le> now))"

definition bucket_inv :: "instant \<Rightarrow> ('j, 'a) bucket \<Rightarrow> bool" where
  "bucket_inv now b \<longleftrightarrow>
     lru_inv (b_tick b) (b_entries b) (b_lru b)
   \<and> b_pinned b = n_pinned (b_entries b)
   \<and> stamp_inv (b_next_stamp b) (b_entries b)
   \<and> oldest_inv now (b_oldest_insert b) (b_entries b)"

lemma bucket_inv_distinct: "bucket_inv now b \<Longrightarrow> distinct (map fst (b_entries b))"
  by (simp add: bucket_inv_def lru_inv_def)

lemma bucket_inv_later: "bucket_inv now b \<Longrightarrow> now \<le> now' \<Longrightarrow> bucket_inv now' b"
  by (auto simp: bucket_inv_def oldest_inv_def split: option.splits)

section \<open>Dropping entries keeps every part of the invariant\<close>

lemma lru_rows_filter_key:
  "lru_rows (filter (\<lambda>p. fst p \<noteq> k) es) = {r \<in> lru_rows es. snd r \<noteq> k}"
  by (auto simp: lru_rows_def)

lemma stamp_inv_subset: "stamp_inv n es \<Longrightarrow> set fs \<subseteq> set es \<Longrightarrow> stamp_inv n fs"
  by (auto simp: stamp_inv_def intro: inj_on_subset)

lemma oldest_inv_subset: "oldest_inv now x es \<Longrightarrow> set fs \<subseteq> set es \<Longrightarrow> oldest_inv now x fs"
  by (auto simp: oldest_inv_def split: option.splits)

lemma lru_inv_row:
  assumes "lru_inv tick es lru" and "map_of es k = Some e"
  shows "(e_last_access e, k) \<in> set lru"
  using assms by (auto simp: lru_inv_def lru_rows_def dest!: map_of_SomeD intro!: image_eqI)

lemma lru_inv_tick_key:
  assumes "lru_inv tick es lru" and "map_of es k = Some e" and "r \<in> set lru"
  shows "fst r = e_last_access e \<longleftrightarrow> snd r = k"
proof -
  have row: "(e_last_access e, k) \<in> set lru" using assms(1,2) by (rule lru_inv_row)
  have s: "bt_sorted lru" using assms(1) by (simp add: lru_inv_def)
  show ?thesis
  proof
    assume "fst r = e_last_access e"
    with row assms(3) show "snd r = k" using bt.row_unique [OF s] by (metis prod.collapse)
  next
    assume "snd r = k"
    with assms(3) obtain e' where "(k, e') \<in> set es" and "fst r = e_last_access e'"
      using assms(1) by (auto simp: lru_inv_def lru_rows_def)
    with assms(1,2) show "fst r = e_last_access e" by (simp add: lru_inv_def)
  qed
qed

lemma lru_inv_delete:
  assumes "lru_inv tick es lru" and "map_of es k = Some e"
  shows "lru_inv tick (AList.delete k es) (bt_remove (e_last_access e) lru)"
proof -
  have s: "bt_sorted lru" using assms(1) by (simp add: lru_inv_def)
  have "set (bt_remove (e_last_access e) lru) = {r \<in> set lru. snd r \<noteq> k}"
    using lru_inv_tick_key [OF assms] by (auto simp: bt.rows_remove [OF s])
  with assms(1) bt.ordered_remove [OF s] show ?thesis
    by (auto simp: lru_inv_def delete_filter lru_rows_filter_key distinct_fst_filter)
qed

lemma n_pinned_delete:
  assumes "distinct (map fst es)" and "map_of es k = Some e"
  shows "n_pinned es = (if e_pinned e then 1 else 0) + n_pinned (AList.delete k es)"
  using length_filter_delete [OF assms, of "\<lambda>(k, e). e_pinned e"] by (simp add: n_pinned_def)

lemma bucket_remove_inv:
  assumes "bucket_inv now b" shows "bucket_inv now (snd (bucket_remove key b))"
proof (cases "b_lookup b key")
  case (Some e)
  note d = bucket_inv_distinct [OF assms]
  have "set (AList.delete key (b_entries b)) \<subseteq> set (b_entries b)" by (auto simp: set_delete)
  with assms Some show ?thesis
    by (auto simp: bucket_inv_def bucket_remove_def lru_inv_delete n_pinned_delete [OF d Some]
             intro: stamp_inv_subset oldest_inv_subset)
qed (use assms in \<open>simp add: bucket_remove_def\<close>)

lemma bucket_remove_lookup:
  "b_lookup (snd (bucket_remove key b)) k = (if k = key then None else b_lookup b k)"
  by (auto simp: bucket_remove_def delete_conv' split: option.splits)

lemma lru_inv_prune:
  assumes "lru_inv tick es lru" and "fs = filter P es"
  shows "lru_inv tick fs (filter (\<lambda>(t, k). case map_of fs k of Some e \<Rightarrow> e_last_access e = t | None \<Rightarrow> False) lru)"
    (is "lru_inv _ _ (filter ?live lru)")
proof -
  have d: "distinct (map fst fs)" using assms by (auto simp: lru_inv_def intro: distinct_fst_filter)
  have live: "?live r \<longleftrightarrow> r \<in> lru_rows fs" for r
  proof (cases r)
    case (Pair t k)
    have "r \<in> lru_rows fs \<longleftrightarrow> (\<exists>e. (k, e) \<in> set fs \<and> e_last_access e = t)"
      by (auto simp: lru_rows_def Pair intro: image_eqI)
    moreover have "?live r \<longleftrightarrow> (\<exists>e. map_of fs k = Some e \<and> e_last_access e = t)"
      by (cases "map_of fs k") (simp_all add: Pair)
    ultimately show ?thesis by (simp add: map_of_eq_Some_iff [OF d])
  qed
  have "lru_rows fs \<subseteq> set lru" using assms by (auto simp: lru_inv_def lru_rows_def)
  with assms d live show ?thesis by (auto simp: lru_inv_def bt_sorted_filter)
qed

lemma length_filter_split:
  "length (filter P xs) = length (filter (\<lambda>x. Q x \<and> P x) xs) + length (filter (\<lambda>x. \<not> Q x \<and> P x) xs)"
  by (induction xs) auto

lemma bucket_retain_inv:
  assumes "bucket_inv now b" shows "bucket_inv now (bucket_retain keep b)"
proof -
  let ?fs = "filter (\<lambda>(k, e). keep k) (b_entries b)"
  have "n_pinned (b_entries b)
          = n_pinned ?fs + length (filter (\<lambda>(k, e). \<not> keep k \<and> e_pinned e) (b_entries b))"
    using length_filter_split [of "\<lambda>(k, e). e_pinned e" "b_entries b" "\<lambda>(k, e). keep k"]
    by (simp add: n_pinned_def case_prod_unfold conj_commute)
  with assms show ?thesis
    by (auto simp: bucket_inv_def bucket_retain_def prune_lru_def Let_def lru_inv_prune
             intro: stamp_inv_subset oldest_inv_subset)
qed

lemma bucket_retain_lookup:
  "b_lookup (bucket_retain keep b) k = (if keep k then b_lookup b k else None)"
  using map_of_filter_key [of keep "b_entries b" k]
  by (simp add: bucket_retain_def prune_lru_def Let_def case_prod_unfold)

lemma oldest_of_spec:
  "oldest_of es = None \<longleftrightarrow> es = []"
  "oldest_of es = Some x \<Longrightarrow> (\<exists>p \<in> set es. e_inserted (snd p) = x) \<and> (\<forall>p \<in> set es. x \<le> e_inserted (snd p))"
proof -
  show "oldest_of es = None \<longleftrightarrow> es = []" by (cases es) (auto split: option.splits)
  show "oldest_of es = Some x \<Longrightarrow> (\<exists>p \<in> set es. e_inserted (snd p) = x) \<and> (\<forall>p \<in> set es. x \<le> e_inserted (snd p))"
  proof (induction es arbitrary: x rule: oldest_of.induct)
    case (2 k e es)
    show ?case
    proof (cases "oldest_of es")
      case None
      then have "es = []" by (cases es) (auto split: option.splits)
      with "2.prems" show ?thesis by simp
    next
      case (Some y)
      with "2.prems" have x: "x = min y (e_inserted e)" by simp
      from "2.IH" [OF Some] obtain p where "p \<in> set es" "e_inserted (snd p) = y"
        and "\<forall>q \<in> set es. y \<le> e_inserted (snd q)" by auto
      with x show ?thesis by (cases "y \<le> e_inserted e") auto
    qed
  qed simp
qed

lemma evict_expired_inv:
  assumes "bucket_inv now b" shows "bucket_inv now (evict_expired ttl now b)"
proof -
  let ?kept = "filter (\<lambda>(k, e). elapsed now (e_inserted e) \<le> ttl) (b_entries b)"
  have "oldest_inv now (oldest_of ?kept) ?kept"
  proof (cases "oldest_of ?kept")
    case None then show ?thesis by (simp add: oldest_inv_def oldest_of_spec(1))
  next
    case (Some x)
    from oldest_of_spec(2) [OF Some] assms Some show ?thesis
      by (fastforce simp: oldest_inv_def bucket_inv_def split: option.splits)
  qed
  with assms show ?thesis
    by (auto simp: bucket_inv_def evict_expired_def prune_lru_def Let_def lru_inv_prune n_pinned_def
             intro: stamp_inv_subset)
qed

lemma evict_expired_lookup:
  assumes "bucket_inv now b"
  shows "b_lookup (evict_expired ttl now b) k =
     (case b_lookup b k of
        Some e \<Rightarrow> if elapsed now (e_inserted e) \<le> ttl then Some e else None | None \<Rightarrow> None)"
  using map_of_filter_pred [OF bucket_inv_distinct [OF assms], of "\<lambda>(k, e). elapsed now (e_inserted e) \<le> ttl" k]
  by (simp add: evict_expired_def prune_lru_def Let_def split: option.splits)

section \<open>Adding and touching entries\<close>

lemma lru_rows_update:
  assumes "distinct (map fst es)"
  shows "lru_rows (AList.update k e es) = insert (e_last_access e, k) {r \<in> lru_rows es. snd r \<noteq> k}"
  by (auto simp: lru_rows_def set_update [OF assms])

lemma lru_inv_tick: "lru_inv tick es lru \<Longrightarrow> (a, k) \<in> lru_rows es \<Longrightarrow> a \<le> tick"
  by (force simp: lru_inv_def)

lemma lru_inv_fresh:
  assumes "lru_inv tick es lru" and "map_of es k = None" and "e_last_access e = tick + 1"
  shows "lru_inv (tick + 1) (AList.update k e es) (bt_insert (tick + 1) k lru)"
proof -
  have s: "bt_sorted lru" and d: "distinct (map fst es)" and t: "\<forall>r \<in> set lru. fst r \<le> tick"
    and rows: "set lru = lru_rows es" using assms(1) by (auto simp: lru_inv_def)
  have "{r \<in> set lru. fst r \<noteq> tick + 1} = {r \<in> lru_rows es. snd r \<noteq> k}"
    using t rows assms(2) by (auto simp: lru_rows_def map_of_eq_None_iff rev_image_eqI)
  with t assms(3) d bt.rows_insert [OF s, of "tick + 1" k] show ?thesis
    by (auto simp: lru_inv_def lru_rows_update [OF d] distinct_update bt.ordered_insert [OF s]
        dest: lru_inv_tick [OF assms(1)])
qed

lemma lru_inv_refresh:
  assumes "lru_inv tick es lru" and "map_of es k = Some p" and "e_last_access e = tick + 1"
  shows "lru_inv (tick + 1) (AList.update k e es) (bt_insert (tick + 1) k (bt_remove (e_last_access p) lru))"
proof -
  have s: "bt_sorted lru" and d: "distinct (map fst es)" and t: "\<forall>r \<in> set lru. fst r \<le> tick"
    and rows: "set lru = lru_rows es" using assms(1) by (auto simp: lru_inv_def)
  have "{r \<in> set lru. fst r \<noteq> e_last_access p \<and> fst r \<noteq> tick + 1} = {r \<in> lru_rows es. snd r \<noteq> k}"
    using t rows lru_inv_tick_key [OF assms(1,2)] by auto
  with t assms(3) d show ?thesis
    by (auto simp: lru_inv_def lru_rows_update [OF d] distinct_update bt.rows_replace [OF s]
        bt.ordered_insert [OF bt.ordered_remove [OF s]] dest: lru_inv_tick [OF assms(1)])
qed

lemma n_pinned_update:
  assumes "distinct (map fst es)"
  shows "n_pinned (AList.update k e es) = (if e_pinned e then 1 else 0) + n_pinned (AList.delete k es)"
  using length_filter_update [OF assms, of "\<lambda>(k, e). e_pinned e"] by (simp add: n_pinned_def)

lemma delete_absent: "map_of es k = None \<Longrightarrow> AList.delete k es = es"
  by (auto simp: delete_filter filter_id_conv map_of_eq_None_iff rev_image_eqI)

lemma bucket_insert_entries:
  "b_entries (snd (bucket_insert key v t pin now b)) =
     AList.update key \<lparr>e_value = v, e_typed = t, e_inserted = now, e_last_access = b_tick b + 1,
       e_pinned = pin, e_stamp = b_next_stamp b + 1\<rparr> (b_entries b)"
  by (simp add: bucket_insert_def Let_def split: prod.split)

lemma bucket_insert_stamp: "fst (bucket_insert key v t pin now b) = b_next_stamp b + 1"
  by (simp add: bucket_insert_def Let_def split: prod.split)

lemma bucket_insert_pinned_le:
  assumes "bucket_inv now b" and "b_lookup b key = Some e" and "e_pinned e"
  shows "0 < b_pinned b"
  using assms n_pinned_delete [OF bucket_inv_distinct [OF assms(1)] assms(2)]
  by (simp add: bucket_inv_def)

lemma bucket_insert_inv:
  assumes inv: "bucket_inv now b" and "now \<le> now'"
  shows "bucket_inv now' (snd (bucket_insert key v t pin now' b))"
proof -
  note d = bucket_inv_distinct [OF inv]
  define e where "e = \<lparr>e_value = v, e_typed = t, e_inserted = now', e_last_access = b_tick b + 1,
       e_pinned = pin, e_stamp = b_next_stamp b + 1\<rparr>"
  let ?es = "AList.update key e (b_entries b)"
  let ?b = "snd (bucket_insert key v t pin now' b)"
  have L: "lru_inv (b_tick b) (b_entries b) (b_lru b)" using inv by (simp add: bucket_inv_def)
  have ent: "b_entries ?b = ?es" by (simp add: bucket_insert_entries e_def)
  have lru: "lru_inv (b_tick ?b) ?es (b_lru ?b)"
    using lru_inv_fresh [OF L, of key e] lru_inv_refresh [OF L, of key _ e]
    by (cases "b_lookup b key") (simp_all add: bucket_insert_def e_def Let_def)
  have pin: "b_pinned ?b = n_pinned ?es"
    using inv n_pinned_delete [OF d, of key]
    by (cases "b_lookup b key")
      (auto simp: bucket_insert_def Let_def n_pinned_update [OF d] e_def bucket_inv_def delete_absent)
  have st: "stamp_inv (b_next_stamp ?b) ?es"
    using inv by (auto simp: bucket_inv_def stamp_inv_def set_update [OF d] bucket_insert_def e_def
      Let_def inj_on_def split: prod.splits)
  have old: "oldest_inv now' (b_oldest_insert ?b) ?es"
    using inv assms(2)
    by (fastforce simp: bucket_inv_def oldest_inv_def set_update [OF d] bucket_insert_def e_def
      Let_def split: prod.splits option.splits)
  from lru pin st old ent show ?thesis by (simp add: bucket_inv_def)
qed

lemma bucket_touch_inv:
  assumes inv: "bucket_inv now b" shows "bucket_inv now (bucket_touch key b)"
proof (cases "b_lookup b key")
  case None
  with inv show ?thesis
    by (auto simp: bucket_touch_def bucket_inv_def lru_inv_def intro: le_SucI)
next
  case (Some e)
  note d = bucket_inv_distinct [OF inv]
  let ?e = "e\<lparr>e_last_access := b_tick b + 1\<rparr>"
  have mem: "(key, e) \<in> set (b_entries b)" using Some by (rule map_of_SomeD)
  have L: "lru_inv (b_tick b) (b_entries b) (b_lru b)" using inv by (simp add: bucket_inv_def)
  have owned: "(case map_of (b_lru b) (e_last_access e) of
      Some o' \<Rightarrow> if o' = key then o' else key | None \<Rightarrow> key) = key"
    by (simp split: option.split)
  have "n_pinned (AList.update key ?e (b_entries b)) = n_pinned (b_entries b)"
    by (simp add: n_pinned_update [OF d] n_pinned_delete [OF d Some])
  moreover have "stamp_inv (b_next_stamp b) (AList.update key ?e (b_entries b))"
    using inv mem by (auto simp: bucket_inv_def stamp_inv_def set_update [OF d] inj_on_def) fastforce+
  moreover have "oldest_inv now (b_oldest_insert b) (AList.update key ?e (b_entries b))"
    using inv mem by (fastforce simp: bucket_inv_def oldest_inv_def set_update [OF d] split: option.splits)
  ultimately show ?thesis
    using lru_inv_refresh [OF L Some, of ?e] inv Some owned
    by (simp add: bucket_inv_def bucket_touch_def Let_def)
qed

lemma bucket_touch_lookup:
  "b_lookup (bucket_touch key b) k =
     (if k = key then map_option (\<lambda>e. e\<lparr>e_last_access := b_tick b + 1\<rparr>) (b_lookup b k) else b_lookup b k)"
  by (auto simp: bucket_touch_def Let_def update_conv' split: option.splits)

lemma replace_typed_inv:
  assumes inv: "bucket_inv now b" shows "bucket_inv now (snd (replace_typed_if_same key r s b))"
proof (cases "b_lookup b key")
  case (Some e)
  note d = bucket_inv_distinct [OF inv]
  let ?e = "e\<lparr>e_typed := Some s\<rparr>"
  have mem: "(key, e) \<in> set (b_entries b)" using Some by (rule map_of_SomeD)
  have "lru_rows (AList.update key ?e (b_entries b)) = lru_rows (b_entries b)"
    using mem d by (auto simp: lru_rows_update [OF d]) (auto simp: lru_rows_def rev_image_eqI dest: eq_key_imp_eq_value)
  moreover have "n_pinned (AList.update key ?e (b_entries b)) = n_pinned (b_entries b)"
    by (simp add: n_pinned_update [OF d] n_pinned_delete [OF d Some])
  moreover have "stamp_inv (b_next_stamp b) (AList.update key ?e (b_entries b))"
    using inv mem by (auto simp: bucket_inv_def stamp_inv_def set_update [OF d] inj_on_def) fastforce+
  moreover have "oldest_inv now (b_oldest_insert b) (AList.update key ?e (b_entries b))"
    using inv mem by (fastforce simp: bucket_inv_def oldest_inv_def set_update [OF d] split: option.splits)
  ultimately show ?thesis
    using inv Some by (auto simp: bucket_inv_def lru_inv_def replace_typed_if_same_def distinct_update)
qed (use inv in \<open>simp add: replace_typed_if_same_def\<close>)

lemma bucket_new_inv: "bucket_inv now bucket_new"
  by (simp add: bucket_inv_def bucket_new_def lru_inv_def stamp_inv_def oldest_inv_def lru_rows_def n_pinned_def)

lemma bucket_clear_inv: "bucket_inv now (bucket_clear b)"
  by (simp add: bucket_inv_def bucket_clear_def lru_inv_def stamp_inv_def oldest_inv_def lru_rows_def n_pinned_def)

lemma remove_if_stamp_inv: "bucket_inv now b \<Longrightarrow> bucket_inv now (snd (remove_if_stamp key st b))"
  by (auto simp: remove_if_stamp_def bucket_remove_inv split: option.splits)

section \<open>The LRU eviction loop\<close>

text \<open>
  Between two iterations the skipped rows and the rest of the index together are the index of
  the remaining entries, and every skipped row belongs to a pinned entry.
\<close>

definition loop_inv ::
  "nat \<Rightarrow> (string \<times> ('j, 'a) entry) list \<Rightarrow> (nat \<times> string) list \<Rightarrow> (nat \<times> string) list \<Rightarrow> bool" where
  "loop_inv pinned es lru skipped \<longleftrightarrow>
     distinct (map fst es) \<and> bt_sorted (skipped @ lru) \<and> set (skipped @ lru) = lru_rows es
   \<and> pinned = n_pinned es \<and> (\<forall>r \<in> set skipped. \<exists>e. (snd r, e) \<in> set es \<and> e_pinned e)"

lemma loop_inv_row:
  assumes "loop_inv pinned es ((tick, key) # lru) skipped"
  obtains e where "map_of es key = Some e" and "e_last_access e = tick"
proof -
  from assms have "(tick, key) \<in> lru_rows es" by (auto simp: loop_inv_def)
  with assms that show thesis by (auto simp: loop_inv_def lru_rows_def)
qed

lemma loop_inv_skip:
  assumes "loop_inv pinned es ((tick, key) # lru) skipped"
    and "map_of es key = Some e" and "e_pinned e"
  shows "loop_inv pinned es lru (skipped @ [(tick, key)])"
  using assms by (auto simp: loop_inv_def dest: map_of_SomeD)

lemma loop_inv_evict:
  assumes L: "loop_inv pinned es ((tick, key) # lru) skipped"
    and e: "map_of es key = Some e" "e_last_access e = tick" "\<not> e_pinned e"
  shows "loop_inv pinned (AList.delete key es) lru skipped"
proof -
  have d: "distinct (map fst es)" and s: "bt_sorted (skipped @ (tick, key) # lru)"
    and rows: "set (skipped @ (tick, key) # lru) = lru_rows es"
    using L by (auto simp: loop_inv_def)
  have "(tick, key) \<notin> set (skipped @ lru)"
    using bt.rows_distinct [OF s] by simp
  then have "set (skipped @ lru) = lru_rows es - {(tick, key)}" using rows by auto
  also have "\<dots> = {r \<in> lru_rows es. snd r \<noteq> key}"
  proof -
    have "r = (tick, key)" if "r \<in> lru_rows es" "snd r = key" for r
    proof -
      from that obtain f where "(key, f) \<in> set es" and r: "r = (e_last_access f, key)"
        by (auto simp: lru_rows_def)
      then have "f = e" using alist_unique [OF d e(1)] by simp
      with r e(2) show ?thesis by simp
    qed
    then have "(r \<noteq> (tick, key)) = (snd r \<noteq> key)" if "r \<in> lru_rows es" for r
      using that by (metis snd_conv)
    then show ?thesis by blast
  qed
  also have "\<dots> = lru_rows (AList.delete key es)"
    by (simp add: delete_filter lru_rows_filter_key)
  finally have "set (skipped @ lru) = lru_rows (AList.delete key es)" .
  moreover have "pinned = n_pinned (AList.delete key es)"
    using L n_pinned_delete [OF d e(1)] e(3) by (simp add: loop_inv_def)
  moreover have "\<forall>r \<in> set skipped. \<exists>e. (snd r, e) \<in> set (AList.delete key es) \<and> e_pinned e"
  proof
    fix r assume "r \<in> set skipped"
    then obtain f where f: "(snd r, f) \<in> set es" "e_pinned f" using L by (auto simp: loop_inv_def)
    moreover have "snd r \<noteq> key" using f e(3) alist_unique [OF d e(1)] by metis
    ultimately show "\<exists>e. (snd r, e) \<in> set (AList.delete key es) \<and> e_pinned e"
      by (auto simp: set_delete)
  qed
  ultimately show ?thesis
    using s d by (auto simp: loop_inv_def sorted_wrt_append delete_filter distinct_fst_filter)
qed

lemma loop_inv_all_skipped:
  assumes "loop_inv pinned es [] skipped" shows "length es = pinned"
proof -
  have "e_pinned e" if "(k, e) \<in> set es" for k e
  proof -
    from that have "(e_last_access e, k) \<in> set skipped"
      using assms by (auto simp: loop_inv_def lru_rows_def intro: rev_image_eqI)
    with assms obtain e' where "(k, e') \<in> set es" and "e_pinned e'"
      by (fastforce simp: loop_inv_def)
    with that assms show ?thesis by (auto simp: loop_inv_def dest: eq_key_imp_eq_value)
  qed
  then have "filter (\<lambda>(k, e). e_pinned e) es = es" by (auto simp: filter_id_conv)
  with assms show ?thesis by (simp add: loop_inv_def n_pinned_def)
qed

text \<open>One case analysis for every fact about the loop: stop, skip a pinned row, evict.\<close>

lemma evict_lru_loop_induct [consumes 1, case_names stop skip evict]:
  assumes "loop_inv pinned es lru skipped"
    and stop: "\<And>es lru skipped. loop_inv pinned es lru skipped \<Longrightarrow> lru = [] \<or> length es - pinned \<le> max_size \<Longrightarrow>
       evict_lru_loop max_size pinned es lru skipped = (es, lru, skipped) \<Longrightarrow> P es lru skipped (es, lru, skipped)"
    and skip: "\<And>es tick key lru skipped e. loop_inv pinned es ((tick, key) # lru) skipped \<Longrightarrow>
       map_of es key = Some e \<Longrightarrow> e_last_access e = tick \<Longrightarrow> e_pinned e \<Longrightarrow> length es - pinned > max_size \<Longrightarrow>
       P es lru (skipped @ [(tick, key)]) (evict_lru_loop max_size pinned es lru (skipped @ [(tick, key)])) \<Longrightarrow>
       P es ((tick, key) # lru) skipped (evict_lru_loop max_size pinned es lru (skipped @ [(tick, key)]))"
    and evict: "\<And>es tick key lru skipped e. loop_inv pinned es ((tick, key) # lru) skipped \<Longrightarrow>
       map_of es key = Some e \<Longrightarrow> e_last_access e = tick \<Longrightarrow> \<not> e_pinned e \<Longrightarrow> length es - pinned > max_size \<Longrightarrow>
       P (AList.delete key es) lru skipped (evict_lru_loop max_size pinned (AList.delete key es) lru skipped) \<Longrightarrow>
       P es ((tick, key) # lru) skipped (evict_lru_loop max_size pinned (AList.delete key es) lru skipped)"
  shows "P es lru skipped (evict_lru_loop max_size pinned es lru skipped)"
  using assms(1)
proof (induction lru arbitrary: es skipped)
  case Nil
  then show ?case using stop by simp
next
  case (Cons r lru)
  obtain tick key where r: "r = (tick, key)" by (cases r)
  obtain e where e: "map_of es key = Some e" "e_last_access e = tick"
    using Cons.prems unfolding r by (rule loop_inv_row)
  consider "length es - pinned \<le> max_size" | "length es - pinned > max_size" "e_pinned e"
    | "length es - pinned > max_size" "\<not> e_pinned e" by linarith
  then show ?case
  proof cases
    case 1
    then show ?thesis using stop [OF Cons.prems] by (simp add: r)
  next
    case 2
    have "loop_inv pinned es lru (skipped @ [(tick, key)])"
      using loop_inv_skip Cons.prems e 2 unfolding r by blast
    from skip [OF Cons.prems [unfolded r] e 2(2,1) Cons.IH [OF this]] show ?thesis
      using e 2 by (simp add: r)
  next
    case 3
    have "loop_inv pinned (AList.delete key es) lru skipped"
      using loop_inv_evict Cons.prems e 3 unfolding r by blast
    from evict [OF Cons.prems [unfolded r] e 3(2,1) Cons.IH [OF this]] show ?thesis
      using e 3 by (simp add: r)
  qed
qed

lemma evict_lru_loop_inv:
  assumes "loop_inv pinned es lru skipped"
  shows "case evict_lru_loop max_size pinned es lru skipped of
     (es', lru', skipped') \<Rightarrow> loop_inv pinned es' lru' skipped' \<and> suffix lru' lru \<and> set es' \<subseteq> set es"
  using assms
proof (induction rule: evict_lru_loop_induct [where max_size = max_size])
  case (skip es tick key lru skipped e)
  then show ?case by (auto simp: suffix_Cons split: prod.splits)
next
  case (evict es tick key lru skipped e)
  then show ?case by (auto simp: suffix_Cons set_delete split: prod.splits)
qed auto

lemma evict_lru_loop_len:
  assumes "loop_inv pinned es lru skipped"
  shows "length (fst (evict_lru_loop max_size pinned es lru skipped)) - pinned
           = min max_size (length es - pinned)"
  using assms
proof (induction rule: evict_lru_loop_induct [where max_size = max_size])
  case (stop es lru skipped)
  then show ?case using loop_inv_all_skipped [of pinned es skipped] by auto
next
  case (evict es tick key lru skipped e)
  then have "length es = Suc (length (AList.delete key es))"
    by (auto simp: loop_inv_def intro: length_delete)
  with evict show ?case by simp
qed auto

lemma evict_lru_loop_order:
  assumes "loop_inv pinned es lru skipped"
  shows "\<forall>p \<in> set es - set (fst (evict_lru_loop max_size pinned es lru skipped)).
     \<not> e_pinned (snd p)
   \<and> (\<forall>q \<in> set (fst (evict_lru_loop max_size pinned es lru skipped)).
        \<not> e_pinned (snd q) \<longrightarrow> e_last_access (snd p) < e_last_access (snd q))"
  using assms
proof (induction rule: evict_lru_loop_induct [where max_size = max_size])
  case (evict es tick key lru skipped e)
  let ?es = "AList.delete key es"
  obtain es' lru' skipped' where res: "evict_lru_loop max_size pinned ?es lru skipped = (es', lru', skipped')"
    by (metis prod_cases3)
  have after: "loop_inv pinned es' lru' skipped'" "suffix lru' lru"
    using evict_lru_loop_inv [OF loop_inv_evict [OF evict.hyps(1-4)], of max_size] res by auto
  have young: "tick < e_last_access (snd q)" if "q \<in> set es'" "\<not> e_pinned (snd q)" for q
  proof -
    obtain k f where q: "q = (k, f)" by (cases q)
    have "(e_last_access f, k) \<in> set (skipped' @ lru')"
      using after(1) that q by (auto simp: loop_inv_def lru_rows_def intro: rev_image_eqI)
    moreover have "(e_last_access f, k) \<notin> set skipped'"
      using after(1) that q by (fastforce simp: loop_inv_def dest: eq_key_imp_eq_value)
    ultimately have "(e_last_access f, k) \<in> set lru"
      using set_mono_suffix [OF after(2)] by auto
    moreover have "bt_sorted ((tick, key) # lru)"
      using evict.hyps(1) by (auto simp: loop_inv_def sorted_wrt_append)
    ultimately show ?thesis by (auto simp: q)
  qed
  have d: "distinct (map fst es)" using evict.hyps(1) by (simp add: loop_inv_def)
  have "p = (key, e)" if "p \<in> set es - set es'" "p \<notin> set ?es" for p
    using that alist_unique [OF d evict.hyps(2)] by (cases p) (auto simp: set_delete)
  moreover have "q \<in> set es' \<Longrightarrow> \<not> e_pinned (snd q) \<Longrightarrow> p \<in> set ?es - set es' \<Longrightarrow>
      e_last_access (snd p) < e_last_access (snd q)" "p \<in> set ?es - set es' \<Longrightarrow> \<not> e_pinned (snd p)" for p q
    using evict.IH by (auto simp: res)
  ultimately show ?case
    using evict.hyps(3,4) young by (metis DiffD1 DiffD2 DiffI fst_conv res snd_conv)
qed auto

section \<open>Eviction of a whole bucket\<close>

lemma entry_tick: "bucket_inv now b \<Longrightarrow> p \<in> set (b_entries b) \<Longrightarrow> e_last_access (snd p) \<le> b_tick b"
  using lru_inv_tick [of "b_tick b" "b_entries b" "b_lru b" "e_last_access (snd p)" "fst p"]
  by (auto simp: bucket_inv_def lru_rows_def rev_image_eqI case_prod_unfold)

lemma bucket_loop_inv: "bucket_inv now b \<Longrightarrow> loop_inv (b_pinned b) (b_entries b) (b_lru b) []"
  by (simp add: bucket_inv_def lru_inv_def loop_inv_def)

lemma evict_lru_pinned [simp]: "b_pinned (evict_lru max_size b) = b_pinned b"
  by (simp add: evict_lru_def split: prod.split)

lemma evict_lru_entries:
  "b_entries (evict_lru max_size b)
     = fst (evict_lru_loop max_size (b_pinned b) (b_entries b) (b_lru b) [])"
  by (simp add: evict_lru_def split: prod.split)

lemma evict_lru_subset:
  "bucket_inv now b \<Longrightarrow> set (b_entries (evict_lru max_size b)) \<subseteq> set (b_entries b)"
  using evict_lru_loop_inv [OF bucket_loop_inv, of now b max_size]
  by (auto simp: evict_lru_entries split: prod.splits)

lemma evict_lru_inv:
  assumes inv: "bucket_inv now b" shows "bucket_inv now (evict_lru max_size b)"
proof -
  obtain es lru skipped where
    res: "evict_lru_loop max_size (b_pinned b) (b_entries b) (b_lru b) [] = (es, lru, skipped)"
    by (metis prod_cases3)
  have after: "loop_inv (b_pinned b) es lru skipped" and sub: "set es \<subseteq> set (b_entries b)"
    using evict_lru_loop_inv [OF bucket_loop_inv [OF inv], of max_size] res by auto
  have s: "bt_sorted (skipped @ lru)" using after by (simp add: loop_inv_def)
  have sl: "bt_sorted lru" using s by (simp add: sorted_wrt_append)
  have ds: "distinct (map fst (skipped @ lru))" using s by (simp add: strict_sorted_iff)
  have rows: "set (bt_extend lru skipped) = lru_rows es"
    using set_bt_extend [OF sl ds] after by (auto simp: loop_inv_def)
  have "\<forall>r \<in> lru_rows es. fst r \<le> b_tick b"
    using sub entry_tick [OF inv] by (auto simp: lru_rows_def dest!: subsetD)
  with rows bt_sorted_extend [OF sl] after have "lru_inv (b_tick b) es (bt_extend lru skipped)"
    by (simp add: lru_inv_def loop_inv_def)
  moreover have "b_pinned b = n_pinned es" using after by (simp add: loop_inv_def)
  moreover have "evict_lru max_size b = b\<lparr>b_entries := es, b_lru := bt_extend lru skipped\<rparr>"
    by (simp add: evict_lru_def res)
  ultimately show ?thesis
    using inv sub by (auto simp: bucket_inv_def intro: stamp_inv_subset oldest_inv_subset)
qed

lemma evict_if_needed_inv:
  "bucket_inv now b \<Longrightarrow> bucket_inv now (evict_if_needed ttl max_size now b)"
  by (simp add: evict_if_needed_def Let_def evict_lru_inv evict_expired_inv)

lemma unpinned_len_evict_lru:
  "bucket_inv now b \<Longrightarrow> unpinned_len (evict_lru max_size b) = min max_size (unpinned_len b)"
  using evict_lru_loop_len [OF bucket_loop_inv, of now b max_size]
  by (simp add: unpinned_len_def evict_lru_entries)

lemma evict_lru_order:
  assumes "bucket_inv now b" and "p \<in> set (b_entries b)" and "p \<notin> set (b_entries (evict_lru max_size b))"
  shows "\<not> e_pinned (snd p)"
    and "q \<in> set (b_entries (evict_lru max_size b)) \<Longrightarrow> \<not> e_pinned (snd q) \<Longrightarrow>
           e_last_access (snd p) < e_last_access (snd q)"
  using evict_lru_loop_order [OF bucket_loop_inv [OF assms(1)], of max_size] assms(2,3)
  by (auto simp: evict_lru_entries)

lemma unpinned_len_n:
  "bucket_inv now b \<Longrightarrow> unpinned_len b = length (filter (\<lambda>(k, e). \<not> e_pinned e) (b_entries b))"
  using sum_length_filter_compl [of "\<lambda>(k, e). e_pinned e" "b_entries b"]
  by (simp add: unpinned_len_def bucket_inv_def n_pinned_def case_prod_unfold)

lemma lookup_iff_entry:
  "bucket_inv now b \<Longrightarrow> b_lookup b k = Some e \<longleftrightarrow> (k, e) \<in> set (b_entries b)"
  by (simp add: bucket_inv_distinct)

text \<open>The most recently used entry survives, whatever the cap, unless the cap is zero.\<close>

lemma evict_lru_keeps_youngest:
  assumes inv: "bucket_inv now b" and e: "b_lookup b k = Some e" and "e_last_access e = b_tick b"
    and cap: "0 < max_size \<or> e_pinned e"
  shows "b_lookup (evict_lru max_size b) k = Some e"
proof (rule ccontr)
  assume "b_lookup (evict_lru max_size b) k \<noteq> Some e"
  note inv' = evict_lru_inv [OF inv, of max_size]
  then have out: "(k, e) \<notin> set (b_entries (evict_lru max_size b))"
    using \<open>b_lookup (evict_lru max_size b) k \<noteq> Some e\<close> by (simp add: lookup_iff_entry)
  have "in": "(k, e) \<in> set (b_entries b)" using e by (rule map_of_SomeD)
  have "\<not> e_pinned e" using evict_lru_order(1) [OF inv "in" out] by simp
  with cap have "0 < max_size" by simp
  moreover have "0 < unpinned_len b"
    using "in" \<open>\<not> e_pinned e\<close> unpinned_len_n [OF inv] by (force simp: length_greater_0_conv filter_empty_conv)
  ultimately have "0 < unpinned_len (evict_lru max_size b)"
    by (simp add: unpinned_len_evict_lru [OF inv])
  then obtain q where q: "q \<in> set (b_entries (evict_lru max_size b))" "\<not> e_pinned (snd q)"
    by (auto simp: unpinned_len_n [OF inv'] length_greater_0_conv filter_empty_conv)
  have "e_last_access e < e_last_access (snd q)"
    using evict_lru_order(2) [OF inv "in" out q] by simp
  moreover have "e_last_access (snd q) \<le> b_tick b"
    using q evict_lru_subset [OF inv, of max_size] entry_tick [OF inv] by blast
  ultimately show False using assms(3) by simp
qed

lemma evict_lru_lookup_sub:
  assumes "bucket_inv now b" and "b_lookup (evict_lru max_size b) k = Some e"
  shows "b_lookup b k = Some e"
  using assms evict_lru_inv [OF assms(1), of max_size] evict_lru_subset [OF assms(1), of max_size]
  by (auto simp: lookup_iff_entry)

lemma evict_expired_tick [simp]: "b_tick (evict_expired ttl now b) = b_tick b"
  by (simp add: evict_expired_def prune_lru_def Let_def)

lemma evict_if_needed_lookup_sub:
  assumes "bucket_inv now b" and "b_lookup (evict_if_needed ttl max_size now b) k = Some e"
  shows "b_lookup b k = Some e"
proof -
  have "b_lookup (evict_expired ttl now b) k = Some e \<Longrightarrow> b_lookup b k = Some e"
    by (auto simp only: evict_expired_lookup [OF assms(1)] split: option.splits if_splits)
  with assms evict_expired_inv [OF assms(1), of ttl] show ?thesis
    by (auto simp only: evict_if_needed_def Let_def split: if_splits dest!: evict_lru_lookup_sub)
qed

lemma unpinned_len_evict_if_needed:
  assumes "bucket_inv now b"
  shows "unpinned_len (evict_if_needed ttl max_size now b) \<le> max_size"
  using assms evict_expired_inv [OF assms, of ttl]
  by (auto simp: evict_if_needed_def Let_def unpinned_len_evict_lru)

lemma evict_if_needed_keeps_fresh:
  assumes inv: "bucket_inv now b" and e: "b_lookup b k = Some e"
    and "e_inserted e = now" and "e_last_access e = b_tick b" and "0 < max_size \<or> e_pinned e"
  shows "b_lookup (evict_if_needed ttl max_size now b) k = Some e"
proof -
  have "b_lookup (evict_expired ttl now b) k = Some e"
    using assms by (simp only: evict_expired_lookup [OF inv] option.case e) (simp add: elapsed_def)
  with assms evict_lru_keeps_youngest [OF inv, of k e max_size]
    evict_lru_keeps_youngest [OF evict_expired_inv [OF inv, of ttl], of k e max_size]
  show ?thesis by (auto simp only: evict_if_needed_def Let_def evict_expired_tick split: if_splits)
qed

lemma bucket_insert_lookup:
  "b_lookup (snd (bucket_insert key v t pin now b)) k =
     (if k = key then Some \<lparr>e_value = v, e_typed = t, e_inserted = now, e_last_access = b_tick b + 1,
        e_pinned = pin, e_stamp = b_next_stamp b + 1\<rparr> else b_lookup b k)"
  by (simp add: bucket_insert_entries update_conv')

lemma bucket_insert_tick: "b_tick (snd (bucket_insert key v t pin now b)) = b_tick b + 1"
  by (simp add: bucket_insert_def Let_def split: prod.split)

section \<open>The interface the cache relies on\<close>

text \<open>
  What the cache needs of a bucket: how insertion, removal and the key sweep act on lookups, that
  eviction only drops entries, keeps the entry just written and respects the cap, and that all
  of them keep the invariant at any later time.
\<close>

locale lru_store =
  fixes find :: "'b \<Rightarrow> string \<Rightarrow> ('j, 'a) entry option"
    and ins :: "string \<Rightarrow> 'j \<Rightarrow> 'a typed_ref option \<Rightarrow> bool \<Rightarrow> instant \<Rightarrow> 'b \<Rightarrow> nat \<times> 'b"
    and del :: "string \<Rightarrow> 'b \<Rightarrow> bool \<times> 'b"
    and sweep :: "(string \<Rightarrow> bool) \<Rightarrow> 'b \<Rightarrow> 'b"
    and trim :: "duration \<Rightarrow> nat \<Rightarrow> instant \<Rightarrow> 'b \<Rightarrow> 'b"
    and unpinned :: "'b \<Rightarrow> nat"
    and tick_of :: "'b \<Rightarrow> nat"
    and inv :: "instant \<Rightarrow> 'b \<Rightarrow> bool"
  assumes find_ins_other: "k \<noteq> key \<Longrightarrow> find (snd (ins key v t pin now b)) k = find b k"
    and find_ins: "\<exists>e. find (snd (ins key v t pin now b)) key = Some e \<and> e_value e = v \<and> e_typed e = t
        \<and> e_inserted e = now \<and> e_pinned e = pin \<and> e_stamp e = fst (ins key v t pin now b)
        \<and> e_last_access e = tick_of (snd (ins key v t pin now b))"
    and find_del: "find (snd (del key b)) k = (if k = key then None else find b k)"
    and find_sweep: "find (sweep keep b) k = (if keep k then find b k else None)"
    and trim_sub: "inv now b \<Longrightarrow> find (trim ttl cap now b) k = Some e \<Longrightarrow> find b k = Some e"
    and trim_fresh: "inv now b \<Longrightarrow> find b k = Some e \<Longrightarrow> e_inserted e = now \<Longrightarrow>
        e_last_access e = tick_of b \<Longrightarrow> 0 < cap \<or> e_pinned e \<Longrightarrow> find (trim ttl cap now b) k = Some e"
    and trim_cap: "inv now b \<Longrightarrow> unpinned (trim ttl cap now b) \<le> cap"
    and inv_ins: "inv now b \<Longrightarrow> now \<le> now' \<Longrightarrow> inv now' (snd (ins key v t pin now' b))"
    and inv_del: "inv now b \<Longrightarrow> inv now (snd (del key b))"
    and inv_sweep: "inv now b \<Longrightarrow> inv now (sweep keep b)"
    and inv_trim: "inv now b \<Longrightarrow> inv now (trim ttl cap now b)"
begin

text \<open>An insertion followed by eviction, the cache's write path.\<close>

lemma write_inv: "inv now b \<Longrightarrow> inv now (trim ttl cap now (snd (ins key v t pin now b)))"
  by (simp add: inv_ins inv_trim)

lemma write_find:
  assumes "inv now b" and "0 < cap \<or> pin"
  shows "\<exists>e. find (trim ttl cap now (snd (ins key v t pin now b))) key = Some e
     \<and> e_value e = v \<and> e_typed e = t \<and> e_inserted e = now \<and> e_pinned e = pin
     \<and> e_stamp e = fst (ins key v t pin now b)"
proof -
  obtain e where e: "find (snd (ins key v t pin now b)) key = Some e" "e_value e = v" "e_typed e = t"
    "e_inserted e = now" "e_pinned e = pin" "e_stamp e = fst (ins key v t pin now b)"
    "e_last_access e = tick_of (snd (ins key v t pin now b))"
    using find_ins by blast
  have "find (trim ttl cap now (snd (ins key v t pin now b))) key = Some e"
    using trim_fresh [OF inv_ins [OF assms(1) order_refl] e(1,4,7)] assms(2) e(5) by blast
  with e show ?thesis by blast
qed

lemma write_find_other:
  assumes "inv now b" and "k \<noteq> key"
    and "find (trim ttl cap now (snd (ins key v t pin now b))) k = Some e"
  shows "find b k = Some e"
  using trim_sub [OF inv_ins [OF assms(1) order_refl] assms(3)] assms(2) by (simp add: find_ins_other)

lemma write_find_own:
  assumes "inv now b" and "find (trim ttl cap now (snd (ins key v t pin now b))) key = Some e"
  shows "e_stamp e = fst (ins key v t pin now b)"
  using trim_sub [OF inv_ins [OF assms(1) order_refl] assms(2)] find_ins [of key v t pin now b] by auto

lemma write_cap: "inv now b \<Longrightarrow> unpinned (trim ttl cap now (snd (ins key v t pin now b))) \<le> cap"
  by (simp add: trim_cap inv_ins)

end

interpretation bk: lru_store b_lookup bucket_insert bucket_remove bucket_retain evict_if_needed
  unpinned_len b_tick bucket_inv
proof (unfold_locales, goal_cases)
  case 5
  then show ?case by (rule evict_if_needed_lookup_sub)
next
  case 6
  then show ?case by (rule evict_if_needed_keeps_fresh)
qed (simp_all add: bucket_insert_lookup bucket_insert_stamp bucket_insert_tick bucket_remove_lookup
  bucket_retain_lookup unpinned_len_evict_if_needed bucket_insert_inv bucket_remove_inv
  bucket_retain_inv evict_if_needed_inv)

end
