(* ===== verification/Cache_Core.thy ===== *)
theory Cache_Core
  imports Cache_Bucket
begin

text \<open>
  The cache over its four buckets: \<open>CacheKind\<close>, \<open>CacheConfig\<close>, \<open>CacheStats\<close>, \<open>Watch\<close>,
  \<open>IndexWatch\<close>, \<open>Patch\<close> and every method of \<open>impl Cache\<close> in
  \<^verbatim>\<open>crates/azapptoolkit-core/src/cache.rs\<close>, each mutex-protected field a field of the
  record \<open>cache\<close> and each method an explicit state transformer.

  Code that is not in the repository is a parameter: \<open>dec\<close> and \<open>enc\<close> are serde's decoding and
  encoding of the caller's type, \<open>null\<close> is \<open>serde_json::Value::Null\<close>, \<open>down\<close> is the downcast of
  a typed handle's payload.  The allocation of a fresh \<open>Arc\<close> is a parameter \<open>addr\<close>.

  \<open>store_if_current\<close> is the composition of its four critical sections
  (\<open>store_check\<close>, the store, \<open>watch_release\<close>, \<open>store_rollback\<close>); the theory
  \<open>Cache_Watch_Protocol\<close> interleaves these sections with the other threads'.
  \<open>patch_typed_index_with\<close> takes \<open>env\<close>, what other threads do to the cache between an attempt's
  read and its write.
\<close>

section \<open>Kinds, configuration, statistics\<close>

datatype cache_kind = ServicePrincipal | Permissions | Audit | Lists

definition ALL_KINDS :: "cache_kind list" where
  "ALL_KINDS = [ServicePrincipal, Permissions, Audit, Lists]"

text \<open>The compile-time search; \<open>None\<close> is the build error.\<close>

fun position_loop :: "cache_kind \<Rightarrow> nat \<Rightarrow> cache_kind list \<Rightarrow> nat option" where
  "position_loop kind i [] = None"
| "position_loop kind i (k # ks) = (if k = kind then Some i else position_loop kind (i + 1) ks)"

definition position :: "cache_kind \<Rightarrow> nat option" where
  "position kind = position_loop kind 0 ALL_KINDS"

definition kind_idx :: "cache_kind \<Rightarrow> nat" where
  "kind_idx kind = (case position kind of Some i \<Rightarrow> i | None \<Rightarrow> length ALL_KINDS)"

record cache_config =
  cfg_enabled :: bool
  service_principal_ttl :: duration
  permissions_ttl :: duration
  audit_ttl :: duration
  lists_ttl :: duration
  max_size :: nat

definition SERVICE_PRINCIPAL_CACHE_TTL :: duration where
  "SERVICE_PRINCIPAL_CACHE_TTL = from_secs (60 * 60)"

definition PERMISSIONS_CACHE_TTL :: duration where
  "PERMISSIONS_CACHE_TTL = from_secs (60 * 60)"

definition AUDIT_CACHE_TTL :: duration where
  "AUDIT_CACHE_TTL = from_secs (60 * 60)"

definition LISTS_CACHE_TTL :: duration where
  "LISTS_CACHE_TTL = from_secs (60 * 60)"

lemmas CACHE_TTL_defs = SERVICE_PRINCIPAL_CACHE_TTL_def PERMISSIONS_CACHE_TTL_def AUDIT_CACHE_TTL_def LISTS_CACHE_TTL_def

definition MAX_CACHE_SIZE :: nat where
  "MAX_CACHE_SIZE = 5000"

definition MAX_PER_OBJECT_CACHE_SIZE :: nat where
  "MAX_PER_OBJECT_CACHE_SIZE = 10000"

definition default_config :: cache_config where
  "default_config = \<lparr>cfg_enabled = True, service_principal_ttl = SERVICE_PRINCIPAL_CACHE_TTL,
     permissions_ttl = PERMISSIONS_CACHE_TTL, audit_ttl = AUDIT_CACHE_TTL, lists_ttl = LISTS_CACHE_TTL,
     max_size = MAX_CACHE_SIZE\<rparr>"

fun ttl_for :: "cache_config \<Rightarrow> cache_kind \<Rightarrow> duration" where
  "ttl_for c ServicePrincipal = service_principal_ttl c"
| "ttl_for c Permissions = permissions_ttl c"
| "ttl_for c Audit = audit_ttl c"
| "ttl_for c Lists = lists_ttl c"

record cache_stats =
  service_principal_hits :: nat
  service_principal_misses :: nat
  permissions_hits :: nat
  permissions_misses :: nat
  audit_hits :: nat
  audit_misses :: nat
  lists_hits :: nat
  lists_misses :: nat

definition default_stats :: cache_stats where
  "default_stats = \<lparr>service_principal_hits = 0, service_principal_misses = 0, permissions_hits = 0,
     permissions_misses = 0, audit_hits = 0, audit_misses = 0, lists_hits = 0, lists_misses = 0\<rparr>"

section \<open>The cache and its watches\<close>

record watch =
  w_counter :: nat
  w_refs :: nat

type_synonym watch_id = "nat \<times> string"

record ('j, 'a) cache =
  c_buckets :: "('j, 'a) bucket list"
  c_stats :: cache_stats
  c_config :: cache_config
  c_watches :: "(watch_id \<times> watch) list"

record index_watch =
  iw_kind :: cache_kind
  iw_key :: string
  iw_since :: nat
  iw_holds_ref :: bool

datatype 't patch = Replace 't | Keep | Invalidate

definition MAX_WATCHES :: nat where
  "MAX_WATCHES = 256"

definition WATCH_UNAVAILABLE :: nat where
  "WATCH_UNAVAILABLE = 2 ^ 64 - 1"

definition PATCH_ATTEMPTS :: nat where
  "PATCH_ATTEMPTS = 3"

definition cache_new :: "('j, 'a) cache" where
  "cache_new = \<lparr>c_buckets = map (\<lambda>_. bucket_new) ALL_KINDS, c_stats = default_stats,
     c_config = default_config, c_watches = []\<rparr>"

abbreviation get_bucket :: "('j, 'a) cache \<Rightarrow> cache_kind \<Rightarrow> ('j, 'a) bucket" where
  "get_bucket c kind \<equiv> c_buckets c ! kind_idx kind"

definition set_bucket :: "cache_kind \<Rightarrow> ('j, 'a) bucket \<Rightarrow> ('j, 'a) cache \<Rightarrow> ('j, 'a) cache" where
  "set_bucket kind b c = c\<lparr>c_buckets := (c_buckets c)[kind_idx kind := b]\<rparr>"

abbreviation watch_id_of :: "cache_kind \<Rightarrow> string \<Rightarrow> watch_id" where
  "watch_id_of kind key \<equiv> (kind_idx kind, key)"

definition set_enabled :: "bool \<Rightarrow> ('j, 'a) cache \<Rightarrow> ('j, 'a) cache" where
  "set_enabled on c = c\<lparr>c_config := (c_config c)\<lparr>cfg_enabled := on\<rparr>\<rparr>"

definition cap_for :: "cache_kind \<Rightarrow> nat \<Rightarrow> nat" where
  "cap_for kind m =
     (if (kind = ServicePrincipal \<or> kind = Lists) \<and> MAX_CACHE_SIZE \<le> m
      then max m MAX_PER_OBJECT_CACHE_SIZE else m)"

definition capacity_for :: "('j, 'a) cache \<Rightarrow> cache_kind \<Rightarrow> nat" where
  "capacity_for c kind = cap_for kind (max_size (c_config c))"

definition shrink_kind :: "instant \<Rightarrow> nat \<Rightarrow> cache_kind \<Rightarrow> ('j, 'a) cache \<Rightarrow> ('j, 'a) cache" where
  "shrink_kind now new_max kind c =
     set_bucket kind (evict_lru (cap_for kind new_max)
       (evict_expired (ttl_for (c_config c) kind) now (get_bucket c kind))) c"

definition configure ::
  "bool option \<Rightarrow> duration option \<Rightarrow> duration option \<Rightarrow> duration option \<Rightarrow> duration option \<Rightarrow> nat option
     \<Rightarrow> instant \<Rightarrow> ('j, 'a) cache \<Rightarrow> ('j, 'a) cache" where
  "configure en sp perm aud lst mx now c =
     (let old = c_config c;
          cfg = \<lparr>cfg_enabled = (case en of Some e \<Rightarrow> e | None \<Rightarrow> cfg_enabled old),
                 service_principal_ttl = (case sp of Some t \<Rightarrow> t | None \<Rightarrow> service_principal_ttl old),
                 permissions_ttl = (case perm of Some t \<Rightarrow> t | None \<Rightarrow> permissions_ttl old),
                 audit_ttl = (case aud of Some t \<Rightarrow> t | None \<Rightarrow> audit_ttl old),
                 lists_ttl = (case lst of Some t \<Rightarrow> t | None \<Rightarrow> lists_ttl old),
                 max_size = (case mx of Some m \<Rightarrow> m | None \<Rightarrow> max_size old)\<rparr>;
          c1 = c\<lparr>c_config := cfg\<rparr>
      in if mx \<noteq> None then fold (shrink_kind now (max_size cfg)) ALL_KINDS c1 else c1)"

fun record_access :: "cache_kind \<Rightarrow> bool \<Rightarrow> cache_stats \<Rightarrow> cache_stats" where
  "record_access ServicePrincipal True s = s\<lparr>service_principal_hits := service_principal_hits s + 1\<rparr>"
| "record_access ServicePrincipal False s = s\<lparr>service_principal_misses := service_principal_misses s + 1\<rparr>"
| "record_access Permissions True s = s\<lparr>permissions_hits := permissions_hits s + 1\<rparr>"
| "record_access Permissions False s = s\<lparr>permissions_misses := permissions_misses s + 1\<rparr>"
| "record_access Audit True s = s\<lparr>audit_hits := audit_hits s + 1\<rparr>"
| "record_access Audit False s = s\<lparr>audit_misses := audit_misses s + 1\<rparr>"
| "record_access Lists True s = s\<lparr>lists_hits := lists_hits s + 1\<rparr>"
| "record_access Lists False s = s\<lparr>lists_misses := lists_misses s + 1\<rparr>"

definition record_hit :: "cache_kind \<Rightarrow> bool \<Rightarrow> ('j, 'a) cache \<Rightarrow> ('j, 'a) cache" where
  "record_hit kind hit c = c\<lparr>c_stats := record_access kind hit (c_stats c)\<rparr>"

section \<open>Watches\<close>

definition bump_watches ::
  "cache_kind option \<Rightarrow> (string \<Rightarrow> bool) \<Rightarrow> ('j, 'a) cache \<Rightarrow> ('j, 'a) cache" where
  "bump_watches kind matches c =
     c\<lparr>c_watches := map (\<lambda>((watched_kind, watched_key), w).
         ((watched_kind, watched_key),
          if (case kind of None \<Rightarrow> True | Some k \<Rightarrow> kind_idx k = watched_kind) \<and> matches watched_key
          then w\<lparr>w_counter := w_counter w + 1\<rparr> else w)) (c_watches c)\<rparr>"

definition peek_watch :: "cache_kind \<Rightarrow> string \<Rightarrow> ('j, 'a) cache \<Rightarrow> nat option" where
  "peek_watch kind key c = map_option w_counter (map_of (c_watches c) (watch_id_of kind key))"

definition release_watch ::
  "cache_kind \<Rightarrow> string \<Rightarrow> ('j, 'a) cache \<Rightarrow> nat option \<times> ('j, 'a) cache" where
  "release_watch kind key c =
     (let wid = watch_id_of kind key in
      case map_of (c_watches c) wid of
        None \<Rightarrow> (None, c)
      | Some w \<Rightarrow>
          (let refs = w_refs w - 1
           in (Some (w_counter w),
               if refs = 0 then c\<lparr>c_watches := AList.delete wid (c_watches c)\<rparr>
               else c\<lparr>c_watches := AList.update wid (w\<lparr>w_refs := refs\<rparr>) (c_watches c)\<rparr>)))"

definition generation_for ::
  "cache_kind \<Rightarrow> string \<Rightarrow> ('j, 'a) cache \<Rightarrow> index_watch \<times> ('j, 'a) cache" where
  "generation_for kind key c =
     (let wid = watch_id_of kind key in
      case map_of (c_watches c) wid of
        Some w \<Rightarrow>
          (\<lparr>iw_kind = kind, iw_key = key, iw_since = w_counter w, iw_holds_ref = True\<rparr>,
           c\<lparr>c_watches := AList.update wid (w\<lparr>w_refs := w_refs w + 1\<rparr>) (c_watches c)\<rparr>)
      | None \<Rightarrow>
          if MAX_WATCHES \<le> length (c_watches c)
          then (\<lparr>iw_kind = kind, iw_key = key, iw_since = WATCH_UNAVAILABLE, iw_holds_ref = False\<rparr>, c)
          else (\<lparr>iw_kind = kind, iw_key = key, iw_since = 0, iw_holds_ref = True\<rparr>,
                c\<lparr>c_watches := AList.update wid \<lparr>w_counter = 0, w_refs = 1\<rparr> (c_watches c)\<rparr>))"

definition watch_current :: "index_watch \<Rightarrow> ('j, 'a) cache \<Rightarrow> nat option" where
  "watch_current w c = (if \<not> iw_holds_ref w then None else peek_watch (iw_kind w) (iw_key w) c)"

definition watch_release :: "index_watch \<Rightarrow> ('j, 'a) cache \<Rightarrow> nat option \<times> ('j, 'a) cache" where
  "watch_release w c = (if iw_holds_ref w then release_watch (iw_kind w) (iw_key w) c else (None, c))"

definition watch_drop :: "index_watch \<Rightarrow> ('j, 'a) cache \<Rightarrow> ('j, 'a) cache" where
  "watch_drop w c = (if iw_holds_ref w then snd (release_watch (iw_kind w) (iw_key w) c) else c)"

definition watch_count :: "('j, 'a) cache \<Rightarrow> nat" where
  "watch_count c = length (c_watches c)"

section \<open>Reads\<close>

definition cache_lookup ::
  "cache_kind \<Rightarrow> string \<Rightarrow> instant \<Rightarrow> (('j, 'a) entry \<Rightarrow> 'r) \<Rightarrow> ('j, 'a) cache
     \<Rightarrow> 'r option \<times> ('j, 'a) cache" where
  "cache_lookup kind key now extract c =
     (if \<not> cfg_enabled (c_config c) then (None, c) else
      let ttl = ttl_for (c_config c) kind;
          b = get_bucket c kind;
          live = (case b_lookup b key of Some e \<Rightarrow> elapsed now (e_inserted e) \<le> ttl | None \<Rightarrow> False)
      in if \<not> live
         then (None, record_hit kind False (set_bucket kind (snd (bucket_remove key b)) c))
         else (let b1 = bucket_touch key b
               in (map_option extract (b_lookup b1 key), set_bucket kind b1 c)))"

definition cache_get ::
  "('j \<Rightarrow> 't option) \<Rightarrow> cache_kind \<Rightarrow> string \<Rightarrow> instant \<Rightarrow> ('j, 'a) cache \<Rightarrow> 't option \<times> ('j, 'a) cache" where
  "cache_get dec kind key now c =
     (case cache_lookup kind key now (\<lambda>e. (e_value e, e_typed e \<noteq> None)) c of
        (None, c1) \<Rightarrow> (None, c1)
      | (Some (raw, typed), c1) \<Rightarrow>
          (case dec raw of
             Some v \<Rightarrow> (Some v, record_hit kind True c1)
           | None \<Rightarrow>
               if typed then (None, record_hit kind False c1)
               else (None, record_hit kind False
                             (set_bucket kind (snd (bucket_remove key (get_bucket c1 kind))) c1))))"

definition cache_get_typed ::
  "('a \<Rightarrow> 't option) \<Rightarrow> cache_kind \<Rightarrow> string \<Rightarrow> instant \<Rightarrow> ('j, 'a) cache
     \<Rightarrow> (nat \<times> 't) option \<times> ('j, 'a) cache" where
  "cache_get_typed down kind key now c =
     (case cache_lookup kind key now e_typed c of
        (None, c1) \<Rightarrow> (None, c1)
      | (Some typed, c1) \<Rightarrow>
          (case Option.bind typed (\<lambda>(ad, x). map_option (Pair ad) (down x)) of
             Some arc \<Rightarrow> (Some arc, record_hit kind True c1)
           | None \<Rightarrow> (None, record_hit kind False c1)))"

section \<open>Writes\<close>

definition limits_if_enabled :: "('j, 'a) cache \<Rightarrow> cache_kind \<Rightarrow> (nat \<times> duration) option" where
  "limits_if_enabled c kind =
     (if \<not> cfg_enabled (c_config c) then None
      else Some (cap_for kind (max_size (c_config c)), ttl_for (c_config c) kind))"

definition put_inner ::
  "('t \<Rightarrow> 'j option) \<Rightarrow> cache_kind \<Rightarrow> string \<Rightarrow> 't \<Rightarrow> bool \<Rightarrow> instant \<Rightarrow> ('j, 'a) cache
     \<Rightarrow> nat option \<times> ('j, 'a) cache" where
  "put_inner enc kind key v pin now c =
     (case limits_if_enabled c kind of
        None \<Rightarrow> (None, c)
      | Some (cap, ttl) \<Rightarrow>
          (case enc v of
             None \<Rightarrow> (None, c)
           | Some json \<Rightarrow>
               (let (stamp, b) = bucket_insert key json None pin now (get_bucket c kind)
                in (Some stamp, set_bucket kind (evict_if_needed ttl cap now b) c))))"

definition put_typed_inner ::
  "'j \<Rightarrow> cache_kind \<Rightarrow> string \<Rightarrow> 'a typed_ref \<Rightarrow> bool \<Rightarrow> instant \<Rightarrow> ('j, 'a) cache
     \<Rightarrow> nat option \<times> ('j, 'a) cache" where
  "put_typed_inner null kind key v pin now c =
     (case limits_if_enabled c kind of
        None \<Rightarrow> (None, c)
      | Some (cap, ttl) \<Rightarrow>
          (let (stamp, b) = bucket_insert key null (Some v) pin now (get_bucket c kind)
           in (Some stamp, set_bucket kind (evict_if_needed ttl cap now b) c)))"

definition cache_put ::
  "('t \<Rightarrow> 'j option) \<Rightarrow> cache_kind \<Rightarrow> string \<Rightarrow> 't \<Rightarrow> instant \<Rightarrow> ('j, 'a) cache \<Rightarrow> ('j, 'a) cache" where
  "cache_put enc kind key v now c = snd (put_inner enc kind key v False now c)"

definition put_typed ::
  "'j \<Rightarrow> cache_kind \<Rightarrow> string \<Rightarrow> 'a typed_ref \<Rightarrow> instant \<Rightarrow> ('j, 'a) cache \<Rightarrow> ('j, 'a) cache" where
  "put_typed null kind key v now c = snd (put_typed_inner null kind key v False now c)"

definition put_typed_index ::
  "'j \<Rightarrow> cache_kind \<Rightarrow> string \<Rightarrow> 'a typed_ref \<Rightarrow> instant \<Rightarrow> ('j, 'a) cache \<Rightarrow> ('j, 'a) cache" where
  "put_typed_index null kind key v now c = snd (put_typed_inner null kind key v True now c)"

text \<open>The critical sections of \<open>store_if_current\<close>.\<close>

definition store_check :: "index_watch \<Rightarrow> ('j, 'a) cache \<Rightarrow> bool" where
  "store_check w c \<longleftrightarrow> watch_current w c = Some (iw_since w)"

definition store_rollback ::
  "index_watch \<Rightarrow> nat option \<Rightarrow> ('j, 'a) cache \<Rightarrow> ('j, 'a) cache" where
  "store_rollback w stamp c =
     (case stamp of
        None \<Rightarrow> c
      | Some s \<Rightarrow> set_bucket (iw_kind w) (snd (remove_if_stamp (iw_key w) s (get_bucket c (iw_kind w)))) c)"

definition store_if_current ::
  "index_watch \<Rightarrow> (('j, 'a) cache \<Rightarrow> nat option \<times> ('j, 'a) cache) \<Rightarrow> ('j, 'a) cache
     \<Rightarrow> bool \<times> ('j, 'a) cache" where
  "store_if_current w store c =
     (if \<not> store_check w c then (False, watch_drop w c)
      else let (stamp, c1) = store c;
               (after, c2) = watch_release w c1
           in if after = Some (iw_since w) then (stamp \<noteq> None, c2)
              else (False, store_rollback w stamp c2))"

definition put_if_current ::
  "('t \<Rightarrow> 'j option) \<Rightarrow> index_watch \<Rightarrow> 't \<Rightarrow> instant \<Rightarrow> ('j, 'a) cache \<Rightarrow> bool \<times> ('j, 'a) cache" where
  "put_if_current enc w v now c =
     store_if_current w (put_inner enc (iw_kind w) (iw_key w) v False now) c"

definition put_typed_if_current ::
  "'j \<Rightarrow> index_watch \<Rightarrow> 'a typed_ref \<Rightarrow> instant \<Rightarrow> ('j, 'a) cache \<Rightarrow> bool \<times> ('j, 'a) cache" where
  "put_typed_if_current null w v now c =
     store_if_current w (put_typed_inner null (iw_kind w) (iw_key w) v False now) c"

definition put_typed_index_if_current ::
  "'j \<Rightarrow> index_watch \<Rightarrow> 'a typed_ref \<Rightarrow> instant \<Rightarrow> ('j, 'a) cache \<Rightarrow> bool \<times> ('j, 'a) cache" where
  "put_typed_index_if_current null w v now c =
     store_if_current w (put_typed_inner null (iw_kind w) (iw_key w) v True now) c"

section \<open>Patching an index in place\<close>

definition patch_read ::
  "cache_kind \<Rightarrow> string \<Rightarrow> duration \<Rightarrow> instant \<Rightarrow> ('j, 'a) cache \<Rightarrow> 'a typed_ref option" where
  "patch_read kind key ttl now c =
     (case b_lookup (get_bucket c kind) key of
        Some e \<Rightarrow> if elapsed now (e_inserted e) \<le> ttl then e_typed e else None
      | None \<Rightarrow> None)"

fun patch_loop ::
  "nat \<Rightarrow> (nat \<Rightarrow> ('j, 'a) cache \<Rightarrow> ('j, 'a) cache) \<Rightarrow> (nat \<Rightarrow> nat) \<Rightarrow> ('a \<Rightarrow> 't option) \<Rightarrow> ('t \<Rightarrow> 'a)
     \<Rightarrow> ('t \<Rightarrow> 't patch) \<Rightarrow> cache_kind \<Rightarrow> string \<Rightarrow> duration \<Rightarrow> instant \<Rightarrow> ('j, 'a) cache
     \<Rightarrow> bool \<times> ('j, 'a) cache" where
  "patch_loop 0 env addr down up patch kind key ttl now c = (False, c)"
| "patch_loop (Suc n) env addr down up patch kind key ttl now c =
     (case patch_read kind key ttl now c of
        None \<Rightarrow> (False, c)
      | Some rd \<Rightarrow>
          (case down (snd rd) of
             None \<Rightarrow> (False, c)
           | Some current \<Rightarrow>
               (let c1 = env n c in
                case patch current of
                  Replace nxt \<Rightarrow>
                    (let (landed, b) = replace_typed_if_same key rd (addr n, up nxt) (get_bucket c1 kind);
                         c2 = set_bucket kind b c1
                     in if landed then (True, c2)
                        else patch_loop n env addr down up patch kind key ttl now c2)
                | Keep \<Rightarrow>
                    (if holds_typed key rd (get_bucket c1 kind) then (True, c1)
                     else patch_loop n env addr down up patch kind key ttl now c1)
                | Invalidate \<Rightarrow> (False, c1))))"

definition patch_typed_index_with ::
  "(nat \<Rightarrow> ('j, 'a) cache \<Rightarrow> ('j, 'a) cache) \<Rightarrow> (nat \<Rightarrow> nat) \<Rightarrow> ('a \<Rightarrow> 't option) \<Rightarrow> ('t \<Rightarrow> 'a)
     \<Rightarrow> ('t \<Rightarrow> 't patch) \<Rightarrow> cache_kind \<Rightarrow> string \<Rightarrow> instant \<Rightarrow> ('j, 'a) cache
     \<Rightarrow> bool \<times> ('j, 'a) cache" where
  "patch_typed_index_with env addr down up patch kind key now c =
     (let c0 = bump_watches (Some kind) (\<lambda>watched. watched = key) c;
          (landed, c1) =
            (case limits_if_enabled c0 kind of
               Some (_, ttl) \<Rightarrow> patch_loop PATCH_ATTEMPTS env addr down up patch kind key ttl now c0
             | None \<Rightarrow> (False, c0))
      in if landed then (True, c1)
         else (False, set_bucket kind (snd (bucket_remove key (get_bucket c1 kind))) c1))"

definition patch_typed_index ::
  "(nat \<Rightarrow> ('j, 'a) cache \<Rightarrow> ('j, 'a) cache) \<Rightarrow> (nat \<Rightarrow> nat) \<Rightarrow> ('a \<Rightarrow> 't option) \<Rightarrow> ('t \<Rightarrow> 'a)
     \<Rightarrow> ('t \<Rightarrow> 't option) \<Rightarrow> cache_kind \<Rightarrow> string \<Rightarrow> instant \<Rightarrow> ('j, 'a) cache
     \<Rightarrow> bool \<times> ('j, 'a) cache" where
  "patch_typed_index env addr down up patch kind key now c =
     patch_typed_index_with env addr down up
       (\<lambda>current. case patch current of None \<Rightarrow> Invalidate | Some t \<Rightarrow> Replace t) kind key now c"

section \<open>Invalidation\<close>

definition cache_clear :: "('j, 'a) cache \<Rightarrow> ('j, 'a) cache" where
  "cache_clear c =
     fold (\<lambda>kind c. set_bucket kind (bucket_clear (get_bucket c kind)) c) ALL_KINDS
       (bump_watches None (\<lambda>_. True) c)"

definition clear_kind :: "cache_kind \<Rightarrow> ('j, 'a) cache \<Rightarrow> ('j, 'a) cache" where
  "clear_kind kind c =
     (let c1 = bump_watches (Some kind) (\<lambda>_. True) c
      in set_bucket kind (bucket_clear (get_bucket c1 kind)) c1)"

definition invalidate :: "cache_kind \<Rightarrow> string \<Rightarrow> ('j, 'a) cache \<Rightarrow> ('j, 'a) cache" where
  "invalidate kind key c =
     (let c1 = bump_watches (Some kind) (\<lambda>watched. watched = key) c
      in set_bucket kind (snd (bucket_remove key (get_bucket c1 kind))) c1)"

definition invalidate_prefix :: "cache_kind \<Rightarrow> string \<Rightarrow> ('j, 'a) cache \<Rightarrow> ('j, 'a) cache" where
  "invalidate_prefix kind pre c =
     (let c1 = bump_watches (Some kind) (\<lambda>watched. starts_with watched pre) c
      in set_bucket kind (bucket_retain (\<lambda>k. \<not> starts_with k pre) (get_bucket c1 kind)) c1)"

definition invalidate_tenant :: "string \<Rightarrow> ('j, 'a) cache \<Rightarrow> ('j, 'a) cache" where
  "invalidate_tenant tenant_id c =
     (let pre = tenant_id @ ''|''
      in fold (\<lambda>kind c. set_bucket kind (bucket_retain (\<lambda>k. \<not> starts_with k pre) (get_bucket c kind)) c)
           ALL_KINDS (bump_watches None (\<lambda>watched. starts_with watched pre) c))"

section \<open>Buckets by kind\<close>

lemma kind_idx_simps [simp]:
  "kind_idx ServicePrincipal = 0" "kind_idx Permissions = 1" "kind_idx Audit = 2" "kind_idx Lists = 3"
  by (simp_all add: kind_idx_def position_def ALL_KINDS_def)

lemma kind_idx_inject [simp]: "kind_idx k = kind_idx k' \<longleftrightarrow> k = k'"
  by (cases k; cases k') simp_all

lemma kind_idx_less [simp]: "kind_idx k < 4"
  by (cases k) simp_all

definition watches_ok :: "(watch_id \<times> watch) list \<Rightarrow> bool" where
  "watches_ok ws \<longleftrightarrow> distinct (map fst ws) \<and> length ws \<le> MAX_WATCHES \<and> (\<forall>p \<in> set ws. 0 < w_refs (snd p))"

definition cache_inv :: "instant \<Rightarrow> ('j, 'a) cache \<Rightarrow> bool" where
  "cache_inv now c \<longleftrightarrow> length (c_buckets c) = length ALL_KINDS
     \<and> (\<forall>kind. bucket_inv now (get_bucket c kind)) \<and> watches_ok (c_watches c)"

lemma cache_inv_bucket: "cache_inv now c \<Longrightarrow> bucket_inv now (get_bucket c kind)"
  by (simp add: cache_inv_def)

lemma cache_inv_len: "cache_inv now c \<Longrightarrow> length (c_buckets c) = 4"
  by (simp add: cache_inv_def ALL_KINDS_def)

lemma get_set_bucket:
  "length (c_buckets c) = 4 \<Longrightarrow> get_bucket (set_bucket k b c) k' = (if k' = k then b else get_bucket c k')"
  by (auto simp: set_bucket_def)

lemma set_bucket_frame [simp]:
  "c_config (set_bucket k b c) = c_config c" "c_watches (set_bucket k b c) = c_watches c"
  "c_stats (set_bucket k b c) = c_stats c" "length (c_buckets (set_bucket k b c)) = length (c_buckets c)"
  by (simp_all add: set_bucket_def)

lemma record_hit_frame [simp]:
  "c_buckets (record_hit k h c) = c_buckets c" "c_config (record_hit k h c) = c_config c"
  "c_watches (record_hit k h c) = c_watches c"
  by (simp_all add: record_hit_def)

lemma bump_watches_frame [simp]:
  "c_buckets (bump_watches k m c) = c_buckets c" "c_config (bump_watches k m c) = c_config c"
  by (simp_all add: bump_watches_def)

lemma cache_inv_set_bucket:
  "cache_inv now c \<Longrightarrow> bucket_inv now b \<Longrightarrow> cache_inv now (set_bucket k b c)"
  by (auto simp: cache_inv_def get_set_bucket ALL_KINDS_def)

lemma cache_inv_record_hit [simp]: "cache_inv now (record_hit k h c) \<longleftrightarrow> cache_inv now c"
  by (simp add: cache_inv_def)

lemma cache_inv_config: "cache_inv now c \<Longrightarrow> cache_inv now (c\<lparr>c_config := cfg\<rparr>)"
  by (simp add: cache_inv_def)

lemma cache_inv_watches: "cache_inv now c \<Longrightarrow> watches_ok ws \<Longrightarrow> cache_inv now (c\<lparr>c_watches := ws\<rparr>)"
  by (simp add: cache_inv_def)

lemma cache_inv_later: "cache_inv now c \<Longrightarrow> now \<le> now' \<Longrightarrow> cache_inv now' c"
  by (auto simp: cache_inv_def intro: bucket_inv_later)

lemma cache_inv_watches_ok: "cache_inv now c \<Longrightarrow> watches_ok (c_watches c)"
  by (simp add: cache_inv_def)

section \<open>Every operation keeps the cache well formed\<close>

lemma bump_watches_ok: "watches_ok (c_watches c) \<Longrightarrow> watches_ok (c_watches (bump_watches k m c))"
  by (auto simp: watches_ok_def bump_watches_def case_prod_unfold comp_def)

lemma bump_watches_inv: "cache_inv now c \<Longrightarrow> cache_inv now (bump_watches k m c)"
  using bump_watches_ok [of c k m] by (simp add: cache_inv_def)

lemma length_update_present:
  assumes "distinct (map fst m)" and "map_of m k = Some v" shows "length (AList.update k w m) = length m"
  using length_filter_update [OF assms(1), of "\<lambda>_. True" k w] length_delete [OF assms] by simp

lemma length_update_absent:
  assumes "distinct (map fst m)" and "map_of m k = None" shows "length (AList.update k w m) = Suc (length m)"
  using length_filter_update [OF assms(1), of "\<lambda>_. True" k w] by (simp add: delete_absent [OF assms(2)])

lemma release_watch_inv:
  assumes "cache_inv now c" shows "cache_inv now (snd (release_watch k key c))"
proof (cases "map_of (c_watches c) (watch_id_of k key)")
  case (Some w)
  have ok: "watches_ok (c_watches c)" using assms by (rule cache_inv_watches_ok)
  then have d: "distinct (map fst (c_watches c))" by (simp add: watches_ok_def)
  have "watches_ok (AList.delete (watch_id_of k key) (c_watches c))"
    using ok length_delete [OF d Some]
    by (auto simp: watches_ok_def delete_filter distinct_fst_filter intro: order_trans [OF length_filter_le])
  moreover have "w_refs w - 1 \<noteq> 0 \<Longrightarrow>
      watches_ok (AList.update (watch_id_of k key) (w\<lparr>w_refs := w_refs w - 1\<rparr>) (c_watches c))"
    using ok by (auto simp: watches_ok_def distinct_update set_update [OF d] length_update_present [OF d Some])
  ultimately show ?thesis using Some cache_inv_watches [OF assms] by (simp add: release_watch_def Let_def)
qed (use assms in \<open>simp add: release_watch_def\<close>)

lemma generation_for_inv:
  assumes "cache_inv now c" shows "cache_inv now (snd (generation_for k key c))"
proof -
  have ok: "watches_ok (c_watches c)" using assms by (rule cache_inv_watches_ok)
  then have d: "distinct (map fst (c_watches c))" by (simp add: watches_ok_def)
  show ?thesis
  proof (cases "map_of (c_watches c) (watch_id_of k key)")
    case None
    have "length (c_watches c) < MAX_WATCHES \<Longrightarrow>
        watches_ok (AList.update (watch_id_of k key) \<lparr>w_counter = 0, w_refs = 1\<rparr> (c_watches c))"
      using ok by (auto simp: watches_ok_def distinct_update set_update [OF d] length_update_absent [OF d None])
    then show ?thesis using assms None cache_inv_watches [OF assms]
      by (auto simp: generation_for_def Let_def)
  next
    case (Some w)
    have "watches_ok (AList.update (watch_id_of k key) (w\<lparr>w_refs := w_refs w + 1\<rparr>) (c_watches c))"
      using ok by (auto simp: watches_ok_def distinct_update set_update [OF d] length_update_present [OF d Some])
    then show ?thesis using Some cache_inv_watches [OF assms] by (simp add: generation_for_def Let_def)
  qed
qed

lemma watch_release_inv: "cache_inv now c \<Longrightarrow> cache_inv now (snd (watch_release w c))"
  by (simp add: watch_release_def release_watch_inv)

lemma watch_drop_inv: "cache_inv now c \<Longrightarrow> cache_inv now (watch_drop w c)"
  by (simp add: watch_drop_def release_watch_inv)

lemma cache_lookup_inv: "cache_inv now c \<Longrightarrow> cache_inv now (snd (cache_lookup k key now f c))"
  by (auto simp: cache_lookup_def Let_def cache_inv_bucket intro!: cache_inv_set_bucket bucket_remove_inv bucket_touch_inv)

lemma cache_get_inv: "cache_inv now c \<Longrightarrow> cache_inv now (snd (cache_get dec k key now c))"
  using cache_lookup_inv [of now c k key "\<lambda>e. (e_value e, e_typed e \<noteq> None)"]
  by (auto simp: cache_get_def cache_inv_bucket intro!: cache_inv_set_bucket bucket_remove_inv
      split: prod.splits option.splits)

lemma cache_get_typed_inv: "cache_inv now c \<Longrightarrow> cache_inv now (snd (cache_get_typed down k key now c))"
  using cache_lookup_inv [of now c k key e_typed]
  by (auto simp: cache_get_typed_def split: prod.splits option.splits)

text \<open>The two write paths are one bucket write.\<close>

definition bucket_write ::
  "cache_kind \<Rightarrow> string \<Rightarrow> 'j \<Rightarrow> 'a typed_ref option \<Rightarrow> bool \<Rightarrow> instant \<Rightarrow> ('j, 'a) cache \<Rightarrow> ('j, 'a) bucket" where
  "bucket_write k key j t pin now c =
     evict_if_needed (ttl_for (c_config c) k) (capacity_for c k) now
       (snd (bucket_insert key j t pin now (get_bucket c k)))"

lemma put_inner_eq:
  "put_inner enc k key v pin now c =
     (if cfg_enabled (c_config c) then
        (case enc v of None \<Rightarrow> (None, c)
         | Some j \<Rightarrow> (Some (b_next_stamp (get_bucket c k) + 1), set_bucket k (bucket_write k key j None pin now c) c))
      else (None, c))"
  by (simp add: put_inner_def limits_if_enabled_def bucket_write_def capacity_for_def case_prod_unfold
      Let_def bucket_insert_stamp split: option.split)

lemma put_typed_inner_eq:
  "put_typed_inner null k key v pin now c =
     (if cfg_enabled (c_config c) then
        (Some (b_next_stamp (get_bucket c k) + 1), set_bucket k (bucket_write k key null (Some v) pin now c) c)
      else (None, c))"
  by (simp add: put_typed_inner_def limits_if_enabled_def bucket_write_def capacity_for_def case_prod_unfold
      Let_def bucket_insert_stamp)

lemma bucket_write_inv: "cache_inv now c \<Longrightarrow> bucket_inv now (bucket_write k key j t pin now c)"
  by (simp add: bucket_write_def bk.write_inv cache_inv_bucket)

lemma put_inner_inv: "cache_inv now c \<Longrightarrow> cache_inv now (snd (put_inner enc k key v pin now c))"
  by (simp add: put_inner_eq cache_inv_set_bucket bucket_write_inv split: option.split)

lemma put_typed_inner_inv: "cache_inv now c \<Longrightarrow> cache_inv now (snd (put_typed_inner null k key v pin now c))"
  by (simp add: put_typed_inner_eq cache_inv_set_bucket bucket_write_inv)

lemma store_rollback_inv: "cache_inv now c \<Longrightarrow> cache_inv now (store_rollback w st c)"
  by (auto simp: store_rollback_def cache_inv_bucket intro!: cache_inv_set_bucket remove_if_stamp_inv split: option.splits)

lemma store_if_current_inv:
  assumes "cache_inv now c" and "\<And>c. cache_inv now c \<Longrightarrow> cache_inv now (snd (store c))"
  shows "cache_inv now (snd (store_if_current w store c))"
  by (simp add: store_if_current_def case_prod_unfold Let_def assms watch_drop_inv watch_release_inv
      store_rollback_inv)

lemma patch_loop_inv:
  assumes "cache_inv now c" and "\<And>n c. cache_inv now c \<Longrightarrow> cache_inv now (env n c)"
  shows "cache_inv now (snd (patch_loop n env addr down up patch k key ttl now c))"
  using assms(1)
proof (induction n arbitrary: c)
  case (Suc n)
  have "cache_inv now (set_bucket k (snd (replace_typed_if_same key rd x (get_bucket (env n c) k))) (env n c))" for rd x
    by (intro cache_inv_set_bucket replace_typed_inv cache_inv_bucket assms(2) Suc.prems)
  with Suc show ?case
    by (simp add: Let_def assms(2) case_prod_unfold split: option.split patch.split)
qed simp

lemma patch_inv:
  assumes "cache_inv now c" and "\<And>n c. cache_inv now c \<Longrightarrow> cache_inv now (env n c)"
  shows "cache_inv now (snd (patch_typed_index_with env addr down up patch k key now c))"
proof -
  let ?c = "bump_watches (Some k) (\<lambda>watched. watched = key) c"
  have b: "cache_inv now ?c" by (rule bump_watches_inv [OF assms(1)])
  have "cache_inv now (snd (patch_loop PATCH_ATTEMPTS env addr down up patch k key ttl now ?c))" for ttl
    by (rule patch_loop_inv [OF b assms(2)])
  with b show ?thesis
    by (simp add: patch_typed_index_with_def Let_def case_prod_unfold cache_inv_bucket
        cache_inv_set_bucket bucket_remove_inv split: option.split)
qed

lemma fold_set_bucket_inv:
  assumes "cache_inv now c" and "\<And>k c. cache_inv now c \<Longrightarrow> cache_inv now (f k c)"
  shows "cache_inv now (fold f ks c)"
  using assms(1) by (induction ks arbitrary: c) (simp_all add: assms(2))

lemma invalidation_inv:
  assumes "cache_inv now c"
  shows "cache_inv now (invalidate k key c)" "cache_inv now (invalidate_prefix k pre c)"
    "cache_inv now (invalidate_tenant t c)" "cache_inv now (clear_kind k c)" "cache_inv now (cache_clear c)"
proof -
  have b: "cache_inv now (bump_watches q m c)" for q m by (rule bump_watches_inv [OF assms])
  have s: "cache_inv now d \<Longrightarrow> bucket_inv now (get_bucket d j)" for d :: "('a, 'b) cache" and j
    by (rule cache_inv_bucket)
  show "cache_inv now (invalidate k key c)"
    by (auto simp: invalidate_def Let_def intro!: cache_inv_set_bucket b bucket_remove_inv s [OF assms])
  show "cache_inv now (invalidate_prefix k pre c)"
    by (auto simp: invalidate_prefix_def Let_def simp del: starts_with_code
        intro!: cache_inv_set_bucket b bucket_retain_inv s [OF assms])
  show "cache_inv now (invalidate_tenant t c)"
    by (auto simp: invalidate_tenant_def Let_def simp del: starts_with_code
        intro!: fold_set_bucket_inv cache_inv_set_bucket b bucket_retain_inv s)
  show "cache_inv now (clear_kind k c)"
    by (auto simp: clear_kind_def Let_def intro!: cache_inv_set_bucket b bucket_clear_inv)
  show "cache_inv now (cache_clear c)"
    by (auto simp: cache_clear_def intro!: fold_set_bucket_inv cache_inv_set_bucket b bucket_clear_inv)
qed

lemma configure_inv: "cache_inv now c \<Longrightarrow> cache_inv now (configure en sp perm aud lst mx now c)"
  by (auto simp: configure_def Let_def shrink_kind_def intro!: fold_set_bucket_inv cache_inv_config
      cache_inv_set_bucket evict_lru_inv evict_expired_inv cache_inv_bucket)

lemma cache_new_bucket [simp]: "get_bucket cache_new k = bucket_new"
  by (cases k) (simp_all add: cache_new_def ALL_KINDS_def)

lemma cache_new_inv: "cache_inv now cache_new"
  unfolding cache_inv_def by (simp add: bucket_new_inv) (simp add: cache_new_def watches_ok_def)

end
