(* ===== verification/Cache_Runs.thy ===== *)
theory Cache_Runs
  imports Cache_Core
begin

text \<open>
  Runs of the cache: \<open>cache_step\<close> has one rule per public operation, \<open>cache_reach\<close> closes it
  under the passage of time from the empty cache, and the well-formedness invariant holds in
  every reachable state.  The properties of the cache follow: what a read returns, what survives
  an eviction, what an invalidation removes, what an in-place patch may do.
\<close>

section \<open>Reachable caches\<close>

inductive cache_step :: "instant \<Rightarrow> ('j, 'a) cache \<Rightarrow> ('j, 'a) cache \<Rightarrow> bool" for now c where
  put: "cache_step now c (cache_put (enc :: 'j \<Rightarrow> 'j option) kind key v now c)"
| put_typed: "cache_step now c (put_typed null kind key r now c)"
| put_typed_index: "cache_step now c (put_typed_index null kind key r now c)"
| put_if_current: "cache_step now c (snd (put_if_current (enc :: 'j \<Rightarrow> 'j option) w v now c))"
| put_typed_if_current: "cache_step now c (snd (put_typed_if_current null w r now c))"
| put_typed_index_if_current: "cache_step now c (snd (put_typed_index_if_current null w r now c))"
| get: "cache_step now c (snd (cache_get (dec :: 'j \<Rightarrow> 'j option) kind key now c))"
| get_typed: "cache_step now c (snd (cache_get_typed (down :: 'a \<Rightarrow> 'a option) kind key now c))"
| patch: "cache_step now c (snd (patch_typed_index_with (\<lambda>_ d. d) addr (down :: 'a \<Rightarrow> 'a option) up f kind key now c))"
| generation_for: "cache_step now c (snd (generation_for kind key c))"
| watch_drop: "cache_step now c (watch_drop w c)"
| invalidate: "cache_step now c (invalidate kind key c)"
| invalidate_prefix: "cache_step now c (invalidate_prefix kind pre c)"
| invalidate_tenant: "cache_step now c (invalidate_tenant t c)"
| clear_kind: "cache_step now c (clear_kind kind c)"
| clear: "cache_step now c (cache_clear c)"
| configure: "cache_step now c (configure en sp perm aud lst mx now c)"
| set_enabled: "cache_step now c (set_enabled on c)"

inductive cache_reach :: "instant \<Rightarrow> ('j, 'a) cache \<Rightarrow> bool" where
  start: "cache_reach now cache_new"
| later: "cache_reach now c \<Longrightarrow> now \<le> now' \<Longrightarrow> cache_reach now' c"
| step: "cache_reach now c \<Longrightarrow> cache_step now c d \<Longrightarrow> cache_reach now d"

lemma cache_step_inv: "cache_step now c d \<Longrightarrow> cache_inv now c \<Longrightarrow> cache_inv now d"
proof (induction rule: cache_step.induct)
  case (patch addr down up f kind key)
  then show ?case by (intro patch_inv)
qed (simp_all add: cache_put_def put_typed_def put_typed_index_def put_if_current_def put_typed_if_current_def
    put_typed_index_if_current_def store_if_current_inv put_inner_inv put_typed_inner_inv cache_get_inv
    cache_get_typed_inv generation_for_inv watch_drop_inv invalidation_inv configure_inv set_enabled_def
    cache_inv_config)

lemma cache_reach_inv: "cache_reach now c \<Longrightarrow> cache_inv now c"
  by (induction rule: cache_reach.induct) (auto intro: cache_new_inv cache_inv_later cache_step_inv)

section \<open>Reads in closed form\<close>

definition live_entry :: "('j, 'a) cache \<Rightarrow> cache_kind \<Rightarrow> string \<Rightarrow> instant \<Rightarrow> ('j, 'a) entry option" where
  "live_entry c kind key now =
     (if cfg_enabled (c_config c) then
        (case b_lookup (get_bucket c kind) key of
           Some e \<Rightarrow> if elapsed now (e_inserted e) \<le> ttl_for (c_config c) kind then Some e else None
         | None \<Rightarrow> None)
      else None)"

lemma cache_lookup_fst:
  assumes "\<And>e t. extract (e\<lparr>e_last_access := t\<rparr>) = extract e"
  shows "fst (cache_lookup kind key now extract c) = map_option extract (live_entry c kind key now)"
proof (cases "b_lookup (get_bucket c kind) key")
  case None
  then show ?thesis by (simp add: cache_lookup_def live_entry_def Let_def)
next
  case (Some e)
  then show ?thesis
    by (simp add: cache_lookup_def live_entry_def Let_def bucket_touch_lookup assms del: map_of_eq_Some_iff)
qed

lemma cache_get_fst:
  "fst (cache_get dec kind key now c) = Option.bind (live_entry c kind key now) (\<lambda>e. dec (e_value e))"
  using cache_lookup_fst [of "\<lambda>e. (e_value e, e_typed e \<noteq> None)" kind key now c]
  by (cases "live_entry c kind key now")
    (auto simp: cache_get_def case_prod_unfold split: option.splits)

lemma cache_get_typed_fst:
  "fst (cache_get_typed down kind key now c) =
     Option.bind (live_entry c kind key now) (\<lambda>e. Option.bind (e_typed e) (\<lambda>(ad, x). map_option (Pair ad) (down x)))"
  using cache_lookup_fst [of e_typed kind key now c]
  by (cases "live_entry c kind key now")
    (auto simp: cache_get_typed_def case_prod_unfold split: option.splits)

lemma bucket_write_live:
  assumes "cache_inv now c" and "cfg_enabled (c_config c)" and "0 < capacity_for c kind \<or> pin"
    and "now \<le> now'" and "now' - now \<le> ttl_for (c_config c) kind"
  shows "\<exists>e. live_entry (set_bucket kind (bucket_write kind key j t pin now c) c) kind key now' = Some e
           \<and> e_value e = j \<and> e_typed e = t \<and> e_pinned e = pin"
proof -
  obtain e where e: "b_lookup (bucket_write kind key j t pin now c) key = Some e" "e_value e = j"
    "e_typed e = t" "e_inserted e = now" "e_pinned e = pin"
    using bk.write_find [OF cache_inv_bucket [OF assms(1)] assms(3), of "ttl_for (c_config c) kind" key j t kind]
    unfolding bucket_write_def by blast
  then show ?thesis
    using assms(2,5) by (simp add: live_entry_def get_set_bucket [OF cache_inv_len [OF assms(1)]] elapsed_def)
qed

section \<open>Sweeps over all kinds\<close>

lemma fold_kinds_bucket:
  assumes "length (c_buckets c) = 4"
  shows "get_bucket (fold (\<lambda>k c. set_bucket k (f k (get_bucket c k)) c) ALL_KINDS c) kind = f kind (get_bucket c kind)"
  using assms by (cases kind) (simp_all add: ALL_KINDS_def set_bucket_def)

lemma invalidate_tenant_bucket:
  assumes "cache_inv now c"
  shows "get_bucket (invalidate_tenant t c) kind
           = bucket_retain (\<lambda>k. \<not> starts_with k (t @ ''|'')) (get_bucket c kind)"
  using fold_kinds_bucket [of "bump_watches None (\<lambda>watched. starts_with watched (t @ ''|'')) c"
      "\<lambda>_. bucket_retain (\<lambda>k. \<not> starts_with k (t @ ''|''))" kind] cache_inv_len [OF assms]
  by (simp add: invalidate_tenant_def Let_def del: starts_with_code)

lemma invalidate_tenant_frame:
  "c_config (invalidate_tenant t c) = c_config c" "c_stats (invalidate_tenant t c) = c_stats c"
  by (simp_all add: invalidate_tenant_def Let_def ALL_KINDS_def bump_watches_def)

lemma shrink_fold_config: "c_config (fold (shrink_kind now m) ks c) = c_config c"
  by (induction ks arbitrary: c) (simp_all add: shrink_kind_def)

lemma configure_bucket:
  assumes "cache_inv now c"
  shows "get_bucket (configure en sp perm aud lst (Some m) now c) kind =
     (let cfg = c_config (configure en sp perm aud lst (Some m) now c)
      in evict_lru (cap_for kind m) (evict_expired (ttl_for cfg kind) now (get_bucket c kind)))"
proof -
  have "get_bucket (fold (shrink_kind now m) ALL_KINDS d) kind =
      evict_lru (cap_for kind m) (evict_expired (ttl_for (c_config d) kind) now (get_bucket d kind))"
    if "length (c_buckets d) = 4" for d :: "('a, 'b) cache"
    using that by (cases kind) (simp_all add: ALL_KINDS_def shrink_kind_def set_bucket_def)
  with cache_inv_len [OF assms] show ?thesis
    by (simp add: configure_def Let_def shrink_fold_config)
qed

section \<open>Patching\<close>

lemma patch_attempts_Suc: "PATCH_ATTEMPTS = Suc (Suc (Suc 0))"
  by (simp add: PATCH_ATTEMPTS_def)

lemma patch_loop_len:
  assumes "length (c_buckets c) = 4" and "\<And>n d. length (c_buckets d) = 4 \<Longrightarrow> length (c_buckets (env n d)) = 4"
  shows "length (c_buckets (snd (patch_loop n env addr down up f kind key ttl now c))) = 4"
  using assms(1) by (induction n arbitrary: c) (simp_all add: Let_def assms(2) case_prod_unfold split: option.split patch.split)

lemma bump_watches_lookup [simp]: "live_entry (bump_watches k m c) kind key now = live_entry c kind key now"
  by (simp add: live_entry_def cong: option.case_cong)

lemma patch_read_live:
  "cfg_enabled (c_config c) \<Longrightarrow>
     patch_read kind key (ttl_for (c_config c) kind) now c = Option.bind (live_entry c kind key now) e_typed"
  by (simp add: patch_read_def live_entry_def split: option.split)

lemma live_entry_lookup: "live_entry c kind key now = Some e \<Longrightarrow> b_lookup (get_bucket c kind) key = Some e"
  by (simp add: live_entry_def del: map_of_eq_Some_iff split: option.splits if_splits)

lemma replace_typed_lookup:
  assumes "b_lookup b key = Some e" and "e_typed e = Some r"
  shows "replace_typed_if_same key r s b =
     (True, b\<lparr>b_entries := AList.update key (e\<lparr>e_typed := Some s\<rparr>) (b_entries b)\<rparr>)"
  using assms by (simp add: replace_typed_if_same_def ptr_eq_def del: map_of_eq_Some_iff)

text \<open>With no other thread in between, the loop settles in its first attempt.\<close>

lemma patch_loop_alone:
  assumes "length (c_buckets c) = 4" and "cfg_enabled (c_config c)" and "ttl = ttl_for (c_config c) kind"
  shows "case patch_loop (Suc n) (\<lambda>_ d. d) addr down up f kind key ttl now c of (landed, d) \<Rightarrow>
    (case Option.bind (Option.bind (live_entry c kind key now) e_typed) (\<lambda>r. map_option f (down (snd r))) of
       Some (Replace nxt) \<Rightarrow> landed \<and> b_lookup (get_bucket d kind) key
           = map_option (\<lambda>e. e\<lparr>e_typed := Some (addr n, up nxt)\<rparr>) (live_entry c kind key now)
     | Some Keep \<Rightarrow> landed \<and> b_lookup (get_bucket d kind) key = live_entry c kind key now
     | _ \<Rightarrow> \<not> landed \<and> length (c_buckets d) = 4)"
proof (cases "live_entry c kind key now")
  case None
  then show ?thesis using assms by (simp add: patch_read_live)
next
  case (Some e)
  note lk = live_entry_lookup [OF Some]
  show ?thesis
    using assms Some lk
    by (cases "e_typed e")
      (simp_all add: patch_read_live replace_typed_lookup [OF lk] get_set_bucket update_conv' holds_typed_def ptr_eq_def
        del: map_of_eq_Some_iff split: option.split patch.split)
qed

text \<open>The same for the whole patch, and what it leaves alone.\<close>

lemma patch_alone_outcome:
  assumes "length (c_buckets c) = 4"
  shows "case patch_typed_index_with (\<lambda>_ d. d) addr down up f kind key now c of (landed, d) \<Rightarrow>
    (case Option.bind (Option.bind (live_entry c kind key now) e_typed) (\<lambda>r. map_option f (down (snd r))) of
       Some (Replace nxt) \<Rightarrow> landed \<and> b_lookup (get_bucket d kind) key
           = map_option (\<lambda>e. e\<lparr>e_typed := Some (addr 2, up nxt)\<rparr>) (live_entry c kind key now)
     | Some Keep \<Rightarrow> landed \<and> b_lookup (get_bucket d kind) key = live_entry c kind key now
     | _ \<Rightarrow> \<not> landed \<and> b_lookup (get_bucket d kind) key = None)"
proof -
  let ?c = "bump_watches (Some kind) (\<lambda>watched. watched = key) c"
  have len: "length (c_buckets ?c) = 4" using assms by simp
  show ?thesis
  proof (cases "cfg_enabled (c_config c)")
    case True
    have attempts: "PATCH_ATTEMPTS = Suc 2" by (simp add: PATCH_ATTEMPTS_def)
    show ?thesis
      using patch_loop_alone [OF len, where ttl = "ttl_for (c_config c) kind" and kind = kind and n = 2
          and addr = addr and down = down and up = up and f = f and key = key and now = now] True
      by (auto simp: patch_typed_index_with_def Let_def limits_if_enabled_def attempts get_set_bucket
          bucket_remove_lookup simp del: patch_loop.simps split: option.splits patch.splits prod.splits)
  next
    case False
    then show ?thesis
      by (simp add: patch_typed_index_with_def Let_def limits_if_enabled_def live_entry_def
          get_set_bucket [OF len] bucket_remove_lookup)
  qed
qed

lemma replace_typed_other:
  "key' \<noteq> key \<Longrightarrow> b_lookup (snd (replace_typed_if_same key rd x b)) key' = b_lookup b key'"
  by (auto simp: replace_typed_if_same_def update_conv' split: option.split)

lemma patch_loop_frame:
  assumes "length (c_buckets c) = 4" and "(kind', key') \<noteq> (kind, key)"
  shows "b_lookup (get_bucket (snd (patch_loop n (\<lambda>_ d. d) addr down up f kind key ttl now c)) kind') key'
     = b_lookup (get_bucket c kind') key'"
  using assms(1)
proof (induction n arbitrary: c)
  case (Suc n)
  have step: "b_lookup (get_bucket (set_bucket kind (snd (replace_typed_if_same key rd x (get_bucket c kind))) c) kind') key'
      = b_lookup (get_bucket c kind') key'" for rd x
    using assms(2) Suc.prems by (auto simp: get_set_bucket replace_typed_other)
  show ?case using Suc step
    by (auto simp: Let_def case_prod_unfold split: option.split patch.split)
qed simp

lemma patch_alone_frame:
  assumes "length (c_buckets c) = 4" and "(kind', key') \<noteq> (kind, key)"
  shows "b_lookup (get_bucket (snd (patch_typed_index_with (\<lambda>_ d. d) addr down up f kind key now c)) kind') key'
     = b_lookup (get_bucket c kind') key'"
    and "length (c_buckets (snd (patch_typed_index_with (\<lambda>_ d. d) addr down up f kind key now c))) = 4"
proof -
  let ?c = "bump_watches (Some kind) (\<lambda>watched. watched = key) c"
  have len: "length (c_buckets ?c) = 4" using assms by simp
  have removed: "b_lookup (get_bucket (set_bucket kind (snd (bucket_remove key (get_bucket d kind))) d) kind') key'
      = b_lookup (get_bucket d kind') key'" if "length (c_buckets d) = 4" for d
    using that assms(2) by (auto simp: get_set_bucket bucket_remove_lookup)
  note loop = patch_loop_len [where env = "\<lambda>_ d. d", OF len] and frame = patch_loop_frame [OF len assms(2)]
  show "b_lookup (get_bucket (snd (patch_typed_index_with (\<lambda>_ d. d) addr down up f kind key now c)) kind') key'
     = b_lookup (get_bucket c kind') key'"
    using assms(1) frame
    by (auto simp: patch_typed_index_with_def Let_def case_prod_unfold removed [OF loop] removed [OF len, simplified] split: option.split)
  show "length (c_buckets (snd (patch_typed_index_with (\<lambda>_ d. d) addr down up f kind key now c))) = 4"
    using len by (simp add: loop patch_typed_index_with_def Let_def case_prod_unfold split: option.split)
qed

section \<open>Properties\<close>

lemmas cache_eval = cache_put_def put_typed_index_def put_inner_def put_typed_inner_def limits_if_enabled_def
  cache_new_def bucket_new_def bucket_insert_def evict_if_needed_def unpinned_len_def set_bucket_def
  cap_for_def default_config_def MAX_CACHE_SIZE_def MAX_PER_OBJECT_CACHE_SIZE_def CACHE_TTL_defs
  sweep_after_def at_cap_sweep_interval_def ALL_KINDS_def Let_def time_defs

text \<open>C2: every cache reached from the empty one by any sequence of public operations, with a
  monotone clock, is well formed: in each bucket the keys are distinct, the LRU index has exactly
  one row per entry, \<open>pinned\<close> counts the pinned entries (so it is never decremented below zero),
  stamps are unique, \<open>oldest_insert\<close> is a lower bound; and the watch table is bounded with every
  watch referenced.\<close>

theorem cache_reachable_well_formed:
  assumes "cache_reach now c" shows "cache_inv now c"
  using assms by (rule cache_reach_inv)

definition example_cache :: "(nat, nat) cache" where
  "example_cache = put_typed_index 0 Lists ''t|sp'' (1, 7) 5 (cache_put Some Lists ''t|a'' 42 3 cache_new)"

lemma example_cache_reach: "cache_reach 5 example_cache"
  unfolding example_cache_def
  by (rule cache_reach.step [OF cache_reach.later [OF cache_reach.step [OF cache_reach.start cache_step.put]]
      cache_step.put_typed_index]) simp

lemma example_cache_config: "c_config example_cache = default_config"
  by (simp add: example_cache_def cache_put_def put_typed_index_def put_inner_eq put_typed_inner_eq cache_new_def)

lemma example_cache_a:
  "b_lookup (c_buckets example_cache ! 3) ''t|a''
     = Some \<lparr>e_value = 42, e_typed = None, e_inserted = 3, e_last_access = 1, e_pinned = False, e_stamp = 1\<rparr>"
  by (simp add: example_cache_def cache_eval)

lemma example_cache_sp:
  "live_entry example_cache Lists ''t|sp'' 6
     = Some \<lparr>e_value = 0, e_typed = Some (1, 7), e_inserted = 5, e_last_access = 2, e_pinned = True, e_stamp = 2\<rparr>"
  by (simp add: example_cache_def live_entry_def cache_eval)

theorem cache_reachable_well_formed_witness: "cache_reach 5 example_cache \<and> cache_inv 5 example_cache"
  using cache_reachable_well_formed [OF example_cache_reach] example_cache_reach by simp

text \<open>C26: LRU eviction of a well-formed bucket leaves exactly \<open>min cap n\<close> unpinned entries, adds
  nothing, never evicts a pinned entry, and every evicted entry was used less recently than every
  unpinned entry that stays.\<close>

theorem evict_lru_removes_least_recent:
  assumes "bucket_inv now b"
  shows "unpinned_len (evict_lru cap b) = min cap (unpinned_len b)
    \<and> set (b_entries (evict_lru cap b)) \<subseteq> set (b_entries b)
    \<and> (\<forall>p \<in> set (b_entries b) - set (b_entries (evict_lru cap b)).
         \<not> e_pinned (snd p)
       \<and> (\<forall>q \<in> set (b_entries (evict_lru cap b)).
            \<not> e_pinned (snd q) \<longrightarrow> e_last_access (snd p) < e_last_access (snd q)))"
  using assms evict_lru_order [OF assms] evict_lru_subset [OF assms] unpinned_len_evict_lru [OF assms]
  by blast

definition example_bucket :: "(nat, nat) bucket" where
  "example_bucket = bucket_touch ''a'' (snd (bucket_insert ''c'' 3 None True 7
     (snd (bucket_insert ''b'' 2 None False 6 (snd (bucket_insert ''a'' 1 None False 5 bucket_new))))))"

lemma example_bucket_inv: "bucket_inv 7 example_bucket"
  unfolding example_bucket_def
  by (intro bucket_touch_inv bucket_insert_inv [of 6] bucket_insert_inv [of 5] bucket_new_inv) simp_all

theorem evict_lru_removes_least_recent_witness:
  "unpinned_len (evict_lru 1 example_bucket) = min 1 (unpinned_len example_bucket)
   \<and> map fst (b_entries (evict_lru 1 example_bucket)) = [''a'', ''c'']"
proof -
  have "map fst (b_entries (evict_lru 1 example_bucket)) = [''a'', ''c'']"
    by code_simp
  with evict_lru_removes_least_recent [OF example_bucket_inv, of 1] show ?thesis by blast
qed

text \<open>A \<open>put\<close> followed, within the TTL, by a \<open>get\<close> of the same key returns the stored value
  whatever the put had to evict (the new entry is the most recently used one), provided serde
  round-trips the value and the capacity is not zero; the put leaves at most \<open>capacity_for\<close>
  unpinned entries and adds or changes no other entry of any bucket.\<close>

theorem put_get_roundtrip:
  assumes "cache_reach now c" and "cfg_enabled (c_config c)" and "0 < capacity_for c kind"
    and "enc v = Some j" and "dec j = Some v" and "now \<le> now'" and "now' - now \<le> ttl_for (c_config c) kind"
  shows "fst (cache_get dec kind key now' (cache_put enc kind key v now c)) = Some v
    \<and> unpinned_len (get_bucket (cache_put enc kind key v now c) kind) \<le> capacity_for c kind
    \<and> (\<forall>k key' e. (k, key') \<noteq> (kind, key) \<longrightarrow>
         b_lookup (get_bucket (cache_put enc kind key v now c) k) key' = Some e \<longrightarrow>
         b_lookup (get_bucket c k) key' = Some e)"
proof -
  note inv = cache_reach_inv [OF assms(1)]
  have put: "cache_put enc kind key v now c = set_bucket kind (bucket_write kind key j None False now c) c"
    by (simp add: cache_put_def put_inner_eq assms)
  have "fst (cache_get dec kind key now' (cache_put enc kind key v now c)) = Some v"
    using bucket_write_live [OF inv assms(2) disjI1 [OF assms(3)] assms(6,7),
        where pin = False and key = key and j = j and t = None]
    using assms(5) by (auto simp: cache_get_fst put)
  moreover have "unpinned_len (get_bucket (cache_put enc kind key v now c) kind) \<le> capacity_for c kind"
    using bk.write_cap [OF cache_inv_bucket [OF inv]]
    by (simp add: put get_set_bucket [OF cache_inv_len [OF inv]] bucket_write_def)
  moreover have "b_lookup (get_bucket c k) key' = Some e"
    if "(k, key') \<noteq> (kind, key)" "b_lookup (get_bucket (cache_put enc kind key v now c) k) key' = Some e" for k key' e
    using that bk.write_find_other [OF cache_inv_bucket [OF inv], where key = key and k = key']
    by (simp add: put get_set_bucket [OF cache_inv_len [OF inv]] bucket_write_def del: map_of_eq_Some_iff split: if_splits)
  ultimately show ?thesis by blast
qed

theorem put_get_roundtrip_witness:
  "fst (cache_get Some Lists ''t|b'' 9 (cache_put Some Lists ''t|b'' 8 6 example_cache)) = Some 8"
proof -
  have "cache_reach 6 example_cache" using example_cache_reach by (rule cache_reach.later) simp
  moreover have "cfg_enabled (c_config example_cache)" "0 < capacity_for example_cache Lists"
    "9 - 6 \<le> ttl_for (c_config example_cache) Lists"
    by (simp_all add: example_cache_config capacity_for_def cap_for_def MAX_CACHE_SIZE_def
        MAX_PER_OBJECT_CACHE_SIZE_def default_config_def CACHE_TTL_defs from_secs_def)
  ultimately show ?thesis
    using put_get_roundtrip [of 6 example_cache Lists Some 8 8 Some 9 "''t|b''"] by simp
qed

text \<open>a read serves exactly the live entries: \<open>get\<close> returns \<open>v\<close> if and only if the cache is
  enabled and the bucket holds, under that key, an entry no older than the TTL whose stored value
  decodes to \<open>v\<close>.  A miss on a dead key removes it, and no read changes what any other key holds.\<close>

theorem get_serves_exactly_live_entries:
  assumes "cache_reach now c"
  shows "(fst (cache_get dec kind key now c) = Some v \<longleftrightarrow>
      cfg_enabled (c_config c) \<and> (\<exists>e. b_lookup (get_bucket c kind) key = Some e
        \<and> elapsed now (e_inserted e) \<le> ttl_for (c_config c) kind \<and> dec (e_value e) = Some v))
    \<and> (\<forall>k key'. (k, key') \<noteq> (kind, key) \<longrightarrow>
        b_lookup (get_bucket (snd (cache_get dec kind key now c)) k) key' = b_lookup (get_bucket c k) key')
    \<and> (cfg_enabled (c_config c) \<longrightarrow> live_entry c kind key now = None \<longrightarrow>
        b_lookup (get_bucket (snd (cache_get dec kind key now c)) kind) key = None)"
proof -
  note len = cache_inv_len [OF cache_reach_inv [OF assms]]
  have "fst (cache_get dec kind key now c) = Some v \<longleftrightarrow>
      cfg_enabled (c_config c) \<and> (\<exists>e. b_lookup (get_bucket c kind) key = Some e
        \<and> elapsed now (e_inserted e) \<le> ttl_for (c_config c) kind \<and> dec (e_value e) = Some v)"
    by (auto simp: cache_get_fst live_entry_def bind_eq_Some_conv simp del: map_of_eq_Some_iff
        split: option.splits if_splits)
  moreover have "b_lookup (get_bucket (snd (cache_get dec kind key now c)) k) key' = b_lookup (get_bucket c k) key'"
    if "(k, key') \<noteq> (kind, key)" for k key'
    using that
    by (auto simp: cache_get_def cache_lookup_def Let_def len get_set_bucket bucket_remove_lookup
        bucket_touch_lookup split: option.splits)
  moreover have "b_lookup (get_bucket (snd (cache_get dec kind key now c)) kind) key = None"
    if "cfg_enabled (c_config c)" "live_entry c kind key now = None"
    using that
    by (auto simp: live_entry_def cache_get_def cache_lookup_def Let_def len get_set_bucket bucket_remove_lookup
        split: option.splits if_splits)
  ultimately show ?thesis by blast
qed

theorem get_serves_exactly_live_entries_witness:
  "fst (cache_get Some Lists ''t|a'' 5 example_cache) = Some 42
   \<and> b_lookup (get_bucket (snd (cache_get Some Lists ''t|a'' 5 example_cache)) Lists) ''t|sp''
     = b_lookup (get_bucket example_cache Lists) ''t|sp''"
proof -
  have "fst (cache_get Some Lists ''t|a'' 5 example_cache) = Some 42"
    by (simp add: cache_get_fst live_entry_def example_cache_config example_cache_a default_config_def
        CACHE_TTL_defs from_secs_def elapsed_def del: map_of_eq_Some_iff)
  moreover have "b_lookup (get_bucket (snd (cache_get Some Lists ''t|a'' 5 example_cache)) Lists) ''t|sp''
     = b_lookup (get_bucket example_cache Lists) ''t|sp''"
    by (rule get_serves_exactly_live_entries [OF example_cache_reach, of Some Lists "''t|a''" 42,
          THEN conjunct2, THEN conjunct1, rule_format]) simp
  ultimately show ?thesis ..
qed

text \<open>C28: invalidating a tenant removes, in every bucket, pinned or not, every entry whose key
  starts with \<^verbatim>\<open>tenant|\<close>, keeps every other entry exactly as it was, and leaves the configuration
  and the statistics alone.\<close>

theorem invalidate_tenant_isolates:
  assumes "cache_reach now c"
  shows "b_lookup (get_bucket (invalidate_tenant t c) kind) key
           = (if starts_with key (t @ ''|'') then None else b_lookup (get_bucket c kind) key)
    \<and> c_config (invalidate_tenant t c) = c_config c \<and> c_stats (invalidate_tenant t c) = c_stats c"
  by (simp_all add: invalidate_tenant_bucket [OF cache_reach_inv [OF assms]] bucket_retain_lookup
      invalidate_tenant_frame del: starts_with_code)

theorem invalidate_tenant_isolates_witness:
  "b_lookup (get_bucket (invalidate_tenant ''t'' example_cache) Lists) ''t|a'' = None
   \<and> c_stats (invalidate_tenant ''t'' example_cache) = c_stats example_cache"
  using invalidate_tenant_isolates [OF example_cache_reach, of "''t''" Lists "''t|a''"] by simp


text \<open>patching an index in place, with no other thread in between, has exactly these outcomes.
  If the key holds a live typed entry of the expected type, \<open>Replace\<close> swaps the payload and keeps
  the entry's age, pinning and stamp, and \<open>Keep\<close> leaves the entry as it is; in both cases the
  result is \<open>true\<close>.  In every other case (disabled cache, missing, expired or untyped entry, a
  payload of another type, \<open>Invalidate\<close>) the result is \<open>false\<close> and the key is gone.\<close>

theorem patch_outcomes:
  assumes "cache_reach now c"
  shows "case patch_typed_index_with (\<lambda>_ d. d) addr down up f kind key now c of (landed, d) \<Rightarrow>
    (case Option.bind (Option.bind (live_entry c kind key now) e_typed) (\<lambda>r. map_option f (down (snd r))) of
       Some (Replace nxt) \<Rightarrow> landed \<and> b_lookup (get_bucket d kind) key
           = map_option (\<lambda>e. e\<lparr>e_typed := Some (addr 2, up nxt)\<rparr>) (live_entry c kind key now)
     | Some Keep \<Rightarrow> landed \<and> b_lookup (get_bucket d kind) key = live_entry c kind key now
     | _ \<Rightarrow> \<not> landed \<and> b_lookup (get_bucket d kind) key = None)"
  using cache_inv_len [OF cache_reach_inv [OF assms]] by (rule patch_alone_outcome)

theorem patch_outcomes_witness:
  "fst (patch_typed_index_with (\<lambda>_ d. d) (\<lambda>n. 10 + n) Some id (\<lambda>x. Replace (x + 1)) Lists ''t|sp'' 6 example_cache)
   \<and> b_lookup (get_bucket (snd (patch_typed_index_with (\<lambda>_ d. d) (\<lambda>n. 10 + n) Some id (\<lambda>x. Replace (x + 1))
        Lists ''t|sp'' 6 example_cache)) Lists) ''t|sp''
     = Some \<lparr>e_value = 0, e_typed = Some (12, 8), e_inserted = 5, e_last_access = 2, e_pinned = True, e_stamp = 2\<rparr>"
proof -
  have "cache_reach 6 example_cache" using example_cache_reach by (rule cache_reach.later) simp
  from patch_outcomes [OF this, where addr = "\<lambda>n. 10 + n" and down = Some and up = id
      and f = "\<lambda>x. Replace (x + 1)" and kind = Lists and key = "''t|sp''"]
  show ?thesis by (simp add: example_cache_sp case_prod_unfold del: map_of_eq_Some_iff)
qed

text \<open>Whatever the other threads do between the attempts, a patch that reports \<open>false\<close> has
  left no entry under the key, so a caller never keeps a snapshot it believes invalidated.\<close>

theorem patch_failure_removes:
  assumes "cache_reach now c" and "\<And>n d. length (c_buckets d) = 4 \<Longrightarrow> length (c_buckets (env n d)) = 4"
    and "\<not> fst (patch_typed_index_with env addr down up f kind key now c)"
  shows "b_lookup (get_bucket (snd (patch_typed_index_with env addr down up f kind key now c)) kind) key = None"
proof -
  let ?c = "bump_watches (Some kind) (\<lambda>watched. watched = key) c"
  have len: "length (c_buckets ?c) = 4" using cache_inv_len [OF cache_reach_inv [OF assms(1)]] by simp
  note loop = patch_loop_len [where env = env, OF len assms(2)]
  show ?thesis
    using assms(3)
    by (auto simp: patch_typed_index_with_def Let_def case_prod_unfold get_set_bucket [OF loop] get_set_bucket [OF len]
        bucket_remove_lookup split: if_splits option.splits)
qed

theorem patch_failure_removes_witness:
  "b_lookup (get_bucket (snd (patch_typed_index_with (\<lambda>_. invalidate Lists ''t|sp'') (\<lambda>n. 10 + n) Some id
       (\<lambda>x. Replace (x + 1)) Lists ''t|sp'' 5 example_cache)) Lists) ''t|sp'' = None"
proof (rule patch_failure_removes [OF example_cache_reach])
  show "length (c_buckets (invalidate Lists ''t|sp'' d)) = 4" if "length (c_buckets d) = 4" for d :: "(nat, nat) cache"
    using that by (simp add: invalidate_def Let_def)
  show "\<not> fst (patch_typed_index_with (\<lambda>_. invalidate Lists ''t|sp'') (\<lambda>n. 10 + n) Some id
       (\<lambda>x. Replace (x + 1)) Lists ''t|sp'' 5 example_cache)"
    by (simp add: patch_typed_index_with_def patch_attempts_Suc patch_read_def replace_typed_if_same_def
        bucket_remove_def invalidate_def bump_watches_def example_cache_def cache_eval)
qed

text \<open>\<open>configure\<close> with a new \<open>max_size\<close> brings every bucket under its capacity at once and
  leaves in it only entries that were there before and are within the new TTL.\<close>

theorem configure_shrinks_every_bucket:
  assumes "cache_reach now c" and "d = configure en sp perm aud lst (Some m) now c"
  shows "max_size (c_config d) = m \<and> unpinned_len (get_bucket d kind) \<le> capacity_for d kind
    \<and> (\<forall>key e. b_lookup (get_bucket d kind) key = Some e \<longrightarrow>
         b_lookup (get_bucket c kind) key = Some e \<and> elapsed now (e_inserted e) \<le> ttl_for (c_config d) kind)"
proof -
  note inv = cache_reach_inv [OF assms(1)]
  note binv = cache_inv_bucket [OF inv, of kind]
  have bucket: "get_bucket d kind = evict_lru (cap_for kind m) (evict_expired (ttl_for (c_config d) kind) now (get_bucket c kind))"
    using configure_bucket [OF inv] by (simp add: assms(2))
  have m: "max_size (c_config d) = m"
    by (simp add: assms(2) configure_def Let_def shrink_fold_config)
  have "unpinned_len (get_bucket d kind) \<le> capacity_for d kind"
    by (simp add: bucket unpinned_len_evict_lru [OF evict_expired_inv [OF binv]] capacity_for_def m)
  moreover have "b_lookup (get_bucket c kind) key = Some e \<and> elapsed now (e_inserted e) \<le> ttl_for (c_config d) kind"
    if "b_lookup (get_bucket d kind) key = Some e" for key e
    using evict_lru_lookup_sub [OF evict_expired_inv [OF binv] that [unfolded bucket]]
    by (auto simp: evict_expired_lookup [OF binv] simp del: map_of_eq_Some_iff split: option.splits if_splits)
  ultimately show ?thesis using m by blast
qed

theorem configure_shrinks_every_bucket_witness:
  "unpinned_len (get_bucket (configure None None None None None (Some 0) 5 example_cache) Lists) = 0"
  using configure_shrinks_every_bucket [OF example_cache_reach refl, of None None None None None 0 Lists]
  by (auto simp: capacity_for_def cap_for_def MAX_CACHE_SIZE_def)

end
