(* ===== verification/Cache_Watch_Protocol.thy ===== *)
theory Cache_Watch_Protocol
  imports Cache_Runs
begin

text \<open>
  The store-after-invalidate guard under concurrency.  Any number of fetchers of one watched key
  run \<open>generation_for\<close>, the fetch itself, and the four critical sections of \<open>store_if_current\<close>
  (the check, the store, the release, the rollback); any number of writers change the directory
  (the ghost \<open>p_version\<close>) and then run the two critical sections of \<open>invalidate\<close> (the bump, the
  removal); other threads use the cache for other keys.  The sections interleave arbitrarily;
  each of them is the function of \<open>Cache_Core\<close> applied to the shared cache.  The payload of a
  fetched value is the version of the directory it was read from.
\<close>

section \<open>The interleaving\<close>

datatype phase =
    Registered index_watch
  | Fetched index_watch nat
  | Checked index_watch nat
  | Stored index_watch nat "nat option"
  | Undo index_watch nat "nat option"
  | Finished

record proto =
  p_cache :: "(nat, nat) cache"
  p_now :: instant
  p_version :: nat
  p_fetchers :: "phase list"
  p_prebump :: nat
  p_preremove :: nat

definition proto_init :: "instant \<Rightarrow> (nat, nat) cache \<Rightarrow> proto" where
  "proto_init now c = \<lparr>p_cache = c, p_now = now, p_version = 0, p_fetchers = [], p_prebump = 0, p_preremove = 0\<rparr>"

definition version_of :: "(nat, nat) entry \<Rightarrow> nat" where
  "version_of e = (case e_typed e of Some (a, v) \<Rightarrow> v | None \<Rightarrow> e_value e)"

definition key_watch :: "cache_kind \<Rightarrow> string \<Rightarrow> ('j, 'a) cache \<Rightarrow> watch option" where
  "key_watch kind key c = map_of (c_watches c) (watch_id_of kind key)"

definition inv_bump :: "cache_kind \<Rightarrow> string \<Rightarrow> ('j, 'a) cache \<Rightarrow> ('j, 'a) cache" where
  "inv_bump kind key c = bump_watches (Some kind) (\<lambda>watched. watched = key) c"

definition inv_remove :: "cache_kind \<Rightarrow> string \<Rightarrow> ('j, 'a) cache \<Rightarrow> ('j, 'a) cache" where
  "inv_remove kind key c = set_bucket kind (snd (bucket_remove key (get_bucket c kind))) c"

lemma invalidate_sections: "invalidate kind key c = inv_remove kind key (inv_bump kind key c)"
  by (simp add: invalidate_def inv_remove_def inv_bump_def Let_def)

text \<open>What another thread may do to the cache while leaving this key to the protocol: drop or
  touch the key's entry, never write it, and never touch the key's watch.\<close>

definition leaves_key :: "cache_kind \<Rightarrow> string \<Rightarrow> (nat, nat) cache \<Rightarrow> (nat, nat) cache \<Rightarrow> bool" where
  "leaves_key kind key c d \<longleftrightarrow> key_watch kind key d = key_watch kind key c
     \<and> b_next_stamp (get_bucket c kind) \<le> b_next_stamp (get_bucket d kind)
     \<and> (\<forall>e'. b_lookup (get_bucket d kind) key = Some e' \<longrightarrow>
          (\<exists>e. b_lookup (get_bucket c kind) key = Some e \<and> e_stamp e' = e_stamp e \<and> version_of e' = version_of e))"

inductive proto_step :: "cache_kind \<Rightarrow> string \<Rightarrow> proto \<Rightarrow> proto \<Rightarrow> bool" for kind key s where
  register: "generation_for kind key (p_cache s) = (w, c) \<Longrightarrow>
     proto_step kind key s (s\<lparr>p_cache := c, p_fetchers := p_fetchers s @ [Registered w]\<rparr>)"
| fetch: "i < length (p_fetchers s) \<Longrightarrow> p_fetchers s ! i = Registered w \<Longrightarrow>
     proto_step kind key s (s\<lparr>p_fetchers := (p_fetchers s)[i := Fetched w (p_version s)]\<rparr>)"
| abandon: "i < length (p_fetchers s) \<Longrightarrow> p_fetchers s ! i = Registered w \<Longrightarrow>
     proto_step kind key s (s\<lparr>p_cache := watch_drop w (p_cache s), p_fetchers := (p_fetchers s)[i := Finished]\<rparr>)"
| check: "i < length (p_fetchers s) \<Longrightarrow> p_fetchers s ! i = Fetched w v \<Longrightarrow> store_check w (p_cache s) \<Longrightarrow>
     proto_step kind key s (s\<lparr>p_fetchers := (p_fetchers s)[i := Checked w v]\<rparr>)"
| refuse: "i < length (p_fetchers s) \<Longrightarrow> p_fetchers s ! i = Fetched w v \<Longrightarrow> \<not> store_check w (p_cache s) \<Longrightarrow>
     proto_step kind key s (s\<lparr>p_cache := watch_drop w (p_cache s), p_fetchers := (p_fetchers s)[i := Finished]\<rparr>)"
| store: "i < length (p_fetchers s) \<Longrightarrow> p_fetchers s ! i = Checked w v \<Longrightarrow>
     put_inner Some kind key v pin (p_now s) (p_cache s) = (st, c) \<Longrightarrow>
     proto_step kind key s (s\<lparr>p_cache := c, p_fetchers := (p_fetchers s)[i := Stored w v st]\<rparr>)"
| store_typed: "i < length (p_fetchers s) \<Longrightarrow> p_fetchers s ! i = Checked w v \<Longrightarrow>
     put_typed_inner null kind key (a, v) pin (p_now s) (p_cache s) = (st, c) \<Longrightarrow>
     proto_step kind key s (s\<lparr>p_cache := c, p_fetchers := (p_fetchers s)[i := Stored w v st]\<rparr>)"
| release_kept: "i < length (p_fetchers s) \<Longrightarrow> p_fetchers s ! i = Stored w v st \<Longrightarrow>
     watch_release w (p_cache s) = (after, c) \<Longrightarrow> after = Some (iw_since w) \<Longrightarrow>
     proto_step kind key s (s\<lparr>p_cache := c, p_fetchers := (p_fetchers s)[i := Finished]\<rparr>)"
| release_lost: "i < length (p_fetchers s) \<Longrightarrow> p_fetchers s ! i = Stored w v st \<Longrightarrow>
     watch_release w (p_cache s) = (after, c) \<Longrightarrow> after \<noteq> Some (iw_since w) \<Longrightarrow>
     proto_step kind key s (s\<lparr>p_cache := c, p_fetchers := (p_fetchers s)[i := Undo w v st]\<rparr>)"
| rollback: "i < length (p_fetchers s) \<Longrightarrow> p_fetchers s ! i = Undo w v st \<Longrightarrow>
     proto_step kind key s (s\<lparr>p_cache := store_rollback w st (p_cache s), p_fetchers := (p_fetchers s)[i := Finished]\<rparr>)"
| mutate: "proto_step kind key s (s\<lparr>p_version := p_version s + 1, p_prebump := p_prebump s + 1\<rparr>)"
| bump: "0 < p_prebump s \<Longrightarrow>
     proto_step kind key s (s\<lparr>p_cache := inv_bump kind key (p_cache s),
       p_prebump := p_prebump s - 1, p_preremove := p_preremove s + 1\<rparr>)"
| remove: "0 < p_preremove s \<Longrightarrow>
     proto_step kind key s (s\<lparr>p_cache := inv_remove kind key (p_cache s), p_preremove := p_preremove s - 1\<rparr>)"
| other: "cache_inv (p_now s) c \<Longrightarrow> leaves_key kind key (p_cache s) c \<Longrightarrow>
     proto_step kind key s (s\<lparr>p_cache := c\<rparr>)"
| tick: "p_now s \<le> now' \<Longrightarrow> proto_step kind key s (s\<lparr>p_now := now'\<rparr>)"

inductive proto_reach :: "cache_kind \<Rightarrow> string \<Rightarrow> proto \<Rightarrow> bool" for kind key where
  start: "cache_inv now c \<Longrightarrow> b_lookup (get_bucket c kind) key = None \<Longrightarrow> key_watch kind key c = None \<Longrightarrow>
     proto_reach kind key (proto_init now c)"
| step: "proto_reach kind key s \<Longrightarrow> proto_step kind key s t \<Longrightarrow> proto_reach kind key t"

section \<open>The watch of the key\<close>

fun held_watch :: "phase \<Rightarrow> index_watch option" where
  "held_watch (Registered w) = (if iw_holds_ref w then Some w else None)"
| "held_watch (Fetched w v) = (if iw_holds_ref w then Some w else None)"
| "held_watch (Checked w v) = (if iw_holds_ref w then Some w else None)"
| "held_watch (Stored w v st) = (if iw_holds_ref w then Some w else None)"
| "held_watch (Undo w v st) = None"
| "held_watch Finished = None"

abbreviation holds :: "phase \<Rightarrow> bool" where
  "holds p \<equiv> held_watch p \<noteq> None"

definition holders :: "phase list \<Rightarrow> nat" where
  "holders fs = length (filter holds fs)"

fun phase_watch :: "phase \<Rightarrow> index_watch option" where
  "phase_watch (Registered w) = Some w"
| "phase_watch (Fetched w v) = Some w"
| "phase_watch (Checked w v) = Some w"
| "phase_watch (Stored w v st) = Some w"
| "phase_watch (Undo w v st) = Some w"
| "phase_watch Finished = None"

definition watch_inv :: "cache_kind \<Rightarrow> string \<Rightarrow> (nat, nat) cache \<Rightarrow> phase list \<Rightarrow> bool" where
  "watch_inv kind key c fs \<longleftrightarrow>
     (\<forall>p \<in> set fs. \<forall>w. phase_watch p = Some w \<longrightarrow> iw_kind w = kind \<and> iw_key w = key)
   \<and> (case key_watch kind key c of
        None \<Rightarrow> holders fs = 0
      | Some kw \<Rightarrow> w_refs kw = holders fs \<and> 0 < holders fs
          \<and> (\<forall>p \<in> set fs. \<forall>w. held_watch p = Some w \<longrightarrow> iw_since w \<le> w_counter kw))"

lemma holders_update:
  "i < length fs \<Longrightarrow> holders (fs[i := p]) + of_bool (holds (fs ! i)) = holders fs + of_bool (holds p)"
proof (induction fs arbitrary: i)
  case (Cons x xs)
  then show ?case by (cases i) (auto simp: holders_def)
qed simp

lemma holders_append [simp]: "holders (fs @ [p]) = holders fs + of_bool (holds p)"
  by (simp add: holders_def)

lemma holders_pos: "i < length fs \<Longrightarrow> holds (fs ! i) \<Longrightarrow> 0 < holders fs"
  by (auto simp: holders_def filter_empty_conv)

lemma set_list_update:
  "p \<in> set (fs[i := q]) \<Longrightarrow> p = q \<or> p \<in> set fs"
  by (meson set_update_subset_insert insertE subset_iff)

lemma key_watch_set_bucket [simp]: "key_watch kind key (set_bucket k b c) = key_watch kind key c"
  by (simp add: key_watch_def)

lemma put_inner_watches: "c_watches (snd (put_inner enc k key v pin now c)) = c_watches c"
  by (simp add: put_inner_eq split: option.split)

lemma put_typed_inner_watches: "c_watches (snd (put_typed_inner null k key v pin now c)) = c_watches c"
  by (simp add: put_typed_inner_eq)

lemma store_rollback_watch [simp]: "key_watch kind key (store_rollback w st c) = key_watch kind key c"
  by (simp add: store_rollback_def split: option.split)

lemma key_watch_bump: "key_watch kind key (inv_bump kind key c)
   = map_option (\<lambda>w. w\<lparr>w_counter := w_counter w + 1\<rparr>) (key_watch kind key c)"
proof -
  have "map_of (map (\<lambda>((k, s), w). ((k, s), f k s w)) ws) (a, b) = map_option (f a b) (map_of ws (a, b))"
    for f :: "nat \<Rightarrow> string \<Rightarrow> watch \<Rightarrow> watch" and ws :: "(watch_id \<times> watch) list" and a b
    by (induction ws) auto
  from this [where f = "\<lambda>k s w. if kind_idx kind = k \<and> s = key then w\<lparr>w_counter := w_counter w + 1\<rparr> else w"]
  show ?thesis by (simp add: key_watch_def inv_bump_def bump_watches_def)
qed

lemma generation_for_cases:
  assumes "generation_for kind key c = (w, d)"
  obtains (known) kw where "key_watch kind key c = Some kw" "iw_since w = w_counter kw" "iw_holds_ref w"
      "key_watch kind key d = Some (kw\<lparr>w_refs := w_refs kw + 1\<rparr>)" "c_buckets d = c_buckets c"
      "iw_kind w = kind" "iw_key w = key"
  | (full) "key_watch kind key c = None" "\<not> iw_holds_ref w" "d = c" "iw_kind w = kind" "iw_key w = key"
  | (fresh) "key_watch kind key c = None" "iw_since w = 0" "iw_holds_ref w"
      "key_watch kind key d = Some \<lparr>w_counter = 0, w_refs = 1\<rparr>" "c_buckets d = c_buckets c"
      "iw_kind w = kind" "iw_key w = key"
  using assms
  by (auto simp: generation_for_def Let_def key_watch_def update_conv' simp del: map_of_eq_Some_iff
      split: option.splits if_splits)

lemma release_watch_cases:
  assumes "release_watch kind key c = (after, d)" and "key_watch kind key c = Some kw"
  shows "after = Some (w_counter kw)" "c_buckets d = c_buckets c"
    "key_watch kind key d = (if w_refs kw - 1 = 0 then None else Some (kw\<lparr>w_refs := w_refs kw - 1\<rparr>))"
  using assms by (auto simp: release_watch_def Let_def key_watch_def update_conv' delete_conv' simp del: map_of_eq_Some_iff
      split: if_splits)

section \<open>The watch invariant\<close>

lemma watch_inv_phase:
  assumes "watch_inv kind key c fs" and "i < length fs" and "held_watch q = held_watch (fs ! i)"
    and "\<And>w. phase_watch q = Some w \<Longrightarrow> iw_kind w = kind \<and> iw_key w = key"
    and "key_watch kind key d = key_watch kind key c"
  shows "watch_inv kind key d (fs[i := q])"
proof -
  have "holders (fs[i := q]) = holders fs" using holders_update [OF assms(2), of q] assms(3) by simp
  moreover have "\<exists>p' \<in> set fs. held_watch p' = held_watch p" if "p \<in> set (fs[i := q])" for p
    using set_list_update [OF that] assms(3) nth_mem [OF assms(2)] by metis
  moreover have "\<forall>w. phase_watch p = Some w \<longrightarrow> iw_kind w = kind \<and> iw_key w = key" if "p \<in> set (fs[i := q])" for p
    using set_list_update [OF that] assms(1,4) by (auto simp: watch_inv_def)
  ultimately show ?thesis
    using assms(1) unfolding watch_inv_def assms(5) by (simp split: option.splits) metis
qed

lemma watch_inv_key:
  assumes "watch_inv kind key c fs" and "i < length fs" and "phase_watch (fs ! i) = Some w"
  shows "iw_kind w = kind" "iw_key w = key"
  using assms by (auto simp: watch_inv_def)

lemma watch_inv_same:
  "watch_inv kind key c fs \<Longrightarrow> key_watch kind key d = key_watch kind key c \<Longrightarrow> watch_inv kind key d fs"
  by (simp add: watch_inv_def)

lemma watch_inv_register:
  assumes "watch_inv kind key c fs" and "generation_for kind key c = (w, d)"
  shows "watch_inv kind key d (fs @ [Registered w])"
  using assms(2)
proof (cases rule: generation_for_cases)
  case known
  then show ?thesis using assms(1) by (auto simp: watch_inv_def)
next
  case full
  then show ?thesis using assms(1) by (auto simp: watch_inv_def)
next
  case fresh
  have "held_watch p = None" if "p \<in> set fs" for p
    using that assms(1) fresh(1) by (auto simp: watch_inv_def holders_def filter_empty_conv)
  then show ?thesis using assms(1) fresh by (auto simp: watch_inv_def)
qed

lemma watch_inv_bump:
  assumes "watch_inv kind key c fs" shows "watch_inv kind key (inv_bump kind key c) fs"
  using assms by (fastforce simp: watch_inv_def key_watch_bump split: option.splits)

lemma held_key_watch:
  assumes "watch_inv kind key c fs" and "p \<in> set fs" and "held_watch p = Some w"
  obtains kw where "key_watch kind key c = Some kw" and "iw_since w \<le> w_counter kw"
proof (cases "key_watch kind key c")
  case None
  with assms show thesis by (auto simp: watch_inv_def holders_def filter_empty_conv)
next
  case (Some kw)
  with assms that show thesis by (auto simp: watch_inv_def)
qed

lemma held_phase: "held_watch p = Some w \<Longrightarrow> phase_watch p = Some w \<and> iw_holds_ref w"
  by (cases p) (auto split: if_splits)

lemma watch_inv_release:
  assumes inv: "watch_inv kind key c fs" and i: "i < length fs" "phase_watch (fs ! i) = Some w"
    and q: "held_watch q = None" "\<And>w'. phase_watch q = Some w' \<Longrightarrow> w' = w"
    and held: "held_watch (fs ! i) = (if iw_holds_ref w then Some w else None)"
    and rel: "watch_release w c = (after, d)"
  shows "watch_inv kind key d (fs[i := q])"
proof (cases "iw_holds_ref w")
  case False
  then have "d = c" using rel by (simp add: watch_release_def)
  moreover have "iw_kind w = kind" "iw_key w = key" using inv i by (auto simp: watch_inv_def)
  ultimately show ?thesis using inv i q held False by (auto intro!: watch_inv_phase)
next
  case True
  have mem: "fs ! i \<in> set fs" using i(1) by simp
  have kk: "iw_kind w = kind" "iw_key w = key" using inv i mem by (auto simp: watch_inv_def)
  obtain kw where kw: "key_watch kind key c = Some kw" using held_key_watch [OF inv mem] held True by auto
  have rw: "release_watch kind key c = (after, d)" using rel True kk by (simp add: watch_release_def)
  have n: "holders (fs[i := q]) + 1 = holders fs" using holders_update [OF i(1), of q] held True q(1) by simp
  have refs: "w_refs kw = holders fs" using inv kw by (simp add: watch_inv_def)
  show ?thesis
    using inv kw kk n refs release_watch_cases(3) [OF rw kw] q
    by (auto simp: watch_inv_def dest!: set_list_update)
qed

lemma watch_drop_release: "watch_drop w c = snd (watch_release w c)"
  by (simp add: watch_drop_def watch_release_def)

lemmas watch_sections = put_inner_watches put_typed_inner_watches

lemma proto_step_watch_inv:
  assumes "proto_step kind key s t" and inv: "watch_inv kind key (p_cache s) (p_fetchers s)"
  shows "watch_inv kind key (p_cache t) (p_fetchers t)"
proof -
  have kk: "iw_kind w = kind \<and> iw_key w = key" if "i < length (p_fetchers s)" "phase_watch (p_fetchers s ! i) = Some w" for i w
    using that inv by (auto simp: watch_inv_def)
  have drop: "watch_inv kind key (watch_drop w (p_cache s)) ((p_fetchers s)[i := Finished])"
    if "i < length (p_fetchers s)" "phase_watch (p_fetchers s ! i) = Some w"
      "held_watch (p_fetchers s ! i) = (if iw_holds_ref w then Some w else None)" for i w
    by (rule watch_inv_release [OF inv that(1,2) _ _ that(3), where after = "fst (watch_release w (p_cache s))"])
      (simp_all add: watch_drop_release)
  from assms(1) show ?thesis
  proof cases
    case (register w c)
    then show ?thesis using watch_inv_register [OF inv] by simp
  next
    case (fetch i w)
    then show ?thesis using inv kk by (auto intro!: watch_inv_phase)
  next
    case (abandon i w)
    then show ?thesis using drop by simp
  next
    case (check i w v)
    then show ?thesis using inv kk by (auto intro!: watch_inv_phase)
  next
    case (refuse i w v)
    then show ?thesis using drop by simp
  next
    case (store i w v pin st c)
    then have "key_watch kind key c = key_watch kind key (p_cache s)"
      using put_inner_watches [of Some kind key v pin "p_now s" "p_cache s"] by (simp add: key_watch_def)
    with store show ?thesis using inv kk by (auto intro!: watch_inv_phase)
  next
    case (store_typed i w v null a pin st c)
    then have "key_watch kind key c = key_watch kind key (p_cache s)"
      using put_typed_inner_watches [of null kind key "(a, v)" pin "p_now s" "p_cache s"] by (simp add: key_watch_def)
    with store_typed show ?thesis using inv kk by (auto intro!: watch_inv_phase)
  next
    case (release_kept i w v st after c)
    then show ?thesis by (auto intro!: watch_inv_release [OF inv release_kept(2), where w = w])
  next
    case (release_lost i w v st after c)
    then show ?thesis by (auto intro!: watch_inv_release [OF inv release_lost(2), where w = w])
  next
    case (rollback i w v st)
    then show ?thesis using inv by (auto intro!: watch_inv_phase)
  next
    case bump
    then show ?thesis using inv by (simp add: watch_inv_bump)
  next
    case remove
    then show ?thesis using watch_inv_same [OF inv] by (simp add: inv_remove_def)
  next
    case (other c)
    then show ?thesis using watch_inv_same [OF inv] by (simp add: leaves_key_def)
  qed (use inv in simp_all)
qed

lemma proto_step_cache_inv:
  assumes "proto_step kind key s t" and inv: "cache_inv (p_now s) (p_cache s)"
  shows "cache_inv (p_now t) (p_cache t)"
  using assms(1)
proof cases
  case (register w c)
  then show ?thesis using generation_for_inv [OF inv, of kind key] by simp
next
  case (store i w v pin st c)
  then show ?thesis using put_inner_inv [OF inv, of Some kind key v pin] by simp
next
  case (store_typed i w v null a pin st c)
  then show ?thesis using put_typed_inner_inv [OF inv, of null kind key "(a, v)" pin] by simp
next
  case (release_kept i w v st after c)
  then show ?thesis using watch_release_inv [OF inv, of w] by simp
next
  case (release_lost i w v st after c)
  then show ?thesis using watch_release_inv [OF inv, of w] by simp
qed (use inv in \<open>simp_all add: watch_drop_inv store_rollback_inv inv_bump_def inv_remove_def bump_watches_inv
      cache_inv_set_bucket bucket_remove_inv cache_inv_bucket cache_inv_later\<close>)

section \<open>Stale entries are always covered\<close>

definition lost :: "cache_kind \<Rightarrow> string \<Rightarrow> (nat, nat) cache \<Rightarrow> index_watch \<Rightarrow> bool" where
  "lost kind key c w \<longleftrightarrow> (case key_watch kind key c of Some kw \<Rightarrow> iw_since w < w_counter kw | None \<Rightarrow> False)"

definition own_stamp :: "cache_kind \<Rightarrow> string \<Rightarrow> (nat, nat) cache \<Rightarrow> nat \<Rightarrow> nat option \<Rightarrow> bool" where
  "own_stamp kind key c v st \<longleftrightarrow> (\<forall>n. st = Some n \<longrightarrow> n \<le> b_next_stamp (get_bucket c kind)
     \<and> (\<forall>e. b_lookup (get_bucket c kind) key = Some e \<longrightarrow> e_stamp e = n \<longrightarrow> version_of e = v))"

text \<open>A fetcher whose snapshot is out of date has lost its watch, or a writer is about to bump it.\<close>

definition seen :: "cache_kind \<Rightarrow> string \<Rightarrow> nat \<Rightarrow> nat \<Rightarrow> (nat, nat) cache \<Rightarrow> index_watch \<Rightarrow> nat \<Rightarrow> bool" where
  "seen kind key ver pb c w v \<longleftrightarrow> v \<le> ver \<and> (iw_holds_ref w \<longrightarrow> v < ver \<longrightarrow> 0 < pb \<or> lost kind key c w)"

fun phase_ok :: "cache_kind \<Rightarrow> string \<Rightarrow> nat \<Rightarrow> nat \<Rightarrow> (nat, nat) cache \<Rightarrow> phase \<Rightarrow> bool" where
  "phase_ok kind key ver pb c (Registered w) = True"
| "phase_ok kind key ver pb c (Fetched w v) = seen kind key ver pb c w v"
| "phase_ok kind key ver pb c (Checked w v) = (iw_holds_ref w \<and> seen kind key ver pb c w v)"
| "phase_ok kind key ver pb c (Stored w v st) =
     (iw_holds_ref w \<and> seen kind key ver pb c w v \<and> own_stamp kind key c v st)"
| "phase_ok kind key ver pb c (Undo w v st) = own_stamp kind key c v st"
| "phase_ok kind key ver pb c Finished = True"

text \<open>The only entry-changing facts the proof needs: the key's entry is an old one, or its stamp
  is new.\<close>

definition entry_sub :: "cache_kind \<Rightarrow> string \<Rightarrow> (nat, nat) cache \<Rightarrow> (nat, nat) cache \<Rightarrow> bool" where
  "entry_sub kind key c d \<longleftrightarrow> b_next_stamp (get_bucket c kind) \<le> b_next_stamp (get_bucket d kind)
     \<and> (\<forall>e'. b_lookup (get_bucket d kind) key = Some e' \<longrightarrow> b_next_stamp (get_bucket c kind) < e_stamp e'
          \<or> (\<exists>e. b_lookup (get_bucket c kind) key = Some e \<and> e_stamp e' = e_stamp e \<and> version_of e' = version_of e))"

definition entry_old :: "cache_kind \<Rightarrow> string \<Rightarrow> (nat, nat) cache \<Rightarrow> (nat, nat) cache \<Rightarrow> bool" where
  "entry_old kind key c d \<longleftrightarrow> b_next_stamp (get_bucket c kind) \<le> b_next_stamp (get_bucket d kind)
     \<and> (\<forall>e'. b_lookup (get_bucket d kind) key = Some e' \<longrightarrow>
          (\<exists>e. b_lookup (get_bucket c kind) key = Some e \<and> e_stamp e' = e_stamp e \<and> version_of e' = version_of e))"

lemma entry_old_sub: "entry_old kind key c d \<Longrightarrow> entry_sub kind key c d"
  by (simp add: entry_old_def entry_sub_def)

fun covers :: "cache_kind \<Rightarrow> string \<Rightarrow> (nat, nat) cache \<Rightarrow> nat \<Rightarrow> phase \<Rightarrow> bool" where
  "covers kind key c n (Stored w v st) \<longleftrightarrow> st = Some n \<and> lost kind key c w"
| "covers kind key c n (Undo w v st) \<longleftrightarrow> st = Some n \<and> iw_kind w = kind \<and> iw_key w = key"
| "covers kind key c n _ \<longleftrightarrow> False"

definition entry_ok :: "cache_kind \<Rightarrow> string \<Rightarrow> proto \<Rightarrow> bool" where
  "entry_ok kind key s \<longleftrightarrow> (\<forall>e. b_lookup (get_bucket (p_cache s) kind) key = Some e \<longrightarrow>
     version_of e \<le> p_version s
   \<and> (version_of e < p_version s \<longrightarrow> 0 < p_prebump s \<or> 0 < p_preremove s
        \<or> (\<exists>j < length (p_fetchers s). covers kind key (p_cache s) (e_stamp e) (p_fetchers s ! j))))"

definition proto_inv :: "cache_kind \<Rightarrow> string \<Rightarrow> proto \<Rightarrow> bool" where
  "proto_inv kind key s \<longleftrightarrow> cache_inv (p_now s) (p_cache s) \<and> watch_inv kind key (p_cache s) (p_fetchers s)
     \<and> (\<forall>p \<in> set (p_fetchers s). phase_ok kind key (p_version s) (p_prebump s) (p_cache s) p)
     \<and> entry_ok kind key s"

lemma own_stamp_sub: "own_stamp kind key c v st \<Longrightarrow> entry_sub kind key c d \<Longrightarrow> own_stamp kind key d v st"
  by (fastforce simp: own_stamp_def entry_sub_def simp del: map_of_eq_Some_iff)

lemma phase_ok_mono:
  assumes "phase_ok kind key ver pb c p" and "0 < pb \<Longrightarrow> 0 < pb'" and "entry_sub kind key c d"
    and "\<And>w. held_watch p = Some w \<Longrightarrow> lost kind key c w \<Longrightarrow> lost kind key d w"
  shows "phase_ok kind key ver pb' d p"
  using assms own_stamp_sub [OF _ assms(3)] by (cases p) (auto simp: seen_def)

lemma entry_old_buckets: "c_buckets d = c_buckets c \<Longrightarrow> entry_old kind key c d"
  by (simp add: entry_old_def)

lemma leaves_key_entry_old: "leaves_key kind key c d \<Longrightarrow> entry_old kind key c d"
  by (simp add: leaves_key_def entry_old_def)

lemma remove_frames [simp]: "b_next_stamp (snd (bucket_remove key b)) = b_next_stamp b"
  by (simp add: bucket_remove_def split: option.split)

lemma entry_old_remove: "length (c_buckets c) = 4 \<Longrightarrow> entry_old kind key c (inv_remove kind key c)"
  by (simp add: entry_old_def inv_remove_def get_set_bucket bucket_remove_lookup)

lemma rollback_lookup:
  assumes "length (c_buckets c) = 4" and "iw_kind w = kind" and "iw_key w = key"
  shows "b_lookup (get_bucket (store_rollback w st c) kind) key =
     (case b_lookup (get_bucket c kind) key of
        Some e \<Rightarrow> if st = Some (e_stamp e) then None else Some e | None \<Rightarrow> None)"
    and "b_next_stamp (get_bucket (store_rollback w st c) kind) = b_next_stamp (get_bucket c kind)"
  using assms by (auto simp: store_rollback_def get_set_bucket remove_if_stamp_def bucket_remove_lookup split: option.splits)

lemma entry_old_rollback:
  assumes "length (c_buckets c) = 4" and "iw_kind w = kind" and "iw_key w = key"
  shows "entry_old kind key c (store_rollback w st c)"
  by (auto simp: entry_old_def rollback_lookup [OF assms] simp del: map_of_eq_Some_iff split: option.splits if_splits)

lemma evict_frames [simp]:
  "b_next_stamp (evict_lru m b) = b_next_stamp b" "b_next_stamp (evict_expired ttl now b) = b_next_stamp b"
  by (simp_all add: evict_lru_def evict_expired_def prune_lru_def Let_def case_prod_unfold)

lemma bucket_write_stamp: "b_next_stamp (bucket_write k key j t pin now c) = b_next_stamp (get_bucket c k) + 1"
  by (simp add: bucket_write_def evict_if_needed_def Let_def bucket_insert_def split: prod.split)

text \<open>Both stores either decline or write the key once, under a fresh stamp.\<close>

definition stores :: "cache_kind \<Rightarrow> string \<Rightarrow> nat \<Rightarrow> (nat, nat) cache \<Rightarrow> nat option \<Rightarrow> (nat, nat) cache \<Rightarrow> bool" where
  "stores kind key v c st d \<longleftrightarrow> (st = None \<and> d = c)
     \<or> (st = Some (b_next_stamp (get_bucket c kind) + 1) \<and> c_watches d = c_watches c
        \<and> b_next_stamp (get_bucket d kind) = b_next_stamp (get_bucket c kind) + 1
        \<and> (\<forall>e. b_lookup (get_bucket d kind) key = Some e \<longrightarrow>
             e_stamp e = b_next_stamp (get_bucket c kind) + 1 \<and> version_of e = v))"

lemma bucket_write_own:
  assumes "cache_inv now c" and "b_lookup (bucket_write k key j t pin now c) key = Some e"
  shows "e_stamp e = b_next_stamp (get_bucket c k) + 1 \<and> e_value e = j \<and> e_typed e = t"
proof -
  have "bucket_inv now (snd (bucket_insert key j t pin now (get_bucket c k)))"
    by (rule bucket_insert_inv [OF cache_inv_bucket [OF assms(1)] order_refl])
  from evict_if_needed_lookup_sub [OF this assms(2) [unfolded bucket_write_def]]
  show ?thesis by (auto simp: bucket_insert_lookup simp del: map_of_eq_Some_iff)
qed

lemma store_bucket:
  assumes "cache_inv now c" and "d = set_bucket kind (bucket_write kind key j t pin now c) c"
    and "case t of Some (a, x) \<Rightarrow> x = v | None \<Rightarrow> j = v"
  shows "stores kind key v c (Some (b_next_stamp (get_bucket c kind) + 1)) d"
  using assms(3) bucket_write_own [OF assms(1), of kind key j t pin]
  by (auto simp: stores_def version_of_def assms(2) get_set_bucket [OF cache_inv_len [OF assms(1)]] bucket_write_stamp
      simp del: map_of_eq_Some_iff split: option.splits)

lemma put_inner_stores:
  assumes "cache_inv now c" and "put_inner Some kind key v pin now c = (st, d)"
  shows "stores kind key v c st d"
  using assms(2) store_bucket [OF assms(1) refl, where t = None and j = v and v = v and kind = kind and key = key and pin = pin]
  by (auto simp: put_inner_eq stores_def split: if_splits)

lemma put_typed_inner_stores:
  assumes "cache_inv now c" and "put_typed_inner null kind key (a, v) pin now c = (st, d)"
  shows "stores kind key v c st d"
  using assms(2) store_bucket [OF assms(1) refl, where t = "Some (a, v)" and j = null and v = v and kind = kind and key = key and pin = pin]
  by (auto simp: put_typed_inner_eq stores_def split: if_splits)

lemma entry_sub_stores: "stores kind key v c st d \<Longrightarrow> entry_sub kind key c d"
  by (auto simp: stores_def entry_sub_def simp del: map_of_eq_Some_iff)

section \<open>The invariant is inductive\<close>

lemma release_sections:
  assumes "watch_inv kind key c fs" and "i < length fs" and "phase_watch (fs ! i) = Some w"
    and "watch_release w c = (after, d)"
  shows "c_buckets d = c_buckets c"
    and "key_watch kind key c = Some kw \<Longrightarrow> key_watch kind key d = Some kw' \<Longrightarrow> w_counter kw' = w_counter kw"
    and "iw_holds_ref w \<Longrightarrow> key_watch kind key c = Some kw \<Longrightarrow> after = Some (w_counter kw)"
proof -
  have kk: "iw_kind w = kind" "iw_key w = key" using assms(1-3) by (auto simp: watch_inv_def)
  show "c_buckets d = c_buckets c"
    using assms(4) by (auto simp: watch_release_def release_watch_def Let_def split: if_splits option.splits)
  show "w_counter kw' = w_counter kw" if "key_watch kind key c = Some kw" "key_watch kind key d = Some kw'"
    using that assms(4) release_watch_cases(3) [of kind key c after d] kk
    by (auto simp: watch_release_def split: if_splits)
  show "after = Some (w_counter kw)" if "iw_holds_ref w" "key_watch kind key c = Some kw"
    using that assms(4) release_watch_cases(1) [of kind key c after d] kk by (simp add: watch_release_def)
qed

lemma drop_sections:
  assumes "watch_inv kind key c fs" and "i < length fs" and "phase_watch (fs ! i) = Some w"
  shows "c_buckets (watch_drop w c) = c_buckets c"
    and "key_watch kind key c = Some kw \<Longrightarrow> key_watch kind key (watch_drop w c) = Some kw' \<Longrightarrow> w_counter kw' = w_counter kw"
proof -
  have r: "watch_release w c = (fst (watch_release w c), snd (watch_release w c))" by simp
  show "c_buckets (watch_drop w c) = c_buckets c"
    unfolding watch_drop_release by (rule release_sections(1) [OF assms r])
  show "w_counter kw' = w_counter kw"
    if "key_watch kind key c = Some kw" "key_watch kind key (watch_drop w c) = Some kw'"
    using that unfolding watch_drop_release by (rule release_sections(2) [OF assms r])
qed

lemma stores_watch: "stores kind key v c st d \<Longrightarrow> key_watch kind key d = key_watch kind key c"
  by (auto simp: stores_def key_watch_def)

lemma register_counter:
  assumes "generation_for kind key c = (w, d)" and "key_watch kind key c = Some kw" and "key_watch kind key d = Some kw'"
  shows "w_counter kw' = w_counter kw"
  using assms(1) by (cases rule: generation_for_cases) (use assms in auto)

lemma register_buckets: "generation_for kind key c = (w, d) \<Longrightarrow> c_buckets d = c_buckets c"
  by (erule generation_for_cases) auto

lemma counter_mono:
  assumes "proto_step kind key s t" and "proto_inv kind key s"
    and "key_watch kind key (p_cache s) = Some kw" and "key_watch kind key (p_cache t) = Some kw'"
  shows "w_counter kw \<le> w_counter kw'"
proof -
  have inv: "cache_inv (p_now s) (p_cache s)" and win: "watch_inv kind key (p_cache s) (p_fetchers s)"
    using assms(2) by (auto simp: proto_inv_def)
  note rel = release_sections(2) [OF win _ _ _ assms(3)] and drp = drop_sections(2) [OF win _ _ assms(3)]
  from assms(1) show ?thesis
  proof cases
    case (register w c)
    then show ?thesis using register_counter [OF _ assms(3), of w c kw'] assms(4) by simp
  next
    case (abandon i w)
    then show ?thesis using drp [of i w kw'] assms(4) by simp
  next
    case (refuse i w v)
    then show ?thesis using drp [of i w kw'] assms(4) by simp
  next
    case (store i w v pin st c)
    then show ?thesis using stores_watch [OF put_inner_stores [OF inv store(4)]] assms(3,4) by simp
  next
    case (store_typed i w v null a pin st c)
    then show ?thesis using stores_watch [OF put_typed_inner_stores [OF inv store_typed(4)]] assms(3,4) by simp
  next
    case (release_kept i w v st after c)
    then show ?thesis using rel [of i w after c kw'] assms(4) by simp
  next
    case (release_lost i w v st after c)
    then show ?thesis using rel [of i w after c kw'] assms(4) by simp
  next
    case bump
    then show ?thesis using assms(3,4) by (auto simp: key_watch_bump)
  next
    case (other c)
    then show ?thesis using assms(3,4) by (simp add: leaves_key_def)
  qed (use assms(3,4) in \<open>simp_all add: inv_remove_def\<close>)
qed

lemma lost_step:
  assumes "proto_step kind key s t" and "proto_inv kind key s" and "p \<in> set (p_fetchers t)"
    and "held_watch p = Some w" and "lost kind key (p_cache s) w"
  shows "lost kind key (p_cache t) w"
proof -
  have "watch_inv kind key (p_cache t) (p_fetchers t)"
    using proto_step_watch_inv [OF assms(1)] assms(2) by (simp add: proto_inv_def)
  then obtain kw' where "key_watch kind key (p_cache t) = Some kw'"
    using held_key_watch [OF _ assms(3,4)] by blast
  with assms(5) counter_mono [OF assms(1,2)] show ?thesis
    by (fastforce simp: lost_def split: option.splits)
qed

lemma entry_change:
  assumes "proto_step kind key s t" and "proto_inv kind key s"
  shows "entry_old kind key (p_cache s) (p_cache t)
    \<or> (\<exists>i w v st. i < length (p_fetchers s) \<and> p_fetchers s ! i = Checked w v
         \<and> stores kind key v (p_cache s) st (p_cache t)
         \<and> t = s\<lparr>p_cache := p_cache t, p_fetchers := (p_fetchers s)[i := Stored w v st]\<rparr>)"
proof -
  have inv: "cache_inv (p_now s) (p_cache s)" and win: "watch_inv kind key (p_cache s) (p_fetchers s)"
    using assms(2) by (auto simp: proto_inv_def)
  note len = cache_inv_len [OF inv]
  from assms(1) show ?thesis
  proof cases
    case (register w c)
    then show ?thesis using register_buckets [OF register(2)] by (simp add: entry_old_buckets)
  next
    case (abandon i w)
    then show ?thesis using drop_sections(1) [OF win, of i w] by (simp add: entry_old_buckets)
  next
    case (refuse i w v)
    then show ?thesis using drop_sections(1) [OF win, of i w] by (simp add: entry_old_buckets)
  next
    case (store i w v pin st c)
    then show ?thesis using put_inner_stores [OF inv store(4)] by auto
  next
    case (store_typed i w v null a pin st c)
    then show ?thesis using put_typed_inner_stores [OF inv store_typed(4)] by auto
  next
    case (release_kept i w v st after c)
    have "c_buckets c = c_buckets (p_cache s)"
      by (rule release_sections(1) [OF win release_kept(2) _ release_kept(4)]) (simp add: release_kept)
    then show ?thesis using release_kept(1) by (simp add: entry_old_buckets)
  next
    case (release_lost i w v st after c)
    have "c_buckets c = c_buckets (p_cache s)"
      by (rule release_sections(1) [OF win release_lost(2) _ release_lost(4)]) (simp add: release_lost)
    then show ?thesis using release_lost(1) by (simp add: entry_old_buckets)
  next
    case (rollback i w v st)
    then show ?thesis using entry_old_rollback [OF len] watch_inv_key [OF win rollback(2)] by simp
  next
    case (other c)
    then show ?thesis by (simp add: leaves_key_entry_old)
  qed (simp_all add: entry_old_buckets entry_old_remove [OF len] inv_bump_def)
qed

lemma entry_sub_step:
  assumes "proto_step kind key s t" and "proto_inv kind key s"
  shows "entry_sub kind key (p_cache s) (p_cache t)"
  using entry_change [OF assms] by (auto intro: entry_old_sub entry_sub_stores)

lemma phase_ok_step:
  assumes st: "proto_step kind key s t" and inv: "proto_inv kind key s"
    and p: "p \<in> set (p_fetchers t)" "p \<in> set (p_fetchers s)"
  shows "phase_ok kind key (p_version t) (p_prebump t) (p_cache t) p"
proof -
  have ok: "phase_ok kind key (p_version s) (p_prebump s) (p_cache s) p"
    using inv p(2) by (simp add: proto_inv_def)
  note mono = phase_ok_mono [OF ok _ entry_sub_step [OF st inv] lost_step [OF st inv p(1)]]
  from st show ?thesis
  proof cases
    case mutate
    with ok show ?thesis by (cases p) (auto simp: seen_def own_stamp_def)
  next
    case bump
    have "lost kind key (p_cache t) w" if "held_watch p = Some w" for w
    proof -
      have "watch_inv kind key (p_cache s) (p_fetchers s)" using inv by (simp add: proto_inv_def)
      from held_key_watch [OF this p(2) that] obtain kw
        where "key_watch kind key (p_cache s) = Some kw" "iw_since w \<le> w_counter kw" by blast
      then show ?thesis using bump by (simp add: lost_def key_watch_bump)
    qed
    moreover have "own_stamp kind key (p_cache t) v st \<longleftrightarrow> own_stamp kind key (p_cache s) v st" for v st
      using bump by (simp add: own_stamp_def inv_bump_def)
    ultimately show ?thesis using ok bump by (cases p) (auto simp: seen_def)
  qed (use mono in simp_all)
qed

lemma new_phase_ok:
  assumes st: "proto_step kind key s t" and inv: "proto_inv kind key s"
    and p: "p \<in> set (p_fetchers t)" "p \<notin> set (p_fetchers s)"
  shows "phase_ok kind key (p_version t) (p_prebump t) (p_cache t) p"
proof -
  have cinv: "cache_inv (p_now s) (p_cache s)" and win: "watch_inv kind key (p_cache s) (p_fetchers s)"
    using inv by (auto simp: proto_inv_def)
  have ok: "phase_ok kind key (p_version s) (p_prebump s) (p_cache s) (p_fetchers s ! i)"
    if "i < length (p_fetchers s)" for i
    using inv that by (simp add: proto_inv_def)
  have seen: "seen kind key (p_version s) (p_prebump s) (p_cache t) w v"
    if "seen kind key (p_version s) (p_prebump s) (p_cache s) w v" "key_watch kind key (p_cache t) = key_watch kind key (p_cache s)" for w v
    using that by (simp add: seen_def lost_def)
  have own: "own_stamp kind key (p_cache t) v st" if "stores kind key v (p_cache s) st (p_cache t)" for v st
    using that by (auto simp: stores_def own_stamp_def simp del: map_of_eq_Some_iff)
  from st show ?thesis
  proof cases
    case (fetch i w)
    then show ?thesis using p by (auto simp: seen_def dest!: set_list_update)
  next
    case (check i w v)
    then have "iw_holds_ref w" by (simp add: store_check_def watch_current_def split: if_splits)
    then show ?thesis using check p ok [of i] by (auto dest!: set_list_update)
  next
    case (store i w v pin st c)
    note w = put_inner_stores [OF cinv store(4)]
    show ?thesis using store p ok [of i] seen [of w v] own [of v st] w stores_watch [OF w] by (auto dest!: set_list_update)
  next
    case (store_typed i w v null a pin st c)
    note w = put_typed_inner_stores [OF cinv store_typed(4)]
    show ?thesis using store_typed p ok [of i] seen [of w v] own [of v st] w stores_watch [OF w] by (auto dest!: set_list_update)
  next
    case (release_lost i w v st after c)
    have "c_buckets c = c_buckets (p_cache s)"
      by (rule release_sections(1) [OF win release_lost(2) _ release_lost(4)]) (simp add: release_lost)
    then show ?thesis using release_lost p ok [of i] by (auto simp: own_stamp_def dest!: set_list_update)
  qed (use p in \<open>auto dest!: set_list_update\<close>)
qed

text \<open>A covering fetcher keeps covering, until it rolls the entry back.\<close>

lemma covers_step:
  assumes st: "proto_step kind key s t" and inv: "proto_inv kind key s"
    and j: "j < length (p_fetchers s)" "covers kind key (p_cache s) n (p_fetchers s ! j)"
    and e: "b_lookup (get_bucket (p_cache t) kind) key = Some e" "e_stamp e = n"
  shows "j < length (p_fetchers t) \<and> covers kind key (p_cache t) n (p_fetchers t ! j)"
proof -
  have cinv: "cache_inv (p_now s) (p_cache s)" and win: "watch_inv kind key (p_cache s) (p_fetchers s)"
    using inv by (auto simp: proto_inv_def)
  have ok: "phase_ok kind key (p_version s) (p_prebump s) (p_cache s) (p_fetchers s ! j)"
    using inv j(1) by (simp add: proto_inv_def)
  have same: ?thesis if "j < length (p_fetchers t)" "p_fetchers t ! j = p_fetchers s ! j"
    using that j ok lost_step [OF st inv, of "p_fetchers s ! j"] nth_mem [OF that(1)]
    by (cases "p_fetchers s ! j") auto
  from st show ?thesis
  proof cases
    case (release_kept i w v st after c)
    have "after = Some (w_counter kw)" if "iw_holds_ref w" "key_watch kind key (p_cache s) = Some kw" for kw
      by (rule release_sections(3) [OF win release_kept(2) _ release_kept(4) that]) (simp add: release_kept)
    with release_kept j ok have "i \<noteq> j" by (auto simp: lost_def split: option.splits)
    with release_kept j show ?thesis by (intro same) auto
  next
    case (release_lost i w v st after c)
    have "iw_kind w = kind \<and> iw_key w = key"
      using watch_inv_key [OF win release_lost(2)] release_lost by simp
    with release_lost j same show ?thesis by (cases "i = j") auto
  next
    case (rollback i w v st)
    have kk: "iw_kind w = kind" "iw_key w = key" using watch_inv_key [OF win rollback(2)] rollback by simp_all
    have "i \<noteq> j"
      using rollback j e rollback_lookup(1) [OF cache_inv_len [OF cinv] kk, of st]
      by (auto simp del: map_of_eq_Some_iff split: option.splits if_splits)
    with rollback j show ?thesis by (intro same) auto
  qed (use j same in \<open>auto simp: nth_append nth_list_update split: if_splits\<close>)
qed

lemma pending_step:
  assumes "proto_step kind key s t" and "0 < p_prebump s \<or> 0 < p_preremove s" and "length (c_buckets (p_cache s)) = 4"
  shows "0 < p_prebump t \<or> 0 < p_preremove t \<or> b_lookup (get_bucket (p_cache t) kind) key = None"
  using assms(1) by cases (use assms(2,3) in \<open>auto simp: inv_remove_def get_set_bucket bucket_remove_lookup\<close>)

lemma version_step:
  "proto_step kind key s t \<Longrightarrow> p_version t = p_version s \<or> p_version s < p_version t \<and> 0 < p_prebump t"
  by (cases rule: proto_step.cases) auto

lemma entry_ok_step:
  assumes st: "proto_step kind key s t" and inv: "proto_inv kind key s"
  shows "entry_ok kind key t"
  unfolding entry_ok_def
proof (intro allI impI)
  fix e assume e: "b_lookup (get_bucket (p_cache t) kind) key = Some e"
  have len: "length (c_buckets (p_cache s)) = 4" using inv cache_inv_len by (auto simp: proto_inv_def)
  let ?goal = "version_of e \<le> p_version t
    \<and> (version_of e < p_version t \<longrightarrow> 0 < p_prebump t \<or> 0 < p_preremove t
       \<or> (\<exists>j < length (p_fetchers t). covers kind key (p_cache t) (e_stamp e) (p_fetchers t ! j)))"
  have old: ?goal
    if "b_lookup (get_bucket (p_cache s) kind) key = Some e0" "e_stamp e = e_stamp e0" "version_of e = version_of e0" for e0
  proof -
    have "version_of e \<le> p_version s"
      and cov: "version_of e < p_version s \<Longrightarrow> 0 < p_prebump s \<or> 0 < p_preremove s
        \<or> (\<exists>j < length (p_fetchers s). covers kind key (p_cache s) (e_stamp e) (p_fetchers s ! j))"
      using inv that unfolding proto_inv_def entry_ok_def by metis+
    then show ?thesis
      using version_step [OF st] pending_step [OF st _ len] covers_step [OF st inv _ _ e refl] e by fastforce
  qed
  from entry_change [OF st inv] show ?goal
  proof (elim disjE exE conjE)
    assume "entry_old kind key (p_cache s) (p_cache t)"
    with e old show ?goal unfolding entry_old_def by blast
  next
    fix i w v stamp
    assume i: "i < length (p_fetchers s)" "p_fetchers s ! i = Checked w v"
      and w: "stores kind key v (p_cache s) stamp (p_cache t)"
      and t: "t = s\<lparr>p_cache := p_cache t, p_fetchers := (p_fetchers s)[i := Stored w v stamp]\<rparr>"
    have fs: "p_fetchers t = (p_fetchers s)[i := Stored w v stamp]" and same: "p_version t = p_version s"
        "p_prebump t = p_prebump s" by (subst t, simp)+
    have "phase_ok kind key (p_version s) (p_prebump s) (p_cache s) (Checked w v)"
      using inv i nth_mem [OF i(1)] by (auto simp: proto_inv_def)
    then have seen: "seen kind key (p_version t) (p_prebump t) (p_cache t) w v" "iw_holds_ref w"
      using stores_watch [OF w] by (simp_all add: same seen_def lost_def)
    show ?goal
    proof (cases stamp)
      case None
      then show ?goal using w e old [of e] by (simp add: stores_def)
    next
      case (Some n)
      then have "e_stamp e = n" "version_of e = v" using w e by (auto simp: stores_def simp del: map_of_eq_Some_iff)
      moreover have "covers kind key (p_cache t) n (p_fetchers t ! i)" if "lost kind key (p_cache t) w"
        using that i(1) Some by (simp add: fs)
      ultimately show ?goal using seen i(1) by (auto simp: seen_def fs)
    qed
  qed
qed

lemma proto_step_inv:
  assumes "proto_step kind key s t" and "proto_inv kind key s" shows "proto_inv kind key t"
  using assms proto_step_cache_inv [OF assms(1)] proto_step_watch_inv [OF assms(1)] phase_ok_step [OF assms]
    new_phase_ok [OF assms] entry_ok_step [OF assms]
  unfolding proto_inv_def by blast

lemma proto_reach_inv: "proto_reach kind key s \<Longrightarrow> proto_inv kind key s"
proof (induction rule: proto_reach.induct)
  case (start now c)
  then show ?case by (simp add: proto_inv_def proto_init_def watch_inv_def entry_ok_def holders_def)
next
  case (step s t)
  then show ?case by (blast intro: proto_step_inv)
qed

section \<open>The sequential functions are runs of the protocol\<close>

lemma proto_reach_run:
  assumes "(proto_step kind key)\<^sup>*\<^sup>* s t" and "proto_reach kind key s" shows "proto_reach kind key t"
  using assms by (induction rule: rtranclp_induct) (auto intro: proto_reach.step)

lemma rtranclp_three: "R a b \<Longrightarrow> R b c \<Longrightarrow> R c d \<Longrightarrow> R\<^sup>*\<^sup>* a d" for R
  by (blast intro: rtranclp.rtrancl_into_rtrancl)

lemma guarded_store_run:
  assumes i: "i < length (p_fetchers s)" "p_fetchers s ! i = Fetched w v"
    and store: "\<And>a. p_fetchers a ! i = Checked w v \<Longrightarrow> i < length (p_fetchers a) \<Longrightarrow> p_cache a = p_cache s \<Longrightarrow>
       p_now a = p_now s \<Longrightarrow>
       proto_step kind key a (a\<lparr>p_cache := snd (f (p_cache s)), p_fetchers := (p_fetchers a)[i := Stored w v (fst (f (p_cache s)))]\<rparr>)"
  shows "(proto_step kind key)\<^sup>*\<^sup>* s
     (s\<lparr>p_cache := snd (store_if_current w f (p_cache s)), p_fetchers := (p_fetchers s)[i := Finished]\<rparr>)"
proof (cases "store_check w (p_cache s)")
  case False
  have "proto_step kind key s (s\<lparr>p_cache := watch_drop w (p_cache s), p_fetchers := (p_fetchers s)[i := Finished]\<rparr>)"
    using i False by (rule proto_step.refuse)
  then show ?thesis using False by (simp add: store_if_current_def)
next
  case True
  let ?st = "fst (f (p_cache s))" and ?c1 = "snd (f (p_cache s))"
  let ?after = "fst (watch_release w ?c1)" and ?c2 = "snd (watch_release w ?c1)"
  let ?at = "\<lambda>c p. s\<lparr>p_cache := c, p_fetchers := (p_fetchers s)[i := p]\<rparr>"
  have 1: "proto_step kind key s (?at (p_cache s) (Checked w v))"
    using proto_step.check [OF i True] by simp
  have 2: "proto_step kind key (?at (p_cache s) (Checked w v)) (?at ?c1 (Stored w v ?st))"
    using store [of "?at (p_cache s) (Checked w v)"] i(1) by simp
  show ?thesis
  proof (cases "?after = Some (iw_since w)")
    case kept: True
    have 3: "proto_step kind key (?at ?c1 (Stored w v ?st)) (?at ?c2 Finished)"
      using proto_step.release_kept [of i "?at ?c1 (Stored w v ?st)" w v ?st ?after ?c2 kind key] kept i(1) by (simp add: prod_eq_iff)
    have "(proto_step kind key)\<^sup>*\<^sup>* s (?at ?c2 Finished)"
      using 1 2 3 by (rule rtranclp_three)
    then show ?thesis using True kept by (simp add: store_if_current_def case_prod_unfold Let_def)
  next
    case lost: False
    have 3: "proto_step kind key (?at ?c1 (Stored w v ?st)) (?at ?c2 (Undo w v ?st))"
      using proto_step.release_lost [of i "?at ?c1 (Stored w v ?st)" w v ?st ?after ?c2 kind key] lost i(1) by (simp add: prod_eq_iff)
    have 4: "proto_step kind key (?at ?c2 (Undo w v ?st)) (?at (store_rollback w ?st ?c2) Finished)"
      using proto_step.rollback [of i "?at ?c2 (Undo w v ?st)" w v ?st kind key] i(1) by simp
    have "(proto_step kind key)\<^sup>*\<^sup>* s (?at (store_rollback w ?st ?c2) Finished)"
      using rtranclp_three [where R = "proto_step kind key", OF 1 2 3] 4 by (rule rtranclp.rtrancl_into_rtrancl)
    then show ?thesis using True lost by (simp add: store_if_current_def case_prod_unfold Let_def)
  qed
qed

lemma put_if_current_run:
  assumes i: "i < length (p_fetchers s)" "p_fetchers s ! i = Fetched w v" and k: "iw_kind w = kind" "iw_key w = key"
  shows "(proto_step kind key)\<^sup>*\<^sup>* s
     (s\<lparr>p_cache := snd (put_if_current Some w v (p_now s) (p_cache s)), p_fetchers := (p_fetchers s)[i := Finished]\<rparr>)"
  unfolding put_if_current_def k
  by (rule guarded_store_run [OF i]) (rule proto_step.store, auto)

lemma put_typed_index_if_current_run:
  assumes i: "i < length (p_fetchers s)" "p_fetchers s ! i = Fetched w v" and k: "iw_kind w = kind" "iw_key w = key"
  shows "(proto_step kind key)\<^sup>*\<^sup>* s
     (s\<lparr>p_cache := snd (put_typed_index_if_current null w (a, v) (p_now s) (p_cache s)),
        p_fetchers := (p_fetchers s)[i := Finished]\<rparr>)"
  unfolding put_typed_index_if_current_def k
  by (rule guarded_store_run [OF i]) (rule proto_step.store_typed, auto)

text \<open>Reads of any key and writes of other keys by other threads leave the key to the protocol.\<close>

lemma bucket_touch_stamp: "b_next_stamp (bucket_touch key b) = b_next_stamp b"
  by (simp add: bucket_touch_def Let_def split: option.split)

lemma get_leaves_key:
  assumes "cache_inv now c" shows "leaves_key kind key c (snd (cache_get dec kind' key' now c))"
  using cache_inv_len [OF assms]
  by (auto simp: leaves_key_def cache_get_def cache_lookup_def Let_def get_set_bucket bucket_remove_lookup
      bucket_touch_lookup key_watch_def version_of_def bucket_touch_stamp split: option.splits if_splits simp del: map_of_eq_Some_iff)

lemma put_leaves_key:
  assumes "cache_inv now c" and "(kind', key') \<noteq> (kind, key)"
  shows "leaves_key kind key c (cache_put enc kind' key' v now c)"
  using assms(2) bk.write_find_other [OF cache_inv_bucket [OF assms(1)], where k = key and key = key']
  by (auto simp: leaves_key_def cache_put_def put_inner_eq get_set_bucket [OF cache_inv_len [OF assms(1)]]
      bucket_write_stamp [unfolded bucket_write_def] bucket_write_def key_watch_def simp del: map_of_eq_Some_iff
      split: option.splits)

section \<open>Properties\<close>

fun store_in_flight :: "phase \<Rightarrow> bool" where
  "store_in_flight (Stored w v st) = True"
| "store_in_flight (Undo w v st) = True"
| "store_in_flight _ = False"

text \<open>C1: a guarded store never undoes an invalidation.  In every interleaving of fetchers,
  writers and other threads, once no invalidation and no store is in flight, the entry cached
  under the key, if any, was read from the current version of the directory, even while further
  fetchers hold older snapshots; and no snapshot is ever newer than the directory.\<close>

theorem no_stale_entry_survives:
  assumes "proto_reach kind key s" and "b_lookup (get_bucket (p_cache s) kind) key = Some e"
  shows "version_of e \<le> p_version s
    \<and> (p_prebump s = 0 \<longrightarrow> p_preremove s = 0 \<longrightarrow> (\<forall>p \<in> set (p_fetchers s). \<not> store_in_flight p) \<longrightarrow>
         version_of e = p_version s)"
proof -
  have "entry_ok kind key s" using proto_reach_inv [OF assms(1)] by (simp add: proto_inv_def)
  with assms(2) have "version_of e \<le> p_version s"
    and cov: "version_of e < p_version s \<Longrightarrow> 0 < p_prebump s \<or> 0 < p_preremove s
        \<or> (\<exists>p \<in> set (p_fetchers s). covers kind key (p_cache s) (e_stamp e) p)"
    unfolding entry_ok_def by (auto simp del: map_of_eq_Some_iff)
  moreover have "covers kind key (p_cache s) n p \<Longrightarrow> store_in_flight p" for n p by (cases p) simp_all
  ultimately show ?thesis by fastforce
qed

definition demo_watch :: index_watch where
  "demo_watch = fst (generation_for Lists ''t|sp'' (cache_new :: (nat, nat) cache))"

definition demo_state :: "phase \<Rightarrow> proto" where
  "demo_state p = \<lparr>p_cache = snd (generation_for Lists ''t|sp'' cache_new), p_now = 5, p_version = 0,
     p_fetchers = [p], p_prebump = 0, p_preremove = 0\<rparr>"

definition demo_done :: proto where
  "demo_done = (demo_state (Fetched demo_watch 0))\<lparr>
     p_cache := snd (put_if_current Some demo_watch 0 5 (p_cache (demo_state (Fetched demo_watch 0)))),
     p_fetchers := [Finished]\<rparr>"

lemma demo_registered: "proto_reach Lists ''t|sp'' (demo_state (Fetched demo_watch 0))"
proof -
  have "key_watch Lists ''t|sp'' cache_new = None" by (simp add: key_watch_def cache_new_def)
  then have "proto_reach Lists ''t|sp'' (proto_init 5 cache_new)"
    by (intro proto_reach.start cache_new_inv) (simp_all only: cache_new_bucket, simp add: bucket_new_def)
  then have "proto_reach Lists ''t|sp'' (demo_state (Registered demo_watch))"
    by (rule proto_reach.step) (use proto_step.register [of Lists "''t|sp''" "proto_init 5 cache_new"] in
      \<open>simp add: demo_state_def demo_watch_def proto_init_def prod_eq_iff\<close>)
  then show ?thesis
    by (rule proto_reach.step) (use proto_step.fetch [of 0 "demo_state (Registered demo_watch)" demo_watch] in
      \<open>simp add: demo_state_def\<close>)
qed

lemma demo_watch_eq: "demo_watch = \<lparr>iw_kind = Lists, iw_key = ''t|sp'', iw_since = 0, iw_holds_ref = True\<rparr>"
  by (simp add: demo_watch_def generation_for_def cache_new_def MAX_WATCHES_def)

lemma demo_done_reach: "proto_reach Lists ''t|sp'' demo_done"
  using proto_reach_run [OF put_if_current_run demo_registered, of 0 demo_watch 0]
  by (simp add: demo_done_def demo_watch_eq) (simp add: demo_state_def)

lemma demo_done_entry: "b_lookup (get_bucket (p_cache demo_done) Lists) ''t|sp''
   = Some \<lparr>e_value = 0, e_typed = None, e_inserted = 5, e_last_access = 1, e_pinned = False, e_stamp = 1\<rparr>"
  by (simp add: demo_done_def demo_state_def demo_watch_eq put_if_current_def store_if_current_def store_check_def
      watch_current_def peek_watch_def generation_for_def watch_release_def release_watch_def MAX_WATCHES_def cache_eval)

theorem no_stale_entry_survives_witness:
  "b_lookup (get_bucket (p_cache demo_done) Lists) ''t|sp''
     = Some \<lparr>e_value = 0, e_typed = None, e_inserted = 5, e_last_access = 1, e_pinned = False, e_stamp = 1\<rparr>
   \<and> version_of \<lparr>e_value = 0, e_typed = None, e_inserted = 5, e_last_access = 1, e_pinned = False, e_stamp = 1\<rparr> = p_version demo_done"
proof -
  have "p_prebump demo_done = 0" "p_preremove demo_done = 0" "\<forall>p \<in> set (p_fetchers demo_done). \<not> store_in_flight p"
    by (simp_all add: demo_done_def demo_state_def)
  with no_stale_entry_survives [OF demo_done_reach demo_done_entry] demo_done_entry show ?thesis by blast
qed

text \<open>the watch table never leaks: the key's watch carries exactly one reference per fetcher
  that still owes a release, and it is gone from the table once none does.\<close>

theorem watch_refs_count_holders:
  assumes "proto_reach kind key s"
  shows "(case key_watch kind key (p_cache s) of Some kw \<Rightarrow> w_refs kw | None \<Rightarrow> 0) = holders (p_fetchers s)
    \<and> (holders (p_fetchers s) = 0 \<longleftrightarrow> key_watch kind key (p_cache s) = None)"
  using proto_reach_inv [OF assms] by (auto simp: proto_inv_def watch_inv_def split: option.splits)

theorem watch_refs_count_holders_witness: "key_watch Lists ''t|sp'' (p_cache demo_done) = None"
  using watch_refs_count_holders [OF demo_done_reach] by (simp add: demo_done_def demo_state_def holders_def)

text \<open>C29: a rollback undoes the fetcher's own write only: whatever entry the compare-and-remove
  takes out is the snapshot that this fetcher stored.\<close>

theorem rollback_removes_only_own_write:
  assumes "proto_reach kind key s" and "Undo w v st \<in> set (p_fetchers s)"
    and "b_lookup (get_bucket (p_cache s) kind) key = Some e"
    and "b_lookup (get_bucket (store_rollback w st (p_cache s)) kind) key = None"
  shows "version_of e = v \<and> st = Some (e_stamp e)"
proof -
  note inv = proto_reach_inv [OF assms(1)]
  have len: "length (c_buckets (p_cache s)) = 4" using inv cache_inv_len by (auto simp: proto_inv_def)
  have "iw_kind w = kind" "iw_key w = key" using inv assms(2) by (auto simp: proto_inv_def watch_inv_def)
  with assms(3,4) have "st = Some (e_stamp e)"
    by (simp add: rollback_lookup(1) [OF len] del: map_of_eq_Some_iff split: if_splits)
  moreover have "own_stamp kind key (p_cache s) v st" using inv assms(2) by (auto simp: proto_inv_def)
  ultimately show ?thesis using assms(3) by (simp add: own_stamp_def del: map_of_eq_Some_iff)
qed

definition demo_stored :: proto where
  "demo_stored = (demo_state (Stored demo_watch 0 (Some 1)))\<lparr>
     p_cache := snd (put_inner Some Lists ''t|sp'' 0 False 5 (p_cache (demo_state Finished)))\<rparr>"

definition demo_undo :: proto where
  "demo_undo = demo_stored\<lparr>p_version := 1, p_preremove := 1, p_fetchers := [Undo demo_watch 0 (Some 1)],
     p_cache := snd (watch_release demo_watch (inv_bump Lists ''t|sp'' (p_cache demo_stored)))\<rparr>"

lemmas demo_eval = demo_state_def demo_watch_eq generation_for_def MAX_WATCHES_def watch_release_def release_watch_def
  inv_bump_def bump_watches_def store_check_def watch_current_def peek_watch_def cache_eval

lemma demo_stored_reach: "proto_reach Lists ''t|sp'' demo_stored"
proof -
  have "proto_reach Lists ''t|sp'' (demo_state (Checked demo_watch 0))"
    by (rule proto_reach.step [OF demo_registered])
      (use proto_step.check [of 0 "demo_state (Fetched demo_watch 0)" demo_watch 0 Lists "''t|sp''"] in
        \<open>simp add: demo_eval\<close>)
  then show ?thesis
  proof (rule proto_reach.step)
    have "put_inner Some Lists ''t|sp'' 0 False 5 (p_cache (demo_state Finished)) = (Some 1, p_cache demo_stored)"
      by (simp add: demo_stored_def prod_eq_iff) (simp add: demo_eval)
    then show "proto_step Lists ''t|sp'' (demo_state (Checked demo_watch 0)) demo_stored"
      using proto_step.store [of 0 "demo_state (Checked demo_watch 0)" demo_watch 0 Lists "''t|sp''" False "Some 1" "p_cache demo_stored"]
      by (simp add: demo_state_def) (simp add: demo_stored_def demo_state_def)
  qed
qed

lemma demo_undo_reach: "proto_reach Lists ''t|sp'' demo_undo"
proof -
  let ?m = "demo_stored\<lparr>p_version := 1, p_prebump := 1\<rparr>"
  let ?b = "demo_stored\<lparr>p_cache := inv_bump Lists ''t|sp'' (p_cache demo_stored), p_version := 1, p_preremove := 1\<rparr>"
  have "proto_reach Lists ''t|sp'' ?m"
    by (rule proto_reach.step [OF demo_stored_reach])
      (use proto_step.mutate [of Lists "''t|sp''" demo_stored] in \<open>simp add: demo_stored_def demo_state_def\<close>)
  then have "proto_reach Lists ''t|sp'' ?b"
    by (rule proto_reach.step) (use proto_step.bump [of ?m Lists "''t|sp''"] in \<open>simp add: demo_stored_def demo_state_def\<close>)
  then show ?thesis
  proof (rule proto_reach.step)
    have "fst (watch_release demo_watch (p_cache ?b)) = Some 1"
      by (simp add: demo_stored_def demo_eval)
    then show "proto_step Lists ''t|sp'' ?b demo_undo"
      using proto_step.release_lost [of 0 ?b demo_watch 0 "Some 1" "Some 1" "p_cache demo_undo" Lists "''t|sp''"]
      by (simp add: demo_undo_def prod_eq_iff) (simp add: demo_stored_def demo_state_def demo_watch_eq)
  qed
qed

lemma demo_undo_entry: "b_lookup (get_bucket (p_cache demo_undo) Lists) ''t|sp''
   = Some \<lparr>e_value = 0, e_typed = None, e_inserted = 5, e_last_access = 1, e_pinned = False, e_stamp = 1\<rparr>"
  by (simp add: demo_undo_def demo_stored_def demo_eval)

theorem rollback_removes_only_own_write_witness:
  "version_of \<lparr>e_value = 0, e_typed = None, e_inserted = 5, e_last_access = 1, e_pinned = False, e_stamp = 1\<rparr> = 0
   \<and> b_lookup (get_bucket (store_rollback demo_watch (Some 1) (p_cache demo_undo)) Lists) ''t|sp'' = None"
proof -
  have len: "length (c_buckets (p_cache demo_undo)) = 4" by (simp add: demo_undo_def demo_stored_def demo_eval)
  have gone: "b_lookup (get_bucket (store_rollback demo_watch (Some 1) (p_cache demo_undo)) Lists) ''t|sp'' = None"
    by (subst rollback_lookup(1) [OF len]) (simp_all only: demo_undo_entry demo_watch_eq, simp_all)
  have "Undo demo_watch 0 (Some 1) \<in> set (p_fetchers demo_undo)" by (simp add: demo_undo_def)
  from rollback_removes_only_own_write [OF demo_undo_reach this demo_undo_entry gone] gone show ?thesis by blast
qed

text \<open>C30: the guarded stores are runs of the protocol: from a state where a fetcher holds a
  snapshot, the sequential \<open>put_if_current\<close> and \<open>put_typed_index_if_current\<close> on the shared cache
  are reached by the fetcher's own critical sections, on every path (refusal, success, rollback).\<close>

theorem guarded_stores_refine_protocol:
  assumes "i < length (p_fetchers s)" and "p_fetchers s ! i = Fetched w v" and "iw_kind w = kind" and "iw_key w = key"
  shows "(proto_step kind key)\<^sup>*\<^sup>* s
      (s\<lparr>p_cache := snd (put_if_current Some w v (p_now s) (p_cache s)), p_fetchers := (p_fetchers s)[i := Finished]\<rparr>)
   \<and> (proto_step kind key)\<^sup>*\<^sup>* s
      (s\<lparr>p_cache := snd (put_typed_index_if_current null w (a, v) (p_now s) (p_cache s)),
         p_fetchers := (p_fetchers s)[i := Finished]\<rparr>)"
  using put_if_current_run [OF assms] put_typed_index_if_current_run [OF assms] by blast

theorem guarded_stores_refine_protocol_witness:
  "(proto_step Lists ''t|sp'')\<^sup>*\<^sup>* (demo_state (Fetched demo_watch 0)) demo_done"
  using guarded_stores_refine_protocol [of 0 "demo_state (Fetched demo_watch 0)" demo_watch 0 Lists "''t|sp''"]
  by (simp add: demo_done_def demo_watch_eq) (simp add: demo_state_def)

end
