(* ===== verification/Scoping.thy ===== *)
theory Scoping
  imports Toolkit_Prelude
begin

text \<open>
  The permission-scoping predicates of \<^verbatim>\<open>crates/azapptoolkit-core/src/scoping.rs\<close>, shared by the
  backend and the frontend: which Exchange role confines a mailbox permission, which permissions
  reach mailboxes or SharePoint org-wide, the Selected scope levels, and the dispatch
  \<open>scope_kind_for\<close>.  A permission is a pair of the resource's app id and its name; an unresolved
  resource is \<open>None\<close>.  A \<open>match\<close> on string literals is a lookup in the table of its arms.

  Every gate that lets the toolkit offer or confirm a scope is an instance of the locale
  \<open>scope_gate\<close>: closed for an unresolved resource and for a resource whose grants the toolkit
  cannot confine.
\<close>

section \<open>Resources\<close>

definition MICROSOFT_GRAPH_APP_ID :: string where
  "MICROSOFT_GRAPH_APP_ID = ''00000003-0000-0000-c000-000000000000''"

definition OFFICE365_EXCHANGE_ONLINE_APP_ID :: string where
  "OFFICE365_EXCHANGE_ONLINE_APP_ID = ''00000002-0000-0ff1-ce00-000000000000''"

definition OFFICE365_SHAREPOINT_ONLINE_APP_ID :: string where
  "OFFICE365_SHAREPOINT_ONLINE_APP_ID = ''00000003-0000-0ff1-ce00-000000000000''"

definition EWS_FULL_ACCESS_AS_APP :: string where
  "EWS_FULL_ACCESS_AS_APP = ''full_access_as_app''"

definition EWS_ACCESS_AS_APP_ROLE :: string where
  "EWS_ACCESS_AS_APP_ROLE = ''Application EWS.AccessAsApp''"

definition resource_label :: "string \<Rightarrow> string" where
  "resource_label resource_app_id =
     (if resource_app_id = MICROSOFT_GRAPH_APP_ID then ''Microsoft Graph''
      else if resource_app_id = OFFICE365_EXCHANGE_ONLINE_APP_ID then ''Office 365 Exchange Online''
      else if resource_app_id = OFFICE365_SHAREPOINT_ONLINE_APP_ID then ''Office 365 SharePoint Online''
      else resource_app_id)"

section \<open>Exchange\<close>

definition graph_mail_roles :: "(string \<times> string) list" where
  "graph_mail_roles =
    [(''Mail.Read'', ''Application Mail.Read''),
     (''Mail.ReadBasic'', ''Application Mail.ReadBasic''),
     (''Mail.ReadBasic.All'', ''Application Mail.ReadBasic''),
     (''Mail.ReadWrite'', ''Application Mail.ReadWrite''),
     (''Mail.Send'', ''Application Mail.Send''),
     (''MailboxSettings.Read'', ''Application MailboxSettings.Read''),
     (''MailboxSettings.ReadWrite'', ''Application MailboxSettings.ReadWrite''),
     (''Calendars.Read'', ''Application Calendars.Read''),
     (''Calendars.ReadWrite'', ''Application Calendars.ReadWrite''),
     (''Contacts.Read'', ''Application Contacts.Read''),
     (''Contacts.ReadWrite'', ''Application Contacts.ReadWrite''),
     (''MailboxFolder.Read.All'', ''Application MailboxFolder.Read''),
     (''MailboxFolder.ReadWrite.All'', ''Application MailboxFolder.ReadWrite''),
     (''MailboxItem.Read.All'', ''Application MailboxItem.Read''),
     (''MailboxItem.ReadWrite.All'', ''Application MailboxItem.ReadWrite''),
     (''MailboxItem.Export.All'', ''Application MailboxItem.Export''),
     (''MailboxItem.ImportExport.All'', ''Application MailboxItem.ImportExport''),
     (''MailboxConfigItem.Read'', ''Application MailboxConfigItem.Read''),
     (''MailboxConfigItem.ReadWrite'', ''Application MailboxConfigItem.ReadWrite''),
     (''MailTips.ReadBasic.All'', ''Application MailTips.ReadBasic.All''),
     (''Mail-Advanced.ReadWrite.All'', ''Application Mail-Advanced.ReadWrite.All'')]"

definition graph_mail_role :: "string \<Rightarrow> string option" where
  "graph_mail_role v = map_of graph_mail_roles v"

definition AAP_CONFINABLE_GRAPH_PERMISSIONS :: "string list" where
  "AAP_CONFINABLE_GRAPH_PERMISSIONS =
    [''Mail.Read'', ''Mail.ReadBasic'', ''Mail.ReadBasic.All'', ''Mail.ReadWrite'', ''Mail.Send'',
     ''MailboxSettings.Read'', ''MailboxSettings.ReadWrite'', ''Calendars.Read'',
     ''Calendars.ReadWrite'', ''Contacts.Read'', ''Contacts.ReadWrite'']"

definition exchange_role_for_resource_permission :: "string \<Rightarrow> string \<Rightarrow> string option" where
  "exchange_role_for_resource_permission resource_app_id v =
     (if resource_app_id = MICROSOFT_GRAPH_APP_ID then graph_mail_role v
      else if resource_app_id = OFFICE365_EXCHANGE_ONLINE_APP_ID
      then (if v = EWS_FULL_ACCESS_AS_APP then Some EWS_ACCESS_AS_APP_ROLE else None)
      else None)"

definition is_aap_confinable_permission :: "string \<Rightarrow> string \<Rightarrow> bool" where
  "is_aap_confinable_permission resource_app_id v \<longleftrightarrow>
     (let aap_named =
        (if resource_app_id = MICROSOFT_GRAPH_APP_ID then v \<in> set AAP_CONFINABLE_GRAPH_PERMISSIONS
         else if resource_app_id = OFFICE365_EXCHANGE_ONLINE_APP_ID then v = EWS_FULL_ACCESS_AS_APP
         else False)
      in aap_named \<and> exchange_role_for_resource_permission resource_app_id v \<noteq> None)"

definition is_scopable_exchange_resource_permission :: "string option \<Rightarrow> string \<Rightarrow> bool" where
  "is_scopable_exchange_resource_permission resource_app_id v \<longleftrightarrow>
     (case resource_app_id of
        Some app \<Rightarrow> exchange_role_for_resource_permission app v \<noteq> None
      | None \<Rightarrow> False)"

definition is_unscopable_legacy_exchange_permission :: "string \<Rightarrow> string \<Rightarrow> bool" where
  "is_unscopable_legacy_exchange_permission resource_app_id v \<longleftrightarrow>
     resource_app_id = OFFICE365_EXCHANGE_ONLINE_APP_ID \<and> graph_mail_role v \<noteq> None"

definition is_blanket_mailbox_grant :: "string \<Rightarrow> bool" where
  "is_blanket_mailbox_grant v \<longleftrightarrow> v = EWS_FULL_ACCESS_AS_APP"

definition mailbox_named :: "string \<Rightarrow> bool" where
  "mailbox_named v \<longleftrightarrow>
     list_ex (starts_with v) [''Mail.'', ''Mail-'', ''Mailbox'', ''MailTips.'', ''Calendars.'', ''Contacts.'']"

definition is_mailbox_reaching_permission :: "string option \<Rightarrow> string \<Rightarrow> bool" where
  "is_mailbox_reaching_permission resource_app_id v \<longleftrightarrow>
     (if resource_app_id = Some MICROSOFT_GRAPH_APP_ID
      then graph_mail_role v \<noteq> None \<or> mailbox_named v
      else if resource_app_id = Some OFFICE365_EXCHANGE_ONLINE_APP_ID
      then is_blanket_mailbox_grant v
           \<or> is_unscopable_legacy_exchange_permission OFFICE365_EXCHANGE_ONLINE_APP_ID v
      else mailbox_named v)"

section \<open>SharePoint\<close>

definition SP_SITES_SELECTED :: string where
  "SP_SITES_SELECTED = ''Sites.Selected''"

definition SP_LISTS_SELECTED :: string where
  "SP_LISTS_SELECTED = ''Lists.SelectedOperations.Selected''"

definition SP_LIST_ITEMS_SELECTED :: string where
  "SP_LIST_ITEMS_SELECTED = ''ListItems.SelectedOperations.Selected''"

definition SP_FILES_SELECTED :: string where
  "SP_FILES_SELECTED = ''Files.SelectedOperations.Selected''"

definition SELECTED_GRANT_ROLES :: "string list" where
  "SELECTED_GRANT_ROLES = [''read'', ''write'']"

definition is_grantable_selected_role :: "string \<Rightarrow> bool" where
  "is_grantable_selected_role role \<longleftrightarrow> role \<in> set SELECTED_GRANT_ROLES"

datatype selected_scope_level = Site | List_Level | ListItem | File

fun level_label :: "selected_scope_level \<Rightarrow> string" where
  "level_label Site = ''site''"
| "level_label List_Level = ''list or library''"
| "level_label ListItem = ''list item''"
| "level_label File = ''file or library folder''"

definition breaks_inheritance :: "selected_scope_level \<Rightarrow> bool" where
  "breaks_inheritance l \<longleftrightarrow> l \<noteq> Site"

definition selected_scope_level_for :: "string option \<Rightarrow> string \<Rightarrow> selected_scope_level option" where
  "selected_scope_level_for resource_app_id v =
     (if resource_app_id \<noteq> Some MICROSOFT_GRAPH_APP_ID then None
      else if v = SP_SITES_SELECTED then Some Site
      else if v = SP_LISTS_SELECTED then Some List_Level
      else if v = SP_LIST_ITEMS_SELECTED then Some ListItem
      else if v = SP_FILES_SELECTED then Some File
      else None)"

definition is_scoped_sharepoint_item_resource_permission :: "string option \<Rightarrow> string \<Rightarrow> bool" where
  "is_scoped_sharepoint_item_resource_permission resource_app_id v \<longleftrightarrow>
     (case selected_scope_level_for resource_app_id v of
        Some l \<Rightarrow> breaks_inheritance l
      | None \<Rightarrow> False)"

fun selected_scope_accepts :: "selected_scope_level \<Rightarrow> selected_scope_level \<Rightarrow> bool" where
  "selected_scope_accepts ListItem File = True"
| "selected_scope_accepts a b = (a = b)"

definition is_sharepoint_orgwide :: "string \<Rightarrow> bool" where
  "is_sharepoint_orgwide v \<longleftrightarrow> starts_with v ''Sites.'' \<and> v \<noteq> SP_SITES_SELECTED"

definition is_sharepoint_orgwide_permission :: "string option \<Rightarrow> string \<Rightarrow> bool" where
  "is_sharepoint_orgwide_permission resource_app_id v \<longleftrightarrow>
     (if resource_app_id \<in> {Some MICROSOFT_GRAPH_APP_ID, Some OFFICE365_SHAREPOINT_ONLINE_APP_ID, None}
      then is_sharepoint_orgwide v else False)"

definition is_sharepoint_site_access_permission :: "string option \<Rightarrow> string \<Rightarrow> bool" where
  "is_sharepoint_site_access_permission resource_app_id v \<longleftrightarrow>
     (if resource_app_id \<in> {Some MICROSOFT_GRAPH_APP_ID, Some OFFICE365_SHAREPOINT_ONLINE_APP_ID, None}
      then v = SP_SITES_SELECTED \<or> is_sharepoint_orgwide v else False)"

definition is_scopable_sharepoint_resource_permission :: "string option \<Rightarrow> string \<Rightarrow> bool" where
  "is_scopable_sharepoint_resource_permission resource_app_id v \<longleftrightarrow>
     resource_app_id = Some MICROSOFT_GRAPH_APP_ID \<and> is_sharepoint_orgwide v"

definition is_scoped_sharepoint_resource_permission :: "string option \<Rightarrow> string \<Rightarrow> bool" where
  "is_scoped_sharepoint_resource_permission resource_app_id v \<longleftrightarrow>
     resource_app_id = Some MICROSOFT_GRAPH_APP_ID \<and> v = SP_SITES_SELECTED"

definition FILES_ORGWIDE_PERMISSIONS :: "string list" where
  "FILES_ORGWIDE_PERMISSIONS = [''Files.Read.All'', ''Files.ReadWrite.All'']"

definition is_files_orgwide_permission :: "string option \<Rightarrow> string \<Rightarrow> bool" where
  "is_files_orgwide_permission resource_app_id v \<longleftrightarrow>
     (if resource_app_id \<in> {Some MICROSOFT_GRAPH_APP_ID, None}
      then v \<in> set FILES_ORGWIDE_PERMISSIONS else False)"

section \<open>Dispatch\<close>

datatype scope_kind = Exchange | SharePoint | SharePointItem

fun capability_key :: "scope_kind \<Rightarrow> string" where
  "capability_key Exchange = ''exchange_rbac''"
| "capability_key SharePoint = ''sharepoint_sites_selected''"
| "capability_key SharePointItem = ''sharepoint_selected_items''"

fun admin_applicable :: "scope_kind \<Rightarrow> bool" where
  "admin_applicable Exchange = True"
| "admin_applicable SharePoint = True"
| "admin_applicable SharePointItem = True"

definition scope_kind_for :: "string option \<Rightarrow> string \<Rightarrow> scope_kind option" where
  "scope_kind_for resource_app_id v =
     (if is_scopable_exchange_resource_permission resource_app_id v then Some Exchange
      else if is_scoped_sharepoint_resource_permission resource_app_id v
              \<or> is_scopable_sharepoint_resource_permission resource_app_id v then Some SharePoint
      else if is_scoped_sharepoint_item_resource_permission resource_app_id v then Some SharePointItem
      else None)"

section \<open>Gates\<close>

lemmas app_id_defs = MICROSOFT_GRAPH_APP_ID_def OFFICE365_EXCHANGE_ONLINE_APP_ID_def OFFICE365_SHAREPOINT_ONLINE_APP_ID_def

lemma app_ids_distinct [simp]:
  "MICROSOFT_GRAPH_APP_ID \<noteq> OFFICE365_EXCHANGE_ONLINE_APP_ID"
  "MICROSOFT_GRAPH_APP_ID \<noteq> OFFICE365_SHAREPOINT_ONLINE_APP_ID"
  "OFFICE365_EXCHANGE_ONLINE_APP_ID \<noteq> OFFICE365_SHAREPOINT_ONLINE_APP_ID"
  "OFFICE365_EXCHANGE_ONLINE_APP_ID \<noteq> MICROSOFT_GRAPH_APP_ID"
  "OFFICE365_SHAREPOINT_ONLINE_APP_ID \<noteq> MICROSOFT_GRAPH_APP_ID"
  by (simp_all add: app_id_defs)

locale scope_gate =
  fixes gate :: "string option \<Rightarrow> string \<Rightarrow> bool"
  assumes unresolved: "\<not> gate None v"
    and manageable: "gate (Some app) v \<Longrightarrow>
      app = MICROSOFT_GRAPH_APP_ID \<or> app = OFFICE365_EXCHANGE_ONLINE_APP_ID \<and> is_blanket_mailbox_grant v"
begin

lemma resource:
  assumes "gate r v"
  obtains "r = Some MICROSOFT_GRAPH_APP_ID"
  | "r = Some OFFICE365_EXCHANGE_ONLINE_APP_ID" and "is_blanket_mailbox_grant v"
  using assms unresolved manageable by (cases r) auto

lemma closed_on_sharepoint_online: "\<not> gate (Some OFFICE365_SHAREPOINT_ONLINE_APP_ID) v"
  using manageable [of OFFICE365_SHAREPOINT_ONLINE_APP_ID v] app_ids_distinct by metis

end

interpretation exchange_gate: scope_gate is_scopable_exchange_resource_permission
  by unfold_locales
    (auto simp: is_scopable_exchange_resource_permission_def exchange_role_for_resource_permission_def
      is_blanket_mailbox_grant_def split: if_splits)

interpretation site_gate: scope_gate is_scoped_sharepoint_resource_permission
  by unfold_locales (auto simp: is_scoped_sharepoint_resource_permission_def)

interpretation convert_gate: scope_gate is_scopable_sharepoint_resource_permission
  by unfold_locales (auto simp: is_scopable_sharepoint_resource_permission_def)

interpretation item_gate: scope_gate is_scoped_sharepoint_item_resource_permission
  by unfold_locales
    (auto simp: is_scoped_sharepoint_item_resource_permission_def selected_scope_level_for_def split: if_splits)

section \<open>The table\<close>

lemma graph_mail_role_named: "graph_mail_role v \<noteq> None \<Longrightarrow> mailbox_named v"
proof -
  have "list_all mailbox_named (map fst graph_mail_roles)"
    by (simp add: graph_mail_roles_def mailbox_named_def)
  then show "graph_mail_role v \<noteq> None \<Longrightarrow> mailbox_named v"
    by (auto simp: graph_mail_role_def list_all_iff dest!: map_of_SomeD)
qed

lemma mailbox_not_sites: "mailbox_named v \<Longrightarrow> \<not> starts_with v ''Sites.''"
  by (cases v) (auto simp: mailbox_named_def)

lemma mailbox_named_selected: "\<not> mailbox_named SP_SITES_SELECTED" "\<not> mailbox_named SP_LISTS_SELECTED"
    "\<not> mailbox_named SP_LIST_ITEMS_SELECTED" "\<not> mailbox_named SP_FILES_SELECTED"
  by (simp_all add: mailbox_named_def SP_SITES_SELECTED_def SP_LISTS_SELECTED_def SP_LIST_ITEMS_SELECTED_def
      SP_FILES_SELECTED_def)

lemma aap_in_table: "v \<in> set AAP_CONFINABLE_GRAPH_PERMISSIONS \<Longrightarrow> graph_mail_role v \<noteq> None"
proof -
  have "list_all (\<lambda>v. graph_mail_role v \<noteq> None) AAP_CONFINABLE_GRAPH_PERMISSIONS"
    by (simp add: AAP_CONFINABLE_GRAPH_PERMISSIONS_def graph_mail_role_def graph_mail_roles_def)
  then show "v \<in> set AAP_CONFINABLE_GRAPH_PERMISSIONS \<Longrightarrow> graph_mail_role v \<noteq> None" by (auto simp: list_all_iff)
qed

lemma not_ews_role: "graph_mail_role EWS_FULL_ACCESS_AS_APP = None"
  by (simp add: graph_mail_role_def graph_mail_roles_def EWS_FULL_ACCESS_AS_APP_def)

lemma sites_named_selected: "starts_with SP_SITES_SELECTED ''Sites.''" "\<not> starts_with SP_LISTS_SELECTED ''Sites.''"
    "\<not> starts_with SP_LIST_ITEMS_SELECTED ''Sites.''" "\<not> starts_with SP_FILES_SELECTED ''Sites.''"
  by (simp_all add: SP_SITES_SELECTED_def SP_LISTS_SELECTED_def SP_LIST_ITEMS_SELECTED_def SP_FILES_SELECTED_def)

lemmas gate_defs = is_scopable_exchange_resource_permission_def is_scoped_sharepoint_resource_permission_def
  is_scopable_sharepoint_resource_permission_def is_scoped_sharepoint_item_resource_permission_def
  selected_scope_level_for_def breaks_inheritance_def is_sharepoint_orgwide_def exchange_role_for_resource_permission_def

lemma exchange_gate_graph:
  "is_scopable_exchange_resource_permission (Some MICROSOFT_GRAPH_APP_ID) v \<longleftrightarrow> graph_mail_role v \<noteq> None"
  by (simp add: is_scopable_exchange_resource_permission_def exchange_role_for_resource_permission_def)

lemma exchange_excludes_sharepoint:
  assumes "is_scopable_exchange_resource_permission r v"
  shows "\<not> is_scoped_sharepoint_resource_permission r v" "\<not> is_scopable_sharepoint_resource_permission r v"
    "\<not> is_scoped_sharepoint_item_resource_permission r v"
proof -
  consider "r = Some MICROSOFT_GRAPH_APP_ID" "mailbox_named v" | "r = Some OFFICE365_EXCHANGE_ONLINE_APP_ID"
    using assms graph_mail_role_named [of v] exchange_gate_graph [of v] exchange_gate.resource [OF assms] by blast
  then have "\<not> is_scoped_sharepoint_resource_permission r v \<and> \<not> is_scopable_sharepoint_resource_permission r v
    \<and> \<not> is_scoped_sharepoint_item_resource_permission r v"
  proof cases
    case 1
    from 1(2) have "\<not> starts_with v ''Sites.''" by (rule mailbox_not_sites)
    moreover from 1(2) mailbox_named_selected have "v \<noteq> SP_SITES_SELECTED" "v \<noteq> SP_LISTS_SELECTED"
      "v \<noteq> SP_LIST_ITEMS_SELECTED" "v \<noteq> SP_FILES_SELECTED" by metis+
    ultimately show ?thesis by (simp add: gate_defs del: starts_with_code)
  next
    case 2
    then show ?thesis by (simp add: gate_defs)
  qed
  then show "\<not> is_scoped_sharepoint_resource_permission r v" "\<not> is_scopable_sharepoint_resource_permission r v"
    "\<not> is_scoped_sharepoint_item_resource_permission r v" by blast+
qed

lemma site_excludes_item:
  assumes "is_scoped_sharepoint_resource_permission r v \<or> is_scopable_sharepoint_resource_permission r v"
  shows "\<not> is_scoped_sharepoint_item_resource_permission r v"
  using assms by (auto simp: gate_defs sites_named_selected simp del: starts_with_code split: if_splits)

section \<open>Properties\<close>

text \<open>the mechanism of a permission is unambiguous and only ever offered where it can be
  applied.  The three gates behind \<open>scope_kind_for\<close> are mutually exclusive, so its answer does not
  depend on the order of its tests; it offers nothing for an unresolved resource or for Office 365
  SharePoint Online, and on Office 365 Exchange Online only the EWS full-access scope.\<close>

theorem scope_kind_unambiguous:
  "(scope_kind_for r v = Some Exchange \<longleftrightarrow> is_scopable_exchange_resource_permission r v)
   \<and> (scope_kind_for r v = Some SharePoint \<longleftrightarrow>
        is_scoped_sharepoint_resource_permission r v \<or> is_scopable_sharepoint_resource_permission r v)
   \<and> (scope_kind_for r v = Some SharePointItem \<longleftrightarrow> is_scoped_sharepoint_item_resource_permission r v)
   \<and> \<not> (is_scoped_sharepoint_resource_permission r v \<and> is_scopable_sharepoint_resource_permission r v)
   \<and> scope_kind_for None v = None \<and> scope_kind_for (Some OFFICE365_SHAREPOINT_ONLINE_APP_ID) v = None
   \<and> scope_kind_for (Some OFFICE365_EXCHANGE_ONLINE_APP_ID) v
       = (if v = EWS_FULL_ACCESS_AS_APP then Some Exchange else None)"
proof -
  have "\<not> (is_scoped_sharepoint_resource_permission r v \<and> is_scopable_sharepoint_resource_permission r v)"
    by (auto simp: gate_defs)
  moreover have "scope_kind_for (Some OFFICE365_EXCHANGE_ONLINE_APP_ID) v
       = (if v = EWS_FULL_ACCESS_AS_APP then Some Exchange else None)"
    by (simp add: scope_kind_for_def gate_defs)
  ultimately show ?thesis
    using exchange_excludes_sharepoint [of r v] site_excludes_item [of r v]
    by (auto simp: scope_kind_for_def exchange_gate.unresolved site_gate.unresolved convert_gate.unresolved
        item_gate.unresolved exchange_gate.closed_on_sharepoint_online site_gate.closed_on_sharepoint_online
        convert_gate.closed_on_sharepoint_online item_gate.closed_on_sharepoint_online)
qed

text \<open>The mailbox predicates nest.  What a legacy Application Access Policy could confine is
  scopable by RBAC for Applications, what is scopable reaches mailboxes, and on Office 365 Exchange
  Online the reaching grants split exactly into the scopable one and the unscopable legacy ones; a
  value the role table knows is reported as reaching even when the resource is unresolved.\<close>

theorem mailbox_predicates_nest:
  "(is_aap_confinable_permission app v \<longrightarrow> is_scopable_exchange_resource_permission (Some app) v)
   \<and> (is_scopable_exchange_resource_permission r v \<longrightarrow> is_mailbox_reaching_permission r v)
   \<and> (is_mailbox_reaching_permission (Some OFFICE365_EXCHANGE_ONLINE_APP_ID) v \<longleftrightarrow>
        is_scopable_exchange_resource_permission (Some OFFICE365_EXCHANGE_ONLINE_APP_ID) v
        \<noteq> is_unscopable_legacy_exchange_permission OFFICE365_EXCHANGE_ONLINE_APP_ID v)
   \<and> (graph_mail_role v \<noteq> None \<longrightarrow>
        is_mailbox_reaching_permission None v \<and> is_mailbox_reaching_permission (Some MICROSOFT_GRAPH_APP_ID) v)"
proof -
  have "is_scopable_exchange_resource_permission r v \<longrightarrow> is_mailbox_reaching_permission r v"
    by (auto simp: is_scopable_exchange_resource_permission_def exchange_role_for_resource_permission_def
        is_mailbox_reaching_permission_def is_blanket_mailbox_grant_def split: option.splits if_splits)
  moreover have "is_aap_confinable_permission app v \<longrightarrow> is_scopable_exchange_resource_permission (Some app) v"
    by (simp add: is_aap_confinable_permission_def is_scopable_exchange_resource_permission_def Let_def)
  moreover have "is_mailbox_reaching_permission (Some OFFICE365_EXCHANGE_ONLINE_APP_ID) v \<longleftrightarrow>
        is_scopable_exchange_resource_permission (Some OFFICE365_EXCHANGE_ONLINE_APP_ID) v
        \<noteq> is_unscopable_legacy_exchange_permission OFFICE365_EXCHANGE_ONLINE_APP_ID v"
    by (auto simp: is_mailbox_reaching_permission_def is_scopable_exchange_resource_permission_def
        exchange_role_for_resource_permission_def is_blanket_mailbox_grant_def
        is_unscopable_legacy_exchange_permission_def not_ews_role)
  ultimately show ?thesis
    using graph_mail_role_named [of v] by (auto simp: is_mailbox_reaching_permission_def)
qed

theorem mailbox_predicates_nest_witness:
  "is_scopable_exchange_resource_permission (Some MICROSOFT_GRAPH_APP_ID) ''Mail.Send''
   \<and> is_mailbox_reaching_permission None ''Mail.Send''"
proof -
  have a: "is_aap_confinable_permission MICROSOFT_GRAPH_APP_ID ''Mail.Send''"
    by (simp add: is_aap_confinable_permission_def exchange_role_for_resource_permission_def
        AAP_CONFINABLE_GRAPH_PERMISSIONS_def graph_mail_role_def graph_mail_roles_def)
  have g: "graph_mail_role ''Mail.Send'' \<noteq> None" by (simp add: graph_mail_role_def graph_mail_roles_def)
  from mailbox_predicates_nest [of MICROSOFT_GRAPH_APP_ID "''Mail.Send''" None] a g show ?thesis by blast
qed

text \<open>a Selected grant never lands outside the level the operator aimed at: acceptance is a
  partial order whose only strict pair is a list-item scope on a file, it never crosses the site
  boundary, and the level of a permission is a sub-site one exactly when its mechanism is the
  per-item one.\<close>

theorem selected_levels_fail_closed:
  "(selected_scope_accepts a b \<longleftrightarrow> a = b \<or> a = ListItem \<and> b = File)
   \<and> (selected_scope_accepts a b \<longrightarrow> selected_scope_accepts b c \<longrightarrow> selected_scope_accepts a c)
   \<and> (selected_scope_accepts a b \<longrightarrow> breaks_inheritance a = breaks_inheritance b)
   \<and> (scope_kind_for r v = Some SharePointItem \<longleftrightarrow>
        (\<exists>l. selected_scope_level_for r v = Some l \<and> breaks_inheritance l))"
proof -
  have acc: "selected_scope_accepts a b \<longleftrightarrow> a = b \<or> a = ListItem \<and> b = File" for a b
    by (cases a; cases b) simp_all
  have "scope_kind_for r v = Some SharePointItem \<longleftrightarrow> is_scoped_sharepoint_item_resource_permission r v"
    using exchange_excludes_sharepoint [of r v] site_excludes_item [of r v] by (auto simp: scope_kind_for_def)
  then show ?thesis
    by (auto simp: acc breaks_inheritance_def is_scoped_sharepoint_item_resource_permission_def split: option.splits)
qed

theorem selected_levels_fail_closed_witness:
  "selected_scope_accepts ListItem File \<and> breaks_inheritance ListItem = breaks_inheritance File"
  using selected_levels_fail_closed [of ListItem File] by simp

end
