(* ===== verification/Audit_Types.thy ===== *)
theory Audit_Types
  imports Scoping
begin

text \<open>
  The audit's data: the Graph records it reads
  (\<^verbatim>\<open>crates/azapptoolkit-core/src/models.rs\<close>), the risk and credential statuses, the permissions
  of an application with their de-duplication and their mailbox scope verdicts, the remediation
  actions, the output row \<open>AuditItem\<close> and the issue markers
  (\<^verbatim>\<open>crates/azapptoolkit-core/src/audit/types.rs\<close>; the thresholds it uses are in
  \<^verbatim>\<open>audit/permissions.rs\<close>).  \<open>u32\<close> scores are \<^typ>\<open>32 word\<close>; serde attributes are not modelled.
\<close>

section \<open>Thresholds\<close>

definition RISK_CRITICAL :: "32 word" where "RISK_CRITICAL = 25"
definition RISK_HIGH :: "32 word" where "RISK_HIGH = 15"
definition RISK_MEDIUM :: "32 word" where "RISK_MEDIUM = 8"
definition EXPIRY_WARNING_DAYS :: int where "EXPIRY_WARNING_DAYS = 30"
definition STALE_APP_DAYS :: int where "STALE_APP_DAYS = 90"
definition UNUSED_APP_DAYS :: int where "UNUSED_APP_DAYS = 90"
definition UNUSED_CREDENTIAL_DAYS :: int where "UNUSED_CREDENTIAL_DAYS = 90"
definition LONG_LIVED_SECRET_DAYS :: int where "LONG_LIVED_SECRET_DAYS = 365"

section \<open>Risk levels\<close>

datatype risk_level = Low | Medium | High | Critical

fun risk_rank :: "risk_level \<Rightarrow> nat" where
  "risk_rank Low = 0"
| "risk_rank Medium = 1"
| "risk_rank High = 2"
| "risk_rank Critical = 3"

lemma risk_rank_inject [simp]: "risk_rank a = risk_rank b \<longleftrightarrow> a = b"
  by (cases a; cases b) simp_all

instantiation risk_level :: linorder
begin

definition less_eq_risk_level :: "risk_level \<Rightarrow> risk_level \<Rightarrow> bool" where
  "less_eq_risk_level a b \<longleftrightarrow> risk_rank a \<le> risk_rank b"

definition less_risk_level :: "risk_level \<Rightarrow> risk_level \<Rightarrow> bool" where
  "less_risk_level a b \<longleftrightarrow> risk_rank a < risk_rank b"

instance
  by standard (auto simp: less_eq_risk_level_def less_risk_level_def simp flip: risk_rank_inject)

end

definition from_score :: "32 word \<Rightarrow> risk_level" where
  "from_score score =
     (if RISK_CRITICAL \<le> score then Critical
      else if RISK_HIGH \<le> score then High
      else if RISK_MEDIUM \<le> score then Medium
      else Low)"

fun risk_as_str :: "risk_level \<Rightarrow> string" where
  "risk_as_str Low = ''Low''"
| "risk_as_str Medium = ''Medium''"
| "risk_as_str High = ''High''"
| "risk_as_str Critical = ''Critical''"

section \<open>Graph records\<close>

record password_credential =
  pc_key_id :: string
  pc_display_name :: "string option"
  pc_hint :: "string option"
  pc_start_date_time :: "datetime option"
  pc_end_date_time :: "datetime option"
  pc_secret_text :: "string option"

record key_credential =
  kc_key_id :: string
  kc_display_name :: "string option"
  kc_usage :: "string option"
  kc_type :: "string option"
  kc_start_date_time :: "datetime option"
  kc_end_date_time :: "datetime option"
  kc_custom_key_identifier :: "string option"

record resource_access =
  ra_id :: string
  ra_type :: string

record required_resource_access =
  rra_resource_app_id :: string
  rra_resource_access :: "resource_access list"

record verified_publisher =
  vp_display_name :: "string option"
  verified_publisher_id :: "string option"
  vp_added_date_time :: "datetime option"

record sp_lock_configuration =
  lock_is_enabled :: "bool option"
  all_properties :: "bool option"
  credentials_with_usage_verify :: "bool option"
  credentials_with_usage_sign :: "bool option"
  token_encryption_key_id :: "bool option"

definition is_fully_locked :: "sp_lock_configuration \<Rightarrow> bool" where
  "is_fully_locked l \<longleftrightarrow>
     (if lock_is_enabled l \<noteq> Some True then False
      else if all_properties l = Some True then True
      else credentials_with_usage_verify l = Some True
           \<and> credentials_with_usage_sign l = Some True
           \<and> token_encryption_key_id l = Some True)"

record directory_object =
  do_id :: string
  do_display_name :: "string option"
  do_user_principal_name :: "string option"
  do_mail :: "string option"
  do_odata_type :: "string option"

record application =
  app_object_id :: string
  app_app_id :: string
  app_display_name :: string
  app_description :: "string option"
  app_sign_in_audience :: "string option"
  app_publisher_domain :: "string option"
  app_created_date_time :: "datetime option"
  password_credentials :: "password_credential list"
  key_credentials :: "key_credential list"
  app_required_resource_access :: "required_resource_access list"
  app_verified_publisher :: "verified_publisher option"
  sp_lock :: "sp_lock_configuration option"
  is_fallback_public_client :: "bool option"
  owners :: "directory_object list option"
  disabled_by_microsoft_status :: "string option"
  app_notes :: "string option"

section \<open>Credential statuses\<close>

datatype credential_status = Active | ExpiringSoon | Expired | Unknown

fun status_as_str :: "credential_status \<Rightarrow> string" where
  "status_as_str Active = ''Active''"
| "status_as_str ExpiringSoon = ''Expiring Soon''"
| "status_as_str Expired = ''Expired''"
| "status_as_str Unknown = ''Unknown''"

definition from_days_to_expiry :: "int option \<Rightarrow> credential_status" where
  "from_days_to_expiry days =
     (case days of
        None \<Rightarrow> Unknown
      | Some d \<Rightarrow> if d < 0 then Expired else if d \<le> EXPIRY_WARNING_DAYS then ExpiringSoon else Active)"

datatype list_credential_status = List_Active | List_Expiring | List_Expired | List_None

fun as_facet :: "list_credential_status \<Rightarrow> string" where
  "as_facet List_Active = ''active''"
| "as_facet List_Expiring = ''expiring''"
| "as_facet List_Expired = ''expired''"
| "as_facet List_None = ''none''"

fun classify_loop :: "datetime \<Rightarrow> datetime option list \<Rightarrow> bool \<times> bool \<times> bool \<Rightarrow> bool \<times> bool \<times> bool" where
  "classify_loop now [] flags = flags"
| "classify_loop now (end_date # ends) (has_any, any_active, any_expiring) =
     (case end_date of
        None \<Rightarrow> classify_loop now ends (True, True, any_expiring)
      | Some e \<Rightarrow>
          (let days = num_days (e - now)
           in if days > EXPIRY_WARNING_DAYS then classify_loop now ends (True, True, any_expiring)
              else if 0 \<le> days \<and> days \<le> EXPIRY_WARNING_DAYS then classify_loop now ends (True, any_active, True)
              else classify_loop now ends (True, any_active, any_expiring)))"

definition classify ::
  "password_credential list \<Rightarrow> key_credential list \<Rightarrow> datetime \<Rightarrow> list_credential_status" where
  "classify passwords certs now =
     (let (has_any, any_active, any_expiring) =
            classify_loop now (map pc_end_date_time passwords @ map kc_end_date_time certs) (False, False, False)
      in if \<not> has_any then List_None
         else if any_active then List_Active
         else if any_expiring then List_Expiring
         else List_Expired)"

datatype credential_kind = Secret | Certificate

fun kind_as_str :: "credential_kind \<Rightarrow> string" where
  "kind_as_str Secret = ''Secret''"
| "kind_as_str Certificate = ''Certificate''"

record credential_summary =
  cs_name :: string
  cs_kind :: credential_kind
  cs_start_date_time :: "datetime option"
  cs_end_date_time :: "datetime option"
  days_to_expiry :: "int option"
  cs_status :: credential_status

section \<open>Permissions\<close>

datatype scope_mechanism_kind = Rbac | LegacyApplicationAccessPolicy

datatype mail_permission_scope =
    NotScopable
  | OrgWide
  | Scoped (scope_name: "string option") (recipient_filter: "string option") (group_count: "32 word option")
      (mechanism: scope_mechanism_kind)
  | ScopeUnknown

record resource_permission =
  resource_app_id :: "string option"
  perm :: string

definition graph :: "string \<Rightarrow> resource_permission" where
  "graph v = \<lparr>resource_app_id = Some MICROSOFT_GRAPH_APP_ID, perm = v\<rparr>"

definition exchange_online :: "string \<Rightarrow> resource_permission" where
  "exchange_online v = \<lparr>resource_app_id = Some OFFICE365_EXCHANGE_ONLINE_APP_ID, perm = v\<rparr>"

definition on_resource :: "string \<Rightarrow> string \<Rightarrow> resource_permission" where
  "on_resource app v = \<lparr>resource_app_id = Some app, perm = v\<rparr>"

record app_permissions =
  app_role_grants :: "resource_permission list"
  scope_values :: "string list"
  has_admin_consent :: bool
  admin_consented_scopes :: "string list option"
  mail_scopes :: "(string \<times> mail_permission_scope) list"
  undeclared_grants :: "resource_permission list"

definition deduped :: "app_permissions \<Rightarrow> app_permissions" where
  "deduped p = p\<lparr>app_role_grants := keep_first (\<lambda>g. (resource_app_id g, perm g)) (app_role_grants p),
                 scope_values := keep_first id (scope_values p)\<rparr>"

definition declared_key :: "resource_permission \<Rightarrow> string option \<times> string" where
  "declared_key g = (map_option to_ascii_lowercase (resource_app_id g), perm g)"

definition declared_view :: "app_permissions \<Rightarrow> app_permissions" where
  "declared_view p =
     (if undeclared_grants p = [] then p
      else p\<lparr>app_role_grants :=
        filter (\<lambda>g. declared_key g \<notin> set (map declared_key (undeclared_grants p))) (app_role_grants p)\<rparr>)"

definition scope_mechanism :: "app_permissions \<Rightarrow> resource_permission \<Rightarrow> scope_mechanism_kind option" where
  "scope_mechanism p grant =
     (if \<not> is_scopable_exchange_resource_permission (resource_app_id grant) (perm grant) then None
      else (case map_of (mail_scopes p) (perm grant) of
              Some (Scoped _ _ _ m) \<Rightarrow> Some m
            | _ \<Rightarrow> None))"

definition is_scoped :: "app_permissions \<Rightarrow> resource_permission \<Rightarrow> bool" where
  "is_scoped p grant \<longleftrightarrow> scope_mechanism p grant \<noteq> None"

fun fully_scoped_loop :: "app_permissions \<Rightarrow> bool \<Rightarrow> resource_permission list \<Rightarrow> bool" where
  "fully_scoped_loop p held [] = held"
| "fully_scoped_loop p held (g # gs) = (if \<not> is_scoped p g then False else fully_scoped_loop p True gs)"

definition value_fully_scoped :: "app_permissions \<Rightarrow> string \<Rightarrow> bool" where
  "value_fully_scoped p v = fully_scoped_loop p False (filter (\<lambda>g. perm g = v) (app_role_grants p))"

section \<open>Remediations and the audit row\<close>

datatype remediation_kind =
    RemoveExpiredCredentials
  | ScopeMailboxAccess
  | ScopeSharePointAccess
  | RemoveRedundantPermissions
  | AddOwner
  | MigrateApplicationAccessPolicy
  | DisableSignIn

record remediation_action =
  rem_kind :: remediation_kind
  rem_label :: string
  rem_detail :: string
  rem_targets :: "string list"

datatype audit_principal_kind = ApplicationPrincipal | ServicePrincipalOnly | ManagedIdentity

fun principal_as_str :: "audit_principal_kind \<Rightarrow> string" where
  "principal_as_str ApplicationPrincipal = ''Application''"
| "principal_as_str ServicePrincipalOnly = ''ServicePrincipal''"
| "principal_as_str ManagedIdentity = ''ManagedIdentity''"

record audit_item =
  application_name :: string
  ai_app_id :: string
  ai_object_id :: string
  created_date :: "datetime option"
  publisher :: "string option"
  ai_sign_in_audience :: "string option"
  risk_score :: "32 word"
  ai_risk_level :: risk_level
  issues :: "string list"
  recommendations :: "string list"
  remediations :: "remediation_action list"
  credential_status_of :: credential_status
  permission_count :: "32 word"
  service_principal_enabled :: "bool option"
  days_since_created :: "int option"
  certificates :: "credential_summary list"
  secrets :: "credential_summary list"
  last_sign_in :: "datetime option"
  unused :: bool
  sign_in_report_available :: bool
  principal_kind :: audit_principal_kind
  ai_app_owner_organization_id :: "string option"
  sp_risk_state :: "string option"
  sp_risk_level :: "string option"

section \<open>Issue markers\<close>

definition HIGH_RISK_APP_PERMS :: string where
  "HIGH_RISK_APP_PERMS = ''High-risk application permissions:''"
definition HIGH_RISK_DELEGATED_PERMS :: string where
  "HIGH_RISK_DELEGATED_PERMS = ''High-risk delegated permissions:''"
definition ORG_WIDE_MAILBOX :: string where
  "ORG_WIDE_MAILBOX = ''Organization-wide mailbox access''"
definition UNSCOPABLE_LEGACY_MAILBOX :: string where
  "UNSCOPABLE_LEGACY_MAILBOX = ''Unscopable legacy Exchange mailbox access''"
definition UNCONFINABLE_MAILBOX :: string where
  "UNCONFINABLE_MAILBOX = ''Org-wide mailbox access that RBAC cannot confine''"
definition SCOPED_VIA_RBAC :: string where
  "SCOPED_VIA_RBAC = ''scoped via RBAC for Applications''"
definition LEGACY_MAILBOX_POLICY :: string where
  "LEGACY_MAILBOX_POLICY = ''Mailbox access confined by a legacy Application Access Policy''"
definition ORG_WIDE_SHAREPOINT :: string where
  "ORG_WIDE_SHAREPOINT = ''Organization-wide SharePoint access''"
definition UNCONFINABLE_SHAREPOINT :: string where
  "UNCONFINABLE_SHAREPOINT = ''Org-wide SharePoint access that Sites.Selected cannot confine''"
definition SCOPED_SHAREPOINT :: string where
  "SCOPED_SHAREPOINT = ''SharePoint access scoped to selected sites''"
definition ORG_WIDE_FILES :: string where
  "ORG_WIDE_FILES = ''Org-wide Files access''"
definition NO_OWNERS :: string where
  "NO_OWNERS = ''No owners assigned''"
definition SINGLE_OWNER :: string where
  "SINGLE_OWNER = ''Single owner''"
definition INSTANCE_LOCK_DISABLED :: string where
  "INSTANCE_LOCK_DISABLED = ''App instance property lock is not fully enabled''"
definition PUBLIC_CLIENT_CREDENTIALS :: string where
  "PUBLIC_CLIENT_CREDENTIALS = ''Public client flows are enabled and credentials are present''"
definition PREFER_CERT_OVER_SECRET :: string where
  "PREFER_CERT_OVER_SECRET = ''Uses client secret(s)''"
definition UNUSED_CREDENTIAL :: string where
  "UNUSED_CREDENTIAL = ''Unused credential(s):''"
definition REDUNDANT_APP_PERMS :: string where
  "REDUNDANT_APP_PERMS = ''Redundant application permissions:''"
definition GRANTED_NOT_DECLARED :: string where
  "GRANTED_NOT_DECLARED = ''Granted application permissions not in the manifest:''"
definition DISABLED_BY_MICROSOFT :: string where
  "DISABLED_BY_MICROSOFT = ''Disabled by Microsoft''"
definition RISKY_SERVICE_PRINCIPAL :: string where
  "RISKY_SERVICE_PRINCIPAL = ''Risky service principal''"
definition MULTITENANT_AUDIENCE :: string where
  "MULTITENANT_AUDIENCE = ''Sign-in audience reaches outside this tenant''"
definition UNVERIFIED_PUBLISHER :: string where
  "UNVERIFIED_PUBLISHER = ''No verified publisher''"

lemmas marker_defs = HIGH_RISK_APP_PERMS_def HIGH_RISK_DELEGATED_PERMS_def ORG_WIDE_MAILBOX_def
  UNSCOPABLE_LEGACY_MAILBOX_def UNCONFINABLE_MAILBOX_def LEGACY_MAILBOX_POLICY_def ORG_WIDE_SHAREPOINT_def
  UNCONFINABLE_SHAREPOINT_def SCOPED_SHAREPOINT_def ORG_WIDE_FILES_def NO_OWNERS_def SINGLE_OWNER_def
  INSTANCE_LOCK_DISABLED_def PUBLIC_CLIENT_CREDENTIALS_def PREFER_CERT_OVER_SECRET_def UNUSED_CREDENTIAL_def
  REDUNDANT_APP_PERMS_def GRANTED_NOT_DECLARED_def DISABLED_BY_MICROSOFT_def RISKY_SERVICE_PRINCIPAL_def
  MULTITENANT_AUDIENCE_def UNVERIFIED_PUBLISHER_def

section \<open>Lemmas\<close>

lemma deduped_idem: "deduped (deduped p) = deduped p"
  by (simp add: deduped_def)

lemma deduped_frame [simp]:
  "has_admin_consent (deduped p) = has_admin_consent p" "mail_scopes (deduped p) = mail_scopes p"
  "undeclared_grants (deduped p) = undeclared_grants p" "admin_consented_scopes (deduped p) = admin_consented_scopes p"
  by (simp_all add: deduped_def)

lemma grant_eq: "(resource_app_id g, perm g) = (resource_app_id h, perm h) \<longleftrightarrow> g = h"
  for g h :: resource_permission by (cases g; cases h) simp

lemma keep_first_aux_append:
  "key x \<in> key ` set xs \<union> set seen \<Longrightarrow> keep_first_aux key seen (xs @ [x]) = keep_first_aux key seen xs"
  by (induction xs arbitrary: seen) auto

lemma set_deduped_grants: "set (app_role_grants (deduped p)) = set (app_role_grants p)"
proof -
  let ?key = "\<lambda>g :: resource_permission. (resource_app_id g, perm g)"
  have "inj ?key" by (rule injI) (simp only: grant_eq)
  then have "set (keep_first ?key (app_role_grants p)) = set (app_role_grants p)"
    using keep_first_keys [of ?key "app_role_grants p"] by (simp only: inj_image_eq_iff)
  then show ?thesis by (simp add: deduped_def)
qed

lemma distinct_deduped_grants: "distinct (app_role_grants (deduped p))"
  using distinct_keep_first [of "\<lambda>g. (resource_app_id g, perm g)" "app_role_grants p"]
  by (simp add: deduped_def distinct_map)

lemma deduped_repeat:
  "g \<in> set (app_role_grants p) \<Longrightarrow> deduped (p\<lparr>app_role_grants := app_role_grants p @ [g]\<rparr>) = deduped p"
  by (simp add: deduped_def keep_first_def keep_first_aux_append)

lemma declared_view_frame [simp]:
  "mail_scopes (declared_view p) = mail_scopes p" "undeclared_grants (declared_view p) = undeclared_grants p"
  by (simp_all add: declared_view_def)

lemma declared_subset: "set (app_role_grants (declared_view p)) \<subseteq> set (app_role_grants p)"
  by (auto simp: declared_view_def)

lemma scope_mechanism_scopable:
  "is_scoped p g \<Longrightarrow> is_scopable_exchange_resource_permission (resource_app_id g) (perm g)"
  by (auto simp: is_scoped_def scope_mechanism_def split: if_splits)

lemma fully_scoped_loop_iff:
  "fully_scoped_loop p held gs \<longleftrightarrow> (held \<or> gs \<noteq> []) \<and> (\<forall>g \<in> set gs. is_scoped p g)"
  by (induction gs arbitrary: held) auto

lemma value_fully_scoped_iff:
  "value_fully_scoped p v \<longleftrightarrow> (\<exists>g \<in> set (app_role_grants p). perm g = v)
     \<and> (\<forall>g \<in> set (app_role_grants p). perm g = v \<longrightarrow> is_scoped p g)"
  by (auto simp: value_fully_scoped_def fully_scoped_loop_iff filter_empty_conv)

lemma from_score_mono: "a \<le> b \<Longrightarrow> from_score a \<le> from_score b"
  by (auto simp: from_score_def less_eq_risk_level_def)

lemma classify_loop_flags:
  "classify_loop now es (h, a, x) =
     (h \<or> es \<noteq> [], a \<or> (\<exists>e \<in> set es. case e of None \<Rightarrow> True | Some d \<Rightarrow> num_days (d - now) > EXPIRY_WARNING_DAYS),
      x \<or> (\<exists>e \<in> set es. case e of None \<Rightarrow> False
             | Some d \<Rightarrow> 0 \<le> num_days (d - now) \<and> num_days (d - now) \<le> EXPIRY_WARNING_DAYS))"
  by (induction es arbitrary: h a x) (auto simp: Let_def split: option.splits)

end
