(* ===== verification/Audit_Permissions.thy ===== *)
theory Audit_Permissions
  imports Audit_Types
begin

text \<open>
  Permission risk lists, score weights and the subsumption table:
  \<^verbatim>\<open>crates/azapptoolkit-core/src/audit/permissions.rs\<close>.  The lists carry the source's entries in
  the source's order.
\<close>

section \<open>Score weights\<close>

definition PTS_TIER0_APP_PERM :: "32 word" where "PTS_TIER0_APP_PERM = 25"
definition PTS_HIGH_RISK_APP_PERM :: "32 word" where "PTS_HIGH_RISK_APP_PERM = 10"
definition PTS_MEDIUM_RISK_APP_PERM :: "32 word" where "PTS_MEDIUM_RISK_APP_PERM = 5"
definition PTS_ADMIN_CONSENT_DELEGATED :: "32 word" where "PTS_ADMIN_CONSENT_DELEGATED = 5"
definition PTS_SP_DISABLED :: "32 word" where "PTS_SP_DISABLED = 2"
definition PTS_DISABLED_BY_MICROSOFT :: "32 word" where "PTS_DISABLED_BY_MICROSOFT = 15"
definition PTS_RISKY_SERVICE_PRINCIPAL :: "32 word" where "PTS_RISKY_SERVICE_PRINCIPAL = 20"
definition PTS_ALL_CREDS_EXPIRED :: "32 word" where "PTS_ALL_CREDS_EXPIRED = 8"
definition PTS_MIXED_EXPIRED :: "32 word" where "PTS_MIXED_EXPIRED = 4"
definition PTS_ALL_EXPIRING_SOON :: "32 word" where "PTS_ALL_EXPIRING_SOON = 3"
definition PTS_MIXED_EXPIRING :: "32 word" where "PTS_MIXED_EXPIRING = 2"
definition PTS_LONG_LIVED :: "32 word" where "PTS_LONG_LIVED = 3"
definition PTS_STALE_APP :: "32 word" where "PTS_STALE_APP = 2"
definition PTS_MULTITENANT_EXPOSURE :: "32 word" where "PTS_MULTITENANT_EXPOSURE = 3"
definition PTS_UNVERIFIED_PUBLISHER :: "32 word" where "PTS_UNVERIFIED_PUBLISHER = 2"
definition PTS_SCOPED_HIGH_RISK_MAIL :: "32 word" where "PTS_SCOPED_HIGH_RISK_MAIL = 3"
definition PTS_SCOPED_MEDIUM_RISK_MAIL :: "32 word" where "PTS_SCOPED_MEDIUM_RISK_MAIL = 2"

lemmas pts_defs = PTS_TIER0_APP_PERM_def PTS_HIGH_RISK_APP_PERM_def PTS_MEDIUM_RISK_APP_PERM_def PTS_ADMIN_CONSENT_DELEGATED_def PTS_SP_DISABLED_def PTS_DISABLED_BY_MICROSOFT_def PTS_RISKY_SERVICE_PRINCIPAL_def PTS_ALL_CREDS_EXPIRED_def PTS_MIXED_EXPIRED_def PTS_ALL_EXPIRING_SOON_def PTS_MIXED_EXPIRING_def PTS_LONG_LIVED_def PTS_STALE_APP_def PTS_MULTITENANT_EXPOSURE_def PTS_UNVERIFIED_PUBLISHER_def PTS_SCOPED_HIGH_RISK_MAIL_def PTS_SCOPED_MEDIUM_RISK_MAIL_def

section \<open>Risk lists\<close>

definition TIER0_APP_PERMISSIONS :: "string list" where
  "TIER0_APP_PERMISSIONS =
    [''RoleManagement.ReadWrite.Directory'', ''AppRoleAssignment.ReadWrite.All'',
     ''Application.ReadWrite.All'', ''RoleAssignmentSchedule.ReadWrite.Directory'',
     ''RoleEligibilitySchedule.ReadWrite.Directory'', ''PrivilegedAccess.ReadWrite.AzureADGroup'',
     ''PrivilegedAssignmentSchedule.ReadWrite.AzureADGroup'',
     ''PrivilegedEligibilitySchedule.ReadWrite.AzureADGroup'', ''Policy.ReadWrite.PermissionGrant'',
     ''Policy.ReadWrite.ConditionalAccess'', ''Domain.ReadWrite.All'',
     ''UserAuthenticationMethod.ReadWrite.All'']"

definition HIGH_RISK_APP_PERMISSIONS :: "string list" where
  "HIGH_RISK_APP_PERMISSIONS =
    [''Directory.ReadWrite.All'', ''Mail.ReadWrite'', ''Mail.Send'', ''Files.ReadWrite.All'',
     ''Sites.FullControl.All'', ''Sites.ReadWrite.All'', ''User.ReadWrite.All'', ''Group.ReadWrite.All'',
     ''Application.ReadWrite.OwnedBy'', ''EntitlementManagement.ReadWrite.All'',
     ''MailboxSettings.ReadWrite'', ''GroupMember.ReadWrite.All'', ''Chat.ReadWrite.All'',
     ''Device.ReadWrite.All'', ''Contacts.ReadWrite'', ''Notes.ReadWrite.All'',
     ''MailboxItem.ReadWrite.All'', ''MailboxItem.Export.All'', ''MailboxItem.ImportExport.All'',
     ''MailboxFolder.ReadWrite.All'', ''Mail-Advanced.ReadWrite.All'', EWS_FULL_ACCESS_AS_APP,
     ''User-PasswordProfile.ReadWrite.All'', ''Organization.ReadWrite.All'',
     ''Policy.ReadWrite.AuthenticationMethod'', ''RoleManagementPolicy.ReadWrite.Directory'',
     ''DelegatedPermissionGrant.ReadWrite.All'', ''Policy.ReadWrite.CrossTenantAccess'',
     ''Policy.ReadWrite.Authorization'', ''Policy.ReadWrite.ApplicationConfiguration'',
     ''Exchange.ManageAsApp'']"

definition MEDIUM_RISK_APP_PERMISSIONS :: "string list" where
  "MEDIUM_RISK_APP_PERMISSIONS =
    [''User.Read.All'', ''Group.Read.All'', ''Mail.Read'', ''Files.Read.All'', ''Sites.Read.All'',
     ''Calendars.ReadWrite'', ''Directory.Read.All'', ''Chat.Read.All'', ''Calendars.Read'',
     ''MailboxItem.Read.All'', ''MailboxFolder.Read.All'', ''Contacts.Read'', ''MailboxSettings.Read'',
     ''Notes.Read.All'', ''Device.Read.All'', ''Application.Read.All'', ''GroupMember.Read.All'',
     ''RoleManagement.Read.Directory'']"

definition HIGH_RISK_DELEGATED_PERMISSIONS :: "string list" where
  "HIGH_RISK_DELEGATED_PERMISSIONS =
    [''Directory.AccessAsUser.All'', ''user_impersonation'']"

definition RISKY_DELEGATED_SCOPE_PREFIXES :: "string list" where
  "RISKY_DELEGATED_SCOPE_PREFIXES =
    [''Mail.'', ''MailboxSettings.'', ''Files.'', ''Sites.'', ''Directory.'', ''Group.'',
     ''AppRoleAssignment.'', ''RoleManagement.'']"

definition RISKY_DELEGATED_WRITE_PREFIXES :: "string list" where
  "RISKY_DELEGATED_WRITE_PREFIXES =
    [''Application.ReadWrite.'', ''Policy.ReadWrite.'', ''UserAuthenticationMethod.ReadWrite'',
     ''GroupMember.ReadWrite.'', ''DelegatedPermissionGrant.ReadWrite.'', ''Calendars.ReadWrite'',
     ''Chat.ReadWrite'']"

definition RISKY_DELEGATED_SCOPES_EXACT :: "string list" where
  "RISKY_DELEGATED_SCOPES_EXACT =
    [''User.ReadWrite.All'']"

section \<open>Classification\<close>

definition is_selected_scope :: "string \<Rightarrow> bool" where
  "is_selected_scope scope \<longleftrightarrow> scope = SP_SITES_SELECTED \<or> ends_with scope ''.SelectedOperations.Selected''"

definition classify_app_permission_risk ::
  "resource_permission list \<Rightarrow> resource_permission list \<times> resource_permission list" where
  "classify_app_permission_risk grants =
     (filter (\<lambda>g. perm g \<in> set TIER0_APP_PERMISSIONS \<or> perm g \<in> set HIGH_RISK_APP_PERMISSIONS) grants,
      filter (\<lambda>g. perm g \<in> set MEDIUM_RISK_APP_PERMISSIONS) grants)"

definition is_risky_delegated_scope :: "string \<Rightarrow> bool" where
  "is_risky_delegated_scope scope \<longleftrightarrow>
     (if scope \<in> set HIGH_RISK_DELEGATED_PERMISSIONS then True
      else if is_selected_scope scope then False
      else scope \<in> set RISKY_DELEGATED_SCOPES_EXACT
           \<or> list_ex (starts_with scope) (RISKY_DELEGATED_SCOPE_PREFIXES @ RISKY_DELEGATED_WRITE_PREFIXES))"

definition risk_level_for_app_permission :: "string \<Rightarrow> risk_level option" where
  "risk_level_for_app_permission v =
     (if v \<in> set TIER0_APP_PERMISSIONS then Some Critical
      else if v \<in> set HIGH_RISK_APP_PERMISSIONS then Some High
      else if v \<in> set MEDIUM_RISK_APP_PERMISSIONS then Some Medium
      else None)"

definition least_privilege_alternative_for :: "string option \<Rightarrow> string \<Rightarrow> string option" where
  "least_privilege_alternative_for r v =
     (if is_sharepoint_orgwide_permission r v then Some SP_SITES_SELECTED
      else if is_files_orgwide_permission r v then Some SP_FILES_SELECTED
      else if is_scopable_exchange_resource_permission r v then Some ''Scope to specific mailboxes (Exchange RBAC)''
      else None)"

section \<open>Subsumption\<close>

definition SUBSUMED_APP_PERMISSIONS :: "(string \<times> string list) list" where
  "SUBSUMED_APP_PERMISSIONS =
    [(''Mail.Read'', [''Mail.ReadWrite'']),
     (''Mail.ReadBasic'', [''Mail.Read'', ''Mail.ReadWrite'']),
     (''Mail.ReadBasic.All'', [''Mail.Read'', ''Mail.ReadWrite'']),
     (''MailboxSettings.Read'', [''MailboxSettings.ReadWrite'']),
     (''Calendars.Read'', [''Calendars.ReadWrite'']),
     (''Calendars.ReadBasic'', [''Calendars.Read'', ''Calendars.ReadWrite'']),
     (''Contacts.Read'', [''Contacts.ReadWrite'']),
     (''Files.Read.All'', [''Files.ReadWrite.All'']),
     (''Sites.Read.All'', [''Sites.ReadWrite.All'', ''Sites.Manage.All'', ''Sites.FullControl.All'']),
     (''Sites.ReadWrite.All'', [''Sites.Manage.All'', ''Sites.FullControl.All'']),
     (''Sites.Manage.All'', [''Sites.FullControl.All'']),
     (''User.ReadBasic.All'', [''User.Read.All'', ''User.ReadWrite.All'', ''Directory.Read.All'', ''Directory.ReadWrite.All'']),
     (''User.Read.All'', [''User.ReadWrite.All'', ''Directory.Read.All'', ''Directory.ReadWrite.All'']),
     (''Group.Read.All'', [''Group.ReadWrite.All'', ''Directory.Read.All'', ''Directory.ReadWrite.All'']),
     (''GroupMember.Read.All'', [''GroupMember.ReadWrite.All'', ''Group.Read.All'', ''Group.ReadWrite.All'', ''Directory.Read.All'', ''Directory.ReadWrite.All'']),
     (''GroupMember.ReadWrite.All'', [''Group.ReadWrite.All'']),
     (''Device.Read.All'', [''Device.ReadWrite.All'', ''Directory.Read.All'', ''Directory.ReadWrite.All'']),
     (''Application.Read.All'', [''Application.ReadWrite.All'', ''Directory.Read.All'', ''Directory.ReadWrite.All'']),
     (''Application.ReadWrite.OwnedBy'', [''Application.ReadWrite.All'']),
     (''Directory.Read.All'', [''Directory.ReadWrite.All'']),
     (''RoleManagement.Read.Directory'', [''RoleManagement.ReadWrite.Directory'']),
     (''Chat.ReadBasic.All'', [''Chat.Read.All'', ''Chat.ReadWrite.All'']),
     (''Chat.Read.All'', [''Chat.ReadWrite.All'']),
     (''Notes.Read.All'', [''Notes.ReadWrite.All''])]"

definition subsuming_app_permissions :: "string \<Rightarrow> string list" where
  "subsuming_app_permissions v =
     (case List.find (\<lambda>(narrower, _). narrower = v) SUBSUMED_APP_PERMISSIONS of
        Some (_, broaders) \<Rightarrow> broaders
      | None \<Rightarrow> [])"

definition downgrade_alternatives :: "string \<Rightarrow> string list" where
  "downgrade_alternatives v =
     sort_key (\<lambda>a. length (subsuming_app_permissions a))
       (map fst (filter (\<lambda>(_, broaders). v \<in> set broaders) SUBSUMED_APP_PERMISSIONS))"

record redundant_permission =
  rp_resource_app_id :: string
  rp_perm :: string
  covered_by :: "string list"

fun redundant_loop ::
  "(string \<times> string) list \<Rightarrow> (string \<Rightarrow> bool) \<Rightarrow> (string \<times> string) list \<Rightarrow> resource_permission list
     \<Rightarrow> redundant_permission list" where
  "redundant_loop held confined examined [] = []"
| "redundant_loop held confined examined (g # gs) =
     (case resource_app_id g of
        None \<Rightarrow> redundant_loop held confined examined gs
      | Some resource \<Rightarrow>
          if (resource, perm g) \<in> set examined then redundant_loop held confined examined gs
          else let covered = filter (\<lambda>b. (resource, b) \<in> set held \<and> \<not> confined b) (subsuming_app_permissions (perm g))
               in if covered = [] then redundant_loop held confined ((resource, perm g) # examined) gs
                  else \<lparr>rp_resource_app_id = resource, rp_perm = perm g, covered_by = covered\<rparr>
                         # redundant_loop held confined ((resource, perm g) # examined) gs)"

fun held_pairs :: "resource_permission list \<Rightarrow> (string \<times> string) list" where
  "held_pairs [] = []"
| "held_pairs (g # gs) =
     (case resource_app_id g of None \<Rightarrow> held_pairs gs | Some r \<Rightarrow> (r, perm g) # held_pairs gs)"

definition redundant_app_permissions ::
  "resource_permission list \<Rightarrow> (string \<Rightarrow> bool) \<Rightarrow> redundant_permission list" where
  "redundant_app_permissions grants broader_is_confined =
     redundant_loop (held_pairs grants) broader_is_confined [] grants"

section \<open>The lists\<close>

lemma risk_lists_disjoint:
  "set TIER0_APP_PERMISSIONS \<inter> set HIGH_RISK_APP_PERMISSIONS = {}"
  "set TIER0_APP_PERMISSIONS \<inter> set MEDIUM_RISK_APP_PERMISSIONS = {}"
  "set HIGH_RISK_APP_PERMISSIONS \<inter> set MEDIUM_RISK_APP_PERMISSIONS = {}"
  by (simp_all add: TIER0_APP_PERMISSIONS_def HIGH_RISK_APP_PERMISSIONS_def MEDIUM_RISK_APP_PERMISSIONS_def
      EWS_FULL_ACCESS_AS_APP_def)

lemma tier0_not_mailbox: "v \<in> set TIER0_APP_PERMISSIONS \<Longrightarrow> \<not> mailbox_named v \<and> v \<noteq> EWS_FULL_ACCESS_AS_APP"
proof -
  have "list_all (\<lambda>v. \<not> mailbox_named v \<and> v \<noteq> EWS_FULL_ACCESS_AS_APP) TIER0_APP_PERMISSIONS"
    by (simp add: TIER0_APP_PERMISSIONS_def mailbox_named_def EWS_FULL_ACCESS_AS_APP_def)
  then show "v \<in> set TIER0_APP_PERMISSIONS \<Longrightarrow> \<not> mailbox_named v \<and> v \<noteq> EWS_FULL_ACCESS_AS_APP"
    by (auto simp: list_all_iff)
qed

section \<open>The table\<close>

lemma distinct_table: "distinct (map fst SUBSUMED_APP_PERMISSIONS)"
  by (simp add: SUBSUMED_APP_PERMISSIONS_def)

lemma find_key: "List.find (\<lambda>(a, _). a = v) xs = map_option (Pair v) (map_of xs v)"
  by (induction xs) auto

lemma subsuming_map_of:
  "subsuming_app_permissions v = (case map_of SUBSUMED_APP_PERMISSIONS v of Some bs \<Rightarrow> bs | None \<Rightarrow> [])"
  by (simp add: subsuming_app_permissions_def find_key split: option.split)

lemma subsuming_iff:
  "b \<in> set (subsuming_app_permissions v) \<longleftrightarrow> (\<exists>bs. (v, bs) \<in> set SUBSUMED_APP_PERMISSIONS \<and> b \<in> set bs)"
  using distinct_table by (auto simp: subsuming_map_of split: option.splits dest: map_of_SomeD)

text \<open>The executable check of the whole table: each row contains the rows of its broader entries.\<close>

definition table_closed :: bool where
  "table_closed \<longleftrightarrow> list_all (\<lambda>(v, bs). v \<notin> set bs \<and> distinct bs
      \<and> list_all (\<lambda>b. list_all (\<lambda>b'. b' \<in> set bs) (subsuming_app_permissions b)) bs) SUBSUMED_APP_PERMISSIONS"

lemma table_closed: table_closed
  by code_simp

lemma subsuming_trans:
  assumes "b \<in> set (subsuming_app_permissions v)" and "b' \<in> set (subsuming_app_permissions b)"
  shows "b' \<in> set (subsuming_app_permissions v)"
  using assms table_closed unfolding table_closed_def subsuming_iff [of _ v]
  by (fastforce simp: list_all_iff)

lemma subsuming_irrefl: "v \<notin> set (subsuming_app_permissions v)"
  using table_closed by (fastforce simp: table_closed_def list_all_iff subsuming_iff)

lemma distinct_subsuming: "distinct (subsuming_app_permissions v)"
  using table_closed by (fastforce simp: table_closed_def list_all_iff subsuming_map_of dest: map_of_SomeD split: option.split)

lemma subsuming_shrinks:
  assumes "b \<in> set (subsuming_app_permissions v)"
  shows "length (subsuming_app_permissions b) < length (subsuming_app_permissions v)"
proof -
  have "set (subsuming_app_permissions b) \<subset> set (subsuming_app_permissions v)"
    using assms subsuming_trans [OF assms] subsuming_irrefl [of b] by auto
  then have "card (set (subsuming_app_permissions b)) < card (set (subsuming_app_permissions v))"
    by (rule psubset_card_mono [OF finite_set])
  then show ?thesis by (simp add: distinct_card distinct_subsuming)
qed

section \<open>Redundant permissions\<close>

abbreviation rp_pair :: "redundant_permission \<Rightarrow> string \<times> string" where
  "rp_pair x \<equiv> (rp_resource_app_id x, rp_perm x)"

definition coverers :: "(string \<times> string) list \<Rightarrow> (string \<Rightarrow> bool) \<Rightarrow> string \<Rightarrow> string \<Rightarrow> string list" where
  "coverers held confined r v = filter (\<lambda>b. (r, b) \<in> set held \<and> \<not> confined b) (subsuming_app_permissions v)"

lemma held_pairs_iff: "(r, v) \<in> set (held_pairs gs) \<longleftrightarrow> \<lparr>resource_app_id = Some r, perm = v\<rparr> \<in> set gs"
proof -
  have "(r, v) \<in> set (held_pairs gs) \<longleftrightarrow> (\<exists>g \<in> set gs. resource_app_id g = Some r \<and> perm g = v)"
    by (induction gs) (auto split: option.split)
  also have "\<dots> \<longleftrightarrow> \<lparr>resource_app_id = Some r, perm = v\<rparr> \<in> set gs"
    by (metis resource_permission.cases_scheme resource_permission.select_convs(1,2) old.unit.exhaust)
  finally show ?thesis .
qed

lemma redundant_loop_iff:
  "x \<in> set (redundant_loop held confined examined gs) \<longleftrightarrow>
     rp_pair x \<in> set (held_pairs gs) - set examined
   \<and> covered_by x = coverers held confined (rp_resource_app_id x) (rp_perm x) \<and> covered_by x \<noteq> []"
proof (induction gs arbitrary: examined)
  case (Cons g gs)
  show ?case
  proof (cases "resource_app_id g")
    case None
    then show ?thesis using Cons by simp
  next
    case (Some r)
    let ?c = "coverers held confined r (perm g)" and ?new = "(r, perm g) # examined"
    have eq: "x = \<lparr>rp_resource_app_id = r, rp_perm = perm g, covered_by = ?c\<rparr> \<longleftrightarrow> rp_pair x = (r, perm g) \<and> covered_by x = ?c"
      by (cases x) auto
    have "x \<in> set (redundant_loop held confined examined (g # gs)) \<longleftrightarrow>
       (if (r, perm g) \<in> set examined then x \<in> set (redundant_loop held confined examined gs)
        else (rp_pair x = (r, perm g) \<and> covered_by x = ?c \<and> ?c \<noteq> []) \<or> x \<in> set (redundant_loop held confined ?new gs))"
      using Some by (simp add: Let_def coverers_def [symmetric] eq)
    also have "\<dots> \<longleftrightarrow> rp_pair x \<in> insert (r, perm g) (set (held_pairs gs)) - set examined
        \<and> covered_by x = coverers held confined (rp_resource_app_id x) (rp_perm x) \<and> covered_by x \<noteq> []"
      unfolding Cons by (cases "rp_pair x = (r, perm g)") auto
    finally show ?thesis using Some by simp
  qed
qed simp

lemma redundant_loop_distinct:
  "distinct (map rp_pair (redundant_loop held confined examined gs))"
proof (induction gs arbitrary: examined)
  case (Cons g gs)
  have "(r, perm g) \<notin> rp_pair ` set (redundant_loop held confined ((r, perm g) # examined) gs)" for r
    by (auto simp: redundant_loop_iff)
  then show ?case using Cons by (simp add: Let_def split: option.split)
qed simp

text \<open>Among the permissions that cover one, a least coverable one is not redundant itself.\<close>

lemma maximal_coverer:
  assumes "b \<in> set (coverers held confined r v)"
  shows "\<exists>m \<in> set (coverers held confined r v). coverers held confined r m = []"
  using assms
proof (induction "length (subsuming_app_permissions b)" arbitrary: b rule: less_induct)
  case less
  show ?case
  proof (cases "coverers held confined r b")
    case Nil
    then show ?thesis using less(2) by blast
  next
    case (Cons b' bs)
    then have b': "b' \<in> set (coverers held confined r b)" by simp
    have "b' \<in> set (subsuming_app_permissions b)" using b' by (simp add: coverers_def)
    moreover have "b \<in> set (subsuming_app_permissions v)" using less(2) by (simp add: coverers_def)
    ultimately have "b' \<in> set (subsuming_app_permissions v)" using subsuming_trans by blast
    with b' have "b' \<in> set (coverers held confined r v)" by (simp add: coverers_def)
    then show ?thesis
      using less(1) [OF subsuming_shrinks [OF \<open>b' \<in> set (subsuming_app_permissions b)\<close>]] by blast
  qed
qed

section \<open>Properties\<close>

text \<open>The subsumption table is a strict partial order given by its full transitive closure, and
  \<open>downgrade_alternatives\<close> is exactly its inverse, closest tiers first.\<close>

theorem subsumption_strict_order:
  "v \<notin> set (subsuming_app_permissions v)
   \<and> (b \<in> set (subsuming_app_permissions v) \<longrightarrow> c \<in> set (subsuming_app_permissions b) \<longrightarrow>
        c \<in> set (subsuming_app_permissions v))
   \<and> (v \<in> set (downgrade_alternatives b) \<longleftrightarrow> b \<in> set (subsuming_app_permissions v))
   \<and> sorted (map (\<lambda>a. length (subsuming_app_permissions a)) (downgrade_alternatives b))"
proof -
  have "v \<in> fst ` set (filter (\<lambda>(_, bs). b \<in> set bs) SUBSUMED_APP_PERMISSIONS) \<longleftrightarrow> b \<in> set (subsuming_app_permissions v)"
    unfolding subsuming_iff by force
  then show ?thesis
    using subsuming_irrefl [of v] subsuming_trans [of b v c] by (simp add: downgrade_alternatives_def)
qed

theorem subsumption_strict_order_witness:
  "''Sites.FullControl.All'' \<in> set (subsuming_app_permissions ''Sites.Read.All'')"
proof -
  have "''Sites.Manage.All'' \<in> set (subsuming_app_permissions ''Sites.Read.All'')"
    "''Sites.FullControl.All'' \<in> set (subsuming_app_permissions ''Sites.Manage.All'')"
    by code_simp+
  with subsumption_strict_order [of "''Sites.Read.All''" "''Sites.Manage.All''" "''Sites.FullControl.All''"]
  show ?thesis by blast
qed

text \<open>\<open>redundant_app_permissions\<close> reports exactly the held permissions that an unconfined held
  permission of the same resource covers, each \<open>(resource, value)\<close> pair once, with exactly the
  permissions that cover it; an unresolved resource is never paired.\<close>

theorem redundant_permissions_exact:
  "(x \<in> set (redundant_app_permissions grants confined) \<longleftrightarrow>
      \<lparr>resource_app_id = Some (rp_resource_app_id x), perm = rp_perm x\<rparr> \<in> set grants
    \<and> covered_by x = filter (\<lambda>b. \<lparr>resource_app_id = Some (rp_resource_app_id x), perm = b\<rparr> \<in> set grants \<and> \<not> confined b)
                       (subsuming_app_permissions (rp_perm x))
    \<and> covered_by x \<noteq> [])
   \<and> distinct (map (\<lambda>y. (rp_resource_app_id y, rp_perm y)) (redundant_app_permissions grants confined))"
  using redundant_loop_distinct [of "held_pairs grants" confined "[]" grants]
  by (auto simp: redundant_app_permissions_def redundant_loop_iff held_pairs_iff coverers_def)

text \<open>C27: the one-click removal is safe even when every reported permission goes at once: each of
  them is covered, on its own resource, by a held and unconfined permission that is not itself
  reported, hence stays.\<close>

theorem removing_all_redundant_keeps_access:
  assumes "x \<in> set (redundant_app_permissions grants confined)"
  shows "\<exists>m \<in> set (covered_by x). m \<in> set (subsuming_app_permissions (rp_perm x))
    \<and> \<lparr>resource_app_id = Some (rp_resource_app_id x), perm = m\<rparr> \<in> set grants \<and> \<not> confined m
    \<and> (\<forall>y \<in> set (redundant_app_permissions grants confined).
         (rp_resource_app_id y, rp_perm y) \<noteq> (rp_resource_app_id x, m))"
proof -
  let ?cov = "coverers (held_pairs grants) confined"
  have x: "covered_by x = ?cov (rp_resource_app_id x) (rp_perm x)" "covered_by x \<noteq> []"
    using assms by (auto simp: redundant_app_permissions_def redundant_loop_iff)
  then obtain b where "b \<in> set (?cov (rp_resource_app_id x) (rp_perm x))" by (metis list.set_intros(1) neq_Nil_conv)
  from maximal_coverer [OF this] obtain m where m: "m \<in> set (covered_by x)" "?cov (rp_resource_app_id x) m = []"
    using x(1) by auto
  have "rp_pair y \<noteq> (rp_resource_app_id x, m)" if "y \<in> set (redundant_app_permissions grants confined)" for y
    using that m(2) by (auto simp: redundant_app_permissions_def redundant_loop_iff)
  with m(1) x(1) show ?thesis by (intro bexI [of _ m]) (auto simp: coverers_def held_pairs_iff)
qed

theorem removing_all_redundant_keeps_access_witness:
  "\<exists>m. \<lparr>resource_app_id = Some ''r'', perm = m\<rparr>
         \<in> set [on_resource ''r'' ''Mail.ReadBasic'', on_resource ''r'' ''Mail.Read'', on_resource ''r'' ''Mail.ReadWrite'']
     \<and> m \<in> set (subsuming_app_permissions ''Mail.ReadBasic'')"
proof -
  let ?gs = "[on_resource ''r'' ''Mail.ReadBasic'', on_resource ''r'' ''Mail.Read'', on_resource ''r'' ''Mail.ReadWrite'']"
  let ?x = "\<lparr>rp_resource_app_id = ''r'', rp_perm = ''Mail.ReadBasic'', covered_by = [''Mail.Read'', ''Mail.ReadWrite'']\<rparr>"
  have "redundant_app_permissions ?gs (\<lambda>_. False) =
      [?x, \<lparr>rp_resource_app_id = ''r'', rp_perm = ''Mail.Read'', covered_by = [''Mail.ReadWrite'']\<rparr>]"
    by code_simp
  then have "?x \<in> set (redundant_app_permissions ?gs (\<lambda>_. False))" by simp
  from removing_all_redundant_keeps_access [OF this] show ?thesis by auto
qed

text \<open>the three application-permission tiers are disjoint and agree with the two classifiers:
  \<open>risk_level_for_app_permission\<close> names the one tier a permission is in, a held grant is a high hit
  exactly when that level is High or Critical and a medium hit exactly when it is Medium, and no
  tier-0 permission can be hidden behind a mailbox scope.\<close>

theorem permission_tiers_consistent:
  "(g \<in> set (fst (classify_app_permission_risk grants)) \<longleftrightarrow>
      g \<in> set grants \<and> risk_level_for_app_permission (perm g) \<in> {Some High, Some Critical})
   \<and> (g \<in> set (snd (classify_app_permission_risk grants)) \<longleftrightarrow>
      g \<in> set grants \<and> risk_level_for_app_permission (perm g) = Some Medium)
   \<and> (risk_level_for_app_permission (perm g) = Some Critical \<longrightarrow> \<not> is_scoped perms g)"
proof -
  have "\<not> is_scoped perms g" if "perm g \<in> set TIER0_APP_PERMISSIONS"
  proof
    assume "is_scoped perms g"
    then have "is_scopable_exchange_resource_permission (resource_app_id g) (perm g)" by (rule scope_mechanism_scopable)
    then have "mailbox_named (perm g) \<or> perm g = EWS_FULL_ACCESS_AS_APP"
      using graph_mail_role_named [of "perm g"]
      by (auto simp: is_scopable_exchange_resource_permission_def exchange_role_for_resource_permission_def
          split: option.splits if_splits)
    with tier0_not_mailbox [OF that] show False by blast
  qed
  then show ?thesis
    using risk_lists_disjoint by (auto simp: classify_app_permission_risk_def risk_level_for_app_permission_def)
qed

theorem permission_tiers_consistent_witness:
  "\<forall>perms. \<not> is_scoped perms (graph ''AppRoleAssignment.ReadWrite.All'')"
proof -
  have "risk_level_for_app_permission (perm (graph ''AppRoleAssignment.ReadWrite.All'')) = Some Critical"
    by (simp add: risk_level_for_app_permission_def graph_def TIER0_APP_PERMISSIONS_def)
  with permission_tiers_consistent [of "graph ''AppRoleAssignment.ReadWrite.All''" "[]"] show ?thesis by blast
qed

end
