(* ===== verification/Audit_Credentials.thy ===== *)
theory Audit_Credentials
  imports Audit_Permissions
begin

text \<open>
  Credential summaries and the lifetime advisories:
  \<^verbatim>\<open>crates/azapptoolkit-core/src/audit/credentials.rs\<close>, with the app-management policy records of
  \<^verbatim>\<open>models.rs\<close>.  \<open>i64\<close> day counts are \<^typ>\<open>int\<close>; the one unchecked \<open>i64\<close> addition (in
  \<open>iso_duration_days\<close>) is written out as the two's-complement wrap of the release build.
\<close>

section \<open>Summaries\<close>

definition summarize_password :: "datetime \<Rightarrow> password_credential \<Rightarrow> credential_summary" where
  "summarize_password now p =
     (let days = map_option (\<lambda>e. num_days (e - now)) (pc_end_date_time p)
      in \<lparr>cs_name = (case pc_display_name p of Some n \<Rightarrow> n | None \<Rightarrow> em_dash), cs_kind = Secret,
          cs_start_date_time = pc_start_date_time p, cs_end_date_time = pc_end_date_time p,
          days_to_expiry = days, cs_status = from_days_to_expiry days\<rparr>)"

definition summarize_key :: "datetime \<Rightarrow> key_credential \<Rightarrow> credential_summary" where
  "summarize_key now k =
     (let days = map_option (\<lambda>e. num_days (e - now)) (kc_end_date_time k)
      in \<lparr>cs_name = (case kc_display_name k of Some n \<Rightarrow> n | None \<Rightarrow> em_dash), cs_kind = Certificate,
          cs_start_date_time = kc_start_date_time k, cs_end_date_time = kc_end_date_time k,
          days_to_expiry = days, cs_status = from_days_to_expiry days\<rparr>)"

definition summarize_credentials :: "application \<Rightarrow> datetime \<Rightarrow> credential_summary list \<times> credential_summary list" where
  "summarize_credentials app now =
     (map (summarize_password now) (password_credentials app), map (summarize_key now) (key_credentials app))"

definition is_expired :: "datetime option \<Rightarrow> datetime \<Rightarrow> bool" where
  "is_expired end_date now \<longleftrightarrow> (case end_date of Some e \<Rightarrow> num_days (e - now) < 0 | None \<Rightarrow> False)"

definition expired_password_key_ids :: "application \<Rightarrow> datetime \<Rightarrow> string list" where
  "expired_password_key_ids app now =
     map pc_key_id (filter (\<lambda>c. is_expired (pc_end_date_time c) now) (password_credentials app))"

definition overall_credential_status :: "credential_summary list \<Rightarrow> credential_status" where
  "overall_credential_status all =
     (if all = [] then Unknown
      else if list_ex (\<lambda>c. cs_status c = Expired) all then Expired
      else if list_ex (\<lambda>c. cs_status c = ExpiringSoon) all then ExpiringSoon
      else if list_all (\<lambda>c. cs_status c = Unknown) all then Unknown
      else Active)"

definition is_long_lived :: "credential_summary \<Rightarrow> bool" where
  "is_long_lived c \<longleftrightarrow>
     (case (cs_start_date_time c, cs_end_date_time c) of
        (Some s, Some e) \<Rightarrow> num_days (e - s) > LONG_LIVED_SECRET_DAYS + 1
      | (Some _, None) \<Rightarrow> True
      | _ \<Rightarrow> False)"

section \<open>Unused applications and credentials\<close>

datatype sign_in_status = Unavailable | NoneRecorded | SignInLastSeen datetime

definition unused_rec :: string where
  "unused_rec = ''Confirm the application is still needed; disable or delete it if not''"

definition unused_app_advisory ::
  "sign_in_status \<Rightarrow> datetime option \<Rightarrow> datetime \<Rightarrow> (string \<times> string) option" where
  "unused_app_advisory status created now =
     (case status of
        Unavailable \<Rightarrow> None
      | SignInLastSeen dt \<Rightarrow>
          (let days = num_days (now - dt)
           in if days > UNUSED_APP_DAYS
              then Some (''No sign-in for '' @ show_int days @ '' days '' @ em_dash @ '' application may be unused'', unused_rec)
              else None)
      | NoneRecorded \<Rightarrow>
          if (case created of Some c \<Rightarrow> num_days (now - c) > UNUSED_APP_DAYS | None \<Rightarrow> False)
          then Some (''No sign-in activity recorded '' @ em_dash @ '' application may be unused'', unused_rec)
          else None)"

datatype credential_activity = ActivityUnknown | Never | LastSeen datetime

fun stale_loop :: "datetime \<Rightarrow> (string \<times> credential_activity \<times> datetime option) list \<Rightarrow> string list" where
  "stale_loop now [] = []"
| "stale_loop now ((label, activity, start) # creds) =
     (let old_enough = (case start of Some s \<Rightarrow> num_days (now - s) > UNUSED_CREDENTIAL_DAYS | None \<Rightarrow> False)
      in if \<not> old_enough then stale_loop now creds
         else (case activity of
                 ActivityUnknown \<Rightarrow> stale_loop now creds
               | Never \<Rightarrow> (label @ '' (no use recorded)'') # stale_loop now creds
               | LastSeen dt \<Rightarrow>
                   (let days = num_days (now - dt)
                    in if days > UNUSED_CREDENTIAL_DAYS
                       then (label @ '' (last used '' @ show_int days @ '' days ago)'') # stale_loop now creds
                       else stale_loop now creds)))"

definition shown_names :: "string list \<Rightarrow> string" where
  "shown_names names =
     (if length names > 3 then join '', '' (take 3 names) @ '' and '' @ show_nat (length names - 3) @ '' more''
      else join '', '' names)"

definition unused_credential_advisory ::
  "(string \<times> credential_activity \<times> datetime option) list \<Rightarrow> datetime \<Rightarrow> (string \<times> string) option" where
  "unused_credential_advisory creds now =
     (let stale = stale_loop now creds
      in if stale = [] then None
         else Some (UNUSED_CREDENTIAL @ '' '' @ shown_names stale @ '' '' @ em_dash
                      @ '' no sign-in activity for over '' @ show_int UNUSED_CREDENTIAL_DAYS @ '' days'',
                    ''Confirm each is still needed; remove or rotate the unused ones''))"

section \<open>Policy caps\<close>

definition parse_i64 :: "string \<Rightarrow> int option" where
  "parse_i64 digits = (if digits = [] then None else map_option int (parse_digits (2 ^ 63) 0 digits))"

fun duration_pairs :: "string \<Rightarrow> string \<Rightarrow> (int \<times> char) list option" where
  "duration_pairs digits [] = (if digits \<noteq> [] then None else Some [])"
| "duration_pairs digits (c # cs) =
     (if is_digit c then duration_pairs (digits @ [c]) cs
      else case parse_i64 digits of
             None \<Rightarrow> None
           | Some n \<Rightarrow> map_option ((#) (n, c)) (duration_pairs [] cs))"

definition wrap_i64 :: "int \<Rightarrow> int" where
  "wrap_i64 x = (x + 2 ^ 63) mod 2 ^ 64 - 2 ^ 63"

fun sum_days :: "int \<Rightarrow> (int \<times> char) list \<Rightarrow> int option" where
  "sum_days days [] = Some days"
| "sum_days days ((n, u) # ps) =
     (if u = CHR ''Y'' \<or> u = CHR ''M'' then None
      else if u = CHR ''W'' then (if 2 ^ 63 \<le> n * 7 then None else sum_days (wrap_i64 (days + n * 7)) ps)
      else if u = CHR ''D'' then sum_days (wrap_i64 (days + n)) ps
      else None)"

definition iso_duration_days :: "string \<Rightarrow> int option" where
  "iso_duration_days s =
     (case trim s of
        [] \<Rightarrow> None
      | p # rest \<Rightarrow>
          if p \<noteq> CHR ''P'' then None
          else if rest = [] then None
          else let date_part = (case split_once (CHR ''T'') rest of Some (d, t) \<Rightarrow> d | None \<Rightarrow> rest)
               in case Option.bind (duration_pairs [] date_part) (sum_days 0) of
                    None \<Rightarrow> None
                  | Some days \<Rightarrow> if days > 0 then Some days else None)"

record credential_restriction =
  restriction_type :: "string option"
  restriction_state :: "string option"
  max_lifetime :: "string option"
  restrict_for_apps_created_after_date_time :: "datetime option"

datatype app_management_configuration =
  AppManagementConfiguration (amc_key_credentials: "credential_restriction list")
    (amc_password_credentials: "credential_restriction list")
    (amc_application_restrictions: "app_management_configuration option")

definition password_entries :: "app_management_configuration \<Rightarrow> credential_restriction list" where
  "password_entries c =
     amc_password_credentials c
     @ (case amc_application_restrictions c of Some nested \<Rightarrow> amc_password_credentials nested | None \<Rightarrow> [])"

record tenant_app_management_policy =
  tp_id :: string
  tp_display_name :: "string option"
  tp_is_enabled :: bool
  tp_application_restrictions :: "app_management_configuration option"

record policy_subject_ref =
  psr_id :: string
  psr_odata_type :: "string option"

record app_management_policy =
  mp_id :: string
  mp_display_name :: string
  mp_is_enabled :: bool
  mp_restrictions :: "app_management_configuration option"
  mp_applies_to :: "policy_subject_ref list"

datatype entry_cap_kind = Irrelevant | UnknownCap | Cap int

definition entry_cap :: "credential_restriction \<Rightarrow> datetime option \<Rightarrow> entry_cap_kind" where
  "entry_cap e created =
     (if restriction_state e \<noteq> Some ''enabled'' \<or> restriction_type e \<noteq> Some ''passwordLifetime'' then Irrelevant
      else case Option.bind (max_lifetime e) iso_duration_days of
             None \<Rightarrow> UnknownCap
           | Some cap \<Rightarrow>
               (case restrict_for_apps_created_after_date_time e of
                  None \<Rightarrow> Cap cap
                | Some gate \<Rightarrow>
                    (case created of
                       Some c \<Rightarrow> if c > gate then Cap cap else Irrelevant
                     | None \<Rightarrow> UnknownCap)))"

fun collect_caps :: "datetime option \<Rightarrow> credential_restriction list \<Rightarrow> int list option" where
  "collect_caps created [] = Some []"
| "collect_caps created (e # es) =
     (case entry_cap e created of
        Irrelevant \<Rightarrow> collect_caps created es
      | UnknownCap \<Rightarrow> None
      | Cap c \<Rightarrow> map_option ((#) c) (collect_caps created es))"

definition list_min :: "int list \<Rightarrow> int option" where
  "list_min xs = (case xs of [] \<Rightarrow> None | y # ys \<Rightarrow> Some (fold min ys y))"

definition min_cap :: "credential_restriction list \<Rightarrow> datetime option \<Rightarrow> int option" where
  "min_cap entries created = Option.bind (collect_caps created entries) list_min"

definition enforced_secret_max_days ::
  "app_management_policy option \<Rightarrow> tenant_app_management_policy option \<Rightarrow> datetime option \<Rightarrow> int option" where
  "enforced_secret_max_days custom dflt created =
     (case (case (custom, dflt) of
              (Some c, _) \<Rightarrow> Some (mp_is_enabled c, mp_restrictions c)
            | (None, Some d) \<Rightarrow> Some (tp_is_enabled d, tp_application_restrictions d)
            | (None, None) \<Rightarrow> None) of
        None \<Rightarrow> None
      | Some (enabled, restrictions) \<Rightarrow>
          if \<not> enabled then None
          else Option.bind restrictions (\<lambda>r. min_cap (password_entries r) created))"

fun tenant_caps :: "credential_restriction list \<Rightarrow> int list option" where
  "tenant_caps [] = Some []"
| "tenant_caps (e # es) =
     (if restriction_state e \<noteq> Some ''enabled'' \<or> restriction_type e \<noteq> Some ''passwordLifetime'' then tenant_caps es
      else case Option.bind (max_lifetime e) iso_duration_days of
             None \<Rightarrow> None
           | Some c \<Rightarrow> map_option ((#) c) (tenant_caps es))"

definition tenant_secret_max_days :: "tenant_app_management_policy option \<Rightarrow> int option" where
  "tenant_secret_max_days dflt =
     (case dflt of
        None \<Rightarrow> None
      | Some d \<Rightarrow>
          if \<not> tp_is_enabled d then None
          else Option.bind (tp_application_restrictions d) (\<lambda>r. Option.bind (tenant_caps (password_entries r)) list_min))"

definition credential_over_cap :: "datetime option \<Rightarrow> datetime option \<Rightarrow> int \<Rightarrow> bool" where
  "credential_over_cap end_date start cap_days \<longleftrightarrow>
     (case (end_date, start) of
        (None, _) \<Rightarrow> True
      | (Some e, Some s) \<Rightarrow> num_days (e - s) > cap_days
      | (Some _, None) \<Rightarrow> False)"

fun over_cap_loop :: "int \<Rightarrow> (string \<times> datetime option \<times> datetime option) list \<Rightarrow> string list" where
  "over_cap_loop cap_days [] = []"
| "over_cap_loop cap_days ((label, end_date, start) # creds) =
     (if \<not> credential_over_cap end_date start cap_days then over_cap_loop cap_days creds
      else (case (end_date, start) of
              (None, _) \<Rightarrow> (label @ '' (no expiry)'') # over_cap_loop cap_days creds
            | (Some e, Some s) \<Rightarrow>
                (label @ '' ('' @ show_int (num_days (e - s)) @ ''-day lifetime)'') # over_cap_loop cap_days creds
            | (Some _, None) \<Rightarrow> over_cap_loop cap_days creds))"

definition secret_lifetime_advisory ::
  "(string \<times> datetime option \<times> datetime option) list \<Rightarrow> int \<Rightarrow> string option" where
  "secret_lifetime_advisory creds cap_days =
     (let over = over_cap_loop cap_days creds
      in if over = [] then None
         else Some (''Policy caps secret lifetimes at '' @ show_int cap_days
                    @ '' days; shorten or rotate: '' @ shown_names over))"

fun sign_in_status_from :: "datetime option option \<Rightarrow> sign_in_status" where
  "sign_in_status_from None = Unavailable"
| "sign_in_status_from (Some None) = NoneRecorded"
| "sign_in_status_from (Some (Some dt)) = SignInLastSeen dt"

section \<open>Lemmas\<close>

lemma status_expired_iff:
  "from_days_to_expiry (map_option (\<lambda>e. num_days (e - now)) end_date) = Expired \<longleftrightarrow> is_expired end_date now"
  by (auto simp: from_days_to_expiry_def is_expired_def split: option.split)

lemma is_expired_iff: "is_expired end_date now \<longleftrightarrow> (\<exists>e. end_date = Some e \<and> e + NANOS_PER_DAY \<le> now)"
  by (auto simp: is_expired_def num_days_neg_iff split: option.split)

lemma summary_expired:
  "cs_status (summarize_password now p) = Expired \<longleftrightarrow> is_expired (pc_end_date_time p) now"
  "cs_status (summarize_key now k) = Expired \<longleftrightarrow> is_expired (kc_end_date_time k) now"
  using status_expired_iff by (simp_all add: summarize_password_def summarize_key_def Let_def)

lemma overall_expired_iff: "overall_credential_status cs = Expired \<longleftrightarrow> (\<exists>c \<in> set cs. cs_status c = Expired)"
  by (auto simp: overall_credential_status_def list_ex_iff)

lemma duration_pairs_digits:
  "list_all is_digit ds \<Longrightarrow> duration_pairs acc (ds @ cs) = duration_pairs (acc @ ds) cs"
  by (induction ds arbitrary: acc) auto

lemma digits_no_T: "list_all is_digit ds \<Longrightarrow> CHR ''T'' \<notin> set ds"
  by (auto simp: list_all_iff is_digit_def)

lemma parse_i64_show: "n < 2 ^ 63 \<Longrightarrow> parse_i64 (show_nat n) = Some (int n)"
  using show_nat_digits [of n] parse_digits_show [of "2 ^ 63" n] by (simp add: parse_i64_def)

lemma list_min_spec: "list_min xs = Some m \<Longrightarrow> m \<in> set xs \<and> (\<forall>x \<in> set xs. m \<le> x)"
proof -
  have "fold min ys y \<in> set (y # ys) \<and> (\<forall>x \<in> set (y # ys). fold min ys y \<le> x)" for ys and y :: int
    by (induction ys arbitrary: y) (auto simp: min_def split: if_splits, force+)
  then show "list_min xs = Some m \<Longrightarrow> m \<in> set xs \<and> (\<forall>x \<in> set xs. m \<le> x)"
    by (auto simp: list_min_def split: list.splits)
qed

lemma collect_caps_spec:
  assumes "collect_caps created es = Some caps"
  shows "(\<forall>e \<in> set es. entry_cap e created \<noteq> UnknownCap) \<and> (\<forall>c. c \<in> set caps \<longleftrightarrow> (\<exists>e \<in> set es. entry_cap e created = Cap c))"
  using assms by (induction es arbitrary: caps) (auto split: entry_cap_kind.splits)

lemma min_cap_spec:
  assumes "min_cap es created = Some d"
  shows "(\<exists>e \<in> set es. entry_cap e created = Cap d) \<and> (\<forall>e \<in> set es. \<forall>c. entry_cap e created = Cap c \<longrightarrow> d \<le> c)
    \<and> (\<forall>e \<in> set es. entry_cap e created \<noteq> UnknownCap)"
proof -
  obtain caps where "collect_caps created es = Some caps" "list_min caps = Some d"
    using assms by (auto simp: min_cap_def bind_eq_Some_conv)
  then show ?thesis using collect_caps_spec list_min_spec by metis
qed

lemma over_cap_loop_empty: "over_cap_loop cap creds = [] \<longleftrightarrow> (\<forall>(l, e, s) \<in> set creds. \<not> credential_over_cap e s cap)"
proof (induction creds)
  case (Cons x creds)
  obtain l e s where "x = (l, e, s)" by (cases x) auto
  with Cons show ?case by (cases e; cases s) (simp_all add: credential_over_cap_def)
qed simp

lemma image_member: "(\<And>e. f e = a \<longleftrightarrow> Q e) \<Longrightarrow> a \<in> set (map f xs) \<longleftrightarrow> (\<exists>e \<in> set xs. Q e)"
  by (simp add: image_iff) metis

lemma two_image_members:
  "(\<And>e. f e = a \<or> f e = b \<longleftrightarrow> Q e) \<Longrightarrow> a \<in> set (map f xs) \<or> b \<in> set (map f xs) \<longleftrightarrow> (\<exists>e \<in> set xs. Q e)"
  by (simp add: image_iff) metis

section \<open>Properties\<close>

text \<open>one definition of expired.  A credential counts as expired exactly when its end date is at
  least one whole day past; the removal paths' \<open>expired_password_key_ids\<close> are, in order, exactly the
  secrets whose audit summary says Expired; and the application's overall status is Expired exactly
  when some secret or certificate is.\<close>

theorem expired_sets_agree:
  "expired_password_key_ids app now =
     map (pc_key_id \<circ> fst) (filter (\<lambda>(p, c). cs_status c = Expired)
       (zip (password_credentials app) (fst (summarize_credentials app now))))
   \<and> (is_expired end_date now \<longleftrightarrow> (\<exists>e. end_date = Some e \<and> e + NANOS_PER_DAY \<le> now))
   \<and> (overall_credential_status (fst (summarize_credentials app now) @ snd (summarize_credentials app now)) = Expired
      \<longleftrightarrow> (\<exists>i. i \<in> set (expired_password_key_ids app now))
         \<or> (\<exists>k \<in> set (key_credentials app). is_expired (kc_end_date_time k) now))"
proof -
  have "map pc_key_id (filter (\<lambda>c. is_expired (pc_end_date_time c) now) ps) =
     map (pc_key_id \<circ> fst) (filter (\<lambda>(p, c). cs_status c = Expired) (zip ps (map (summarize_password now) ps)))" for ps
    by (induction ps) (simp_all add: summary_expired)
  moreover have "overall_credential_status (fst (summarize_credentials app now) @ snd (summarize_credentials app now)) = Expired
      \<longleftrightarrow> expired_password_key_ids app now \<noteq> [] \<or> (\<exists>k \<in> set (key_credentials app). is_expired (kc_end_date_time k) now)"
    by (simp add: overall_expired_iff summarize_credentials_def expired_password_key_ids_def filter_empty_conv
        bex_Un summary_expired)
  moreover have "expired_password_key_ids app now \<noteq> [] \<longleftrightarrow> (\<exists>i. i \<in> set (expired_password_key_ids app now))"
    by (simp only: ex_in_conv set_empty simp_thms)
  ultimately show ?thesis
    unfolding expired_password_key_ids_def summarize_credentials_def is_expired_iff [of end_date] fst_conv snd_conv by blast
qed

definition audit_statuses :: "password_credential list \<Rightarrow> key_credential list \<Rightarrow> datetime \<Rightarrow> credential_status list" where
  "audit_statuses passwords certs now =
     map (cs_status \<circ> summarize_password now) passwords @ map (cs_status \<circ> summarize_key now) certs"

text \<open>the list view's credential lens against the audit's statuses: no credential at all reads
  \<open>none\<close>; one active or undated credential is enough for \<open>active\<close>; otherwise one expiring soon gives
  \<open>expiring\<close>; and \<open>expired\<close> means every credential is Expired.\<close>

theorem list_lens_matches_statuses:
  "classify passwords certs now =
    (if audit_statuses passwords certs now = [] then List_None
     else if Active \<in> set (audit_statuses passwords certs now) \<or> Unknown \<in> set (audit_statuses passwords certs now) then List_Active
     else if ExpiringSoon \<in> set (audit_statuses passwords certs now) then List_Expiring
     else List_Expired)"
proof -
  let ?ends = "map pc_end_date_time passwords @ map kc_end_date_time certs"
  let ?st = "\<lambda>e. from_days_to_expiry (map_option (\<lambda>d. num_days (d - now)) e)"
  have stats: "audit_statuses passwords certs now = map ?st ?ends"
    by (simp add: audit_statuses_def summarize_password_def summarize_key_def comp_def Let_def)
  have active: "Active \<in> set (map ?st ?ends) \<or> Unknown \<in> set (map ?st ?ends) \<longleftrightarrow>
      (\<exists>e \<in> set ?ends. case e of None \<Rightarrow> True | Some d \<Rightarrow> num_days (d - now) > EXPIRY_WARNING_DAYS)"
  proof -
    have "?st e = Active \<or> ?st e = Unknown \<longleftrightarrow>
        (case e of None \<Rightarrow> True | Some d \<Rightarrow> num_days (d - now) > EXPIRY_WARNING_DAYS)" for e
      by (auto simp: from_days_to_expiry_def EXPIRY_WARNING_DAYS_def split: option.split)
    then show ?thesis by (rule two_image_members)
  qed
  have soon: "ExpiringSoon \<in> set (map ?st ?ends) \<longleftrightarrow>
      (\<exists>e \<in> set ?ends. case e of None \<Rightarrow> False | Some d \<Rightarrow> 0 \<le> num_days (d - now) \<and> num_days (d - now) \<le> EXPIRY_WARNING_DAYS)"
  proof -
    have "?st e = ExpiringSoon \<longleftrightarrow>
        (case e of None \<Rightarrow> False | Some d \<Rightarrow> 0 \<le> num_days (d - now) \<and> num_days (d - now) \<le> EXPIRY_WARNING_DAYS)" for e
      by (auto simp: from_days_to_expiry_def split: option.split)
    then show ?thesis by (rule image_member)
  qed
  have "classify passwords certs now =
    (if ?ends = [] then List_None
     else if Active \<in> set (map ?st ?ends) \<or> Unknown \<in> set (map ?st ?ends) then List_Active
     else if ExpiringSoon \<in> set (map ?st ?ends) then List_Expiring
     else List_Expired)"
    unfolding active soon by (simp add: classify_def classify_loop_flags)
  then show ?thesis unfolding stats by simp
qed

text \<open>the policy's secret-lifetime cap.  A per-app policy replaces the tenant default entirely;
  a cap that is returned is the smallest one among the enforced lifetime entries that cover the app,
  and one enforced entry that cannot be resolved makes the answer unknown, never a number.\<close>

theorem enforced_cap_is_minimum:
  assumes "enforced_secret_max_days custom dflt created = Some d"
  shows "\<exists>r. (case custom of Some c \<Rightarrow> mp_is_enabled c \<and> mp_restrictions c = Some r
              | None \<Rightarrow> (\<exists>t. dflt = Some t \<and> tp_is_enabled t \<and> tp_application_restrictions t = Some r))
        \<and> (\<exists>e \<in> set (password_entries r). entry_cap e created = Cap d)
        \<and> (\<forall>e \<in> set (password_entries r). entry_cap e created \<noteq> UnknownCap
             \<and> (\<forall>c. entry_cap e created = Cap c \<longrightarrow> d \<le> c))"
proof -
  obtain r where r: "case custom of Some c \<Rightarrow> mp_is_enabled c \<and> mp_restrictions c = Some r
              | None \<Rightarrow> (\<exists>t. dflt = Some t \<and> tp_is_enabled t \<and> tp_application_restrictions t = Some r)"
    and m: "min_cap (password_entries r) created = Some d"
    using assms by (auto simp: enforced_secret_max_days_def bind_eq_Some_conv split: option.splits if_splits)
  then show ?thesis using min_cap_spec [OF m] by (intro exI [of _ r]) blast
qed

definition example_entry :: "string \<Rightarrow> credential_restriction" where
  "example_entry life = \<lparr>restriction_type = Some ''passwordLifetime'', restriction_state = Some ''enabled'',
     max_lifetime = Some life, restrict_for_apps_created_after_date_time = None\<rparr>"

definition example_policy :: tenant_app_management_policy where
  "example_policy = \<lparr>tp_id = ''p'', tp_display_name = None, tp_is_enabled = True,
     tp_application_restrictions = Some (AppManagementConfiguration [] [example_entry ''P2W'', example_entry ''P90D''] None)\<rparr>"

theorem enforced_cap_is_minimum_witness:
  "enforced_secret_max_days None (Some example_policy) None = Some 14
   \<and> (\<exists>r. tp_application_restrictions example_policy = Some r \<and> (\<exists>e \<in> set (password_entries r). entry_cap e None = Cap 14))"
proof -
  have "enforced_secret_max_days None (Some example_policy) None = Some 14"
    by (simp add: example_policy_def example_entry_def enforced_secret_max_days_def min_cap_def password_entries_def
        entry_cap_def iso_duration_days_def trim_def solid_def is_space_def is_digit_def digit_value_def parse_i64_def
        wrap_i64_def list_min_def)
  from this enforced_cap_is_minimum [OF this] show ?thesis by auto
qed

text \<open>The ISO 8601 reader: a positive number of days or weeks printed by Graph is read back
  exactly whenever it fits an \<open>i64\<close>, while years, months, sub-day durations and malformed text are
  unknown.\<close>

theorem iso_duration_roundtrip:
  assumes "0 < n" and "7 * n < 2 ^ 63"
  shows "iso_duration_days (''P'' @ show_nat n @ ''D'') = Some (int n)
    \<and> iso_duration_days (''P'' @ show_nat n @ ''W'') = Some (7 * int n)
    \<and> iso_duration_days (''P'' @ show_nat n @ ''DT12H'') = Some (int n)
    \<and> iso_duration_days (''P'' @ show_nat n @ ''Y'') = None \<and> iso_duration_days (''P'' @ show_nat n @ ''M'') = None
    \<and> iso_duration_days (''PT'' @ show_nat n @ ''H'') = None"
proof -
  note ds = show_nat_digits [of n]
  have n: "n < 2 ^ 63" using assms(2) by simp
  have pairs: "duration_pairs [] (show_nat n @ [u]) = Some [(int n, u)]" if "\<not> is_digit u" for u
    using that ds parse_i64_show [OF n] by (simp add: duration_pairs_digits)
  have fits: "wrap_i64 (int n) = int n" "wrap_i64 (7 * int n) = 7 * int n" "\<not> 2 ^ 63 \<le> int n * 7"
    using assms(2) n by (simp_all add: wrap_i64_def)
  have noT: "split_once (CHR ''T'') (show_nat n @ [u]) = None" if "u \<noteq> CHR ''T''" for u
    using that digits_no_T ds by (intro split_once_absent) auto
  have withT: "split_once (CHR ''T'') (show_nat n @ CHR ''D'' # CHR ''T'' # t) = Some (show_nat n @ ''D'', t)" for t
  proof -
    have "CHR ''T'' \<notin> set xs \<Longrightarrow> split_once (CHR ''T'') (xs @ CHR ''D'' # CHR ''T'' # t) = Some (xs @ ''D'', t)" for xs
      by (induction xs) auto
    then show ?thesis using digits_no_T ds by blast
  qed
  have solid: "list_all solid (''P'' @ show_nat n @ t)" if "list_all solid t" for t
    using that ds by (auto simp: list_all_iff digit_solid) (simp add: solid_def is_space_def)
  have "trim (''P'' @ show_nat n @ [u]) = ''P'' @ show_nat n @ [u]" if "\<not> is_space u" for u
    using trim_solid [OF solid [of "[]"] _ that] by simp
  moreover have "trim (''P'' @ show_nat n @ ''DT12H'') = ''P'' @ show_nat n @ ''DT12H''"
    using trim_solid [OF solid [of "''DT12''"], of "CHR ''H''"] by (simp add: solid_def is_space_def)
  moreover have "trim (''PT'' @ show_nat n @ ''H'') = ''PT'' @ show_nat n @ ''H''"
    using ds trim_solid [of "''PT'' @ show_nat n" "CHR ''H''"]
    by (simp add: list_all_iff digit_solid) (simp add: solid_def is_space_def)
  ultimately show ?thesis
    using assms(1) fits
    by (simp add: iso_duration_days_def pairs noT withT is_digit_def is_space_def mult.commute [of _ 7])
qed

theorem iso_duration_roundtrip_witness: "iso_duration_days ''P90D'' = Some 90"
proof -
  have "show_nat 90 = ''90''" by code_simp
  with iso_duration_roundtrip [of 90] show ?thesis by simp
qed

text \<open>The one unchecked addition: a duration whose components overflow an \<open>i64\<close> wraps to a small
  positive cap instead of reading as unknown.\<close>

lemma iso_duration_wraps: "iso_duration_days ''P9223372036854775807D9223372036854775807D3D'' = Some 1"
  by (simp add: iso_duration_days_def trim_def solid_def is_space_def is_digit_def digit_value_def parse_i64_def wrap_i64_def)

end
