(* ===== verification/Audit_Scoring.thy ===== *)
theory Audit_Scoring
  imports Audit_Credentials
begin

text \<open>
  The rules of the audit and the two scoring entry points:
  \<^verbatim>\<open>crates/azapptoolkit-core/src/audit/scoring.rs\<close>.  A rule is a function to a
  \<open>RuleContribution\<close>; the pushes of one rule body, in order, are a \<open>merge_all\<close> of its parts, and the
  entry points fold the rules in the source's order.  Scores are \<^typ>\<open>32 word\<close> and add with the wrap
  of the release build; every operator-facing text is carried in full.

  The laws the entry points rely on (scores add, issues concatenate) are the locale \<open>contributions\<close>,
  interpreted on \<open>RuleContribution\<close>.
\<close>

section \<open>Contributions\<close>

record rule_contribution =
  rc_score :: "32 word"
  rc_issues :: "string list"
  rc_recommendations :: "string list"

definition rc_default :: rule_contribution where
  "rc_default = \<lparr>rc_score = 0, rc_issues = [], rc_recommendations = []\<rparr>"

definition rc :: "32 word \<Rightarrow> string list \<Rightarrow> string list \<Rightarrow> rule_contribution" where
  "rc s is rs = \<lparr>rc_score = s, rc_issues = is, rc_recommendations = rs\<rparr>"

definition merge :: "rule_contribution \<Rightarrow> rule_contribution \<Rightarrow> rule_contribution" where
  "merge a b = \<lparr>rc_score = rc_score a + rc_score b, rc_issues = rc_issues a @ rc_issues b,
     rc_recommendations = rc_recommendations a @ rc_recommendations b\<rparr>"

definition merge_all :: "rule_contribution list \<Rightarrow> rule_contribution" where
  "merge_all cs = foldl merge rc_default cs"

definition only_if :: "bool \<Rightarrow> rule_contribution \<Rightarrow> rule_contribution" where
  "only_if b c = (if b then c else rc_default)"

definition join_values :: "resource_permission list \<Rightarrow> string" where
  "join_values items = join '', '' (map perm items)"

definition join_names :: "credential_summary list \<Rightarrow> string" where
  "join_names items = join '', '' (map cs_name items)"

definition join_refs :: "string list \<Rightarrow> string" where
  "join_refs items = join '', '' items"

section \<open>Rules\<close>

definition rule_disabled_by_microsoft :: "string option \<Rightarrow> rule_contribution" where
  "rule_disabled_by_microsoft status =
     (if status \<noteq> Some ''DisabledDueToViolationOfServicesAgreement'' then rc_default
      else rc PTS_DISABLED_BY_MICROSOFT
        [DISABLED_BY_MICROSOFT @ '' '' @ em_dash @ '' Microsoft disabled this application for a Services Agreement violation (suspicious, abusive or malicious activity); sign-ins and token issuance are blocked'']
        [''Treat its credentials and grants as suspect: investigate why it was disabled before re-enabling anything; delete the app if it is not a mistaken block''])"

definition scoped_risk_issue :: "string \<Rightarrow> resource_permission list \<Rightarrow> app_permissions \<Rightarrow> rule_contribution" where
  "scoped_risk_issue tier scoped perms =
     (let legacy = filter (\<lambda>g. scope_mechanism perms g = Some LegacyApplicationAccessPolicy) scoped;
          rbac = filter (\<lambda>g. scope_mechanism perms g \<noteq> Some LegacyApplicationAccessPolicy) scoped
      in merge_all
        [only_if (rbac \<noteq> [])
           (rc 0 [tier @ '' mailbox permissions scoped via RBAC for Applications (reduced risk): '' @ join_values rbac] []),
         only_if (legacy \<noteq> [])
           (rc 0 [tier @ '' mailbox permissions confined by a legacy Application Access Policy (reduced risk): '' @ join_values legacy] [])])"

definition rule_app_permission_risk :: "app_permissions \<Rightarrow> rule_contribution" where
  "rule_app_permission_risk perms =
     (let grants = app_role_grants perms;
          tier0 = filter (\<lambda>g. perm g \<in> set TIER0_APP_PERMISSIONS) grants;
          high = filter (\<lambda>g. perm g \<in> set HIGH_RISK_APP_PERMISSIONS) grants;
          high_scoped = filter (is_scoped perms) high;
          high_full = filter (\<lambda>g. \<not> is_scoped perms g) high;
          medium = filter (\<lambda>g. perm g \<in> set MEDIUM_RISK_APP_PERMISSIONS) grants;
          medium_scoped = filter (is_scoped perms) medium;
          medium_full = filter (\<lambda>g. \<not> is_scoped perms g) medium
      in merge_all
        [only_if (tier0 \<noteq> [])
           (rc (PTS_TIER0_APP_PERM * of_nat (length tier0))
              [HIGH_RISK_APP_PERMS @ '' tier-0 (a direct path to Global Administrator): '' @ join_values tier0]
              [''Treat tier-0 permissions like a Global Administrator credential: remove any the app does not strictly need, and protect the ones it keeps (certificate credentials, the app instance property lock, owners who are themselves administrators)'']),
         only_if (high_full \<noteq> [])
           (rc (PTS_HIGH_RISK_APP_PERM * of_nat (length high_full))
              [''High-risk application permissions: '' @ join_values high_full]
              [''Review necessity of high-risk permissions and consider principle of least privilege'']),
         only_if (high_scoped \<noteq> [])
           (merge (rc (PTS_SCOPED_HIGH_RISK_MAIL * of_nat (length high_scoped)) [] [])
              (scoped_risk_issue ''High-risk'' high_scoped perms)),
         only_if (medium_full \<noteq> [])
           (rc (PTS_MEDIUM_RISK_APP_PERM * of_nat (length medium_full))
              [''Medium-risk application permissions: '' @ join_values medium_full] []),
         only_if (medium_scoped \<noteq> [])
           (merge (rc (PTS_SCOPED_MEDIUM_RISK_MAIL * of_nat (length medium_scoped)) [] [])
              (scoped_risk_issue ''Medium-risk'' medium_scoped perms))])"

definition rule_credentials ::
  "credential_summary list \<Rightarrow> credential_summary list \<Rightarrow> nat \<Rightarrow> credential_summary list \<Rightarrow> rule_contribution" where
  "rule_credentials expired expiring active_count long_lived =
     (let still_working = active_count + length expiring;
          long_secrets = filter (\<lambda>c. cs_kind c = Secret) long_lived;
          long_certs = filter (\<lambda>c. cs_kind c \<noteq> Secret) long_lived
      in merge_all
        [if expired \<noteq> [] \<and> still_working = 0 then
           rc PTS_ALL_CREDS_EXPIRED [''All credentials expired: '' @ join_names expired]
             [''Remove expired credentials and update authentication configuration'']
         else if expired \<noteq> [] then
           rc PTS_MIXED_EXPIRED
             [''Mixed credential status: '' @ join_names expired @ '' are expired but '' @ show_nat still_working @ '' credentials are active'']
             [''Remove expired credentials to clean up authentication configuration'']
         else rc_default,
         if expired = [] then
           (if expiring \<noteq> [] \<and> active_count = 0 then
              rc PTS_ALL_EXPIRING_SOON [''All credentials expiring soon: '' @ join_names expiring]
                [''Plan credential renewal for expiring certificates/secrets'']
            else if expiring \<noteq> [] then
              rc PTS_MIXED_EXPIRING
                [''Credentials expiring soon: '' @ join_names expiring @ '' but '' @ show_nat active_count @ '' credentials are active'']
                [''Plan credential renewal for expiring certificates/secrets'']
            else rc_default)
         else rc_default,
         only_if (long_lived \<noteq> [])
           (merge_all
              [rc PTS_LONG_LIVED [] [],
               only_if (long_secrets \<noteq> []) (rc 0 [''Long-lived secrets (>1 year): '' @ join_names long_secrets] []),
               only_if (long_certs \<noteq> []) (rc 0 [''Long-lived certificates (>1 year): '' @ join_names long_certs] []),
               rc 0 [] [''Consider shorter credential lifespans and automated rotation'']])])"

definition rule_admin_consent :: "app_permissions \<Rightarrow> rule_contribution" where
  "rule_admin_consent perms =
     only_if (has_admin_consent perms)
       (rc PTS_ADMIN_CONSENT_DELEGATED [''Admin consent granted for delegated permissions'']
          [''Review delegated permissions with admin consent - consider user consent where appropriate''])"

definition rule_sp_disabled :: "bool option \<Rightarrow> rule_contribution" where
  "rule_sp_disabled sp_enabled =
     only_if (sp_enabled = Some False)
       (rc PTS_SP_DISABLED [''Service principal is disabled'']
          [''Enable service principal if application is actively used''])"

definition rule_stale_app :: "int option \<Rightarrow> rule_contribution" where
  "rule_stale_app since_created =
     (case since_created of
        None \<Rightarrow> rc_default
      | Some days \<Rightarrow>
          only_if (days > STALE_APP_DAYS)
            (rc PTS_STALE_APP [''Application created '' @ show_int days @ '' days ago - consider if still needed'']
               [''Review application usage and consider removal if no longer needed'']))"

definition mailbox_sets :: "app_permissions \<Rightarrow>
   resource_permission list \<times> resource_permission list \<times> resource_permission list
     \<times> resource_permission list \<times> resource_permission list" where
  "mailbox_sets perms =
     (let reaching = filter (\<lambda>g. is_mailbox_reaching_permission (resource_app_id g) (perm g)) (app_role_grants perms);
          mailbox_scoped = filter (is_scoped perms) reaching;
          mailbox_orgwide = filter (\<lambda>g. \<not> is_scoped perms g) reaching;
          scopable = (\<lambda>g. is_scopable_exchange_resource_permission (resource_app_id g) (perm g));
          mailbox_unscoped = filter scopable mailbox_orgwide;
          unconfinable = filter (\<lambda>g. \<not> scopable g) mailbox_orgwide;
          legacy = (\<lambda>g. case resource_app_id g of
                         Some resource \<Rightarrow> is_unscopable_legacy_exchange_permission resource (perm g)
                       | None \<Rightarrow> False);
          unscopable_legacy = filter legacy unconfinable;
          unconfinable_other = filter (\<lambda>g. \<not> legacy g) unconfinable;
          by_policy = (\<lambda>g. scope_mechanism perms g = Some LegacyApplicationAccessPolicy);
          scoped_legacy = filter by_policy mailbox_scoped;
          scoped_rbac = filter (\<lambda>g. \<not> by_policy g) mailbox_scoped
      in (mailbox_unscoped, unscopable_legacy, unconfinable_other, scoped_legacy, scoped_rbac))"

definition rule_mailbox_advisory ::
  "app_permissions \<Rightarrow> rule_contribution \<times> resource_permission list \<times> resource_permission list" where
  "rule_mailbox_advisory perms =
     (let (mailbox_unscoped, unscopable_legacy, unconfinable_other, scoped_legacy, scoped_rbac) = mailbox_sets perms
      in (merge_all
        [only_if (mailbox_unscoped \<noteq> [])
           (rc 0 [ORG_WIDE_MAILBOX @ '': '' @ join_values mailbox_unscoped]
              [''Scope mailbox access to specific mailboxes using RBAC for Applications'']),
         only_if (unscopable_legacy \<noteq> [])
           (rc 0 [UNSCOPABLE_LEGACY_MAILBOX @ '': '' @ join_values unscopable_legacy]
              [''Remove these legacy Office 365 Exchange Online grants '' @ em_dash @ '' they reach every mailbox, RBAC for Applications cannot confine them (it covers Microsoft Graph and EWS only), and the Outlook REST endpoints they authorized were decommissioned in March 2024. Use the identically named Microsoft Graph permission instead.'']),
         only_if (unconfinable_other \<noteq> [])
           (rc 0 [UNCONFINABLE_MAILBOX @ '': '' @ join_values unconfinable_other]
              [''These grants reach every mailbox, but RBAC for Applications exposes no supported application role for them (or their resource could not be resolved), so the toolkit cannot confine them. Review whether the access is needed, and prefer a Microsoft Graph mail permission that RBAC can scope.'']),
         only_if (scoped_legacy \<noteq> [])
           (rc 0 [LEGACY_MAILBOX_POLICY @ '': '' @ join_values scoped_legacy]
              [''Migrate this app to RBAC for Applications. An Application Access Policy is a legacy per-app gate (replaced by RBAC for Applications; Microsoft has said its deprecation will be announced) that constrains only Microsoft Entra grants '' @ em_dash @ '' it cannot confine access granted through Exchange RBAC, applies to every mailbox permission the app holds at once, and Microsoft's replacement is a management scope plus scoped role assignments.'']),
         only_if (scoped_rbac \<noteq> [])
           (rc 0 [''Mailbox access scoped via RBAC for Applications: '' @ join_values scoped_rbac] [])],
        mailbox_unscoped, scoped_legacy))"

definition rule_sharepoint_advisory :: "app_permissions \<Rightarrow> rule_contribution \<times> resource_permission list" where
  "rule_sharepoint_advisory perms =
     (let orgwide = filter (\<lambda>g. is_sharepoint_orgwide_permission (resource_app_id g) (perm g)) (app_role_grants perms);
          scopable = filter (\<lambda>g. is_scopable_sharepoint_resource_permission (resource_app_id g) (perm g)) orgwide;
          unconfinable = filter (\<lambda>g. \<not> is_scopable_sharepoint_resource_permission (resource_app_id g) (perm g)) orgwide;
          files = filter (\<lambda>g. is_files_orgwide_permission (resource_app_id g) (perm g)) (app_role_grants perms)
      in (merge_all
        [only_if (scopable \<noteq> [])
           (rc 0 [ORG_WIDE_SHAREPOINT @ '': '' @ join_values scopable]
              [''Restrict SharePoint access to specific sites using Sites.Selected'']),
         only_if (unconfinable \<noteq> [])
           (rc 0 [UNCONFINABLE_SHAREPOINT @ '': '' @ join_values unconfinable]
              [''Remove the org-wide Sites.* grant on Office 365 SharePoint Online, or re-declare it on Microsoft Graph where it can be confined to selected sites'']),
         only_if (files \<noteq> [])
           (rc 0 [ORG_WIDE_FILES @ '': '' @ join_values files]
              [''Restrict file access to individual files and libraries using Files.SelectedOperations.Selected'']),
         only_if (list_ex (\<lambda>g. is_scoped_sharepoint_resource_permission (resource_app_id g) (perm g)) (app_role_grants perms))
           (rc 0 [SCOPED_SHAREPOINT @ '': Sites.Selected''] [])],
        scopable))"

fun delegated_hits :: "string list option \<Rightarrow> string list \<Rightarrow> string list \<Rightarrow> string list" where
  "delegated_hits consented hits [] = hits"
| "delegated_hits consented hits (v # vs) =
     (let flagged = (v \<in> set HIGH_RISK_DELEGATED_PERMISSIONS
            \<or> (is_risky_delegated_scope v \<and> (case consented of None \<Rightarrow> True | Some cs \<Rightarrow> v \<in> set cs)))
      in if flagged \<and> v \<notin> set hits then delegated_hits consented (hits @ [v]) vs
         else delegated_hits consented hits vs)"

definition rule_high_risk_delegated :: "string list \<Rightarrow> string list option \<Rightarrow> rule_contribution" where
  "rule_high_risk_delegated declared admin_consented =
     (let hits = delegated_hits admin_consented [] (declared @ (case admin_consented of Some cs \<Rightarrow> cs | None \<Rightarrow> []))
      in only_if (hits \<noteq> [])
           (rc 0 [HIGH_RISK_DELEGATED_PERMS @ '' '' @ join_refs hits]
              [''Review high-risk delegated permissions; prefer narrowly-scoped delegated permissions and user consent where appropriate'']))"

definition undeclared_label :: "resource_permission \<Rightarrow> string" where
  "undeclared_label g =
     (case resource_app_id g of
        Some r \<Rightarrow> perm g @ '' on '' @ resource_label r
      | None \<Rightarrow> perm g)"

definition rule_granted_undeclared :: "app_permissions \<Rightarrow> rule_contribution" where
  "rule_granted_undeclared perms =
     (if undeclared_grants perms = [] then rc_default
      else let listing = join '', '' (map undeclared_label
                 (keep_first (\<lambda>g. (resource_app_id g, perm g)) (undeclared_grants perms)))
           in rc 0 [GRANTED_NOT_DECLARED @ '' '' @ listing]
                [''These roles were granted to the service principal directly rather than requested in the app's manifest, so the portal's API permissions blade does not show them. Confirm who granted each and why; revoke any the app does not need, or declare the ones it does''])"

definition rule_app_hygiene :: "application \<Rightarrow> bool \<Rightarrow> bool \<Rightarrow> bool \<Rightarrow> rule_contribution" where
  "rule_app_hygiene app has_app_permissions has_credentials has_secrets =
     merge_all
       [case owners app of
          None \<Rightarrow> rc_default
        | Some os \<Rightarrow>
            if length os = 0 then
              rc 0 [''No owners assigned '' @ em_dash @ '' ownership/accountability gap'']
                [''Assign at least one owner so the application has clear accountability'']
            else if length os = 1 then
              rc 0 [''Single owner '' @ em_dash @ '' vulnerable to owner departure'']
                [''Assign a second owner to avoid losing management access if the sole owner leaves'']
            else rc_default,
        only_if (\<not> (case sp_lock app of Some l \<Rightarrow> is_fully_locked l | None \<Rightarrow> False)
                 \<and> (has_app_permissions \<or> has_credentials))
          (rc 0 [INSTANCE_LOCK_DISABLED @ '' '' @ em_dash @ '' credentials could be added to the service principal to abuse its permissions'']
             [''Enable the app instance property lock for all sensitive properties (servicePrincipalLockConfiguration) '' @ em_dash @ '' especially for multitenant apps, where a foreign tenant's admin could otherwise add credentials to the service principal'']),
        only_if (is_fallback_public_client app = Some True \<and> has_credentials)
          (rc 0 [PUBLIC_CLIENT_CREDENTIALS @ '' '' @ em_dash @ '' if this app is used only as a public/installed client, the credentials should be removed'']
             [''If this app is used only as a public/installed client, remove its client secrets/certificates '' @ em_dash @ '' public clients authenticate without app credentials. (A confidential app that merely allows public-client flows can keep them.)'']),
        only_if has_secrets
          (rc 0 [PREFER_CERT_OVER_SECRET @ '' '' @ em_dash @ '' less secure than certificates or federated credentials'']
             [''Prefer a certificate or federated identity credential over client secrets where possible''])]"

definition audience_reach :: "string \<Rightarrow> string option" where
  "audience_reach audience =
     (if audience = ''AzureADMultipleOrgs'' then Some ''any Entra tenant''
      else if audience = ''AzureADandPersonalMicrosoftAccount'' then Some ''any Entra tenant and personal Microsoft accounts''
      else if audience = ''PersonalMicrosoftAccount'' then Some ''personal Microsoft accounts''
      else None)"

definition unverified_publisher :: "application \<Rightarrow> bool" where
  "unverified_publisher app \<longleftrightarrow>
     (case app_verified_publisher app of
        None \<Rightarrow> True
      | Some p \<Rightarrow> (case verified_publisher_id p of None \<Rightarrow> True | Some i \<Rightarrow> i = []))"

definition rule_external_exposure :: "application \<Rightarrow> bool \<Rightarrow> bool \<Rightarrow> rule_contribution" where
  "rule_external_exposure app has_app_permissions has_credentials =
     (let audience = (case app_sign_in_audience app of Some a \<Rightarrow> a | None \<Rightarrow> [])
      in case audience_reach audience of
           None \<Rightarrow> rc_default
         | Some reach \<Rightarrow>
             if \<not> (has_app_permissions \<or> has_credentials) then rc_default
             else let intent = (if audience = ''PersonalMicrosoftAccount'' then ''to accept personal Microsoft accounts''
                                else ''to be multi-tenant'')
                  in merge_all
                    [rc PTS_MULTITENANT_EXPOSURE
                       [MULTITENANT_AUDIENCE @ '' '' @ em_dash @ '' this app can be consented to from '' @ reach @ '', so its permissions and credentials are not confined to this directory'']
                       [''Confirm this app is intended '' @ intent @ ''. If it is only used by this organization, set its sign-in audience to 'Accounts in this organizational directory only' (AzureADMyOrg)''],
                     only_if (unverified_publisher app)
                       (rc PTS_UNVERIFIED_PUBLISHER
                          [UNVERIFIED_PUBLISHER @ '' '' @ em_dash @ '' admins in other tenants cannot attribute this app to a verified author when consenting'']
                          [''Complete publisher verification so consenting admins see a verified publisher name (and so the app is eligible for the default user-consent policies that require one)''])])"

definition redundant_label :: "redundant_permission \<Rightarrow> string" where
  "redundant_label r = rp_perm r @ '' on '' @ resource_label (rp_resource_app_id r)"

definition rule_redundant_permissions :: "app_permissions \<Rightarrow> rule_contribution \<times> redundant_permission list" where
  "rule_redundant_permissions perms =
     (let redundant = redundant_app_permissions (app_role_grants perms) (value_fully_scoped perms);
          listing = join '', '' (map (\<lambda>r. redundant_label r @ '' (covered by '' @ join '', '' (covered_by r) @ '')'') redundant)
      in (only_if (redundant \<noteq> [])
            (rc 0 [REDUNDANT_APP_PERMS @ '' '' @ listing]
               [''Remove redundant narrower permissions '' @ em_dash @ '' a broader permission the app holds already grants the same access'']),
          redundant))"

definition downgrade_pointer :: "string \<Rightarrow> string option" where
  "downgrade_pointer v =
     (let alts = downgrade_alternatives v
      in if length alts = 0 then None
         else if length alts \<le> 3 then Some (v @ '' '' @ right_arrow @ '' '' @ join '' / '' alts)
         else Some (v @ '' '' @ right_arrow @ '' '' @ join '' / '' (take 3 alts) @ '' / '' @ ellipsis))"

definition rule_downgrade_pointers :: "resource_permission list \<Rightarrow> (resource_permission \<Rightarrow> bool) \<Rightarrow> rule_contribution" where
  "rule_downgrade_pointers grants is_confined =
     (let vs = map perm (filter (\<lambda>g. \<not> is_confined g)
                 (filter (\<lambda>g. resource_app_id g = Some MICROSOFT_GRAPH_APP_ID) grants));
          risky = keep_first id (filter (\<lambda>v. risk_level_for_app_permission v \<noteq> None) vs);
          downgrades = List.map_filter downgrade_pointer risky
      in only_if (downgrades \<noteq> [])
           (rc 0 [] [''Narrower alternatives exist if the broader capability is unused: '' @ join ''; '' downgrades]))"

section \<open>Remediations\<close>

definition plural :: "nat \<Rightarrow> string" where
  "plural n = (if n = 1 then [] else ''s'')"

definition build_remediations ::
  "credential_summary list \<Rightarrow> resource_permission list \<Rightarrow> resource_permission list \<Rightarrow> resource_permission list
     \<Rightarrow> redundant_permission list \<Rightarrow> nat option \<Rightarrow> remediation_action list" where
  "build_remediations expired mailbox_unscoped mailbox_legacy sharepoint_orgwide redundant owner_count =
     (if expired \<noteq> [] then
        [\<lparr>rem_kind = RemoveExpiredCredentials,
          rem_label = ''Remove '' @ show_nat (length expired) @ '' expired credential'' @ plural (length expired),
          rem_detail = ''Removes: '' @ join_names expired, rem_targets = []\<rparr>] else [])
   @ (if mailbox_unscoped \<noteq> [] then
        [\<lparr>rem_kind = ScopeMailboxAccess,
          rem_label = ''Scope '' @ show_nat (length mailbox_unscoped) @ '' mailbox permission'' @ plural (length mailbox_unscoped) @ '' to specific mailboxes'',
          rem_detail = ''Confines via Exchange RBAC: '' @ join_values mailbox_unscoped,
          rem_targets = map perm mailbox_unscoped\<rparr>] else [])
   @ (if mailbox_legacy \<noteq> [] then
        [\<lparr>rem_kind = MigrateApplicationAccessPolicy, rem_label = ''Migrate to RBAC for Applications'',
          rem_detail = ''Replaces the legacy policy confining '' @ show_nat (length mailbox_legacy) @ '' permission'' @ plural (length mailbox_legacy) @ '': '' @ join_values mailbox_legacy,
          rem_targets = map perm mailbox_legacy\<rparr>] else [])
   @ (if sharepoint_orgwide \<noteq> [] then
        [\<lparr>rem_kind = ScopeSharePointAccess,
          rem_label = ''Restrict '' @ show_nat (length sharepoint_orgwide) @ '' SharePoint permission'' @ plural (length sharepoint_orgwide) @ '' to selected sites'',
          rem_detail = ''Converts to Sites.Selected: '' @ join_values sharepoint_orgwide,
          rem_targets = map perm sharepoint_orgwide\<rparr>] else [])
   @ (if redundant \<noteq> [] then
        [\<lparr>rem_kind = RemoveRedundantPermissions,
          rem_label = ''Remove '' @ show_nat (length redundant) @ '' redundant permission'' @ plural (length redundant),
          rem_detail = ''Removes: '' @ join '', '' (map redundant_label redundant),
          rem_targets = map rp_perm redundant\<rparr>] else [])
   @ (case owner_count of
        Some n \<Rightarrow>
          if n = 0 then
            [\<lparr>rem_kind = AddOwner, rem_label = ''Add an owner'',
              rem_detail = ''No owners assigned '' @ em_dash @ '' ownership/accountability gap'', rem_targets = []\<rparr>]
          else if n = 1 then
            [\<lparr>rem_kind = AddOwner, rem_label = ''Add a second owner'',
              rem_detail = ''Single owner '' @ em_dash @ '' vulnerable to owner departure'', rem_targets = []\<rparr>]
          else []
      | None \<Rightarrow> [])"

definition disable_sign_in_remediation :: remediation_action where
  "disable_sign_in_remediation =
     \<lparr>rem_kind = DisableSignIn, rem_label = ''Disable sign-in'',
      rem_detail = ''No recent sign-in activity '' @ em_dash @ '' disables the service principal (reversible)'', rem_targets = []\<rparr>"

definition apply_service_principal_risk :: "audit_item \<Rightarrow> audit_item" where
  "apply_service_principal_risk item =
     (case sp_risk_state item of
        None \<Rightarrow> item
      | Some state \<Rightarrow>
          if state \<noteq> ''confirmedCompromised'' \<and> state \<noteq> ''atRisk'' then item
          else let level = (case sp_risk_level item of Some l \<Rightarrow> l | None \<Rightarrow> ''unknown'');
                   score = risk_score item + PTS_RISKY_SERVICE_PRINCIPAL;
                   item1 = item\<lparr>risk_score := score, ai_risk_level := from_score score,
                     issues := issues item
                       @ [RISKY_SERVICE_PRINCIPAL @ '' '' @ em_dash @ '' Identity Protection flags this service principal as `'' @ state @ ''` (risk level `'' @ level @ ''`)''],
                     recommendations := recommendations item
                       @ [''Open this principal in Identity Protection and investigate now '' @ em_dash @ '' disable sign-in if it is not a known integration or the compromise looks real'']\<rparr>
               in if service_principal_enabled item = Some True
                     \<and> \<not> list_ex (\<lambda>r. rem_kind r = DisableSignIn) (remediations item)
                  then item1\<lparr>remediations := remediations item @
                    [\<lparr>rem_kind = DisableSignIn, rem_label = ''Disable sign-in'',
                      rem_detail = ''Identity Protection flags this service principal as risky '' @ em_dash @ '' disabling it stops its token issuance (reversible)'',
                      rem_targets = []\<rparr>]\<rparr>
                  else item1)"

section \<open>The two entry points\<close>

definition with_status :: "credential_status \<Rightarrow> credential_summary list \<Rightarrow> credential_summary list" where
  "with_status st cs = filter (\<lambda>c. cs_status c = st) cs"

definition score_application ::
  "application \<Rightarrow> bool option \<Rightarrow> app_permissions \<Rightarrow> datetime \<Rightarrow> audit_item" where
  "score_application app sp_enabled raw_perms now =
     (let perms = deduped raw_perms;
          (app_secrets, app_certificates) = summarize_credentials app now;
          all_creds = app_secrets @ app_certificates;
          expired = with_status Expired all_creds;
          expiring = with_status ExpiringSoon all_creds;
          active_count = length (filter (\<lambda>c. cs_status c = Active \<or> cs_status c = Unknown) all_creds);
          long_lived = filter is_long_lived all_creds;
          since_created = map_option (\<lambda>c. num_days (now - c)) (app_created_date_time app);
          declared = declared_view perms;
          (mail_contrib, mailbox_unscoped, mailbox_legacy) = rule_mailbox_advisory declared;
          (sharepoint_contrib, sharepoint_orgwide) = rule_sharepoint_advisory declared;
          has_app_permissions = (app_role_grants perms \<noteq> []);
          has_credentials = (all_creds \<noteq> []);
          (redundant_contrib, redundant) = rule_redundant_permissions declared;
          acc = merge_all
            [rule_disabled_by_microsoft (disabled_by_microsoft_status app),
             rule_app_permission_risk perms,
             rule_admin_consent perms,
             rule_sp_disabled sp_enabled,
             rule_credentials expired expiring active_count long_lived,
             rule_stale_app since_created,
             mail_contrib,
             sharepoint_contrib,
             rule_high_risk_delegated (scope_values perms) (admin_consented_scopes perms),
             rule_granted_undeclared perms,
             rule_app_hygiene app has_app_permissions has_credentials (app_secrets \<noteq> []),
             redundant_contrib,
             rule_external_exposure app has_app_permissions has_credentials,
             rule_downgrade_pointers (app_role_grants declared) (is_scoped declared)]
      in \<lparr>application_name = app_display_name app, ai_app_id = app_app_id app, ai_object_id = app_object_id app,
          created_date = app_created_date_time app, publisher = app_publisher_domain app,
          ai_sign_in_audience = app_sign_in_audience app,
          risk_score = rc_score acc, ai_risk_level = from_score (rc_score acc),
          issues = rc_issues acc, recommendations = rc_recommendations acc,
          remediations = build_remediations expired mailbox_unscoped mailbox_legacy sharepoint_orgwide redundant
            (map_option length (owners app)),
          credential_status_of = overall_credential_status all_creds,
          permission_count = of_nat (length (app_role_grants perms) + length (scope_values perms)),
          service_principal_enabled = sp_enabled, days_since_created = since_created,
          certificates = app_certificates, secrets = app_secrets,
          last_sign_in = None, unused = False, sign_in_report_available = False,
          principal_kind = ApplicationPrincipal, ai_app_owner_organization_id = None,
          sp_risk_state = None, sp_risk_level = None\<rparr>)"

record sp_audit_input =
  sp_display_name :: string
  sp_app_id :: string
  sp_object_id :: string
  sp_created_date_time :: "datetime option"
  account_enabled :: "bool option"
  sp_app_owner_organization_id :: "string option"
  service_principal_type :: "string option"
  sp_disabled_by_microsoft_status :: "string option"

definition score_service_principal :: "sp_audit_input \<Rightarrow> app_permissions \<Rightarrow> datetime \<Rightarrow> audit_item" where
  "score_service_principal sp raw_perms now =
     (let perms = deduped raw_perms;
          (mail_contrib, mailbox_unscoped, mailbox_legacy) = rule_mailbox_advisory perms;
          (sharepoint_contrib, sharepoint_orgwide) = rule_sharepoint_advisory perms;
          acc = merge_all
            [rule_disabled_by_microsoft (sp_disabled_by_microsoft_status sp),
             rule_app_permission_risk perms,
             rule_admin_consent perms,
             rule_sp_disabled (account_enabled sp),
             mail_contrib,
             sharepoint_contrib,
             rule_high_risk_delegated (scope_values perms) (Some (scope_values perms))]
      in \<lparr>application_name = sp_display_name sp, ai_app_id = sp_app_id sp, ai_object_id = sp_object_id sp,
          created_date = sp_created_date_time sp, publisher = None, ai_sign_in_audience = None,
          risk_score = rc_score acc, ai_risk_level = from_score (rc_score acc),
          issues = rc_issues acc, recommendations = rc_recommendations acc,
          remediations = build_remediations [] mailbox_unscoped mailbox_legacy sharepoint_orgwide [] None,
          credential_status_of = Unknown,
          permission_count = of_nat (length (app_role_grants perms) + length (scope_values perms)),
          service_principal_enabled = account_enabled sp,
          days_since_created = map_option (\<lambda>c. num_days (now - c)) (sp_created_date_time sp),
          certificates = [], secrets = [],
          last_sign_in = None, unused = False, sign_in_report_available = False,
          principal_kind = (if service_principal_type sp = Some ''ManagedIdentity'' then ManagedIdentity
                            else ServicePrincipalOnly),
          ai_app_owner_organization_id = sp_app_owner_organization_id sp,
          sp_risk_state = None, sp_risk_level = None\<rparr>)"

section \<open>Folding contributions\<close>

locale contributions =
  fixes merge :: "'c \<Rightarrow> 'c \<Rightarrow> 'c" and empty :: 'c and points :: "'c \<Rightarrow> 'w::comm_monoid_add" and texts :: "'c \<Rightarrow> 't list"
  assumes points_empty: "points empty = 0" and points_merge: "points (merge a b) = points a + points b"
    and texts_empty: "texts empty = []" and texts_merge: "texts (merge a b) = texts a @ texts b"
begin

lemma points_foldl: "points (foldl merge a cs) = points a + sum_list (map points cs)"
  by (induction cs arbitrary: a) (simp_all add: points_merge add.assoc)

lemma texts_foldl: "texts (foldl merge a cs) = texts a @ concat (map texts cs)"
  by (induction cs arbitrary: a) (simp_all add: texts_merge)

lemma points_fold: "points (foldl merge empty cs) = sum_list (map points cs)"
  by (simp add: points_foldl points_empty)

lemma texts_fold: "texts (foldl merge empty cs) = concat (map texts cs)"
  by (simp add: texts_foldl texts_empty)

end

interpretation issue_lines: contributions merge rc_default rc_score rc_issues
  by unfold_locales (simp_all add: merge_def rc_default_def)

interpretation recommendation_lines: contributions merge rc_default rc_score rc_recommendations
  by unfold_locales (simp_all add: merge_def rc_default_def)

lemma merge_all_simps [simp]:
  "rc_score (merge_all cs) = sum_list (map rc_score cs)"
  "rc_issues (merge_all cs) = concat (map rc_issues cs)"
  "rc_recommendations (merge_all cs) = concat (map rc_recommendations cs)"
  by (simp_all add: merge_all_def issue_lines.points_fold issue_lines.texts_fold recommendation_lines.texts_fold)

lemma rc_simps [simp]:
  "rc_score (rc s is rs) = s" "rc_issues (rc s is rs) = is" "rc_recommendations (rc s is rs) = rs"
  "rc_score rc_default = 0" "rc_issues rc_default = []"
  "rc_score (merge a b) = rc_score a + rc_score b" "rc_issues (merge a b) = rc_issues a @ rc_issues b"
  by (simp_all add: rc_def rc_default_def merge_def)

lemma only_if_simps [simp]:
  "rc_score (only_if b c) = (if b then rc_score c else 0)" "rc_issues (only_if b c) = (if b then rc_issues c else [])"
  by (simp_all add: only_if_def)

section \<open>Points per grant\<close>

definition grant_points :: "app_permissions \<Rightarrow> resource_permission \<Rightarrow> nat" where
  "grant_points p g =
     (if perm g \<in> set TIER0_APP_PERMISSIONS then 25
      else if perm g \<in> set HIGH_RISK_APP_PERMISSIONS then (if is_scoped p g then 3 else 10)
      else if perm g \<in> set MEDIUM_RISK_APP_PERMISSIONS then (if is_scoped p g then 2 else 5)
      else 0)"

lemma grant_points_split:
  "sum_list (map (grant_points p) gs) =
     25 * length (filter (\<lambda>g. perm g \<in> set TIER0_APP_PERMISSIONS) gs)
   + 10 * length (filter (\<lambda>g. \<not> is_scoped p g) (filter (\<lambda>g. perm g \<in> set HIGH_RISK_APP_PERMISSIONS) gs))
   + 3 * length (filter (is_scoped p) (filter (\<lambda>g. perm g \<in> set HIGH_RISK_APP_PERMISSIONS) gs))
   + 5 * length (filter (\<lambda>g. \<not> is_scoped p g) (filter (\<lambda>g. perm g \<in> set MEDIUM_RISK_APP_PERMISSIONS) gs))
   + 2 * length (filter (is_scoped p) (filter (\<lambda>g. perm g \<in> set MEDIUM_RISK_APP_PERMISSIONS) gs))"
  using risk_lists_disjoint by (induction gs) (auto simp: grant_points_def disjoint_iff)

lemma scoped_risk_issue_score [simp]: "rc_score (scoped_risk_issue tier gs p) = 0"
  by (simp add: scoped_risk_issue_def Let_def)

lemma app_permission_risk_score:
  "rc_score (rule_app_permission_risk p) = of_nat (sum_list (map (grant_points p) (app_role_grants p)))"
  unfolding grant_points_split rule_app_permission_risk_def Let_def
  by (simp add: pts_defs)

lemma grant_points_bound: "sum_list (map (grant_points p) gs) \<le> 25 * length gs"
  by (induction gs) (auto simp: grant_points_def)

lemma rule_bounds:
  "unat (rc_score (rule_disabled_by_microsoft st)) \<le> 15"
  "unat (rc_score (rule_admin_consent p)) \<le> 5"
  "unat (rc_score (rule_sp_disabled en)) \<le> 2"
  "unat (rc_score (rule_stale_app d)) \<le> 2"
  "unat (rc_score (rule_external_exposure app a b)) \<le> 5"
  by (simp_all add: rule_disabled_by_microsoft_def rule_admin_consent_def rule_sp_disabled_def rule_stale_app_def
      rule_external_exposure_def Let_def pts_defs split: option.split)

lemma rule_credentials_bound: "unat (rc_score (rule_credentials ex es n ll)) \<le> 11"
  by (simp add: rule_credentials_def Let_def pts_defs)

lemma advisory_scores [simp]:
  "rc_score (fst (rule_mailbox_advisory p)) = 0" "rc_score (fst (rule_sharepoint_advisory p)) = 0"
  "rc_score (rule_high_risk_delegated ds cs) = 0" "rc_score (rule_granted_undeclared p) = 0"
  "rc_score (rule_app_hygiene app a b c) = 0" "rc_score (fst (rule_redundant_permissions p)) = 0"
  "rc_score (rule_downgrade_pointers gs f) = 0"
  by (simp_all add: rule_mailbox_advisory_def rule_sharepoint_advisory_def rule_high_risk_delegated_def
      rule_granted_undeclared_def rule_app_hygiene_def rule_redundant_permissions_def rule_downgrade_pointers_def
      Let_def split: prod.split option.split)

lemma unat_sum_exact:
  fixes ws :: "32 word list"
  shows "sum_list (map unat ws) < 2 ^ 32 \<Longrightarrow> unat (sum_list ws) = sum_list (map unat ws)"
proof (induction ws)
  case (Cons w ws)
  then have "unat (sum_list ws) = sum_list (map unat ws)" by simp
  with Cons.prems show ?case by (simp add: unat_word_ariths)
qed simp

section \<open>A reference for the score\<close>

text \<open>The points of an application or a service principal, as a sum over the \<^emph>\<open>set\<close> of its grants and
  over yes/no questions about the rest of its record, in unbounded arithmetic.\<close>

definition all_credentials :: "application \<Rightarrow> datetime \<Rightarrow> credential_summary list" where
  "all_credentials app now = fst (summarize_credentials app now) @ snd (summarize_credentials app now)"

definition credential_points :: "credential_summary list \<Rightarrow> nat" where
  "credential_points cs =
     (if \<exists>c \<in> set cs. cs_status c = Expired then (if \<forall>c \<in> set cs. cs_status c = Expired then 8 else 4)
      else if \<exists>c \<in> set cs. cs_status c = ExpiringSoon then (if \<forall>c \<in> set cs. cs_status c = ExpiringSoon then 3 else 2)
      else 0)
   + (if \<exists>c \<in> set cs. is_long_lived c then 3 else 0)"

definition exposure_points :: "application \<Rightarrow> bool \<Rightarrow> nat" where
  "exposure_points app reachable =
     (if reachable \<and> app_sign_in_audience app \<in> {Some ''AzureADMultipleOrgs'',
           Some ''AzureADandPersonalMicrosoftAccount'', Some ''PersonalMicrosoftAccount''}
      then 3 + (if unverified_publisher app then 2 else 0) else 0)"

definition principal_points :: "string option \<Rightarrow> bool option \<Rightarrow> app_permissions \<Rightarrow> nat" where
  "principal_points disabled enabled p =
     (\<Sum>g \<in> set (app_role_grants p). grant_points p g)
   + (if disabled = Some ''DisabledDueToViolationOfServicesAgreement'' then 15 else 0)
   + (if has_admin_consent p then 5 else 0)
   + (if enabled = Some False then 2 else 0)"

definition application_points :: "application \<Rightarrow> bool option \<Rightarrow> app_permissions \<Rightarrow> datetime \<Rightarrow> nat" where
  "application_points app enabled p now =
     principal_points (disabled_by_microsoft_status app) enabled p
   + credential_points (all_credentials app now)
   + (case app_created_date_time app of None \<Rightarrow> 0 | Some c \<Rightarrow> if num_days (now - c) > STALE_APP_DAYS then 2 else 0)
   + exposure_points app (app_role_grants p \<noteq> [] \<or> all_credentials app now \<noteq> [])"

lemma rule_points:
  "rc_score (rule_disabled_by_microsoft st)
     = of_nat (if st = Some ''DisabledDueToViolationOfServicesAgreement'' then 15 else 0)"
  "rc_score (rule_admin_consent p) = of_nat (if has_admin_consent p then 5 else 0)"
  "rc_score (rule_sp_disabled en) = of_nat (if en = Some False then 2 else 0)"
  "rc_score (rule_stale_app (map_option f created))
     = of_nat (case created of None \<Rightarrow> 0 | Some c \<Rightarrow> if f c > STALE_APP_DAYS then 2 else 0)"
  by (simp_all add: rule_disabled_by_microsoft_def rule_admin_consent_def rule_sp_disabled_def rule_stale_app_def
      pts_defs split: option.split)

lemma external_exposure_points:
  "rc_score (rule_external_exposure app a b) = of_nat (exposure_points app (a \<or> b))"
  by (cases "app_sign_in_audience app")
     (auto simp: rule_external_exposure_def exposure_points_def audience_reach_def Let_def pts_defs)

lemma rule_credentials_score:
  "rc_score (rule_credentials ex es n ll) =
     (if ex \<noteq> [] then (if n + length es = 0 then 8 else 4)
      else if es \<noteq> [] then (if n = 0 then 3 else 2) else 0)
   + (if ll \<noteq> [] then 3 else 0)"
  by (simp add: rule_credentials_def Let_def pts_defs)

lemma with_status_nonempty: "with_status st cs \<noteq> [] \<longleftrightarrow> (\<exists>c \<in> set cs. cs_status c = st)"
  by (auto simp: with_status_def filter_empty_conv)

lemma status_split:
  "st = Expired \<longleftrightarrow> \<not> (st = Active \<or> st = Unknown) \<and> st \<noteq> ExpiringSoon"
  by (cases st) simp_all

lemma no_working_iff:
  "length (filter (\<lambda>c. cs_status c = Active \<or> cs_status c = Unknown) cs) + length (with_status ExpiringSoon cs) = 0
     \<longleftrightarrow> (\<forall>c \<in> set cs. cs_status c = Expired)"
  unfolding status_split by (auto simp: with_status_def filter_empty_conv)

lemma no_active_iff:
  assumes "with_status Expired cs = []"
  shows "length (filter (\<lambda>c. cs_status c = Active \<or> cs_status c = Unknown) cs) = 0
           \<longleftrightarrow> (\<forall>c \<in> set cs. cs_status c = ExpiringSoon)"
  using assms unfolding with_status_def filter_empty_conv status_split
  by (auto simp: filter_empty_conv)

lemma credentials_points:
  "rc_score (rule_credentials (with_status Expired cs) (with_status ExpiringSoon cs)
       (length (filter (\<lambda>c. cs_status c = Active \<or> cs_status c = Unknown) cs)) (filter is_long_lived cs))
     = of_nat (credential_points cs)"
proof -
  have long: "filter is_long_lived cs \<noteq> [] \<longleftrightarrow> (\<exists>c \<in> set cs. is_long_lived c)" by (auto simp: filter_empty_conv)
  show ?thesis
  proof (cases "with_status Expired cs = []")
    case True
    then show ?thesis
      unfolding rule_credentials_score credential_points_def no_active_iff [OF True] long
      using with_status_nonempty [of Expired cs] with_status_nonempty [of ExpiringSoon cs] by simp
  next
    case False
    then show ?thesis
      unfolding rule_credentials_score credential_points_def no_working_iff long
      using with_status_nonempty [of Expired cs] by simp
  qed
qed

lemma is_scoped_frame:
  "mail_scopes p = mail_scopes q \<Longrightarrow> is_scoped p g = is_scoped q g"
  by (simp add: is_scoped_def scope_mechanism_def)

lemma grant_points_deduped: "grant_points (deduped p) = grant_points p"
  by (rule ext) (simp add: grant_points_def is_scoped_frame [of "deduped p" p])

lemma deduped_empty_iff [simp]: "app_role_grants (deduped p) = [] \<longleftrightarrow> app_role_grants p = []"
  using set_deduped_grants [of p] by (metis set_empty)

lemma deduped_risk_score:
  "rc_score (rule_app_permission_risk (deduped p)) = of_nat (\<Sum>g \<in> set (app_role_grants p). grant_points p g)"
  unfolding app_permission_risk_score grant_points_deduped sum_list_distinct_conv_sum_set [OF distinct_deduped_grants]
    set_deduped_grants ..

lemma application_score: "risk_score (score_application app en p now) = of_nat (application_points app en p now)"
proof -
  obtain m u l where mail: "rule_mailbox_advisory (declared_view (deduped p)) = (m, u, l)" by (cases "rule_mailbox_advisory (declared_view (deduped p))") auto
  obtain s o' where share: "rule_sharepoint_advisory (declared_view (deduped p)) = (s, o')" by (cases "rule_sharepoint_advisory (declared_view (deduped p))")
  obtain r rs where red: "rule_redundant_permissions (declared_view (deduped p)) = (r, rs)" by (cases "rule_redundant_permissions (declared_view (deduped p))")
  obtain se ce where creds: "summarize_credentials app now = (se, ce)" by (cases "summarize_credentials app now")
  have zero: "rc_score m = 0" "rc_score s = 0" "rc_score r = 0"
    using advisory_scores(1,2,6) [of "declared_view (deduped p)"] by (simp_all add: mail share red)
  show ?thesis
    unfolding score_application_def application_points_def principal_points_def all_credentials_def of_nat_add
    by (simp add: Let_def mail share red creds zero rule_points deduped_risk_score credentials_points
        external_exposure_points ac_simps del: filter_append of_nat_sum split del: if_split)
       (rule arg_cong [where f = "\<lambda>b. of_nat (exposure_points app b)"], blast)
qed

lemma service_principal_score:
  "risk_score (score_service_principal sp p now)
     = of_nat (principal_points (sp_disabled_by_microsoft_status sp) (account_enabled sp) p)"
proof -
  obtain m u l where mail: "rule_mailbox_advisory (deduped p) = (m, u, l)" by (cases "rule_mailbox_advisory (deduped p)") auto
  obtain s o' where share: "rule_sharepoint_advisory (deduped p) = (s, o')" by (cases "rule_sharepoint_advisory (deduped p)")
  have zero: "rc_score m = 0" "rc_score s = 0"
    using advisory_scores(1,2) [of "deduped p"] by (simp_all add: mail share)
  show ?thesis
    unfolding score_service_principal_def principal_points_def of_nat_add
    by (simp add: Let_def mail share zero rule_points deduped_risk_score ac_simps del: of_nat_sum split del: if_split)
qed

lemma levels_follow_score:
  "ai_risk_level (score_application app en p now) = from_score (risk_score (score_application app en p now))"
  "ai_risk_level (score_service_principal sp p now) = from_score (risk_score (score_service_principal sp p now))"
  by (simp_all add: score_application_def score_service_principal_def Let_def split: prod.split)

lemma principal_points_bound: "principal_points d en p \<le> 25 * length (app_role_grants p) + 22"
proof -
  have "(\<Sum>g \<in> set (app_role_grants p). grant_points p g) \<le> (\<Sum>g \<in> set (app_role_grants p). 25)"
    by (rule sum_mono) (simp add: grant_points_def)
  also have "\<dots> \<le> 25 * length (app_role_grants p)" by (simp add: card_length)
  finally show ?thesis by (simp add: principal_points_def)
qed

lemma application_points_bound: "application_points app en p now \<le> 25 * length (app_role_grants p) + 40"
  using principal_points_bound [of "disabled_by_microsoft_status app" en p]
  by (auto simp: application_points_def credential_points_def exposure_points_def split: option.split)

lemma unat_exact: "n < 2 ^ 32 \<Longrightarrow> unat (of_nat n :: 32 word) = n"
  by (simp add: unat_of_nat)

lemma from_score_of_nat:
  assumes "n < 2 ^ 32"
  shows "from_score (of_nat n) = (if 25 \<le> n then Critical else if 15 \<le> n then High else if 8 \<le> n then Medium else Low)"
  using unat_exact [OF assms]
  by (simp add: from_score_def RISK_CRITICAL_def RISK_HIGH_def RISK_MEDIUM_def word_le_nat_alt)

section \<open>The lines of a row\<close>

lemma application_issues:
  "issues (score_application app en p now) =
     rc_issues (rule_disabled_by_microsoft (disabled_by_microsoft_status app))
   @ rc_issues (rule_app_permission_risk (deduped p))
   @ rc_issues (rule_admin_consent (deduped p))
   @ rc_issues (rule_sp_disabled en)
   @ rc_issues (rule_credentials (with_status Expired (all_credentials app now))
       (with_status ExpiringSoon (all_credentials app now))
       (length (filter (\<lambda>c. cs_status c = Active \<or> cs_status c = Unknown) (all_credentials app now)))
       (filter is_long_lived (all_credentials app now)))
   @ rc_issues (rule_stale_app (map_option (\<lambda>c. num_days (now - c)) (app_created_date_time app)))
   @ rc_issues (fst (rule_mailbox_advisory (declared_view (deduped p))))
   @ rc_issues (fst (rule_sharepoint_advisory (declared_view (deduped p))))
   @ rc_issues (rule_high_risk_delegated (scope_values (deduped p)) (admin_consented_scopes p))
   @ rc_issues (rule_granted_undeclared (deduped p))
   @ rc_issues (rule_app_hygiene app (app_role_grants p \<noteq> []) (all_credentials app now \<noteq> [])
       (fst (summarize_credentials app now) \<noteq> []))
   @ rc_issues (fst (rule_redundant_permissions (declared_view (deduped p))))
   @ rc_issues (rule_external_exposure app (app_role_grants p \<noteq> []) (all_credentials app now \<noteq> []))
   @ rc_issues (rule_downgrade_pointers (app_role_grants (declared_view (deduped p))) (is_scoped (declared_view (deduped p))))"
  unfolding score_application_def Let_def case_prod_beta all_credentials_def
  by (simp del: filter_append)

lemma service_principal_issues:
  "issues (score_service_principal sp p now) =
     rc_issues (rule_disabled_by_microsoft (sp_disabled_by_microsoft_status sp))
   @ rc_issues (rule_app_permission_risk (deduped p))
   @ rc_issues (rule_admin_consent (deduped p))
   @ rc_issues (rule_sp_disabled (account_enabled sp))
   @ rc_issues (fst (rule_mailbox_advisory (deduped p)))
   @ rc_issues (fst (rule_sharepoint_advisory (deduped p)))
   @ rc_issues (rule_high_risk_delegated (scope_values (deduped p)) (Some (scope_values (deduped p))))"
  unfolding score_service_principal_def Let_def case_prod_beta by simp

lemma tier0_issue:
  assumes "g \<in> set (app_role_grants p)" "perm g \<in> set TIER0_APP_PERMISSIONS"
  shows "\<exists>line \<in> set (rc_issues (rule_app_permission_risk p)). starts_with line HIGH_RISK_APP_PERMS"
proof -
  have "filter (\<lambda>g. perm g \<in> set TIER0_APP_PERMISSIONS) (app_role_grants p) \<noteq> []"
    using assms by (auto simp: filter_empty_conv)
  then show ?thesis
    unfolding rule_app_permission_risk_def Let_def
    by (simp only: merge_all_simps list.map concat.simps only_if_simps if_True rc_simps not_False_eq_True
        set_append Un_iff bex_Un list.set bex_simps simp_thms) (simp add: starts_with_def)
qed

lemma tier0_points:
  assumes "g \<in> set (app_role_grants p)" "perm g \<in> set TIER0_APP_PERMISSIONS"
  shows "25 \<le> principal_points d en p"
proof -
  have "grant_points p g \<le> (\<Sum>g \<in> set (app_role_grants p). grant_points p g)"
    using assms(1) by (intro member_le_sum) auto
  moreover have "grant_points p g = 25" using assms(2) by (simp add: grant_points_def)
  ultimately show ?thesis by (simp add: principal_points_def)
qed

definition sp_flagged :: "audit_item \<Rightarrow> bool" where
  "sp_flagged item \<longleftrightarrow> sp_risk_state item \<in> {Some ''confirmedCompromised'', Some ''atRisk''}"

definition disable_fixes :: "audit_item \<Rightarrow> nat" where
  "disable_fixes item = length (filter (\<lambda>r. rem_kind r = DisableSignIn) (remediations item))"

text \<open>Sample records for the witnesses.\<close>

definition sample_app :: application where
  "sample_app = \<lparr>app_object_id = ''o'', app_app_id = ''a'', app_display_name = ''App'', app_description = None,
     app_sign_in_audience = Some ''AzureADMultipleOrgs'', app_publisher_domain = None, app_created_date_time = None,
     password_credentials = [], key_credentials = [], app_required_resource_access = [], app_verified_publisher = None,
     sp_lock = None, is_fallback_public_client = None, owners = Some [], disabled_by_microsoft_status = None,
     app_notes = None\<rparr>"

definition sample_sp :: sp_audit_input where
  "sample_sp = \<lparr>sp_display_name = ''SP'', sp_app_id = ''a'', sp_object_id = ''o'', sp_created_date_time = None,
     account_enabled = Some False, sp_app_owner_organization_id = None, service_principal_type = None,
     sp_disabled_by_microsoft_status = None\<rparr>"

definition sample_perms :: app_permissions where
  "sample_perms = \<lparr>app_role_grants = [graph ''RoleManagement.ReadWrite.Directory'', graph ''Mail.Send'', graph ''Mail.Send''],
     scope_values = [], has_admin_consent = False, admin_consented_scopes = None,
     mail_scopes = [(''Mail.Send'', Scoped None None None Rbac)], undeclared_grants = []\<rparr>"

lemmas sample_defs = sample_app_def sample_sp_def sample_perms_def graph_def

lemma sample_scoped: "is_scoped sample_perms (graph ''Mail.Send'')"
  by code_simp

lemma sample_principal_points: "principal_points None (Some False) sample_perms = 30"
proof -
  have "grant_points sample_perms (graph ''RoleManagement.ReadWrite.Directory'') = 25"
    by (simp add: grant_points_def graph_def TIER0_APP_PERMISSIONS_def)
  moreover have "grant_points sample_perms (graph ''Mail.Send'') = 3"
    using sample_scoped by (simp add: grant_points_def graph_def TIER0_APP_PERMISSIONS_def HIGH_RISK_APP_PERMISSIONS_def)
  moreover have "set (app_role_grants sample_perms) = {graph ''RoleManagement.ReadWrite.Directory'', graph ''Mail.Send''}"
    by (simp add: sample_perms_def)
  ultimately show ?thesis by (simp add: principal_points_def sample_defs)
qed

lemma sample_application_points: "application_points sample_app (Some False) sample_perms 0 = 35"
  using sample_principal_points
  by (simp add: application_points_def sample_app_def all_credentials_def summarize_credentials_def credential_points_def
      exposure_points_def unverified_publisher_def sample_perms_def)

section \<open>Properties\<close>

text \<open>C3: the score of an application is exact.  For any application with at most 100 million granted
  roles the 32-bit accumulator never wraps: the score is the reference sum, which counts each
  distinct grant once, at the points of its tier (3 or 2 instead of 10 or 5 when its mailbox reach is
  scoped), plus the fixed points of the other rules, together at most 40; and the risk level is the
  one the thresholds 25, 15 and 8 give to that sum.\<close>

theorem score_application_exact:
  assumes "length (app_role_grants p) \<le> 100000000"
  shows "unat (risk_score (score_application app enabled p now)) = application_points app enabled p now
    \<and> application_points app enabled p now \<le> (\<Sum>g \<in> set (app_role_grants p). grant_points p g) + 40
    \<and> ai_risk_level (score_application app enabled p now) =
        (let n = application_points app enabled p now
         in if 25 \<le> n then Critical else if 15 \<le> n then High else if 8 \<le> n then Medium else Low)"
proof -
  have small: "application_points app enabled p now < 2 ^ 32"
    using assms application_points_bound [of app enabled p now] by simp
  have "application_points app enabled p now \<le> (\<Sum>g \<in> set (app_role_grants p). grant_points p g) + 40"
    by (auto simp: application_points_def principal_points_def credential_points_def exposure_points_def split: option.split)
  with small show ?thesis
    by (simp add: application_score levels_follow_score unat_exact from_score_of_nat)
qed

theorem score_application_exact_witness:
  "unat (risk_score (score_application sample_app (Some False) sample_perms 0)) = 35
   \<and> ai_risk_level (score_application sample_app (Some False) sample_perms 0) = Critical"
  using score_application_exact [of sample_perms sample_app "Some False" 0] sample_application_points
  by (simp add: sample_perms_def)


text \<open>The score of a principal without a local application object is exact too: only its grants,
  Microsoft's disable flag, admin consent and its enabled state count.\<close>

theorem score_service_principal_exact:
  assumes "length (app_role_grants p) \<le> 100000000"
  shows "unat (risk_score (score_service_principal sp p now)) =
           principal_points (sp_disabled_by_microsoft_status sp) (account_enabled sp) p
    \<and> ai_risk_level (score_service_principal sp p now) =
        (let n = principal_points (sp_disabled_by_microsoft_status sp) (account_enabled sp) p
         in if 25 \<le> n then Critical else if 15 \<le> n then High else if 8 \<le> n then Medium else Low)"
proof -
  have "principal_points (sp_disabled_by_microsoft_status sp) (account_enabled sp) p < 2 ^ 32"
    using assms principal_points_bound [of "sp_disabled_by_microsoft_status sp" "account_enabled sp" p] by simp
  then show ?thesis by (simp add: service_principal_score levels_follow_score unat_exact from_score_of_nat)
qed

theorem score_service_principal_exact_witness:
  "unat (risk_score (score_service_principal sample_sp sample_perms 0)) = 30
   \<and> ai_risk_level (score_service_principal sample_sp sample_perms 0) = Critical"
  using score_service_principal_exact [of sample_perms sample_sp 0] sample_principal_points
  by (simp add: sample_perms_def sample_sp_def)


text \<open>A tier-0 application permission (a direct path to Global Administrator) makes the row Critical
  by itself, on an application and on a bare service principal, whatever else the record says and
  whatever mailbox scoping was found, and a line with the high-risk marker reports it.\<close>

theorem tier0_grant_is_critical:
  assumes "g \<in> set (app_role_grants p)" and "perm g \<in> set TIER0_APP_PERMISSIONS"
    and "length (app_role_grants p) \<le> 100000000"
  shows "ai_risk_level (score_application app enabled p now) = Critical
    \<and> ai_risk_level (score_service_principal sp p now) = Critical
    \<and> (\<exists>line \<in> set (issues (score_application app enabled p now)). starts_with line HIGH_RISK_APP_PERMS)
    \<and> (\<exists>line \<in> set (issues (score_service_principal sp p now)). starts_with line HIGH_RISK_APP_PERMS)"
proof -
  have deduped: "g \<in> set (app_role_grants (deduped p))" using assms(1) by (simp add: set_deduped_grants)
  have small: "principal_points d en p < 2 ^ 32" "application_points app enabled p now < 2 ^ 32" for d en
    using assms(3) principal_points_bound [of d en p] application_points_bound [of app enabled p now] by simp_all
  have "25 \<le> application_points app enabled p now"
    using tier0_points [OF assms(1,2), of "disabled_by_microsoft_status app" enabled] by (simp add: application_points_def)
  then show ?thesis
    using tier0_points [OF assms(1,2)] tier0_issue [OF deduped assms(2)] small
    by (auto simp: levels_follow_score application_score service_principal_score from_score_of_nat application_issues
        service_principal_issues simp del: starts_with_code)
qed

theorem tier0_grant_is_critical_witness:
  "graph ''RoleManagement.ReadWrite.Directory'' \<in> set (app_role_grants sample_perms)
   \<and> ai_risk_level (score_application sample_app None sample_perms 0) = Critical
   \<and> ai_risk_level (score_service_principal sample_sp sample_perms 0) = Critical"
  using tier0_grant_is_critical [of "graph ''RoleManagement.ReadWrite.Directory''" sample_perms sample_app None 0 sample_sp]
  by (simp add: sample_perms_def graph_def TIER0_APP_PERMISSIONS_def)


text \<open>A grant listed twice counts once.  Repeating a granted role that the record already has
  (same resource, same permission) changes nothing in the row: neither score, nor level, nor issues,
  nor remediations, nor permission count, for either entry point.\<close>

theorem duplicate_grant_no_effect:
  assumes "g \<in> set (app_role_grants p)"
  shows "score_application app enabled (p\<lparr>app_role_grants := app_role_grants p @ [g]\<rparr>) now
           = score_application app enabled p now
       \<and> score_service_principal sp (p\<lparr>app_role_grants := app_role_grants p @ [g]\<rparr>) now
           = score_service_principal sp p now"
  unfolding score_application_def score_service_principal_def deduped_repeat [OF assms] by (intro conjI refl)

theorem duplicate_grant_no_effect_witness:
  "score_application sample_app None
     (sample_perms\<lparr>app_role_grants := app_role_grants sample_perms @ [graph ''Mail.Send'']\<rparr>) 0
   = score_application sample_app None sample_perms 0"
  by (rule duplicate_grant_no_effect [of "graph ''Mail.Send''" sample_perms sample_app None 0 sample_sp, THEN conjunct1])
     (simp add: sample_perms_def)


text \<open>an Identity Protection flag raises the row.  A row whose service principal is
  \<open>atRisk\<close> or \<open>confirmedCompromised\<close> gains exactly 20 points, ends at least High, keeps every earlier
  issue and remediation and gains an issue line with the risky marker; an enabled principal ends with
  a Disable sign-in fix, never a second one.  Every other row is returned unchanged.\<close>

theorem apply_service_principal_risk_effect:
  assumes "unat (risk_score item) < 2 ^ 32 - 20"
  shows "(\<not> sp_flagged item \<longrightarrow> apply_service_principal_risk item = item)
    \<and> (sp_flagged item \<longrightarrow>
         unat (risk_score (apply_service_principal_risk item)) = unat (risk_score item) + 20
       \<and> High \<le> ai_risk_level (apply_service_principal_risk item)
       \<and> ai_risk_level (apply_service_principal_risk item) = from_score (risk_score (apply_service_principal_risk item))
       \<and> (\<exists>line. issues (apply_service_principal_risk item) = issues item @ [line] \<and> starts_with line RISKY_SERVICE_PRINCIPAL)
       \<and> take (length (remediations item)) (remediations (apply_service_principal_risk item)) = remediations item
       \<and> disable_fixes (apply_service_principal_risk item) =
           (if service_principal_enabled item = Some True then max 1 (disable_fixes item) else disable_fixes item))"
proof -
  have add: "unat (risk_score item + 20) = unat (risk_score item) + 20"
    using assms by (simp add: unat_word_ariths)
  then have "RISK_HIGH \<le> risk_score item + 20" by (simp add: RISK_HIGH_def word_le_nat_alt)
  then have "High \<le> from_score (risk_score item + 20)" by (simp add: from_score_def less_eq_risk_level_def)
  with add show ?thesis
    unfolding sp_flagged_def disable_fixes_def
    by (auto simp: apply_service_principal_risk_def PTS_RISKY_SERVICE_PRINCIPAL_def Let_def list_ex_iff
        filter_empty_conv Suc_le_eq max_def simp del: starts_with_code split: option.split)
qed

theorem apply_service_principal_risk_effect_witness:
  "unat (risk_score (apply_service_principal_risk
      ((score_service_principal sample_sp sample_perms 0)\<lparr>sp_risk_state := Some ''atRisk''\<rparr>))) = 50"
proof -
  let ?item = "score_service_principal sample_sp sample_perms 0"
  have "risk_score ?item = 30"
    using service_principal_score [of sample_sp sample_perms 0] sample_principal_points by (simp add: sample_sp_def)
  then show ?thesis
    using apply_service_principal_risk_effect [of "?item\<lparr>sp_risk_state := Some ''atRisk''\<rparr>"]
    by (simp add: sp_flagged_def)
qed


end
