(* ===== verification/Audit_Findings.thy ===== *)
theory Audit_Findings
  imports Audit_Scoring
begin

text \<open>
  The finding classifier and the posture counts:
  \<^verbatim>\<open>crates/azapptoolkit-core/src/audit/finding.rs\<close> and
  \<^verbatim>\<open>crates/azapptoolkit-core/src/audit/posture.rs\<close>.  A finding is a key; its predicate is an
  issue-line marker for most keys and a structured field of the row for the others.  The lemmas relate
  the three things an operator sees for one row: the finding groups, the fixes offered and the counts.
\<close>

section \<open>Findings\<close>

definition finding_issue_marker :: "string \<Rightarrow> (string \<Rightarrow> bool) option" where
  "finding_issue_marker finding =
     (if finding = ''high_risk_perms'' then Some (\<lambda>x. starts_with x HIGH_RISK_APP_PERMS)
      else if finding = ''high_risk_delegated'' then Some (\<lambda>x. starts_with x HIGH_RISK_DELEGATED_PERMS)
      else if finding = ''external_exposure'' then
        Some (\<lambda>x. starts_with x MULTITENANT_AUDIENCE \<or> starts_with x UNVERIFIED_PUBLISHER)
      else if finding = ''orgwide_mailbox'' then Some (\<lambda>x. starts_with x ORG_WIDE_MAILBOX)
      else if finding = ''scoped_mailbox'' then Some (\<lambda>x. contains_str x SCOPED_VIA_RBAC)
      else if finding = ''legacy_mailbox_scope'' then Some (\<lambda>x. starts_with x LEGACY_MAILBOX_POLICY)
      else if finding = ''orgwide_sharepoint'' then Some (\<lambda>x. starts_with x ORG_WIDE_SHAREPOINT)
      else if finding = ''orgwide_files'' then Some (\<lambda>x. starts_with x ORG_WIDE_FILES)
      else if finding = ''unscopable_legacy_mailbox'' then Some (\<lambda>x. starts_with x UNSCOPABLE_LEGACY_MAILBOX)
      else if finding = ''unconfinable_orgwide'' then
        Some (\<lambda>x. starts_with x UNCONFINABLE_MAILBOX \<or> starts_with x UNCONFINABLE_SHAREPOINT)
      else if finding = ''redundant_perms'' then Some (\<lambda>x. starts_with x REDUNDANT_APP_PERMS)
      else if finding = ''granted_undeclared'' then Some (\<lambda>x. starts_with x GRANTED_NOT_DECLARED)
      else if finding = ''scoped_sites'' then Some (\<lambda>x. starts_with x SCOPED_SHAREPOINT)
      else if finding = ''disabled_by_microsoft'' then Some (\<lambda>x. starts_with x DISABLED_BY_MICROSOFT)
      else if finding = ''risky_service_principal'' then Some (\<lambda>x. starts_with x RISKY_SERVICE_PRINCIPAL)
      else if finding = ''unused_credential'' then Some (\<lambda>x. starts_with x UNUSED_CREDENTIAL)
      else if finding = ''ownership'' then Some (\<lambda>x. starts_with x NO_OWNERS \<or> starts_with x SINGLE_OWNER)
      else None)"

definition matches_finding :: "audit_item \<Rightarrow> string \<Rightarrow> bool" where
  "matches_finding i finding \<longleftrightarrow>
     (case finding_issue_marker finding of
        Some marks \<Rightarrow> list_ex marks (issues i)
      | None \<Rightarrow>
          if finding = ''expired'' then credential_status_of i = Expired
          else if finding = ''unused'' then unused i
          else if finding = ''no_local_app'' then principal_kind i \<in> {ServicePrincipalOnly, ManagedIdentity}
          else True)"

section \<open>Posture counts\<close>

record posture_counts =
  n_critical :: nat
  n_high :: nat
  n_medium :: nat
  n_low :: nat
  n_expired :: nat
  n_unused :: nat
  n_over_privileged :: nat
  n_high_risk_delegated :: nat
  n_orgwide_mailbox :: nat
  n_scoped_mailbox :: nat
  n_legacy_mailbox_scope :: nat
  n_unscopable_legacy_mailbox :: nat
  n_unconfinable_orgwide :: nat
  n_orgwide_sharepoint :: nat
  n_orgwide_files :: nat
  n_scoped_sites :: nat
  n_unowned :: nat
  n_no_local_app :: nat

definition POSTURE_FINDING_KEYS :: "string list" where
  "POSTURE_FINDING_KEYS =
     [''expired'', ''unused'', ''high_risk_perms'', ''high_risk_delegated'', ''orgwide_mailbox'', ''scoped_mailbox'',
      ''legacy_mailbox_scope'', ''unscopable_legacy_mailbox'', ''unconfinable_orgwide'', ''orgwide_sharepoint'',
      ''orgwide_files'', ''scoped_sites'', ''ownership'', ''no_local_app'']"

definition posture_finding :: "posture_counts \<Rightarrow> string \<Rightarrow> nat option" where
  "posture_finding c key =
     (if key = ''expired'' then Some (n_expired c)
      else if key = ''unused'' then Some (n_unused c)
      else if key = ''high_risk_perms'' then Some (n_over_privileged c)
      else if key = ''high_risk_delegated'' then Some (n_high_risk_delegated c)
      else if key = ''orgwide_mailbox'' then Some (n_orgwide_mailbox c)
      else if key = ''scoped_mailbox'' then Some (n_scoped_mailbox c)
      else if key = ''legacy_mailbox_scope'' then Some (n_legacy_mailbox_scope c)
      else if key = ''unscopable_legacy_mailbox'' then Some (n_unscopable_legacy_mailbox c)
      else if key = ''unconfinable_orgwide'' then Some (n_unconfinable_orgwide c)
      else if key = ''orgwide_sharepoint'' then Some (n_orgwide_sharepoint c)
      else if key = ''orgwide_files'' then Some (n_orgwide_files c)
      else if key = ''scoped_sites'' then Some (n_scoped_sites c)
      else if key = ''ownership'' then Some (n_unowned c)
      else if key = ''no_local_app'' then Some (n_no_local_app c)
      else None)"

definition count_level :: "audit_item list \<Rightarrow> risk_level \<Rightarrow> nat" where
  "count_level items level = length (filter (\<lambda>i. ai_risk_level i = level) items)"

definition count_finding :: "audit_item list \<Rightarrow> string \<Rightarrow> nat" where
  "count_finding items key = length (filter (\<lambda>i. matches_finding i key) items)"

definition posture_counts_of :: "audit_item list \<Rightarrow> posture_counts" where
  "posture_counts_of items =
     \<lparr>n_critical = count_level items Critical, n_high = count_level items High,
      n_medium = count_level items Medium, n_low = count_level items Low,
      n_expired = count_finding items ''expired'', n_unused = count_finding items ''unused'',
      n_over_privileged = count_finding items ''high_risk_perms'',
      n_high_risk_delegated = count_finding items ''high_risk_delegated'',
      n_orgwide_mailbox = count_finding items ''orgwide_mailbox'',
      n_scoped_mailbox = count_finding items ''scoped_mailbox'',
      n_legacy_mailbox_scope = count_finding items ''legacy_mailbox_scope'',
      n_unscopable_legacy_mailbox = count_finding items ''unscopable_legacy_mailbox'',
      n_unconfinable_orgwide = count_finding items ''unconfinable_orgwide'',
      n_orgwide_sharepoint = count_finding items ''orgwide_sharepoint'',
      n_orgwide_files = count_finding items ''orgwide_files'',
      n_scoped_sites = count_finding items ''scoped_sites'',
      n_unowned = count_finding items ''ownership'',
      n_no_local_app = count_finding items ''no_local_app''\<rparr>"

fun list_max :: "risk_level list \<Rightarrow> risk_level option" where
  "list_max [] = None"
| "list_max (x # xs) = Some (foldl max x xs)"

definition finding_worst :: "audit_item list \<Rightarrow> string \<Rightarrow> risk_level option" where
  "finding_worst items key = list_max (map ai_risk_level (filter (\<lambda>i. matches_finding i key) items))"

section \<open>Counting lemmas\<close>

lemma foldl_max_Max: "foldl max x xs = Max (insert x (set xs))" for x :: risk_level
proof (induction xs arbitrary: x)
  case (Cons y ys)
  have "Max (insert (max x y) (set ys)) = Max (insert x (insert y (set ys)))"
    by (cases "ys = []") (simp_all add: max.assoc)
  then show ?case using Cons [of "max x y"] by simp
qed simp

lemma list_max_eq: "list_max xs = (if xs = [] then None else Some (Max (set xs)))"
  by (cases xs) (simp_all add: foldl_max_Max)

lemma levels_partition:
  "length items = count_level items Critical + count_level items High + count_level items Medium + count_level items Low"
proof (induction items)
  case (Cons i items)
  then show ?case by (cases "ai_risk_level i") (simp_all add: count_level_def)
qed (simp add: count_level_def)

lemma finding_of_counts:
  assumes "key \<in> set POSTURE_FINDING_KEYS"
  shows "posture_finding (posture_counts_of items) key = Some (count_finding items key)"
  using assms unfolding POSTURE_FINDING_KEYS_def
  by (auto simp: posture_finding_def posture_counts_of_def)

section \<open>Which rule writes which marker\<close>

definition marked :: "string \<Rightarrow> rule_contribution \<Rightarrow> bool" where
  "marked marker c \<longleftrightarrow> list_ex (\<lambda>x. starts_with x marker) (rc_issues c)"

text \<open>The markers that pair with a fix.\<close>

definition fix_markers :: "string set" where
  "fix_markers = {ORG_WIDE_MAILBOX, LEGACY_MAILBOX_POLICY, ORG_WIDE_SHAREPOINT, REDUNDANT_APP_PERMS, NO_OWNERS, SINGLE_OWNER}"

lemmas fix_marker_defs = ORG_WIDE_MAILBOX_def LEGACY_MAILBOX_POLICY_def ORG_WIDE_SHAREPOINT_def
  REDUNDANT_APP_PERMS_def NO_OWNERS_def SINGLE_OWNER_def

lemma marked_simps [simp]:
  "marked m (merge_all cs) \<longleftrightarrow> list_ex (marked m) cs"
  "marked m (merge a b) \<longleftrightarrow> marked m a \<or> marked m b"
  "marked m (only_if cond c) \<longleftrightarrow> cond \<and> marked m c"
  "\<not> marked m rc_default"
  "marked m (rc n is rs) \<longleftrightarrow> list_ex (\<lambda>x. starts_with x m) is"
  by (induction cs) (auto simp: marked_def list_ex_iff)

lemma starts_with_step:
  "starts_with (a # s) (b # t) \<longleftrightarrow> a = b \<and> starts_with s t" "starts_with s []" "\<not> starts_with [] (b # t)"
  by (auto simp: starts_with_def)

lemma fix_markers_cases:
  assumes "m \<in> fix_markers" "P ORG_WIDE_MAILBOX" "P LEGACY_MAILBOX_POLICY" "P ORG_WIDE_SHAREPOINT"
    "P REDUNDANT_APP_PERMS" "P NO_OWNERS" "P SINGLE_OWNER"
  shows "P m"
  using assms by (auto simp: fix_markers_def)

lemma unmarked_risk: "m \<in> fix_markers \<Longrightarrow> \<not> marked m (rule_app_permission_risk p)"
  by (erule fix_markers_cases)
     (simp_all add: rule_app_permission_risk_def scoped_risk_issue_def Let_def marker_defs starts_with_step del: starts_with_code)

lemma unmarked_credentials: "m \<in> fix_markers \<Longrightarrow> \<not> marked m (rule_credentials ex es n ll)"
  by (erule fix_markers_cases)
     (simp_all add: rule_credentials_def Let_def marker_defs starts_with_step del: starts_with_code)

lemma unmarked_exposure: "m \<in> fix_markers \<Longrightarrow> \<not> marked m (rule_external_exposure app a b)"
  by (erule fix_markers_cases)
     (simp_all add: rule_external_exposure_def Let_def marker_defs starts_with_step del: starts_with_code split: option.split)

lemma unmarked_rest:
  assumes "m \<in> fix_markers"
  shows "\<not> marked m (rule_disabled_by_microsoft st) \<and> \<not> marked m (rule_admin_consent p)
    \<and> \<not> marked m (rule_sp_disabled en) \<and> \<not> marked m (rule_stale_app d)
    \<and> \<not> marked m (rule_high_risk_delegated ds cs) \<and> \<not> marked m (rule_granted_undeclared p)
    \<and> \<not> marked m (rule_downgrade_pointers gs f)"
  by (rule fix_markers_cases [OF assms])
     (simp_all add: rule_disabled_by_microsoft_def rule_admin_consent_def rule_sp_disabled_def rule_stale_app_def
        rule_high_risk_delegated_def rule_granted_undeclared_def rule_downgrade_pointers_def
        Let_def marker_defs starts_with_step del: starts_with_code split: option.split)

lemmas unmarked = unmarked_risk unmarked_credentials unmarked_exposure unmarked_rest

lemma mailbox_marks:
  "marked ORG_WIDE_MAILBOX (fst (rule_mailbox_advisory p)) \<longleftrightarrow> fst (snd (rule_mailbox_advisory p)) \<noteq> []"
  "marked LEGACY_MAILBOX_POLICY (fst (rule_mailbox_advisory p)) \<longleftrightarrow> snd (snd (rule_mailbox_advisory p)) \<noteq> []"
  "m \<in> {ORG_WIDE_SHAREPOINT, REDUNDANT_APP_PERMS, NO_OWNERS, SINGLE_OWNER} \<Longrightarrow> \<not> marked m (fst (rule_mailbox_advisory p))"
  by (cases "mailbox_sets p"; auto simp: rule_mailbox_advisory_def marker_defs starts_with_step simp del: starts_with_code)+

lemma sharepoint_marks:
  "marked ORG_WIDE_SHAREPOINT (fst (rule_sharepoint_advisory p)) \<longleftrightarrow> snd (rule_sharepoint_advisory p) \<noteq> []"
  "m \<in> {ORG_WIDE_MAILBOX, LEGACY_MAILBOX_POLICY, REDUNDANT_APP_PERMS, NO_OWNERS, SINGLE_OWNER}
     \<Longrightarrow> \<not> marked m (fst (rule_sharepoint_advisory p))"
  by (auto simp: rule_sharepoint_advisory_def Let_def marker_defs starts_with_step simp del: starts_with_code)

lemma redundant_marks:
  "marked REDUNDANT_APP_PERMS (fst (rule_redundant_permissions p)) \<longleftrightarrow> snd (rule_redundant_permissions p) \<noteq> []"
  "m \<in> {ORG_WIDE_MAILBOX, LEGACY_MAILBOX_POLICY, ORG_WIDE_SHAREPOINT, NO_OWNERS, SINGLE_OWNER}
     \<Longrightarrow> \<not> marked m (fst (rule_redundant_permissions p))"
  by (auto simp: rule_redundant_permissions_def Let_def marker_defs starts_with_step simp del: starts_with_code)

lemma hygiene_marks:
  "marked NO_OWNERS (rule_app_hygiene app a b c) \<longleftrightarrow> owners app = Some []"
  "marked SINGLE_OWNER (rule_app_hygiene app a b c) \<longleftrightarrow> (\<exists>o1. owners app = Some [o1])"
  "m \<in> {ORG_WIDE_MAILBOX, LEGACY_MAILBOX_POLICY, ORG_WIDE_SHAREPOINT, REDUNDANT_APP_PERMS}
     \<Longrightarrow> \<not> marked m (rule_app_hygiene app a b c)"
  by (auto simp: rule_app_hygiene_def Let_def marker_defs starts_with_step length_Suc_conv
      simp del: starts_with_code split: option.split)

lemma list_ex_marked: "list_ex (\<lambda>x. starts_with x m) (rc_issues c) \<longleftrightarrow> marked m c"
  by (simp add: marked_def)

lemma fix_markers_mem [simp]:
  "ORG_WIDE_MAILBOX \<in> fix_markers" "LEGACY_MAILBOX_POLICY \<in> fix_markers" "ORG_WIDE_SHAREPOINT \<in> fix_markers"
  "REDUNDANT_APP_PERMS \<in> fix_markers" "NO_OWNERS \<in> fix_markers" "SINGLE_OWNER \<in> fix_markers"
  by (simp_all add: fix_markers_def)

lemma application_marks:
  assumes "m \<in> fix_markers"
  shows "list_ex (\<lambda>x. starts_with x m) (issues (score_application app en p now)) \<longleftrightarrow>
      marked m (fst (rule_mailbox_advisory (declared_view (deduped p))))
    \<or> marked m (fst (rule_sharepoint_advisory (declared_view (deduped p))))
    \<or> marked m (rule_app_hygiene app (app_role_grants p \<noteq> []) (all_credentials app now \<noteq> [])
        (fst (summarize_credentials app now) \<noteq> []))
    \<or> marked m (fst (rule_redundant_permissions (declared_view (deduped p))))"
  using unmarked [OF assms]
  by (simp only: application_issues list_ex_append list_ex_marked) blast

lemma service_principal_marks:
  assumes "m \<in> fix_markers"
  shows "list_ex (\<lambda>x. starts_with x m) (issues (score_service_principal sp p now)) \<longleftrightarrow>
      marked m (fst (rule_mailbox_advisory (deduped p))) \<or> marked m (fst (rule_sharepoint_advisory (deduped p)))"
  using unmarked [OF assms]
  by (simp only: service_principal_issues list_ex_append list_ex_marked) blast

definition has_fix :: "audit_item \<Rightarrow> remediation_kind \<Rightarrow> bool" where
  "has_fix i k \<longleftrightarrow> list_ex (\<lambda>r. rem_kind r = k) (remediations i)"

lemma built_fixes:
  "list_ex (\<lambda>r. rem_kind r = RemoveExpiredCredentials) (build_remediations e mu ml so re oc) \<longleftrightarrow> e \<noteq> []"
  "list_ex (\<lambda>r. rem_kind r = ScopeMailboxAccess) (build_remediations e mu ml so re oc) \<longleftrightarrow> mu \<noteq> []"
  "list_ex (\<lambda>r. rem_kind r = MigrateApplicationAccessPolicy) (build_remediations e mu ml so re oc) \<longleftrightarrow> ml \<noteq> []"
  "list_ex (\<lambda>r. rem_kind r = ScopeSharePointAccess) (build_remediations e mu ml so re oc) \<longleftrightarrow> so \<noteq> []"
  "list_ex (\<lambda>r. rem_kind r = RemoveRedundantPermissions) (build_remediations e mu ml so re oc) \<longleftrightarrow> re \<noteq> []"
  "list_ex (\<lambda>r. rem_kind r = AddOwner) (build_remediations e mu ml so re oc) \<longleftrightarrow> oc = Some 0 \<or> oc = Some 1"
  by (auto simp: build_remediations_def split: option.split)

lemma application_remediations:
  "remediations (score_application app en p now) =
     build_remediations (with_status Expired (all_credentials app now))
       (fst (snd (rule_mailbox_advisory (declared_view (deduped p)))))
       (snd (snd (rule_mailbox_advisory (declared_view (deduped p)))))
       (snd (rule_sharepoint_advisory (declared_view (deduped p))))
       (snd (rule_redundant_permissions (declared_view (deduped p))))
       (map_option length (owners app))"
  "credential_status_of (score_application app en p now) = overall_credential_status (all_credentials app now)"
  unfolding score_application_def Let_def case_prod_beta all_credentials_def by simp_all

lemma service_principal_remediations:
  "remediations (score_service_principal sp p now) =
     build_remediations [] (fst (snd (rule_mailbox_advisory (deduped p)))) (snd (snd (rule_mailbox_advisory (deduped p))))
       (snd (rule_sharepoint_advisory (deduped p))) [] None"
  unfolding score_service_principal_def Let_def case_prod_beta by simp

lemma marker_findings:
  "matches_finding i ''orgwide_mailbox'' \<longleftrightarrow> list_ex (\<lambda>x. starts_with x ORG_WIDE_MAILBOX) (issues i)"
  "matches_finding i ''legacy_mailbox_scope'' \<longleftrightarrow> list_ex (\<lambda>x. starts_with x LEGACY_MAILBOX_POLICY) (issues i)"
  "matches_finding i ''orgwide_sharepoint'' \<longleftrightarrow> list_ex (\<lambda>x. starts_with x ORG_WIDE_SHAREPOINT) (issues i)"
  "matches_finding i ''redundant_perms'' \<longleftrightarrow> list_ex (\<lambda>x. starts_with x REDUNDANT_APP_PERMS) (issues i)"
  "matches_finding i ''ownership'' \<longleftrightarrow> list_ex (\<lambda>x. starts_with x NO_OWNERS) (issues i)
     \<or> list_ex (\<lambda>x. starts_with x SINGLE_OWNER) (issues i)"
  "matches_finding i ''expired'' \<longleftrightarrow> credential_status_of i = Expired"
  by (simp_all add: matches_finding_def finding_issue_marker_def list_ex_iff del: starts_with_code) blast

section \<open>A group that matches by accident\<close>

text \<open>\<open>scoped_mailbox\<close> looks for its marker anywhere in a line, and some lines quote names an operator
  chose.  An application that holds no permission at all, with one long-lived secret named like the
  marker, is in the group of applications whose mailbox access is scoped.\<close>

definition misnamed_app :: application where
  "misnamed_app = sample_app\<lparr>password_credentials :=
     [\<lparr>pc_key_id = ''k'', pc_display_name = Some ''scoped via RBAC for Applications'', pc_hint = None,
       pc_start_date_time = Some 0, pc_end_date_time = Some (800 * NANOS_PER_DAY), pc_secret_text = None\<rparr>]\<rparr>"

definition no_perms :: app_permissions where
  "no_perms = \<lparr>app_role_grants = [], scope_values = [], has_admin_consent = False, admin_consented_scopes = None,
     mail_scopes = [], undeclared_grants = []\<rparr>"

lemma scoped_mailbox_false_positive:
  "app_role_grants no_perms = [] \<and> matches_finding (score_application misnamed_app None no_perms 0) ''scoped_mailbox''"
  by code_simp

section \<open>Properties\<close>

text \<open>C24: every fix the audit offers has its finding, and the other way round.  A scored application
  carries each kind of fix exactly when it is in the group the fix belongs to, so no group has a row its
  bulk fix cannot apply to, and no row of the group lacks the fix; the same holds for the
  mailbox and SharePoint fixes of a principal without a local application.\<close>

theorem fixes_match_findings:
  "(has_fix (score_application app en p now) RemoveExpiredCredentials
      \<longleftrightarrow> matches_finding (score_application app en p now) ''expired'')
   \<and> (has_fix (score_application app en p now) ScopeMailboxAccess
      \<longleftrightarrow> matches_finding (score_application app en p now) ''orgwide_mailbox'')
   \<and> (has_fix (score_application app en p now) MigrateApplicationAccessPolicy
      \<longleftrightarrow> matches_finding (score_application app en p now) ''legacy_mailbox_scope'')
   \<and> (has_fix (score_application app en p now) ScopeSharePointAccess
      \<longleftrightarrow> matches_finding (score_application app en p now) ''orgwide_sharepoint'')
   \<and> (has_fix (score_application app en p now) RemoveRedundantPermissions
      \<longleftrightarrow> matches_finding (score_application app en p now) ''redundant_perms'')
   \<and> (has_fix (score_application app en p now) AddOwner
      \<longleftrightarrow> matches_finding (score_application app en p now) ''ownership'')
   \<and> (has_fix (score_service_principal sp p now) ScopeMailboxAccess
      \<longleftrightarrow> matches_finding (score_service_principal sp p now) ''orgwide_mailbox'')
   \<and> (has_fix (score_service_principal sp p now) MigrateApplicationAccessPolicy
      \<longleftrightarrow> matches_finding (score_service_principal sp p now) ''legacy_mailbox_scope'')
   \<and> (has_fix (score_service_principal sp p now) ScopeSharePointAccess
      \<longleftrightarrow> matches_finding (score_service_principal sp p now) ''orgwide_sharepoint'')"
  unfolding has_fix_def application_remediations(1) service_principal_remediations built_fixes marker_findings
  by (simp add: application_marks service_principal_marks mailbox_marks sharepoint_marks redundant_marks hygiene_marks
      application_remediations(2) overall_expired_iff with_status_nonempty length_Suc_conv
      del: starts_with_code) (auto simp: with_status_def filter_empty_conv length_Suc_conv)

text \<open>the posture counts are the group sizes.  For every counted key the count is the number of rows
  the finding's own classifier accepts, a key no bucket counts has none, the four level counts add up to the
  run, and the worst level of a group is the largest level of its rows, absent exactly when the group is empty.\<close>

theorem posture_counts_are_group_sizes:
  "posture_finding (posture_counts_of items) key =
     (if key \<in> set POSTURE_FINDING_KEYS then Some (length [i \<leftarrow> items. matches_finding i key]) else None)
   \<and> n_critical (posture_counts_of items) + n_high (posture_counts_of items) + n_medium (posture_counts_of items)
       + n_low (posture_counts_of items) = length items
   \<and> finding_worst items key =
       (if [i \<leftarrow> items. matches_finding i key] = [] then None
        else Some (Max (ai_risk_level ` {i \<in> set items. matches_finding i key})))"
proof -
  have "posture_finding (posture_counts_of items) key =
      (if key \<in> set POSTURE_FINDING_KEYS then Some (length [i \<leftarrow> items. matches_finding i key]) else None)"
  proof (cases "key \<in> set POSTURE_FINDING_KEYS")
    case True
    then show ?thesis by (simp add: finding_of_counts count_finding_def)
  next
    case False
    then show ?thesis by (simp add: posture_finding_def POSTURE_FINDING_KEYS_def)
  qed
  moreover have "n_critical (posture_counts_of items) + n_high (posture_counts_of items)
      + n_medium (posture_counts_of items) + n_low (posture_counts_of items) = length items"
    by (simp add: posture_counts_of_def levels_partition)
  moreover have "finding_worst items key =
      (if [i \<leftarrow> items. matches_finding i key] = [] then None
       else Some (Max (ai_risk_level ` {i \<in> set items. matches_finding i key})))"
    by (simp add: finding_worst_def list_max_eq)
  ultimately show ?thesis by blast
qed

end
