(* ===== verification/Exchange_Filter.thy ===== *)
theory Exchange_Filter
  imports Toolkit_Prelude "HOL-Library.List_Lexorder" "HOL-Library.Char_ord"
begin

text \<open>
  The OPATH recipient filters of Exchange management scopes: writing one
  (\<^verbatim>\<open>crates/azapptoolkit-exchange/src/client/groups.rs\<close>) and reading one back
  (\<^verbatim>\<open>crates/azapptoolkit-exchange/src/targets.rs\<close>, from \<open>read_opath_literal\<close> to
  \<open>rewritable_scope_dns\<close> and \<open>filter_names_only_group\<close>).

  Indices are byte offsets, as in the source.  Two Unicode tables of the standard library are
  parameters: \<open>lower\<close> is \<open>str::to_lowercase\<close>, and \<open>uni_alnum\<close> says whether a text ends with a
  non-ASCII alphanumeric character.  The key scan advances byte by byte where the source advances a
  whole character: the two agree, since a continuation byte is neither a quote nor an ASCII letter.
\<close>

section \<open>Characters\<close>

abbreviation QUOTE :: char where "QUOTE \<equiv> CHR 0x27"
abbreviation DQUOTE :: char where "DQUOTE \<equiv> CHR 0x22"

definition is_ascii_whitespace :: "char \<Rightarrow> bool" where
  "is_ascii_whitespace c \<longleftrightarrow> (of_char c :: nat) \<in> {9, 10, 12, 13, 32}"

definition is_ascii_alnum :: "char \<Rightarrow> bool" where
  "is_ascii_alnum c \<longleftrightarrow> (let n = (of_char c :: nat) in 48 \<le> n \<and> n \<le> 57 \<or> 65 \<le> n \<and> n \<le> 90 \<or> 97 \<le> n \<and> n \<le> 122)"

section \<open>Writing a filter\<close>

definition escape_opath :: "string \<Rightarrow> string" where
  "escape_opath s = concat (map (\<lambda>c. if c = QUOTE then [QUOTE, QUOTE] else [c]) s)"

definition member_of_group_filter :: "string list \<Rightarrow> string" where
  "member_of_group_filter dns =
     join '' -or '' (map (\<lambda>dn. ''MemberOfGroup -eq '' @ [QUOTE] @ escape_opath dn @ [QUOTE]) dns)"

section \<open>Reading a filter\<close>

fun literal_body :: "string \<Rightarrow> (string \<times> nat) option" where
  "literal_body [] = None"
| "literal_body [c] = (if c = QUOTE then Some ([], 1) else None)"
| "literal_body (c # d # s) =
     (if c = QUOTE \<and> d = QUOTE then map_option (\<lambda>(out, n). (QUOTE # out, n + 2)) (literal_body s)
      else if c = QUOTE then Some ([], 1)
      else map_option (\<lambda>(out, n). (c # out, n + 1)) (literal_body (d # s)))"

definition read_opath_literal :: "string \<Rightarrow> nat \<Rightarrow> (string \<times> nat) option" where
  "read_opath_literal s open_at =
     map_option (\<lambda>(out, n). (out, open_at + 1 + n)) (literal_body (drop (open_at + 1) s))"

definition MEMBER_OF_GROUP_KEY :: string where
  "MEMBER_OF_GROUP_KEY = ''memberofgroup''"

function scan_keys :: "nat \<Rightarrow> bool \<Rightarrow> bool \<Rightarrow> string \<Rightarrow> nat list" where
  "scan_keys i in_single in_double [] = []"
| "scan_keys i in_single in_double (c # s) =
     (if c = QUOTE \<and> \<not> in_double then
        (if in_single \<and> s \<noteq> [] \<and> hd s = QUOTE then scan_keys (i + 2) in_single in_double (tl s)
         else scan_keys (i + 1) (\<not> in_single) in_double s)
      else if c = DQUOTE \<and> \<not> in_single then scan_keys (i + 1) in_single (\<not> in_double) s
      else if \<not> in_single \<and> \<not> in_double \<and> starts_with (c # s) MEMBER_OF_GROUP_KEY then
        i # scan_keys (i + length MEMBER_OF_GROUP_KEY) in_single in_double (drop (length MEMBER_OF_GROUP_KEY) (c # s))
      else scan_keys (i + 1) in_single in_double s)"
  by pat_completeness auto
termination
  by (relation "measure (\<lambda>(i, in_single, in_double, s). length s)") (auto simp: MEMBER_OF_GROUP_KEY_def)

definition member_of_group_keys :: "string \<Rightarrow> nat list" where
  "member_of_group_keys lower_filter = scan_keys 0 False False lower_filter"

definition starts_property :: "(string \<Rightarrow> bool) \<Rightarrow> string \<Rightarrow> nat \<Rightarrow> bool" where
  "starts_property uni_alnum lower_filter pos =
     (let p = take pos lower_filter
      in p = [] \<or>
         (if (of_char (last p) :: nat) < 128 then \<not> is_ascii_alnum (last p) \<and> last p \<noteq> CHR ''_''
          else \<not> uni_alnum p))"

record member_clause =
  mc_start :: nat
  mc_end :: nat
  mc_dn :: string

definition skip_ascii_whitespace :: "string \<Rightarrow> nat \<Rightarrow> nat" where
  "skip_ascii_whitespace s i = i + length (takeWhile is_ascii_whitespace (drop i s))"

definition clause_at :: "(string \<Rightarrow> bool) \<Rightarrow> string \<Rightarrow> nat \<Rightarrow> member_clause option" where
  "clause_at uni_alnum f start =
     (let lower_filter = to_ascii_lowercase f
      in if \<not> starts_property uni_alnum lower_filter start then None
         else let i = skip_ascii_whitespace f (start + length MEMBER_OF_GROUP_KEY)
              in if \<not> starts_with (drop i lower_filter) ''-eq'' then None
                 else let j = skip_ascii_whitespace f (i + 3)
                      in if \<not> starts_with (drop j f) [QUOTE] then None
                         else (case read_opath_literal f j of
                                 None \<Rightarrow> None
                               | Some (dn, e) \<Rightarrow>
                                   if is_blank dn then None else Some \<lparr>mc_start = start, mc_end = e, mc_dn = dn\<rparr>))"

definition member_of_group_clauses :: "(string \<Rightarrow> bool) \<Rightarrow> string \<Rightarrow> member_clause list" where
  "member_of_group_clauses uni_alnum f =
     List.map_filter (clause_at uni_alnum f) (member_of_group_keys (to_ascii_lowercase f))"

definition count_member_of_group :: "string \<Rightarrow> nat" where
  "count_member_of_group f = length (member_of_group_keys (to_ascii_lowercase f))"

record scope_groups =
  sg_dns :: "string set"
  sg_complete :: bool

definition scope_groups_in_filter :: "(string \<Rightarrow> bool) \<Rightarrow> string \<Rightarrow> scope_groups" where
  "scope_groups_in_filter uni_alnum f =
     (let clauses = member_of_group_clauses uni_alnum f
      in \<lparr>sg_dns = set (map mc_dn clauses), sg_complete = (length clauses = count_member_of_group f)\<rparr>)"

definition fold_dn :: "(string \<Rightarrow> string) \<Rightarrow> string \<Rightarrow> string" where
  "fold_dn lower dn = lower dn"

definition same_dn :: "(string \<Rightarrow> string) \<Rightarrow> string \<Rightarrow> string \<Rightarrow> bool" where
  "same_dn lower a b \<longleftrightarrow> fold_dn lower a = fold_dn lower b"

definition folded_dns :: "(string \<Rightarrow> string) \<Rightarrow> scope_groups \<Rightarrow> string set" where
  "folded_dns lower g = fold_dn lower ` sg_dns g"

section \<open>Rewriting\<close>

datatype unrewritable_filter = NoGroupClauses | UnparsedClause | UnsupportedClause (leftover: string)

fun unrewritable_text :: "unrewritable_filter \<Rightarrow> string" where
  "unrewritable_text NoGroupClauses = ''it isn't built from group membership''"
| "unrewritable_text UnparsedClause =
     ''it uses a MemberOfGroup comparison this toolkit can't read (only `-eq 'DN'` is understood)''"
| "unrewritable_text (UnsupportedClause l) =
     ''it combines group membership with conditions this toolkit can't preserve ('' @ l @ '')''"

fun residue_from :: "nat \<Rightarrow> member_clause list \<Rightarrow> string \<Rightarrow> string" where
  "residue_from cursor [] f = drop cursor f"
| "residue_from cursor (c # cs) f = take (mc_start c - cursor) (drop cursor f) @ residue_from (mc_end c) cs f"

function replace_or :: "string \<Rightarrow> string" where
  "replace_or [] = []"
| "replace_or (c # s) =
     (if starts_with (c # s) ''-or'' then CHR '' '' # replace_or (drop 3 (c # s)) else c # replace_or s)"
  by pat_completeness auto
termination
  by (relation "measure length") auto

definition leftover_of :: "string \<Rightarrow> string" where
  "leftover_of residue =
     filter (\<lambda>c. c \<noteq> CHR ''('' \<and> c \<noteq> CHR '')'') (strip_whitespace (replace_or (to_ascii_lowercase residue)))"

definition rewritable_scope_dns :: "(string \<Rightarrow> bool) \<Rightarrow> string \<Rightarrow> unrewritable_filter + string list" where
  "rewritable_scope_dns uni_alnum f =
     (let clauses = member_of_group_clauses uni_alnum f
      in if clauses = [] then Inl NoGroupClauses
         else if length clauses \<noteq> count_member_of_group f then Inl UnparsedClause
         else let l = leftover_of (residue_from 0 clauses f)
              in if l \<noteq> [] then Inl (UnsupportedClause l)
                 else Inr (remdups_adj (sort (map mc_dn clauses))))"

definition exact_scope_dns :: "(string \<Rightarrow> bool) \<Rightarrow> (string \<Rightarrow> string) \<Rightarrow> string \<Rightarrow> string set option" where
  "exact_scope_dns uni_alnum lower f =
     (case rewritable_scope_dns uni_alnum f of
        Inl _ \<Rightarrow> None
      | Inr dns \<Rightarrow> Some (set (map (fold_dn lower) dns)))"

definition filter_names_only_group :: "(string \<Rightarrow> bool) \<Rightarrow> (string \<Rightarrow> string) \<Rightarrow> string \<Rightarrow> string \<Rightarrow> bool" where
  "filter_names_only_group uni_alnum lower f dn \<longleftrightarrow>
     (case exact_scope_dns uni_alnum lower f of
        None \<Rightarrow> False
      | Some dns \<Rightarrow> (\<forall>d \<in> dns. d = fold_dn lower dn))"

section \<open>Reading back what was written\<close>

definition clause_text :: "string \<Rightarrow> string" where
  "clause_text dn = ''MemberOfGroup -eq '' @ [QUOTE] @ escape_opath dn @ [QUOTE]"

fun clause_records :: "nat \<Rightarrow> string list \<Rightarrow> member_clause list" where
  "clause_records i [] = []"
| "clause_records i (d # ds) =
     \<lparr>mc_start = i, mc_end = i + length (clause_text d), mc_dn = d\<rparr>
       # clause_records (i + length (clause_text d) + 5) ds"

lemma lower_simps [simp]:
  "to_ascii_lowercase (s @ t) = to_ascii_lowercase s @ to_ascii_lowercase t"
  "to_ascii_lowercase (c # s) = ascii_lower c # to_ascii_lowercase s"
  "to_ascii_lowercase [] = []" "length (to_ascii_lowercase s) = length s"
  by (simp_all add: to_ascii_lowercase_def)

lemma ascii_lower_quote: "ascii_lower c = QUOTE \<longleftrightarrow> c = QUOTE"
proof -
  have "ascii_lower c = c \<or> 97 \<le> (of_char (ascii_lower c) :: nat)"
    by (auto simp: ascii_lower_def of_char_of)
  then show ?thesis by (auto simp: ascii_lower_def)
qed

lemma escape_simps [simp]:
  "escape_opath [] = []" "escape_opath (c # s) = (if c = QUOTE then [QUOTE, QUOTE] else [c]) @ escape_opath s"
  by (simp_all add: escape_opath_def)

lemma lower_escape: "to_ascii_lowercase (escape_opath d) = escape_opath (to_ascii_lowercase d)"
proof (induction d)
  case (Cons c d)
  have "ascii_lower QUOTE = QUOTE" by (simp add: ascii_lower_def)
  with Cons show ?case by (simp add: ascii_lower_quote)
qed simp

lemma scan_literal:
  "rest = [] \<or> hd rest \<noteq> QUOTE \<Longrightarrow>
   scan_keys i True False (escape_opath d @ QUOTE # rest) = scan_keys (i + length (escape_opath d) + 1) False False rest"
  by (induction d arbitrary: i) auto

lemma scan_clause:
  assumes "rest = [] \<or> hd rest \<noteq> QUOTE"
  shows "scan_keys i False False (''memberofgroup -eq '' @ QUOTE # escape_opath d @ QUOTE # rest) =
    i # scan_keys (i + 20 + length (escape_opath d)) False False rest"
  using scan_literal [OF assms, of "i + 19" d]
  by (simp add: MEMBER_OF_GROUP_KEY_def starts_with_def eval_nat_numeral)

lemma scan_or: "scan_keys i False False ('' -or '' @ s) = scan_keys (i + 5) False False s"
  by (simp add: MEMBER_OF_GROUP_KEY_def starts_with_def eval_nat_numeral)

lemma literal_escape:
  "rest = [] \<or> hd rest \<noteq> QUOTE \<Longrightarrow> literal_body (escape_opath d @ QUOTE # rest) = Some (d, length (escape_opath d) + 1)"
proof (induction d)
  case Nil
  then show ?case by (cases rest) auto
next
  case (Cons c d)
  show ?case
  proof (cases "c = QUOTE")
    case True
    with Cons show ?thesis by simp
  next
    case False
    obtain x xs where "escape_opath d @ QUOTE # rest = x # xs" by (cases "escape_opath d @ QUOTE # rest") auto
    with Cons False show ?thesis by simp
  qed
qed

lemma filter_cons:
  "member_of_group_filter [] = []" "member_of_group_filter [d] = clause_text d"
  "member_of_group_filter (d # e # ds) = clause_text d @ '' -or '' @ member_of_group_filter (e # ds)"
  by (simp_all add: member_of_group_filter_def clause_text_def)

lemma clause_length: "length (clause_text d) = 20 + length (escape_opath d)"
  by (simp add: clause_text_def)

lemma lower_clause: "to_ascii_lowercase (clause_text d) = ''memberofgroup -eq '' @ QUOTE # escape_opath (to_ascii_lowercase d) @ [QUOTE]"
proof -
  have "to_ascii_lowercase ''MemberOfGroup -eq '' = ''memberofgroup -eq ''" by code_simp
  moreover have "to_ascii_lowercase [QUOTE] = [QUOTE]" by code_simp
  ultimately show ?thesis
    unfolding clause_text_def lower_simps(1) lower_escape by simp
qed

lemma length_lower_escape: "length (escape_opath (to_ascii_lowercase d)) = length (escape_opath d)"
  by (metis lower_escape lower_simps(4))

lemma filter_keys:
  "scan_keys i False False (to_ascii_lowercase (member_of_group_filter dns)) = map mc_start (clause_records i dns)"
proof (induction dns arbitrary: i rule: induct_list012)
  case (2 d)
  show ?case using scan_clause [of "[]" i "to_ascii_lowercase d"] by (simp add: filter_cons lower_clause)
next
  case (3 d e ds)
  let ?rest = "to_ascii_lowercase (member_of_group_filter (e # ds))"
  have "to_ascii_lowercase '' -or '' = '' -or ''" by code_simp
  then have low: "to_ascii_lowercase (member_of_group_filter (d # e # ds)) =
      ''memberofgroup -eq '' @ QUOTE # escape_opath (to_ascii_lowercase d) @ QUOTE # ('' -or '' @ ?rest)"
    unfolding filter_cons lower_simps(1) lower_clause by simp
  have "scan_keys i False False (to_ascii_lowercase (member_of_group_filter (d # e # ds))) =
      i # scan_keys (i + 20 + length (escape_opath (to_ascii_lowercase d)) + 5) False False ?rest"
    unfolding low scan_or [symmetric] by (rule scan_clause) simp
  then show ?case
    unfolding 3(2) by (simp add: clause_length length_lower_escape)
qed (simp add: filter_cons)

lemma key_length: "length MEMBER_OF_GROUP_KEY = 13"
  by (simp add: MEMBER_OF_GROUP_KEY_def)

lemma skip_one:
  "\<not> is_ascii_whitespace c \<Longrightarrow> drop i s = CHR '' '' # c # t \<Longrightarrow> skip_ascii_whitespace s i = i + 1"
  by (simp add: skip_ascii_whitespace_def) (simp add: is_ascii_whitespace_def)

lemma clause_read:
  assumes "pre = [] \<or> last pre = CHR '' ''" and "post = [] \<or> hd post \<noteq> QUOTE" and "\<not> is_blank d"
  shows "clause_at uni_alnum (pre @ clause_text d @ post) (length pre) =
    Some \<lparr>mc_start = length pre, mc_end = length pre + length (clause_text d), mc_dn = d\<rparr>"
proof -
  let ?f = "pre @ clause_text d @ post"
  let ?n = "length pre"
  have named: "starts_property uni_alnum (to_ascii_lowercase ?f) ?n"
    using assms(1) by (auto simp: starts_property_def Let_def is_ascii_alnum_def to_ascii_lowercase_def last_map ascii_lower_def)
  have offs: "drop (?n + 13) ?f = CHR '' '' # CHR ''-'' # ''eq '' @ QUOTE # escape_opath d @ QUOTE # post"
    "drop (?n + 17) ?f = CHR '' '' # QUOTE # escape_opath d @ QUOTE # post"
    "drop (?n + 18) ?f = QUOTE # escape_opath d @ QUOTE # post"
    "drop (?n + 19) ?f = escape_opath d @ QUOTE # post"
    by (simp_all add: clause_text_def)
  have skips: "skip_ascii_whitespace ?f (?n + 13) = ?n + 14" "skip_ascii_whitespace ?f (?n + 17) = ?n + 18"
    using skip_one [OF _ offs(1)] skip_one [OF _ offs(2)] by (simp_all add: is_ascii_whitespace_def)
  have eq: "starts_with (drop (?n + 14) (to_ascii_lowercase ?f)) ''-eq''"
    by (simp add: lower_clause starts_with_def del: starts_with_code)
  have "read_opath_literal ?f (?n + 18) = Some (d, ?n + length (clause_text d))"
    using literal_escape [OF assms(2), of d] offs(4) by (simp add: read_opath_literal_def clause_length)
  then show ?thesis
    using named skips eq offs(3) assms(3)
    by (simp add: clause_at_def Let_def key_length starts_with_def add.assoc del: starts_with_code)
qed

lemma clauses_from:
  assumes "pre = [] \<or> last pre = CHR '' ''" and "\<forall>d \<in> set dns. \<not> is_blank d"
  shows "List.map_filter (clause_at uni_alnum (pre @ member_of_group_filter dns)) (map mc_start (clause_records (length pre) dns))
    = clause_records (length pre) dns"
  using assms
proof (induction dns arbitrary: pre rule: induct_list012)
  case (2 d)
  then show ?case using clause_read [of pre "[]" d uni_alnum] by (simp add: filter_cons List.map_filter_def)
next
  case (3 d e ds)
  let ?pre = "pre @ clause_text d @ '' -or ''"
  have len: "length ?pre = length pre + length (clause_text d) + 5" by simp
  have first: "clause_at uni_alnum (pre @ member_of_group_filter (d # e # ds)) (length pre) =
      Some \<lparr>mc_start = length pre, mc_end = length pre + length (clause_text d), mc_dn = d\<rparr>"
    using clause_read [of pre "'' -or '' @ member_of_group_filter (e # ds)" d uni_alnum] 3(3,4) by (simp add: filter_cons)
  have "pre @ member_of_group_filter (d # e # ds) = ?pre @ member_of_group_filter (e # ds)" by (simp add: filter_cons)
  moreover have "List.map_filter (clause_at uni_alnum (?pre @ member_of_group_filter (e # ds)))
      (map mc_start (clause_records (length ?pre) (e # ds))) = clause_records (length ?pre) (e # ds)"
    by (rule 3(2)) (use 3(4) in simp_all)
  ultimately show ?case
    using first unfolding len clause_records.simps(2) [of _ d] by (simp add: List.map_filter_def)
qed (simp add: List.map_filter_def)

lemma residue_written:
  "residue_from (length pre) (clause_records (length pre) dns) (pre @ member_of_group_filter dns)
     = concat (replicate (length dns - 1) '' -or '')"
proof (induction dns arbitrary: pre rule: induct_list012)
  case (3 d e ds)
  let ?pre = "pre @ clause_text d @ '' -or ''"
  let ?f = "?pre @ member_of_group_filter (e # ds)"
  have f: "pre @ member_of_group_filter (d # e # ds) = ?f" by (simp add: filter_cons)
  have records: "clause_records (length pre) (d # e # ds) =
      \<lparr>mc_start = length pre, mc_end = length pre + length (clause_text d), mc_dn = d\<rparr> # clause_records (length ?pre) (e # ds)"
    by simp
  have "residue_from (length pre + length (clause_text d)) (clause_records (length ?pre) (e # ds)) ?f
      = '' -or '' @ residue_from (length ?pre) (clause_records (length ?pre) (e # ds)) ?f"
    by simp
  then show ?case
    unfolding f records residue_from.simps(2) 3(2) by simp
qed (simp_all add: filter_cons)

lemma leftover_or: "leftover_of (concat (replicate n '' -or '')) = []"
proof -
  have lower: "to_ascii_lowercase (concat (replicate n '' -or '')) = concat (replicate n '' -or '')"
    by (induction n) (simp_all add: ascii_lower_def)
  have "replace_or (concat (replicate n '' -or '')) = concat (replicate n ''   '')"
    by (induction n) (simp_all add: starts_with_def eval_nat_numeral del: starts_with_code)
  moreover have "strip_whitespace (concat (replicate n ''   '')) = []"
    by (induction n) (simp_all add: whitespace_len_def)
  ultimately show ?thesis by (simp add: leftover_of_def lower)
qed

lemma written_clauses:
  assumes "\<forall>d \<in> set dns. \<not> is_blank d"
  shows "member_of_group_clauses uni_alnum (member_of_group_filter dns) = clause_records 0 dns"
    and "count_member_of_group (member_of_group_filter dns) = length (clause_records 0 dns)"
  using clauses_from [of "[]" dns uni_alnum] assms
  by (simp_all add: member_of_group_clauses_def member_of_group_keys_def count_member_of_group_def filter_keys)

lemma clause_records_dns: "map mc_dn (clause_records i dns) = dns" "length (clause_records i dns) = length dns"
  "mc_dn ` set (clause_records i dns) = set dns"
  by (induction dns arbitrary: i) simp_all

lemma rewritable_written:
  assumes "\<forall>d \<in> set dns. \<not> is_blank d" and "dns \<noteq> []"
  shows "rewritable_scope_dns uni_alnum (member_of_group_filter dns) = Inr (remdups_adj (sort dns))"
proof -
  have "clause_records 0 dns \<noteq> []" using assms(2) by (cases dns) simp_all
  then show ?thesis
    using residue_written [of "[]" dns] leftover_or [of "length dns - 1"]
    by (simp add: rewritable_scope_dns_def written_clauses [OF assms(1)] clause_records_dns)
qed

section \<open>The parsed spans are in order\<close>

text \<open>\<open>rewritable_scope_dns\<close> slices the filter between consecutive clauses; a clause that started
  before the end of the previous one would make the slice panic.\<close>

fun spans_ok :: "nat \<Rightarrow> member_clause list \<Rightarrow> nat \<Rightarrow> bool" where
  "spans_ok cursor [] n \<longleftrightarrow> cursor \<le> n"
| "spans_ok cursor (c # cs) n \<longleftrightarrow>
     cursor \<le> mc_start c \<and> mc_start c < mc_end c \<and> mc_end c \<le> n \<and> spans_ok (mc_end c) cs n"

lemma spans_ok_mono: "spans_ok j cs n \<Longrightarrow> i \<le> j \<Longrightarrow> spans_ok i cs n"
  by (cases cs) auto

lemma scan_step:
  assumes "scan_keys i a b (c # s) = k # ks"
  shows "(k = i \<and> prefix MEMBER_OF_GROUP_KEY (c # s) \<and> ks = scan_keys (i + 13) False False (drop 13 (c # s)))
    \<or> (\<exists>n a' b'. 0 < n \<and> n \<le> length (c # s) \<and> scan_keys (i + n) a' b' (drop n (c # s)) = k # ks)"
proof -
  have one: ?thesis if "scan_keys (i + 1) a' b' s = k # ks" for a' b'
    using that by (intro disjI2 exI [of _ 1] exI [of _ a'] exI [of _ b']) simp
  consider (escaped) s' where "c = QUOTE" "\<not> b" "a" "s = QUOTE # s'"
    | (quote) "c = QUOTE" "\<not> b" "\<not> (a \<and> s \<noteq> [] \<and> hd s = QUOTE)"
    | (dquote) "\<not> (c = QUOTE \<and> \<not> b)" "c = DQUOTE" "\<not> a"
    | (key) "\<not> (c = QUOTE \<and> \<not> b)" "\<not> (c = DQUOTE \<and> \<not> a)" "\<not> a" "\<not> b" "starts_with (c # s) MEMBER_OF_GROUP_KEY"
    | (other) "\<not> (c = QUOTE \<and> \<not> b)" "\<not> (c = DQUOTE \<and> \<not> a)" "\<not> (\<not> a \<and> \<not> b \<and> starts_with (c # s) MEMBER_OF_GROUP_KEY)"
    by (metis list.collapse)
  then show ?thesis
  proof cases
    case escaped
    with assms have "scan_keys (i + 2) a b s' = k # ks" by simp
    with escaped show ?thesis by (intro disjI2 exI [of _ 2] exI [of _ a] exI [of _ b]) simp
  next
    case quote
    with assms have "scan_keys (i + 1) (\<not> a) b s = k # ks" by simp
    then show ?thesis by (rule one)
  next
    case dquote
    with assms have "scan_keys (i + 1) a (\<not> b) s = k # ks" by simp
    then show ?thesis by (rule one)
  next
    case key
    with assms have "k = i \<and> ks = scan_keys (i + 13) False False (drop 13 (c # s))"
      by (simp only: scan_keys.simps if_False if_True simp_thms key_length list.inject) blast
    with key show ?thesis unfolding starts_with_def by blast
  next
    case other
    with assms have "scan_keys (i + 1) a b s = k # ks" by (simp only: scan_keys.simps if_False simp_thms)
    then show ?thesis by (rule one)
  qed
qed

lemma scan_next:
  "scan_keys i a b s = k # ks \<Longrightarrow>
     i \<le> k \<and> k + 13 \<le> i + length s \<and> ks = scan_keys (k + 13) False False (drop (k + 13 - i) s)"
proof (induction "length s" arbitrary: i a b s rule: less_induct)
  case less
  then obtain c t where s: "s = c # t" by (cases s) auto
  from scan_step [OF less.prems [unfolded s]] show ?case
  proof
    assume here: "k = i \<and> prefix MEMBER_OF_GROUP_KEY (c # t) \<and> ks = scan_keys (i + 13) False False (drop 13 (c # t))"
    then have "13 \<le> length s" using prefix_length_le [of MEMBER_OF_GROUP_KEY "c # t"] by (simp add: s key_length)
    with here show ?thesis by (simp add: s)
  next
    assume "\<exists>n a' b'. 0 < n \<and> n \<le> length (c # t) \<and> scan_keys (i + n) a' b' (drop n (c # t)) = k # ks"
    then obtain n a' b' where n: "0 < n" "n \<le> length s" "scan_keys (i + n) a' b' (drop n s) = k # ks"
      unfolding s by blast
    with less.hyps [of "drop n s" "i + n" a' b'] have "i + n \<le> k \<and> k + 13 \<le> i + length s
        \<and> ks = scan_keys (k + 13) False False (drop (n + (k + 13 - (i + n))) s)" by (simp add: add.commute)
    moreover from this have "n + (k + 13 - (i + n)) = k + 13 - i" by simp
    ultimately show ?thesis by simp
  qed
qed

lemma scan_plain:
  "\<forall>c \<in> set u. c \<noteq> QUOTE \<and> c \<noteq> DQUOTE \<and> c \<noteq> CHR ''m'' \<Longrightarrow>
   scan_keys i False False (u @ s) = scan_keys (i + length u) False False s"
  by (induction u arbitrary: i) (auto simp: MEMBER_OF_GROUP_KEY_def starts_with_def simp del: starts_with_code)

lemma lower_quote [simp]: "ascii_lower QUOTE = QUOTE"
  by (simp add: ascii_lower_def)

lemma scan_body:
  "literal_body t = Some (out, n) \<Longrightarrow> 0 < n \<and> n \<le> length t \<and>
   scan_keys i True False (to_ascii_lowercase t) = scan_keys (i + n) False False (drop n (to_ascii_lowercase t))"
proof (induction t arbitrary: out n i rule: literal_body.induct)
  case (2 c)
  then show ?case by (auto split: if_splits)
next
  case (3 c d s)
  consider "c = QUOTE \<and> d = QUOTE" | "c = QUOTE \<and> d \<noteq> QUOTE" | "c \<noteq> QUOTE" by blast
  then show ?case
  proof cases
    case 1
    then obtain o' m where "literal_body s = Some (o', m)" "n = m + 2" using 3(3) by auto
    with 1 3(1) [of o' m "i + 2"] show ?thesis by simp
  next
    case 2
    with 3(3) show ?thesis by (auto simp: ascii_lower_quote)
  next
    case neq: 3
    then obtain o' m where "literal_body (d # s) = Some (o', m)" "n = m + 1" using 3(3) by auto
    with neq 3(2) [of o' m "i + 1"] show ?thesis by (auto simp: ascii_lower_quote)
  qed
qed simp

lemma skip_split: "drop i s = takeWhile is_ascii_whitespace (drop i s) @ drop (skip_ascii_whitespace s i) s"
proof -
  have "drop (skip_ascii_whitespace s i) s = dropWhile is_ascii_whitespace (drop i s)"
    by (simp add: skip_ascii_whitespace_def dropWhile_eq_drop add.commute)
  then show ?thesis by simp
qed

lemma lower_drop: "to_ascii_lowercase (drop n s) = drop n (to_ascii_lowercase s)"
  by (simp add: to_ascii_lowercase_def drop_map)

lemma white_plain:
  "c \<in> set (to_ascii_lowercase (takeWhile is_ascii_whitespace s)) \<Longrightarrow> c \<noteq> QUOTE \<and> c \<noteq> DQUOTE \<and> c \<noteq> CHR ''m''"
  by (auto simp: to_ascii_lowercase_def is_ascii_whitespace_def ascii_lower_def dest!: set_takeWhileD)

lemma clause_scan:
  assumes "clause_at uni_alnum f k = Some c"
  shows "mc_start c = k \<and> k + 13 < mc_end c \<and> mc_end c \<le> length f
    \<and> scan_keys (k + 13) False False (drop (k + 13) (to_ascii_lowercase f))
        = scan_keys (mc_end c) False False (drop (mc_end c) (to_ascii_lowercase f))"
proof -
  let ?l = "to_ascii_lowercase f"
  let ?i = "skip_ascii_whitespace f (k + 13)"
  let ?j = "skip_ascii_whitespace f (?i + 3)"
  let ?w = "to_ascii_lowercase (takeWhile is_ascii_whitespace (drop (k + 13) f))"
  let ?v = "to_ascii_lowercase (takeWhile is_ascii_whitespace (drop (?i + 3) f))"
  obtain out n where body: "literal_body (drop (?j + 1) f) = Some (out, n)"
    and c: "c = \<lparr>mc_start = k, mc_end = ?j + 1 + n, mc_dn = out\<rparr>"
    and eq: "prefix ''-eq'' (drop ?i ?l)" and q: "prefix [QUOTE] (drop ?j f)"
    using assms by (auto simp: clause_at_def Let_def key_length read_opath_literal_def starts_with_def
        simp del: starts_with_code split: if_splits option.splits)
  have eq': "drop ?i ?l = ''-eq'' @ drop (?i + 3) ?l"
    using eq by (metis append_eq_conv_conj drop_drop add.commute length_Cons list.size(3) numeral_3_eq_3 prefixE)
  have q': "drop ?j f = QUOTE # drop (?j + 1) f"
    using q by (cases "drop ?j f") (auto simp: drop_Suc tl_drop [symmetric] prefix_def)
  have jl: "?j < length f" using q' by (metis drop_eq_Nil linorder_not_le list.discI)
  have lit: "0 < n \<and> n \<le> length (drop (?j + 1) f)
      \<and> scan_keys (?j + 1) True False (drop (?j + 1) ?l) = scan_keys (?j + 1 + n) False False (drop n (drop (?j + 1) ?l))"
    using scan_body [OF body, of "?j + 1"] by (simp add: lower_drop)
  have "drop (k + 13) ?l = ?w @ drop ?i ?l"
    using skip_split [of "k + 13" f] by (metis lower_drop lower_simps(1))
  also have "\<dots> = (?w @ ''-eq'') @ drop (?i + 3) ?l" using eq' by simp
  also have "drop (?i + 3) ?l = ?v @ drop ?j ?l"
    using skip_split [of "?i + 3" f] by (metis lower_drop lower_simps(1))
  also have "drop ?j ?l = QUOTE # drop (?j + 1) ?l"
    using arg_cong [OF q', of to_ascii_lowercase] by (simp add: lower_drop)
  finally have l: "drop (k + 13) ?l = (?w @ ''-eq'' @ ?v) @ QUOTE # drop (?j + 1) ?l" by simp
  have len: "k + 13 + length (?w @ ''-eq'' @ ?v) = ?j" by (simp add: skip_ascii_whitespace_def)
  have "scan_keys (k + 13) False False (drop (k + 13) ?l) = scan_keys ?j False False (QUOTE # drop (?j + 1) ?l)"
    unfolding l len [symmetric] by (rule scan_plain) (auto dest: white_plain)
  also have "\<dots> = scan_keys (?j + 1 + n) False False (drop n (drop (?j + 1) ?l))" using lit by simp
  finally show ?thesis using c lit len jl by (simp add: add.commute le_diff_conv2)
qed

lemma spans_in_order:
  "ks = scan_keys i False False (drop i (to_ascii_lowercase f)) \<Longrightarrow> i \<le> length f \<Longrightarrow>
   spans_ok i (List.map_filter (clause_at uni_alnum f) ks) (length f)"
proof (induction ks arbitrary: i)
  case (Cons k ks)
  let ?l = "to_ascii_lowercase f"
  have k: "i \<le> k" "k + 13 \<le> length f" "ks = scan_keys (k + 13) False False (drop (k + 13) ?l)"
    using scan_next [OF Cons.prems(1) [symmetric]] Cons.prems(2) by (auto simp: le_diff_conv2 add.commute)
  show ?case
  proof (cases "clause_at uni_alnum f k")
    case None
    have "spans_ok (k + 13) (List.map_filter (clause_at uni_alnum f) ks) (length f)" by (rule Cons.IH) (use k in auto)
    then show ?thesis using None k(1) by (auto simp: List.map_filter_def intro: spans_ok_mono)
  next
    case (Some c)
    note c = clause_scan [OF Some]
    have "spans_ok (mc_end c) (List.map_filter (clause_at uni_alnum f) ks) (length f)"
      by (rule Cons.IH) (use k c in auto)
    then show ?thesis using Some c k(1) by (simp add: List.map_filter_def)
  qed
qed (simp add: List.map_filter_def)

section \<open>Properties\<close>

text \<open>C32: a written filter is read back.  For any non-empty list of non-blank group names, quotes,
  the text \<open>memberofgroup\<close> and any other byte included, the filter the toolkit writes is fully
  readable, names exactly those groups, and may be rewritten: \<open>rewritable_scope_dns\<close> gives them back
  sorted and without duplicates.\<close>

theorem scope_filter_roundtrip:
  assumes "dns \<noteq> []" and "\<forall>d \<in> set dns. \<not> is_blank d"
  shows "rewritable_scope_dns uni_alnum (member_of_group_filter dns) = Inr (remdups_adj (sort dns))
    \<and> scope_groups_in_filter uni_alnum (member_of_group_filter dns) = \<lparr>sg_dns = set dns, sg_complete = True\<rparr>
    \<and> exact_scope_dns uni_alnum lower (member_of_group_filter dns) = Some (fold_dn lower ` set dns)"
  using rewritable_written [OF assms(2,1)]
  by (simp add: scope_groups_in_filter_def exact_scope_dns_def written_clauses [OF assms(2)] clause_records_dns)

theorem scope_filter_roundtrip_witness:
  "rewritable_scope_dns (\<lambda>_. False) (member_of_group_filter [''CN=b'', ''CN=O'' @ [QUOTE] @ ''a memberofgroup''])
     = Inr [''CN=O'' @ [QUOTE] @ ''a memberofgroup'', ''CN=b'']"
proof -
  have "\<not> is_blank ''CN=b''" "\<not> is_blank (''CN=O'' @ [QUOTE] @ ''a memberofgroup'')" by code_simp+
  moreover have "remdups_adj (sort [''CN=b'', ''CN=O'' @ [QUOTE] @ ''a memberofgroup''])
      = [''CN=O'' @ [QUOTE] @ ''a memberofgroup'', ''CN=b'']" by code_simp
  ultimately show ?thesis
    using scope_filter_roundtrip [of "[''CN=b'', ''CN=O'' @ [QUOTE] @ ''a memberofgroup'']" "\<lambda>_. False"] by simp
qed

text \<open>reading a filter never panics.  Whatever text Exchange returns, the spans of the clauses that
  are read are inside it, in order and disjoint, so every slice between two clauses is a valid one; no
  more clauses are read than there are \<open>MemberOfGroup\<close> tokens outside quoted literals.\<close>

theorem scope_filter_spans_safe:
  "spans_ok 0 (member_of_group_clauses uni_alnum f) (length f)
   \<and> length (member_of_group_clauses uni_alnum f) \<le> count_member_of_group f"
proof
  show "spans_ok 0 (member_of_group_clauses uni_alnum f) (length f)"
    unfolding member_of_group_clauses_def member_of_group_keys_def by (rule spans_in_order) simp_all
  show "length (member_of_group_clauses uni_alnum f) \<le> count_member_of_group f"
    by (simp add: member_of_group_clauses_def count_member_of_group_def List.map_filter_def)
qed

end
