(* ===== verification/Exchange_Models.thy ===== *)
theory Exchange_Models
  imports Exchange_Filter Audit_Types
begin

text \<open>
  The Exchange Online objects the toolkit reads and their tolerant parsing
  (\<^verbatim>\<open>crates/azapptoolkit-exchange/src/models.rs\<close>), the composite roles
  (\<^verbatim>\<open>roles.rs\<close>), the token error (\<^verbatim>\<open>azapptoolkit-core/src/token.rs\<close>) and the client's
  error type (\<^verbatim>\<open>error.rs\<close>).  A JSON value is the datatype
  \<open>json\<close>, whose numbers, arrays and objects carry no payload because no reader here looks inside one.
\<close>

definition eq_ignore_ascii_case :: "string \<Rightarrow> string \<Rightarrow> bool" where
  "eq_ignore_ascii_case a b \<longleftrightarrow> to_ascii_lowercase a = to_ascii_lowercase b"

lemma eq_ignore_ascii_case_refl [simp]: "eq_ignore_ascii_case a a"
  by (simp add: eq_ignore_ascii_case_def)

section \<open>Records\<close>

record exo_management_scope =
  ms_name :: "string option"
  ms_identity :: "string option"
  ms_recipient_filter :: "string option"

record exo_role_assignment =
  era_name :: "string option"
  era_role :: "string option"
  era_role_assignee_name :: "string option"
  era_custom_resource_scope :: "string option"
  era_identity :: "string option"
  era_recipient_write_scope :: "string option"
  era_custom_recipient_write_scope :: "string option"
  era_recipient_administrative_unit_scope :: "string option"

record exo_group_member =
  gm_display_name :: "string option"
  gm_primary_smtp_address :: "string option"
  gm_recipient_type :: "string option"
  gm_guid :: "string option"

datatype aap_access_right = RestrictAccess | DenyAccess | OtherRight string

record exo_application_access_policy =
  aap_identity :: "string option"
  aap_app_id :: "string option"
  aap_scope_name :: "string option"
  aap_scope_identity :: "string option"
  aap_access_right_of :: "aap_access_right option"
  aap_description :: "string option"

record exo_authorization_result =
  ar_role_name :: "string option"
  ar_granted_permissions :: "string option"
  ar_allowed_resource_scope :: "string option"
  ar_scope_type :: "string option"
  ar_in_scope :: "bool option"

section \<open>Access rights\<close>

definition access_right_parse :: "string \<Rightarrow> aap_access_right option" where
  "access_right_parse raw =
     (let trimmed = trim raw
      in if trimmed = [] then None
         else if eq_ignore_ascii_case trimmed ''RestrictAccess'' then Some RestrictAccess
         else if eq_ignore_ascii_case trimmed ''DenyAccess'' then Some DenyAccess
         else Some (OtherRight trimmed))"

definition is_restrict :: "aap_access_right \<Rightarrow> bool" where
  "is_restrict r \<longleftrightarrow> r = RestrictAccess"

fun access_right_as_str :: "aap_access_right \<Rightarrow> string" where
  "access_right_as_str RestrictAccess = ''RestrictAccess''"
| "access_right_as_str DenyAccess = ''DenyAccess''"
| "access_right_as_str (OtherRight s) = s"

definition is_restrict_access :: "exo_application_access_policy \<Rightarrow> bool" where
  "is_restrict_access p \<longleftrightarrow> (case aap_access_right_of p of Some r \<Rightarrow> is_restrict r | None \<Rightarrow> False)"

section \<open>Tolerant readers\<close>

datatype json = JNull | JBool bool | JNumber | JString string | JArray | JObject

definition ps_access_right :: "json \<Rightarrow> aap_access_right option" where
  "ps_access_right v = (case v of JString s \<Rightarrow> access_right_parse s | _ \<Rightarrow> None)"

definition ps_access_check :: "json \<Rightarrow> bool option" where
  "ps_access_check v =
     (case v of
        JBool b \<Rightarrow> Some b
      | JString s \<Rightarrow>
          (let t = to_ascii_lowercase (trim s)
           in if t = ''granted'' \<or> t = ''true'' then Some True
              else if t = ''denied'' \<or> t = ''false'' then Some False
              else None)
      | _ \<Rightarrow> None)"

definition ps_optional_bool :: "json \<Rightarrow> bool option" where
  "ps_optional_bool v =
     (case v of
        JBool b \<Rightarrow> Some b
      | JString s \<Rightarrow>
          (let t = to_ascii_lowercase (trim s)
           in if t = ''true'' then Some True else if t = ''false'' then Some False else None)
      | _ \<Rightarrow> None)"

definition ps_optional_string :: "json \<Rightarrow> string option" where
  "ps_optional_string v =
     (case v of
        JString s \<Rightarrow> (let trimmed = trim s in if trimmed = [] then None else Some trimmed)
      | _ \<Rightarrow> None)"

section \<open>Composite roles\<close>

definition COMPOSITE_ROLES :: "(string \<times> string list) list" where
  "COMPOSITE_ROLES =
     [(''Application Mail Full Access'', [''Mail.ReadWrite'', ''Mail.Send'']),
      (''Application Exchange Full Access'',
       [''Mail.ReadWrite'', ''Mail.Send'', ''MailboxSettings.ReadWrite'', ''Calendars.ReadWrite'', ''Contacts.ReadWrite''])]"

definition composite_role_confers :: "string \<Rightarrow> string \<Rightarrow> bool" where
  "composite_role_confers role v \<longleftrightarrow>
     list_ex (\<lambda>(name, bundle). eq_ignore_ascii_case name (trim role)
       \<and> list_ex (\<lambda>b. eq_ignore_ascii_case b (trim v)) bundle) COMPOSITE_ROLES"

section \<open>Errors\<close>

record token_error =
  te_code :: string
  te_message :: string

datatype exchange_error =
    Unauthorized
  | Forbidden string bool
  | NotFound string
  | ExoThrottled "64 word option"
  | Server "16 word" string
  | Api "16 word" string
  | Network string
  | Deserialize string
  | Token token_error
  | Protocol string

definition is_not_found_body :: "string \<Rightarrow> bool" where
  "is_not_found_body b \<longleftrightarrow>
     (let l = to_ascii_lowercase b
      in contains_str l ''couldn't be found'' \<or> contains_str l ''wasn't found'' \<or> contains_str l ''not found''
         \<or> contains_str l ''managementobjectnotfound'')"

definition is_already_member_body :: "string \<Rightarrow> bool" where
  "is_already_member_body b \<longleftrightarrow> contains_str (to_ascii_lowercase b) ''already a member''"

definition is_not_a_member_body :: "string \<Rightarrow> bool" where
  "is_not_a_member_body b \<longleftrightarrow>
     (let l = to_ascii_lowercase b in contains_str l ''isn't a member'' \<or> contains_str l ''not a member'')"

definition is_missing_object :: "exchange_error \<Rightarrow> bool" where
  "is_missing_object e \<longleftrightarrow>
     (case e of NotFound _ \<Rightarrow> True | Api _ b \<Rightarrow> is_not_found_body b | _ \<Rightarrow> False)"

end
