(* ===== verification/Exchange_Plan.thy ===== *)
theory Exchange_Plan
  imports Exchange_Models
begin

text \<open>
  Planning a mailbox scoping run: what to scope and in which steps
  (\<^verbatim>\<open>crates/azapptoolkit-exchange/src/targets.rs\<close>), migrating legacy Application Access Policies and
  consolidating source groups (\<^verbatim>\<open>aap.rs\<close>), and which objects still name a group
  (\<^verbatim>\<open>references.rs\<close>).  A \<open>HashMap\<close> is an association list in its iteration order, a \<open>HashSet\<close> that is
  only tested for membership is a list.
\<close>

section \<open>Targets\<close>

record resource_roles =
  rr_app_id :: string
  rr_sp_object_id :: string
  rr_role_value_by_id :: "(string \<times> string) list"

definition role_id_for :: "resource_roles \<Rightarrow> string \<Rightarrow> string option" where
  "role_id_for r v = map_option fst (find (\<lambda>(_, x). x = v) (rr_role_value_by_id r))"

definition resolve_grant :: "resource_roles list \<Rightarrow> string \<Rightarrow> string \<Rightarrow> (string \<times> string \<times> string) option" where
  "resolve_grant resources resource_sp_id app_role_id =
     (case find (\<lambda>r. rr_sp_object_id r = resource_sp_id) resources of
        None \<Rightarrow> None
      | Some r \<Rightarrow> map_option (\<lambda>v. (rr_app_id r, rr_sp_object_id r, v)) (map_of (rr_role_value_by_id r) app_role_id))"

definition value_match :: "string \<Rightarrow> resource_roles \<Rightarrow> (string \<times> string \<times> string) option" where
  "value_match v r = map_option (\<lambda>i. (rr_app_id r, rr_sp_object_id r, i)) (role_id_for r v)"

fun find_map :: "('a \<Rightarrow> 'b option) \<Rightarrow> 'a list \<Rightarrow> 'b option" where
  "find_map f [] = None"
| "find_map f (x # xs) = (case f x of Some y \<Rightarrow> Some y | None \<Rightarrow> find_map f xs)"

definition resolve_value :: "resource_roles list \<Rightarrow> string \<Rightarrow> (string \<times> string \<times> string) option" where
  "resolve_value resources v =
     (case find_map (value_match v)
             (filter (\<lambda>r. exchange_role_for_resource_permission (rr_app_id r) v \<noteq> None) resources) of
        Some m \<Rightarrow> Some m
      | None \<Rightarrow> find_map (value_match v) resources)"

record exchange_target =
  et_graph_value :: string
  et_exchange_role :: string
  et_app_role_id :: string
  et_resource_sp_object_id :: string
  et_aap_confinable :: bool

record scopable_mail_permission =
  smp_perm :: string
  smp_exchange_role :: string
  smp_aap_confinable :: bool

definition scopable_on_resource :: "string \<Rightarrow> string \<Rightarrow> scopable_mail_permission option" where
  "scopable_on_resource rid v =
     map_option (\<lambda>role. \<lparr>smp_perm = v, smp_exchange_role = role,
       smp_aap_confinable = is_aap_confinable_permission rid v\<rparr>)
       (exchange_role_for_resource_permission rid v)"

definition scopable_from_target :: "exchange_target \<Rightarrow> scopable_mail_permission" where
  "scopable_from_target t = \<lparr>smp_perm = et_graph_value t, smp_exchange_role = et_exchange_role t,
     smp_aap_confinable = et_aap_confinable t\<rparr>"

datatype no_scopable_permission = NoScopablePermission

definition exchange_target_for :: "string \<Rightarrow> string \<Rightarrow> string \<Rightarrow> string \<Rightarrow> exchange_target option" where
  "exchange_target_for rid resource_sp_object_id app_role_id v =
     map_option (\<lambda>role. \<lparr>et_graph_value = v, et_exchange_role = role, et_app_role_id = app_role_id,
         et_resource_sp_object_id = resource_sp_object_id,
         et_aap_confinable = is_aap_confinable_permission rid v\<rparr>)
       (exchange_role_for_resource_permission rid v)"

definition require_scopable_targets :: "exchange_target list \<Rightarrow> no_scopable_permission + unit" where
  "require_scopable_targets targets = (if targets = [] then Inl NoScopablePermission else Inr ())"

definition declared_access_target :: "resource_roles \<Rightarrow> resource_access \<Rightarrow> exchange_target option" where
  "declared_access_target r access =
     (if ra_type access \<noteq> ''Role'' then None
      else (case map_of (rr_role_value_by_id r) (ra_id access) of
              None \<Rightarrow> None
            | Some v \<Rightarrow> exchange_target_for (rr_app_id r) (rr_sp_object_id r) (ra_id access) v))"

definition targets_from_declared :: "application \<Rightarrow> resource_roles list \<Rightarrow> exchange_target list" where
  "targets_from_declared app resources =
     concat (map (\<lambda>declared.
       case find (\<lambda>r. rr_app_id r = rra_resource_app_id declared) resources of
         None \<Rightarrow> []
       | Some r \<Rightarrow> List.map_filter (declared_access_target r) (rra_resource_access declared))
       (app_required_resource_access app))"

record app_role_assignment =
  ara_id :: string
  ara_principal_id :: string
  ara_resource_id :: string
  ara_app_role_id :: string
  ara_principal_display_name :: "string option"
  ara_principal_type :: "string option"
  ara_resource_display_name :: "string option"
  ara_created_date_time :: "datetime option"

definition grant_target :: "resource_roles list \<Rightarrow> app_role_assignment \<Rightarrow> exchange_target option" where
  "grant_target resources a =
     (case resolve_grant resources (ara_resource_id a) (ara_app_role_id a) of
        None \<Rightarrow> None
      | Some (rid, resource_sp_id, v) \<Rightarrow>
          if is_aap_confinable_permission rid v
          then exchange_target_for rid resource_sp_id (ara_app_role_id a) v
          else None)"

definition targets_from_grants :: "app_role_assignment list \<Rightarrow> resource_roles list \<Rightarrow> exchange_target list" where
  "targets_from_grants assignments resources = List.map_filter (grant_target resources) assignments"

definition filter_targets_by_value :: "exchange_target list \<Rightarrow> string list option \<Rightarrow> exchange_target list" where
  "filter_targets_by_value targets only =
     (case only of
        None \<Rightarrow> targets
      | Some vs \<Rightarrow> filter (\<lambda>t. et_graph_value t \<in> set vs) targets)"

definition targets_safe_to_strip :: "(exchange_target \<times> bool) list \<Rightarrow> exchange_target list" where
  "targets_safe_to_strip scoped = map fst (filter snd scoped)"

section \<open>Role assignments\<close>

definition roles_already_scoped :: "exo_role_assignment list \<Rightarrow> string \<Rightarrow> string list" where
  "roles_already_scoped existing scope_name_of =
     List.map_filter era_role
       (filter (\<lambda>a. case era_custom_resource_scope a of
                      None \<Rightarrow> False
                    | Some s \<Rightarrow> eq_ignore_ascii_case (trim s) (trim scope_name_of)) existing)"

definition is_org_wide_role_assignment :: "exo_role_assignment \<Rightarrow> bool" where
  "is_org_wide_role_assignment a \<longleftrightarrow>
     (let present = (\<lambda>v :: string option. case v of Some s \<Rightarrow> trim s \<noteq> [] | None \<Rightarrow> False);
          is_au = (case era_recipient_write_scope a of
                     Some t \<Rightarrow> eq_ignore_ascii_case (trim t) ''AdministrativeUnit''
                   | None \<Rightarrow> False)
      in \<not> present (era_custom_resource_scope a)
         \<and> \<not> present (era_recipient_administrative_unit_scope a)
         \<and> \<not> present (era_custom_recipient_write_scope a)
         \<and> \<not> is_au)"

definition orgwide_assignment :: "exchange_target list \<Rightarrow> exo_role_assignment \<Rightarrow> (string \<times> string) option" where
  "orgwide_assignment targets a =
     (case era_role a of
        None \<Rightarrow> None
      | Some role \<Rightarrow>
          if list_ex (\<lambda>t. eq_ignore_ascii_case (et_exchange_role t) role
                \<or> composite_role_confers role (et_graph_value t)) targets
          then Some (role, case era_identity a of
                             Some i \<Rightarrow> i
                           | None \<Rightarrow> (case era_name a of Some n \<Rightarrow> n | None \<Rightarrow> ''(unnamed)''))
          else None)"

definition orgwide_role_assignments :: "exo_role_assignment list \<Rightarrow> exchange_target list \<Rightarrow> (string \<times> string) list" where
  "orgwide_role_assignments existing targets =
     List.map_filter (orgwide_assignment targets) (filter is_org_wide_role_assignment existing)"

datatype role_step = AlreadyScoped | Assign | SameRoleAs (mirrors: nat)

fun plan_roles_loop :: "string list \<Rightarrow> (string \<times> nat) list \<Rightarrow> nat \<Rightarrow> exchange_target list \<Rightarrow> role_step list" where
  "plan_roles_loop in_place assigner i [] = []"
| "plan_roles_loop in_place assigner i (t # ts) =
     (if list_ex (\<lambda>r. eq_ignore_ascii_case r (et_exchange_role t)) in_place
      then AlreadyScoped # plan_roles_loop in_place assigner (i + 1) ts
      else (case map_of assigner (et_exchange_role t) of
              Some first \<Rightarrow> SameRoleAs first # plan_roles_loop in_place assigner (i + 1) ts
            | None \<Rightarrow> Assign # plan_roles_loop in_place ((et_exchange_role t, i) # assigner) (i + 1) ts))"

definition plan_role_assignments :: "exo_role_assignment list \<Rightarrow> string \<Rightarrow> exchange_target list \<Rightarrow> role_step list" where
  "plan_role_assignments existing scope_name_of targets =
     plan_roles_loop (roles_already_scoped existing scope_name_of) [] 0 targets"

definition mailbox_resources_complete :: "resource_roles list \<Rightarrow> bool" where
  "mailbox_resources_complete resources \<longleftrightarrow>
     list_all (\<lambda>i. list_ex (\<lambda>r. rr_app_id r = i) resources) [MICROSOFT_GRAPH_APP_ID, OFFICE365_EXCHANGE_ONLINE_APP_ID]"

definition policies_safe_to_remove :: "nat \<Rightarrow> nat \<Rightarrow> bool \<Rightarrow> bool" where
  "policies_safe_to_remove target_count removed_grant_count resources_complete \<longleftrightarrow>
     (if \<not> resources_complete then False else target_count = 0 \<or> removed_grant_count = target_count)"

section \<open>Migrating legacy policies\<close>

definition excluded_right :: "string \<Rightarrow> aap_access_right \<Rightarrow> string" where
  "excluded_right policy_app_id right =
     policy_app_id @ '': skipped a '' @ access_right_as_str right @ '' policy '' @ em_dash @ '' only RestrictAccess policies are migratable. A DenyAccess policy blocks its group and allows every other mailbox, whereas an RBAC management scope allows only what it names, so migrating it would invert the policy. Re-express the exclusion as a management-scope recipient filter instead.''"

definition excluded_unreadable :: "string \<Rightarrow> string" where
  "excluded_unreadable policy_app_id =
     policy_app_id @ '': skipped a policy with no readable AccessRight '' @ em_dash @ '' RestrictAccess and DenyAccess migrate to opposite scopes, so it can't be guessed.''"

fun push_batch :: "string \<Rightarrow> 'p \<Rightarrow> (string \<times> 'p list) list \<Rightarrow> (string \<times> 'p list) list" where
  "push_batch i p [] = [(i, [p])]"
| "push_batch i p ((a, batch) # bs) =
     (if eq_ignore_ascii_case a i then (a, batch @ [p]) # bs else (a, batch) # push_batch i p bs)"

fun group_policies_loop ::
  "exo_application_access_policy list \<Rightarrow> (string \<times> exo_application_access_policy list) list \<Rightarrow> string list
     \<Rightarrow> (string \<times> exo_application_access_policy list) list \<times> string list" where
  "group_policies_loop [] batches excluded = (batches, excluded)"
| "group_policies_loop (p # ps) batches excluded =
     (case aap_app_id p of
        None \<Rightarrow> group_policies_loop ps batches (excluded @ [''policy without an AppId skipped''])
      | Some i \<Rightarrow>
          (case aap_access_right_of p of
             Some right \<Rightarrow>
               if is_restrict right then group_policies_loop ps (push_batch i p batches) excluded
               else group_policies_loop ps batches (excluded @ [excluded_right i right])
           | None \<Rightarrow> group_policies_loop ps batches (excluded @ [excluded_unreadable i])))"

definition group_policies_for_migration ::
  "exo_application_access_policy list \<Rightarrow> (string \<times> exo_application_access_policy list) list \<times> string list" where
  "group_policies_for_migration policies = group_policies_loop policies [] []"

record source_member_id =
  sm_identity :: string
  sm_key :: string

definition nonblank :: "string option \<Rightarrow> string option" where
  "nonblank v = (case v of Some s \<Rightarrow> (if trim s = [] then None else Some (trim s)) | None \<Rightarrow> None)"

definition source_member :: "exo_group_member \<Rightarrow> source_member_id option" where
  "source_member m =
     map_option (\<lambda>i. \<lparr>sm_identity = i, sm_key = to_ascii_lowercase i\<rparr>)
       (case nonblank (gm_primary_smtp_address m) of Some i \<Rightarrow> Some i | None \<Rightarrow> nonblank (gm_guid m))"

type_synonym source_group_read = "string \<times> (string + exo_group_member list)"

fun add_members ::
  "exo_group_member list \<Rightarrow> source_member_id list \<Rightarrow> string list \<Rightarrow> nat \<Rightarrow> source_member_id list \<times> string list \<times> nat" where
  "add_members [] members seen unidentifiable = (members, seen, unidentifiable)"
| "add_members (m # ms) members seen unidentifiable =
     (case source_member m of
        Some sm \<Rightarrow>
          if sm_key sm \<notin> set seen then add_members ms (members @ [sm]) (sm_key sm # seen) unidentifiable
          else add_members ms members seen unidentifiable
      | None \<Rightarrow> add_members ms members seen (unidentifiable + 1))"

fun plan_source_loop ::
  "source_group_read list \<Rightarrow> source_member_id list \<Rightarrow> string list \<Rightarrow> string list \<Rightarrow> source_member_id list \<times> string list" where
  "plan_source_loop [] members seen unreadable = (members, unreadable)"
| "plan_source_loop ((dn, Inl err) # reads) members seen unreadable =
     plan_source_loop reads members seen (unreadable @ [dn @ '' ('' @ err @ '')''])"
| "plan_source_loop ((dn, Inr []) # reads) members seen unreadable =
     plan_source_loop reads members seen (unreadable @ [dn @ '' (no readable members)''])"
| "plan_source_loop ((dn, Inr (m # ms)) # reads) members seen unreadable =
     (let (members', seen', unidentifiable) = add_members (m # ms) members seen 0
      in plan_source_loop reads members' seen'
           (if unidentifiable > 0
            then unreadable @ [dn @ '' ('' @ show_nat unidentifiable @ '' member(s) with no address or GUID to copy)'']
            else unreadable))"

definition plan_source_membership :: "source_group_read list \<Rightarrow> string list + source_member_id list" where
  "plan_source_membership reads =
     (let (members, unreadable) = plan_source_loop reads [] [] []
      in if unreadable = [] then Inr members else Inl unreadable)"

definition unverified_members :: "source_member_id list \<Rightarrow> string list \<Rightarrow> string list" where
  "unverified_members intended present_keys =
     map sm_identity (filter (\<lambda>m. sm_key m \<notin> set present_keys) intended)"

fun extra_members_loop ::
  "string list \<Rightarrow> exo_group_member list \<Rightarrow> string list \<Rightarrow> string list \<Rightarrow> nat \<Rightarrow> string list \<times> nat" where
  "extra_members_loop source [] extra seen unidentifiable = (extra, unidentifiable)"
| "extra_members_loop source (m # ms) extra seen unidentifiable =
     (case source_member m of
        Some sm \<Rightarrow>
          if sm_key sm \<notin> set source then
            (if sm_key sm \<notin> set seen
             then extra_members_loop source ms (extra @ [sm_identity sm]) (sm_key sm # seen) unidentifiable
             else extra_members_loop source ms extra seen unidentifiable)
          else extra_members_loop source ms extra seen unidentifiable
      | None \<Rightarrow> extra_members_loop source ms extra seen (unidentifiable + 1))"

definition extra_members :: "source_member_id list \<Rightarrow> exo_group_member list \<Rightarrow> string list" where
  "extra_members intended managed =
     (let (extra, unidentifiable) = extra_members_loop (map sm_key intended) managed [] [] 0
      in if unidentifiable > 0 then extra @ [show_nat unidentifiable @ '' member(s) with no address or GUID''] else extra)"

section \<open>Consolidating a scope onto the managed group\<close>

record consolidation_plan =
  cp_scope_dns :: "string list"
  cp_repoint :: bool

datatype refusal =
    Filter unrewritable_filter
  | UnreadableSourceGroups "string list"
  | ManagedGroupUnresolved
  | UnverifiedMembers nat
  | ExtraManagedMembers "string list"

definition MAX_LISTED_MEMBERS :: nat where
  "MAX_LISTED_MEMBERS = 10"

definition capped_list :: "string list \<Rightarrow> string" where
  "capped_list items =
     (let shown = join '', '' (take MAX_LISTED_MEMBERS items)
      in if length items > MAX_LISTED_MEMBERS
         then shown @ '', and '' @ show_nat (length items - MAX_LISTED_MEMBERS) @ '' more''
         else shown)"

definition plan_consolidation ::
  "(string \<Rightarrow> bool) \<Rightarrow> (string \<Rightarrow> string) \<Rightarrow> string \<Rightarrow> string option \<Rightarrow> string list \<Rightarrow> nat \<Rightarrow> string list
     \<Rightarrow> refusal + consolidation_plan" where
  "plan_consolidation uni_alnum lower current_filter managed_dn unreadable_source_groups unverified extra =
     (case rewritable_scope_dns uni_alnum current_filter of
        Inl why \<Rightarrow> Inl (Filter why)
      | Inr source_dns \<Rightarrow>
          if unreadable_source_groups \<noteq> [] then Inl (UnreadableSourceGroups unreadable_source_groups)
          else (case managed_dn of
                  None \<Rightarrow> Inl ManagedGroupUnresolved
                | Some dn \<Rightarrow>
                    if unverified > 0 then Inl (UnverifiedMembers unverified)
                    else if extra \<noteq> [] then Inl (ExtraManagedMembers extra)
                    else Inr \<lparr>cp_scope_dns = [dn], cp_repoint = (\<not> list_all (\<lambda>d. same_dn lower d dn) source_dns)\<rparr>))"

fun refusal_text :: "refusal \<Rightarrow> string" where
  "refusal_text (Filter why) = ''the management scope's filter can't be rewritten: '' @ unrewritable_text why"
| "refusal_text (UnreadableSourceGroups groups) =
     ''the membership of '' @ join '', '' groups @ '' couldn't be read (an empty result is treated as unreadable, not as \"no mailboxes\")''"
| "refusal_text ManagedGroupUnresolved = ''the toolkit-managed group's distinguished name couldn't be resolved''"
| "refusal_text (UnverifiedMembers n) =
     show_nat n @ '' mailbox(es) couldn't be verified present in the toolkit-managed group''"
| "refusal_text (ExtraManagedMembers extra) =
     ''the toolkit-managed group already holds '' @ show_nat (length extra)
       @ '' mailbox(es) the source group(s) don't ('' @ capped_list extra
       @ ''), so pointing the scope at it would widen what the app can reach '' @ em_dash
       @ '' remove them from the managed group (or add them to the source) and run it again''"

section \<open>References to a group\<close>

record group_identity =
  gi_distinguished_name :: string
  gi_name :: "string option"
  gi_primary_smtp_address :: "string option"

definition group_matches :: "group_identity \<Rightarrow> string \<Rightarrow> bool" where
  "group_matches g candidate \<longleftrightarrow>
     (let c = trim candidate
      in if c = [] then False
         else list_ex (\<lambda>i. eq_ignore_ascii_case i c)
           (List.map_filter id [Some (gi_distinguished_name g), gi_name g, gi_primary_smtp_address g]))"

definition named_in_text :: "(string \<Rightarrow> string) \<Rightarrow> group_identity \<Rightarrow> string \<Rightarrow> bool" where
  "named_in_text lower g text \<longleftrightarrow>
     (let dn = trim (gi_distinguished_name g) in dn \<noteq> [] \<and> contains_str (lower text) (lower dn))"

definition scope_reference ::
  "(string \<Rightarrow> bool) \<Rightarrow> (string \<Rightarrow> string) \<Rightarrow> group_identity \<Rightarrow> exo_management_scope \<Rightarrow> string option" where
  "scope_reference uni_alnum lower g scope =
     (let label = (case ms_name scope of
                     Some n \<Rightarrow> n
                   | None \<Rightarrow> (case ms_identity scope of Some i \<Rightarrow> i | None \<Rightarrow> ''(unnamed)''))
      in case ms_recipient_filter scope of
           None \<Rightarrow> None
         | Some f \<Rightarrow>
             (let clauses = member_of_group_clauses uni_alnum f;
                  groups = scope_groups_in_filter uni_alnum f
              in if list_ex (\<lambda>c. group_matches g (mc_dn c)) clauses
                 then Some (''management scope '' @ [QUOTE] @ label @ [QUOTE])
                 else if \<not> sg_complete groups \<or> named_in_text lower g f
                 then Some (''management scope '' @ [QUOTE] @ label @ [QUOTE] @ '' (filter not fully readable '' @ em_dash @ '' it may reference this group)'')
                 else None))"

definition policy_reference :: "group_identity \<Rightarrow> exo_application_access_policy \<Rightarrow> string option" where
  "policy_reference g p =
     (let hit = (\<lambda>v :: string option. case v of Some s \<Rightarrow> group_matches g s | None \<Rightarrow> False)
      in if hit (aap_scope_name p) \<or> hit (aap_scope_identity p)
         then Some (''Application Access Policy '' @ [QUOTE]
             @ (case aap_identity p of Some i \<Rightarrow> i | None \<Rightarrow> ''(unnamed)'') @ [QUOTE] @ '' (app ''
             @ (case aap_app_id p of Some i \<Rightarrow> i | None \<Rightarrow> ''unknown'') @ '')'')
         else None)"

definition references_to_group ::
  "(string \<Rightarrow> bool) \<Rightarrow> (string \<Rightarrow> string) \<Rightarrow> group_identity \<Rightarrow> exo_management_scope list
     \<Rightarrow> exo_application_access_policy list \<Rightarrow> string list" where
  "references_to_group uni_alnum lower g scopes policies =
     List.map_filter (scope_reference uni_alnum lower g) scopes @ List.map_filter (policy_reference g) policies"

section \<open>Batches\<close>

definition migratable :: "exo_application_access_policy \<Rightarrow> bool" where
  "migratable p \<longleftrightarrow> aap_app_id p \<noteq> None \<and> aap_access_right_of p = Some RestrictAccess"

definition belongs :: "string \<Rightarrow> exo_application_access_policy \<Rightarrow> bool" where
  "belongs a p \<longleftrightarrow> migratable p \<and> (\<exists>i. aap_app_id p = Some i \<and> eq_ignore_ascii_case a i)"

definition batches_ok :: "exo_application_access_policy list \<Rightarrow> (string \<times> exo_application_access_policy list) list \<Rightarrow> bool" where
  "batches_ok done bs \<longleftrightarrow>
     (\<forall>(a, batch) \<in> set bs. batch = filter (belongs a) done \<and> batch \<noteq> [])
   \<and> distinct (map (to_ascii_lowercase \<circ> fst) bs)
   \<and> (\<forall>p \<in> set done. migratable p \<longrightarrow> (\<exists>(a, batch) \<in> set bs. belongs a p))"

lemma push_batch_keys:
  "map (to_ascii_lowercase \<circ> fst) (push_batch i p bs) =
     (if to_ascii_lowercase i \<in> set (map (to_ascii_lowercase \<circ> fst) bs) then map (to_ascii_lowercase \<circ> fst) bs
      else map (to_ascii_lowercase \<circ> fst) bs @ [to_ascii_lowercase i])"
  by (induction i p bs rule: push_batch.induct) (auto simp: eq_ignore_ascii_case_def)

lemma push_batch_members:
  assumes "distinct (map (to_ascii_lowercase \<circ> fst) bs)" and "(a, b) \<in> set (push_batch i p bs)"
  shows "(\<exists>b'. (a, b') \<in> set bs \<and> b = (if eq_ignore_ascii_case a i then b' @ [p] else b'))
    \<or> (a = i \<and> b = [p] \<and> to_ascii_lowercase i \<notin> set (map (to_ascii_lowercase \<circ> fst) bs))"
  using assms
proof (induction i p bs rule: push_batch.induct)
  case (2 i p x batch bs)
  show ?case
  proof (cases "eq_ignore_ascii_case x i")
    case True
    have "\<not> eq_ignore_ascii_case a i" if "(a, b') \<in> set bs" for b'
      using 2(2) that True by (force simp: eq_ignore_ascii_case_def)
    with 2(3) True show ?thesis by auto
  next
    case False
    then consider "a = x \<and> b = batch" | "(a, b) \<in> set (push_batch i p bs)" using 2(3) by auto
    then show ?thesis
    proof cases
      case 1
      with False show ?thesis by auto
    next
      case inner: 2
      have "distinct (map (to_ascii_lowercase \<circ> fst) bs)" using 2(2) by (simp add: comp_def)
      from 2(1) [OF False this inner] False show ?thesis by (auto simp: eq_ignore_ascii_case_def)
    qed
  qed
qed simp

lemma batches_ok_push:
  assumes "batches_ok done bs" and "belongs i p"
  shows "batches_ok (done @ [p]) (push_batch i p bs)"
proof -
  obtain j where j: "aap_app_id p = Some j" "eq_ignore_ascii_case i j" "migratable p"
    using assms(2) by (auto simp: belongs_def)
  have bp: "belongs a p \<longleftrightarrow> eq_ignore_ascii_case a i" for a
    using j by (auto simp: belongs_def eq_ignore_ascii_case_def)
  have d: "distinct (map (to_ascii_lowercase \<circ> fst) bs)" using assms(1) by (simp add: batches_ok_def)
  have none: "filter (belongs i) done = []" if "to_ascii_lowercase i \<notin> set (map (to_ascii_lowercase \<circ> fst) bs)"
    using assms(1) that by (force simp: batches_ok_def belongs_def filter_empty_conv eq_ignore_ascii_case_def)
  have "b = filter (belongs a) (done @ [p]) \<and> b \<noteq> []" if "(a, b) \<in> set (push_batch i p bs)" for a b
    using push_batch_members [OF d that] assms(1) none by (auto simp: batches_ok_def bp)
  moreover have "\<exists>(a, batch) \<in> set (push_batch i p bs). belongs a q" if q: "q \<in> set (done @ [p])" "migratable q" for q
  proof -
    have keys: "to_ascii_lowercase ` fst ` set (push_batch i p bs) = insert (to_ascii_lowercase i) (to_ascii_lowercase ` fst ` set bs)"
      using arg_cong [OF push_batch_keys [of i p bs], of set] by (auto simp: image_comp split: if_splits)
    obtain a where a: "belongs a q" "to_ascii_lowercase a \<in> insert (to_ascii_lowercase i) (to_ascii_lowercase ` fst ` set bs)"
    proof (cases "q = p")
      case True
      with assms(2) that show ?thesis by blast
    next
      case False
      then have "\<exists>(a, batch) \<in> set bs. belongs a q" using q assms(1) by (auto simp: batches_ok_def)
      with that show ?thesis by force
    qed
    then have "\<exists>a. belongs a q \<and> to_ascii_lowercase a \<in> to_ascii_lowercase ` fst ` set (push_batch i p bs)"
      unfolding keys by blast
    then show ?thesis by (force simp: belongs_def eq_ignore_ascii_case_def)
  qed
  ultimately show ?thesis using d by (auto simp: batches_ok_def push_batch_keys)
qed

lemma batches_ok_skip: "batches_ok done bs \<Longrightarrow> \<not> migratable p \<Longrightarrow> batches_ok (done @ [p]) bs"
  by (auto simp: batches_ok_def belongs_def)

lemma group_policies_loop_spec:
  "batches_ok done bs \<Longrightarrow> group_policies_loop ps bs ex = (bs', ex') \<Longrightarrow>
     batches_ok (done @ ps) bs' \<and> length ex' = length ex + length (filter (\<lambda>p. \<not> migratable p) ps)"
proof (induction ps arbitrary: "done" bs ex)
  case (Cons p ps)
  have step: ?case if "batches_ok (done @ [p]) bs2" and "group_policies_loop ps bs2 ex2 = (bs', ex')"
      and "length ex2 = length ex + (if migratable p then 0 else 1)" for bs2 ex2
    using Cons.IH [OF that(1,2)] that(3) by simp
  show ?case
  proof (cases "migratable p")
    case True
    then obtain i where i: "aap_app_id p = Some i" "aap_access_right_of p = Some RestrictAccess"
      by (auto simp: migratable_def)
    then have "belongs i p" using True by (simp add: belongs_def)
    from batches_ok_push [OF Cons.prems(1) this] show ?thesis
      by (rule step) (use Cons.prems(2) i True in \<open>simp_all add: is_restrict_def\<close>)
  next
    case False
    obtain ex2 where "group_policies_loop ps bs ex2 = (bs', ex')" "length ex2 = length ex + 1"
      using Cons.prems(2) False
      by (cases "aap_app_id p"; cases "aap_access_right_of p") (auto simp: is_restrict_def migratable_def)
    then show ?thesis by (intro step [OF batches_ok_skip [OF Cons.prems(1) False]]) (use False in simp_all)
  qed
qed simp

section \<open>Role steps\<close>

definition in_place_role :: "string list \<Rightarrow> string \<Rightarrow> bool" where
  "in_place_role in_place role \<longleftrightarrow> list_ex (\<lambda>r. eq_ignore_ascii_case r role) in_place"

definition first_with_role :: "exchange_target list \<Rightarrow> string \<Rightarrow> nat \<Rightarrow> bool" where
  "first_with_role ts role j \<longleftrightarrow> j < length ts \<and> et_exchange_role (ts ! j) = role \<and> (\<forall>i < j. et_exchange_role (ts ! i) \<noteq> role)"

definition role_step_ok :: "string list \<Rightarrow> exchange_target list \<Rightarrow> nat \<Rightarrow> role_step \<Rightarrow> bool" where
  "role_step_ok in_place ts k st \<longleftrightarrow>
     (case st of
        AlreadyScoped \<Rightarrow> in_place_role in_place (et_exchange_role (ts ! k))
      | Assign \<Rightarrow> \<not> in_place_role in_place (et_exchange_role (ts ! k)) \<and> first_with_role ts (et_exchange_role (ts ! k)) k
      | SameRoleAs j \<Rightarrow> \<not> in_place_role in_place (et_exchange_role (ts ! k)) \<and> j < k
          \<and> first_with_role ts (et_exchange_role (ts ! k)) j)"

lemma first_with_role_append:
  "first_with_role (ts @ [t]) role j \<longleftrightarrow> first_with_role ts role j
     \<or> (j = length ts \<and> et_exchange_role t = role \<and> (\<forall>i < length ts. et_exchange_role (ts ! i) \<noteq> role))"
  by (auto simp: first_with_role_def nth_append split: if_splits)

lemma first_with_role_prefix: "first_with_role ts role j \<Longrightarrow> first_with_role (ts @ us) role j"
  by (auto simp: first_with_role_def nth_append)

lemma plan_roles_loop_ok:
  assumes "\<And>role j. \<not> in_place_role ip role \<Longrightarrow> map_of asg role = Some j \<longleftrightarrow> first_with_role ts0 role j"
  shows "length (plan_roles_loop ip asg (length ts0) ts) = length ts
    \<and> (\<forall>k < length ts. role_step_ok ip (ts0 @ ts) (length ts0 + k) (plan_roles_loop ip asg (length ts0) ts ! k))"
  using assms
proof (induction ts arbitrary: ts0 asg)
  case (Cons t ts)
  let ?role = "et_exchange_role t"
  let ?asg = "if in_place_role ip ?role \<or> map_of asg ?role \<noteq> None then asg else (?role, length ts0) # asg"
  have none: "map_of asg role = None \<longleftrightarrow> (\<forall>i < length ts0. et_exchange_role (ts0 ! i) \<noteq> role)" if "\<not> in_place_role ip role" for role
  proof
    show "\<forall>i < length ts0. et_exchange_role (ts0 ! i) \<noteq> role" if m: "map_of asg role = None"
    proof (rule ccontr)
      assume "\<not> (\<forall>i < length ts0. et_exchange_role (ts0 ! i) \<noteq> role)"
      then have ex: "\<exists>i. i < length ts0 \<and> et_exchange_role (ts0 ! i) = role" by blast
      have "first_with_role ts0 role (LEAST i. i < length ts0 \<and> et_exchange_role (ts0 ! i) = role)"
        using LeastI_ex [OF ex] not_less_Least by (fastforce simp: first_with_role_def)
      with Cons.prems [OF \<open>\<not> in_place_role ip role\<close>] m show False by simp
    qed
  qed (metis Cons.prems [OF that] first_with_role_def not_None_eq)
  have next_ok: "map_of ?asg role = Some j \<longleftrightarrow> first_with_role (ts0 @ [t]) role j" if "\<not> in_place_role ip role" for role j
  proof (cases "role = ?role \<and> map_of asg role = None")
    case True
    then have "map_of ?asg role = Some j \<longleftrightarrow> j = length ts0" using that by auto
    moreover have "\<not> first_with_role ts0 role j" using Cons.prems [OF that, of j] True by (metis option.distinct(1))
    ultimately show ?thesis using True none [OF that] by (auto simp: first_with_role_append)
  next
    case False
    then have "map_of ?asg role = map_of asg role" by auto
    moreover have "\<not> (?role = role \<and> (\<forall>i < length ts0. et_exchange_role (ts0 ! i) \<noteq> role))"
      using False none [OF that] by blast
    ultimately show ?thesis using Cons.prems [OF that, of j] by (simp only: first_with_role_append) blast
  qed
  let ?step = "if in_place_role ip ?role then AlreadyScoped else case map_of asg ?role of Some f \<Rightarrow> SameRoleAs f | None \<Rightarrow> Assign"
  have loop: "plan_roles_loop ip asg (length ts0) (t # ts) = ?step # plan_roles_loop ip ?asg (length (ts0 @ [t])) ts"
    by (auto simp: in_place_role_def split: option.split)
  have step: "role_step_ok ip (ts0 @ t # ts) (length ts0) ?step"
  proof (cases "in_place_role ip ?role")
    case False
    then show ?thesis
      using none [OF False] Cons.prems [OF False] first_with_role_prefix [of ts0 ?role _ "t # ts"]
      by (cases "map_of asg ?role") (auto simp: role_step_ok_def first_with_role_def nth_append)
  qed (simp add: role_step_ok_def)
  note rest = Cons.IH [of ?asg "ts0 @ [t]", OF next_ok]
  have "role_step_ok ip (ts0 @ t # ts) (length ts0 + k) (plan_roles_loop ip asg (length ts0) (t # ts) ! k)"
    if "k < length (t # ts)" for k
    using that step rest unfolding loop by (cases k) auto
  with rest loop show ?case by simp
qed simp

section \<open>Source membership\<close>

definition member_keys :: "exo_group_member list \<Rightarrow> string set" where
  "member_keys ms = {sm_key sm |sm m. m \<in> set ms \<and> source_member m = Some sm}"

definition identifiable :: "exo_group_member list \<Rightarrow> bool" where
  "identifiable ms \<longleftrightarrow> (\<forall>m \<in> set ms. source_member m \<noteq> None)"

lemma member_keys_simps [simp]:
  "member_keys [] = {}"
  "member_keys (m # ms) = (case source_member m of Some sm \<Rightarrow> {sm_key sm} | None \<Rightarrow> {}) \<union> member_keys ms"
  by (auto simp: member_keys_def split: option.splits)

lemma identifiable_simps [simp]:
  "identifiable []"
  "identifiable (m # ms) \<longleftrightarrow> source_member m \<noteq> None \<and> identifiable ms"
  by (auto simp: identifiable_def)

lemma add_members_spec:
  "add_members ms members seen u = (members', seen', u') \<Longrightarrow> sm_key ` set members = set seen \<Longrightarrow>
     sm_key ` set members' = set seen' \<and> set seen' = set seen \<union> member_keys ms \<and> u \<le> u' \<and> (u' = u \<longleftrightarrow> identifiable ms)"
proof (induction ms members seen u rule: add_members.induct)
  case (2 m ms members seen u)
  show ?case
  proof (cases "source_member m")
    case None
    with 2 have "add_members ms members seen (u + 1) = (members', seen', u')" by simp
    with 2(1) [OF None] 2(5) None show ?thesis by auto
  next
    case (Some sm)
    with 2(2) [OF Some] 2(3) [OF Some] 2(4,5) show ?thesis
      by (cases "sm_key sm \<in> set seen") auto
  qed
qed auto

lemma plan_source_loop_unreadable: "plan_source_loop reads members seen unreadable = (members', []) \<Longrightarrow> unreadable = []"
proof (induction reads members seen unreadable rule: plan_source_loop.induct)
  case (4 dn m ms reads members seen unreadable)
  obtain a b c where add: "add_members (m # ms) members seen 0 = (a, b, c)" by (metis prod_cases3)
  from 4(1) [OF add [symmetric] refl refl] 4(2) show ?case by (auto simp: add simp del: add_members.simps split: if_splits)
qed auto

lemma plan_source_loop_spec:
  "plan_source_loop reads members seen unreadable = (members', []) \<Longrightarrow> sm_key ` set members = set seen \<Longrightarrow>
     (\<forall>(dn, r) \<in> set reads. \<exists>ms. r = Inr ms \<and> ms \<noteq> [] \<and> identifiable ms)
   \<and> sm_key ` set members' = set seen \<union> (\<Union>(dn, r) \<in> set reads. case r of Inr ms \<Rightarrow> member_keys ms | Inl _ \<Rightarrow> {})"
proof (induction reads members seen unreadable rule: plan_source_loop.induct)
  case (4 dn m ms reads members seen unreadable)
  obtain members2 seen2 u where add: "add_members (m # ms) members seen 0 = (members2, seen2, u)"
    by (metis prod_cases3)
  note spec = add_members_spec [OF add 4(3)]
  have u: "u = 0"
    using 4(2) plan_source_loop_unreadable by (force simp: add simp del: add_members.simps split: if_splits)
  then have "plan_source_loop reads members2 seen2 unreadable = (members', [])"
    using 4(2) add by (simp del: add_members.simps)
  with 4(1) [OF add [symmetric] refl refl] spec u show ?case by (auto simp del: member_keys_simps)
qed (auto dest: plan_source_loop_unreadable)

lemma extra_members_loop_spec:
  "extra_members_loop source ms extra seen u = (extra', u') \<Longrightarrow> (extra = [] \<Longrightarrow> seen = []) \<Longrightarrow>
     u \<le> u' \<and> (u' = u \<longleftrightarrow> identifiable ms) \<and> (extra' = [] \<longleftrightarrow> extra = [] \<and> member_keys ms \<subseteq> set source)"
proof (induction source ms extra seen u rule: extra_members_loop.induct)
  case (2 source m ms extra seen u)
  show ?case
  proof (cases "source_member m")
    case None
    with 2(5) have "extra_members_loop source ms extra seen (u + 1) = (extra', u')" by simp
    from 2(1) [OF None this 2(6)] None show ?thesis by auto
  next
    case (Some sm)
    consider "sm_key sm \<in> set source" | "sm_key sm \<notin> set source" "sm_key sm \<in> set seen"
      | "sm_key sm \<notin> set source" "sm_key sm \<notin> set seen" by blast
    then show ?thesis
    proof cases
      case 1
      with 2(4) [OF Some] 2(5,6) Some show ?thesis by simp
    next
      case c: 2
      with 2(3) [OF Some] 2(5,6) Some show ?thesis by auto
    next
      case 3
      with 2(2) [OF Some] 2(5) Some show ?thesis by simp
    qed
  qed
qed auto

lemma extra_members_empty:
  "extra_members intended managed = [] \<longleftrightarrow> identifiable managed \<and> member_keys managed \<subseteq> sm_key ` set intended"
proof -
  obtain e u where "extra_members_loop (map sm_key intended) managed [] [] 0 = (e, u)" by (metis prod.exhaust)
  with extra_members_loop_spec [OF this] show ?thesis by (auto simp: extra_members_def)
qed

lemma unverified_members_empty:
  "unverified_members intended present = [] \<longleftrightarrow> sm_key ` set intended \<subseteq> set present"
  by (auto simp: unverified_members_def filter_empty_conv)

lemma plan_consolidation_accepts:
  "plan_consolidation ua lower f managed unreadable n extra = Inr p \<longleftrightarrow>
     (\<exists>dns dn. rewritable_scope_dns ua f = Inr dns \<and> managed = Some dn \<and> unreadable = [] \<and> n = 0 \<and> extra = []
        \<and> p = \<lparr>cp_scope_dns = [dn], cp_repoint = (\<not> list_all (\<lambda>d. same_dn lower d dn) dns)\<rparr>)"
  by (auto simp: plan_consolidation_def split: sum.split option.split)

text \<open>\<^bold>\<open>Migration batches.\<close>  Grouping the tenant's legacy policies for migration gives one non-empty batch per
  application (application ids compared ignoring ASCII case), each holding exactly that application's
  RestrictAccess policies in tenant order; every migratable policy is in a batch and every other policy
  gets exactly one line in the excluded list.\<close>

theorem migration_batches_exact:
  "let (batches, excluded) = group_policies_for_migration policies
   in batches_ok policies batches \<and> length excluded = length (filter (\<lambda>p. \<not> migratable p) policies)"
proof -
  obtain bs ex where g: "group_policies_loop policies [] [] = (bs, ex)" by (metis prod.exhaust)
  have "batches_ok [] []" by (simp add: batches_ok_def)
  from group_policies_loop_spec [OF this g] g show ?thesis by (simp add: group_policies_for_migration_def)
qed

text \<open>\<^bold>\<open>Role steps.\<close>  The plan has one step per target.  A target is left alone exactly when its Exchange role is
  already assigned on this scope; otherwise the first target with a role assigns it and every later one
  with the same role mirrors that first assignment, which comes before it in the plan.\<close>

theorem role_plan_sound:
  "let steps = plan_role_assignments existing name targets
   in length steps = length targets
      \<and> list_all (\<lambda>k. role_step_ok (roles_already_scoped existing name) targets k (steps ! k)) [0..<length targets]"
  using plan_roles_loop_ok [of "roles_already_scoped existing name" "[]" "[]" targets]
  by (simp add: plan_role_assignments_def first_with_role_def list_all_iff)

end
