(* ===== verification/Exchange_Verdict.thy ===== *)
theory Exchange_Verdict
  imports Exchange_Plan
begin

text \<open>
  What an operator is told about an application's mailbox reach: the verdict functions of
  \<^verbatim>\<open>crates/azapptoolkit-exchange/src/verdict.rs\<close> and their composition in \<open>resolve_mail_scopes\<close>
  (\<^verbatim>\<open>apps/desktop/src-tauri/src/commands/exchange/mail_scopes.rs\<close>).  The answers of Exchange are
  arguments: the policy read, the authorization probe, and one management scope per name (the code
  looks a name up once and keeps the answer).  The log line for an unrecognised scope type is left out.
\<close>

section \<open>Rows\<close>

definition CONFINED_SCOPE_TYPES :: "string list" where
  "CONFINED_SCOPE_TYPES =
     [''customrecipientscope'', ''recipientscope'', ''administrativeunit'', ''administrativeunitscope'',
      ''recipientadministrativeunitscope'']"

definition opt_trim :: "string option \<Rightarrow> string" where
  "opt_trim v = trim (case v of Some s \<Rightarrow> s | None \<Rightarrow> [])"

definition is_org_wide_auth_row :: "exo_authorization_result \<Rightarrow> bool" where
  "is_org_wide_auth_row r \<longleftrightarrow>
     (let allowed = opt_trim (ar_allowed_resource_scope r)
      in if allowed = [] \<or> eq_ignore_ascii_case allowed ''Not Applicable'' then True
         else \<not> list_ex (\<lambda>t. eq_ignore_ascii_case (opt_trim (ar_scope_type r)) t) CONFINED_SCOPE_TYPES)"

function granted_tokens :: "string \<Rightarrow> string \<Rightarrow> string list" where
  "granted_tokens cur [] = [cur]"
| "granted_tokens cur (c # s) =
     (if c = CHR '','' \<or> c = CHR '';'' then cur # granted_tokens [] s
      else if whitespace_len (c # s) = 0 then granted_tokens (cur @ [c]) s
      else cur # granted_tokens [] (drop (whitespace_len (c # s)) (c # s)))"
  by pat_completeness auto
termination
  by (relation "measure (length \<circ> snd)") auto

definition row_grants_permission :: "exo_authorization_result \<Rightarrow> string \<Rightarrow> string \<Rightarrow> bool" where
  "row_grants_permission row role v \<longleftrightarrow>
     (let row_role = map_option trim (ar_role_name row)
      in (case row_role of Some r \<Rightarrow> eq_ignore_ascii_case r (trim role) | None \<Rightarrow> False)
         \<or> (case nonblank (ar_granted_permissions row) of
              Some granted \<Rightarrow> list_ex (\<lambda>g. g \<noteq> [] \<and> eq_ignore_ascii_case g (trim v)) (granted_tokens [] granted)
            | None \<Rightarrow> (case row_role of Some r \<Rightarrow> composite_role_confers r v | None \<Rightarrow> False)))"

section \<open>Verdicts\<close>

definition sorted_names :: "string list \<Rightarrow> string list" where
  "sorted_names names = remdups_adj (sort (filter (\<lambda>n. n \<noteq> []) (map trim names)))"

definition joined_name :: "string list \<Rightarrow> string option" where
  "joined_name names =
     (case names of [] \<Rightarrow> None | [one] \<Rightarrow> Some one | _ \<Rightarrow> Some (join '', '' names))"

definition distinct_scope_names :: "exo_authorization_result list \<Rightarrow> string list" where
  "distinct_scope_names rows = sorted_names (List.map_filter ar_allowed_resource_scope rows)"

definition verdict_from_rows :: "exo_authorization_result list \<Rightarrow> mail_permission_scope" where
  "verdict_from_rows rows =
     (if rows = [] \<or> list_ex is_org_wide_auth_row rows then OrgWide
      else Scoped (joined_name (distinct_scope_names rows)) None None Rbac)"

definition governing_policies :: "exo_application_access_policy list \<Rightarrow> string \<Rightarrow> exo_application_access_policy list" where
  "governing_policies policies app =
     filter (\<lambda>p. (case aap_app_id p of Some a \<Rightarrow> eq_ignore_ascii_case a app | None \<Rightarrow> False) \<and> is_restrict_access p) policies"

definition policy_scope_label :: "exo_application_access_policy \<Rightarrow> string option" where
  "policy_scope_label p = (case aap_scope_name p of Some n \<Rightarrow> Some n | None \<Rightarrow> aap_scope_identity p)"

definition aap_verdict_for :: "exo_application_access_policy list \<Rightarrow> string \<Rightarrow> mail_permission_scope option" where
  "aap_verdict_for policies app =
     (case governing_policies policies app of
        [] \<Rightarrow> None
      | matching \<Rightarrow>
          Some (Scoped (joined_name (sorted_names (List.map_filter policy_scope_label matching)))
                 (case matching of [only] \<Rightarrow> aap_description only | _ \<Rightarrow> None) None LegacyApplicationAccessPolicy))"

fun apply_legacy_loop ::
  "mail_permission_scope \<Rightarrow> (string \<times> mail_permission_scope) list \<Rightarrow> resource_permission list
     \<Rightarrow> (string \<times> mail_permission_scope) list" where
  "apply_legacy_loop verdict scopes [] = scopes"
| "apply_legacy_loop verdict scopes (g # gs) =
     apply_legacy_loop verdict
       (if (case resource_app_id g of Some r \<Rightarrow> is_aap_confinable_permission r (perm g) | None \<Rightarrow> False)
        then (case map_of scopes (perm g) of
                Some (Scoped _ _ _ _) \<Rightarrow> scopes
              | _ \<Rightarrow> AList.update (perm g) verdict scopes)
        else scopes) gs"

definition apply_legacy_policy_verdict ::
  "(string \<times> mail_permission_scope) list \<Rightarrow> resource_permission list \<Rightarrow> mail_permission_scope option
     \<Rightarrow> (string \<times> mail_permission_scope) list" where
  "apply_legacy_policy_verdict scopes grants verdict =
     (case verdict of None \<Rightarrow> scopes | Some v \<Rightarrow> apply_legacy_loop v scopes grants)"

definition scope_from_rbac_error ::
  "exchange_error \<Rightarrow> mail_permission_scope option \<Rightarrow> exchange_error + mail_permission_scope" where
  "scope_from_rbac_error err aap =
     (case aap of
        Some scoped \<Rightarrow> Inr scoped
      | None \<Rightarrow> if is_missing_object err then Inr OrgWide else Inl err)"

definition scoped_via_rbac :: "mail_permission_scope \<Rightarrow> bool" where
  "scoped_via_rbac v \<longleftrightarrow> (case v of Scoped _ _ _ Rbac \<Rightarrow> True | _ \<Rightarrow> False)"

definition defeated :: "string \<Rightarrow> string set \<Rightarrow> bool" where
  "defeated p orgwide_granted \<longleftrightarrow> p \<in> orgwide_granted \<or> (\<exists>g \<in> orgwide_granted. is_blanket_mailbox_grant g)"

definition reconcile_orgwide_grant ::
  "mail_permission_scope \<Rightarrow> string \<Rightarrow> string set \<Rightarrow> mail_permission_scope" where
  "reconcile_orgwide_grant verdict p orgwide_granted =
     (if scoped_via_rbac verdict \<and> defeated p orgwide_granted then OrgWide else verdict)"

section \<open>Resolving the scopes of one application\<close>

type_synonym scope_lookup = "string \<Rightarrow> exchange_error + exo_management_scope option"

definition legacy_aap_scope ::
  "exchange_error + exo_application_access_policy list \<Rightarrow> string \<Rightarrow> mail_permission_scope option" where
  "legacy_aap_scope policies app = (case policies of Inl _ \<Rightarrow> None | Inr ps \<Rightarrow> aap_verdict_for ps app)"

definition matching_rows ::
  "exo_authorization_result list \<Rightarrow> scopable_mail_permission \<Rightarrow> exo_authorization_result list" where
  "matching_rows rows s = filter (\<lambda>r. row_grants_permission r (smp_exchange_role s) (smp_perm s)) rows"

definition plain_verdict ::
  "exo_authorization_result list \<Rightarrow> mail_permission_scope option \<Rightarrow> string set \<Rightarrow> scopable_mail_permission
     \<Rightarrow> mail_permission_scope" where
  "plain_verdict rows aap_override orgwide_granted s =
     (let verdict = verdict_from_rows (matching_rows rows s);
          verdict = (if verdict = OrgWide \<and> smp_aap_confinable s
                     then (case aap_override of Some aap \<Rightarrow> aap | None \<Rightarrow> verdict) else verdict)
      in reconcile_orgwide_grant verdict (smp_perm s) orgwide_granted)"

definition read_scope :: "scope_lookup \<Rightarrow> string \<Rightarrow> (32 word \<times> string) option" where
  "read_scope get_management_scope name =
     (case get_management_scope name of
        Inr (Some scope) \<Rightarrow>
          map_option (\<lambda>f. (of_nat (count_member_of_group f), f)) (ms_recipient_filter scope)
      | _ \<Rightarrow> None)"

definition enrich_verdict ::
  "scope_lookup \<Rightarrow> bool \<Rightarrow> string list \<Rightarrow> (string \<times> (32 word \<times> string) option) list \<Rightarrow> mail_permission_scope
     \<Rightarrow> mail_permission_scope \<times> (string \<times> (32 word \<times> string) option) list" where
  "enrich_verdict get_management_scope enrich names scope_cache verdict =
     (case verdict of
        Scoped (Some name) _ _ Rbac \<Rightarrow>
          if enrich \<and> names = [name] then
            (let (resolved, scope_cache) =
               (case map_of scope_cache name of
                  Some hit \<Rightarrow> (hit, scope_cache)
                | None \<Rightarrow> (let r = read_scope get_management_scope name in (r, (name, r) # scope_cache)))
             in (case resolved of
                   Some (groups, f) \<Rightarrow> (Scoped (Some name) (Some f) (Some groups) Rbac, scope_cache)
                 | None \<Rightarrow> (verdict, scope_cache)))
          else (verdict, scope_cache)
      | _ \<Rightarrow> (verdict, scope_cache))"

fun resolve_loop ::
  "scope_lookup \<Rightarrow> bool \<Rightarrow> exo_authorization_result list \<Rightarrow> mail_permission_scope option \<Rightarrow> string set
     \<Rightarrow> (string \<times> (32 word \<times> string) option) list \<Rightarrow> (string \<times> mail_permission_scope) list
     \<Rightarrow> scopable_mail_permission list \<Rightarrow> (string \<times> mail_permission_scope) list" where
  "resolve_loop get_management_scope enrich rows aap orgwide_granted scope_cache out [] = out"
| "resolve_loop get_management_scope enrich rows aap orgwide_granted scope_cache out (s # ss) =
     (let (verdict, scope_cache) =
        enrich_verdict get_management_scope enrich (distinct_scope_names (matching_rows rows s)) scope_cache
          (plain_verdict rows aap orgwide_granted s)
      in resolve_loop get_management_scope enrich rows aap orgwide_granted scope_cache
           (AList.update (smp_perm s) verdict out) ss)"

definition resolve_probe_error ::
  "exchange_error \<Rightarrow> mail_permission_scope option \<Rightarrow> scopable_mail_permission list
     \<Rightarrow> exchange_error + (string \<times> mail_permission_scope) list" where
  "resolve_probe_error err aap_override scopable =
     (let rbac_only = (if is_missing_object err then OrgWide else ScopeUnknown);
          aap = (if list_ex smp_aap_confinable scopable then aap_override else None)
      in case scope_from_rbac_error err aap of
           Inl e \<Rightarrow> Inl e
         | Inr fallback \<Rightarrow>
             Inr (fold (\<lambda>s. AList.update (smp_perm s) (if smp_aap_confinable s then fallback else rbac_only)) scopable []))"

definition resolve_mail_scopes ::
  "(exchange_error + exo_application_access_policy list) \<Rightarrow> (exchange_error + exo_authorization_result list)
     \<Rightarrow> scope_lookup \<Rightarrow> string \<Rightarrow> scopable_mail_permission list \<Rightarrow> string set \<Rightarrow> bool
     \<Rightarrow> exchange_error + (string \<times> mail_permission_scope) list" where
  "resolve_mail_scopes policies probe get_management_scope app scopable orgwide_granted enrich =
     (if scopable = [] then Inr []
      else let aap_override = (if enrich then legacy_aap_scope policies app else None)
           in case probe of
                Inl err \<Rightarrow> if \<not> enrich then Inl err else resolve_probe_error err aap_override scopable
              | Inr rows \<Rightarrow> Inr (resolve_loop get_management_scope enrich rows aap_override orgwide_granted [] [] scopable))"

definition mail_scopes_key :: "string \<Rightarrow> string \<Rightarrow> string" where
  "mail_scopes_key tenant discriminator = tenant @ ''|mail_scopes|'' @ discriminator"

definition audit_mail_scopes_key :: "string \<Rightarrow> string \<Rightarrow> scopable_mail_permission list \<Rightarrow> string set \<Rightarrow> string" where
  "audit_mail_scopes_key tenant app scopable orgwide_granted =
     (let vs = remdups_adj (sort (map smp_perm scopable));
          held = filter (\<lambda>v. v \<in> orgwide_granted) vs
      in mail_scopes_key tenant
           (''audit|'' @ app @ ''|'' @ join '','' vs @ ''|orgwide:'' @ join '','' held))"

definition verdicts_are_cacheable :: "mail_permission_scope list \<Rightarrow> bool" where
  "verdicts_are_cacheable entries \<longleftrightarrow> \<not> list_ex (\<lambda>e. e = ScopeUnknown) entries"

section \<open>Order independence\<close>

lemma distinct_scope_names_set:
  "set rows = set rows' \<Longrightarrow> distinct_scope_names rows = distinct_scope_names rows'"
  by (simp add: distinct_scope_names_def sorted_names_def dedup_sorted set_map_filter)

text \<open>\<^bold>\<open>A verdict is about reach, not about the response.\<close>  It depends on the set of rows only, never on their
  order or multiplicity, names every scope the rows confine to, and once some row makes a permission
  organisation-wide no additional row makes it scoped.\<close>

theorem verdict_is_about_reach:
  assumes "set rows \<subseteq> set rows'" and "rows \<noteq> []"
  shows "(verdict_from_rows rows = OrgWide \<longrightarrow> verdict_from_rows rows' = OrgWide)
    \<and> (set rows' \<subseteq> set rows \<longrightarrow> verdict_from_rows rows' = verdict_from_rows rows)
    \<and> set (distinct_scope_names rows) = {trim s |s r. r \<in> set rows \<and> ar_allowed_resource_scope r = Some s \<and> trim s \<noteq> []}"
proof -
  have "verdict_from_rows rows' = verdict_from_rows rows" if "set rows' \<subseteq> set rows"
  proof -
    have e: "set rows' = set rows" using assms(1) that by blast
    then have "rows' \<noteq> []" using assms(2) by auto
    with e assms(2) show ?thesis
      using distinct_scope_names_set [OF e] by (simp add: verdict_from_rows_def list_ex_iff)
  qed
  moreover have "verdict_from_rows rows = OrgWide \<longrightarrow> verdict_from_rows rows' = OrgWide"
    using assms by (auto simp: verdict_from_rows_def list_ex_iff split: if_splits)
  ultimately show ?thesis
    by (auto simp: distinct_scope_names_def sorted_names_def set_map_filter)
qed

definition example_row :: "string \<Rightarrow> string \<Rightarrow> exo_authorization_result" where
  "example_row scope kind = \<lparr>ar_role_name = Some ''Application Mail.Read'', ar_granted_permissions = None,
     ar_allowed_resource_scope = Some scope, ar_scope_type = Some kind, ar_in_scope = None\<rparr>"

theorem verdict_is_about_reach_witness:
  "verdict_from_rows [example_row ''B'' ''RecipientScope'', example_row ''A'' ''CustomRecipientScope'']
     = Scoped (Some ''A, B'') None None Rbac"
proof -
  let ?a = "example_row ''A'' ''CustomRecipientScope''" and ?b = "example_row ''B'' ''RecipientScope''"
  have "verdict_from_rows [?a, ?b] = Scoped (Some ''A, B'') None None Rbac" by code_simp
  moreover have "verdict_from_rows [?b, ?a] = verdict_from_rows [?a, ?b]"
    using verdict_is_about_reach [of "[?a, ?b]" "[?b, ?a]"] by auto
  ultimately show ?thesis by simp
qed

section \<open>Soundness of a resolved scope\<close>

definition verdict_justified ::
  "(exchange_error + exo_application_access_policy list) \<Rightarrow> (exchange_error + exo_authorization_result list)
     \<Rightarrow> string \<Rightarrow> string set \<Rightarrow> scopable_mail_permission \<Rightarrow> mail_permission_scope \<Rightarrow> bool" where
  "verdict_justified policies probe app orgwide_granted s verdict \<longleftrightarrow>
     (case verdict of
        Scoped _ _ _ Rbac \<Rightarrow>
          (\<exists>rows. probe = Inr rows \<and> matching_rows rows s \<noteq> []
             \<and> (\<forall>r \<in> set (matching_rows rows s). \<not> is_org_wide_auth_row r))
          \<and> \<not> defeated (smp_perm s) orgwide_granted
      | Scoped _ _ _ LegacyApplicationAccessPolicy \<Rightarrow>
          smp_aap_confinable s \<and> (\<exists>ps. policies = Inr ps \<and> governing_policies ps app \<noteq> [])
          \<and> (case probe of Inl _ \<Rightarrow> True | Inr rows \<Rightarrow> matching_rows rows s = [] \<or> list_ex is_org_wide_auth_row (matching_rows rows s))
      | OrgWide \<Rightarrow>
          (case probe of
             Inl err \<Rightarrow> is_missing_object err
           | Inr rows \<Rightarrow> matching_rows rows s = [] \<or> list_ex is_org_wide_auth_row (matching_rows rows s)
               \<or> defeated (smp_perm s) orgwide_granted)
      | ScopeUnknown \<Rightarrow> (\<exists>err. probe = Inl err \<and> \<not> is_missing_object err \<and> \<not> smp_aap_confinable s)
      | NotScopable \<Rightarrow> False)"

lemma aap_verdict_shape:
  "aap_verdict_for ps app = Some v \<Longrightarrow>
     governing_policies ps app \<noteq> [] \<and> (\<exists>n f. v = Scoped n f None LegacyApplicationAccessPolicy)"
  by (auto simp: aap_verdict_for_def split: list.splits)

lemma legacy_scope_shape:
  "legacy_aap_scope policies app = Some v \<Longrightarrow>
     (\<exists>ps. policies = Inr ps \<and> governing_policies ps app \<noteq> []) \<and> (\<exists>n f. v = Scoped n f None LegacyApplicationAccessPolicy)"
  by (auto simp: legacy_aap_scope_def dest: aap_verdict_shape split: sum.splits)

lemma enrich_verdict_justified:
  "verdict_justified policies probe app og s v \<Longrightarrow> verdict_justified policies probe app og s (fst (enrich_verdict gs e ns c v))"
  by (auto simp: enrich_verdict_def verdict_justified_def Let_def
      split: mail_permission_scope.splits option.splits scope_mechanism_kind.splits if_splits prod.splits)

lemma plain_verdict_justified:
  assumes "aap \<noteq> None \<Longrightarrow> aap = legacy_aap_scope policies app"
  shows "verdict_justified policies (Inr rows) app og s (plain_verdict rows aap og s)"
proof -
  let ?m = "matching_rows rows s"
  have org: "verdict_from_rows ?m = OrgWide \<longleftrightarrow> ?m = [] \<or> list_ex is_org_wide_auth_row ?m"
    by (simp add: verdict_from_rows_def)
  show ?thesis
  proof (cases "verdict_from_rows ?m = OrgWide")
    case True
    then have plain: "plain_verdict rows aap og s = (case aap of Some v \<Rightarrow> if smp_aap_confinable s
        then reconcile_orgwide_grant v (smp_perm s) og else OrgWide | None \<Rightarrow> OrgWide)"
      by (simp add: plain_verdict_def reconcile_orgwide_grant_def scoped_via_rbac_def split: option.split)
    have wide: "verdict_justified policies (Inr rows) app og s OrgWide"
      using True org by (auto simp: verdict_justified_def)
    show ?thesis
    proof (cases aap)
      case (Some v)
      with assms have "legacy_aap_scope policies app = Some v" by simp
      from legacy_scope_shape [OF this] show ?thesis
        using Some plain wide True [unfolded org]
        by (auto simp: verdict_justified_def reconcile_orgwide_grant_def scoped_via_rbac_def)
    qed (use plain wide in simp)
  next
    case False
    then have "verdict_from_rows ?m = Scoped (joined_name (distinct_scope_names ?m)) None None Rbac"
      by (simp add: verdict_from_rows_def split: if_splits)
    then show ?thesis
      using False org
      by (auto simp: plain_verdict_def verdict_justified_def reconcile_orgwide_grant_def scoped_via_rbac_def list_ex_iff)
  qed
qed

lemma resolve_loop_justified:
  assumes "aap \<noteq> None \<Longrightarrow> aap = legacy_aap_scope policies app"
    and "map_of (resolve_loop gs e rows aap og cache out ss) v = Some verdict"
  shows "map_of out v = Some verdict
    \<or> (\<exists>s \<in> set ss. smp_perm s = v \<and> verdict_justified policies (Inr rows) app og s verdict)"
  using assms(2)
proof (induction ss arbitrary: cache out)
  case (Cons s ss)
  obtain vd c where ev: "enrich_verdict gs e (distinct_scope_names (matching_rows rows s)) cache (plain_verdict rows aap og s) = (vd, c)"
    by (metis prod.exhaust)
  have "verdict_justified policies (Inr rows) app og s vd"
    using enrich_verdict_justified [OF plain_verdict_justified [OF assms(1)]] ev by (metis fst_conv)
  with Cons.IH [of c "AList.update (smp_perm s) vd out"] Cons.prems ev show ?case
    by (auto simp: update_conv' split: if_splits)
qed simp

lemma fold_update_lookup:
  "map_of (fold (\<lambda>s. AList.update (k s) (f s)) xs out) v = Some y \<Longrightarrow> map_of out v = Some y \<or> (\<exists>s \<in> set xs. k s = v \<and> f s = y)"
  by (induction xs arbitrary: out) (fastforce simp: update_conv' split: if_splits)+

text \<open>C22: \<^bold>\<open>Every verdict rests on what was read.\<close>  Whenever the resolver reports a scope for a permission, the report is
  justified by the answers of Exchange and the grants: "scoped by RBAC" needs at least one granting row, every granting row
  confined to a named scope of a known kind, and neither the permission nor a blanket mailbox grant held org-wide in
  Entra; "scoped by a legacy policy" needs a permission such a policy can govern, a RestrictAccess policy on this application,
  and a probe that failed or shows no RBAC confinement; "org-wide" needs a principal Exchange does not know, no granting
  row, an org-wide one or a grant in Entra that defeats the scope; "unknown" is only said of a failed probe.  A policy-scoped
  verdict is a statement about the Entra grants alone: it is also given beside an org-wide RBAC row, which a policy does
  not confine (\<open>policy_verdict_beside_orgwide_row\<close> below).\<close>

theorem resolved_scope_justified:
  assumes "resolve_mail_scopes policies probe get_scope app scopable orgwide_granted enrich = Inr out"
    and "map_of out v = Some verdict"
  shows "\<exists>s \<in> set scopable. smp_perm s = v \<and> verdict_justified policies probe app orgwide_granted s verdict"
proof (cases probe)
  case (Inr rows)
  have "map_of (resolve_loop get_scope enrich rows (if enrich then legacy_aap_scope policies app else None)
      orgwide_granted [] [] scopable) v = Some verdict"
    using assms Inr by (auto simp: resolve_mail_scopes_def split: if_splits)
  then have "map_of [] v = Some verdict
      \<or> (\<exists>s \<in> set scopable. smp_perm s = v \<and> verdict_justified policies (Inr rows) app orgwide_granted s verdict)"
    by (rule resolve_loop_justified [rotated]) (simp split: if_splits)
  with Inr show ?thesis by simp
next
  case (Inl err)
  define aap where "aap = (if list_ex smp_aap_confinable scopable then legacy_aap_scope policies app else None)"
  obtain fb where fb: "scope_from_rbac_error err aap = Inr fb"
    and out: "out = fold (\<lambda>s. AList.update (smp_perm s)
        (if smp_aap_confinable s then fb else if is_missing_object err then OrgWide else ScopeUnknown)) scopable []"
    using assms Inl
    by (auto simp: resolve_mail_scopes_def resolve_probe_error_def aap_def Let_def split: if_splits sum.splits)
  obtain s where s: "s \<in> set scopable" "smp_perm s = v"
      "(if smp_aap_confinable s then fb else if is_missing_object err then OrgWide else ScopeUnknown) = verdict"
    using fold_update_lookup assms(2) out by force
  have "verdict_justified policies probe app orgwide_granted s verdict"
    using s(1,3) fb Inl legacy_scope_shape [of policies app]
    by (auto simp: verdict_justified_def scope_from_rbac_error_def aap_def list_ex_iff split: if_splits option.splits)
  with s show ?thesis by blast
qed

definition example_permission :: scopable_mail_permission where
  "example_permission = \<lparr>smp_perm = ''Mail.Read'', smp_exchange_role = ''Application Mail.Read'', smp_aap_confinable = True\<rparr>"

lemma example_verdict:
  "plain_verdict [example_row ''A'' ''RecipientScope''] None og example_permission =
     (if defeated ''Mail.Read'' og then OrgWide else Scoped (Some ''A'') None None Rbac)"
proof -
  have "verdict_from_rows (matching_rows [example_row ''A'' ''RecipientScope''] example_permission)
      = Scoped (Some ''A'') None None Rbac" by code_simp
  then show ?thesis
    by (simp add: plain_verdict_def reconcile_orgwide_grant_def scoped_via_rbac_def example_permission_def)
qed

theorem resolved_scope_justified_witness:
  "verdict_justified (Inr []) (Inr [example_row ''A'' ''RecipientScope'']) ''app'' {''User.Read.All''} example_permission
     (Scoped (Some ''A'') None None Rbac)"
proof -
  have "\<not> defeated ''Mail.Read'' {''User.Read.All''}"
    by (simp add: defeated_def is_blanket_mailbox_grant_def EWS_FULL_ACCESS_AS_APP_def)
  then have "resolve_mail_scopes (Inr []) (Inr [example_row ''A'' ''RecipientScope'']) (\<lambda>_. Inr None) ''app''
      [example_permission] {''User.Read.All''} True = Inr [(''Mail.Read'', Scoped (Some ''A'') None None Rbac)]"
    by (simp add: resolve_mail_scopes_def enrich_verdict_def read_scope_def legacy_aap_scope_def aap_verdict_for_def
        governing_policies_def example_verdict) (simp add: example_permission_def)
  from resolved_scope_justified [OF this, of "''Mail.Read''"] show ?thesis by auto
qed

text \<open>A legacy policy takes the place of an org-wide verdict whatever made it org-wide.  With an RBAC row that grants the permission
  org-wide and a policy on the application, the verdict is that the permission is scoped by the policy, although a policy
  does not confine what RBAC grants.\<close>

lemma policy_verdict_beside_orgwide_row:
  "\<exists>row p. is_org_wide_auth_row row \<and> row_grants_permission row (smp_exchange_role example_permission) (smp_perm example_permission)
     \<and> resolve_mail_scopes (Inr [p]) (Inr [row]) (\<lambda>_. Inr None) ''app'' [example_permission] {} True
       = Inr [(''Mail.Read'', Scoped (Some ''Sales'') None None LegacyApplicationAccessPolicy)]"
proof -
  let ?row = "example_row [] ''RecipientScope''"
  let ?p = "\<lparr>aap_identity = None, aap_app_id = Some ''app'', aap_scope_name = Some ''Sales'', aap_scope_identity = None,
     aap_access_right_of = Some RestrictAccess, aap_description = None\<rparr>"
  have row: "is_org_wide_auth_row ?row" "row_grants_permission ?row (smp_exchange_role example_permission) (smp_perm example_permission)" by code_simp+
  then have rows: "verdict_from_rows (matching_rows [?row] example_permission) = OrgWide" by (simp add: verdict_from_rows_def matching_rows_def)
  have aap: "aap_verdict_for [?p] ''app'' = Some (Scoped (Some ''Sales'') None None LegacyApplicationAccessPolicy)" by code_simp
  have "plain_verdict [?row] (Some (Scoped (Some ''Sales'') None None LegacyApplicationAccessPolicy)) {} example_permission
      = Scoped (Some ''Sales'') None None LegacyApplicationAccessPolicy"
    using rows by (simp add: plain_verdict_def reconcile_orgwide_grant_def scoped_via_rbac_def example_permission_def)
  then have "resolve_mail_scopes (Inr [?p]) (Inr [?row]) (\<lambda>_. Inr None) ''app'' [example_permission] {} True
       = Inr [(''Mail.Read'', Scoped (Some ''Sales'') None None LegacyApplicationAccessPolicy)]"
    using aap by (simp add: resolve_mail_scopes_def legacy_aap_scope_def enrich_verdict_def) (simp add: example_permission_def)
  with row show ?thesis by blast
qed

section \<open>The audit's cache key\<close>

text \<open>The key of a cached audit verdict keeps only the org-wide grants among the resolved permissions, but a
  blanket grant outside them also decides the verdict: two sets of grants with the same key can have
  different verdicts.\<close>

lemma audit_key_misses_blanket_grant:
  "audit_mail_scopes_key t a [example_permission] {} = audit_mail_scopes_key t a [example_permission] {EWS_FULL_ACCESS_AS_APP}
   \<and> resolve_mail_scopes p (Inr [example_row ''A'' ''RecipientScope'']) g a [example_permission] {} False
     \<noteq> resolve_mail_scopes p (Inr [example_row ''A'' ''RecipientScope'']) g a [example_permission] {EWS_FULL_ACCESS_AS_APP} False"
proof -
  have "\<not> defeated ''Mail.Read'' {}" "defeated ''Mail.Read'' {EWS_FULL_ACCESS_AS_APP}"
    by (simp_all add: defeated_def is_blanket_mailbox_grant_def)
  then show ?thesis
    by (simp add: resolve_mail_scopes_def enrich_verdict_def example_verdict audit_mail_scopes_key_def)
      (simp add: example_permission_def EWS_FULL_ACCESS_AS_APP_def)
qed

section \<open>Legacy verdicts on the audit path\<close>

lemma apply_legacy_loop_lookup:
  assumes "map_of (apply_legacy_loop w scopes grants) v = Some s"
  shows "map_of scopes v = Some s
    \<or> s = w \<and> (\<exists>g \<in> set grants. perm g = v \<and> (\<exists>r. resource_app_id g = Some r \<and> is_aap_confinable_permission r v))"
  using assms
  by (induction w scopes grants rule: apply_legacy_loop.induct)
    (fastforce simp: update_conv' split: if_splits option.splits mail_permission_scope.splits)+

lemma apply_legacy_policy_verdict_lookup:
  "map_of (apply_legacy_policy_verdict scopes grants verdict) v = Some s \<Longrightarrow>
     map_of scopes v = Some s
   \<or> verdict = Some s \<and> (\<exists>g \<in> set grants. perm g = v \<and> (\<exists>r. resource_app_id g = Some r \<and> is_aap_confinable_permission r v))"
  by (auto simp: apply_legacy_policy_verdict_def dest: apply_legacy_loop_lookup split: option.splits)

end
