(* ===== verification/Http_Retry.thy ===== *)
theory Http_Retry
  imports Toolkit_Prelude
begin

text \<open>
  The shared retry policy of the HTTP clients,
  \<^verbatim>\<open>crates/azapptoolkit-core/src/http_retry.rs\<close>: which failures are worth a retry, the
  \<open>Retry-After\<close> parser, the backoff curve, \<open>RetryBudget\<close> and the loop \<open>with_retries\<close>.

  An attempt is the caller's closure with its own state \<open>'s\<close>: it maps the state and the attempt
  number to how the attempt ended and the next state.  Sleeping is the list of the milliseconds
  slept; the sub-second nanoseconds of the wall clock that jitter the backoff are a parameter
  \<open>nanos\<close>, one reading per sleep.  The log lines of \<open>tracing\<close> are not modelled.

  The schedule is an interface of its own (Graph's batch loop drives the same type): the locale
  \<open>retry_schedule\<close>, interpreted on \<open>RetryBudget\<close>.
\<close>

section \<open>Policy\<close>

definition is_retryable_code :: "string \<Rightarrow> bool" where
  "is_retryable_code ui_code \<longleftrightarrow> ui_code \<in> {''throttled'', ''server_error'', ''network_error''}"

definition MAX_RETRIES :: "32 word" where
  "MAX_RETRIES = 3"

definition BASE_DELAY_MS :: "64 word" where
  "BASE_DELAY_MS = 1000"

definition MAX_DELAY_MS :: "64 word" where
  "MAX_DELAY_MS = 30000"

definition RETRY_AFTER_MAX_SECS :: "64 word" where
  "RETRY_AFTER_MAX_SECS = 300"

definition next_backoff_ms :: "64 word \<Rightarrow> 64 word" where
  "next_backoff_ms delay_ms = min (saturating_mul delay_ms 2) MAX_DELAY_MS"

section \<open>The Retry-After header\<close>

text \<open>\<open>str::parse::<u64>\<close>: an optional plus sign, then at least one digit, with checked arithmetic.\<close>

definition parse_u64 :: "string \<Rightarrow> 64 word option" where
  "parse_u64 s =
     (let digits = (if s \<noteq> [] \<and> hd s = CHR ''+'' then tl s else s)
      in if digits = [] then None else map_option of_nat (parse_digits (2 ^ 64) 0 digits))"

definition parse_retry_after_seconds :: "string option \<Rightarrow> 64 word option" where
  "parse_retry_after_seconds header_value = Option.bind header_value (\<lambda>v. parse_u64 (trim v))"

definition retry_after_millis :: "64 word \<Rightarrow> 64 word" where
  "retry_after_millis secs = saturating_mul (min secs RETRY_AFTER_MAX_SECS) 1000"

text \<open>The two sleeps return the milliseconds slept.\<close>

definition sleep_with_jitter :: "64 word \<Rightarrow> 64 word \<Rightarrow> 64 word" where
  "sleep_with_jitter nanos base_ms =
     (let jitter = max (base_ms div 10) 1;
          extra = nanos mod jitter
      in min (saturating_add base_ms extra) MAX_DELAY_MS)"

definition sleep_before_retry :: "64 word \<Rightarrow> 64 word option \<Rightarrow> 64 word \<Rightarrow> 64 word" where
  "sleep_before_retry nanos retry_after_secs fallback_ms =
     (case retry_after_secs of
        Some secs \<Rightarrow> retry_after_millis secs
      | None \<Rightarrow> sleep_with_jitter nanos fallback_ms)"

section \<open>The schedule and the loop\<close>

datatype retry_reason = Throttled | Transient

datatype retry_class = Idempotent | NonIdempotent

datatype ('t, 'e) attempt =
    Done "'e + 't"
  | Retry retry_reason "16 word option" "64 word option" 'e

record retry_budget =
  rb_attempt :: "32 word"
  rb_delay_ms :: "64 word"

definition budget_new :: retry_budget where
  "budget_new = \<lparr>rb_attempt = 0, rb_delay_ms = BASE_DELAY_MS\<rparr>"

definition may_retry :: "retry_budget \<Rightarrow> bool" where
  "may_retry b \<longleftrightarrow> rb_attempt b < MAX_RETRIES"

definition budget_wait :: "64 word \<Rightarrow> 64 word option \<Rightarrow> retry_budget \<Rightarrow> 64 word \<times> retry_budget" where
  "budget_wait nanos retry_after_secs b =
     (sleep_before_retry nanos retry_after_secs (rb_delay_ms b),
      \<lparr>rb_attempt = rb_attempt b + 1, rb_delay_ms = next_backoff_ms (rb_delay_ms b)\<rparr>)"

lemma may_retry_advance: "may_retry b \<Longrightarrow> unat (rb_attempt b + 1) = Suc (unat (rb_attempt b)) \<and> unat (rb_attempt b) < 3"
proof -
  assume "may_retry b"
  then have "unat (rb_attempt b) < 3" by (simp add: may_retry_def MAX_RETRIES_def word_less_nat_alt)
  then show ?thesis by (simp add: unat_word_ariths)
qed

function with_retries_loop ::
  "retry_class \<Rightarrow> ('s \<Rightarrow> 32 word \<Rightarrow> ('t, 'e) attempt \<times> 's) \<Rightarrow> (32 word \<Rightarrow> 64 word) \<Rightarrow> retry_budget \<Rightarrow> 's
     \<Rightarrow> ('e + 't) \<times> 's \<times> 64 word list" where
  "with_retries_loop cls attempt nanos b s =
     (case attempt s (rb_attempt b) of
        (Done result, s1) \<Rightarrow> (result, s1, [])
      | (Retry reason status retry_after_secs err, s1) \<Rightarrow>
          if reason = Transient \<and> cls = NonIdempotent then (Inl err, s1, [])
          else if \<not> may_retry b then (Inl err, s1, [])
          else let (slept, b1) = budget_wait (nanos (rb_attempt b)) retry_after_secs b;
                   (result, s2, sleeps) = with_retries_loop cls attempt nanos b1 s1
               in (result, s2, slept # sleeps))"
  by pat_completeness auto

termination
  by (relation "measure (\<lambda>(cls, attempt, nanos, b, s). 3 - unat (rb_attempt b))")
    (auto simp: budget_wait_def dest!: may_retry_advance)

declare with_retries_loop.simps [simp del]

definition with_retries ::
  "retry_class \<Rightarrow> ('s \<Rightarrow> 32 word \<Rightarrow> ('t, 'e) attempt \<times> 's) \<Rightarrow> (32 word \<Rightarrow> 64 word) \<Rightarrow> 's
     \<Rightarrow> ('e + 't) \<times> 's \<times> 64 word list" where
  "with_retries cls attempt nanos s = with_retries_loop cls attempt nanos budget_new s"

section \<open>The schedule as an interface\<close>

text \<open>
  A schedule hands out a bounded number of retries.  Whatever the loop around it does between the
  retries, it can go round at most \<open>budget\<close> times, and the n-th wait is the n-th one of the curve.
\<close>

locale retry_schedule =
  fixes start :: 'b and tries :: "'b \<Rightarrow> nat" and may :: "'b \<Rightarrow> bool" and advance :: "'b \<Rightarrow> 'b"
    and budget :: nat
  assumes tries_start: "tries start = 0"
    and may_iff: "may b \<longleftrightarrow> tries b < budget"
    and tries_advance: "may b \<Longrightarrow> tries (advance b) = Suc (tries b)"
begin

lemma tries_after: "n \<le> budget \<Longrightarrow> tries ((advance ^^ n) start) = n"
  by (induction n) (simp_all add: tries_start tries_advance may_iff)

lemma may_after: "n \<le> budget \<Longrightarrow> may ((advance ^^ n) start) \<longleftrightarrow> n < budget"
  by (simp add: may_iff tries_after)

lemma rounds_bounded:
  assumes "\<forall>k < n. may ((advance ^^ k) start)" shows "n \<le> budget"
proof (rule ccontr)
  assume "\<not> n \<le> budget"
  then have "may ((advance ^^ budget) start)" using assms by simp
  then show False by (simp add: may_after)
qed

end

definition advance :: "retry_budget \<Rightarrow> retry_budget" where
  "advance b = \<lparr>rb_attempt = rb_attempt b + 1, rb_delay_ms = next_backoff_ms (rb_delay_ms b)\<rparr>"

lemma budget_wait_advance: "budget_wait n ra b = (sleep_before_retry n ra (rb_delay_ms b), advance b)"
  by (simp add: budget_wait_def advance_def)

interpretation rb: retry_schedule budget_new "\<lambda>b. unat (rb_attempt b)" may_retry advance 3
  by unfold_locales
    (simp_all add: budget_new_def may_retry_def MAX_RETRIES_def word_less_nat_alt advance_def
      may_retry_advance [unfolded may_retry_def MAX_RETRIES_def word_less_nat_alt])

section \<open>The loop in closed form\<close>

primrec run_state :: "('s \<Rightarrow> 32 word \<Rightarrow> ('t, 'e) attempt \<times> 's) \<Rightarrow> 's \<Rightarrow> nat \<Rightarrow> 's" where
  "run_state attempt s 0 = s"
| "run_state attempt s (Suc k) = snd (attempt (run_state attempt s k) (of_nat k))"

definition run_attempt :: "('s \<Rightarrow> 32 word \<Rightarrow> ('t, 'e) attempt \<times> 's) \<Rightarrow> 's \<Rightarrow> nat \<Rightarrow> ('t, 'e) attempt" where
  "run_attempt attempt s k = fst (attempt (run_state attempt s k) (of_nat k))"

definition replays :: "retry_class \<Rightarrow> ('t, 'e) attempt \<Rightarrow> bool" where
  "replays cls a \<longleftrightarrow> (case a of Done _ \<Rightarrow> False | Retry reason _ _ _ \<Rightarrow> reason = Throttled \<or> cls = Idempotent)"

fun outcome :: "('t, 'e) attempt \<Rightarrow> 'e + 't" where
  "outcome (Done r) = r"
| "outcome (Retry reason status ra err) = Inl err"

fun advertised :: "('t, 'e) attempt \<Rightarrow> 64 word option" where
  "advertised (Done r) = None"
| "advertised (Retry reason status ra err) = ra"

abbreviation delay_at :: "nat \<Rightarrow> 64 word" where
  "delay_at k \<equiv> rb_delay_ms ((advance ^^ k) budget_new)"

lemma attempt_at: "k \<le> 3 \<Longrightarrow> rb_attempt ((advance ^^ k) budget_new) = of_nat k"
  using arg_cong [OF rb.tries_after, of k "of_nat :: nat \<Rightarrow> 32 word"] by simp

lemma reason_class [simp]: "reason \<noteq> Transient \<or> cls \<noteq> NonIdempotent \<longleftrightarrow> reason = Throttled \<or> cls = Idempotent"
  by (cases reason; cases cls) simp_all

lemma loop_step:
  assumes "n \<le> 3" and "a = run_attempt attempt s n"
  shows "with_retries_loop cls attempt nanos ((advance ^^ n) budget_new) (run_state attempt s n) =
    (if replays cls a \<and> n < 3 then
       (case with_retries_loop cls attempt nanos ((advance ^^ Suc n) budget_new) (run_state attempt s (Suc n)) of
          (result, s2, sleeps) \<Rightarrow> (result, s2, sleep_before_retry (nanos (of_nat n)) (advertised a) (delay_at n) # sleeps))
     else (outcome a, run_state attempt s (Suc n), []))"
proof (cases a)
  case (Done r)
  then show ?thesis
    using assms by (subst with_retries_loop.simps) (simp add: run_attempt_def replays_def attempt_at case_prod_unfold)
next
  case (Retry reason status ra err)
  then have "attempt (run_state attempt s n) (of_nat n) = (Retry reason status ra err, run_state attempt s (Suc n))"
    using assms(2) by (simp add: run_attempt_def prod_eq_iff)
  then show ?thesis
    using Retry assms(1) rb.may_after [OF assms(1)]
    by (subst with_retries_loop.simps) (cases reason; cases cls;
        simp add: replays_def attempt_at budget_wait_advance case_prod_unfold Let_def del: run_state.simps)
qed

lemma loop_closed_form:
  assumes "n \<le> 3"
  shows "\<exists>m. n \<le> m \<and> m \<le> 3 \<and> (\<forall>k. n \<le> k \<and> k < m \<longrightarrow> replays cls (run_attempt attempt s k))
    \<and> (m = 3 \<or> \<not> replays cls (run_attempt attempt s m))
    \<and> with_retries_loop cls attempt nanos ((advance ^^ n) budget_new) (run_state attempt s n) =
       (outcome (run_attempt attempt s m), run_state attempt s (Suc m),
        map (\<lambda>k. sleep_before_retry (nanos (of_nat k)) (advertised (run_attempt attempt s k)) (delay_at k)) [n..<m])"
  using assms
proof (induction "3 - n" arbitrary: n)
  case 0
  then have "n = 3" by simp
  then show ?case using loop_step [OF 0(2) refl, of cls attempt nanos s]
    by (intro exI [of _ n]) (auto simp del: run_state.simps funpow.simps)
next
  case (Suc d)
  show ?case
  proof (cases "replays cls (run_attempt attempt s n)")
    case True
    obtain m where m: "Suc n \<le> m" "m \<le> 3" "\<forall>k. Suc n \<le> k \<and> k < m \<longrightarrow> replays cls (run_attempt attempt s k)"
      "m = 3 \<or> \<not> replays cls (run_attempt attempt s m)"
      "with_retries_loop cls attempt nanos ((advance ^^ Suc n) budget_new) (run_state attempt s (Suc n)) =
       (outcome (run_attempt attempt s m), run_state attempt s (Suc m),
        map (\<lambda>k. sleep_before_retry (nanos (of_nat k)) (advertised (run_attempt attempt s k)) (delay_at k)) [Suc n..<m])"
    proof -
      have "d = 3 - Suc n" "Suc n \<le> 3" using Suc(2) by auto
      from Suc(1) [OF this] that show thesis by blast
    qed
    have "\<forall>k. n \<le> k \<and> k < m \<longrightarrow> replays cls (run_attempt attempt s k)"
      using m(3) True by (metis le_antisym not_less_eq_eq)
    then show ?thesis
      using m loop_step [OF Suc(3) refl, of cls attempt nanos s] True Suc(2)
      by (intro exI [of _ m]) (simp add: upt_conv_Cons del: run_state.simps funpow.simps)
  next
    case False
    then show ?thesis using loop_step [OF Suc(3) refl, of cls attempt nanos s] Suc(3)
      by (intro exI [of _ n]) (auto simp del: run_state.simps funpow.simps)
  qed
qed

section \<open>The delays\<close>

lemma delay_curve: "unat (delay_at k) = min (1000 * 2 ^ k) 30000"
proof (induction k)
  case 0
  then show ?case by (simp add: budget_new_def BASE_DELAY_MS_def)
next
  case (Suc k)
  have "unat (delay_at (Suc k)) = min (unat (delay_at k) * 2) 30000"
    by (simp add: advance_def next_backoff_ms_def unat_min unat_saturating_mul MAX_DELAY_MS_def)
  then show ?case by (simp add: Suc min_def)
qed

lemma jitter_bounds:
  assumes "unat base \<le> 30000"
  shows "unat base \<le> unat (sleep_with_jitter nanos base)"
    and "unat (sleep_with_jitter nanos base) \<le> min (unat base + unat base div 10) 30000"
proof -
  let ?j = "max (base div 10) 1"
  have j: "unat ?j = max (unat base div 10) 1"
    by (auto simp: max_def word_le_nat_alt unat_div)
  have "unat (nanos mod ?j) < max (unat base div 10) 1"
    unfolding unat_mod j by simp
  then have "unat (nanos mod ?j) \<le> unat base div 10" by linarith
  with assms show "unat base \<le> unat (sleep_with_jitter nanos base)"
    "unat (sleep_with_jitter nanos base) \<le> min (unat base + unat base div 10) 30000"
    by (simp_all add: sleep_with_jitter_def Let_def unat_min unat_saturating_add MAX_DELAY_MS_def)
qed

lemma retry_after_exact: "unat (retry_after_millis secs) = 1000 * min (unat secs) 300"
  by (simp add: retry_after_millis_def unat_saturating_mul unat_min RETRY_AFTER_MAX_SECS_def min_def [of "_ :: nat"])

section \<open>Properties\<close>

text \<open>C31: the complete behaviour of \<open>with_retries\<close>.  It always returns, after sending the request
  once, twice, three or four times: there is a last attempt \<open>m \<le> 3\<close> whose outcome is the result,
  every earlier attempt was a replayable failure, the last one was not replayable or the budget of
  three retries is used up, and between attempts it slept exactly as \<open>sleep_before_retry\<close> says on
  the delay curve 1000, 2000, 4000 ms.\<close>

theorem with_retries_behaviour:
  "\<exists>m \<le> 3. (\<forall>k < m. replays cls (run_attempt attempt s k))
    \<and> (m = 3 \<or> \<not> replays cls (run_attempt attempt s m))
    \<and> with_retries cls attempt nanos s =
       (outcome (run_attempt attempt s m), run_state attempt s (Suc m),
        map (\<lambda>k. sleep_before_retry (nanos (of_nat k)) (advertised (run_attempt attempt s k)) (of_nat (1000 * 2 ^ k))) [0..<m])"
proof -
  have delay: "delay_at k = of_nat (1000 * 2 ^ k)" if "k < 3" for k
  proof -
    have "min (1000 * 2 ^ k) 30000 = (1000 * 2 ^ k :: nat)" using that by (auto simp: less_Suc_eq numeral_3_eq_3)
    then have "unat (delay_at k) = 1000 * 2 ^ k" using delay_curve [of k] by simp
    from arg_cong [OF this, of "of_nat :: nat \<Rightarrow> 64 word"] show ?thesis by simp
  qed
  obtain m where m: "m \<le> 3" "\<forall>k. 0 \<le> k \<and> k < m \<longrightarrow> replays cls (run_attempt attempt s k)"
    "m = 3 \<or> \<not> replays cls (run_attempt attempt s m)"
    "with_retries_loop cls attempt nanos ((advance ^^ 0) budget_new) (run_state attempt s 0) =
       (outcome (run_attempt attempt s m), run_state attempt s (Suc m),
        map (\<lambda>k. sleep_before_retry (nanos (of_nat k)) (advertised (run_attempt attempt s k)) (delay_at k)) [0..<m])"
    using loop_closed_form [of 0 cls attempt s nanos] by blast
  then show ?thesis
    by (intro exI [of _ m]) (auto simp: with_retries_def delay intro!: map_cong)
qed

definition down_get :: "nat \<Rightarrow> 32 word \<Rightarrow> (nat, nat) attempt \<times> nat" where
  "down_get s n = (Retry Transient None None 0, s + 1)"

theorem with_retries_behaviour_witness: "fst (snd (with_retries Idempotent down_get (\<lambda>_. 0) 0)) = 4"
proof -
  have all: "replays Idempotent (run_attempt down_get 0 m)" for m
    by (simp add: run_attempt_def replays_def down_get_def)
  obtain m where "m = 3 \<or> \<not> replays Idempotent (run_attempt down_get 0 m)"
      "with_retries Idempotent down_get (\<lambda>_. 0) 0 = (outcome (run_attempt down_get 0 m), run_state down_get 0 (Suc m),
        map (\<lambda>k. sleep_before_retry 0 (advertised (run_attempt down_get 0 k)) (of_nat (1000 * 2 ^ k))) [0..<m])"
    using with_retries_behaviour [of Idempotent down_get 0 "\<lambda>_. 0"] by blast
  then show ?thesis using all by (simp add: down_get_def numeral_3_eq_3)
qed

text \<open>The attempts of a non-idempotent call before its last one were all throttled, so they change nothing that a throttled
  attempt leaves alone.\<close>

lemma throttled_prefix_quiet:
  assumes "\<forall>k < m. replays NonIdempotent (run_attempt attempt s k)"
    and "\<And>s n status ra err. fst (attempt s n) = Retry Throttled status ra err \<Longrightarrow> f (snd (attempt s n)) = f s"
    and "k \<le> m"
  shows "f (run_state attempt s k) = f s"
  using assms(3)
proof (induction k)
  case (Suc k)
  then have "replays NonIdempotent (run_attempt attempt s k)" using assms(1) by simp
  then obtain status ra err where "run_attempt attempt s k = Retry Throttled status ra err"
    by (cases "run_attempt attempt s k") (auto simp: replays_def)
  then show ?case using Suc assms(2) [of "run_state attempt s k" "of_nat k"] by (simp add: run_attempt_def)
qed simp

text \<open>C25: a mutation is committed at most once.  Let \<open>commits\<close> count the server-side commits a
  caller's state records.  If one attempt commits at most once, and a throttled attempt (the
  service refused before doing any work) not at all, then a non-idempotent request run under
  \<open>with_retries\<close> commits at most once, however the attempts fail.\<close>

theorem nonidempotent_commits_at_most_once:
  fixes commits :: "'s \<Rightarrow> nat"
  assumes once: "\<And>s n. commits (snd (attempt s n)) \<le> Suc (commits s)"
    and throttled: "\<And>s n status ra err. fst (attempt s n) = Retry Throttled status ra err \<Longrightarrow>
       commits (snd (attempt s n)) = commits s"
  shows "commits (fst (snd (with_retries NonIdempotent attempt nanos s))) \<le> Suc (commits s)"
proof -
  obtain m where m: "\<forall>k < m. replays NonIdempotent (run_attempt attempt s k)"
    "fst (snd (with_retries NonIdempotent attempt nanos s)) = run_state attempt s (Suc m)"
    using loop_closed_form [of 0 NonIdempotent attempt s nanos] by (auto simp: with_retries_def simp del: run_state.simps(2))
  have "commits (run_state attempt s k) = commits s" if "k \<le> m" for k
    by (rule throttled_prefix_quiet [OF m(1) _ that]) (rule throttled)
  then have "commits (run_state attempt s m) = commits s" by simp
  then show ?thesis unfolding m(2) using once [of "run_state attempt s m" "of_nat m"] by simp
qed

definition flaky_post :: "nat \<times> nat \<Rightarrow> 32 word \<Rightarrow> (nat, nat) attempt \<times> (nat \<times> nat)" where
  "flaky_post s n = (if n = 0 then (Retry Throttled (Some 429) (Some 7) 429, (fst s + 1, snd s))
                     else (Retry Transient None None 0, (fst s + 1, snd s + 1)))"

theorem nonidempotent_commits_at_most_once_witness:
  "snd (fst (snd (with_retries NonIdempotent flaky_post (\<lambda>_. 0) (0, 0)))) \<le> Suc 0
   \<and> fst (fst (snd (with_retries NonIdempotent flaky_post (\<lambda>_. 0) (0, 0)))) = 2"
proof -
  have "fst (fst (snd (with_retries NonIdempotent flaky_post (\<lambda>_. 0) (0, 0)))) = 2"
    by (simp add: with_retries_def with_retries_loop.simps flaky_post_def budget_new_def may_retry_def
        MAX_RETRIES_def budget_wait_def)
  moreover have "snd (fst (snd (with_retries NonIdempotent flaky_post (\<lambda>_. 0) (0, 0)))) \<le> Suc (snd (0 :: nat, 0 :: nat))"
    by (rule nonidempotent_commits_at_most_once) (auto simp: flaky_post_def split: if_splits)
  ultimately show ?thesis by simp
qed

text \<open>every wait is bounded and honours the server: an advertised \<open>Retry-After\<close> of \<open>n\<close> seconds
  is waited exactly, capped at 300 s only; without one the wait is the curve's delay plus less than
  ten per cent, never above 30 s, and no arithmetic on the way saturates or wraps.\<close>

theorem sleep_bounds:
  "unat (sleep_before_retry nanos (Some secs) d) = 1000 * min (unat secs) 300
   \<and> unat (delay_at k) = min (1000 * 2 ^ k) 30000
   \<and> unat (delay_at k) \<le> unat (sleep_before_retry nanos None (delay_at k))
   \<and> unat (sleep_before_retry nanos None (delay_at k)) \<le> min (unat (delay_at k) + unat (delay_at k) div 10) 30000"
  using jitter_bounds [of "delay_at k" nanos] delay_curve [of k]
  by (simp add: sleep_before_retry_def retry_after_exact)

text \<open>The \<open>Retry-After\<close> parser reads back every decimal number a server prints, with or
  without surrounding blanks or a plus sign; a number of 64 bits or more, an HTTP date (any text
  with a non-digit) and an empty value count as missing.\<close>

theorem retry_after_roundtrip:
  assumes "list_all is_space l" and "list_all is_space r"
  shows "parse_retry_after_seconds (Some (l @ show_nat n @ r)) = (if n < 2 ^ 64 then Some (of_nat n) else None)"
proof -
  have t: "trim (l @ show_nat n @ r) = show_nat n"
    using trim_padded [OF assms] show_nat_digits by blast
  have "hd (show_nat n) \<noteq> CHR ''+''" "show_nat n \<noteq> []"
    using show_nat_digits [of n] by (auto simp: is_digit_def list_all_iff dest!: hd_in_set)
  then show ?thesis
    by (simp add: parse_retry_after_seconds_def parse_u64_def t parse_digits_show)
qed

theorem retry_after_roundtrip_witness:
  "parse_retry_after_seconds (Some (''  '' @ show_nat 120 @ '' '')) = Some 120"
  using retry_after_roundtrip [of "''  ''" "'' ''" 120] by (simp add: is_space_def)

end
