(* ===== verification/Client_Errors.thy ===== *)
theory Client_Errors
  imports Exchange_Models Http_Retry
begin

text \<open>
  How a failed Exchange call is classified and shown: the wire codes that mean the session is dead
  (\<^verbatim>\<open>crates/azapptoolkit-core/src/reauth.rs\<close>), the client error's code, retryability, text and hint
  (\<^verbatim>\<open>crates/azapptoolkit-exchange/src/error.rs\<close>), the error the UI gets
  (\<^verbatim>\<open>crates/azapptoolkit-dto/src/lib.rs\<close>) and the latch that stops a long run
  (\<open>SessionDead\<close> in \<^verbatim>\<open>commands/dispatch.rs\<close>, here a boolean that is threaded through).
\<close>

section \<open>Wire codes\<close>

definition REAUTH_FATAL_CODES :: "string list" where
  "REAUTH_FATAL_CODES = [''refresh_missing'', ''not_signed_in'']"

definition is_reauth_fatal :: "string \<Rightarrow> bool" where
  "is_reauth_fatal code \<longleftrightarrow> code \<in> set REAUTH_FATAL_CODES"

definition CONSENT_REQUIRED :: string where
  "CONSENT_REQUIRED = ''consent_required''"
definition INTERACTION_REQUIRED :: string where
  "INTERACTION_REQUIRED = ''interaction_required''"
definition UNAUTHORIZED :: string where
  "UNAUTHORIZED = ''unauthorized''"
definition UNAUTHORIZED_STATUS :: string where
  "UNAUTHORIZED_STATUS = ''unauthorized (401)''"

definition PASSTHROUGH_NON_FATAL_CODES :: "string list" where
  "PASSTHROUGH_NON_FATAL_CODES = [CONSENT_REQUIRED, ''network_error'', INTERACTION_REQUIRED]"

definition passthrough_code :: "string \<Rightarrow> string option" where
  "passthrough_code code = find (\<lambda>c. c = code) (REAUTH_FATAL_CODES @ PASSTHROUGH_NON_FATAL_CODES)"

section \<open>The client error\<close>

fun ui_code :: "exchange_error \<Rightarrow> string" where
  "ui_code Unauthorized = UNAUTHORIZED"
| "ui_code (Forbidden _ _) = ''forbidden''"
| "ui_code (NotFound _) = ''not_found''"
| "ui_code (ExoThrottled _) = ''throttled''"
| "ui_code (Server _ _) = ''server_error''"
| "ui_code (Api _ _) = ''exchange_error''"
| "ui_code (Network _) = ''network_error''"
| "ui_code (Deserialize _) = ''deserialize_error''"
| "ui_code (Token t) = (case passthrough_code (te_code t) of Some c \<Rightarrow> c | None \<Rightarrow> ''token_error'')"
| "ui_code (Protocol _) = ''protocol_error''"

definition is_retryable :: "exchange_error \<Rightarrow> bool" where
  "is_retryable e \<longleftrightarrow> is_retryable_code (ui_code e)"

definition throttle_wait :: "64 word option \<Rightarrow> string" where
  "throttle_wait secs =
     (case secs of
        None \<Rightarrow> ''Wait a moment''
      | Some n \<Rightarrow> if n = 0 then ''Wait a moment''
                 else if n = 1 then ''Wait 1 second''
                 else ''Wait '' @ show_nat (unat n) @ '' seconds'')"

fun error_text :: "exchange_error \<Rightarrow> string" where
  "error_text Unauthorized = UNAUTHORIZED_STATUS"
| "error_text (Forbidden d _) = ''forbidden (403): '' @ d"
| "error_text (NotFound s) = ''not found (404): '' @ s"
| "error_text (ExoThrottled secs) =
     ''throttled (429): the service is limiting requests. '' @ throttle_wait secs @ '', then try again.''"
| "error_text (Server status b) = ''server error ('' @ show_nat (unat status) @ ''): '' @ b"
| "error_text (Api status b) = ''exchange error ('' @ show_nat (unat status) @ ''): '' @ b"
| "error_text (Network s) = ''network: '' @ s"
| "error_text (Deserialize s) = ''deserialize: '' @ s"
| "error_text (Token t) = ''token: '' @ te_message t"
| "error_text (Protocol s) = ''protocol: '' @ s"

definition EXCHANGE_RBAC_REMEDIATION :: string where
  "EXCHANGE_RBAC_REMEDIATION = ''Exchange RBAC for Applications needs your account in a role group containing the \"Role Management\" role (e.g. Organization Management); creating and populating the toolkit's scope group additionally needs the \"Distribution Groups\" role (in Recipient Management / Organization Management). The Entra \"Exchange Administrator\" role grants all of these, but it must be active (not just PIM-eligible) and can take a few minutes to propagate.''"

fun ui_hint :: "exchange_error \<Rightarrow> string option" where
  "ui_hint (Forbidden _ True) = Some EXCHANGE_RBAC_REMEDIATION"
| "ui_hint (Forbidden _ False) =
     Some (''Exchange rejected this request without a diagnostic reason, which usually is NOT a missing Exchange role. Most common causes after activating a role: (1) your access token predates the activation, so its role claim is stale '' @ em_dash @ '' use \"Refresh token\" (next to Sign out), then retry; (2) an \"Exchange Administrator\" activation that hasn't finished propagating to Exchange yet '' @ em_dash @ '' wait a few minutes and retry; (3) only if neither helps, a genuine Exchange RBAC gap '' @ em_dash @ '' confirm your account holds the \"Role Management\" role (e.g. Organization Management).'')"
| "ui_hint Unauthorized =
     Some (''Your Exchange admin-API token was rejected. Use \"Refresh token\" (next to Sign out), then retry; if it persists, confirm the app registration has the delegated \"Office 365 Exchange Online '' @ right_arrow @ '' Exchange.Manage\" permission with admin consent.'')"
| "ui_hint _ = None"

section \<open>The UI's error\<close>

record ui_error =
  ue_code :: string
  ue_message :: string
  ue_retryable :: bool

definition ui_error_new :: "string \<Rightarrow> string \<Rightarrow> bool \<Rightarrow> ui_error" where
  "ui_error_new code message retryable = \<lparr>ue_code = code, ue_message = message, ue_retryable = retryable\<rparr>"

definition ui_not_found :: "string \<Rightarrow> string \<Rightarrow> ui_error" where
  "ui_not_found resource message = ui_error_new (resource @ ''_not_found'') message False"

definition ui_validation :: "string \<Rightarrow> string \<Rightarrow> ui_error" where
  "ui_validation code message = ui_error_new code message False"

definition ui_is_reauth_fatal :: "ui_error \<Rightarrow> bool" where
  "ui_is_reauth_fatal e \<longleftrightarrow> is_reauth_fatal (ue_code e)"

definition is_consent_required :: "ui_error \<Rightarrow> bool" where
  "is_consent_required e \<longleftrightarrow> ue_code e = CONSENT_REQUIRED"

definition is_interaction_required :: "ui_error \<Rightarrow> bool" where
  "is_interaction_required e \<longleftrightarrow> ue_code e = INTERACTION_REQUIRED"

definition is_unauthorized :: "ui_error \<Rightarrow> bool" where
  "is_unauthorized e \<longleftrightarrow> ue_code e = UNAUTHORIZED"

definition unauthorized_guidance :: "ui_error \<Rightarrow> string option" where
  "unauthorized_guidance e =
     (if \<not> is_unauthorized e then None
      else let msg = trim (ue_message e);
               rest = trim (if starts_with msg UNAUTHORIZED_STATUS then drop (length UNAUTHORIZED_STATUS) msg else msg)
           in if rest = [] then None else Some rest)"

definition ui_error_from :: "exchange_error \<Rightarrow> ui_error" where
  "ui_error_from err =
     \<lparr>ue_code = ui_code err,
      ue_message = (case ui_hint err of
                      Some hint \<Rightarrow> error_text err @ [CHR 0x0A, CHR 0x0A] @ hint
                    | None \<Rightarrow> error_text err),
      ue_retryable = is_retryable err\<rparr>"

definition note_code :: "bool \<Rightarrow> string \<Rightarrow> bool" where
  "note_code dead code \<longleftrightarrow> dead \<or> ui_is_reauth_fatal (ui_error_new code [] False)"

section \<open>A dead session is recognised and never retried\<close>

lemma find_eq: "find (\<lambda>c. c = x) xs = (if x \<in> set xs then Some x else None)"
  by (induction xs) auto

lemma passthrough_code_iff:
  "passthrough_code c = (if c \<in> set (REAUTH_FATAL_CODES @ PASSTHROUGH_NON_FATAL_CODES) then Some c else None)"
  by (simp only: passthrough_code_def find_eq)

lemmas code_defs = is_reauth_fatal_def REAUTH_FATAL_CODES_def PASSTHROUGH_NON_FATAL_CODES_def CONSENT_REQUIRED_def
  INTERACTION_REQUIRED_def UNAUTHORIZED_def is_retryable_code_def

text \<open>\<^bold>\<open>Classification survives every layer.\<close>  The UI's error for a failed Exchange call is re-auth-fatal exactly
  when the call failed on a token error with one of the fatal codes; it is then never retryable.  A missing
  consent and a Conditional Access interrupt keep their own code, are not fatal and not retryable; an
  unreachable token endpoint is retryable like any network failure.\<close>

theorem error_classification:
  "(ui_is_reauth_fatal (ui_error_from err) \<longleftrightarrow> (\<exists>t. err = Token t \<and> is_reauth_fatal (te_code t)))
   \<and> \<not> (ui_is_reauth_fatal (ui_error_from err) \<and> ue_retryable (ui_error_from err))
   \<and> (ue_retryable (ui_error_from err) \<longleftrightarrow>
        (case err of ExoThrottled _ \<Rightarrow> True | Server _ _ \<Rightarrow> True | Network _ \<Rightarrow> True
         | Token t \<Rightarrow> te_code t = ''network_error'' | _ \<Rightarrow> False))
   \<and> (is_consent_required (ui_error_from err) \<longleftrightarrow> (\<exists>t. err = Token t \<and> te_code t = CONSENT_REQUIRED))
   \<and> (is_interaction_required (ui_error_from err) \<longleftrightarrow> (\<exists>t. err = Token t \<and> te_code t = INTERACTION_REQUIRED))
   \<and> (is_unauthorized (ui_error_from err) \<longleftrightarrow> err = Unauthorized)"
  by (cases err)
    (auto simp: ui_error_from_def ui_is_reauth_fatal_def is_retryable_def is_consent_required_def
      is_interaction_required_def is_unauthorized_def passthrough_code_iff code_defs)

end
