(* ===== verification/Exchange_Client.thy ===== *)
theory Exchange_Client
  imports Client_Errors Exchange_Plan
begin

text \<open>
  The operations of the Exchange client that have logic of their own
  (\<^verbatim>\<open>crates/azapptoolkit-exchange/src/client/groups.rs\<close> and \<^verbatim>\<open>client/rbac.rs\<close>).  Exchange Online is the
  parameter: a record of cmdlets, each a function of its arguments and of a state \<open>'w\<close> that stands for
  the service, whoever else changes it, the Cancel button and the order in which concurrent calls
  complete.  A cmdlet's answer is the deserialised value or the error the transport gave, with an
  object that cannot be found read as an empty answer where the client calls \<open>invoke_optional\<close>.
\<close>

record exo_group =
  eg_distinguished_name :: "string option"
  eg_primary_smtp_address :: "string option"
  eg_name :: "string option"
  eg_identity :: "string option"

type_synonym ('a, 'w) cmdlet = "'w \<Rightarrow> (exchange_error + 'a) \<times> 'w"

record 'w exo =
  x_get_group :: "string \<Rightarrow> (exo_group option, 'w) cmdlet"
  x_get_distribution_group :: "string \<Rightarrow> (exo_group option, 'w) cmdlet"
  x_new_distribution_group :: "string \<Rightarrow> string \<Rightarrow> (exo_group, 'w) cmdlet"
  x_add_member :: "string \<Rightarrow> string \<Rightarrow> (unit, 'w) cmdlet"
  x_remove_member :: "string \<Rightarrow> string \<Rightarrow> (unit, 'w) cmdlet"
  x_remove_distribution_group :: "string \<Rightarrow> (unit, 'w) cmdlet"
  x_list_group_members :: "string \<Rightarrow> (exo_group_member list, 'w) cmdlet"
  x_get_management_scope :: "string \<Rightarrow> (exo_management_scope option, 'w) cmdlet"
  x_list_management_scopes :: "(exo_management_scope list, 'w) cmdlet"
  x_new_management_scope :: "string \<Rightarrow> string \<Rightarrow> (exo_management_scope, 'w) cmdlet"
  x_set_management_scope :: "string \<Rightarrow> string \<Rightarrow> (exo_management_scope option, 'w) cmdlet"
  x_get_application_access_policies :: "(exo_application_access_policy list, 'w) cmdlet"
  x_cancelled :: "'w \<Rightarrow> bool"
  x_tick :: "'w \<Rightarrow> 'w"
  x_pick :: "'w \<Rightarrow> nat"

section \<open>Groups\<close>

definition ensure_security_group_reporting ::
  "'w exo \<Rightarrow> string \<Rightarrow> string \<Rightarrow> (exo_group \<times> bool, 'w) cmdlet" where
  "ensure_security_group_reporting exo name alias w =
     (case x_get_distribution_group exo name w of
        (Inl e, w) \<Rightarrow> (Inl e, w)
      | (Inr (Some existing), w) \<Rightarrow> (Inr (existing, False), w)
      | (Inr None, w) \<Rightarrow>
          (case x_new_distribution_group exo name alias w of
             (Inl e, w) \<Rightarrow> (Inl e, w)
           | (Inr created, w) \<Rightarrow>
               if eg_distinguished_name created \<noteq> None then (Inr (created, True), w)
               else (case x_get_distribution_group exo name w of
                       (Inl e, w) \<Rightarrow> (Inl e, w)
                     | (Inr (Some resolved), w) \<Rightarrow> (Inr (resolved, True), w)
                     | (Inr None, w) \<Rightarrow> (Inr (created, True), w))))"

definition ensure_security_group :: "'w exo \<Rightarrow> string \<Rightarrow> string \<Rightarrow> (exo_group, 'w) cmdlet" where
  "ensure_security_group exo name alias w =
     (case ensure_security_group_reporting exo name alias w of
        (Inl e, w) \<Rightarrow> (Inl e, w)
      | (Inr (g, _), w) \<Rightarrow> (Inr g, w))"

definition add_group_member :: "'w exo \<Rightarrow> string \<Rightarrow> string \<Rightarrow> (unit, 'w) cmdlet" where
  "add_group_member exo g member w =
     (case x_add_member exo g member w of
        (Inl (Api status b), w) \<Rightarrow> if is_already_member_body b then (Inr (), w) else (Inl (Api status b), w)
      | (r, w) \<Rightarrow> (r, w))"

definition remove_group_member :: "'w exo \<Rightarrow> string \<Rightarrow> string \<Rightarrow> (unit, 'w) cmdlet" where
  "remove_group_member exo g member w =
     (case x_remove_member exo g member w of
        (Inl (Api status b), w) \<Rightarrow> if is_not_a_member_body b then (Inr (), w) else (Inl (Api status b), w)
      | (r, w) \<Rightarrow> (r, w))"

section \<open>Management scopes\<close>

definition ensure_management_scope :: "'w exo \<Rightarrow> string \<Rightarrow> string \<Rightarrow> (exo_management_scope, 'w) cmdlet" where
  "ensure_management_scope exo name f w =
     (case x_get_management_scope exo name w of
        (Inl e, w) \<Rightarrow> (Inl e, w)
      | (Inr (Some existing), w) \<Rightarrow> (Inr existing, w)
      | (Inr None, w) \<Rightarrow> x_new_management_scope exo name f w)"

definition refused_unreadable :: "string \<Rightarrow> string" where
  "refused_unreadable name =
     ''refusing to set management scope '' @ [QUOTE] @ name @ [QUOTE] @ '' to a filter this client cannot fully read: it holds a MemberOfGroup token that is not a plain `-eq '' @ [QUOTE] @ ellipsis @ [QUOTE] @ ''` comparison, so the groups it would confine access to cannot be stated. Nothing was changed.''"

fun refused_filter :: "string \<Rightarrow> string \<Rightarrow> unrewritable_filter \<Rightarrow> exchange_error" where
  "refused_filter name f NoGroupClauses =
     (if count_member_of_group f > 0 then Protocol (refused_unreadable name)
      else Protocol (''refusing to set management scope '' @ [QUOTE] @ name @ [QUOTE] @ '' to a filter that confines nothing (names no MemberOfGroup clause). Repointing a scope at an empty filter widens every role assignment using it to the whole organization.''))"
| "refused_filter name f UnparsedClause = Protocol (refused_unreadable name)"
| "refused_filter name f (UnsupportedClause l) =
     Protocol (''refusing to set management scope '' @ [QUOTE] @ name @ [QUOTE] @ '' to a filter that combines group membership with other conditions ('' @ l @ ''): this client can only prove a pure MemberOfGroup OR-chain landed, so the reach it would give every role assignment using the scope cannot be stated. Nothing was changed.'')"

definition not_landed :: "string \<Rightarrow> nat \<Rightarrow> nat \<Rightarrow> exchange_error" where
  "not_landed name wanted landed =
     Protocol (''management scope '' @ [QUOTE] @ name @ [QUOTE] @ '' did not take the filter it was given: asked for '' @ show_nat wanted @ '' group(s), Exchange reports '' @ show_nat landed @ ''. The scope was NOT repointed as requested; role assignments using it still reach the previous group set.'')"

definition landed_unreadable :: "string \<Rightarrow> exchange_error" where
  "landed_unreadable name =
     Protocol (''management scope '' @ [QUOTE] @ name @ [QUOTE] @ '' has a recipient filter this client cannot read as a pure MemberOfGroup OR-chain, so it cannot prove the filter it just wrote took effect. The scope may or may not have been repointed; inspect it in Exchange before relying on it.'')"

definition prove_landed ::
  "(string \<Rightarrow> bool) \<Rightarrow> (string \<Rightarrow> string) \<Rightarrow> string \<Rightarrow> string set \<Rightarrow> exo_management_scope
     \<Rightarrow> exchange_error + exo_management_scope" where
  "prove_landed uni_alnum lower name wanted scope =
     (case Option.bind (ms_recipient_filter scope) (exact_scope_dns uni_alnum lower) of
        None \<Rightarrow> Inl (landed_unreadable name)
      | Some landed \<Rightarrow>
          if wanted \<noteq> landed then Inl (not_landed name (card wanted) (card landed)) else Inr scope)"

definition set_management_scope_filter ::
  "(string \<Rightarrow> bool) \<Rightarrow> (string \<Rightarrow> string) \<Rightarrow> 'w exo \<Rightarrow> string \<Rightarrow> string \<Rightarrow> (exo_management_scope, 'w) cmdlet" where
  "set_management_scope_filter uni_alnum lower exo name f w =
     (case rewritable_scope_dns uni_alnum f of
        Inl why \<Rightarrow> (Inl (refused_filter name f why), w)
      | Inr dns \<Rightarrow>
          (let wanted = set (map (fold_dn lower) dns)
           in case x_set_management_scope exo name f w of
                (Inl e, w) \<Rightarrow> (Inl e, w)
              | (Inr (Some updated), w) \<Rightarrow> (prove_landed uni_alnum lower name wanted updated, w)
              | (Inr None, w) \<Rightarrow>
                  (case x_get_management_scope exo name w of
                     (Inl e, w) \<Rightarrow> (Inl e, w)
                   | (Inr (Some scope), w) \<Rightarrow> (prove_landed uni_alnum lower name wanted scope, w)
                   | (Inr None, w) \<Rightarrow>
                       (Inl (Protocol (''management scope '' @ [QUOTE] @ name @ [QUOTE] @ '' disappeared after Set-ManagementScope'')), w))))"

section \<open>A reported write has landed\<close>

lemma set_filter_refuses:
  "rewritable_scope_dns ua f = Inl why \<Longrightarrow>
     set_management_scope_filter ua lower exo name f w = (Inl (refused_filter name f why), w)"
  by (simp add: set_management_scope_filter_def)

lemma prove_landed_ok:
  "prove_landed ua lower name wanted scope = Inr s \<longleftrightarrow>
     s = scope \<and> (\<exists>f. ms_recipient_filter scope = Some f \<and> exact_scope_dns ua lower f = Some wanted)"
  by (auto simp: prove_landed_def split: option.splits bind_splits)

lemma set_filter_landed:
  assumes "set_management_scope_filter ua lower exo name f w = (Inr scope, w')"
  shows "\<exists>g. ms_recipient_filter scope = Some g \<and> exact_scope_dns ua lower g \<noteq> None
    \<and> exact_scope_dns ua lower g = exact_scope_dns ua lower f"
  using assms
  by (auto simp: set_management_scope_filter_def prove_landed_ok exact_scope_dns_def Let_def
      split: sum.splits prod.splits option.splits)

end
