(* ===== verification/Tenant_Defaults.thy ===== *)
theory Tenant_Defaults
  imports Toolkit_Prelude
begin

text \<open>
  Per-tenant operator defaults and the names derived from them
  (\<^verbatim>\<open>crates/azapptoolkit-core/src/defaults.rs\<close>).  The vault bindings are kept as an association list.
\<close>

record stored_principal =
  spn_id :: string
  spn_display_name :: "string option"
  spn_user_principal_name :: "string option"
  spn_odata_type :: "string option"

record app_vault_binding =
  vb_vault_name :: string
  vb_secret_name :: "string option"

record app_registration_defaults =
  ard_default_owners :: "stored_principal list"

record enterprise_application_defaults =
  ead_default_owners :: "stored_principal list"
  ead_default_notification_emails :: "string list"

record tenant_defaults =
  td_app_registration :: app_registration_defaults
  td_enterprise_application :: enterprise_application_defaults
  td_scope_name_pattern :: "string option"
  td_group_name_pattern :: "string option"
  td_secret_name_pattern :: "string option"
  td_default_vault :: "string option"
  td_app_vaults :: "(string \<times> app_vault_binding) list"

definition DEFAULT_SCOPE_NAME_PREFIX :: string where
  "DEFAULT_SCOPE_NAME_PREFIX = ''app_scope_''"
definition DEFAULT_GROUP_NAME_PREFIX :: string where
  "DEFAULT_GROUP_NAME_PREFIX = ''app_scope_group_''"
definition NAME_PATTERN_PLACEHOLDER :: string where
  "NAME_PATTERN_PLACEHOLDER = ''{appId}''"
definition DEFAULT_SECRET_NAME_PREFIX :: string where
  "DEFAULT_SECRET_NAME_PREFIX = ''secret-''"

text \<open>\<open>str::replace\<close> with a non-empty needle: every match, left to right, without overlap.\<close>

function replace_all :: "string \<Rightarrow> string \<Rightarrow> string \<Rightarrow> string" where
  "replace_all p r [] = []"
| "replace_all p r (c # s) =
     (if p \<noteq> [] \<and> prefix p (c # s) then r @ replace_all p r (drop (length p) (c # s))
      else c # replace_all p r s)"
  by pat_completeness auto
termination
  by (relation "measure (\<lambda>(p, r, s). length s)") auto

definition resolve_pattern :: "string option \<Rightarrow> string \<Rightarrow> string \<Rightarrow> string" where
  "resolve_pattern pattern default_prefix app =
     (case map_option trim pattern of
        Some pat \<Rightarrow>
          if pat \<noteq> [] \<and> contains_str pat NAME_PATTERN_PLACEHOLDER
          then replace_all NAME_PATTERN_PLACEHOLDER app pat
          else default_prefix @ app
      | None \<Rightarrow> default_prefix @ app)"

definition scope_name_for :: "tenant_defaults \<Rightarrow> string \<Rightarrow> string" where
  "scope_name_for d app = resolve_pattern (td_scope_name_pattern d) DEFAULT_SCOPE_NAME_PREFIX app"

definition group_name_for :: "tenant_defaults \<Rightarrow> string \<Rightarrow> string" where
  "group_name_for d app = resolve_pattern (td_group_name_pattern d) DEFAULT_GROUP_NAME_PREFIX app"

definition secret_name_for :: "tenant_defaults \<Rightarrow> string \<Rightarrow> string" where
  "secret_name_for d app = resolve_pattern (td_secret_name_pattern d) DEFAULT_SECRET_NAME_PREFIX app"

section \<open>One name per application\<close>

lemma length_replace_all:
  "\<exists>base k. (\<forall>r. length (replace_all p r s) = base + k * length r) \<and> (p \<noteq> [] \<longrightarrow> contains_str s p \<longrightarrow> k > 0)"
proof (induction p "[] :: string" s rule: replace_all.induct)
  case (1 p)
  show ?case by (intro exI [of _ 0]) simp
next
  case (2 p c s)
  show ?case
  proof (cases "p \<noteq> [] \<and> prefix p (c # s)")
    case True
    then obtain base k where
      "\<forall>r. length (replace_all p r (drop (length p) (c # s))) = base + k * length r" using 2(1) by blast
    then show ?thesis using True by (intro exI [of _ base] exI [of _ "Suc k"]) simp
  next
    case False
    then obtain base k where
      "\<forall>r. length (replace_all p r s) = base + k * length r" "p \<noteq> [] \<longrightarrow> contains_str s p \<longrightarrow> k > 0"
      using 2(2) by blast
    then show ?thesis using False by (intro exI [of _ "Suc base"] exI [of _ k]) auto
  qed
qed

lemma replace_all_same_length:
  "p \<noteq> [] \<Longrightarrow> contains_str s p \<Longrightarrow> length a = length b \<Longrightarrow> replace_all p a s = replace_all p b s \<Longrightarrow> a = b"
  by (induction p a s rule: replace_all.induct) (auto split: if_splits)

lemma replace_all_inj:
  assumes "p \<noteq> []" and "contains_str s p" and "replace_all p a s = replace_all p b s"
  shows "a = b"
proof -
  obtain base k where "\<forall>r. length (replace_all p r s) = base + k * length r" "k > 0"
    using length_replace_all [of p s] assms(1,2) by blast
  then have "length a = length b" using assms(3) by (metis add_left_cancel mult_left_cancel not_less_zero)
  with assms show ?thesis by (rule_tac replace_all_same_length)
qed

text \<open>\<^bold>\<open>Names never collide.\<close>  Whatever patterns a tenant has saved, two different applications never resolve to
  the same management-scope name, the same scope-group name or the same Key Vault secret name.\<close>

theorem names_never_collide:
  assumes "a \<noteq> b"
  shows "scope_name_for d a \<noteq> scope_name_for d b \<and> group_name_for d a \<noteq> group_name_for d b
    \<and> secret_name_for d a \<noteq> secret_name_for d b"
proof -
  have "resolve_pattern pat pre a \<noteq> resolve_pattern pat pre b" for pat pre
    using assms replace_all_inj [of NAME_PATTERN_PLACEHOLDER _ a b]
    by (auto simp: resolve_pattern_def NAME_PATTERN_PLACEHOLDER_def split: option.split)
  then show ?thesis by (simp add: scope_name_for_def group_name_for_def secret_name_for_def)
qed

definition example_defaults :: tenant_defaults where
  "example_defaults = \<lparr>td_app_registration = \<lparr>ard_default_owners = []\<rparr>,
     td_enterprise_application = \<lparr>ead_default_owners = [], ead_default_notification_emails = []\<rparr>,
     td_scope_name_pattern = Some ''{appId}-{appId}'', td_group_name_pattern = Some ''no placeholder'',
     td_secret_name_pattern = None, td_default_vault = None, td_app_vaults = []\<rparr>"

theorem names_never_collide_witness:
  "scope_name_for example_defaults ''1-1'' \<noteq> scope_name_for example_defaults ''1''
   \<and> group_name_for example_defaults ''1'' = ''app_scope_group_1''"
proof -
  have "scope_name_for example_defaults ''1-1'' \<noteq> scope_name_for example_defaults ''1''"
    using names_never_collide [of "''1-1''" "''1''" example_defaults] by simp
  moreover have "group_name_for example_defaults ''1'' = ''app_scope_group_1''" by code_simp
  ultimately show ?thesis ..
qed

end
