(* ===== verification/Cache_Tiers.thy ===== *)
theory Cache_Tiers
  imports Cache_Runs
begin

text \<open>
  The keys under which the desktop commands cache tenant data and the tiers of invalidation a
  successful write runs (\<^verbatim>\<open>apps/desktop/src-tauri/src/commands/applications/cache.rs\<close>, with the audit key of
  \<^verbatim>\<open>commands/audit/cache.rs\<close> and the managed-identity key of \<^verbatim>\<open>commands/managed_identity.rs\<close>), on top of
  the cache of \<open>Cache_Core\<close>.  Patching the scanned lists in place is not modelled here.
\<close>

section \<open>Keys\<close>

definition apps_pairing_key :: "string \<Rightarrow> string" where
  "apps_pairing_key t = t @ ''|apps_pairing''"
definition enterprise_key :: "string \<Rightarrow> string" where
  "enterprise_key t = t @ ''|enterprise''"
definition sp_index_key :: "string \<Rightarrow> string" where
  "sp_index_key t = t @ ''|sp_index''"
definition app_name_index_key :: "string \<Rightarrow> string" where
  "app_name_index_key t = t @ ''|app_name_index''"
definition search_corpus_key :: "string \<Rightarrow> string" where
  "search_corpus_key t = t @ ''|search_corpus''"
definition app_detail_key :: "string \<Rightarrow> string \<Rightarrow> string" where
  "app_detail_key t obj = t @ ''|app_detail|'' @ obj"
definition credential_expirations_key :: "string \<Rightarrow> string" where
  "credential_expirations_key t = t @ ''|credential_expirations''"
definition app_role_resources_key :: "string \<Rightarrow> string" where
  "app_role_resources_key t = t @ ''|app_role_resources''"
definition mi_key :: "string \<Rightarrow> string" where
  "mi_key t = t @ ''|mi''"
definition audit_cache_key :: "string \<Rightarrow> string" where
  "audit_cache_key t = t @ ''|audit_run''"

section \<open>Tiers\<close>

definition invalidate_audit_cache :: "string \<Rightarrow> ('j, 'a) cache \<Rightarrow> ('j, 'a) cache" where
  "invalidate_audit_cache t c = invalidate Audit (audit_cache_key t) c"

definition invalidate_app_role_resources :: "string \<Rightarrow> ('j, 'a) cache \<Rightarrow> ('j, 'a) cache" where
  "invalidate_app_role_resources t c = invalidate Lists (app_role_resources_key t) c"

definition invalidate_app_details :: "string \<Rightarrow> ('j, 'a) cache \<Rightarrow> ('j, 'a) cache" where
  "invalidate_app_details t c =
     invalidate_prefix Lists (t @ ''|mail_scopes|'') (invalidate_prefix Lists (t @ ''|app_detail|'') c)"

definition invalidate_app_detail_state :: "string \<Rightarrow> ('j, 'a) cache \<Rightarrow> ('j, 'a) cache" where
  "invalidate_app_detail_state t c = invalidate_audit_cache t (invalidate_app_details t c)"

definition invalidate_app_lists :: "string \<Rightarrow> ('j, 'a) cache \<Rightarrow> ('j, 'a) cache" where
  "invalidate_app_lists t c =
     (let c = invalidate Lists (apps_pairing_key t) c;
          c = invalidate Lists (enterprise_key t) c;
          c = invalidate Lists (sp_index_key t) c;
          c = invalidate Lists (app_name_index_key t) c;
          c = invalidate Lists (search_corpus_key t) c;
          c = invalidate Lists (mi_key t) c;
          c = invalidate Lists (credential_expirations_key t) c;
          c = invalidate_app_role_resources t c;
          c = invalidate_app_details t c
      in invalidate_audit_cache t c)"

definition invalidate_app_credentials :: "string \<Rightarrow> string \<Rightarrow> ('j, 'a) cache \<Rightarrow> ('j, 'a) cache" where
  "invalidate_app_credentials t obj c =
     (let c = invalidate Lists (apps_pairing_key t) c;
          c = invalidate Lists (app_detail_key t obj) c;
          c = invalidate Lists (credential_expirations_key t) c
      in invalidate_audit_cache t c)"

definition invalidate_app_list_projections :: "string \<Rightarrow> ('j, 'a) cache \<Rightarrow> ('j, 'a) cache" where
  "invalidate_app_list_projections t c =
     (let c = invalidate Lists (enterprise_key t) c;
          c = invalidate Lists (search_corpus_key t) c;
          c = invalidate Lists (mi_key t) c;
          c = invalidate_app_role_resources t c;
          c = invalidate_app_details t c
      in invalidate_audit_cache t c)"

definition run_is_cacheable :: "bool \<Rightarrow> bool \<Rightarrow> 'g list \<Rightarrow> bool" where
  "run_is_cacheable cancelled truncated degraded \<longleftrightarrow> \<not> cancelled \<and> \<not> truncated \<and> degraded = []"

section \<open>What a tier removes\<close>

definition entry_at :: "('j, 'a) cache \<Rightarrow> cache_kind \<Rightarrow> string \<Rightarrow> ('j, 'a) entry option" where
  "entry_at c kind key = b_lookup (get_bucket c kind) key"

definition keeps_except :: "('j, 'a) cache \<Rightarrow> ('j, 'a) cache \<Rightarrow> (cache_kind \<Rightarrow> string \<Rightarrow> bool) \<Rightarrow> bool" where
  "keeps_except c d P \<longleftrightarrow> (\<forall>kind key. entry_at d kind key = (if P kind key then None else entry_at c kind key))"

definition detail_tier :: "string \<Rightarrow> cache_kind \<Rightarrow> string \<Rightarrow> bool" where
  "detail_tier t kind key \<longleftrightarrow>
     kind = Lists \<and> (starts_with key (t @ ''|app_detail|'') \<or> starts_with key (t @ ''|mail_scopes|''))
     \<or> kind = Audit \<and> key = audit_cache_key t"

definition projection_tier :: "string \<Rightarrow> cache_kind \<Rightarrow> string \<Rightarrow> bool" where
  "projection_tier t kind key \<longleftrightarrow>
     detail_tier t kind key
     \<or> kind = Lists \<and> key \<in> {enterprise_key t, search_corpus_key t, mi_key t, app_role_resources_key t}"

definition scanned_keys :: "string \<Rightarrow> string set" where
  "scanned_keys t = {apps_pairing_key t, app_name_index_key t, credential_expirations_key t, sp_index_key t}"

lemma invalidate_entry:
  "length (c_buckets c) = 4 \<Longrightarrow>
     entry_at (invalidate k key c) k' key' = (if k' = k \<and> key' = key then None else entry_at c k' key')
   \<and> length (c_buckets (invalidate k key c)) = 4"
  by (simp add: entry_at_def invalidate_def Let_def get_set_bucket bucket_remove_lookup)

lemma invalidate_prefix_entry:
  "length (c_buckets c) = 4 \<Longrightarrow>
     entry_at (invalidate_prefix k pre c) k' key' = (if k' = k \<and> starts_with key' pre then None else entry_at c k' key')
   \<and> length (c_buckets (invalidate_prefix k pre c)) = 4"
  by (simp add: entry_at_def invalidate_prefix_def Let_def get_set_bucket bucket_retain_lookup del: starts_with_code)

lemmas tier_defs = invalidate_audit_cache_def invalidate_app_role_resources_def invalidate_app_details_def
  invalidate_app_detail_state_def invalidate_app_lists_def invalidate_app_credentials_def
  invalidate_app_list_projections_def keeps_except_def detail_tier_def projection_tier_def scanned_keys_def

lemmas key_defs = apps_pairing_key_def enterprise_key_def sp_index_key_def app_name_index_key_def
  search_corpus_key_def app_detail_key_def credential_expirations_key_def app_role_resources_key_def
  mi_key_def audit_cache_key_def

text \<open>\<^bold>\<open>Invalidation tiers.\<close>  Each tier removes exactly its entries and keeps every other entry of every kind: the
  detail tier drops a tenant's detail payloads, mailbox-scope verdicts and audit run; the projection tier
  adds the four derived lists, the list tier the four scanned indexes on top of that; the credential tier
  drops the two scanned entries a credential shows in, one application's detail and the audit run.  Every
  removed key belongs to the tenant.\<close>

theorem invalidation_tiers_exact:
  assumes "cache_reach now c"
  shows "keeps_except c (invalidate_app_detail_state t c) (detail_tier t)
    \<and> keeps_except c (invalidate_app_list_projections t c) (projection_tier t)
    \<and> keeps_except c (invalidate_app_lists t c)
        (\<lambda>kind key. projection_tier t kind key \<or> kind = Lists \<and> key \<in> scanned_keys t)
    \<and> keeps_except c (invalidate_app_credentials t obj c)
        (\<lambda>kind key. kind = Lists \<and> key \<in> {apps_pairing_key t, app_detail_key t obj, credential_expirations_key t}
           \<or> kind = Audit \<and> key = audit_cache_key t)
    \<and> (\<forall>kind key. projection_tier t kind key \<or> key \<in> scanned_keys t \<longrightarrow> starts_with key (t @ ''|''))"
proof -
  have len: "length (c_buckets c) = 4" using cache_inv_len [OF cache_reach_inv [OF assms]] .
  note simps = invalidate_entry invalidate_prefix_entry tier_defs len Let_def
  have "keeps_except c (invalidate_app_detail_state t c) (detail_tier t)"
    "keeps_except c (invalidate_app_list_projections t c) (projection_tier t)"
    by (auto simp: simps simp del: starts_with_code)
  moreover have "keeps_except c (invalidate_app_lists t c)
      (\<lambda>kind key. projection_tier t kind key \<or> kind = Lists \<and> key \<in> scanned_keys t)"
    by (auto simp: simps simp del: starts_with_code)
  moreover have "keeps_except c (invalidate_app_credentials t obj c)
      (\<lambda>kind key. kind = Lists \<and> key \<in> {apps_pairing_key t, app_detail_key t obj, credential_expirations_key t}
         \<or> kind = Audit \<and> key = audit_cache_key t)"
    by (auto simp: simps simp del: starts_with_code)
  moreover have "starts_with key (t @ ''|'')" if "projection_tier t kind key \<or> key \<in> scanned_keys t" for kind key
    using that by (auto simp: projection_tier_def detail_tier_def scanned_keys_def key_defs starts_with_def prefix_def
        simp del: starts_with_code)
  ultimately show ?thesis by blast
qed

theorem invalidation_tiers_exact_witness:
  "entry_at (invalidate_app_lists ''t'' example_cache) Lists ''t|sp'' = entry_at example_cache Lists ''t|sp''
   \<and> entry_at (invalidate_app_lists ''s'' example_cache) Lists ''t|a'' = entry_at example_cache Lists ''t|a''"
  using invalidation_tiers_exact [OF example_cache_reach, of "''t''"] invalidation_tiers_exact [OF example_cache_reach, of "''s''"]
  by (simp add: keeps_except_def projection_tier_def detail_tier_def scanned_keys_def key_defs)

end
