(* ===== verification/Scope_Group.thy ===== *)
theory Scope_Group
  imports Exchange_Client Tenant_Defaults Cache_Tiers
begin

text \<open>
  The toolkit-managed scope group (\<^verbatim>\<open>apps/desktop/src-tauri/src/commands/exchange/scope_group.rs\<close>): editing its
  membership, consolidating a scope's source groups onto it, repointing the management scope, and
  deleting a retired group.  Exchange is the cmdlet record of \<open>Exchange_Client\<close>; a command's result, the
  warnings it collects and the cache it invalidates are threaded through.  Session checks, loading the
  tenant defaults and building the client happen before the modelled part.

  \<open>copy_members\<close> keeps up to four adds in flight.  An add is gated when it starts and noted when it
  completes; which in-flight add completes next, and whether a free slot is filled first, is chosen by
  \<open>x_pick\<close> in a state that \<open>x_tick\<close> may change before every choice, so a statement about every \<open>exo\<close> is
  one about every schedule.
\<close>

section \<open>Membership\<close>

definition sanitize_alias :: "string \<Rightarrow> string" where
  "sanitize_alias name = take 64 (filter (\<lambda>c. is_ascii_alnum c \<or> c \<in> {CHR ''.'', CHR ''_'', CHR ''-''}) name)"

record member_failure =
  mf_mailbox :: string
  mf_reason :: string

fun mutate_members ::
  "(string \<Rightarrow> (unit, 'w) cmdlet) \<Rightarrow> string list \<Rightarrow> bool \<Rightarrow> string list \<Rightarrow> member_failure list \<Rightarrow> 'w
     \<Rightarrow> string list \<times> member_failure list \<times> 'w" where
  "mutate_members op [] dead succeeded failed w = (succeeded, failed, w)"
| "mutate_members op (m # ms) dead succeeded failed w =
     (let mailbox = trim m
      in if mailbox = [] then mutate_members op ms dead succeeded failed w
         else if dead then
           mutate_members op ms dead succeeded
             (failed @ [\<lparr>mf_mailbox = mailbox, mf_reason = ''not attempted: the sign-in session ended; sign in again and retry''\<rparr>]) w
         else (case op mailbox w of
                 (Inr _, w) \<Rightarrow> mutate_members op ms dead (succeeded @ [mailbox]) failed w
               | (Inl err, w) \<Rightarrow>
                   mutate_members op ms (note_code dead (ui_code err)) succeeded
                     (failed @ [\<lparr>mf_mailbox = mailbox, mf_reason = error_text err\<rparr>]) w))"

record member_mutation_result =
  mm_group_name :: string
  mm_group_created :: bool
  mm_succeeded :: "string list"
  mm_failed :: "member_failure list"

definition add_exchange_scope_group_members ::
  "'w exo \<Rightarrow> tenant_defaults \<Rightarrow> string \<Rightarrow> string list \<Rightarrow> 'w \<Rightarrow> (ui_error + member_mutation_result) \<times> 'w" where
  "add_exchange_scope_group_members exo defaults app mailboxes w =
     (let name = group_name_for defaults app
      in case ensure_security_group_reporting exo name (sanitize_alias name) w of
           (Inl e, w) \<Rightarrow> (Inl (ui_error_from e), w)
         | (Inr (_, created), w) \<Rightarrow>
             (case mutate_members (add_group_member exo name) mailboxes False [] [] w of
                (succeeded, failed, w) \<Rightarrow>
                  (Inr \<lparr>mm_group_name = name, mm_group_created = created, mm_succeeded = succeeded, mm_failed = failed\<rparr>, w)))"

definition remove_exchange_scope_group_members ::
  "'w exo \<Rightarrow> tenant_defaults \<Rightarrow> string \<Rightarrow> string list \<Rightarrow> 'w \<Rightarrow> (ui_error + member_mutation_result) \<times> 'w" where
  "remove_exchange_scope_group_members exo defaults app mailboxes w =
     (let name = group_name_for defaults app
      in case mutate_members (remove_group_member exo name) mailboxes False [] [] w of
           (succeeded, failed, w) \<Rightarrow>
             (Inr \<lparr>mm_group_name = name, mm_group_created = False, mm_succeeded = succeeded, mm_failed = failed\<rparr>, w))"

record exchange_group_member_dto =
  gd_display_name :: "string option"
  gd_primary_smtp_address :: "string option"
  gd_recipient_type :: "string option"

record exchange_scope_group_dto =
  sd_group_name :: string
  sd_exists :: bool
  sd_primary_smtp_address :: "string option"
  sd_distinguished_name :: "string option"
  sd_members :: "exchange_group_member_dto list"

definition list_exchange_scope_group ::
  "'w exo \<Rightarrow> tenant_defaults \<Rightarrow> string \<Rightarrow> 'w \<Rightarrow> (ui_error + exchange_scope_group_dto) \<times> 'w" where
  "list_exchange_scope_group exo defaults app w =
     (let name = group_name_for defaults app
      in case x_get_distribution_group exo name w of
           (Inl e, w) \<Rightarrow> (Inl (ui_error_from e), w)
         | (Inr None, w) \<Rightarrow>
             (Inr \<lparr>sd_group_name = name, sd_exists = False, sd_primary_smtp_address = None,
                   sd_distinguished_name = None, sd_members = []\<rparr>, w)
         | (Inr (Some g), w) \<Rightarrow>
             (case x_list_group_members exo name w of
                (Inl e, w) \<Rightarrow> (Inl (ui_error_from e), w)
              | (Inr ms, w) \<Rightarrow>
                  (Inr \<lparr>sd_group_name = name, sd_exists = True, sd_primary_smtp_address = eg_primary_smtp_address g,
                        sd_distinguished_name = eg_distinguished_name g,
                        sd_members = map (\<lambda>m. \<lparr>gd_display_name = gm_display_name m,
                          gd_primary_smtp_address = gm_primary_smtp_address m,
                          gd_recipient_type = gm_recipient_type m\<rparr>) ms\<rparr>, w)))"

section \<open>Copying members\<close>

definition MEMBER_COPY_CONCURRENCY :: nat where
  "MEMBER_COPY_CONCURRENCY = 4"

record member_copy =
  mc_landed :: "string list"
  mc_failed :: "(string \<times> exchange_error) list"
  mc_not_attempted :: nat

type_synonym add_outcome = "source_member_id \<times> (exchange_error + unit) option"

function run_adds ::
  "'w exo \<Rightarrow> string \<Rightarrow> source_member_id list \<Rightarrow> source_member_id list \<Rightarrow> add_outcome list \<Rightarrow> bool \<Rightarrow> 'w
     \<Rightarrow> add_outcome list \<times> bool \<times> 'w" where
  "run_adds exo g missing flight outcomes dead w =
     (let w = x_tick exo w
      in if flight = [] \<or> (missing \<noteq> [] \<and> length flight < MEMBER_COPY_CONCURRENCY \<and> x_pick exo w = 0)
      then (case missing of
              [] \<Rightarrow> (outcomes, dead, w)
            | m # ms \<Rightarrow>
                if x_cancelled exo w \<or> dead then run_adds exo g ms flight (outcomes @ [(m, None)]) dead w
                else run_adds exo g ms (flight @ [m]) outcomes dead w)
      else (let i = x_pick exo w mod length flight;
                m = flight ! i
            in case add_group_member exo g (sm_identity m) w of
                 (r, w) \<Rightarrow>
                   run_adds exo g missing (take i flight @ drop (i + 1) flight) (outcomes @ [(m, Some r)])
                     (case r of Inl err \<Rightarrow> note_code dead (ui_code err) | Inr _ \<Rightarrow> dead) w))"
  by pat_completeness auto
termination
proof (relation "measure (\<lambda>(exo, g, missing, flight, outcomes, dead, w). 2 * length missing + length flight)", goal_cases)
  case (4 exo g missing flight outcomes dead w)
  have "length (take (n mod length flight) flight @ drop (n mod length flight + 1) flight) < length flight" for n
    using 4 mod_less_divisor [of "length flight" n] by (simp del: mod_less_divisor)
  with 4 show ?case by (simp del: length_append)
qed auto

declare run_adds.simps [simp del]

fun sort_outcomes ::
  "add_outcome list \<Rightarrow> member_copy \<Rightarrow> (source_member_id \<times> exchange_error) list
     \<Rightarrow> member_copy \<times> (source_member_id \<times> exchange_error) list" where
  "sort_outcomes [] copy retry = (copy, retry)"
| "sort_outcomes ((m, None) # os) copy retry =
     sort_outcomes os (copy\<lparr>mc_not_attempted := mc_not_attempted copy + 1\<rparr>) retry"
| "sort_outcomes ((m, Some (Inr _)) # os) copy retry =
     sort_outcomes os (copy\<lparr>mc_landed := List.insert (sm_key m) (mc_landed copy)\<rparr>) retry"
| "sort_outcomes ((m, Some (Inl err)) # os) copy retry = sort_outcomes os copy (retry @ [(m, err)])"

fun retry_adds ::
  "'w exo \<Rightarrow> string \<Rightarrow> (source_member_id \<times> exchange_error) list \<Rightarrow> member_copy \<Rightarrow> bool \<Rightarrow> 'w
     \<Rightarrow> member_copy \<times> bool \<times> 'w" where
  "retry_adds exo g [] copy dead w = (copy, dead, w)"
| "retry_adds exo g ((m, first) # retry) copy dead w =
     (if x_cancelled exo w \<or> dead
      then retry_adds exo g retry (copy\<lparr>mc_failed := mc_failed copy @ [(sm_identity m, first)]\<rparr>) dead w
      else (case add_group_member exo g (sm_identity m) w of
              (Inr _, w) \<Rightarrow> retry_adds exo g retry (copy\<lparr>mc_landed := List.insert (sm_key m) (mc_landed copy)\<rparr>) dead w
            | (Inl err, w) \<Rightarrow>
                retry_adds exo g retry (copy\<lparr>mc_failed := mc_failed copy @ [(sm_identity m, err)]\<rparr>)
                  (note_code dead (ui_code err)) w))"

definition copy_members ::
  "'w exo \<Rightarrow> string \<Rightarrow> source_member_id list \<Rightarrow> string list \<Rightarrow> bool \<Rightarrow> 'w \<Rightarrow> member_copy \<times> bool \<times> 'w" where
  "copy_members exo g members already_in dead w =
     (let present = filter (\<lambda>m. sm_key m \<in> set already_in) members;
          missing = filter (\<lambda>m. sm_key m \<notin> set already_in) members
      in case run_adds exo g missing [] [] dead w of
           (outcomes, dead, w) \<Rightarrow>
             (case sort_outcomes outcomes
                     \<lparr>mc_landed = remdups (map sm_key present), mc_failed = [], mc_not_attempted = 0\<rparr> [] of
                (copy, retry) \<Rightarrow> retry_adds exo g retry copy dead w))"

section \<open>Consolidating\<close>

record scope_group_consolidation =
  sc_group_name :: string
  sc_copied :: "string list"
  sc_unverified :: "string list"
  sc_scope_dns :: "string list"
  sc_consolidated :: bool
  sc_incomplete :: bool
  sc_refusal :: "string option"

definition kept :: "string \<Rightarrow> string list \<Rightarrow> string list \<Rightarrow> scope_group_consolidation" where
  "kept name source_dns unverified =
     \<lparr>sc_group_name = name, sc_copied = [], sc_unverified = unverified, sc_scope_dns = source_dns,
      sc_consolidated = False, sc_incomplete = False, sc_refusal = None\<rparr>"

definition keep_source :: "string list \<Rightarrow> string \<Rightarrow> string list" where
  "keep_source warnings why =
     warnings @ [why @ '' '' @ em_dash @ '' the management scope was left pointing at its current group(s); nothing this app can reach has changed.'']"

definition in_quotes :: "string \<Rightarrow> string" where
  "in_quotes s = [QUOTE] @ s @ [QUOTE]"

fun read_groups :: "'w exo \<Rightarrow> string list \<Rightarrow> 'w \<Rightarrow> source_group_read list \<times> 'w" where
  "read_groups exo [] w = ([], w)"
| "read_groups exo (dn # dns) w =
     (case x_list_group_members exo dn w of
        (r, w) \<Rightarrow>
          (case read_groups exo dns w of
             (rs, w) \<Rightarrow> ((dn, case r of Inl err \<Rightarrow> Inl (error_text err) | Inr ms \<Rightarrow> Inr ms) # rs, w)))"

definition managed_is_live ::
  "(string \<Rightarrow> bool) \<Rightarrow> (string \<Rightarrow> string) \<Rightarrow> 'w exo \<Rightarrow> string \<Rightarrow> string option \<Rightarrow> 'w \<Rightarrow> bool \<times> 'w" where
  "managed_is_live uni_alnum lower exo name live_filter w =
     (case live_filter of
        None \<Rightarrow> (False, w)
      | Some f \<Rightarrow>
          (case x_get_distribution_group exo name w of
             (Inr (Some g), w) \<Rightarrow>
               (case eg_distinguished_name g of
                  Some dn \<Rightarrow> (filter_names_only_group uni_alnum lower f dn, w)
                | None \<Rightarrow> (False, w))
           | (_, w) \<Rightarrow> (False, w)))"

definition keys_of :: "exo_group_member list \<Rightarrow> string list" where
  "keys_of ms = map sm_key (List.map_filter source_member ms)"

datatype precheck = Refused string | Proceed "string option" "string list"

definition check_managed ::
  "'w exo \<Rightarrow> string \<Rightarrow> source_member_id list \<Rightarrow> bool \<Rightarrow> bool \<Rightarrow> string list \<Rightarrow> 'w \<Rightarrow> precheck \<times> string list \<times> 'w" where
  "check_managed exo name members live dry_run warnings w =
     (if live \<and> dry_run then (Proceed None [], warnings, w)
      else (case x_list_group_members exo name w of
              (Inr existing, w) \<Rightarrow>
                (let extras = (if live then [] else extra_members members existing)
                 in if extras = [] then (Proceed None (keys_of existing), warnings, w)
                    else let why = refusal_text (ExtraManagedMembers extras)
                         in if \<not> dry_run then (Refused why, keep_source warnings why, w)
                            else (Proceed (Some why) (keys_of existing),
                                  warnings @ [''the move would be refused: '' @ why], w))
            | (Inl err, w) \<Rightarrow>
                (Proceed None [],
                 if dry_run then warnings @ [''could not read '' @ in_quotes name @ '' to check it holds no mailbox beyond the source ('' @ error_text err @ ''); the move re-checks before repointing'']
                 else warnings, w)))"

fun unverified_text :: "string \<Rightarrow> nat \<Rightarrow> string list \<Rightarrow> refusal \<Rightarrow> string" where
  "unverified_text name planned unverified (UnverifiedMembers n) =
     show_nat n @ '' of '' @ show_nat planned @ '' mailbox(es) could not be verified in '' @ in_quotes name @ '' ('' @ join '', '' unverified @ '')''"
| "unverified_text name planned unverified other = refusal_text other"

definition verify_copy ::
  "(string \<Rightarrow> bool) \<Rightarrow> (string \<Rightarrow> string) \<Rightarrow> 'w exo \<Rightarrow> string \<Rightarrow> string list \<Rightarrow> source_member_id list \<Rightarrow> string option
     \<Rightarrow> bool \<Rightarrow> string list \<Rightarrow> 'w \<Rightarrow> scope_group_consolidation \<times> string list \<times> 'w" where
  "verify_copy uni_alnum lower exo name source_dns members managed_dn skip_extras warnings w =
     (case x_list_group_members exo name w of
        (Inl err, w) \<Rightarrow>
          (kept name source_dns (map sm_identity members),
           keep_source warnings (''could not re-read '' @ in_quotes name @ '' to verify the copy ('' @ error_text err @ '')''), w)
      | (Inr managed, w) \<Rightarrow>
          (let present = keys_of managed;
               extras = (if skip_extras then [] else extra_members members managed);
               unverified = unverified_members members present;
               plan = plan_consolidation uni_alnum lower (member_of_group_filter source_dns) managed_dn []
                        (length unverified) extras;
               copied = map sm_identity (filter (\<lambda>m. sm_key m \<in> set present) members)
           in case plan of
                Inr p \<Rightarrow>
                  (\<lparr>sc_group_name = name, sc_copied = copied, sc_unverified = unverified, sc_scope_dns = cp_scope_dns p,
                    sc_consolidated = True, sc_incomplete = False, sc_refusal = None\<rparr>, warnings, w)
              | Inl why \<Rightarrow>
                  (\<lparr>sc_group_name = name, sc_copied = copied, sc_unverified = unverified, sc_scope_dns = source_dns,
                    sc_consolidated = False, sc_incomplete = False, sc_refusal = None\<rparr>,
                   keep_source warnings (unverified_text name (length members) unverified why), w)))"

definition copy_and_verify ::
  "(string \<Rightarrow> bool) \<Rightarrow> (string \<Rightarrow> string) \<Rightarrow> 'w exo \<Rightarrow> string \<Rightarrow> string list \<Rightarrow> source_member_id list \<Rightarrow> string option
     \<Rightarrow> bool \<Rightarrow> string list \<Rightarrow> string list \<Rightarrow> 'w \<Rightarrow> scope_group_consolidation \<times> string list \<times> 'w" where
  "copy_and_verify uni_alnum lower exo name source_dns members live_filter live already_in warnings w =
     (let copied = map sm_identity members
      in if x_cancelled exo w then
           ((kept name source_dns copied)\<lparr>sc_incomplete := True\<rparr>,
            keep_source warnings (''stopped before anything was copied into '' @ in_quotes name), w)
         else (case ensure_security_group exo name (sanitize_alias name) w of
                 (Inl err, w) \<Rightarrow>
                   (kept name source_dns copied,
                    keep_source warnings (''could not create '' @ in_quotes name @ '' ('' @ error_text err @ '')''), w)
               | (Inr g, w) \<Rightarrow>
                   (let managed_dn = eg_distinguished_name g
                    in case copy_members exo name members already_in False w of
                         (copy, dead, w) \<Rightarrow>
                           (let warnings = warnings @ map (\<lambda>(i, err). ''could not add '' @ i @ '' to '' @ name @ '': '' @ error_text err) (mc_failed copy)
                            in if mc_not_attempted copy > 0 \<or> x_cancelled exo w \<or> dead then
                                 ((kept name source_dns
                                     (map sm_identity (filter (\<lambda>m. sm_key m \<notin> set (mc_landed copy)) members)))
                                    \<lparr>sc_copied := map sm_identity (filter (\<lambda>m. sm_key m \<in> set (mc_landed copy)) members),
                                     sc_incomplete := True\<rparr>,
                                  keep_source warnings
                                    ((if dead then ''the session ended'' else ''the run was cancelled'')
                                     @ '' while copying mailboxes into '' @ in_quotes name @ '' (''
                                     @ show_nat (length members - length (mc_landed copy)) @ '' of ''
                                     @ show_nat (length members) @ '' not copied)''), w)
                               else verify_copy uni_alnum lower exo name source_dns members managed_dn
                                      (live \<or> (case (live_filter, managed_dn) of
                                                  (Some f, Some dn) \<Rightarrow> filter_names_only_group uni_alnum lower f dn
                                                | _ \<Rightarrow> False)) warnings w))))"

definition consolidate_scope_group ::
  "(string \<Rightarrow> bool) \<Rightarrow> (string \<Rightarrow> string) \<Rightarrow> 'w exo \<Rightarrow> string \<Rightarrow> string list \<Rightarrow> tenant_defaults \<Rightarrow> bool \<Rightarrow> string option
     \<Rightarrow> string list \<Rightarrow> 'w \<Rightarrow> scope_group_consolidation \<times> string list \<times> 'w" where
  "consolidate_scope_group uni_alnum lower exo app source_dns defaults dry_run live_filter warnings w =
     (let name = group_name_for defaults app
      in case read_groups exo source_dns w of
           (reads, w) \<Rightarrow>
             (case plan_source_membership reads of
                Inl unreadable \<Rightarrow>
                  (let why = refusal_text (UnreadableSourceGroups unreadable)
                   in ((kept name source_dns [])\<lparr>sc_refusal := Some why\<rparr>, keep_source warnings why, w))
              | Inr members \<Rightarrow>
                  (case managed_is_live uni_alnum lower exo name live_filter w of
                     (live, w) \<Rightarrow>
                       (case check_managed exo name members live dry_run warnings w of
                          (Refused why, warnings, w) \<Rightarrow>
                            ((kept name source_dns [])\<lparr>sc_refusal := Some why\<rparr>, warnings, w)
                        | (Proceed refusal already_in, warnings, w) \<Rightarrow>
                            if dry_run then
                              (\<lparr>sc_group_name = name, sc_copied = map sm_identity members, sc_unverified = [],
                                sc_scope_dns = source_dns, sc_consolidated = False, sc_incomplete = False,
                                sc_refusal = refusal\<rparr>, warnings, w)
                            else copy_and_verify uni_alnum lower exo name source_dns members live_filter live
                                   already_in warnings w))))"

section \<open>Retired groups\<close>

record retired_scope_group =
  rg_display_name :: "string option"
  rg_primary_smtp_address :: "string option"
  rg_distinguished_name :: string
  rg_still_referenced_by :: "string list"
  rg_reference_check_complete :: bool

fun resolve_groups :: "'w exo \<Rightarrow> string list \<Rightarrow> 'w \<Rightarrow> exo_group option list \<times> 'w" where
  "resolve_groups exo [] w = ([], w)"
| "resolve_groups exo (dn # dns) w =
     (case x_get_group exo dn w of
        (r, w) \<Rightarrow>
          (case resolve_groups exo dns w of
             (gs, w) \<Rightarrow> ((case r of Inr g \<Rightarrow> g | Inl _ \<Rightarrow> None) # gs, w)))"

definition retired_answer ::
  "(string \<Rightarrow> bool) \<Rightarrow> (string \<Rightarrow> string) \<Rightarrow> bool \<Rightarrow> exo_management_scope list \<Rightarrow> exo_application_access_policy list
     \<Rightarrow> string \<Rightarrow> exo_group option \<Rightarrow> retired_scope_group" where
  "retired_answer uni_alnum lower readable scopes policies dn resolved =
     (let g = \<lparr>gi_distinguished_name = dn, gi_name = Option.bind resolved eg_name,
               gi_primary_smtp_address = Option.bind resolved eg_primary_smtp_address\<rparr>
      in \<lparr>rg_display_name = gi_name g, rg_primary_smtp_address = gi_primary_smtp_address g,
          rg_distinguished_name = gi_distinguished_name g,
          rg_still_referenced_by = references_to_group uni_alnum lower g scopes policies,
          rg_reference_check_complete = (readable \<and> resolved \<noteq> None)\<rparr>)"

definition retired_scope_groups_per_app ::
  "(string \<Rightarrow> bool) \<Rightarrow> (string \<Rightarrow> string) \<Rightarrow> 'w exo \<Rightarrow> string list list \<Rightarrow> 'w \<Rightarrow> retired_scope_group list list \<times> 'w" where
  "retired_scope_groups_per_app uni_alnum lower exo per_app w =
     (let distinct_dns = keep_first id (concat per_app)
      in if distinct_dns = [] then (map (\<lambda>_. []) per_app, w)
         else (case x_list_management_scopes exo w of
                 (scopes, w) \<Rightarrow>
                   (case x_get_application_access_policies exo w of
                      (policies, w) \<Rightarrow>
                        (case resolve_groups exo distinct_dns w of
                           (resolved, w) \<Rightarrow>
                             (let readable = (\<not> isl scopes \<and> \<not> isl policies);
                                  answers = map (\<lambda>(dn, r).
                                    (dn, retired_answer uni_alnum lower readable (case_sum (\<lambda>_. []) id scopes)
                                           (case_sum (\<lambda>_. []) id policies) dn r)) (zip distinct_dns resolved)
                              in (map (\<lambda>dns. List.map_filter (map_of answers) dns) per_app, w))))))"

definition retired_scope_groups ::
  "(string \<Rightarrow> bool) \<Rightarrow> (string \<Rightarrow> string) \<Rightarrow> 'w exo \<Rightarrow> string list \<Rightarrow> 'w \<Rightarrow> retired_scope_group list \<times> 'w" where
  "retired_scope_groups uni_alnum lower exo source_dns w =
     (case retired_scope_groups_per_app uni_alnum lower exo [source_dns] w of
        (answers, w) \<Rightarrow> (if answers = [] then [] else last answers, w))"

definition retired_groups_note :: "retired_scope_group list \<Rightarrow> string" where
  "retired_groups_note groups =
     (if groups = [] then ''The previous group(s) are no longer this app's scope source.''
      else let names = map (\<lambda>g. case rg_display_name g of
                               Some n \<Rightarrow> n
                             | None \<Rightarrow> (case rg_primary_smtp_address g of Some a \<Rightarrow> a | None \<Rightarrow> rg_distinguished_name g)) groups;
               listed = in_quotes (join ([QUOTE] @ '', '' @ [QUOTE]) names);
               verb = (if length names = 1 then ''is'' else ''are'')
           in if list_all (\<lambda>g. rg_reference_check_complete g \<and> rg_still_referenced_by g = []) groups
              then listed @ '' '' @ verb @ '' no longer referenced by any management scope or Application Access Policy the toolkit can see, and can be cleaned up.''
              else listed @ '' '' @ verb @ '' this app's previous scope source '' @ em_dash @ '' review the notes before deleting.'')"

definition delete_exchange_scope_group ::
  "(string \<Rightarrow> bool) \<Rightarrow> (string \<Rightarrow> string) \<Rightarrow> 'w exo \<Rightarrow> tenant_defaults \<Rightarrow> string \<Rightarrow> string \<Rightarrow> 'w
     \<Rightarrow> (ui_error + unit) \<times> 'w" where
  "delete_exchange_scope_group uni_alnum lower exo defaults app group_identity w =
     (case x_get_distribution_group exo group_identity w of
        (Inl e, w) \<Rightarrow> (Inl (ui_error_from e), w)
      | (Inr None, w) \<Rightarrow>
          (Inl (ui_not_found ''group'' (''no distribution or mail-enabled security group matches ''
             @ in_quotes group_identity @ '' '' @ em_dash @ '' it may already have been deleted.'')), w)
      | (Inr (Some g), w) \<Rightarrow>
          (let identity = \<lparr>gi_distinguished_name = (case eg_distinguished_name g of Some dn \<Rightarrow> dn | None \<Rightarrow> group_identity),
                           gi_name = eg_name g, gi_primary_smtp_address = eg_primary_smtp_address g\<rparr>;
               managed = group_name_for defaults app
           in if group_matches identity managed then
                (Inl (ui_validation ''managed_group'' (in_quotes managed @ '' is the toolkit-managed scope group this app's management scope now points at. Deleting it would remove the app's mailbox access entirely.'')), w)
              else (case x_list_management_scopes exo w of
                      (Inl e, w) \<Rightarrow> (Inl (ui_error_from e), w)
                    | (Inr scopes, w) \<Rightarrow>
                        (case x_get_application_access_policies exo w of
                           (Inl e, w) \<Rightarrow> (Inl (ui_error_from e), w)
                         | (Inr policies, w) \<Rightarrow>
                             (let references = references_to_group uni_alnum lower identity scopes policies
                              in if references \<noteq> [] then
                                   (Inl (ui_validation ''group_in_use''
                                     (in_quotes (case gi_name identity of Some n \<Rightarrow> n | None \<Rightarrow> gi_distinguished_name identity)
                                      @ '' is still referenced by '' @ join '', '' references @ ''. Repoint or remove those first.'')), w)
                                 else (case x_remove_distribution_group exo (gi_distinguished_name identity) w of
                                         (Inl e, w) \<Rightarrow> (Inl (ui_error_from e), w)
                                       | (Inr _, w) \<Rightarrow> (Inr (), w)))))))"

section \<open>Repointing\<close>

definition curly :: "string \<Rightarrow> string" where
  "curly s = [CHR 0xE2, CHR 0x80, CHR 0x9C] @ s @ [CHR 0xE2, CHR 0x80, CHR 0x9D]"

definition en_dash :: string where
  "en_dash = [CHR 0xE2, CHR 0x80, CHR 0x93]"

definition scope_filter_decision ::
  "exo_management_scope option \<Rightarrow> string \<Rightarrow> string \<Rightarrow> ui_error + string option" where
  "scope_filter_decision read scope_name_of consequence =
     (case read of
        None \<Rightarrow> Inr None
      | Some scope \<Rightarrow>
          (case ms_recipient_filter scope of
             Some f \<Rightarrow> Inr (Some f)
           | None \<Rightarrow> Inl (ui_validation ''scope_filter_unreadable''
               (''a management scope '' @ curly scope_name_of @ '' already exists for this app but has no recipient restriction filter, so it confines nothing '' @ em_dash @ '' and Exchange keeps the existing scope rather than replacing it. '' @ consequence @ '' Nothing was changed. Review the scope in Exchange, or use '' @ curly ''Move to managed group'' @ '' to consolidate onto the toolkit-managed group.''))))"

definition existing_scope_filter_checked ::
  "'w exo \<Rightarrow> string \<Rightarrow> string \<Rightarrow> 'w \<Rightarrow> (ui_error + string option) \<times> 'w" where
  "existing_scope_filter_checked exo scope_name_of consequence w =
     (case x_get_management_scope exo scope_name_of w of
        (Inl e, w) \<Rightarrow> (Inl (ui_error_from e), w)
      | (Inr read, w) \<Rightarrow> (scope_filter_decision read scope_name_of consequence, w))"

definition scope_filter_agrees :: "(string \<Rightarrow> bool) \<Rightarrow> (string \<Rightarrow> string) \<Rightarrow> string \<Rightarrow> string \<Rightarrow> bool" where
  "scope_filter_agrees uni_alnum lower current wanted \<longleftrightarrow>
     (case exact_scope_dns uni_alnum lower current of
        None \<Rightarrow> False
      | Some c \<Rightarrow> Some c = exact_scope_dns uni_alnum lower wanted)"

definition repoint_scope_if_stale ::
  "(string \<Rightarrow> bool) \<Rightarrow> (string \<Rightarrow> string) \<Rightarrow> 'w exo \<Rightarrow> string \<Rightarrow> string \<Rightarrow> string \<Rightarrow> string list \<Rightarrow> 'w \<Rightarrow> string list \<times> 'w" where
  "repoint_scope_if_stale uni_alnum lower exo scope_name_of current wanted_filter warnings w =
     (case rewritable_scope_dns uni_alnum current of
        Inl why \<Rightarrow>
          (warnings @ [''management scope '' @ in_quotes scope_name_of @ '' was left as it is: '' @ unrewritable_text why @ ''. Its filter is ('' @ current @ '') '' @ em_dash @ '' repoint it in Exchange if this app should use the toolkit-managed group.''], w)
      | Inr current_dns \<Rightarrow>
          if exact_scope_dns uni_alnum lower wanted_filter = Some (set (map (fold_dn lower) current_dns)) then (warnings, w)
          else (case set_management_scope_filter uni_alnum lower exo scope_name_of wanted_filter w of
                  (Inr _, w) \<Rightarrow>
                    (warnings @ [''management scope '' @ in_quotes scope_name_of @ '' already existed and pointed at a different group set; it now points at the toolkit-managed group. Exchange applies this to every role assignment using the scope, and can take 30 min'' @ en_dash @ ''2 h to propagate.''], w)
                | (Inl err, w) \<Rightarrow>
                    (warnings @ [''management scope '' @ in_quotes scope_name_of @ '' still points at its previous group set '' @ em_dash @ '' the repoint failed ('' @ error_text err @ ''). Nothing this app can reach has changed.''], w)))"

definition mismatch_not_permitted :: "string \<Rightarrow> ui_error" where
  "mismatch_not_permitted scope_name_of =
     ui_validation ''scope_filter_mismatch''
       (''a management scope '' @ curly scope_name_of @ '' already exists for this app and either confines a different set of groups than this migration computed or has a filter that does more than name groups. Exchange keeps the existing scope rather than replacing it, and this run is not permitted to repoint it '' @ em_dash @ '' either the group consolidation could not be verified, or an explicit scope name was supplied that may be shared with other applications. Assigning roles against it and then removing the org-wide grants would change what this app reaches in a way that was not asked for, so nothing was changed. Review the scope in Exchange, or use '' @ curly ''Move to managed group'' @ '' to consolidate onto the toolkit-managed group.'')"

definition mismatch_after :: "string \<Rightarrow> ui_error" where
  "mismatch_after scope_name_of =
     ui_validation ''scope_filter_mismatch''
       (''management scope '' @ curly scope_name_of @ '' does not confine access to exactly the groups this migration computed (its filter could not be rewritten, or the rewrite did not land), so the app's roles were NOT assigned and its org-wide grants were left in place. Nothing this app can reach has changed. Inspect the scope in Exchange.'')"

definition reconcile_scope_filter ::
  "(string \<Rightarrow> bool) \<Rightarrow> (string \<Rightarrow> string) \<Rightarrow> 'w exo \<Rightarrow> string \<Rightarrow> string option \<Rightarrow> string \<Rightarrow> bool \<Rightarrow> string list \<Rightarrow> 'w
     \<Rightarrow> (ui_error + string) \<times> string list \<times> 'w" where
  "reconcile_scope_filter uni_alnum lower exo scope_name_of existing_filter wanted_filter may_repoint warnings w =
     (case existing_filter of
        None \<Rightarrow> (Inr wanted_filter, warnings, w)
      | Some current \<Rightarrow>
          if scope_filter_agrees uni_alnum lower current wanted_filter then (Inr current, warnings, w)
          else if \<not> may_repoint then (Inl (mismatch_not_permitted scope_name_of), warnings, w)
          else (case repoint_scope_if_stale uni_alnum lower exo scope_name_of current wanted_filter warnings w of
                  (warnings, w) \<Rightarrow>
                    (case x_get_management_scope exo scope_name_of w of
                       (Inl e, w) \<Rightarrow> (Inl (ui_error_from e), warnings, w)
                     | (Inr after, w) \<Rightarrow>
                         (case Option.bind after ms_recipient_filter of
                            Some f \<Rightarrow>
                              if scope_filter_agrees uni_alnum lower f wanted_filter then (Inr f, warnings, w)
                              else (Inl (mismatch_after scope_name_of), warnings, w)
                          | None \<Rightarrow> (Inl (mismatch_after scope_name_of), warnings, w)))))"

section \<open>Moving a scope onto the managed group\<close>

record scope_consolidation_result =
  cr_app_id :: string
  cr_scope_name :: string
  cr_group_name :: string
  cr_previous_filter :: "string option"
  cr_scope_filter :: "string option"
  cr_members_copied :: "string list"
  cr_members_unverified :: "string list"
  cr_repointed :: bool
  cr_retired_groups :: "retired_scope_group list"
  cr_dry_run :: bool
  cr_incomplete :: bool
  cr_refused :: "string option"
  cr_warnings :: "string list"

definition already_managed ::
  "(string \<Rightarrow> string) \<Rightarrow> 'w exo \<Rightarrow> string \<Rightarrow> string list \<Rightarrow> 'w \<Rightarrow> bool \<times> 'w" where
  "already_managed lower exo name source_dns w =
     (case x_get_distribution_group exo name w of
        (Inr (Some managed), w) \<Rightarrow>
          (case eg_distinguished_name managed of
             Some dn \<Rightarrow> (list_all (\<lambda>s. same_dn lower s dn) source_dns, w)
           | None \<Rightarrow> (False, w))
      | (_, w) \<Rightarrow> (False, w))"

definition move_rejected :: "string \<Rightarrow> string \<Rightarrow> unrewritable_filter \<Rightarrow> ui_error" where
  "move_rejected scope_name_of current_filter why =
     ui_validation (case why of NoGroupClauses \<Rightarrow> ''no_scope_group'' | _ \<Rightarrow> ''unsupported_scope_filter'')
       (''management scope '' @ in_quotes scope_name_of @ '' can't be moved onto the toolkit-managed group because '' @ unrewritable_text why @ '' (filter: '' @ current_filter @ ''). Nothing was changed '' @ em_dash @ '' edit the scope in Exchange if this app should use the managed group.'')"

definition move_exchange_scope_to_managed_group ::
  "(string \<Rightarrow> bool) \<Rightarrow> (string \<Rightarrow> string) \<Rightarrow> 'w exo \<Rightarrow> tenant_defaults \<Rightarrow> string \<Rightarrow> string \<Rightarrow> bool \<Rightarrow> 'w
     \<Rightarrow> ('j, 'a) cache \<Rightarrow> (ui_error + scope_consolidation_result) \<times> 'w \<times> ('j, 'a) cache" where
  "move_exchange_scope_to_managed_group uni_alnum lower exo defaults tenant app dry_run w c =
     (let scope_name_of = scope_name_for defaults app;
          name = group_name_for defaults app
      in case x_get_management_scope exo scope_name_of w of
           (Inl e, w) \<Rightarrow> (Inl (ui_error_from e), w, c)
         | (Inr None, w) \<Rightarrow>
             (Inl (ui_validation ''no_management_scope'' (''no management scope named '' @ in_quotes scope_name_of @ '' exists for this app, so there is nothing to move. Use '' @ curly ''Grant scoped access'' @ '' to scope it to the managed group.'')), w, c)
         | (Inr (Some scope), w) \<Rightarrow>
             (case ms_recipient_filter scope of
                None \<Rightarrow> (Inl (ui_validation ''no_scope_filter'' (''management scope '' @ in_quotes scope_name_of @ '' has no recipient filter to read, so the mailboxes it covers can't be determined.'')), w, c)
              | Some current_filter \<Rightarrow>
                  (case rewritable_scope_dns uni_alnum current_filter of
                     Inl why \<Rightarrow> (Inl (move_rejected scope_name_of current_filter why), w, c)
                   | Inr source_dns \<Rightarrow>
                       (case already_managed lower exo name source_dns w of
                          (True, w) \<Rightarrow>
                            (Inr \<lparr>cr_app_id = app, cr_scope_name = scope_name_of, cr_group_name = name,
                                  cr_previous_filter = Some current_filter, cr_scope_filter = Some current_filter,
                                  cr_members_copied = [], cr_members_unverified = [], cr_repointed = False,
                                  cr_retired_groups = [], cr_dry_run = dry_run, cr_incomplete = False, cr_refused = None,
                                  cr_warnings = [''already scoped to the toolkit-managed group'']\<rparr>, w, c)
                        | (False, w) \<Rightarrow>
                            (case consolidate_scope_group uni_alnum lower exo app source_dns defaults dry_run
                                    (Some current_filter) [] w of
                               (con, warnings, w) \<Rightarrow>
                                 (let warnings = (case sc_refusal con of
                                                    Some why \<Rightarrow> filter (\<lambda>m. \<not> contains_str m why) warnings
                                                  | None \<Rightarrow> warnings)
                                  in if dry_run \<or> \<not> sc_consolidated con then
                                       (Inr \<lparr>cr_app_id = app, cr_scope_name = scope_name_of, cr_group_name = sc_group_name con,
                                             cr_previous_filter = Some current_filter, cr_scope_filter = Some current_filter,
                                             cr_members_copied = sc_copied con, cr_members_unverified = sc_unverified con,
                                             cr_repointed = False, cr_retired_groups = [], cr_dry_run = dry_run,
                                             cr_incomplete = sc_incomplete con, cr_refused = sc_refusal con,
                                             cr_warnings = warnings\<rparr>, w, c)
                                     else (let wanted_filter = member_of_group_filter (sc_scope_dns con)
                                           in case set_management_scope_filter uni_alnum lower exo scope_name_of wanted_filter w of
                                                (Inl e, w) \<Rightarrow> (Inl (ui_error_from e), w, c)
                                              | (Inr _, w) \<Rightarrow>
                                                  (case retired_scope_groups uni_alnum lower exo source_dns w of
                                                     (retired, w) \<Rightarrow>
                                                       (Inr \<lparr>cr_app_id = app, cr_scope_name = scope_name_of,
                                                             cr_group_name = sc_group_name con,
                                                             cr_previous_filter = Some current_filter,
                                                             cr_scope_filter = Some wanted_filter,
                                                             cr_members_copied = sc_copied con,
                                                             cr_members_unverified = sc_unverified con,
                                                             cr_repointed = True, cr_retired_groups = retired,
                                                             cr_dry_run = dry_run, cr_incomplete = False, cr_refused = None,
                                                             cr_warnings = warnings @ [retired_groups_note retired @ '' Exchange can take 30 min'' @ en_dash @ ''2 h to apply the change (the permission tester bypasses that cache).'']\<rparr>,
                                                        w, invalidate_app_detail_state tenant c)))))))))"

end
