(* ===== verification/Scope_Moves.thy ===== *)
theory Scope_Moves
  imports Scope_Group
begin

text \<open>
  What the commands of \<open>Scope_Group\<close> guarantee, whatever Exchange answers, whenever Cancel is pressed and
  in whatever order concurrent adds complete.
\<close>

section \<open>The copy accounts for every member\<close>

abbreviation outcome_keys :: "(source_member_id \<times> 'r) list \<Rightarrow> string list" where
  "outcome_keys os \<equiv> map (\<lambda>a. sm_key (fst a)) os"

lemma mset_remove_nth: "i < length xs \<Longrightarrow> add_mset (xs ! i) (mset (take i xs) + mset (drop (Suc i) xs)) = mset xs"
  by (metis id_take_nth_drop mset.simps(2) mset_append union_mset_add_mset_right)

lemma run_adds_mset:
  "run_adds exo g missing flight outcomes dead w = (outcomes', dead', w') \<Longrightarrow>
     mset (map fst outcomes') = mset (map fst outcomes) + mset flight + mset missing"
proof (induction exo g missing flight outcomes dead w rule: run_adds.induct)
  case (1 exo g missing flight outcomes dead w)
  let ?w = "x_tick exo w"
  show ?case
  proof (cases "flight = [] \<or> missing \<noteq> [] \<and> length flight < MEMBER_COPY_CONCURRENCY \<and> x_pick exo ?w = 0")
    case start: True
    show ?thesis
    proof (cases missing)
      case Nil
      with start 1(4) show ?thesis by (auto simp: run_adds.simps [of exo g "[]"] Let_def)
    next
      case (Cons m ms)
      show ?thesis
      proof (cases "x_cancelled exo ?w \<or> dead")
        case True
        then have "run_adds exo g ms flight (outcomes @ [(m, None)]) dead ?w = (outcomes', dead', w')"
          using 1(4) start Cons by (auto simp: run_adds.simps [of exo g "m # ms"] Let_def)
        from 1(1) [OF refl start Cons True this] Cons show ?thesis by simp
      next
        case False
        then have "run_adds exo g ms (flight @ [m]) outcomes dead ?w = (outcomes', dead', w')"
          using 1(4) start Cons by (auto simp: run_adds.simps [of exo g "m # ms"] Let_def)
        from 1(2) [OF refl start Cons False this] Cons show ?thesis by simp
      qed
    qed
  next
    case finish: False
    let ?i = "x_pick exo ?w mod length flight"
    obtain r v where add: "add_group_member exo g (sm_identity (flight ! ?i)) ?w = (r, v)" by (metis prod.exhaust)
    have "?i < length flight" using finish by simp
    note split = mset_remove_nth [OF this]
    have "run_adds exo g missing (take ?i flight @ drop (?i + 1) flight) (outcomes @ [(flight ! ?i, Some r)])
        (case r of Inl err \<Rightarrow> note_code dead (ui_code err) | Inr _ \<Rightarrow> dead) v = (outcomes', dead', w')"
      using 1(4) finish add by (auto simp: run_adds.simps [of exo g missing] Let_def)
    from 1(3) [OF refl finish refl refl add [symmetric] this] split show ?thesis by (simp add: ac_simps)
  qed
qed

text \<open>An add of a member that Exchange answered, in some state of the run.\<close>

definition add_answered :: "'w exo \<Rightarrow> string \<Rightarrow> source_member_id \<Rightarrow> exchange_error + unit \<Rightarrow> bool" where
  "add_answered exo g m r \<longleftrightarrow> (\<exists>v v'. add_group_member exo g (sm_identity m) v = (r, v'))"

lemma add_answeredI: "add_group_member exo g (sm_identity m) v = (r, v') \<Longrightarrow> add_answered exo g m r"
  by (auto simp: add_answered_def)

definition outcome_justified :: "'w exo \<Rightarrow> string \<Rightarrow> bool \<Rightarrow> add_outcome \<Rightarrow> bool" where
  "outcome_justified exo g dead oc \<longleftrightarrow>
     (case snd oc of Some r \<Rightarrow> add_answered exo g (fst oc) r | None \<Rightarrow> dead \<or> (\<exists>v. x_cancelled exo v))"

lemma outcome_justified_dead: "outcome_justified exo g dead oc \<Longrightarrow> dead \<longrightarrow> dead' \<Longrightarrow> outcome_justified exo g dead' oc"
  by (auto simp: outcome_justified_def split: option.splits)

lemma justified_skip: "outcome_justified exo g dead (m, None) \<longleftrightarrow> dead \<or> (\<exists>v. x_cancelled exo v)"
  "outcome_justified exo g dead (m, Some r) \<longleftrightarrow> add_answered exo g m r"
  by (simp_all add: outcome_justified_def)

lemma run_adds_justified:
  "run_adds exo g missing flight outcomes dead w = (outcomes', dead', w') \<Longrightarrow> list_all (outcome_justified exo g dead) outcomes \<Longrightarrow>
     list_all (outcome_justified exo g dead') outcomes' \<and> (dead \<longrightarrow> dead')"
proof (induction exo g missing flight outcomes dead w rule: run_adds.induct)
  case (1 exo g missing flight outcomes dead w)
  let ?w = "x_tick exo w"
  show ?case
  proof (cases "flight = [] \<or> missing \<noteq> [] \<and> length flight < MEMBER_COPY_CONCURRENCY \<and> x_pick exo ?w = 0")
    case start: True
    show ?thesis
    proof (cases missing)
      case Nil
      with start 1(4,5) show ?thesis by (auto simp: run_adds.simps [of exo g "[]"] Let_def)
    next
      case (Cons m ms)
      show ?thesis
      proof (cases "x_cancelled exo ?w \<or> dead")
        case True
        then have run: "run_adds exo g ms flight (outcomes @ [(m, None)]) dead ?w = (outcomes', dead', w')"
          using 1(4) start Cons by (auto simp: run_adds.simps [of exo g "m # ms"] Let_def)
        have "list_all (outcome_justified exo g dead) (outcomes @ [(m, None)])"
          using 1(5) True by (auto simp: justified_skip)
        from 1(1) [OF refl start Cons True run this] show ?thesis .
      next
        case False
        then have "run_adds exo g ms (flight @ [m]) outcomes dead ?w = (outcomes', dead', w')"
          using 1(4) start Cons by (auto simp: run_adds.simps [of exo g "m # ms"] Let_def)
        from 1(2) [OF refl start Cons False this 1(5)] show ?thesis .
      qed
    qed
  next
    case finish: False
    let ?i = "x_pick exo ?w mod length flight"
    obtain r v where add: "add_group_member exo g (sm_identity (flight ! ?i)) ?w = (r, v)" by (metis prod.exhaust)
    let ?dead = "case r of Inl err \<Rightarrow> note_code dead (ui_code err) | Inr _ \<Rightarrow> dead"
    have mono: "dead \<longrightarrow> ?dead" by (cases r) (simp_all add: note_code_def)
    have run: "run_adds exo g missing (take ?i flight @ drop (?i + 1) flight) (outcomes @ [(flight ! ?i, Some r)]) ?dead v = (outcomes', dead', w')"
      using 1(4) finish add by (auto simp: run_adds.simps [of exo g missing] Let_def)
    have "list_all (outcome_justified exo g ?dead) outcomes"
      using 1(5) by (rule list.pred_mono_strong) (rule outcome_justified_dead [OF _ mono])
    then have "list_all (outcome_justified exo g ?dead) (outcomes @ [(flight ! ?i, Some r)])"
      using add_answeredI [OF add] by (simp add: justified_skip)
    from 1(3) [OF refl finish refl refl add [symmetric] run this] mono show ?thesis by simp
  qed
qed

text \<open>Sorting the outcomes deals the members into landed, to be retried and skipped.\<close>

lemma sort_outcomes_deals:
  "sort_outcomes os copy retry = (copy', retry') \<Longrightarrow>
     \<exists>landed bad skipped. mset (map fst os) = mset landed + mset (map fst bad) + mset skipped \<and> retry' = retry @ bad
       \<and> set (mc_landed copy') = set (mc_landed copy) \<union> sm_key ` set landed \<and> (distinct (mc_landed copy) \<longrightarrow> distinct (mc_landed copy'))
       \<and> mc_failed copy' = mc_failed copy \<and> mc_not_attempted copy' = mc_not_attempted copy + length skipped
       \<and> (\<forall>m \<in> set landed. (m, Some (Inr ())) \<in> set os) \<and> (\<forall>(m, e) \<in> set bad. (m, Some (Inl e)) \<in> set os)
       \<and> (\<forall>m \<in> set skipped. (m, None) \<in> set os)"
proof (induction os copy retry rule: sort_outcomes.induct)
  case (1 copy retry)
  then show ?case by (intro exI [of _ "[]"]) simp
next
  case (2 m os copy retry)
  from 2(1) [OF 2(2) [unfolded sort_outcomes.simps]] obtain landed bad skipped where
    "mset (map fst os) = mset landed + mset (map fst bad) + mset skipped" "retry' = retry @ bad"
    "set (mc_landed copy') = set (mc_landed copy) \<union> sm_key ` set landed" "distinct (mc_landed copy) \<longrightarrow> distinct (mc_landed copy')"
    "mc_failed copy' = mc_failed copy" "mc_not_attempted copy' = Suc (mc_not_attempted copy) + length skipped"
    "\<forall>m \<in> set landed. (m, Some (Inr ())) \<in> set os" "\<forall>(m, e) \<in> set bad. (m, Some (Inl e)) \<in> set os" "\<forall>m \<in> set skipped. (m, None) \<in> set os"
    by auto
  then show ?case by (intro exI [of _ landed] exI [of _ bad] exI [of _ "m # skipped"]) auto
next
  case (3 m u os copy retry)
  from 3(1) [OF 3(2) [unfolded sort_outcomes.simps]] obtain landed bad skipped where
    "mset (map fst os) = mset landed + mset (map fst bad) + mset skipped" "retry' = retry @ bad"
    "set (mc_landed copy') = insert (sm_key m) (set (mc_landed copy)) \<union> sm_key ` set landed"
    "distinct (mc_landed copy) \<longrightarrow> distinct (mc_landed copy')"
    "mc_failed copy' = mc_failed copy" "mc_not_attempted copy' = mc_not_attempted copy + length skipped"
    "\<forall>m \<in> set landed. (m, Some (Inr ())) \<in> set os" "\<forall>(m, e) \<in> set bad. (m, Some (Inl e)) \<in> set os" "\<forall>m \<in> set skipped. (m, None) \<in> set os"
    by auto
  then show ?case by (intro exI [of _ "m # landed"] exI [of _ bad] exI [of _ skipped]) auto
next
  case (4 m err os copy retry)
  from 4(1) [OF 4(2) [unfolded sort_outcomes.simps]] obtain landed bad skipped where
    "mset (map fst os) = mset landed + mset (map fst bad) + mset skipped" "retry' = retry @ (m, err) # bad"
    "set (mc_landed copy') = set (mc_landed copy) \<union> sm_key ` set landed" "distinct (mc_landed copy) \<longrightarrow> distinct (mc_landed copy')"
    "mc_failed copy' = mc_failed copy" "mc_not_attempted copy' = mc_not_attempted copy + length skipped"
    "\<forall>m \<in> set landed. (m, Some (Inr ())) \<in> set os" "\<forall>(m, e) \<in> set bad. (m, Some (Inl e)) \<in> set os" "\<forall>m \<in> set skipped. (m, None) \<in> set os"
    by auto
  then show ?case by (intro exI [of _ landed] exI [of _ "(m, err) # bad"] exI [of _ skipped]) auto
qed

abbreviation reported_failure :: "'w exo \<Rightarrow> string \<Rightarrow> source_member_id \<Rightarrow> string \<times> exchange_error \<Rightarrow> bool" where
  "reported_failure exo g m f \<equiv> fst f = sm_identity m \<and> add_answered exo g m (Inl (snd f))"

text \<open>The retry pass deals what it was given into landed and failed.\<close>

lemma retry_adds_deals:
  "retry_adds exo g retry copy dead w = (copy', dead', w') \<Longrightarrow> list_all (\<lambda>(m, e). add_answered exo g m (Inl e)) retry \<Longrightarrow>
     \<exists>landed failed es. mset (map fst retry) = mset landed + mset failed
       \<and> set (mc_landed copy') = set (mc_landed copy) \<union> sm_key ` set landed \<and> (distinct (mc_landed copy) \<longrightarrow> distinct (mc_landed copy'))
       \<and> mc_failed copy' = mc_failed copy @ es \<and> list_all2 (reported_failure exo g) failed es
       \<and> mc_not_attempted copy' = mc_not_attempted copy
       \<and> (\<forall>m \<in> set landed. add_answered exo g m (Inr ())) \<and> (dead \<longrightarrow> dead')"
proof (induction exo g retry copy dead w rule: retry_adds.induct)
  case (1 exo g copy dead w)
  then show ?case by (intro exI [of _ "[]"]) simp
next
  case (2 exo g m first retry copy dead w)
  obtain r v where add: "add_group_member exo g (sm_identity m) w = (r, v)" by (metis prod.exhaust)
  note answered = add_answeredI [OF add]
  consider (stopped) "x_cancelled exo w \<or> dead" | (failed) err where "\<not> (x_cancelled exo w \<or> dead)" "r = Inl err"
    | (landed) "\<not> (x_cancelled exo w \<or> dead)" "r = Inr ()"
    by (cases r) auto
  then show ?case
  proof cases
    case stopped
    have "retry_adds exo g retry (copy\<lparr>mc_failed := mc_failed copy @ [(sm_identity m, first)]\<rparr>) dead w = (copy', dead', w')"
      using 2(4) stopped by simp
    from 2(1) [OF stopped this] 2(5) obtain landed failed es where
      "mset (map fst retry) = mset landed + mset failed" "set (mc_landed copy') = set (mc_landed copy) \<union> sm_key ` set landed"
      "distinct (mc_landed copy) \<longrightarrow> distinct (mc_landed copy')" "mc_failed copy' = mc_failed copy @ (sm_identity m, first) # es"
      "list_all2 (reported_failure exo g) failed es" "mc_not_attempted copy' = mc_not_attempted copy"
      "\<forall>m \<in> set landed. add_answered exo g m (Inr ())" "dead \<longrightarrow> dead'" by auto
    with 2(5) show ?thesis
      by (intro exI [of _ landed] exI [of _ "m # failed"] exI [of _ "(sm_identity m, first) # es"]) auto
  next
    case (failed err)
    have "retry_adds exo g retry (copy\<lparr>mc_failed := mc_failed copy @ [(sm_identity m, err)]\<rparr>) (note_code dead (ui_code err)) v
        = (copy', dead', w')"
      using 2(4) failed add by auto
    from 2(2) [OF failed(1) add [symmetric] failed(2) this] 2(5) failed(1) obtain landed failed' es where
      "mset (map fst retry) = mset landed + mset failed'" "set (mc_landed copy') = set (mc_landed copy) \<union> sm_key ` set landed"
      "distinct (mc_landed copy) \<longrightarrow> distinct (mc_landed copy')" "mc_failed copy' = mc_failed copy @ (sm_identity m, err) # es"
      "list_all2 (reported_failure exo g) failed' es" "mc_not_attempted copy' = mc_not_attempted copy"
      "\<forall>m \<in> set landed. add_answered exo g m (Inr ())" by auto
    with failed answered show ?thesis
      by (intro exI [of _ landed] exI [of _ "m # failed'"] exI [of _ "(sm_identity m, err) # es"]) auto
  next
    case landed
    have "retry_adds exo g retry (copy\<lparr>mc_landed := List.insert (sm_key m) (mc_landed copy)\<rparr>) dead v = (copy', dead', w')"
      using 2(4) landed add by auto
    from 2(3) [OF landed(1) add [symmetric] landed(2) this] 2(5) obtain landed' failed es where
      "mset (map fst retry) = mset landed' + mset failed"
      "set (mc_landed copy') = insert (sm_key m) (set (mc_landed copy)) \<union> sm_key ` set landed'"
      "distinct (mc_landed copy) \<longrightarrow> distinct (mc_landed copy')" "mc_failed copy' = mc_failed copy @ es"
      "list_all2 (reported_failure exo g) failed es" "mc_not_attempted copy' = mc_not_attempted copy"
      "\<forall>m \<in> set landed'. add_answered exo g m (Inr ())" "dead \<longrightarrow> dead'" by auto
    with landed answered show ?thesis
      by (intro exI [of _ "m # landed'"] exI [of _ failed] exI [of _ es]) auto
  qed
qed

text \<open>C33: \<^bold>\<open>The member copy accounts for every member.\<close>  Let the planned members have distinct keys.  Whatever the order of
  completion, the failures, a Cancel or a dead session, the members are dealt into landed, failed and not attempted, each
  into exactly one: the landed keys are those of the members that were there already or whose add Exchange answered with
  success; the failures are reported member by member, each under its own identity with an error Exchange answered to
  an add of it; the number not attempted is the number of the rest, which is not zero only after a Cancel or with a dead
  session.  So the reported number of members not copied never underflows.\<close>

theorem copy_members_accounts:
  assumes "distinct (map sm_key members)"
  shows "case copy_members exo g members already_in dead w of (copy, dead', w') \<Rightarrow>
    \<exists>landed failed skipped. mset members = mset landed + mset failed + mset skipped
      \<and> distinct (mc_landed copy) \<and> set (mc_landed copy) = sm_key ` set landed \<and> length (mc_landed copy) = length landed
      \<and> (\<forall>m \<in> set members. sm_key m \<in> set already_in \<longrightarrow> m \<in> set landed)
      \<and> (\<forall>m \<in> set landed. sm_key m \<in> set already_in \<or> (\<exists>v v'. add_group_member exo g (sm_identity m) v = (Inr (), v')))
      \<and> list_all2 (\<lambda>m (i, e). i = sm_identity m \<and> (\<exists>v v'. add_group_member exo g i v = (Inl e, v'))) failed (mc_failed copy)
      \<and> mc_not_attempted copy = length skipped \<and> (skipped \<noteq> [] \<longrightarrow> dead' \<or> (\<exists>v. x_cancelled exo v))"
proof -
  let ?present = "filter (\<lambda>m. sm_key m \<in> set already_in) members"
  let ?missing = "filter (\<lambda>m. sm_key m \<notin> set already_in) members"
  let ?copy = "\<lparr>mc_landed = remdups (map sm_key ?present), mc_failed = [], mc_not_attempted = 0\<rparr>"
  obtain os dead1 w1 where run: "run_adds exo g ?missing [] [] dead w = (os, dead1, w1)" by (metis prod_cases3)
  obtain copy1 retry where srt: "sort_outcomes os ?copy [] = (copy1, retry)" by (metis prod.exhaust)
  obtain copy2 dead2 w2 where ret: "retry_adds exo g retry copy1 dead1 w1 = (copy2, dead2, w2)" by (metis prod_cases3)
  have os: "mset (map fst os) = mset ?missing" using run_adds_mset [OF run] by simp
  have just: "list_all (outcome_justified exo g dead1) os" using run_adds_justified [OF run] by simp
  from sort_outcomes_deals [OF srt] obtain landed1 skipped where
    s: "mset (map fst os) = mset landed1 + mset (map fst retry) + mset skipped" "set (mc_landed copy1) = sm_key ` set ?present \<union> sm_key ` set landed1"
      "distinct (mc_landed copy1)" "mc_failed copy1 = []" "mc_not_attempted copy1 = length skipped"
      "\<forall>m \<in> set landed1. (m, Some (Inr ())) \<in> set os" "\<forall>(m, e) \<in> set retry. (m, Some (Inl e)) \<in> set os" "\<forall>m \<in> set skipped. (m, None) \<in> set os"
    by auto
  have "list_all (\<lambda>(m, e). add_answered exo g m (Inl e)) retry" and ok1: "\<forall>m \<in> set landed1. add_answered exo g m (Inr ())"
    and skip: "\<forall>m \<in> set skipped. dead1 \<or> (\<exists>v. x_cancelled exo v)"
    using s(6-8) just by (fastforce simp: list_all_iff justified_skip dest: bspec)+
  from retry_adds_deals [OF ret this(1)] obtain landed2 failed where
    t: "mset (map fst retry) = mset landed2 + mset failed" "set (mc_landed copy2) = set (mc_landed copy1) \<union> sm_key ` set landed2"
      "distinct (mc_landed copy2)" "list_all2 (reported_failure exo g) failed (mc_failed copy2)" "mc_not_attempted copy2 = length skipped"
      "\<forall>m \<in> set landed2. add_answered exo g m (Inr ())" "dead1 \<longrightarrow> dead2"
    using s(3-5) by auto
  let ?landed = "?present @ landed1 @ landed2"
  have "mset members = mset ?present + mset ?missing" by (simp add: multiset_partition [symmetric])
  moreover have "mset ?missing = mset landed1 + (mset landed2 + mset failed) + mset skipped" using os s(1) t(1) by simp
  ultimately have all: "mset members = mset ?landed + mset failed + mset skipped" by (simp only: mset_append ac_simps)
  have keys: "set (mc_landed copy2) = sm_key ` set ?landed" using s(2) t(2) by auto
  have "mset (map sm_key members) = mset (map sm_key (?landed @ failed @ skipped))"
    using arg_cong [OF all, of "image_mset sm_key"] by (simp only: mset_map mset_append image_mset_union ac_simps)
  then have "distinct (map sm_key (?landed @ failed @ skipped))" using assms mset_eq_imp_distinct_iff by blast
  then have "distinct (map sm_key ?landed)" by (metis distinct_append map_append)
  then have "card (sm_key ` set ?landed) = length ?landed" using distinct_card by (metis length_map set_map)
  then have len: "length (mc_landed copy2) = length ?landed" using distinct_card [OF t(3)] keys by simp
  have "list_all2 (\<lambda>m (i, e). i = sm_identity m \<and> (\<exists>v v'. add_group_member exo g i v = (Inl e, v'))) failed (mc_failed copy2)"
    using t(4) by (rule list_all2_mono) (clarsimp simp: add_answered_def, metis)
  moreover have "\<forall>m \<in> set ?landed. sm_key m \<in> set already_in \<or> (\<exists>v v'. add_group_member exo g (sm_identity m) v = (Inr (), v'))"
    using ok1 t(6) by (auto simp: add_answered_def)
  moreover have "skipped \<noteq> [] \<longrightarrow> dead2 \<or> (\<exists>v. x_cancelled exo v)" using skip t(7) by (cases skipped) auto
  moreover have "\<forall>m \<in> set members. sm_key m \<in> set already_in \<longrightarrow> m \<in> set ?landed" by simp
  moreover have "copy_members exo g members already_in dead w = (copy2, dead2, w2)" by (simp add: copy_members_def run srt ret)
  ultimately show ?thesis using all keys len t(3,5) by (simp only: prod.case) blast
qed

definition example_exo :: "nat exo" where
  "example_exo = \<lparr>x_get_group = \<lambda>_ w. (Inr None, w), x_get_distribution_group = \<lambda>_ w. (Inr None, w),
     x_new_distribution_group = \<lambda>n a w. (Inl (Network n), w), x_add_member = \<lambda>_ m w. (if even w then Inr () else Inl (Api 409 m), w + 1),
     x_remove_member = \<lambda>_ _ w. (Inr (), w), x_remove_distribution_group = \<lambda>_ w. (Inr (), w),
     x_list_group_members = \<lambda>_ w. (Inr [], w), x_get_management_scope = \<lambda>_ w. (Inr None, w),
     x_list_management_scopes = \<lambda>w. (Inr [], w), x_new_management_scope = \<lambda>n f w. (Inl (Network n), w),
     x_set_management_scope = \<lambda>_ _ w. (Inr None, w), x_get_application_access_policies = \<lambda>w. (Inr [], w),
     x_cancelled = \<lambda>w. w > 9, x_tick = Suc, x_pick = id\<rparr>"

definition example_members :: "source_member_id list" where
  "example_members = [\<lparr>sm_identity = ''A'', sm_key = ''a''\<rparr>, \<lparr>sm_identity = ''B'', sm_key = ''b''\<rparr>, \<lparr>sm_identity = ''C'', sm_key = ''c''\<rparr>,
     \<lparr>sm_identity = ''D'', sm_key = ''d''\<rparr>, \<lparr>sm_identity = ''E'', sm_key = ''e''\<rparr>]"

theorem copy_members_accounts_witness:
  "case copy_members example_exo ''g'' example_members [''a''] False 0 of
     (copy, _, _) \<Rightarrow> length (mc_landed copy) + length (mc_failed copy) + mc_not_attempted copy = 5
       \<and> list_all (\<lambda>(i, e). i \<in> sm_identity ` set example_members) (mc_failed copy)"
proof -
  obtain copy dead' w' where run: "copy_members example_exo ''g'' example_members [''a''] False 0 = (copy, dead', w')" by (metis prod_cases3)
  have "distinct (map sm_key example_members)" by (simp add: example_members_def)
  from copy_members_accounts [OF this, of "[''a'']" example_exo "''g''" False 0] run obtain landed failed skipped where
    d: "mset example_members = mset landed + mset failed + mset skipped" "length (mc_landed copy) = length landed"
      "list_all2 (\<lambda>m (i, e). i = sm_identity m \<and> (\<exists>v v'. add_group_member example_exo ''g'' i v = (Inl e, v'))) failed (mc_failed copy)"
      "mc_not_attempted copy = length skipped" by auto
  have "length landed + length failed + length skipped = 5" using arg_cong [OF d(1), of size] by (simp add: example_members_def)
  moreover have "set failed \<subseteq> set example_members" using arg_cong [OF d(1), of set_mset] by auto
  ultimately show ?thesis using run d(2-4) list_all2_lengthD [OF d(3)]
    by (fastforce simp: list_all_iff list_all2_conv_all_nth in_set_conv_nth split: prod.splits)
qed

section \<open>A consolidation keeps reach\<close>

definition source_keys :: "source_group_read list \<Rightarrow> string set" where
  "source_keys reads = (\<Union>(dn, r) \<in> set reads. case r of Inr ms \<Rightarrow> member_keys ms | Inl _ \<Rightarrow> {})"

definition all_readable :: "source_group_read list \<Rightarrow> bool" where
  "all_readable reads \<longleftrightarrow> list_all (\<lambda>(dn, r). case r of Inr ms \<Rightarrow> ms \<noteq> [] \<and> identifiable ms | Inl _ \<Rightarrow> False) reads"

lemma set_keys_of: "set (keys_of ms) = member_keys ms"
  by (induction ms) (auto simp: keys_of_def List.map_filter_simps split: option.splits)

lemma plan_source_membership_spec:
  assumes "plan_source_membership reads = Inr members"
  shows "all_readable reads \<and> sm_key ` set members = source_keys reads"
proof -
  have "plan_source_loop reads [] [] [] = (members, [])"
    using assms by (auto simp: plan_source_membership_def split: prod.splits if_splits)
  from plan_source_loop_spec [OF this] show ?thesis
    by (fastforce simp: all_readable_def source_keys_def list_all_iff)
qed

lemma verify_copy_spec:
  assumes "verify_copy ua lower exo name src members mdn skip ws w = (con, ws', w')"
  shows "if sc_consolidated con
    then \<exists>managed dn. x_list_group_members exo name w = (Inr managed, w') \<and> mdn = Some dn \<and> sc_scope_dns con = [dn]
      \<and> sm_key ` set members \<subseteq> member_keys managed
      \<and> (skip \<or> identifiable managed \<and> member_keys managed \<subseteq> sm_key ` set members)
    else sc_scope_dns con = src"
proof (cases "x_list_group_members exo name w")
  case (Pair r v)
  show ?thesis
  proof (cases r)
    case (Inl err)
    with assms Pair show ?thesis by (auto simp: verify_copy_def kept_def)
  next
    case (Inr managed)
    let ?plan = "plan_consolidation ua lower (member_of_group_filter src) mdn []
      (length (unverified_members members (keys_of managed))) (if skip then [] else extra_members members managed)"
    show ?thesis
    proof (cases ?plan)
      case (Inl why)
      with assms Pair Inr show ?thesis by (auto simp: verify_copy_def Let_def)
    next
      case plan: (Inr p)
      then obtain dn where "cp_scope_dns p = [dn]" "mdn = Some dn" "unverified_members members (keys_of managed) = []"
        "(if skip then [] else extra_members members managed) = []"
        unfolding plan_consolidation_accepts by auto
      with assms Pair Inr plan show ?thesis
        by (auto simp: verify_copy_def Let_def unverified_members_empty set_keys_of extra_members_empty split: if_splits)
    qed
  qed
qed

text \<open>The live scope names a group and nothing else.\<close>

definition scoped_to :: "(string \<Rightarrow> bool) \<Rightarrow> (string \<Rightarrow> string) \<Rightarrow> string option \<Rightarrow> string option \<Rightarrow> bool" where
  "scoped_to ua lower live_filter dn = (case (live_filter, dn) of (Some f, Some d) \<Rightarrow> filter_names_only_group ua lower f d | _ \<Rightarrow> False)"

lemma copy_and_verify_spec:
  assumes "copy_and_verify ua lower exo name src members lf live already ws w = (con, ws', w')"
  shows "(\<not> sc_consolidated con \<and> sc_scope_dns con = src)
    \<or> (\<exists>g u ws1 v. ensure_security_group exo name (sanitize_alias name) w = (Inr g, u)
        \<and> verify_copy ua lower exo name src members (eg_distinguished_name g) (live \<or> scoped_to ua lower lf (eg_distinguished_name g)) ws1 v
            = (con, ws', w'))"
proof (cases "x_cancelled exo w")
  case True
  with assms show ?thesis by (auto simp: copy_and_verify_def kept_def)
next
  case nc: False
  obtain r v where e: "ensure_security_group exo name (sanitize_alias name) w = (r, v)" by (metis prod.exhaust)
  show ?thesis
  proof (cases r)
    case (Inl err)
    with assms nc e show ?thesis by (auto simp: copy_and_verify_def kept_def)
  next
    case (Inr g)
    obtain copy dead u where c: "copy_members exo name members already False v = (copy, dead, u)" by (metis prod_cases3)
    show ?thesis
    proof (cases "mc_not_attempted copy > 0 \<or> x_cancelled exo u \<or> dead")
      case True
      with assms nc e Inr c show ?thesis by (auto simp: copy_and_verify_def kept_def Let_def)
    next
      case False
      with assms nc e Inr c show ?thesis
        by (auto simp: copy_and_verify_def Let_def scoped_to_def)
    qed
  qed
qed

lemma managed_is_live_spec:
  "managed_is_live ua lower exo name lf w = (True, w') \<Longrightarrow>
     \<exists>g. x_get_distribution_group exo name w = (Inr (Some g), w') \<and> scoped_to ua lower lf (eg_distinguished_name g)"
  by (auto simp: managed_is_live_def scoped_to_def split: option.split_asm prod.split_asm sum.split_asm)

lemma consolidate_cases:
  assumes res: "consolidate_scope_group ua lower exo app source_dns defaults dry_run live_filter warnings w = (con, ws', w')"
    and r: "read_groups exo source_dns w = (reads, w1)"
  defines "name \<equiv> group_name_for defaults app"
  shows "\<not> sc_consolidated con \<and> sc_scope_dns con = source_dns
     \<or> (\<exists>members live w2 w3 g u ws1 v. \<not> dry_run \<and> plan_source_membership reads = Inr members
          \<and> managed_is_live ua lower exo name live_filter w1 = (live, w2)
          \<and> ensure_security_group exo name (sanitize_alias name) w3 = (Inr g, u)
          \<and> verify_copy ua lower exo name source_dns members (eg_distinguished_name g)
              (live \<or> scoped_to ua lower live_filter (eg_distinguished_name g)) ws1 v = (con, ws', w'))"
proof (cases "plan_source_membership reads")
  case (Inl un)
  with res r show ?thesis by (auto simp: consolidate_scope_group_def kept_def Let_def)
next
  case (Inr members)
  obtain live w2 where l: "managed_is_live ua lower exo name live_filter w1 = (live, w2)" by (metis prod.exhaust)
  obtain pre ws2 w3 where p: "check_managed exo name members live dry_run warnings w2 = (pre, ws2, w3)" by (metis prod_cases3)
  show ?thesis
  proof (cases pre)
    case (Refused why)
    with res r Inr l p show ?thesis by (auto simp: consolidate_scope_group_def kept_def Let_def name_def)
  next
    case (Proceed refusal already)
    show ?thesis
    proof (cases dry_run)
      case True
      with res r Inr l p Proceed show ?thesis by (auto simp: consolidate_scope_group_def Let_def name_def)
    next
      case False
      then have "copy_and_verify ua lower exo name source_dns members live_filter live already ws2 w3 = (con, ws', w')"
        using res r Inr l p Proceed by (simp add: consolidate_scope_group_def Let_def name_def)
      from copy_and_verify_spec [OF this] False Inr l show ?thesis by blast
    qed
  qed
qed

text \<open>C4: \<^bold>\<open>A consolidation keeps reach.\<close>  When the consolidation says the scope should name the managed group, it
  was no dry run, every source group was read, was not empty and had only identifiable members; the one name it gives the
  scope is the distinguished name of the group it found or created under the application's group name; and the last thing
  it did was to read that group, which holds every source mailbox, and nothing beyond them unless the live scope already
  named that group alone (by the distinguished name of the group just ensured, or of the one looked up under that name
  right after the sources were read).  In every other outcome (refusal, error, cancel, dead session, dry run) the scope
  keeps its source groups.\<close>

theorem consolidation_preserves_reach:
  "case consolidate_scope_group ua lower exo app source_dns defaults dry_run live_filter warnings w of (con, _, w') \<Rightarrow>
     if sc_consolidated con
     then \<not> dry_run \<and> all_readable (fst (read_groups exo source_dns w))
       \<and> (\<exists>u g u' dn v managed.
            ensure_security_group exo (group_name_for defaults app) (sanitize_alias (group_name_for defaults app)) u = (Inr g, u')
            \<and> eg_distinguished_name g = Some dn \<and> sc_scope_dns con = [dn]
            \<and> x_list_group_members exo (group_name_for defaults app) v = (Inr managed, w')
            \<and> source_keys (fst (read_groups exo source_dns w)) \<subseteq> member_keys managed
            \<and> (member_keys managed = source_keys (fst (read_groups exo source_dns w)) \<and> identifiable managed
               \<or> (\<exists>f. live_filter = Some f \<and> filter_names_only_group ua lower f dn)
               \<or> (\<exists>f g' d u''. live_filter = Some f \<and> eg_distinguished_name g' = Some d \<and> filter_names_only_group ua lower f d
                    \<and> x_get_distribution_group exo (group_name_for defaults app) (snd (read_groups exo source_dns w)) = (Inr (Some g'), u''))))
     else sc_scope_dns con = source_dns"
proof -
  let ?name = "group_name_for defaults app"
  obtain con ws' w' where res: "consolidate_scope_group ua lower exo app source_dns defaults dry_run live_filter warnings w = (con, ws', w')"
    by (metis prod_cases3)
  obtain reads w1 where r: "read_groups exo source_dns w = (reads, w1)" by (metis prod.exhaust)
  from consolidate_cases [OF res r] show ?thesis
  proof (elim disjE exE conjE)
    assume "\<not> sc_consolidated con" "sc_scope_dns con = source_dns"
    then show ?thesis using res by simp
  next
    fix members live w2 w3 g u ws1 v
    assume "\<not> dry_run" and plan: "plan_source_membership reads = Inr members"
      and l: "managed_is_live ua lower exo ?name live_filter w1 = (live, w2)"
      and g: "ensure_security_group exo ?name (sanitize_alias ?name) w3 = (Inr g, u)"
      and v: "verify_copy ua lower exo ?name source_dns members (eg_distinguished_name g)
          (live \<or> scoped_to ua lower live_filter (eg_distinguished_name g)) ws1 v = (con, ws', w')"
    note src = plan_source_membership_spec [OF plan]
    have live: "live \<Longrightarrow> \<exists>f g' d u''. live_filter = Some f \<and> eg_distinguished_name g' = Some d \<and> filter_names_only_group ua lower f d
              \<and> x_get_distribution_group exo ?name w1 = (Inr (Some g'), u'')"
      using managed_is_live_spec [of ua lower exo ?name live_filter w1 w2] l by (auto simp: scoped_to_def split: option.splits)
    have ensured: "scoped_to ua lower live_filter (Some dn) \<Longrightarrow> \<exists>f. live_filter = Some f \<and> filter_names_only_group ua lower f dn" for dn
      by (auto simp: scoped_to_def split: option.splits)
    show ?thesis
    proof (cases "sc_consolidated con")
      case True
      with verify_copy_spec [OF v] obtain managed dn where m: "x_list_group_members exo ?name v = (Inr managed, w')"
        "eg_distinguished_name g = Some dn" "sc_scope_dns con = [dn]" "sm_key ` set members \<subseteq> member_keys managed"
        "live \<or> scoped_to ua lower live_filter (Some dn) \<or> identifiable managed \<and> member_keys managed \<subseteq> sm_key ` set members"
        by auto
      have reach: "member_keys managed = source_keys reads \<and> identifiable managed \<or> (\<exists>f. live_filter = Some f \<and> filter_names_only_group ua lower f dn)
         \<or> (\<exists>f g' d u''. live_filter = Some f \<and> eg_distinguished_name g' = Some d \<and> filter_names_only_group ua lower f d
              \<and> x_get_distribution_group exo ?name w1 = (Inr (Some g'), u''))"
        using m(5)
      proof (elim disjE)
        assume "identifiable managed \<and> member_keys managed \<subseteq> sm_key ` set members"
        with m(4) src show ?thesis by simp
      qed (use live ensured [of dn] in simp_all)
      from reach g m(1-4) src have "\<exists>u g u' dn v managed. ensure_security_group exo ?name (sanitize_alias ?name) u = (Inr g, u')
      \<and> eg_distinguished_name g = Some dn \<and> sc_scope_dns con = [dn] \<and> x_list_group_members exo ?name v = (Inr managed, w')
      \<and> source_keys reads \<subseteq> member_keys managed
      \<and> (member_keys managed = source_keys reads \<and> identifiable managed \<or> (\<exists>f. live_filter = Some f \<and> filter_names_only_group ua lower f dn)
         \<or> (\<exists>f g' d u''. live_filter = Some f \<and> eg_distinguished_name g' = Some d \<and> filter_names_only_group ua lower f d
              \<and> x_get_distribution_group exo ?name w1 = (Inr (Some g'), u'')))" by metis
      then show ?thesis unfolding res r using src \<open>\<not> dry_run\<close> True by simp
    next
      case False
      with verify_copy_spec [OF v] res show ?thesis by simp
    qed
  qed
qed

section \<open>Only an unreferenced group is deleted\<close>

lemma trim_end_Nil: "trim_end s = [] \<longleftrightarrow> is_blank s"
  by (cases s) (simp_all add: is_blank_def)

lemma blank_trim_start: "is_blank (trim_start s) \<longleftrightarrow> is_blank s"
  by (induction s rule: trim_start.induct) (simp_all add: is_blank_def)

lemma trim_Nil: "trim s = [] \<longleftrightarrow> is_blank s"
  by (simp add: trim_def trim_end_Nil blank_trim_start)

lemma map_filter_Nil: "List.map_filter f xs = [] \<longleftrightarrow> (\<forall>x \<in> set xs. f x = None)"
  by (induction xs) (auto simp: List.map_filter_simps split: option.splits)

lemma read_scope_unreferenced:
  assumes "scope_reference ua lower i scope = None" "ms_recipient_filter scope = Some f"
  shows "length (member_of_group_clauses ua f) = count_member_of_group f
         \<and> (\<forall>c \<in> set (member_of_group_clauses ua f). \<not> group_matches i (mc_dn c))
         \<and> (\<forall>d \<in> sg_dns (scope_groups_in_filter ua f). \<not> group_matches i d)
         \<and> (trim (gi_distinguished_name i) \<noteq> [] \<longrightarrow> \<not> contains_str (lower f) (lower (trim (gi_distinguished_name i))))"
  using assms by (auto simp: scope_reference_def scope_groups_in_filter_def named_in_text_def Let_def list_ex_iff split: if_splits)

lemma written_scope_reported:
  assumes "scope_reference ua lower g scope = None" and "ms_recipient_filter scope = Some (member_of_group_filter dns)"
    and "\<forall>d \<in> set dns. \<not> is_blank d" and "d \<in> set dns"
  shows "\<not> group_matches g d"
proof -
  have "\<not> list_ex (\<lambda>c. group_matches g (mc_dn c)) (clause_records 0 dns)"
    using assms(1,2) written_clauses(1) [OF assms(3), of ua]
    by (auto simp: scope_reference_def Let_def split: if_splits)
  then have "\<not> group_matches g x" if "x \<in> mc_dn ` set (clause_records 0 dns)" for x
    using that by (auto simp: list_ex_iff)
  with assms(4) show ?thesis by (simp add: clause_records_dns)
qed

lemma policy_reported:
  "policy_reference g p = None \<Longrightarrow> aap_scope_name p = Some s \<or> aap_scope_identity p = Some s \<Longrightarrow> \<not> group_matches g s"
  by (auto simp: policy_reference_def Let_def split: if_splits)

text \<open>C23: \<^bold>\<open>Only an unreferenced group is deleted.\<close>  The irreversible delete answers success only after it has found the
  group, read every management scope and every legacy policy in that order, and removed the group by the
  identity it checked.  Every filter of a scope was read in full: its reader found as many group clauses as the filter
  mentions group membership, none of the clauses it found names the group (whoever wrote the filter and whatever else
  the filter says), and the group's identity does not occur in the filter's text.  In a filter the toolkit wrote these clauses
  are the groups it was written for, so none of those names the group either.  No policy names it, and it is not
  the application's managed group.\<close>

theorem deleted_group_unreferenced:
  assumes "delete_exchange_scope_group ua lower exo defaults app identity w = (Inr (), w')"
  shows "\<exists>g w1 scopes w2 policies w3 i. x_get_distribution_group exo identity w = (Inr (Some g), w1)
    \<and> x_list_management_scopes exo w1 = (Inr scopes, w2) \<and> x_get_application_access_policies exo w2 = (Inr policies, w3)
    \<and> gi_distinguished_name i = (case eg_distinguished_name g of Some dn \<Rightarrow> dn | None \<Rightarrow> identity)
    \<and> gi_name i = eg_name g \<and> gi_primary_smtp_address i = eg_primary_smtp_address g
    \<and> x_remove_distribution_group exo (gi_distinguished_name i) w3 = (Inr (), w')
    \<and> \<not> group_matches i (group_name_for defaults app)
    \<and> (\<forall>scope \<in> set scopes. \<forall>f. ms_recipient_filter scope = Some f \<longrightarrow>
         length (member_of_group_clauses ua f) = count_member_of_group f
         \<and> (\<forall>c \<in> set (member_of_group_clauses ua f). \<not> group_matches i (mc_dn c))
         \<and> (\<forall>d \<in> sg_dns (scope_groups_in_filter ua f). \<not> group_matches i d)
         \<and> (trim (gi_distinguished_name i) \<noteq> [] \<longrightarrow> \<not> contains_str (lower f) (lower (trim (gi_distinguished_name i)))))
    \<and> (\<forall>scope \<in> set scopes. \<forall>dns. ms_recipient_filter scope = Some (member_of_group_filter dns) \<longrightarrow>
         (\<forall>d \<in> set dns. \<not> is_blank d) \<longrightarrow> (\<forall>d \<in> set dns. \<not> group_matches i d))
    \<and> (\<forall>p \<in> set policies. \<forall>s. aap_scope_name p = Some s \<or> aap_scope_identity p = Some s \<longrightarrow> \<not> group_matches i s)"
proof -
  obtain g w1 where g: "x_get_distribution_group exo identity w = (Inr (Some g), w1)"
    using assms by (auto simp: delete_exchange_scope_group_def split: prod.splits sum.splits option.splits)
  define i where "i = \<lparr>gi_distinguished_name = (case eg_distinguished_name g of Some dn \<Rightarrow> dn | None \<Rightarrow> identity),
                       gi_name = eg_name g, gi_primary_smtp_address = eg_primary_smtp_address g\<rparr>"
  obtain scopes w2 policies w3 where r: "x_list_management_scopes exo w1 = (Inr scopes, w2)"
      "x_get_application_access_policies exo w2 = (Inr policies, w3)"
      "references_to_group ua lower i scopes policies = []" "\<not> group_matches i (group_name_for defaults app)"
      "x_remove_distribution_group exo (gi_distinguished_name i) w3 = (Inr (), w')"
    using assms unfolding delete_exchange_scope_group_def g i_def [symmetric] Let_def
    by (auto simp: i_def [symmetric] Let_def split: prod.splits sum.splits if_splits)
  have scopes: "scope_reference ua lower i scope = None" if "scope \<in> set scopes" for scope
    using r(3) that by (simp add: references_to_group_def map_filter_Nil)
  have policies: "policy_reference i p = None" if "p \<in> set policies" for p
    using r(3) that by (simp add: references_to_group_def map_filter_Nil)
  have "\<forall>p \<in> set policies. \<forall>s. aap_scope_name p = Some s \<or> aap_scope_identity p = Some s \<longrightarrow> \<not> group_matches i s"
    using policy_reported [OF policies] by blast
  moreover have "\<forall>scope \<in> set scopes. \<forall>f. ms_recipient_filter scope = Some f \<longrightarrow>
         length (member_of_group_clauses ua f) = count_member_of_group f
         \<and> (\<forall>c \<in> set (member_of_group_clauses ua f). \<not> group_matches i (mc_dn c))
         \<and> (\<forall>d \<in> sg_dns (scope_groups_in_filter ua f). \<not> group_matches i d)
         \<and> (trim (gi_distinguished_name i) \<noteq> [] \<longrightarrow> \<not> contains_str (lower f) (lower (trim (gi_distinguished_name i))))"
    using read_scope_unreferenced [OF scopes] by blast
  moreover have "\<forall>scope \<in> set scopes. \<forall>dns. ms_recipient_filter scope = Some (member_of_group_filter dns) \<longrightarrow>
         (\<forall>d \<in> set dns. \<not> is_blank d) \<longrightarrow> (\<forall>d \<in> set dns. \<not> group_matches i d)"
    using written_scope_reported [OF scopes] by blast
  moreover have "gi_distinguished_name i = (case eg_distinguished_name g of Some dn \<Rightarrow> dn | None \<Rightarrow> identity)"
    "gi_name i = eg_name g" "gi_primary_smtp_address i = eg_primary_smtp_address g" by (simp_all add: i_def)
  ultimately show ?thesis using g r(1,2,4,5) by blast
qed

definition retired_group :: exo_group where
  "retired_group = \<lparr>eg_distinguished_name = Some ''CN=old'', eg_primary_smtp_address = None, eg_name = Some ''old'', eg_identity = None\<rparr>"

text \<open>A tenant where other groups are named by a hand-written compound filter, by a filter the toolkit wrote and by a policy.\<close>

definition busy_scopes :: "exo_management_scope list" where
  "busy_scopes =
     [\<lparr>ms_name = Some ''s1'', ms_identity = None, ms_recipient_filter = Some (''a -and '' @ member_of_group_filter [''CN=sales''])\<rparr>,
      \<lparr>ms_name = Some ''s2'', ms_identity = None, ms_recipient_filter = Some (member_of_group_filter [''CN=hr''])\<rparr>]"

definition busy_policies :: "exo_application_access_policy list" where
  "busy_policies = [\<lparr>aap_identity = Some ''p'', aap_app_id = Some ''a'', aap_scope_name = Some ''sales'', aap_scope_identity = Some ''CN=sales'',
     aap_access_right_of = Some RestrictAccess, aap_description = None\<rparr>]"

definition busy_exo :: "nat exo" where
  "busy_exo = example_exo\<lparr>x_get_distribution_group := \<lambda>_ w. (Inr (Some retired_group), w), x_list_management_scopes := \<lambda>w. (Inr busy_scopes, w),
     x_get_application_access_policies := \<lambda>w. (Inr busy_policies, w)\<rparr>"

theorem deleted_group_unreferenced_witness:
  "(case delete_exchange_scope_group (\<lambda>_. False) id busy_exo example_defaults ''app'' ''old'' 0 of (r, w) \<Rightarrow> \<not> isl r)
   \<and> (\<exists>i. gi_distinguished_name i = ''CN=old''
        \<and> list_all (\<lambda>scope. \<forall>f. ms_recipient_filter scope = Some f \<longrightarrow> length (member_of_group_clauses (\<lambda>_. False) f) = count_member_of_group f
             \<and> list_all (\<lambda>c. \<not> group_matches i (mc_dn c)) (member_of_group_clauses (\<lambda>_. False) f)) busy_scopes
        \<and> list_all (\<lambda>p. \<forall>s. aap_scope_name p = Some s \<longrightarrow> \<not> group_matches i s) busy_policies)"
proof -
  let ?i = "\<lparr>gi_distinguished_name = ''CN=old'', gi_name = Some ''old'', gi_primary_smtp_address = None\<rparr>"
  have "scope_reference (\<lambda>_. False) id ?i (busy_scopes ! 0) = None" by code_simp
  moreover have "scope_reference (\<lambda>_. False) id ?i (busy_scopes ! 1) = None" by code_simp
  moreover have "policy_reference ?i (busy_policies ! 0) = None" by code_simp
  moreover have "\<not> group_matches ?i (group_name_for example_defaults ''app'')" by code_simp
  ultimately have ok: "case delete_exchange_scope_group (\<lambda>_. False) id busy_exo example_defaults ''app'' ''old'' 0 of (r, w) \<Rightarrow> \<not> isl r"
    by (simp add: delete_exchange_scope_group_def busy_exo_def example_exo_def retired_group_def references_to_group_def List.map_filter_simps
        busy_scopes_def busy_policies_def)
  have "(case x of (r, w) \<Rightarrow> \<not> isl r) \<Longrightarrow> \<exists>w'. x = (Inr (), w')" for x :: "(ui_error + unit) \<times> nat"
    by (cases x; cases "fst x") auto
  from this [OF ok] obtain w' where "delete_exchange_scope_group (\<lambda>_. False) id busy_exo example_defaults ''app'' ''old'' 0 = (Inr (), w')" ..
  from deleted_group_unreferenced [OF this] obtain g w1 scopes w2 policies w3 i where
    d: "x_get_distribution_group busy_exo ''old'' 0 = (Inr (Some g), w1)" "x_list_management_scopes busy_exo w1 = (Inr scopes, w2)"
    "x_get_application_access_policies busy_exo w2 = (Inr policies, w3)"
    "gi_distinguished_name i = (case eg_distinguished_name g of Some dn \<Rightarrow> dn | None \<Rightarrow> ''old'')"
    "\<forall>scope \<in> set scopes. \<forall>f. ms_recipient_filter scope = Some f \<longrightarrow> length (member_of_group_clauses (\<lambda>_. False) f) = count_member_of_group f
       \<and> (\<forall>c \<in> set (member_of_group_clauses (\<lambda>_. False) f). \<not> group_matches i (mc_dn c))"
    "\<forall>p \<in> set policies. \<forall>s. aap_scope_name p = Some s \<or> aap_scope_identity p = Some s \<longrightarrow> \<not> group_matches i s"
    by (elim exE conjE) simp
  from d(1-3) have "g = retired_group" "scopes = busy_scopes" "policies = busy_policies" by (simp_all add: busy_exo_def)
  with d(4-6) have "gi_distinguished_name i = ''CN=old''"
    "list_all (\<lambda>scope. \<forall>f. ms_recipient_filter scope = Some f \<longrightarrow> length (member_of_group_clauses (\<lambda>_. False) f) = count_member_of_group f
             \<and> list_all (\<lambda>c. \<not> group_matches i (mc_dn c)) (member_of_group_clauses (\<lambda>_. False) f)) busy_scopes"
    "list_all (\<lambda>p. \<forall>s. aap_scope_name p = Some s \<longrightarrow> \<not> group_matches i s) busy_policies"
    by (simp_all add: retired_group_def list_all_iff)
  with ok show ?thesis by blast
qed

section \<open>Repointing is proved, and reported as it happened\<close>

lemma agrees_iff:
  "scope_filter_agrees ua lower f wanted \<longleftrightarrow>
     exact_scope_dns ua lower f \<noteq> None \<and> exact_scope_dns ua lower f = exact_scope_dns ua lower wanted"
  by (auto simp: scope_filter_agrees_def split: option.splits)

text \<open>C34: \<^bold>\<open>A filter in force is proved.\<close>  Reconciling an existing scope's filter succeeds only with a filter that names
  exactly the wanted groups and nothing else, read from Exchange after any repoint; without permission to
  repoint, a divergence is an error and nothing is called.\<close>

theorem reconciled_filter_proved:
  "case reconcile_scope_filter ua lower exo name (Some current) wanted may_repoint warnings w of (r, warnings', w') \<Rightarrow>
     (case r of
        Inr f \<Rightarrow> exact_scope_dns ua lower f \<noteq> None \<and> exact_scope_dns ua lower f = exact_scope_dns ua lower wanted
          \<and> (f = current \<or> may_repoint \<and> (\<exists>v scope. x_get_management_scope exo name v = (Inr (Some scope), w')
               \<and> ms_recipient_filter scope = Some f))
      | Inl _ \<Rightarrow> may_repoint \<or> w' = w \<and> warnings' = warnings)"
proof -
  have "case reconcile_scope_filter ua lower exo name (Some current) wanted may_repoint warnings w of (r, warnings', w') \<Rightarrow>
     (case r of
        Inr f \<Rightarrow> scope_filter_agrees ua lower f wanted
          \<and> (f = current \<or> may_repoint \<and> (\<exists>v scope. x_get_management_scope exo name v = (Inr (Some scope), w')
               \<and> ms_recipient_filter scope = Some f))
      | Inl _ \<Rightarrow> may_repoint \<or> w' = w \<and> warnings' = warnings)"
    by (auto simp: reconcile_scope_filter_def split: option.splits prod.splits sum.splits bind_splits if_splits)
  then show ?thesis unfolding agrees_iff by (simp only: conj_assoc)
qed

text \<open>\<^bold>\<open>A move reports what happened.\<close>  A move that reports a repointed scope was no dry run, the client proved that
  the filter now in force names exactly the groups of the reported filter, and the tenant's detail and audit
  caches were invalidated.  A move that fails or reports no repoint leaves the cache alone, reports the
  previous filter as the current one and offers no group for cleanup.\<close>

theorem move_reports_truth:
  "case move_exchange_scope_to_managed_group ua lower exo defaults tenant app dry_run w c of (r, _, c') \<Rightarrow>
     (case r of
        Inl _ \<Rightarrow> c' = c
      | Inr res \<Rightarrow>
          if cr_repointed res
          then \<not> dry_run \<and> c' = invalidate_app_detail_state tenant c
            \<and> (\<exists>f v v' scope g. cr_scope_filter res = Some f
                 \<and> set_management_scope_filter ua lower exo (scope_name_for defaults app) f v = (Inr scope, v')
                 \<and> ms_recipient_filter scope = Some g \<and> exact_scope_dns ua lower g \<noteq> None
                 \<and> exact_scope_dns ua lower g = exact_scope_dns ua lower f)
          else c' = c \<and> cr_scope_filter res = cr_previous_filter res \<and> cr_retired_groups res = [])"
proof -
  have A: "case move_exchange_scope_to_managed_group ua lower exo defaults tenant app dry_run w c of (r, _, c') \<Rightarrow>
     (case r of
        Inl _ \<Rightarrow> c' = c
      | Inr res \<Rightarrow>
          if cr_repointed res
          then \<not> dry_run \<and> c' = invalidate_app_detail_state tenant c
            \<and> (\<exists>f v v' scope. cr_scope_filter res = Some f
                 \<and> set_management_scope_filter ua lower exo (scope_name_for defaults app) f v = (Inr scope, v'))
          else c' = c \<and> cr_scope_filter res = cr_previous_filter res \<and> cr_retired_groups res = [])"
    by (auto simp: move_exchange_scope_to_managed_group_def Let_def split: prod.splits sum.splits option.splits bool.splits)
  have B: "\<exists>f v v' scope g. q = Some f
        \<and> set_management_scope_filter ua lower exo n f v = (Inr scope, v')
        \<and> ms_recipient_filter scope = Some g \<and> exact_scope_dns ua lower g \<noteq> None
        \<and> exact_scope_dns ua lower g = exact_scope_dns ua lower f"
    if "\<exists>f v v' scope. q = Some f \<and> set_management_scope_filter ua lower exo n f v = (Inr scope, v')" for q n
  proof -
    from that obtain f v v' scope where f: "q = Some f"
      and set: "set_management_scope_filter ua lower exo n f v = (Inr scope, v')" by blast
    from set_filter_landed [OF set] obtain g where "ms_recipient_filter scope = Some g" "exact_scope_dns ua lower g \<noteq> None"
      "exact_scope_dns ua lower g = exact_scope_dns ua lower f" by blast
    with f set show ?thesis by blast
  qed
  obtain r u c' where m: "move_exchange_scope_to_managed_group ua lower exo defaults tenant app dry_run w c = (r, u, c')"
    by (metis prod_cases3)
  show ?thesis
  proof (cases r)
    case (Inl e)
    with A m show ?thesis by simp
  next
    case (Inr res)
    with A m B [of "cr_scope_filter res" "scope_name_for defaults app"] show ?thesis by (simp split: if_splits)
  qed
qed

end
