(* ===== verification/Token_Store.thy ===== *)
theory Token_Store
  imports Toolkit_Prelude "HOL-Library.List_Lexorder" "HOL-Library.Char_ord"
begin

text \<open>
  Access- and refresh-token storage (\<^verbatim>\<open>crates/azapptoolkit-auth/src/token_cache.rs\<close>): the in-memory access tokens by
  tenant, scope set and capability, and the refresh token split over numbered entries of the OS credential
  store.  The store is code outside the repository: a record \<open>keyring\<close> of its operations over a state of its own, any
  operation of which may fail and in which other processes may act between two operations.  \<open>keyring_laws\<close> states what
  the store documents.  The lemmas show that a saved token is read back, that a failed save leaves either the old token
  or none, and that no crash and no second instance ever makes a load return a splice of two tokens.
\<close>

section \<open>Access tokens\<close>

record access_token =
  at_token :: string
  at_expires_at :: datetime
  at_scopes :: "string list"

definition num_seconds :: "int \<Rightarrow> int" where
  "num_seconds d = (if 0 \<le> d then d div 1000000000 else - ((- d) div 1000000000))"

definition needs_refresh :: "datetime \<Rightarrow> int \<Rightarrow> access_token \<Rightarrow> bool" where
  "needs_refresh now leeway_secs t \<longleftrightarrow> num_seconds (at_expires_at t - now) < leeway_secs"

definition scope_key :: "string list \<Rightarrow> string" where
  "scope_key scopes = join '' '' (remdups_adj (sort scopes))"

type_synonym token_cache = "((string \<times> string \<times> bool) \<times> access_token) list"

definition token_get :: "string \<Rightarrow> string list \<Rightarrow> bool \<Rightarrow> token_cache \<Rightarrow> access_token option" where
  "token_get tenant_id scopes cae c = map_of c (tenant_id, scope_key scopes, cae)"

definition token_put :: "string \<Rightarrow> string list \<Rightarrow> bool \<Rightarrow> access_token \<Rightarrow> token_cache \<Rightarrow> token_cache" where
  "token_put tenant_id scopes cae t c = AList.update (tenant_id, scope_key scopes, cae) t c"

definition token_invalidate_tenant :: "string \<Rightarrow> token_cache \<Rightarrow> token_cache" where
  "token_invalidate_tenant tenant_id c = filter (\<lambda>((t, _, _), _). t \<noteq> tenant_id) c"

section \<open>The credential store\<close>

text \<open>\<open>keyring_core::Error\<close>: a missing entry or any other failure, each with its rendering.\<close>

datatype keyring_error = NoEntry string | StoreFailure string

fun keyring_error_text :: "keyring_error \<Rightarrow> string" where
  "keyring_error_text (NoEntry t) = t"
| "keyring_error_text (StoreFailure t) = t"

record 's keyring =
  kr_default_store :: "'s \<Rightarrow> bool"
  kr_register_native :: "'s \<Rightarrow> string + 's"
  kr_entry :: "string \<Rightarrow> string \<Rightarrow> 's \<Rightarrow> keyring_error option"
  kr_set_password :: "string \<Rightarrow> string \<Rightarrow> string \<Rightarrow> 's \<Rightarrow> keyring_error option \<times> 's"
  kr_get_password :: "string \<Rightarrow> string \<Rightarrow> 's \<Rightarrow> (keyring_error + string) \<times> 's"
  kr_delete_credential :: "string \<Rightarrow> string \<Rightarrow> 's \<Rightarrow> keyring_error option \<times> 's"

datatype auth_error = Keyring string | KeyringUnavailable string

definition keyring_failed :: "keyring_error \<Rightarrow> auth_error" where
  "keyring_failed e = Keyring (keyring_error_text e)"

text \<open>One process: the memoised registration of the store (\<open>OnceLock\<close>) and the store it talks to.\<close>

record 's token_process =
  tp_registered :: "(string + unit) option"
  tp_store :: 's

definition register_store :: "'s keyring \<Rightarrow> 's \<Rightarrow> (string + unit) \<times> 's" where
  "register_store K s =
     (if kr_default_store K s then (Inr (), s)
      else (case kr_register_native K s of Inl e \<Rightarrow> (Inl e, s) | Inr s' \<Rightarrow> (Inr (), s')))"

definition ensure_keyring_store :: "'s keyring \<Rightarrow> 's token_process \<Rightarrow> auth_error option \<times> 's token_process" where
  "ensure_keyring_store K p =
     (let (r, p') = (case tp_registered p of
             Some r \<Rightarrow> (r, p)
           | None \<Rightarrow> (let (r, s') = register_store K (tp_store p)
                     in (r, p\<lparr>tp_registered := Some r, tp_store := s'\<rparr>)))
      in (case r of Inl e \<Rightarrow> Some (KeyringUnavailable e) | Inr _ \<Rightarrow> None, p'))"

section \<open>Chunks\<close>

definition KEYRING_SERVICE :: string where
  "KEYRING_SERVICE = ''azapptoolkit''"

definition MAX_CHUNK_UTF16_BYTES :: nat where
  "MAX_CHUNK_UTF16_BYTES = 2048"

definition CHUNK_GEN_PREFIX :: string where
  "CHUNK_GEN_PREFIX = ''azapp2:''"

definition CHUNK_COUNT_PREFIX :: string where
  "CHUNK_COUNT_PREFIX = ''azapp1:''"

definition CHUNK_GEN_LEN :: nat where
  "CHUNK_GEN_LEN = 16"

definition CHUNK_HEADER_RESERVE_UTF16_BYTES :: nat where
  "CHUNK_HEADER_RESERVE_UTF16_BYTES = 2 * (length CHUNK_GEN_PREFIX + 20 + 1 + CHUNK_GEN_LEN + 1)"

definition MAX_PAYLOAD_UTF16_BYTES :: nat where
  "MAX_PAYLOAD_UTF16_BYTES = MAX_CHUNK_UTF16_BYTES - CHUNK_HEADER_RESERVE_UTF16_BYTES"

definition chunk_account :: "string \<Rightarrow> string \<Rightarrow> nat \<Rightarrow> string" where
  "chunk_account tenant_id account_oid idx =
     (if idx = 0 then tenant_id @ '':'' @ account_oid
      else tenant_id @ '':'' @ account_oid @ ''#'' @ show_nat idx)"

definition encode_chunk :: "nat \<Rightarrow> nat \<Rightarrow> string \<Rightarrow> string \<Rightarrow> string" where
  "encode_chunk idx n_chunks chunk_gen payload =
     (if idx = 0 then CHUNK_GEN_PREFIX @ show_nat n_chunks @ '':'' @ chunk_gen @ '':'' @ payload
      else chunk_gen @ '':'' @ payload)"

datatype chunk_zero =
    Generation nat string string
  | ChunkCount nat string
  | Legacy string
  | Malformed

definition strip_prefix :: "string \<Rightarrow> string \<Rightarrow> string option" where
  "strip_prefix p s = (if starts_with s p then Some (drop (length p) s) else None)"

definition decode_chunk_zero :: "string \<Rightarrow> chunk_zero" where
  "decode_chunk_zero stored =
     (case strip_prefix CHUNK_GEN_PREFIX stored of
        Some rest \<Rightarrow>
          (case split_once (CHR '':'') rest of
             None \<Rightarrow> Malformed
           | Some (cnt, rest') \<Rightarrow>
               (case parse_usize cnt of
                  None \<Rightarrow> Malformed
                | Some n \<Rightarrow>
                    (case split_once (CHR '':'') rest' of
                       None \<Rightarrow> Malformed
                     | Some (g, payload) \<Rightarrow> Generation n g payload)))
      | None \<Rightarrow>
          (case strip_prefix CHUNK_COUNT_PREFIX stored of
             None \<Rightarrow> Legacy stored
           | Some rest \<Rightarrow>
               (case split_once (CHR '':'') rest of
                  None \<Rightarrow> Legacy stored
                | Some (cnt, payload) \<Rightarrow>
                    (case parse_usize cnt of None \<Rightarrow> Legacy stored | Some n \<Rightarrow> ChunkCount n payload))))"

text \<open>\<open>char_indices\<close> visits the bytes that are not UTF-8 continuation bytes; \<open>len_utf16\<close> is two units for a
  four-byte character and one otherwise.\<close>

definition utf16_width :: "char \<Rightarrow> nat" where
  "utf16_width c = (if utf8_continuation c then 0 else if 240 \<le> (of_char c :: nat) then 4 else 2)"

definition utf16_bytes :: "string \<Rightarrow> nat" where
  "utf16_bytes s = sum_list (map utf16_width s)"

fun split_chunks_loop :: "string \<Rightarrow> nat \<Rightarrow> string \<Rightarrow> string list" where
  "split_chunks_loop cur bytes [] = [cur]"
| "split_chunks_loop cur bytes (c # cs) =
     (if utf8_continuation c then split_chunks_loop (cur @ [c]) bytes cs
      else if 0 < bytes \<and> MAX_PAYLOAD_UTF16_BYTES < bytes + utf16_width c
      then cur # split_chunks_loop [c] (utf16_width c) cs
      else split_chunks_loop (cur @ [c]) (bytes + utf16_width c) cs)"

definition split_into_chunks :: "string \<Rightarrow> string list" where
  "split_into_chunks token = split_chunks_loop [] 0 token"

section \<open>Writing and deleting\<close>

text \<open>The loops run until the store says an entry is missing, so they take fuel; \<open>None\<close> is running out of it.
  \<open>write_loop\<close> returns the error, if any, and whether chunk 0 was replaced.\<close>

fun write_loop ::
  "'s keyring \<Rightarrow> string \<Rightarrow> string \<Rightarrow> string \<Rightarrow> nat \<Rightarrow> nat \<Rightarrow> string list \<Rightarrow> bool \<Rightarrow> 's
     \<Rightarrow> auth_error option \<times> bool \<times> 's" where
  "write_loop K tenant_id oid g n idx [] ow s = (None, ow, s)"
| "write_loop K tenant_id oid g n idx (c # cs) ow s =
     (let account = chunk_account tenant_id oid idx
      in case kr_entry K KEYRING_SERVICE account s of
           Some e \<Rightarrow> (Some (keyring_failed e), ow, s)
         | None \<Rightarrow>
             (case kr_set_password K KEYRING_SERVICE account (encode_chunk idx n g c) s of
                (Some e, s') \<Rightarrow> (Some (keyring_failed e), ow, s')
              | (None, s') \<Rightarrow> write_loop K tenant_id oid g n (Suc idx) cs (if idx = 0 then True else ow) s'))"

fun sweep_loop :: "nat \<Rightarrow> 's keyring \<Rightarrow> string \<Rightarrow> string \<Rightarrow> nat \<Rightarrow> 's \<Rightarrow> 's option" where
  "sweep_loop 0 K tenant_id oid idx s = None"
| "sweep_loop (Suc fuel) K tenant_id oid idx s =
     (let account = chunk_account tenant_id oid idx
      in case kr_entry K KEYRING_SERVICE account s of
           Some e \<Rightarrow> Some s
         | None \<Rightarrow>
             (case kr_delete_credential K KEYRING_SERVICE account s of
                (None, s') \<Rightarrow> sweep_loop fuel K tenant_id oid (Suc idx) s'
              | (Some (NoEntry t), s') \<Rightarrow> Some s'
              | (Some (StoreFailure t), s') \<Rightarrow> Some s'))"

definition write_chunks ::
  "nat \<Rightarrow> 's keyring \<Rightarrow> string \<Rightarrow> string \<Rightarrow> string \<Rightarrow> string \<Rightarrow> 's \<Rightarrow> (auth_error option \<times> bool \<times> 's) option" where
  "write_chunks fuel K tenant_id oid g token s =
     (let chunks = split_into_chunks token
      in case write_loop K tenant_id oid g (length chunks) 0 chunks False s of
           (Some e, ow, s') \<Rightarrow> Some (Some e, ow, s')
         | (None, ow, s') \<Rightarrow>
             map_option (\<lambda>s''. (None, ow, s'')) (sweep_loop fuel K tenant_id oid (length chunks) s'))"

definition GAP_TOLERANCE :: nat where
  "GAP_TOLERANCE = 4"

fun delete_loop ::
  "nat \<Rightarrow> 's keyring \<Rightarrow> string \<Rightarrow> string \<Rightarrow> nat \<Rightarrow> nat \<Rightarrow> 's \<Rightarrow> (auth_error option \<times> 's) option" where
  "delete_loop 0 K tenant_id oid idx missing_run s = None"
| "delete_loop (Suc fuel) K tenant_id oid idx missing_run s =
     (let account = chunk_account tenant_id oid idx
      in case kr_entry K KEYRING_SERVICE account s of
           Some e \<Rightarrow> Some (Some (keyring_failed e), s)
         | None \<Rightarrow>
             (case kr_delete_credential K KEYRING_SERVICE account s of
                (None, s') \<Rightarrow> delete_loop fuel K tenant_id oid (Suc idx) 0 s'
              | (Some (NoEntry t), s') \<Rightarrow>
                  if GAP_TOLERANCE \<le> missing_run + 1 then Some (None, s')
                  else delete_loop fuel K tenant_id oid (Suc idx) (missing_run + 1) s'
              | (Some (StoreFailure t), s') \<Rightarrow> Some (Some (Keyring t), s')))"

definition delete_chunks ::
  "nat \<Rightarrow> 's keyring \<Rightarrow> string \<Rightarrow> string \<Rightarrow> 's \<Rightarrow> (auth_error option \<times> 's) option" where
  "delete_chunks fuel K tenant_id oid s = delete_loop fuel K tenant_id oid 0 0 s"

text \<open>A save, under the chunk-set lock; \<open>still_current\<close> is the answer of its callback there and \<open>g\<close> the fresh
  generation.\<close>

definition save_refresh_token_if ::
  "nat \<Rightarrow> 's keyring \<Rightarrow> string \<Rightarrow> string \<Rightarrow> string \<Rightarrow> string \<Rightarrow> bool \<Rightarrow> 's token_process
     \<Rightarrow> ((auth_error + bool) \<times> 's token_process) option" where
  "save_refresh_token_if fuel K tenant_id oid g token still_current p =
     (case ensure_keyring_store K p of
        (Some e, p1) \<Rightarrow> Some (Inl e, p1)
      | (None, p1) \<Rightarrow>
          if \<not> still_current then Some (Inr False, p1)
          else (case write_chunks fuel K tenant_id oid g token (tp_store p1) of
                  None \<Rightarrow> None
                | Some (None, ow, s) \<Rightarrow> Some (Inr True, p1\<lparr>tp_store := s\<rparr>)
                | Some (Some e, ow, s) \<Rightarrow>
                    if ow then map_option (\<lambda>(_, s'). (Inl e, p1\<lparr>tp_store := s'\<rparr>)) (delete_chunks fuel K tenant_id oid s)
                    else Some (Inl e, p1\<lparr>tp_store := s\<rparr>)))"

definition save_refresh_token ::
  "nat \<Rightarrow> 's keyring \<Rightarrow> string \<Rightarrow> string \<Rightarrow> string \<Rightarrow> string \<Rightarrow> 's token_process
     \<Rightarrow> (auth_error option \<times> 's token_process) option" where
  "save_refresh_token fuel K tenant_id oid g token p =
     map_option (\<lambda>(r, p'). (case r of Inl e \<Rightarrow> Some e | Inr _ \<Rightarrow> None, p'))
       (save_refresh_token_if fuel K tenant_id oid g token True p)"

section \<open>Reading\<close>

record load_state =
  ls_combined :: string
  ls_idx :: nat
  ls_declared :: "nat option"
  ls_gen :: "string option"
  ls_mismatch :: bool

definition load_start :: load_state where
  "load_start = \<lparr>ls_combined = [], ls_idx = 0, ls_declared = None, ls_gen = None, ls_mismatch = False\<rparr>"

definition load_part :: "string \<Rightarrow> load_state \<Rightarrow> load_state" where
  "load_part part st =
     (let st1 = (if ls_idx st = 0 then
           (case decode_chunk_zero part of
              Generation n g payload \<Rightarrow>
                st\<lparr>ls_declared := Some n, ls_gen := Some g, ls_combined := ls_combined st @ payload\<rparr>
            | ChunkCount n payload \<Rightarrow> st\<lparr>ls_declared := Some n, ls_combined := ls_combined st @ payload\<rparr>
            | Legacy payload \<Rightarrow> st\<lparr>ls_combined := ls_combined st @ payload\<rparr>
            | Malformed \<Rightarrow> st\<lparr>ls_mismatch := True\<rparr>)
         else (case ls_gen st of
              Some g \<Rightarrow>
                (case split_once (CHR '':'') part of
                   Some (found, payload) \<Rightarrow>
                     if found = g then st\<lparr>ls_combined := ls_combined st @ payload\<rparr> else st\<lparr>ls_mismatch := True\<rparr>
                 | None \<Rightarrow> st\<lparr>ls_mismatch := True\<rparr>)
            | None \<Rightarrow> st\<lparr>ls_combined := ls_combined st @ part\<rparr>))
      in st1\<lparr>ls_idx := Suc (ls_idx st)\<rparr>)"

definition load_verdict :: "load_state \<Rightarrow> string option" where
  "load_verdict st =
     (if ls_idx st = 0 then None
      else if ls_mismatch st then None
      else (case ls_declared st of
              Some n \<Rightarrow> if n \<noteq> ls_idx st then None else Some (ls_combined st)
            | None \<Rightarrow> Some (ls_combined st)))"

fun load_loop ::
  "nat \<Rightarrow> 's keyring \<Rightarrow> string \<Rightarrow> string \<Rightarrow> load_state \<Rightarrow> 's \<Rightarrow> ((auth_error + string option) \<times> 's) option" where
  "load_loop 0 K tenant_id oid st s = None"
| "load_loop (Suc fuel) K tenant_id oid st s =
     (if ls_gen st \<noteq> None \<and> ls_declared st = Some (ls_idx st) then Some (Inr (load_verdict st), s)
      else
        (let account = chunk_account tenant_id oid (ls_idx st)
         in case kr_entry K KEYRING_SERVICE account s of
              Some e \<Rightarrow> Some (Inl (keyring_failed e), s)
            | None \<Rightarrow>
                (case kr_get_password K KEYRING_SERVICE account s of
                   (Inr part, s') \<Rightarrow> load_loop fuel K tenant_id oid (load_part part st) s'
                 | (Inl (NoEntry t), s') \<Rightarrow> Some (Inr (load_verdict st), s')
                 | (Inl (StoreFailure t), s') \<Rightarrow> Some (Inl (Keyring t), s'))))"

definition load_chunks ::
  "nat \<Rightarrow> 's keyring \<Rightarrow> string \<Rightarrow> string \<Rightarrow> 's \<Rightarrow> ((auth_error + string option) \<times> 's) option" where
  "load_chunks fuel K tenant_id oid s = load_loop fuel K tenant_id oid load_start s"

definition load_refresh_token ::
  "nat \<Rightarrow> 's keyring \<Rightarrow> string \<Rightarrow> string \<Rightarrow> 's token_process
     \<Rightarrow> ((auth_error + string option) \<times> 's token_process) option" where
  "load_refresh_token fuel K tenant_id oid p =
     (case ensure_keyring_store K p of
        (Some e, p1) \<Rightarrow> Some (Inl e, p1)
      | (None, p1) \<Rightarrow>
          map_option (\<lambda>(r, s). (r, p1\<lparr>tp_store := s\<rparr>)) (load_chunks fuel K tenant_id oid (tp_store p1)))"

section \<open>Deleting\<close>

definition delete_refresh_token_then ::
  "nat \<Rightarrow> 's keyring \<Rightarrow> string \<Rightarrow> string \<Rightarrow> ('e \<Rightarrow> 't \<times> 'e) \<Rightarrow> 'e \<Rightarrow> 's token_process
     \<Rightarrow> ((auth_error + 't) \<times> 'e \<times> 's token_process) option" where
  "delete_refresh_token_then fuel K tenant_id oid on_deleted epoch p =
     (case ensure_keyring_store K p of
        (Some e, p1) \<Rightarrow> Some (Inl e, epoch, p1)
      | (None, p1) \<Rightarrow>
          (case delete_chunks fuel K tenant_id oid (tp_store p1) of
             None \<Rightarrow> None
           | Some (Some e, s) \<Rightarrow> Some (Inl e, epoch, p1\<lparr>tp_store := s\<rparr>)
           | Some (None, s) \<Rightarrow> (let (t, epoch') = on_deleted epoch in Some (Inr t, epoch', p1\<lparr>tp_store := s\<rparr>))))"

definition delete_refresh_token_if ::
  "nat \<Rightarrow> 's keyring \<Rightarrow> string \<Rightarrow> string \<Rightarrow> bool \<Rightarrow> 's token_process
     \<Rightarrow> ((auth_error + bool) \<times> 's token_process) option" where
  "delete_refresh_token_if fuel K tenant_id oid still_current p =
     (case ensure_keyring_store K p of
        (Some e, p1) \<Rightarrow> Some (Inl e, p1)
      | (None, p1) \<Rightarrow>
          if \<not> still_current then Some (Inr False, p1)
          else (case delete_chunks fuel K tenant_id oid (tp_store p1) of
                  None \<Rightarrow> None
                | Some (Some e, s) \<Rightarrow> Some (Inl e, p1\<lparr>tp_store := s\<rparr>)
                | Some (None, s) \<Rightarrow> Some (Inr True, p1\<lparr>tp_store := s\<rparr>)))"

definition delete_refresh_token ::
  "nat \<Rightarrow> 's keyring \<Rightarrow> string \<Rightarrow> string \<Rightarrow> 's token_process \<Rightarrow> (auth_error option \<times> 's token_process) option" where
  "delete_refresh_token fuel K tenant_id oid p =
     (case ensure_keyring_store K p of
        (Some e, p1) \<Rightarrow> Some (Some e, p1)
      | (None, p1) \<Rightarrow>
          map_option (\<lambda>(r, s). (r, p1\<lparr>tp_store := s\<rparr>)) (delete_chunks fuel K tenant_id oid (tp_store p1)))"

datatype purge_outcome = Deleted | AlreadyGone | Superseded

definition delete_refresh_token_if_current ::
  "nat \<Rightarrow> 's keyring \<Rightarrow> string \<Rightarrow> string \<Rightarrow> string \<Rightarrow> 's token_process
     \<Rightarrow> ((auth_error + purge_outcome) \<times> 's token_process) option" where
  "delete_refresh_token_if_current fuel K tenant_id oid rejected p =
     (case ensure_keyring_store K p of
        (Some e, p1) \<Rightarrow> Some (Inl e, p1)
      | (None, p1) \<Rightarrow>
          (case load_chunks fuel K tenant_id oid (tp_store p1) of
             None \<Rightarrow> None
           | Some (Inl e, s) \<Rightarrow> Some (Inl e, p1\<lparr>tp_store := s\<rparr>)
           | Some (Inr found, s) \<Rightarrow>
               (let purge = (\<lambda>outcome. case delete_chunks fuel K tenant_id oid s of
                     None \<Rightarrow> None
                   | Some (Some e, s') \<Rightarrow> Some (Inl e, p1\<lparr>tp_store := s'\<rparr>)
                   | Some (None, s') \<Rightarrow> Some (Inr outcome, p1\<lparr>tp_store := s'\<rparr>))
                in case found of
                     Some current \<Rightarrow>
                       if current \<noteq> rejected then Some (Inr Superseded, p1\<lparr>tp_store := s\<rparr>) else purge Deleted
                   | None \<Rightarrow> purge AlreadyGone)))"

section \<open>Lemmas on chunks\<close>

lemma split_chunks_loop_nonempty [simp]: "split_chunks_loop cur bytes cs \<noteq> []"
  by (induction cur bytes cs rule: split_chunks_loop.induct) auto

lemma concat_split_chunks_loop: "concat (split_chunks_loop cur bytes cs) = cur @ cs"
  by (induction cur bytes cs rule: split_chunks_loop.induct) auto

lemma concat_split_into_chunks: "concat (split_into_chunks token) = token"
  by (simp add: split_into_chunks_def concat_split_chunks_loop)

lemma split_into_chunks_nonempty [simp]: "split_into_chunks token \<noteq> []"
  by (simp add: split_into_chunks_def)

lemma length_split_chunks_loop: "length (split_chunks_loop cur bytes cs) \<le> Suc (length cs)"
  by (induction cur bytes cs rule: split_chunks_loop.induct) auto

lemma utf16_bytes_append [simp]: "utf16_bytes (a @ b) = utf16_bytes a + utf16_bytes b"
  by (simp add: utf16_bytes_def)

lemma payload_limit: "MAX_PAYLOAD_UTF16_BYTES = 1958"
  by (simp add: MAX_PAYLOAD_UTF16_BYTES_def MAX_CHUNK_UTF16_BYTES_def CHUNK_HEADER_RESERVE_UTF16_BYTES_def
      CHUNK_GEN_PREFIX_def CHUNK_GEN_LEN_def)

lemma split_chunks_loop_fits:
  assumes "utf16_bytes cur = bytes" and "bytes \<le> MAX_PAYLOAD_UTF16_BYTES"
  shows "\<forall>c \<in> set (split_chunks_loop cur bytes cs). utf16_bytes c \<le> MAX_PAYLOAD_UTF16_BYTES"
  using assms
proof (induction cur bytes cs rule: split_chunks_loop.induct)
  case (2 cur bytes c cs)
  have w: "utf16_bytes [c] = utf16_width c" "utf16_width c \<le> 4" "utf8_continuation c \<Longrightarrow> utf16_width c = 0"
    by (auto simp: utf16_bytes_def utf16_width_def)
  show ?case
    using 2 w by (auto simp: payload_limit simp del: split_chunks_loop.simps simp: split_chunks_loop.simps(2) [of cur bytes c cs])
qed simp

lemma ascii_utf16_bytes: "\<forall>c \<in> set s. (of_char c :: nat) < 128 \<Longrightarrow> utf16_bytes s = 2 * length s"
  by (induction s) (auto simp: utf16_bytes_def utf16_width_def utf8_continuation_def)

lemma decode_encode_zero:
  assumes "n < 2 ^ 64" and "CHR '':'' \<notin> set g"
  shows "decode_chunk_zero (encode_chunk 0 n g payload) = Generation n g payload"
proof -
  have "CHR '':'' \<notin> set (show_nat n)" using show_nat_digits [of n] by (auto simp: list_all_iff is_digit_def)
  then show ?thesis
    using assms
    by (simp add: decode_chunk_zero_def encode_chunk_def strip_prefix_def split_once_first parse_usize_show)
qed

lemma show_nat_inject: "show_nat m = show_nat n \<longleftrightarrow> m = n"
proof
  assume "show_nat m = show_nat n"
  then have "parse_digits (m + n + 10) 0 (show_nat m) = parse_digits (m + n + 10) 0 (show_nat n)" by simp
  then show "m = n" by (simp add: parse_digits_show)
qed simp

lemma chunk_account_inject [simp]: "chunk_account t oid i = chunk_account t oid j \<longleftrightarrow> i = j"
  by (auto simp: chunk_account_def show_nat_inject)

section \<open>What the store promises\<close>

text \<open>The documented behaviour of the credential store, on a view of the entries it holds for this service: a write
  that succeeds replaces one entry, a delete that succeeds removes one, an operation that fails changes none.\<close>

definition keyring_laws :: "'s keyring \<Rightarrow> ('s \<Rightarrow> string \<Rightarrow> string option) \<Rightarrow> bool" where
  "keyring_laws K view \<longleftrightarrow>
     (\<forall>a v s r s'. kr_set_password K KEYRING_SERVICE a v s = (r, s')
        \<longrightarrow> view s' = (if r = None then (view s)(a \<mapsto> v) else view s))
     \<and> (\<forall>a s r s'. kr_get_password K KEYRING_SERVICE a s = (r, s')
        \<longrightarrow> view s' = view s \<and> (\<forall>v. r = Inr v \<longrightarrow> view s a = Some v) \<and> (\<forall>t. r = Inl (NoEntry t) \<longrightarrow> view s a = None))
     \<and> (\<forall>a s r s'. kr_delete_credential K KEYRING_SERVICE a s = (r, s')
        \<longrightarrow> view s' = (if r = None then (view s)(a := None) else view s) \<and> (\<forall>t. r = Some (NoEntry t) \<longrightarrow> view s a = None))
     \<and> (\<forall>s s'. kr_register_native K s = Inr s' \<longrightarrow> view s' = view s)"

lemma keyring_lawsD:
  assumes "keyring_laws K view"
  shows "kr_set_password K KEYRING_SERVICE a v s = (r, s')
      \<Longrightarrow> view s' = (if r = None then (view s)(a \<mapsto> v) else view s)"
    and "kr_get_password K KEYRING_SERVICE a s = (q, s')
      \<Longrightarrow> view s' = view s \<and> (\<forall>v. q = Inr v \<longrightarrow> view s a = Some v) \<and> (\<forall>t. q = Inl (NoEntry t) \<longrightarrow> view s a = None)"
    and "kr_delete_credential K KEYRING_SERVICE a s = (r, s')
      \<Longrightarrow> view s' = (if r = None then (view s)(a := None) else view s) \<and> (\<forall>t. r = Some (NoEntry t) \<longrightarrow> view s a = None)"
    and "kr_register_native K s = Inr s' \<Longrightarrow> view s' = view s"
  using assms unfolding keyring_laws_def by metis+

lemma ensure_keyring_view:
  assumes "keyring_laws K view" and "ensure_keyring_store K p = (r, p1)"
  shows "view (tp_store p1) = view (tp_store p)" and "r = None \<Longrightarrow> tp_registered p1 = Some (Inr ())"
  using assms keyring_lawsD(4) [OF assms(1)]
  by (auto simp: ensure_keyring_store_def register_store_def Let_def split: option.splits sum.splits if_splits prod.splits)

text \<open>The writes that produced the stored chunks: a generation and the token written under it.\<close>

definition chunk_of_write :: "string \<times> string \<Rightarrow> nat \<Rightarrow> string \<Rightarrow> bool" where
  "chunk_of_write w idx v \<longleftrightarrow>
     idx < length (split_into_chunks (snd w))
     \<and> v = encode_chunk idx (length (split_into_chunks (snd w))) (fst w) (split_into_chunks (snd w) ! idx)"

text \<open>Generations are fresh per write and drawn from the base64url alphabet; a token is a Rust string, so its length
  fits a \<open>usize\<close>.\<close>

definition fresh_writes :: "(string \<times> string) set \<Rightarrow> bool" where
  "fresh_writes W \<longleftrightarrow> inj_on fst W \<and> (\<forall>w \<in> W. CHR '':'' \<notin> set (fst w) \<and> length (snd w) < 2 ^ 63)"

definition stored_from :: "(string \<times> string) set \<Rightarrow> string \<Rightarrow> string \<Rightarrow> (string \<Rightarrow> string option) \<Rightarrow> bool" where
  "stored_from W tenant_id oid m \<longleftrightarrow>
     (\<forall>idx v. m (chunk_account tenant_id oid idx) = Some v \<longrightarrow> (\<exists>w \<in> W. chunk_of_write w idx v))"

lemma write_count: "length (snd w) < 2 ^ 63 \<Longrightarrow> length (split_into_chunks (snd w)) < 2 ^ 64"
  using length_split_chunks_loop [of "[]" 0 "snd w"] by (simp add: split_into_chunks_def)

section \<open>Lemmas on the loops\<close>

text \<open>What a write leaves behind.  On success every chunk is in place and \<open>chunk 0\<close> was replaced; on failure at chunk
  \<open>k\<close> exactly the chunks before it were, and the rest of the store is as it was.\<close>

definition chunks_written ::
  "string \<Rightarrow> string \<Rightarrow> string \<Rightarrow> nat \<Rightarrow> string list \<Rightarrow> nat \<Rightarrow> nat \<Rightarrow> (string \<Rightarrow> string option) \<Rightarrow> (string \<Rightarrow> string option) \<Rightarrow> bool" where
  "chunks_written tenant_id oid g n cs idx k m m' \<longleftrightarrow>
     (\<forall>i < k. m' (chunk_account tenant_id oid (idx + i)) = Some (encode_chunk (idx + i) n g (cs ! i)))
     \<and> (\<forall>a. a \<notin> (\<lambda>i. chunk_account tenant_id oid (idx + i)) ` {..<k} \<longrightarrow> m' a = m a)"

lemma chunks_written_Cons:
  assumes "chunks_written tenant_id oid g n cs (Suc idx) k (m(chunk_account tenant_id oid idx \<mapsto> encode_chunk idx n g c)) m'"
  shows "chunks_written tenant_id oid g n (c # cs) idx (Suc k) m m'"
proof -
  have image: "(\<lambda>i. chunk_account tenant_id oid (idx + i)) ` {..<Suc k}
      = insert (chunk_account tenant_id oid idx) ((\<lambda>i. chunk_account tenant_id oid (Suc idx + i)) ` {..<k})"
    by (simp add: lessThan_Suc_eq_insert_0 image_image)
  have "chunk_account tenant_id oid idx \<notin> (\<lambda>i. chunk_account tenant_id oid (Suc idx + i)) ` {..<k}" by auto
  with assms have "m' (chunk_account tenant_id oid idx) = Some (encode_chunk idx n g c)"
    by (auto simp: chunks_written_def)
  moreover have "m' (chunk_account tenant_id oid (idx + Suc i)) = Some (encode_chunk (idx + Suc i) n g (cs ! i))" if "i < k" for i
    using assms that by (simp add: chunks_written_def)
  ultimately show ?thesis
    using assms unfolding chunks_written_def image by (auto simp: less_Suc_eq_0_disj)
qed

lemma write_loop_spec:
  assumes laws: "keyring_laws K view"
    and "write_loop K tenant_id oid g n idx cs ow s = (r, ow', s')"
  shows "\<exists>k \<le> length cs. (r = None \<longleftrightarrow> k = length cs) \<and> ow' = (ow \<or> idx = 0 \<and> 0 < k)
           \<and> chunks_written tenant_id oid g n cs idx k (view s) (view s')"
  using assms(2)
proof (induction cs arbitrary: idx ow s)
  case Nil
  then show ?case by (auto simp: chunks_written_def)
next
  case (Cons c cs)
  let ?a = "chunk_account tenant_id oid idx"
  have stop: ?case if "r \<noteq> None" "ow' = ow" "view s' = view s"
    using that by (intro exI [of _ 0]) (auto simp: chunks_written_def)
  show ?case
  proof (cases "kr_entry K KEYRING_SERVICE ?a s")
    case (Some e)
    with Cons.prems show ?thesis by (intro stop) auto
  next
    case None
    obtain q s1 where set: "kr_set_password K KEYRING_SERVICE ?a (encode_chunk idx n g c) s = (q, s1)" by fastforce
    note view1 = keyring_lawsD(1) [OF laws set]
    show ?thesis
    proof (cases q)
      case (Some e)
      with Cons.prems None set view1 show ?thesis by (intro stop) auto
    next
      case q: None
      from Cons.prems None set q
      have "write_loop K tenant_id oid g n (Suc idx) cs (if idx = 0 then True else ow) s1 = (r, ow', s')" by simp
      from Cons.IH [OF this] obtain k where k: "k \<le> length cs" "r = None \<longleftrightarrow> k = length cs"
        "ow' = (if idx = 0 then True else ow)" "chunks_written tenant_id oid g n cs (Suc idx) k (view s1) (view s')"
        by auto
      with q view1 have "chunks_written tenant_id oid g n (c # cs) idx (Suc k) (view s) (view s')"
        by (intro chunks_written_Cons) simp
      with k show ?thesis by (intro exI [of _ "Suc k"]) auto
    qed
  qed
qed

lemma sweep_loop_spec:
  assumes laws: "keyring_laws K view" and "sweep_loop fuel K tenant_id oid idx s = Some s'"
  shows "(\<forall>a. a \<notin> chunk_account tenant_id oid ` {idx..} \<longrightarrow> view s' a = view s a)
       \<and> (\<forall>a. view s' a = view s a \<or> view s' a = None)"
  using assms(2)
proof (induction fuel arbitrary: idx s)
  case (Suc fuel)
  let ?a = "chunk_account tenant_id oid idx"
  obtain q s1 where del: "kr_delete_credential K KEYRING_SERVICE ?a s = (q, s1)" by fastforce
  note view1 = keyring_lawsD(3) [OF laws del]
  show ?case
  proof (cases "kr_entry K KEYRING_SERVICE ?a s = None \<and> q = None")
    case True
    with Suc.prems del have "sweep_loop fuel K tenant_id oid (Suc idx) s1 = Some s'" by simp
    from Suc.IH [OF this] view1 True
    have rest: "\<forall>a. a \<notin> chunk_account tenant_id oid ` {Suc idx..} \<longrightarrow> view s' a = ((view s)(?a := None)) a"
      "\<forall>a. view s' a = ((view s)(?a := None)) a \<or> view s' a = None" by simp_all
    have "{idx..} = insert idx {Suc idx..}" by auto
    with rest(1) have "\<forall>a. a \<notin> chunk_account tenant_id oid ` {idx..} \<longrightarrow> view s' a = view s a" by simp
    moreover from rest(2) have "view s' a = view s a \<or> view s' a = None" for a
      by (cases "a = ?a") (use rest(2) in \<open>auto simp: fun_upd_def split: if_splits\<close>)
    ultimately show ?thesis by blast
  next
    case False
    then have "s' = s \<or> q \<noteq> None \<and> s' = s1"
      using Suc.prems del
      by (cases "kr_entry K KEYRING_SERVICE ?a s"; cases q; cases "the q") (auto simp: Let_def)
    with view1 show ?thesis by auto
  qed
qed simp

text \<open>A delete that reports success visited a stretch of numbers that ends in four missing entries, and emptied it; in
  every case it only removes chunks of this account.\<close>

lemma delete_loop_spec:
  assumes laws: "keyring_laws K view" and "delete_loop fuel K tenant_id oid idx missing s = Some (r, s')"
    and "missing \<le> idx" and "missing < GAP_TOLERANCE"
    and "\<forall>i < idx. view s (chunk_account tenant_id oid i) = None"
    and "\<forall>i. idx - missing \<le> i \<and> i < idx \<longrightarrow> m (chunk_account tenant_id oid i) = None"
    and "\<forall>i \<ge> idx. view s (chunk_account tenant_id oid i) = m (chunk_account tenant_id oid i)"
  shows "(\<forall>a. view s' a = view s a \<or> view s' a = None \<and> a \<in> range (chunk_account tenant_id oid))
       \<and> (r = None \<longrightarrow> (\<exists>e \<ge> idx - missing. (\<forall>i < e + GAP_TOLERANCE. view s' (chunk_account tenant_id oid i) = None)
            \<and> (\<forall>i < GAP_TOLERANCE. m (chunk_account tenant_id oid (e + i)) = None)))"
  using assms(2-)
proof (induction fuel arbitrary: idx missing s)
  case (Suc fuel)
  let ?a = "chunk_account tenant_id oid"
  obtain q s1 where del: "kr_delete_credential K KEYRING_SERVICE (?a idx) s = (q, s1)" by fastforce
  note view1 = keyring_lawsD(3) [OF laws del]
  consider (fail) "kr_entry K KEYRING_SERVICE (?a idx) s \<noteq> None \<or> (\<exists>t. q = Some (StoreFailure t))"
    | (gone) "kr_entry K KEYRING_SERVICE (?a idx) s = None" "q = None"
    | (miss) t where "kr_entry K KEYRING_SERVICE (?a idx) s = None" "q = Some (NoEntry t)"
    by (metis keyring_error.exhaust not_None_eq)
  then show ?case
  proof cases
    case fail
    with Suc.prems(1) del have "r \<noteq> None \<and> (s' = s \<or> s' = s1)"
      by (cases "kr_entry K KEYRING_SERVICE (?a idx) s") auto
    moreover have "view s1 = view s \<or> s' \<noteq> s1"
      using fail Suc.prems(1) del view1 by (cases "kr_entry K KEYRING_SERVICE (?a idx) s") auto
    ultimately show ?thesis by auto
  next
    case gone
    with Suc.prems del have "delete_loop fuel K tenant_id oid (Suc idx) 0 s1 = Some (r, s')" by simp
    moreover have view2: "view s1 = (view s)(?a idx := None)" using view1 gone by simp
    ultimately have ih: "(\<forall>a. view s' a = view s1 a \<or> view s' a = None \<and> a \<in> range ?a)
        \<and> (r = None \<longrightarrow> (\<exists>e \<ge> Suc idx - 0. (\<forall>i < e + GAP_TOLERANCE. view s' (?a i) = None)
             \<and> (\<forall>i < GAP_TOLERANCE. m (?a (e + i)) = None)))"
      by (intro Suc.IH) (use Suc.prems in \<open>auto simp: GAP_TOLERANCE_def less_Suc_eq\<close>)
    have "view s' a = view s a \<or> view s' a = None \<and> a \<in> range ?a" for a
      using conjunct1 [OF ih, rule_format, of a] view2 by (auto split: if_splits)
    moreover have "\<exists>e \<ge> idx - missing. (\<forall>i < e + GAP_TOLERANCE. view s' (?a i) = None)
        \<and> (\<forall>i < GAP_TOLERANCE. m (?a (e + i)) = None)" if "r = None"
    proof -
      from ih that obtain e where "e \<ge> Suc idx" "\<forall>i < e + GAP_TOLERANCE. view s' (?a i) = None"
        "\<forall>i < GAP_TOLERANCE. m (?a (e + i)) = None" by auto
      then show ?thesis by (intro exI [of _ e]) auto
    qed
    ultimately show ?thesis by blast
  next
    case miss
    with view1 have same: "view s1 = view s" "view s (?a idx) = None" by auto
    show ?thesis
    proof (cases "GAP_TOLERANCE \<le> missing + 1")
      case True
      with Suc.prems(3) have m3: "missing = 3" by (simp add: GAP_TOLERANCE_def)
      from True Suc.prems(1) del miss have "r = None" "s' = s1" by auto
      moreover have "\<forall>i < idx - 3 + GAP_TOLERANCE. view s1 (?a i) = None"
        using Suc.prems(2,4) m3 same by (auto simp: GAP_TOLERANCE_def less_Suc_eq)
      moreover have "m (?a (idx - 3 + i)) = None" if "i < GAP_TOLERANCE" for i
      proof (cases "idx - 3 + i = idx")
        case True
        then show ?thesis using Suc.prems(6) same by simp
      next
        case False
        with Suc.prems(2) m3 that have "idx - missing \<le> idx - 3 + i \<and> idx - 3 + i < idx"
          by (auto simp: GAP_TOLERANCE_def)
        then show ?thesis using Suc.prems(5) by blast
      qed
      ultimately show ?thesis using same m3 by auto
    next
      case False
      with Suc.prems(1) del miss have "delete_loop fuel K tenant_id oid (Suc idx) (missing + 1) s1 = Some (r, s')" by simp
      from Suc.IH [OF this] Suc.prems False same show ?thesis
        by (auto simp: less_Suc_eq)
    qed
  qed
qed simp

text \<open>The state of a load after \<open>ls_idx\<close> chunks: nothing read yet, a mismatch seen, or exactly the first chunks of one
  write.  \<open>R\<close> records which values were read at which number.\<close>

definition load_sound :: "(string \<times> string) set \<Rightarrow> (nat \<Rightarrow> string \<Rightarrow> bool) \<Rightarrow> load_state \<Rightarrow> bool" where
  "load_sound W R st \<longleftrightarrow>
     st = load_start
     \<or> 0 < ls_idx st \<and> ls_mismatch st
     \<or> (\<exists>w \<in> W. let chunks = split_into_chunks (snd w) in
          0 < ls_idx st \<and> ls_gen st = Some (fst w) \<and> ls_declared st = Some (length chunks) \<and> ls_idx st \<le> length chunks
          \<and> ls_combined st = concat (take (ls_idx st) chunks)
          \<and> (\<forall>i < ls_idx st. R i (encode_chunk i (length chunks) (fst w) (chunks ! i))))"

lemma load_part_mismatch: "ls_mismatch st \<Longrightarrow> ls_mismatch (load_part part st)"
  by (auto simp: load_part_def Let_def split: chunk_zero.split option.split)

lemma load_part_idx [simp]: "ls_idx (load_part part st) = Suc (ls_idx st)"
  by (simp add: load_part_def Let_def)

lemma load_part_sound:
  assumes sound: "load_sound W R st" and fresh: "fresh_writes W"
    and w: "w \<in> W" "chunk_of_write w (ls_idx st) part" and R: "R (ls_idx st) part"
    and more: "\<not> (ls_gen st \<noteq> None \<and> ls_declared st = Some (ls_idx st))"
  shows "load_sound W R (load_part part st)"
proof -
  have g: "CHR '':'' \<notin> set (fst w)" and n: "length (split_into_chunks (snd w)) < 2 ^ 64"
    using fresh w(1) write_count [of w] by (auto simp: fresh_writes_def)
  from sound consider (start) "st = load_start" | (bad) "0 < ls_idx st" "ls_mismatch st"
    | (mid) w' where "w' \<in> W" "0 < ls_idx st" "ls_gen st = Some (fst w')"
        "ls_declared st = Some (length (split_into_chunks (snd w')))" "ls_idx st \<le> length (split_into_chunks (snd w'))"
        "ls_combined st = concat (take (ls_idx st) (split_into_chunks (snd w')))"
        "\<forall>i < ls_idx st. R i (encode_chunk i (length (split_into_chunks (snd w'))) (fst w') (split_into_chunks (snd w') ! i))"
    by (auto simp: load_sound_def Let_def)
  then show ?thesis
  proof cases
    case start
    then have "load_part part st = load_start\<lparr>ls_idx := 1, ls_gen := Some (fst w),
        ls_declared := Some (length (split_into_chunks (snd w))), ls_combined := split_into_chunks (snd w) ! 0\<rparr>"
      using w(2) decode_encode_zero [OF n g] by (simp add: load_part_def load_start_def chunk_of_write_def)
    moreover have "take 1 (split_into_chunks (snd w)) = [split_into_chunks (snd w) ! 0]"
      by (cases "split_into_chunks (snd w)") auto
    ultimately show ?thesis
      using w R start unfolding load_sound_def
      by (intro disjI2 bexI [of _ w]) (auto simp: Let_def load_start_def chunk_of_write_def Suc_le_eq)
  next
    case bad
    then show ?thesis by (simp add: load_sound_def load_part_mismatch)
  next
    case mid
    have part: "split_once (CHR '':'') part = Some (fst w, split_into_chunks (snd w) ! ls_idx st)"
      using w(2) mid(2) split_once_first [OF g] by (simp add: chunk_of_write_def encode_chunk_def)
    show ?thesis
    proof (cases "fst w = fst w'")
      case False
      with mid(2,3) part show ?thesis by (simp add: load_sound_def load_part_def Let_def)
    next
      case True
      with fresh w(1) mid(1) have ww: "w' = w" by (auto simp: fresh_writes_def inj_on_def)
      with more mid have lt: "ls_idx st < length (split_into_chunks (snd w))" by auto
      have "load_part part st = st\<lparr>ls_combined := ls_combined st @ split_into_chunks (snd w) ! ls_idx st,
          ls_idx := Suc (ls_idx st)\<rparr>"
        using mid(2,3) part True by (simp add: load_part_def Let_def)
      with mid ww lt w R show ?thesis unfolding load_sound_def
        by (intro disjI2 bexI [of _ w]) (auto simp: Let_def take_Suc_conv_app_nth less_Suc_eq chunk_of_write_def)
    qed
  qed
qed

lemma load_verdict_sound:
  assumes "load_sound W R st" and "load_verdict st = Some t"
  shows "\<exists>w \<in> W. snd w = t \<and>
    (\<forall>i < length (split_into_chunks t). R i (encode_chunk i (length (split_into_chunks t)) (fst w) (split_into_chunks t ! i)))"
proof -
  from assms(2) have "st \<noteq> load_start" "\<not> ls_mismatch st" "ls_combined st = t"
      "\<forall>n. ls_declared st = Some n \<longrightarrow> n = ls_idx st"
    by (auto simp: load_verdict_def load_start_def split: if_splits option.splits)
  with assms(1) obtain w where w: "w \<in> W" "concat (split_into_chunks (snd w)) = t"
      "\<forall>i < length (split_into_chunks (snd w)).
         R i (encode_chunk i (length (split_into_chunks (snd w))) (fst w) (split_into_chunks (snd w) ! i))"
    by (auto simp: load_sound_def Let_def)
  with concat_split_into_chunks show ?thesis by (intro bexI [of _ w]) auto
qed

lemma load_loop_sound:
  assumes "fresh_writes W"
    and reads: "\<forall>s idx q s'. J s \<longrightarrow> kr_get_password K KEYRING_SERVICE (chunk_account tenant_id oid idx) s = (q, s')
        \<longrightarrow> J s' \<and> (\<forall>v. q = Inr v \<longrightarrow> R idx v \<and> (\<exists>w \<in> W. chunk_of_write w idx v))"
    and "J s" and "load_sound W R st" and "load_loop fuel K tenant_id oid st s = Some (Inr (Some t), s')"
  shows "\<exists>w \<in> W. snd w = t \<and>
    (\<forall>i < length (split_into_chunks t). R i (encode_chunk i (length (split_into_chunks t)) (fst w) (split_into_chunks t ! i)))"
  using assms(3-)
proof (induction fuel arbitrary: st s)
  case (Suc fuel)
  let ?a = "chunk_account tenant_id oid (ls_idx st)"
  obtain q s1 where get: "kr_get_password K KEYRING_SERVICE ?a s = (q, s1)" by fastforce
  note r = reads [rule_format, OF Suc.prems(1) get]
  consider (verdict) "load_verdict st = Some t"
    | (more) part where "\<not> (ls_gen st \<noteq> None \<and> ls_declared st = Some (ls_idx st))" "q = Inr part"
        "load_loop fuel K tenant_id oid (load_part part st) s1 = Some (Inr (Some t), s')"
    using Suc.prems(3) get
    by (cases q; cases "kr_entry K KEYRING_SERVICE ?a s"; cases "projl q") (auto simp: Let_def split: if_splits)
  then show ?case
  proof cases
    case verdict
    with Suc.prems(2) show ?thesis by (rule load_verdict_sound)
  next
    case more
    from r more(2) obtain w where "w \<in> W" "chunk_of_write w (ls_idx st) part" "R (ls_idx st) part" "J s1" by auto
    with Suc.IH [OF _ _ more(3)] load_part_sound [OF Suc.prems(2) assms(1)] more(1) show ?thesis by blast
  qed
qed simp

lemma load_loop_complete:
  assumes laws: "keyring_laws K view" and g: "CHR '':'' \<notin> set g" and n: "length chunks < 2 ^ 64"
    and stored: "\<forall>i < length chunks. view s (chunk_account tenant_id oid i) = Some (encode_chunk i (length chunks) g (chunks ! i))"
    and st: "st = load_start \<and> chunks \<noteq> []
       \<or> 0 < ls_idx st \<and> ls_idx st \<le> length chunks \<and> ls_gen st = Some g \<and> ls_declared st = Some (length chunks)
         \<and> \<not> ls_mismatch st \<and> ls_combined st = concat (take (ls_idx st) chunks)"
    and fuel: "length chunks - ls_idx st < fuel"
  shows "\<exists>r s'. load_loop fuel K tenant_id oid st s = Some (r, s') \<and> (r = Inr (Some (concat chunks)) \<or> (\<exists>e. r = Inl e))"
  using stored st fuel
proof (induction fuel arbitrary: st s)
  case (Suc fuel)
  let ?a = "chunk_account tenant_id oid (ls_idx st)"
  show ?case
  proof (cases "ls_gen st \<noteq> None \<and> ls_declared st = Some (ls_idx st)")
    case True
    then have "0 < ls_idx st" "ls_idx st = length chunks" "\<not> ls_mismatch st" "ls_combined st = concat chunks"
      using Suc.prems(2) by (auto simp: load_start_def)
    with True show ?thesis by (auto simp: load_verdict_def)
  next
    case False
    then have lt: "ls_idx st < length chunks" using Suc.prems(2) by (auto simp: load_start_def)
    obtain q s1 where get: "kr_get_password K KEYRING_SERVICE ?a s = (q, s1)" by fastforce
    note r = keyring_lawsD(2) [OF laws get]
    show ?thesis
    proof (cases "kr_entry K KEYRING_SERVICE ?a s = None \<and> (\<exists>part. q = Inr part)")
      case False
      have "\<nexists>t. q = Inl (NoEntry t)" using r Suc.prems(1) lt by auto
      then show ?thesis using False get \<open>\<not> (ls_gen st \<noteq> None \<and> ls_declared st = Some (ls_idx st))\<close>
        by (cases "kr_entry K KEYRING_SERVICE ?a s"; cases q; cases "projl q") (auto simp: Let_def)
    next
      case True
      then have part: "q = Inr (encode_chunk (ls_idx st) (length chunks) g (chunks ! ls_idx st))"
        using r Suc.prems(1) lt by auto
      let ?st = "load_part (encode_chunk (ls_idx st) (length chunks) g (chunks ! ls_idx st)) st"
      have "0 < ls_idx ?st \<and> ls_idx ?st \<le> length chunks \<and> ls_gen ?st = Some g \<and> ls_declared ?st = Some (length chunks)
          \<and> \<not> ls_mismatch ?st \<and> ls_combined ?st = concat (take (ls_idx ?st) chunks)"
      proof (cases "ls_idx st = 0")
        case True
        with Suc.prems(2) have "st = load_start" "chunks \<noteq> []" by auto
        then show ?thesis using decode_encode_zero [OF n g]
          by (cases chunks) (auto simp: load_part_def load_start_def)
      next
        case False
        then show ?thesis using Suc.prems(2) lt split_once_first [OF g]
          by (auto simp: load_part_def load_start_def encode_chunk_def take_Suc_conv_app_nth)
      qed
      then have "\<exists>r s'. load_loop fuel K tenant_id oid ?st s1 = Some (r, s')
          \<and> (r = Inr (Some (concat chunks)) \<or> (\<exists>e. r = Inl e))"
        using Suc.prems(1,3) r lt by (intro Suc.IH) auto
      then show ?thesis using True part get False by (auto simp: Let_def)
    qed
  qed
qed simp

lemma load_absent:
  assumes laws: "keyring_laws K view" and "view s (chunk_account tenant_id oid 0) = None"
    and "load_chunks fuel K tenant_id oid s = Some (Inr found, s')"
  shows "found = None"
proof (cases fuel)
  case (Suc f)
  obtain q s1 where get: "kr_get_password K KEYRING_SERVICE (chunk_account tenant_id oid 0) s = (q, s1)" by fastforce
  note r = keyring_lawsD(2) [OF laws get]
  show ?thesis using assms(2,3) Suc get r
    by (cases "kr_entry K KEYRING_SERVICE (chunk_account tenant_id oid 0) s"; cases q; cases "projl q")
      (auto simp: load_chunks_def load_start_def load_verdict_def Let_def)
qed (use assms(3) in \<open>simp add: load_chunks_def\<close>)

lemma load_view:
  assumes laws: "keyring_laws K view" and "load_loop fuel K tenant_id oid st s = Some (r, s')"
  shows "view s' = view s"
  using assms(2)
proof (induction fuel arbitrary: st s)
  case (Suc fuel)
  let ?a = "chunk_account tenant_id oid (ls_idx st)"
  obtain q s1 where get: "kr_get_password K KEYRING_SERVICE ?a s = (q, s1)" by fastforce
  note v = conjunct1 [OF keyring_lawsD(2) [OF laws get]]
  show ?case
  proof (cases "\<exists>part. q = Inr part \<and> load_loop fuel K tenant_id oid (load_part part st) s1 = Some (r, s')")
    case True
    with Suc.IH v show ?thesis by auto
  next
    case False
    with Suc.prems get v show ?thesis
      by (cases "kr_entry K KEYRING_SERVICE ?a s"; cases q; cases "projl q") (auto simp: Let_def split: if_splits)
  qed
qed simp

section \<open>Stores torn by crashes and second instances\<close>

text \<open>The contents any number of toolkit processes can leave for one account: single chunks of the writes \<open>W\<close> land and
  single entries vanish in any order, so a crash between two chunks and two interleaved saves are both covered; entries
  of other accounts change freely.\<close>

inductive torn_store :: "(string \<times> string) set \<Rightarrow> string \<Rightarrow> string \<Rightarrow> (string \<Rightarrow> string option) \<Rightarrow> bool"
  for W tenant_id oid where
  torn_empty: "torn_store W tenant_id oid (\<lambda>_. None)"
| torn_chunk: "torn_store W tenant_id oid m \<Longrightarrow> w \<in> W \<Longrightarrow> chunk_of_write w idx v
    \<Longrightarrow> torn_store W tenant_id oid (m(chunk_account tenant_id oid idx \<mapsto> v))"
| torn_delete: "torn_store W tenant_id oid m \<Longrightarrow> torn_store W tenant_id oid (m(a := None))"
| torn_other: "torn_store W tenant_id oid m \<Longrightarrow> a \<notin> range (chunk_account tenant_id oid)
    \<Longrightarrow> torn_store W tenant_id oid (m(a \<mapsto> v))"

lemma torn_stored: "torn_store W tenant_id oid m \<Longrightarrow> stored_from W tenant_id oid m"
  by (induction rule: torn_store.induct) (auto simp: stored_from_def)

lemma torn_mono:
  assumes "torn_store W tenant_id oid m" and "W \<subseteq> W'"
  shows "torn_store W' tenant_id oid m"
  using assms(1)
proof induction
  case (torn_chunk m w idx v)
  with assms(2) show ?case by (blast intro: torn_store.torn_chunk)
qed (rule torn_store.intros; assumption)+

text \<open>Reading a store that other processes share: a value returned was stored, and whatever they do in the meantime
  leaves a torn store torn.\<close>

definition shared_reads :: "(string \<times> string) set \<Rightarrow> string \<Rightarrow> string \<Rightarrow> 's keyring \<Rightarrow> ('s \<Rightarrow> string \<Rightarrow> string option) \<Rightarrow> bool" where
  "shared_reads W tenant_id oid K view \<longleftrightarrow>
     (\<forall>a s q s'. kr_get_password K KEYRING_SERVICE a s = (q, s')
        \<longrightarrow> (\<forall>v. q = Inr v \<longrightarrow> view s a = Some v)
          \<and> (torn_store W tenant_id oid (view s) \<longrightarrow> torn_store W tenant_id oid (view s')))"

lemma write_loop_torn:
  assumes laws: "keyring_laws K view" and w: "w \<in> W" "split_into_chunks (snd w) = done_cs @ cs"
    and "write_loop K tenant_id oid (fst w) (length (split_into_chunks (snd w))) (length done_cs) cs ow s = (r, ow', s')"
    and "torn_store W tenant_id oid (view s)"
  shows "torn_store W tenant_id oid (view s')"
  using assms(3-)
proof (induction cs arbitrary: done_cs ow s)
  case (Cons c cs)
  let ?a = "chunk_account tenant_id oid (length done_cs)"
    and ?v = "encode_chunk (length done_cs) (length (split_into_chunks (snd w))) (fst w) c"
  obtain q s1 where set: "kr_set_password K KEYRING_SERVICE ?a ?v s = (q, s1)" by fastforce
  note view1 = keyring_lawsD(1) [OF laws set]
  have "chunk_of_write w (length done_cs) ?v" using Cons.prems(1) by (simp add: chunk_of_write_def)
  with Cons.prems(3) w(1) view1 have torn1: "torn_store W tenant_id oid (view s1)" by (auto intro: torn_chunk)
  show ?case
  proof (cases "kr_entry K KEYRING_SERVICE ?a s = None \<and> q = None")
    case True
    have "torn_store W tenant_id oid (view s')"
      by (rule Cons.IH [of "done_cs @ [c]", OF _ _ torn1]) (use Cons.prems set True in \<open>auto simp: Let_def\<close>)
    then show ?thesis .
  next
    case False
    with Cons.prems(2,3) set torn1 show ?thesis by (auto simp: Let_def split: option.splits)
  qed
qed simp

lemma sweep_loop_torn:
  assumes laws: "keyring_laws K view" and "sweep_loop fuel K tenant_id oid idx s = Some s'"
    and "torn_store W tenant_id oid (view s)"
  shows "torn_store W tenant_id oid (view s')"
  using assms(2-)
proof (induction fuel arbitrary: idx s)
  case (Suc fuel)
  let ?a = "chunk_account tenant_id oid idx"
  obtain q s1 where del: "kr_delete_credential K KEYRING_SERVICE ?a s = (q, s1)" by fastforce
  have torn1: "torn_store W tenant_id oid (view s1)"
    using conjunct1 [OF keyring_lawsD(3) [OF laws del]] Suc.prems(2) by (auto intro: torn_delete)
  with Suc.prems del Suc.IH [OF _ torn1] show ?case
    by (cases "kr_entry K KEYRING_SERVICE ?a s"; cases q; cases "the q") (auto simp: Let_def)
qed simp

lemma delete_loop_torn:
  assumes laws: "keyring_laws K view" and "delete_loop fuel K tenant_id oid idx missing s = Some (r, s')"
    and "torn_store W tenant_id oid (view s)"
  shows "torn_store W tenant_id oid (view s')"
  using assms(2-)
proof (induction fuel arbitrary: idx missing s)
  case (Suc fuel)
  let ?a = "chunk_account tenant_id oid idx"
  obtain q s1 where del: "kr_delete_credential K KEYRING_SERVICE ?a s = (q, s1)" by fastforce
  have torn1: "torn_store W tenant_id oid (view s1)"
    using conjunct1 [OF keyring_lawsD(3) [OF laws del]] Suc.prems(2) by (auto intro: torn_delete)
  with Suc.prems del Suc.IH [OF _ torn1] show ?case
    by (cases "kr_entry K KEYRING_SERVICE ?a s"; cases q; cases "the q") (auto simp: Let_def split: if_splits)
qed simp

lemma save_torn:
  assumes laws: "keyring_laws K view" and w: "(g, token) \<in> W" and torn: "torn_store W tenant_id oid (view (tp_store p))"
    and save: "save_refresh_token_if fuel K tenant_id oid g token cur p = Some (r, p1)"
  shows "torn_store W tenant_id oid (view (tp_store p1))"
proof -
  obtain q p0 where ensure: "ensure_keyring_store K p = (q, p0)" by fastforce
  with torn have torn0: "torn_store W tenant_id oid (view (tp_store p0))"
    using ensure_keyring_view(1) [OF laws ensure] by simp
  obtain e ow s where loop: "write_loop K tenant_id oid g (length (split_into_chunks token)) 0 (split_into_chunks token) False
      (tp_store p0) = (e, ow, s)" by (metis prod_cases3)
  have torn1: "torn_store W tenant_id oid (view s)"
    using write_loop_torn [OF laws w, of "[]"] loop torn0 by simp
  from save ensure loop torn0 torn1 sweep_loop_torn [OF laws _ torn1] delete_loop_torn [OF laws _ torn1] show ?thesis
    by (auto simp: save_refresh_token_if_def write_chunks_def delete_chunks_def Let_def
        split: option.splits if_splits prod.splits)
qed

lemma encode_chunk_gen:
  assumes "encode_chunk i n g payload = encode_chunk i n' g' payload'"
    and "CHR '':'' \<notin> set g" and "CHR '':'' \<notin> set g'" and "n < 2 ^ 64" and "n' < 2 ^ 64"
  shows "g = g'"
proof (cases "i = 0")
  case True
  from assms(1) True have "decode_chunk_zero (encode_chunk 0 n g payload) = decode_chunk_zero (encode_chunk 0 n' g' payload')" by simp
  with assms(2-) show ?thesis by (simp add: decode_encode_zero)
next
  case False
  from assms(1) False have "split_once (CHR '':'') (g @ CHR '':'' # payload) = split_once (CHR '':'') (g' @ CHR '':'' # payload')"
    by (simp add: encode_chunk_def)
  with assms(2,3) show ?thesis by (simp add: split_once_first)
qed

lemma registered_again: "tp_registered p = Some (Inr ()) \<Longrightarrow> ensure_keyring_store K p = (None, p)"
  by (simp add: ensure_keyring_store_def)

text \<open>After a save that failed past chunk 0, chunk 0 carries the new generation or is gone and the chunk it failed at
  does not, so no load finds a whole set.\<close>

lemma failed_save_unreadable:
  assumes laws: "keyring_laws K view" and fresh: "fresh_writes (insert (g, token) W)" "g \<notin> fst ` W"
    and old: "stored_from W tenant_id oid m" and k: "0 < k" "k < length (split_into_chunks token)"
    and written: "chunks_written tenant_id oid g (length (split_into_chunks token)) (split_into_chunks token) 0 k m m1"
    and torn: "stored_from (insert (g, token) W) tenant_id oid m2" and only: "\<forall>a. m2 a = m1 a \<or> m2 a = None"
    and s: "view s = m2" and "load_chunks fuel K tenant_id oid s = Some (Inr found, s')"
  shows "found = None"
proof (rule ccontr)
  let ?a = "chunk_account tenant_id oid"
  assume "found \<noteq> None"
  then obtain t where "found = Some t" by blast
  with assms(11) have load: "load_loop fuel K tenant_id oid load_start s = Some (Inr (Some t), s')"
    by (simp add: load_chunks_def)
  have ok: "CHR '':'' \<notin> set (fst w) \<and> length (split_into_chunks (snd w)) < 2 ^ 64" if "w \<in> insert (g, token) W" for w
    using fresh(1) that write_count [of w] by (auto simp: fresh_writes_def)
  have reads: "\<forall>s idx q s'. view s = m2 \<longrightarrow> kr_get_password K KEYRING_SERVICE (?a idx) s = (q, s')
      \<longrightarrow> view s' = m2 \<and> (\<forall>v. q = Inr v \<longrightarrow> m2 (?a idx) = Some v \<and> (\<exists>w \<in> insert (g, token) W. chunk_of_write w idx v))"
    using keyring_lawsD(2) [OF laws] torn unfolding stored_from_def by metis
  have "load_sound (insert (g, token) W) (\<lambda>idx v. m2 (?a idx) = Some v) load_start" by (simp add: load_sound_def)
  from load_loop_sound [where J = "\<lambda>s. view s = m2" and R = "\<lambda>idx v. m2 (?a idx) = Some v", OF fresh(1) reads s this load]
  obtain w where w: "w \<in> insert (g, token) W" "snd w = t"
      "\<forall>i < length (split_into_chunks t). m2 (?a i) = Some (encode_chunk i (length (split_into_chunks t)) (fst w) (split_into_chunks t ! i))"
    by blast
  show False
  proof (cases "fst w = g")
    case True
    with w(1) fresh(2) have wg: "w = (g, token)" by force
    from wg w k(2) have "m2 (?a k) = Some (encode_chunk k (length (split_into_chunks token)) g (split_into_chunks token ! k))" by auto
    moreover have "?a k \<notin> ?a ` {..<k}" by auto
    with written have "m1 (?a k) = m (?a k)" by (simp add: chunks_written_def)
    ultimately have "m (?a k) = Some (encode_chunk k (length (split_into_chunks token)) g (split_into_chunks token ! k))"
      using only [rule_format, of "?a k"] by auto
    with old obtain w' where w': "w' \<in> W"
        "chunk_of_write w' k (encode_chunk k (length (split_into_chunks token)) g (split_into_chunks token ! k))"
      unfolding stored_from_def by blast
    then have "g = fst w'"
      using ok [of w'] ok [of "(g, token)"] encode_chunk_gen unfolding chunk_of_write_def by (metis fst_conv insertCI snd_conv)
    with w'(1) fresh(2) show False by blast
  next
    case False
    have "0 < length (split_into_chunks t)" by simp
    with w(3) have "m2 (?a 0) = Some (encode_chunk 0 (length (split_into_chunks t)) (fst w) (split_into_chunks t ! 0))" by blast
    moreover have "m1 (?a 0) = Some (encode_chunk 0 (length (split_into_chunks token)) g (split_into_chunks token ! 0))"
      using written k(1) by (auto simp: chunks_written_def)
    ultimately have "encode_chunk 0 (length (split_into_chunks token)) g (split_into_chunks token ! 0)
        = encode_chunk 0 (length (split_into_chunks t)) (fst w) (split_into_chunks t ! 0)"
      using only [rule_format, of "?a 0"] by auto
    from encode_chunk_gen [OF this] have "g = fst w" using ok [OF w(1)] ok [of "(g, token)"] w(2) by simp
    with False show False by simp
  qed
qed

text \<open>The slots of the access-token cache: two requests share one exactly when tenant, capability and the \<^emph>\<open>set\<close> of
  scopes agree; a put is served to that slot only and an invalidation empties exactly one tenant's slots.\<close>

lemma scope_key_iff:
  assumes "\<forall>x \<in> set a \<union> set b. x \<noteq> [] \<and> CHR '' '' \<notin> set x"
  shows "scope_key a = scope_key b \<longleftrightarrow> set a = set b"
proof
  have canon: "set (remdups_adj (sort x)) = set x" for x :: "string list" by simp
  have nonempty: "join '' '' (remdups_adj (sort x)) \<noteq> []" if "x \<noteq> []" "\<forall>y \<in> set x. y \<noteq> []" for x :: "string list"
  proof (cases "remdups_adj (sort x)")
    case Nil
    with canon [of x] that(1) show ?thesis by simp
  next
    case (Cons y ys)
    with canon [of x] that(2) have "y \<noteq> []" by auto
    with Cons show ?thesis by (cases ys) auto
  qed
  assume eq: "scope_key a = scope_key b"
  show "set a = set b"
  proof (cases "a = [] \<or> b = []")
    case True
    have "\<forall>y \<in> set a. y \<noteq> []" "\<forall>y \<in> set b. y \<noteq> []" using assms by auto
    with True have "a = b" using eq nonempty [of a] nonempty [of b] by (force simp: scope_key_def)
    then show ?thesis by simp
  next
    case False
    have "remdups_adj (sort x) \<noteq> []" if "x \<noteq> []" for x :: "string list" using canon [of x] that by force
    then have reread: "split_on (CHR '' '') (scope_key x) = remdups_adj (sort x)"
      if "x \<noteq> []" "\<forall>y \<in> set x. CHR '' '' \<notin> set y" for x
      using that split_on_join [of "remdups_adj (sort x)" "CHR '' ''"] by (simp add: scope_key_def)
    have "remdups_adj (sort a) = remdups_adj (sort b)"
      using reread [of a] reread [of b] False assms unfolding eq by simp
    then show ?thesis using canon [of a] canon [of b] by simp
  qed
next
  assume "set a = set b"
  then show "scope_key a = scope_key b" by (simp add: scope_key_def dedup_sorted)
qed

lemma token_slots:
  "token_get t b cae' (token_put t' a cae tok c)
     = (if t' = t \<and> scope_key a = scope_key b \<and> cae = cae' then Some tok else token_get t b cae' c)"
  "token_get t b cae' (token_invalidate_tenant t' c) = (if t = t' then None else token_get t b cae' c)"
proof -
  show "token_get t b cae' (token_put t' a cae tok c)
     = (if t' = t \<and> scope_key a = scope_key b \<and> cae = cae' then Some tok else token_get t b cae' c)"
    by (auto simp: token_get_def token_put_def update_conv')
  have "map_of (filter (\<lambda>((t, _, _), _). t \<noteq> t') c) k = (if fst k = t' then None else map_of c k)" for k
    by (induction c) auto
  then show "token_get t b cae' (token_invalidate_tenant t' c) = (if t = t' then None else token_get t b cae' c)"
    by (simp add: token_get_def token_invalidate_tenant_def)
qed

section \<open>Properties\<close>

text \<open>C35: However toolkit processes crash, interleave their saves or delete entries, and whatever they do while a load is
  running, a load that returns a refresh token returns a token that one of the saves was given: never a splice of two.
  And every save of the toolkit, whether it succeeds or fails half way, leaves such a store.\<close>

theorem no_spliced_token:
  assumes "fresh_writes W"
  shows "(shared_reads W tenant_id oid K view \<and> torn_store W tenant_id oid (view s)
           \<and> load_chunks fuel K tenant_id oid s = Some (Inr (Some t), s') \<longrightarrow> (\<exists>g. (g, t) \<in> W))
       \<and> (keyring_laws K view \<and> torn_store W tenant_id oid (view (tp_store p)) \<and> (g, token) \<in> W
           \<and> save_refresh_token_if fuel K tenant_id oid g token cur p = Some (r, p1)
           \<longrightarrow> torn_store W tenant_id oid (view (tp_store p1)))"
proof (intro conjI impI; elim conjE)
  assume shared: "shared_reads W tenant_id oid K view" and torn: "torn_store W tenant_id oid (view s)"
    and load: "load_chunks fuel K tenant_id oid s = Some (Inr (Some t), s')"
  let ?J = "\<lambda>s. torn_store W tenant_id oid (view s)"
  have reads: "\<forall>s idx q s'. ?J s \<longrightarrow> kr_get_password K KEYRING_SERVICE (chunk_account tenant_id oid idx) s = (q, s')
      \<longrightarrow> ?J s' \<and> (\<forall>v. q = Inr v \<longrightarrow> True \<and> (\<exists>w \<in> W. chunk_of_write w idx v))"
    using shared torn_stored unfolding shared_reads_def stored_from_def by metis
  have "load_sound W (\<lambda>_ _. True) load_start" by (simp add: load_sound_def)
  from load_loop_sound [where J = ?J and R = "\<lambda>_ _. True", OF assms reads torn this load [unfolded load_chunks_def]]
  show "\<exists>g. (g, t) \<in> W" by auto
qed (rule save_torn)

text \<open>The in-memory double of the credential store that the examples run on: a list of entries, an operation on the
  account \<open>broken\<close> fails.\<close>

definition list_keyring :: "string option \<Rightarrow> (string \<times> string) list keyring" where
  "list_keyring broken =
     \<lparr>kr_default_store = (\<lambda>_. True), kr_register_native = Inr, kr_entry = (\<lambda>_ _ _. None),
      kr_set_password = (\<lambda>_ a v s. if Some a = broken then (Some (StoreFailure ''locked''), s) else (None, (a, v) # s)),
      kr_get_password = (\<lambda>_ a s. case map_of s a of None \<Rightarrow> (Inl (NoEntry ''none''), s) | Some v \<Rightarrow> (Inr v, s)),
      kr_delete_credential = (\<lambda>_ a s. case map_of s a of
         None \<Rightarrow> (Some (NoEntry ''none''), s)
       | Some v \<Rightarrow> (None, filter (\<lambda>p. fst p \<noteq> a) s))\<rparr>"

lemma list_keyring_laws: "keyring_laws (list_keyring broken) map_of"
proof -
  have drop: "map_of (filter (\<lambda>p. fst p \<noteq> a) s) = (map_of s)(a := None)" for a s
    by (induction s) (auto simp: fun_eq_iff)
  show ?thesis unfolding keyring_laws_def list_keyring_def
    by (auto split: option.splits if_splits simp: drop)
qed

definition demo_process :: "(string \<times> string) list token_process" where
  "demo_process = \<lparr>tp_registered = None, tp_store = []\<rparr>"

lemma demo_chunks: "split_into_chunks ''ab'' = [''ab'']"
  by (simp add: split_into_chunks_def utf8_continuation_def utf16_width_def payload_limit)

lemma demo_one: "show_nat (Suc 0) = ''1''"
  by code_simp

lemma demo_save:
  "save_refresh_token_if (Suc fuel) (list_keyring None) ''t'' ''o'' ''g'' ''ab'' True demo_process
     = Some (Inr True, \<lparr>tp_registered = Some (Inr ()), tp_store = [(''t:o'', ''azapp2:1:g:ab'')]\<rparr>)"
  by (simp add: save_refresh_token_if_def ensure_keyring_store_def register_store_def demo_process_def list_keyring_def
      write_chunks_def demo_chunks chunk_account_def encode_chunk_def CHUNK_GEN_PREFIX_def demo_one)

lemma demo_load:
  "load_chunks (Suc (Suc 0)) (list_keyring None) ''t'' ''o'' [(''t:o'', ''azapp2:1:g:ab'')]
     = Some (Inr (Some ''ab''), [(''t:o'', ''azapp2:1:g:ab'')])"
proof -
  have "decode_chunk_zero ''azapp2:1:g:ab'' = Generation (Suc 0) ''g'' ''ab''"
    using decode_encode_zero [of 1 "''g''" "''ab''"] by (simp add: encode_chunk_def CHUNK_GEN_PREFIX_def demo_one)
  then show ?thesis
    by (simp add: load_chunks_def load_start_def load_part_def load_verdict_def list_keyring_def chunk_account_def)
qed

lemma demo_writes: "fresh_writes {(''g'', ''ab'')}"
  by (simp add: fresh_writes_def)

lemma demo_torn: "torn_store {(''g'', ''ab'')} ''t'' ''o'' (map_of [(''t:o'', ''azapp2:1:g:ab'')])"
  using torn_chunk [OF torn_empty, of "(''g'', ''ab'')" "{(''g'', ''ab'')}" 0 "''azapp2:1:g:ab''" "''t''" "''o''"]
  by (simp add: chunk_of_write_def demo_chunks encode_chunk_def CHUNK_GEN_PREFIX_def demo_one chunk_account_def)

lemma demo_shared: "shared_reads W ''t'' ''o'' (list_keyring None) map_of"
  by (auto simp: shared_reads_def list_keyring_def split: option.splits)

theorem no_spliced_token_witness:
  "(\<exists>g. (g, ''ab'') \<in> {(''g'', ''ab'')})
   \<and> torn_store {(''g'', ''ab'')} ''t'' ''o'' (map_of [(''t:o'', ''azapp2:1:g:ab'')])"
  using no_spliced_token [OF demo_writes, of "''t''" "''o''" "list_keyring None" map_of "[(''t:o'', ''azapp2:1:g:ab'')]" "Suc (Suc 0)"
      "''ab''" "[(''t:o'', ''azapp2:1:g:ab'')]" demo_process "''g''" "''ab''" True "Inr True"
      "\<lparr>tp_registered = Some (Inr ()), tp_store = [(''t:o'', ''azapp2:1:g:ab'')]\<rparr>"]
    demo_load demo_save demo_torn demo_shared list_keyring_laws [of None] by simp

text \<open>C38: What a save of a refresh token leaves.  Reported stored, the next load returns exactly that token unless the
  store itself fails, whatever longer token was there before.  Skipped, it was no longer current and nothing changed.
  Failed, either nothing was touched, so the previous session survives, or no load finds any token.\<close>

theorem refresh_token_save:
  assumes laws: "keyring_laws K view" and fresh: "fresh_writes (insert (g, token) W)" "g \<notin> fst ` W"
    and torn: "torn_store W tenant_id oid (view (tp_store p))"
    and save: "save_refresh_token_if fuel K tenant_id oid g token cur p = Some (r, p1)"
  shows "(r = Inr True \<longrightarrow> cur \<and> (\<forall>fuel' > length (split_into_chunks token). \<exists>q p2.
            load_refresh_token fuel' K tenant_id oid p1 = Some (q, p2) \<and> (q = Inr (Some token) \<or> (\<exists>e. q = Inl e))))
       \<and> (r = Inr False \<longrightarrow> \<not> cur \<and> view (tp_store p1) = view (tp_store p))
       \<and> (\<forall>e. r = Inl e \<longrightarrow> view (tp_store p1) = view (tp_store p)
            \<or> (\<forall>fuel' found p2. load_refresh_token fuel' K tenant_id oid p1 = Some (Inr found, p2) \<longrightarrow> found = None))"
proof -
  let ?cs = "split_into_chunks token" and ?a = "chunk_account tenant_id oid"
  obtain e0 p0 where ensure: "ensure_keyring_store K p = (e0, p0)" by fastforce
  note view0 = ensure_keyring_view [OF laws ensure]
  obtain e ow s where loop: "write_loop K tenant_id oid g (length ?cs) 0 ?cs False (tp_store p0) = (e, ow, s)"
    by (metis prod_cases3)
  from write_loop_spec [OF laws loop] obtain k where k: "k \<le> length ?cs" "(e = None) = (k = length ?cs)" "ow = (0 < k)"
    "chunks_written tenant_id oid g (length ?cs) ?cs 0 k (view (tp_store p)) (view s)" using view0(1) by auto
  consider (unregistered) x where "e0 = Some x" "r = Inl x" "p1 = p0"
    | (stale) "e0 = None" "\<not> cur" "r = Inr False" "p1 = p0"
    | (saved) s' where "e0 = None" "cur" "r = Inr True" "e = None" "sweep_loop fuel K tenant_id oid (length ?cs) s = Some s'"
        "p1 = p0\<lparr>tp_store := s'\<rparr>"
    | (untouched) x where "e0 = None" "cur" "e = Some x" "\<not> ow" "r = Inl x" "p1 = p0\<lparr>tp_store := s\<rparr>"
    | (rolled) x q s' where "e0 = None" "cur" "e = Some x" "ow" "r = Inl x" "delete_loop fuel K tenant_id oid 0 0 s = Some (q, s')"
        "p1 = p0\<lparr>tp_store := s'\<rparr>"
    using save ensure loop
    by (auto simp: save_refresh_token_if_def write_chunks_def delete_chunks_def Let_def split: option.splits if_splits)
  then show ?thesis
  proof cases
    case saved
    have "?a i \<notin> ?a ` {length ?cs..}" if "i < length ?cs" for i using that by auto
    then have "\<forall>i < length ?cs. view s' (?a i) = Some (encode_chunk i (length ?cs) g (?cs ! i))"
      using sweep_loop_spec [OF laws saved(5)] k(2,4) saved(4) by (simp add: chunks_written_def)
    moreover have "CHR '':'' \<notin> set g" "length ?cs < 2 ^ 64"
      using fresh(1) write_count [of "(g, token)"] by (auto simp: fresh_writes_def)
    moreover have "ensure_keyring_store K p1 = (None, p1)" using view0(2) saved by (intro registered_again) simp
    ultimately show ?thesis
      using saved load_loop_complete [OF laws, of g ?cs s' tenant_id oid load_start] concat_split_into_chunks [of token]
      by (fastforce simp: load_refresh_token_def load_chunks_def load_start_def)
  next
    case untouched
    with k have "view s = view (tp_store p)" by (auto simp: chunks_written_def)
    with untouched show ?thesis by simp
  next
    case rolled
    have again: "ensure_keyring_store K p1 = (None, p1)" using view0(2) rolled by (intro registered_again) simp
    have only: "\<forall>a. view s' a = view s a \<or> view s' a = None"
      using delete_loop_spec [OF laws rolled(6), of "view s"] by (auto simp: GAP_TOLERANCE_def)
    have torn1: "stored_from (insert (g, token) W) tenant_id oid (view s')"
    proof (rule torn_stored)
      have "torn_store (insert (g, token) W) tenant_id oid (view (tp_store p))"
        by (rule torn_mono [OF torn]) auto
      from save_torn [OF laws _ this save] show "torn_store (insert (g, token) W) tenant_id oid (view s')"
        using rolled(7) by simp
    qed
    have "found = None" if "load_refresh_token fuel' K tenant_id oid p1 = Some (Inr found, p2)" for fuel' found p2
    proof -
      from that again rolled(7) obtain s2 where "load_chunks fuel' K tenant_id oid s' = Some (Inr found, s2)"
        by (auto simp: load_refresh_token_def)
      with failed_save_unreadable [OF laws fresh torn_stored [OF torn] _ _ k(4) torn1 only refl] k rolled(3,4)
      show ?thesis by auto
    qed
    with rolled show ?thesis by auto
  qed (use view0 in auto)
qed

lemma demo_broken_save:
  "save_refresh_token_if (Suc fuel) (list_keyring (Some ''t:o'')) ''t'' ''o'' ''g'' ''ab'' True demo_process
     = Some (Inl (Keyring ''locked''), \<lparr>tp_registered = Some (Inr ()), tp_store = []\<rparr>)"
  by (simp add: save_refresh_token_if_def ensure_keyring_store_def register_store_def demo_process_def list_keyring_def
      write_chunks_def demo_chunks chunk_account_def keyring_failed_def)

theorem refresh_token_save_witness:
  "(\<exists>q p2. load_refresh_token 9 (list_keyring None) ''t'' ''o''
       \<lparr>tp_registered = Some (Inr ()), tp_store = [(''t:o'', ''azapp2:1:g:ab'')]\<rparr> = Some (q, p2)
       \<and> (q = Inr (Some ''ab'') \<or> (\<exists>e. q = Inl e)))
   \<and> map_of ([] :: (string \<times> string) list) = map_of (tp_store demo_process)"
proof -
  have torn: "torn_store {} ''t'' ''o'' (map_of (tp_store demo_process))" by (simp add: demo_process_def torn_empty)
  show ?thesis
    using refresh_token_save [OF list_keyring_laws demo_writes _ torn demo_save]
      refresh_token_save [OF list_keyring_laws demo_writes _ torn demo_broken_save]
    by (simp add: demo_chunks demo_process_def)
qed

lemma split_chunks_loop_boundaries: "\<forall>c \<in> set (tl (split_chunks_loop cur bytes cs)). c \<noteq> [] \<and> \<not> utf8_continuation (hd c)"
proof -
  have aux: "(\<forall>c \<in> set (tl (split_chunks_loop cur bytes cs)). c \<noteq> [] \<and> \<not> utf8_continuation (hd c))
      \<and> (\<exists>more. hd (split_chunks_loop cur bytes cs) = cur @ more)"
  proof (induction cur bytes cs rule: split_chunks_loop.induct)
    case (2 cur bytes c cs)
    have members: "set xs = insert (hd xs) (set (tl xs))" if "xs \<noteq> []" for xs :: "string list"
      using that by (cases xs) auto
    show ?case using 2 members [of "split_chunks_loop [c] (utf16_width c) cs"] by auto
  qed auto
  then show ?thesis by simp
qed

text \<open>C40: The chunks of a token put back together are the token; each starts on a character boundary and each stored
  value, header included, stays within the 2048 UTF-16 bytes of the smallest credential store, for any token a Rust
  string can hold.\<close>

theorem chunks_fit_store:
  assumes "length token < 2 ^ 63" and g: "length g = CHUNK_GEN_LEN" "\<forall>c \<in> set g. (of_char c :: nat) < 128"
    and "i < length (split_into_chunks token)"
  shows "concat (split_into_chunks token) = token
       \<and> (0 < i \<longrightarrow> split_into_chunks token ! i \<noteq> [] \<and> \<not> utf8_continuation (hd (split_into_chunks token ! i)))
       \<and> utf16_bytes (encode_chunk i (length (split_into_chunks token)) g (split_into_chunks token ! i)) \<le> MAX_CHUNK_UTF16_BYTES"
proof (intro conjI impI)
  show "concat (split_into_chunks token) = token" by (rule concat_split_into_chunks)
  show "split_into_chunks token ! i \<noteq> []" "\<not> utf8_continuation (hd (split_into_chunks token ! i))" if "0 < i"
  proof -
    have "split_into_chunks token ! i \<in> set (tl (split_into_chunks token))"
      using that assms(4) by (cases "split_into_chunks token"; cases i) auto
    then show "split_into_chunks token ! i \<noteq> []" "\<not> utf8_continuation (hd (split_into_chunks token ! i))"
      using split_chunks_loop_boundaries [of "[]" 0 token] by (auto simp: split_into_chunks_def)
  qed
  let ?n = "length (split_into_chunks token)"
  have payload: "utf16_bytes (split_into_chunks token ! i) \<le> 1958"
    using split_chunks_loop_fits [of "[]" 0 token] assms(4) nth_mem
    by (auto simp: split_into_chunks_def utf16_bytes_def payload_limit)
  have "?n < 10 ^ Suc 19" using write_count [of "([], token)"] assms(1) by simp
  then have "length (show_nat ?n) \<le> 20" using length_show_nat [of ?n 19] by simp
  moreover have "utf16_bytes (show_nat ?n) = 2 * length (show_nat ?n)"
    using show_nat_digits [of ?n] by (intro ascii_utf16_bytes) (auto simp: list_all_iff is_digit_def)
  moreover have "utf16_bytes CHUNK_GEN_PREFIX = 14" "utf16_bytes '':'' = 2"
    by (simp_all add: CHUNK_GEN_PREFIX_def ascii_utf16_bytes)
  moreover have "utf16_bytes g = 32" using ascii_utf16_bytes [OF g(2)] g(1) by (simp add: CHUNK_GEN_LEN_def)
  ultimately have "utf16_bytes (CHUNK_GEN_PREFIX @ show_nat ?n @ '':'' @ g @ '':'' @ split_into_chunks token ! i) \<le> 2048"
      "utf16_bytes (g @ '':'' @ split_into_chunks token ! i) \<le> 2048"
    using payload unfolding utf16_bytes_append by linarith+
  then show "utf16_bytes (encode_chunk i ?n g (split_into_chunks token ! i)) \<le> MAX_CHUNK_UTF16_BYTES"
    unfolding encode_chunk_def MAX_CHUNK_UTF16_BYTES_def by (cases "i = 0") simp_all
qed

theorem chunks_fit_store_witness:
  "utf16_bytes (encode_chunk 0 1 ''0123456789abcdef'' ''ab'') \<le> MAX_CHUNK_UTF16_BYTES"
  using chunks_fit_store [of "''ab''" "''0123456789abcdef''" 0] by (simp add: CHUNK_GEN_LEN_def demo_chunks)

text \<open>C39: Purging a rejected refresh token never erases a session that replaced it: when the store holds a whole token
  other than the rejected one, the purge reports it superseded and changes nothing.  When it reports the token deleted
  or gone, no later load finds a token.\<close>

theorem purge_keeps_replacement:
  assumes laws: "keyring_laws K view"
    and purge: "delete_refresh_token_if_current fuel K tenant_id oid rejected p = Some (Inr outcome, p1)"
  shows "(outcome = Superseded \<longleftrightarrow>
           (\<exists>t p2. load_refresh_token fuel K tenant_id oid p = Some (Inr (Some t), p2) \<and> t \<noteq> rejected))
       \<and> (outcome = Superseded \<longrightarrow> view (tp_store p1) = view (tp_store p))
       \<and> (outcome \<noteq> Superseded \<longrightarrow> (\<forall>fuel' found p2. load_refresh_token fuel' K tenant_id oid p1 = Some (Inr found, p2) \<longrightarrow> found = None))"
proof -
  obtain e0 p0 where ensure: "ensure_keyring_store K p = (e0, p0)" by fastforce
  note view0 = ensure_keyring_view [OF laws ensure]
  from purge ensure obtain found s where e0: "e0 = None" and load: "load_chunks fuel K tenant_id oid (tp_store p0) = Some (Inr found, s)"
    by (auto simp: delete_refresh_token_if_current_def split: option.splits sum.splits)
  have view1: "view s = view (tp_store p)"
    using load_view [OF laws load [unfolded load_chunks_def]] view0(1) by simp
  have body: "(if found \<noteq> None \<and> found \<noteq> Some rejected then outcome = Superseded \<and> p1 = p0\<lparr>tp_store := s\<rparr>
      else outcome \<noteq> Superseded
        \<and> (\<exists>s'. delete_loop fuel K tenant_id oid 0 0 s = Some (None, s') \<and> p1 = p0\<lparr>tp_store := s'\<rparr>))"
    using purge unfolding delete_refresh_token_if_current_def delete_chunks_def ensure e0
    by (cases found; cases "delete_loop fuel K tenant_id oid 0 0 s"; cases "fst (the (delete_loop fuel K tenant_id oid 0 0 s))")
      (auto simp: load Let_def split: if_splits)
  show ?thesis
  proof (cases "outcome = Superseded")
    case True
    with body obtain t where t: "found = Some t" "t \<noteq> rejected" and p1: "p1 = p0\<lparr>tp_store := s\<rparr>"
      by (cases found) (auto split: if_splits)
    have "load_refresh_token fuel K tenant_id oid p = Some (Inr (Some t), p1)"
      using load unfolding load_refresh_token_def ensure e0 p1 t by simp
    with True t(2) p1 view1 show ?thesis by auto
  next
    case False
    with body obtain s' where del: "delete_loop fuel K tenant_id oid 0 0 s = Some (None, s')"
        and p1: "p1 = p0\<lparr>tp_store := s'\<rparr>" and found: "found = None \<or> found = Some rejected"
      by (auto split: if_splits)
    have "view s' (chunk_account tenant_id oid 0) = None"
      using delete_loop_spec [OF laws del, of "view s"] by (auto simp: GAP_TOLERANCE_def)
    moreover have "ensure_keyring_store K p1 = (None, p1)" using view0(2) e0 p1 by (intro registered_again) simp
    ultimately have "\<forall>fuel' found p2. load_refresh_token fuel' K tenant_id oid p1 = Some (Inr found, p2) \<longrightarrow> found = None"
      using load_absent [OF laws] p1 by (auto simp: load_refresh_token_def)
    moreover have "load_refresh_token fuel K tenant_id oid p = Some (Inr found, p0\<lparr>tp_store := s\<rparr>)"
      using load unfolding load_refresh_token_def ensure e0 by simp
    ultimately show ?thesis using False found by auto
  qed
qed

theorem purge_keeps_replacement_witness:
  "\<exists>t p2. load_refresh_token (Suc (Suc 0)) (list_keyring None) ''t'' ''o'' (demo_process\<lparr>tp_store := [(''t:o'', ''azapp2:1:g:ab'')]\<rparr>)
     = Some (Inr (Some t), p2) \<and> t \<noteq> ''old''"
proof -
  have "delete_refresh_token_if_current (Suc (Suc 0)) (list_keyring None) ''t'' ''o'' ''old''
      (demo_process\<lparr>tp_store := [(''t:o'', ''azapp2:1:g:ab'')]\<rparr>)
    = Some (Inr Superseded, \<lparr>tp_registered = Some (Inr ()), tp_store = [(''t:o'', ''azapp2:1:g:ab'')]\<rparr>)"
    using demo_load
    by (simp add: delete_refresh_token_if_current_def ensure_keyring_store_def register_store_def demo_process_def
        list_keyring_def)
  from purge_keeps_replacement [OF list_keyring_laws this] show ?thesis by blast
qed

end
