(* ===== verification/Fanout.thy ===== *)
theory Fanout
  imports Client_Errors
begin

text \<open>
  Bounded fan-out and how it is stopped: the cancellation flag (\<^verbatim>\<open>apps/desktop/src-tauri/src/state.rs\<close>), the adaptive
  in-flight cap (\<^verbatim>\<open>commands/throttle.rs\<close>) and the dispatcher that keeps every completed task
  (\<^verbatim>\<open>commands/dispatch.rs\<close>).  The scheduler is an argument: it chooses which task in flight completes next, what the cap
  reads at each poll and what each task returns, so the lemmas hold for every interleaving.  \<open>dispatch_capped\<close> also
  returns the sequence of its events; the lemmas speak about it and about what the collector's state has received.
\<close>

section \<open>Cancellation\<close>

record cancel_inner =
  ci_current :: "64 word"
  ci_cancelled :: "64 word"

definition cancel_flag_new :: cancel_inner where
  "cancel_flag_new = \<lparr>ci_current = 0, ci_cancelled = 0\<rparr>"

definition cancel_claim :: "cancel_inner \<Rightarrow> 64 word \<times> cancel_inner" where
  "cancel_claim f = (ci_current f + 1, f\<lparr>ci_current := ci_current f + 1\<rparr>)"

definition cancel_signal :: "cancel_inner \<Rightarrow> cancel_inner" where
  "cancel_signal f = f\<lparr>ci_cancelled := max (ci_cancelled f) (ci_current f)\<rparr>"

definition is_cancelled :: "cancel_inner \<Rightarrow> 64 word \<Rightarrow> bool" where
  "is_cancelled f generation \<longleftrightarrow> generation \<le> ci_cancelled f"

section \<open>The adaptive cap\<close>

definition MIN_CONCURRENCY :: nat where
  "MIN_CONCURRENCY = 1"

definition HALVE_WINDOW_SECS :: nat where
  "HALVE_WINDOW_SECS = 2"

definition RECOVERY_SECS :: nat where
  "RECOVERY_SECS = 30"

record throttle =
  th_current :: nat
  th_max :: nat
  th_last_throttle :: "instant option"
  th_last_halved :: "instant option"

definition throttle_new :: "nat \<Rightarrow> throttle" where
  "throttle_new initial =
     \<lparr>th_current = max initial MIN_CONCURRENCY, th_max = initial, th_last_throttle = None, th_last_halved = None\<rparr>"

definition as_secs :: "duration \<Rightarrow> nat" where
  "as_secs d = d div NANOS_PER_SEC"

definition on_throttle :: "instant \<Rightarrow> throttle \<Rightarrow> throttle" where
  "on_throttle now t =
     (let t1 = t\<lparr>th_last_throttle := Some now\<rparr>
      in if (case th_last_halved t of None \<Rightarrow> False | Some h \<Rightarrow> as_secs (elapsed now h) < HALVE_WINDOW_SECS) then t1
         else (let next = max (th_current t div 2) MIN_CONCURRENCY
               in if next < th_current t then t1\<lparr>th_current := next, th_last_halved := Some now\<rparr> else t1))"

definition recovery_tick :: "instant \<Rightarrow> throttle \<Rightarrow> throttle" where
  "recovery_tick now t =
     (if (case th_last_throttle t of None \<Rightarrow> False | Some l \<Rightarrow> RECOVERY_SECS \<le> as_secs (elapsed now l))
      then (let next = min (th_current t + 1) (th_max t)
            in if th_current t < next then t\<lparr>th_current := next\<rparr> else t)
      else t)"

text \<open>A run of the cap: 429s and ticks of the recovery loop at non-decreasing times.\<close>

inductive throttle_run :: "nat \<Rightarrow> throttle \<Rightarrow> instant \<Rightarrow> bool" for initial where
  throttle_start: "throttle_run initial (throttle_new initial) now"
| throttle_429: "throttle_run initial t now \<Longrightarrow> now \<le> now' \<Longrightarrow> throttle_run initial (on_throttle now' t) now'"
| throttle_tick: "throttle_run initial t now \<Longrightarrow> now \<le> now' \<Longrightarrow> throttle_run initial (recovery_tick now' t) now'"

section \<open>The dispatcher\<close>

text \<open>What \<open>dispatch_capped\<close> is given, over a state of its environment: the live cap, the spawn gate, the scheduler's
  choice among the tasks in flight (taken modulo their number) and the collector.\<close>

record ('i, 'h, 'c) dispatcher =
  di_cap :: "'c \<Rightarrow> nat \<times> 'c"
  di_spawn :: "'i \<Rightarrow> 'c \<Rightarrow> 'h option \<times> 'c"
  di_next :: "nat \<Rightarrow> 'c \<Rightarrow> nat \<times> 'c"
  di_collect :: "'h \<Rightarrow> 'c \<Rightarrow> 'c"

datatype 'h dispatch_event = Spawned 'h | CapRead nat | Joined 'h

definition join_one :: "('i, 'h, 'c) dispatcher \<Rightarrow> 'h list \<Rightarrow> 'c \<Rightarrow> 'h \<times> 'h list \<times> 'c" where
  "join_one D flight c =
     (let (k, c1) = di_next D (length flight) c;
          i = k mod length flight;
          h = flight ! i
      in (h, take i flight @ drop (Suc i) flight, di_collect D h c1))"

lemma join_one_shorter:
  assumes "join_one D flight c = (h, flight', c')" and "flight \<noteq> []"
  shows "length flight' < length flight"
proof -
  obtain k c1 where "di_next D (length flight) c = (k, c1)" by fastforce
  moreover have "k mod length flight < length flight" using assms(2) by simp
  ultimately show ?thesis using assms(1) by (auto simp: join_one_def Let_def)
qed

function drain_to_cap :: "('i, 'h, 'c) dispatcher \<Rightarrow> 'h list \<Rightarrow> 'c \<Rightarrow> 'h list \<times> 'c \<times> 'h dispatch_event list" where
  "drain_to_cap D flight c =
     (let (n, c1) = di_cap D c
      in if flight = [] \<or> length flight < max n 1 then (flight, c1, [CapRead n])
         else (let (h, flight', c2) = join_one D flight c1;
                   (rest, c3, ev) = drain_to_cap D flight' c2
               in (rest, c3, CapRead n # Joined h # ev)))"
  by pat_completeness auto
termination
  by (relation "measure (\<lambda>(D, flight, c). length flight)") (auto dest: sym join_one_shorter)

declare drain_to_cap.simps [simp del]

function drain_all :: "('i, 'h, 'c) dispatcher \<Rightarrow> 'h list \<Rightarrow> 'c \<Rightarrow> 'c \<times> 'h dispatch_event list" where
  "drain_all D flight c =
     (if flight = [] then (c, [])
      else (let (h, flight', c1) = join_one D flight c;
                (c2, ev) = drain_all D flight' c1
            in (c2, Joined h # ev)))"
  by pat_completeness auto
termination
  by (relation "measure (\<lambda>(D, flight, c). length flight)") (auto dest: sym join_one_shorter)

declare drain_all.simps [simp del]

fun dispatch_loop ::
  "('i, 'h, 'c) dispatcher \<Rightarrow> 'i list \<Rightarrow> 'h list \<Rightarrow> 'c \<Rightarrow> bool \<times> 'c \<times> 'h dispatch_event list" where
  "dispatch_loop D [] flight c = (let (c1, ev) = drain_all D flight c in (False, c1, ev))"
| "dispatch_loop D (item # items) flight c =
     (case di_spawn D item c of
        (None, c1) \<Rightarrow> (let (c2, ev) = drain_all D flight c1 in (True, c2, ev))
      | (Some h, c1) \<Rightarrow>
          (let (flight', c2, ev) = drain_to_cap D (flight @ [h]) c1;
               (stopped, c3, ev') = dispatch_loop D items flight' c2
           in (stopped, c3, Spawned h # ev @ ev')))"

definition dispatch_capped :: "('i, 'h, 'c) dispatcher \<Rightarrow> 'i list \<Rightarrow> 'c \<Rightarrow> bool \<times> 'c \<times> 'h dispatch_event list" where
  "dispatch_capped D items c = dispatch_loop D items [] c"

text \<open>A batched read that failed as a whole is replaced by one read per item, in order.\<close>

fun read_each :: "('i \<Rightarrow> 'w \<Rightarrow> 't \<times> 'w) \<Rightarrow> 'i list \<Rightarrow> 'w \<Rightarrow> 't list \<times> 'w" where
  "read_each per_item [] w = ([], w)"
| "read_each per_item (i # is) w =
     (let (t, w1) = per_item i w; (ts, w2) = read_each per_item is w1 in (t # ts, w2))"

definition batch_or_serial :: "'i list \<Rightarrow> 'e + 't list \<Rightarrow> ('i \<Rightarrow> 'w \<Rightarrow> 't \<times> 'w) \<Rightarrow> 'w \<Rightarrow> 't list \<times> 'w" where
  "batch_or_serial ids batched per_item w = (case batched of Inr v \<Rightarrow> (v, w) | Inl _ \<Rightarrow> read_each per_item ids w)"

section \<open>Events\<close>

primrec spawned :: "'h dispatch_event list \<Rightarrow> 'h list" where
  "spawned [] = []"
| "spawned (e # es) = (case e of Spawned h \<Rightarrow> h # spawned es | _ \<Rightarrow> spawned es)"

primrec joined :: "'h dispatch_event list \<Rightarrow> 'h list" where
  "joined [] = []"
| "joined (e # es) = (case e of Joined h \<Rightarrow> h # joined es | _ \<Rightarrow> joined es)"

text \<open>Every spawn finds room: \<open>n\<close> tasks are in flight and \<open>cap\<close> was read last.\<close>

fun within_cap :: "nat \<Rightarrow> nat \<Rightarrow> 'h dispatch_event list \<Rightarrow> bool" where
  "within_cap n cap [] \<longleftrightarrow> True"
| "within_cap n cap (Spawned h # es) \<longleftrightarrow> Suc n \<le> max cap 1 \<and> within_cap (Suc n) cap es"
| "within_cap n cap (CapRead k # es) \<longleftrightarrow> within_cap n k es"
| "within_cap n cap (Joined h # es) \<longleftrightarrow> 0 < n \<and> within_cap (n - 1) cap es"

lemma spawned_append [simp]: "spawned (a @ b) = spawned a @ spawned b"
  by (induction a) (auto split: dispatch_event.split)

lemma joined_append [simp]: "joined (a @ b) = joined a @ joined b"
  by (induction a) (auto split: dispatch_event.split)

lemma mset_join_one:
  "join_one D flight c = (h, flight', c') \<Longrightarrow> flight \<noteq> [] \<Longrightarrow> mset flight = add_mset h (mset flight')"
proof -
  have remove: "i < length xs \<Longrightarrow> mset xs = add_mset (xs ! i) (mset (take i xs @ drop (Suc i) xs))" for i and xs :: "'h list"
    by (metis id_take_nth_drop mset.simps(2) mset_append union_mset_add_mset_right)
  show "join_one D flight c = (h, flight', c') \<Longrightarrow> flight \<noteq> [] \<Longrightarrow> mset flight = add_mset h (mset flight')"
    by (auto simp: join_one_def Let_def intro!: remove split: prod.splits)
qed

lemma drain_to_cap_spec:
  assumes "drain_to_cap D flight c = (rest, c', ev)"
  shows "spawned ev = [] \<and> mset flight = mset (joined ev) + mset rest
       \<and> (\<exists>cap. (rest = [] \<or> length rest < max cap 1)
            \<and> (\<forall>k es. within_cap (length rest) cap es \<longrightarrow> within_cap (length flight) k (ev @ es)))"
  using assms
proof (induction D flight c arbitrary: rest c' ev rule: drain_to_cap.induct)
  case (1 D flight c)
  obtain n c1 where cap: "di_cap D c = (n, c1)" by fastforce
  show ?case
  proof (cases "flight = [] \<or> length flight < max n 1")
    case True
    with "1.prems" cap show ?thesis by (subst (asm) drain_to_cap.simps) (auto intro!: exI [of _ n])
  next
    case False
    obtain h flight' c2 where one: "join_one D flight c1 = (h, flight', c2)" by (metis prod_cases3)
    obtain rest' c3 ev' where more: "drain_to_cap D flight' c2 = (rest', c3, ev')" by (metis prod_cases3)
    from "1.prems" cap False one more have eq: "rest = rest'" "ev = CapRead n # Joined h # ev'"
      by (subst (asm) drain_to_cap.simps, simp)+
    from "1.IH" [OF refl cap [symmetric] False refl one [symmetric] refl more] eq
    have ih: "spawned ev' = []" "mset flight' = mset (joined ev') + mset rest"
      "\<exists>cap. (rest = [] \<or> length rest < max cap 1)
         \<and> (\<forall>k es. within_cap (length rest) cap es \<longrightarrow> within_cap (length flight') k (ev' @ es))" by auto
    have mset: "mset flight = add_mset h (mset flight')" using mset_join_one [OF one] False by simp
    then have "length flight = Suc (length flight')" by (metis size_add_mset size_mset)
    with ih mset eq show ?thesis by auto
  qed
qed

lemma drain_all_spec:
  assumes "drain_all D flight c = (c', ev)"
  shows "spawned ev = [] \<and> mset (joined ev) = mset flight \<and> within_cap (length flight) k ev"
  using assms
proof (induction D flight c arbitrary: c' ev k rule: drain_all.induct)
  case (1 D flight c)
  show ?case
  proof (cases "flight = []")
    case True
    with "1.prems" show ?thesis by (simp add: drain_all.simps)
  next
    case False
    obtain h flight' c1 where one: "join_one D flight c = (h, flight', c1)" by (metis prod_cases3)
    obtain c2 ev' where more: "drain_all D flight' c1 = (c2, ev')" by fastforce
    from "1.prems" False one more have ev: "ev = Joined h # ev'" by (subst (asm) drain_all.simps) simp
    have mset: "mset flight = add_mset h (mset flight')" using mset_join_one [OF one False] .
    then have "length flight = Suc (length flight')" by (metis size_add_mset size_mset)
    with "1.IH" [OF False refl one [symmetric] refl more] ev mset show ?thesis by simp
  qed
qed

lemma dispatch_loop_spec:
  assumes "dispatch_loop D items flight c = (stopped, c', ev)" and "flight = [] \<or> length flight < max cap 1"
  shows "mset (joined ev) = mset flight + mset (spawned ev)
       \<and> length (spawned ev) \<le> length items \<and> (stopped \<longleftrightarrow> length (spawned ev) < length items)
       \<and> within_cap (length flight) cap ev"
  using assms
proof (induction items arbitrary: flight c cap stopped c' ev)
  case Nil
  then show ?case using drain_all_spec [of D flight c] by (auto split: prod.splits)
next
  case (Cons item items)
  obtain q c1 where spawn: "di_spawn D item c = (q, c1)" by fastforce
  show ?case
  proof (cases q)
    case None
    with Cons.prems spawn drain_all_spec [of D flight c1] show ?thesis by (auto split: prod.splits)
  next
    case (Some h)
    obtain flight' c2 ev1 where drain: "drain_to_cap D (flight @ [h]) c1 = (flight', c2, ev1)" by (metis prod_cases3)
    obtain stopped' c3 ev2 where more: "dispatch_loop D items flight' c2 = (stopped', c3, ev2)" by (metis prod_cases3)
    from Cons.prems(1) spawn Some drain more have eq: "stopped = stopped'" "ev = Spawned h # ev1 @ ev2" by auto
    from drain_to_cap_spec [OF drain] obtain cap' where d: "spawned ev1 = []"
        "mset flight + {#h#} = mset (joined ev1) + mset flight'" "flight' = [] \<or> length flight' < max cap' 1"
        "\<And>k es. within_cap (length flight') cap' es \<Longrightarrow> within_cap (Suc (length flight)) k (ev1 @ es)" by auto
    from Cons.IH [OF more d(3)] have ih: "mset (joined ev2) = mset flight' + mset (spawned ev2)"
        "length (spawned ev2) \<le> length items" "stopped' \<longleftrightarrow> length (spawned ev2) < length items"
        "within_cap (length flight') cap' ev2" by auto
    have "Suc (length flight) \<le> max cap 1" using Cons.prems(2) by auto
    with d(4) [OF ih(4)] have "within_cap (length flight) cap ev" using eq by simp
    moreover have "mset (joined ev) = mset flight + mset (spawned ev)"
      using d(1,2) ih(1) eq by (simp add: ac_simps)
    ultimately show ?thesis using ih(2,3) d(1) eq by simp
  qed
qed

lemma dispatch_loop_in_order:
  assumes "\<And>i c h c'. di_spawn D i c = (Some h, c') \<Longrightarrow> f h = g i"
    and "dispatch_loop D items flight c = (stopped, c', ev)"
  shows "map f (spawned ev) = map g (take (length (spawned ev)) items)"
  using assms(2)
proof (induction items arbitrary: flight c stopped c' ev)
  case Nil
  then show ?case using drain_all_spec [of D flight c] by (auto split: prod.splits)
next
  case (Cons item items)
  obtain q c1 where spawn: "di_spawn D item c = (q, c1)" by fastforce
  show ?case
  proof (cases q)
    case None
    with Cons.prems spawn drain_all_spec [of D flight c1] show ?thesis by (auto split: prod.splits)
  next
    case (Some h)
    obtain flight' c2 ev1 where drain: "drain_to_cap D (flight @ [h]) c1 = (flight', c2, ev1)" by (metis prod_cases3)
    obtain stopped' c3 ev2 where more: "dispatch_loop D items flight' c2 = (stopped', c3, ev2)" by (metis prod_cases3)
    from Cons.prems spawn Some drain more have "ev = Spawned h # ev1 @ ev2" by auto
    with Cons.IH [OF more] drain_to_cap_spec [OF drain] assms(1) spawn Some show ?thesis by auto
  qed
qed

lemma dispatch_in_order:
  assumes "\<And>i c h c'. di_spawn D i c = (Some h, c') \<Longrightarrow> f h = g i" and "dispatch_capped D items c = (stopped, c', ev)"
  shows "map f (spawned ev) = map g (take (length (spawned ev)) items)"
  using dispatch_loop_in_order [OF assms(1)] assms(2) by (simp add: dispatch_capped_def)

section \<open>Observing a dispatch\<close>

text \<open>What a caller has to show to know something of the state a dispatch ends in: a predicate on the events so far and
  the caller's state that the cap poll, the spawn gate and the collector each preserve.\<close>

locale dispatch_observer =
  fixes D :: "('i, 'h, 'c) dispatcher" and P :: "'h dispatch_event list \<Rightarrow> 'c \<Rightarrow> bool"
  assumes cap_read: "P es c \<Longrightarrow> di_cap D c = (n, c') \<Longrightarrow> P (es @ [CapRead n]) c'"
    and spawn_some: "P es c \<Longrightarrow> di_spawn D i c = (Some h, c') \<Longrightarrow> P (es @ [Spawned h]) c'"
    and spawn_none: "P es c \<Longrightarrow> di_spawn D i c = (None, c') \<Longrightarrow> P es c'"
    and join: "P es c \<Longrightarrow> di_next D m c = (k, c') \<Longrightarrow> P (es @ [Joined h]) (di_collect D h c')"
begin

lemma observed_join:
  assumes "join_one D flight c = (h, flight', c')" and "P es c"
  shows "P (es @ [Joined h]) c'"
proof -
  obtain k c1 where "di_next D (length flight) c = (k, c1)" by fastforce
  with join [OF assms(2) this] assms(1) show ?thesis by (auto simp: join_one_def Let_def)
qed

lemma observed_to_cap:
  assumes "drain_to_cap D flight c = (rest, c', ev)" and "P es c"
  shows "P (es @ ev) c'"
  using assms
proof (induction "length flight" arbitrary: flight c ev es rest c' rule: less_induct)
  case less
  obtain n c1 where cap: "di_cap D c = (n, c1)" by fastforce
  note after_cap = cap_read [OF less.prems(2) cap]
  show ?case
  proof (cases "flight = [] \<or> length flight < max n 1")
    case True
    with less.prems(1) cap after_cap show ?thesis by (subst (asm) drain_to_cap.simps) auto
  next
    case False
    obtain h flight' c2 where one: "join_one D flight c1 = (h, flight', c2)" by (metis prod_cases3)
    obtain rest' c3 ev' where more: "drain_to_cap D flight' c2 = (rest', c3, ev')" by (metis prod_cases3)
    from less.prems(1) cap False one more have eq: "c' = c3" "ev = CapRead n # Joined h # ev'"
      by (subst (asm) drain_to_cap.simps, simp)+
    from less.hyps [OF join_one_shorter [OF one] more observed_join [OF one after_cap]] False eq
    show ?thesis by simp
  qed
qed

lemma observed_all:
  assumes "drain_all D flight c = (c', ev)" and "P es c"
  shows "P (es @ ev) c'"
  using assms
proof (induction "length flight" arbitrary: flight c ev es rule: less_induct)
  case less
  show ?case
  proof (cases "flight = []")
    case True
    with less.prems show ?thesis by (simp add: drain_all.simps)
  next
    case False
    obtain h flight' c1 where one: "join_one D flight c = (h, flight', c1)" by (metis prod_cases3)
    obtain c2 ev' where more: "drain_all D flight' c1 = (c2, ev')" by fastforce
    from less.prems(1) False one more have eq: "c' = c2" "ev = Joined h # ev'" by (subst (asm) drain_all.simps, simp)+
    from less.hyps [OF join_one_shorter [OF one False], of c1 ev' "es @ [Joined h]"] more eq
      observed_join [OF one less.prems(2)] show ?thesis by simp
  qed
qed

lemma observed_loop:
  assumes "dispatch_loop D items flight c = (stopped, c', ev)" and "P es c"
  shows "P (es @ ev) c'"
  using assms
proof (induction items arbitrary: flight c es ev stopped c')
  case Nil
  then show ?case by (auto intro: observed_all split: prod.splits)
next
  case (Cons item items)
  obtain q c1 where spawn: "di_spawn D item c = (q, c1)" by fastforce
  show ?case
  proof (cases q)
    case None
    with Cons.prems spawn show ?thesis by (auto intro: observed_all spawn_none split: prod.splits)
  next
    case (Some h)
    obtain flight' c2 ev1 where drain: "drain_to_cap D (flight @ [h]) c1 = (flight', c2, ev1)" by (metis prod_cases3)
    obtain stopped' c3 ev2 where more: "dispatch_loop D items flight' c2 = (stopped', c3, ev2)" by (metis prod_cases3)
    from Cons.prems(1) spawn Some drain more have eq: "c' = c3" "ev = Spawned h # ev1 @ ev2" by auto
    have "P (es @ [Spawned h]) c1" using spawn_some Cons.prems(2) spawn Some by blast
    from Cons.IH [OF more observed_to_cap [OF drain this]] eq show ?thesis by simp
  qed
qed

lemma observed: "dispatch_capped D items c = (stopped, c', ev) \<Longrightarrow> P [] c \<Longrightarrow> P ev c'"
  using observed_loop [of items "[]" c stopped c' ev "[]"] by (simp add: dispatch_capped_def)

end

section \<open>Properties\<close>

text \<open>A caller whose environment records the tasks it was asked to spawn and the tasks its collector was handed.\<close>

definition keeps_record :: "('i, 'h, 'c) dispatcher \<Rightarrow> ('c \<Rightarrow> 'h list) \<Rightarrow> ('c \<Rightarrow> 'h list) \<Rightarrow> bool" where
  "keeps_record D launched gathered \<longleftrightarrow>
     (\<forall>c. launched (snd (di_cap D c)) = launched c \<and> gathered (snd (di_cap D c)) = gathered c)
     \<and> (\<forall>m c. launched (snd (di_next D m c)) = launched c \<and> gathered (snd (di_next D m c)) = gathered c)
     \<and> (\<forall>i c. launched (snd (di_spawn D i c)) = launched c @ (case fst (di_spawn D i c) of Some h \<Rightarrow> [h] | None \<Rightarrow> [])
          \<and> gathered (snd (di_spawn D i c)) = gathered c)
     \<and> (\<forall>h c. launched (di_collect D h c) = launched c \<and> gathered (di_collect D h c) = gathered c @ [h])"

lemma keeps_record_observes:
  assumes "keeps_record D launched gathered"
  shows "dispatch_observer D (\<lambda>es c. launched c = l @ spawned es \<and> gathered c = g @ joined es)"
proof -
  note rec = assms [unfolded keeps_record_def]
  have spawn: "launched c' = launched c @ (case q of Some h \<Rightarrow> [h] | None \<Rightarrow> []) \<and> gathered c' = gathered c" if "di_spawn D i c = (q, c')" for i c q c'
    using rec that by (metis fst_conv snd_conv)
  show ?thesis
  proof
    fix es c n c' assume "launched c = l @ spawned es \<and> gathered c = g @ joined es" "di_cap D c = (n, c')"
    with rec show "launched c' = l @ spawned (es @ [CapRead n]) \<and> gathered c' = g @ joined (es @ [CapRead n])" by (metis append_Nil2 dispatch_event.simps(11,14) joined.simps joined_append snd_conv spawned.simps spawned_append)
  next
    fix es c i h c' assume "launched c = l @ spawned es \<and> gathered c = g @ joined es" "di_spawn D i c = (Some h, c')"
    with spawn show "launched c' = l @ spawned (es @ [Spawned h]) \<and> gathered c' = g @ joined (es @ [Spawned h])" by fastforce
  next
    fix es c i c' assume "launched c = l @ spawned es \<and> gathered c = g @ joined es" "di_spawn D i c = (None, c')"
    with spawn show "launched c' = l @ spawned es \<and> gathered c' = g @ joined es" by fastforce
  next
    fix es c m k c' h assume "launched c = l @ spawned es \<and> gathered c = g @ joined es" and nxt: "di_next D m c = (k, c')"
    moreover from rec nxt have "launched c' = launched c \<and> gathered c' = gathered c" by (metis snd_conv)
    ultimately show "launched (di_collect D h c') = l @ spawned (es @ [Joined h]) \<and> gathered (di_collect D h c') = g @ joined (es @ [Joined h])"
      using rec by simp
  qed
qed

text \<open>C37: Whatever order the tasks complete in and whatever the cap reads, the dispatcher hands every task it spawned to
  the collector exactly once: whenever the caller's state records what it was asked to spawn and what its collector was
  handed, the two records have grown by the same tasks, as often each, when the dispatcher returns.  It stops early exactly
  when the gate refused an item, and never has more tasks in flight after a spawn than the cap it read last (at least one).\<close>

theorem dispatch_loses_nothing:
  assumes "dispatch_capped D items c = (stopped, c', ev)" and "keeps_record D launched gathered"
  shows "\<exists>tasks results. launched c' = launched c @ tasks \<and> gathered c' = gathered c @ results \<and> mset results = mset tasks
       \<and> length tasks \<le> length items \<and> (stopped \<longleftrightarrow> length tasks < length items)
       \<and> tasks = spawned ev \<and> results = joined ev \<and> within_cap 0 1 ev"
proof -
  have "launched c' = launched c @ spawned ev \<and> gathered c' = gathered c @ joined ev"
    using dispatch_observer.observed [OF keeps_record_observes [OF assms(2)] assms(1), of "launched c" "gathered c"] by simp
  with dispatch_loop_spec [of D items "[]" c stopped c' ev 1] assms(1) show ?thesis by (simp add: dispatch_capped_def)
qed

text \<open>A scheduler for the examples: two slots, last in first out, a gate that closes before the fourth item.\<close>

definition demo_dispatcher :: "(nat, nat, nat list \<times> nat list) dispatcher" where
  "demo_dispatcher = \<lparr>di_cap = (\<lambda>c. (2, c)), di_spawn = (\<lambda>i (l, g). if i = 4 then (None, (l, g)) else (Some i, (l @ [i], g))),
     di_next = (\<lambda>n c. (n - 1, c)), di_collect = (\<lambda>h (l, g). (l, g @ [h]))\<rparr>"

lemma demo_dispatch:
  "fst (snd (dispatch_capped demo_dispatcher [1, 2, 3, 4] ([], []))) = ([1, 2, 3], [2, 3, 1])"
  "fst (dispatch_capped demo_dispatcher [1, 2, 3, 4] ([], [])) = True"
  by code_simp+

theorem dispatch_loses_nothing_witness:
  "mset (snd (fst (snd (dispatch_capped demo_dispatcher [1, 2, 3, 4] ([], []))))) = {#1, 2, 3 :: nat#}"
proof -
  obtain c' ev where run: "dispatch_capped demo_dispatcher [1, 2, 3, 4] ([], []) = (True, c', ev)"
    using demo_dispatch(2) by (metis prod.collapse)
  have "keeps_record demo_dispatcher fst snd" by (auto simp: keeps_record_def demo_dispatcher_def)
  from dispatch_loses_nothing [OF run this] have "mset (snd c') = mset (fst c')" by auto
  moreover have "fst c' = [1, 2, 3]" using demo_dispatch(1) unfolding run by simp
  ultimately show ?thesis unfolding run by simp
qed

datatype cancel_op = Claim | Cancel

primrec cancel_ops :: "cancel_op list \<Rightarrow> cancel_inner \<Rightarrow> cancel_inner" where
  "cancel_ops [] f = f"
| "cancel_ops (x # xs) f = cancel_ops xs (case x of Claim \<Rightarrow> snd (cancel_claim f) | Cancel \<Rightarrow> cancel_signal f)"

definition claims :: "cancel_op list \<Rightarrow> nat" where
  "claims ops = length (filter (\<lambda>x. x = Claim) ops)"

lemma cancel_ops_inv:
  assumes "unat (ci_current f) + claims ops < 2 ^ 64" and "ci_cancelled f \<le> ci_current f"
  shows "unat (ci_current (cancel_ops ops f)) = unat (ci_current f) + claims ops
       \<and> ci_cancelled (cancel_ops ops f) \<le> ci_current (cancel_ops ops f)
       \<and> (\<forall>g. g \<le> ci_current f \<longrightarrow> (is_cancelled (cancel_ops ops f) g \<longleftrightarrow> is_cancelled f g \<or> Cancel \<in> set ops))"
  using assms
proof (induction ops arbitrary: f)
  case (Cons x xs)
  show ?case
  proof (cases x)
    case Cancel
    let ?f = "cancel_signal f"
    have f: "ci_current ?f = ci_current f" "ci_cancelled ?f = ci_current f"
      using Cons.prems(2) by (simp_all add: cancel_signal_def max_def)
    moreover have "claims (x # xs) = claims xs" by (simp add: claims_def Cancel)
    ultimately show ?thesis using Cons.IH [of ?f] Cons.prems Cancel by (auto simp: is_cancelled_def)
  next
    case Claim
    let ?f = "snd (cancel_claim f)"
    have claims: "claims (x # xs) = Suc (claims xs)" by (simp add: claims_def Claim)
    have cur: "unat (ci_current ?f) = Suc (unat (ci_current f))" "ci_cancelled ?f = ci_cancelled f"
      using Cons.prems(1) claims by (auto simp: cancel_claim_def unat_word_ariths)
    then have le: "ci_current f \<le> ci_current ?f" by (simp add: word_le_nat_alt)
    with cur Cons.prems have inv: "ci_cancelled ?f \<le> ci_current ?f" by (metis order_trans)
    from Cons.IH [OF _ inv] cur claims Cons.prems(1) Claim le show ?thesis
      by (auto simp: is_cancelled_def intro: order_trans)
  qed
qed (simp add: claims_def)

text \<open>A run is cancelled exactly when Cancel was pressed after it was claimed: no Cancel from before reaches it and
  no later run clears one it has not seen, for any sequence of claims and cancels of the flag.\<close>

theorem cancel_is_per_run:
  assumes "claims before + claims after < 2 ^ 64 - 1"
    and "cancel_claim (cancel_ops before cancel_flag_new) = (generation, f)"
  shows "is_cancelled (cancel_ops after f) generation \<longleftrightarrow> Cancel \<in> set after"
proof -
  let ?b = "cancel_ops before cancel_flag_new"
  have b: "unat (ci_current ?b) = claims before" "ci_cancelled ?b \<le> ci_current ?b"
    using cancel_ops_inv [of cancel_flag_new before] assms(1) by (simp_all add: cancel_flag_new_def)
  have f: "f = snd (cancel_claim ?b)" "generation = ci_current f" "ci_cancelled f = ci_cancelled ?b"
    using assms(2) by (auto simp: cancel_claim_def)
  have cur: "unat (ci_current f) = Suc (claims before)"
    using f(1) b(1) assms(1) by (auto simp: cancel_claim_def unat_word_ariths)
  with b f(3) have "ci_cancelled f < generation" by (simp add: f(2) word_less_nat_alt word_le_nat_alt)
  then have fresh: "\<not> is_cancelled f generation" and inv: "ci_cancelled f \<le> ci_current f"
    using f(2) by (auto simp: is_cancelled_def)
  from cancel_ops_inv [OF _ inv, of after] cur assms(1) fresh f(2) show ?thesis by auto
qed

theorem cancel_is_per_run_witness:
  "is_cancelled (cancel_ops [Claim, Cancel] \<lparr>ci_current = 2, ci_cancelled = 1\<rparr>) 2 \<longleftrightarrow> True"
proof -
  have "cancel_claim (cancel_ops [Claim, Cancel] cancel_flag_new) = (2, \<lparr>ci_current = 2, ci_cancelled = 1\<rparr>)"
    by (simp add: cancel_claim_def cancel_signal_def cancel_flag_new_def)
  from cancel_is_per_run [OF _ this, of "[Claim, Cancel]"] show ?thesis by (simp add: claims_def)
qed

lemma as_secs_less: "as_secs (elapsed now h) < HALVE_WINDOW_SECS \<longleftrightarrow> now < h + from_secs HALVE_WINDOW_SECS"
  by (auto simp: as_secs_def elapsed_def HALVE_WINDOW_SECS_def from_secs_def div_less_iff_less_mult)

lemma throttle_run_inv:
  "throttle_run initial t now \<Longrightarrow> 1 \<le> th_current t \<and> th_current t \<le> max initial 1 \<and> th_max t = initial
     \<and> (\<forall>h. th_last_halved t = Some h \<longrightarrow> h \<le> now) \<and> (\<forall>l. th_last_throttle t = Some l \<longrightarrow> l \<le> now)"
proof (induction rule: throttle_run.induct)
  case (throttle_start now)
  then show ?case by (simp add: throttle_new_def MIN_CONCURRENCY_def)
next
  case (throttle_429 t now now')
  then show ?case by (force simp: on_throttle_def Let_def MIN_CONCURRENCY_def split: option.splits)
next
  case (throttle_tick t now now')
  then show ?case by (force simp: recovery_tick_def Let_def split: option.splits)
qed

lemma on_throttle_current:
  assumes "1 \<le> th_current t"
  shows "th_current (on_throttle now t)
     = (if \<exists>h. th_last_halved t = Some h \<and> now < h + from_secs HALVE_WINDOW_SECS then th_current t
        else max (th_current t div 2) 1)"
  using assms by (auto simp: on_throttle_def Let_def MIN_CONCURRENCY_def as_secs_less split: option.splits)

lemma on_throttle_halved:
  "th_last_halved (on_throttle now t) = th_last_halved t \<or> th_last_halved (on_throttle now t) = Some now"
  "now < h + from_secs HALVE_WINDOW_SECS \<Longrightarrow> th_last_halved t = Some h \<Longrightarrow> th_last_halved (on_throttle now t) = Some h"
  by (auto simp: on_throttle_def Let_def as_secs_less)

lemma storm_spaced:
  assumes "1 \<le> th_current t" and "sorted_wrt (\<lambda>a b. a + from_secs HALVE_WINDOW_SECS \<le> b) ts"
    and "\<forall>h. th_last_halved t = Some h \<longrightarrow> (\<forall>x \<in> set ts. h + from_secs HALVE_WINDOW_SECS \<le> x)"
  shows "th_current (fold on_throttle ts t) = max (th_current t div 2 ^ length ts) 1"
  using assms
proof (induction ts arbitrary: t)
  case (Cons x xs)
  have half: "th_current (on_throttle x t) = max (th_current t div 2) 1"
    using Cons.prems by (subst on_throttle_current) auto
  have "th_current (fold on_throttle xs (on_throttle x t)) = max (th_current (on_throttle x t) div 2 ^ length xs) 1"
    using Cons.prems half on_throttle_halved(1) [of x t] by (intro Cons.IH) auto
  also have "\<dots> = max (th_current t div 2 ^ length (x # xs)) 1"
  proof (cases "th_current t div 2 = 0")
    case True
    then have "th_current t div 2 ^ Suc (length xs) = 0" by (simp add: div_mult2_eq)
    with True half show ?thesis by (cases xs) simp_all
  next
    case False
    then have "max (th_current t div 2) 1 = th_current t div 2" by simp
    with half show ?thesis by (simp add: div_mult2_eq)
  qed
  finally show ?case by simp
qed simp

text \<open>C0: The in-flight cap is always at least one and never above its starting value.  A 429 halves it unless it was
  halved less than two seconds ago, so a burst of 429s within two seconds of a halving, however long, costs no more,
  and \<open>n\<close> 429s at least two seconds apart divide it by \<open>2 ^ n\<close>, down to one.\<close>

theorem adaptive_cap_bounds:
  assumes "throttle_run initial t now"
  shows "1 \<le> th_current t \<and> th_current t \<le> max initial 1
       \<and> (\<forall>h ts. th_last_halved t = Some h \<and> (\<forall>x \<in> set ts. x < h + from_secs HALVE_WINDOW_SECS)
            \<longrightarrow> th_current (fold on_throttle ts t) = th_current t)
       \<and> (\<forall>ts. sorted_wrt (\<lambda>a b. a + from_secs HALVE_WINDOW_SECS \<le> b) ts
            \<and> (\<forall>x \<in> set ts. now + from_secs HALVE_WINDOW_SECS \<le> x)
            \<longrightarrow> th_current (fold on_throttle ts t) = max (th_current t div 2 ^ length ts) 1)"
proof -
  note inv = throttle_run_inv [OF assms]
  have burst: "th_current (fold on_throttle ts u) = th_current u"
    if "th_last_halved u = Some h" "\<forall>x \<in> set ts. x < h + from_secs HALVE_WINDOW_SECS" "1 \<le> th_current u" for h ts u
    using that
  proof (induction ts arbitrary: u)
    case (Cons x xs)
    then show ?case using on_throttle_current [of u x] on_throttle_halved(2) [of x h u] by simp
  qed simp
  have spaced: "th_current (fold on_throttle ts t) = max (th_current t div 2 ^ length ts) 1"
    if "sorted_wrt (\<lambda>a b. a + from_secs HALVE_WINDOW_SECS \<le> b) ts" "\<forall>x \<in> set ts. now + from_secs HALVE_WINDOW_SECS \<le> x" for ts
    using inv that by (intro storm_spaced) fastforce+
  show ?thesis using inv burst spaced by simp
qed

theorem adaptive_cap_bounds_witness:
  "th_current (fold on_throttle [2000000000, 4000000000] (throttle_new 8)) = 2"
proof -
  have "throttle_run 8 (throttle_new 8) 0" by (rule throttle_start)
  from adaptive_cap_bounds [OF this, THEN conjunct2, THEN conjunct2, THEN conjunct2, rule_format,
      of "[2000000000, 4000000000]"] show ?thesis
    by (simp add: throttle_new_def MIN_CONCURRENCY_def HALVE_WINDOW_SECS_def from_secs_def)
qed

text \<open>The cap comes back.  Once the 429s have stopped, every tick of the recovery loop that is at least thirty seconds
  after the last one restores one permit, so after as many such ticks as permits are missing the cap is at its starting
  value again and stays there.\<close>

theorem cap_recovers:
  assumes run: "throttle_run initial t now" and last: "th_last_throttle t = Some l"
    and quiet: "\<forall>x \<in> set ts. l + from_secs RECOVERY_SECS \<le> x"
  shows "th_current (fold recovery_tick ts t) = min (max initial 1) (th_current t + length ts)
       \<and> (initial \<le> th_current t + length ts \<longrightarrow> th_current (fold recovery_tick ts t) = max initial 1)"
proof -
  note inv = throttle_run_inv [OF run]
  have tick: "th_current (recovery_tick x u) = min (max initial 1) (Suc (th_current u))
      \<and> th_last_throttle (recovery_tick x u) = Some l \<and> th_max (recovery_tick x u) = initial
      \<and> 1 \<le> th_current (recovery_tick x u) \<and> th_current (recovery_tick x u) \<le> max initial 1"
    if "l + from_secs RECOVERY_SECS \<le> x" "th_last_throttle u = Some l" "th_max u = initial"
      "1 \<le> th_current u" "th_current u \<le> max initial 1" for x u
  proof -
    from that(1) have "RECOVERY_SECS \<le> as_secs (elapsed x l)"
      by (simp add: as_secs_def elapsed_def RECOVERY_SECS_def from_secs_def less_eq_div_iff_mult_less_eq)
    then show ?thesis using that(2-) by (auto simp: recovery_tick_def Let_def min_def max_def)
  qed
  have "th_current (fold recovery_tick ts u) = min (max initial 1) (th_current u + length ts)"
    if "th_last_throttle u = Some l" "th_max u = initial" "1 \<le> th_current u" "th_current u \<le> max initial 1" for u
    using quiet that
  proof (induction ts arbitrary: u)
    case (Cons x xs)
    then show ?case using tick [of x u] by auto
  qed auto
  from this [OF last] inv show ?thesis by auto
qed

theorem cap_recovers_witness:
  "th_current (fold recovery_tick [40000000000, 70000000000] (on_throttle 5000000000 (throttle_new 4))) = 4"
proof -
  have run: "throttle_run 4 (on_throttle 5000000000 (throttle_new 4)) 5000000000"
    by (rule throttle_429 [OF throttle_start [of 4 0]]) simp
  have last: "th_last_throttle (on_throttle 5000000000 (throttle_new 4)) = Some 5000000000"
    by (simp add: on_throttle_def throttle_new_def MIN_CONCURRENCY_def)
  have "th_current (on_throttle 5000000000 (throttle_new 4)) = 2"
    by (simp add: on_throttle_def throttle_new_def MIN_CONCURRENCY_def)
  with cap_recovers [OF run last, of "[40000000000, 70000000000]"] show ?thesis
    by (simp add: RECOVERY_SECS_def from_secs_def)
qed

end
