(* ===== verification/Cache_Patches.thy ===== *)
theory Cache_Patches
  imports Cache_Tiers Audit_Credentials "HOL-Library.Product_Lexorder"
begin

text \<open>
  The patch tier of \<^verbatim>\<open>apps/desktop/src-tauri/src/commands/applications/cache.rs\<close>: a write that knows what it changed
  rewrites the four tenant-wide scans in place instead of dropping them.  The list row and the expiry roll-up are the
  DTOs of \<^verbatim>\<open>crates/azapptoolkit-dto\<close>, projected as \<^verbatim>\<open>commands/credentials.rs\<close> does.  A typed cache entry holds one of
  the four vectors; reading it at another type is the failed downcast of the source.
\<close>

section \<open>The cached vectors\<close>

record app_role =
  ar_id :: string
  ar_allowed_member_types :: "string list"
  ar_display_name :: string
  ar_description :: "string option"
  ar_value :: string
  ar_is_enabled :: "bool option"

record oauth2_permission_scope =
  os_id :: string
  os_value :: string
  os_admin_consent_display_name :: "string option"
  os_admin_consent_description :: "string option"
  os_user_consent_display_name :: "string option"
  os_user_consent_description :: "string option"
  os_type :: "string option"
  os_is_enabled :: "bool option"

record service_principal =
  svp_id :: string
  svp_app_id :: string
  svp_display_name :: string
  svp_account_enabled :: "bool option"
  svp_disabled_by_microsoft_status :: "string option"
  svp_app_role_assignment_required :: "bool option"
  svp_service_principal_type :: "string option"
  svp_password_credentials :: "password_credential list"
  svp_key_credentials :: "key_credential list"
  svp_app_roles :: "app_role list"
  svp_oauth2_permission_scopes :: "oauth2_permission_scope list"
  svp_app_owner_organization_id :: "string option"
  svp_alternative_names :: "string list"
  svp_tags :: "string list"
  svp_created_date_time :: "datetime option"
  svp_notes :: "string option"

definition sp_index_row :: "service_principal \<Rightarrow> service_principal" where
  "sp_index_row sp = sp\<lparr>svp_app_role_assignment_required := None, svp_password_credentials := [],
     svp_key_credentials := [], svp_app_roles := [], svp_oauth2_permission_scopes := [], svp_tags := [], svp_notes := None\<rparr>"

record application_list_row =
  alr_id :: string
  alr_app_id :: string
  alr_display_name :: string
  alr_sign_in_audience :: "string option"
  alr_publisher_domain :: "string option"
  alr_created_date_time :: "datetime option"
  alr_password_credential_count :: nat
  alr_key_credential_count :: nat
  alr_soonest_credential_expiry :: "datetime option"
  alr_credential_status :: list_credential_status
  alr_paired_service_principal_id :: "string option"

definition earliest :: "datetime list \<Rightarrow> datetime option" where
  "earliest ds = (case ds of [] \<Rightarrow> None | x # xs \<Rightarrow> Some (fold min xs x))"

definition from_application :: "application \<Rightarrow> string option \<Rightarrow> datetime \<Rightarrow> application_list_row" where
  "from_application app sp_id now =
     \<lparr>alr_id = app_object_id app, alr_app_id = app_app_id app, alr_display_name = app_display_name app,
      alr_sign_in_audience = app_sign_in_audience app, alr_publisher_domain = app_publisher_domain app,
      alr_created_date_time = app_created_date_time app,
      alr_password_credential_count = length (password_credentials app),
      alr_key_credential_count = length (key_credentials app),
      alr_soonest_credential_expiry =
        earliest (List.map_filter pc_end_date_time (password_credentials app)
                    @ List.map_filter kc_end_date_time (key_credentials app)),
      alr_credential_status = classify (password_credentials app) (key_credentials app) now,
      alr_paired_service_principal_id = sp_id\<rparr>"

record credential_row =
  cr_app_object_id :: string
  cr_app_id :: string
  cr_app_display_name :: string
  cr_credential_name :: string
  cr_kind :: credential_kind
  cr_start_date_time :: "datetime option"
  cr_end_date_time :: "datetime option"
  cr_days_to_expiry :: "int option"
  cr_status :: credential_status

definition cred_sort_key :: "int option \<Rightarrow> nat \<times> int" where
  "cred_sort_key days = (case days of Some d \<Rightarrow> (0, d) | None \<Rightarrow> (1, 0))"

definition sort_credential_rows :: "credential_row list \<Rightarrow> credential_row list" where
  "sort_credential_rows rows = sort_key (\<lambda>r. cred_sort_key (cr_days_to_expiry r)) rows"

definition app_credential_rows :: "datetime \<Rightarrow> application \<Rightarrow> credential_row list" where
  "app_credential_rows now app =
     (let (secrets, certs) = summarize_credentials app now
      in map (\<lambda>c. \<lparr>cr_app_object_id = app_object_id app, cr_app_id = app_app_id app,
            cr_app_display_name = app_display_name app, cr_credential_name = cs_name c, cr_kind = cs_kind c,
            cr_start_date_time = cs_start_date_time c, cr_end_date_time = cs_end_date_time c,
            cr_days_to_expiry = days_to_expiry c, cr_status = cs_status c\<rparr>) (secrets @ certs))"

definition credential_rows :: "application list \<Rightarrow> datetime \<Rightarrow> credential_row list" where
  "credential_rows apps now = sort_credential_rows (concat (map (app_credential_rows now) apps))"

datatype cached_index =
    AppRows "application_list_row list"
  | AppNames "application list"
  | CredRows "credential_row list"
  | SpIndex "service_principal list"

fun as_app_rows :: "cached_index \<Rightarrow> application_list_row list option" where
  "as_app_rows (AppRows rs) = Some rs" | "as_app_rows _ = None"

fun as_app_names :: "cached_index \<Rightarrow> application list option" where
  "as_app_names (AppNames rs) = Some rs" | "as_app_names _ = None"

fun as_cred_rows :: "cached_index \<Rightarrow> credential_row list option" where
  "as_cred_rows (CredRows rs) = Some rs" | "as_cred_rows _ = None"

fun as_sp_index :: "cached_index \<Rightarrow> service_principal list option" where
  "as_sp_index (SpIndex rs) = Some rs" | "as_sp_index _ = None"

definition APPS_MAX :: nat where
  "APPS_MAX = 10000"

definition SP_INDEX_MAX :: nat where
  "SP_INDEX_MAX = 10000"

section \<open>Row patches\<close>

fun upsert :: "('r \<Rightarrow> bool) \<Rightarrow> 'r \<Rightarrow> 'r list \<Rightarrow> 'r list" where
  "upsert same row [] = [row]"
| "upsert same row (r # rs) = (if same r then row # rs else r # upsert same row rs)"

definition removed_by :: "('r \<Rightarrow> bool) \<Rightarrow> 'r list \<Rightarrow> 'r list patch" where
  "removed_by gone rows =
     (if \<not> list_ex gone rows then Keep else Replace (filter (\<lambda>r. \<not> gone r) rows))"

definition app_name_index_row :: "application \<Rightarrow> application" where
  "app_name_index_row app =
     \<lparr>app_object_id = app_object_id app, app_app_id = app_app_id app, app_display_name = app_display_name app,
      app_description = None, app_sign_in_audience = None, app_publisher_domain = None, app_created_date_time = None,
      password_credentials = [], key_credentials = [], app_required_resource_access = [], app_verified_publisher = None,
      sp_lock = None, is_fallback_public_client = None, owners = None, disabled_by_microsoft_status = None,
      app_notes = None\<rparr>"

text \<open>\<open>app_name_index_hit\<close> and \<open>apps_pairing_hit\<close>: a live typed entry of the right type.\<close>

definition index_hit :: "(cached_index \<Rightarrow> 't option) \<Rightarrow> string \<Rightarrow> instant \<Rightarrow> ('j, cached_index) cache
    \<Rightarrow> 't option \<times> ('j, cached_index) cache" where
  "index_hit down key now c = (case cache_get_typed down Lists key now c of (hit, c') \<Rightarrow> (map_option snd hit, c'))"

section \<open>The patch tier\<close>

text \<open>\<open>env\<close> is what other threads do to the cache between the attempts of a patch and \<open>addr\<close> the addresses of the
  vectors a patch allocates.\<close>

definition patch_index ::
  "(nat \<Rightarrow> ('j, cached_index) cache \<Rightarrow> ('j, cached_index) cache) \<Rightarrow> (nat \<Rightarrow> nat)
     \<Rightarrow> (cached_index \<Rightarrow> 't option) \<Rightarrow> ('t \<Rightarrow> cached_index) \<Rightarrow> ('t \<Rightarrow> 't patch) \<Rightarrow> string \<Rightarrow> instant
     \<Rightarrow> ('j, cached_index) cache \<Rightarrow> bool \<times> ('j, cached_index) cache" where
  "patch_index env addr down up patch key now c = patch_typed_index_with env addr down up patch Lists key now c"

definition known_app_id ::
  "application list option \<Rightarrow> application_list_row list option \<Rightarrow> string \<Rightarrow> string option" where
  "known_app_id names rows i =
     (case Option.bind names (find (\<lambda>a. app_object_id a = i)) of
        Some a \<Rightarrow> Some (app_app_id a)
      | None \<Rightarrow> map_option alr_app_id (Option.bind rows (find (\<lambda>r. alr_id r = i))))"

definition resolve_app_ids ::
  "application list option \<Rightarrow> application_list_row list option \<Rightarrow> string list \<Rightarrow> string list option" where
  "resolve_app_ids names rows object_ids =
     (if list_all (\<lambda>i. known_app_id names rows i \<noteq> None) object_ids
      then Some (map (\<lambda>i. the (known_app_id names rows i)) object_ids) else None)"

definition patch_deleted_sps ::
  "(nat \<Rightarrow> ('j, cached_index) cache \<Rightarrow> ('j, cached_index) cache) \<Rightarrow> (nat \<Rightarrow> nat) \<Rightarrow> string \<Rightarrow> string list option
     \<Rightarrow> instant \<Rightarrow> ('j, cached_index) cache \<Rightarrow> ('j, cached_index) cache" where
  "patch_deleted_sps env addr tenant_id app_ids now c =
     (case app_ids of
        Some ids \<Rightarrow>
          snd (patch_index env addr as_sp_index SpIndex
                 (\<lambda>index. if SP_INDEX_MAX \<le> length index then Invalidate
                          else removed_by (\<lambda>sp. svp_app_id sp \<in> set ids) index)
                 (sp_index_key tenant_id) now c)
      | None \<Rightarrow> invalidate Lists (sp_index_key tenant_id) c)"

definition record_deleted_apps ::
  "(nat \<Rightarrow> ('j, cached_index) cache \<Rightarrow> ('j, cached_index) cache) \<Rightarrow> (nat \<Rightarrow> nat) \<Rightarrow> string \<Rightarrow> string list
     \<Rightarrow> instant \<Rightarrow> ('j, cached_index) cache \<Rightarrow> ('j, cached_index) cache" where
  "record_deleted_apps env addr tenant_id object_ids now c =
     (let (names, c1) = index_hit as_app_names (app_name_index_key tenant_id) now c;
          (rows, c2) = index_hit as_app_rows (apps_pairing_key tenant_id) now c1;
          app_ids = resolve_app_ids names rows object_ids;
          (pairing_patched, c3) =
            patch_index env addr as_app_rows AppRows
              (\<lambda>rs. if APPS_MAX \<le> length rs then Invalidate else removed_by (\<lambda>r. alr_id r \<in> set object_ids) rs)
              (apps_pairing_key tenant_id) now c2;
          c4 = snd (patch_index env addr as_app_names AppNames
              (\<lambda>rs. if APPS_MAX \<le> length rs then Invalidate else removed_by (\<lambda>a. app_object_id a \<in> set object_ids) rs)
              (app_name_index_key tenant_id) now c3);
          c5 = (if pairing_patched
                then snd (patch_index env addr as_cred_rows CredRows
                       (removed_by (\<lambda>r. cr_app_object_id r \<in> set object_ids))
                       (credential_expirations_key tenant_id) now c4)
                else invalidate Lists (credential_expirations_key tenant_id) c4)
      in invalidate_app_list_projections tenant_id (patch_deleted_sps env addr tenant_id app_ids now c5))"

text \<open>The rename patches, one per entry.  A vector is searched first and only copied when a row changes.\<close>

definition renamed_rows :: "string \<Rightarrow> string option \<Rightarrow> string option \<Rightarrow> application_list_row list \<Rightarrow> application_list_row list patch" where
  "renamed_rows object_id display_name audience rows =
     (let i = length (takeWhile (\<lambda>r. alr_id r \<noteq> object_id) rows)
      in if i = length rows then Keep
         else let row = rows ! i;
                  renamed = (case display_name of Some n \<Rightarrow> alr_display_name row \<noteq> n | None \<Rightarrow> False);
                  moved = (case audience of Some a \<Rightarrow> alr_sign_in_audience row \<noteq> Some a | None \<Rightarrow> False);
                  row1 = (case display_name of Some n \<Rightarrow> row\<lparr>alr_display_name := n\<rparr> | None \<Rightarrow> row);
                  row2 = (case audience of Some a \<Rightarrow> row1\<lparr>alr_sign_in_audience := Some a\<rparr> | None \<Rightarrow> row1)
              in if \<not> renamed \<and> \<not> moved then Keep else Replace (rows[i := row2]))"

definition renamed_names :: "string \<Rightarrow> string \<Rightarrow> application list \<Rightarrow> application list patch" where
  "renamed_names object_id name rows =
     (let i = length (takeWhile (\<lambda>a. app_object_id a \<noteq> object_id) rows)
      in if i < length rows \<and> app_display_name (rows ! i) \<noteq> name
         then Replace (rows[i := (rows ! i)\<lparr>app_display_name := name\<rparr>]) else Keep)"

definition renamed_creds :: "string \<Rightarrow> string \<Rightarrow> credential_row list \<Rightarrow> credential_row list patch" where
  "renamed_creds object_id name rows =
     (if \<not> list_ex (\<lambda>r. cr_app_object_id r = object_id \<and> cr_app_display_name r \<noteq> name) rows then Keep
      else Replace (map (\<lambda>r. if cr_app_object_id r = object_id then r\<lparr>cr_app_display_name := name\<rparr> else r) rows))"

definition record_renamed_app ::
  "(nat \<Rightarrow> ('j, cached_index) cache \<Rightarrow> ('j, cached_index) cache) \<Rightarrow> (nat \<Rightarrow> nat) \<Rightarrow> string \<Rightarrow> string
     \<Rightarrow> string option \<Rightarrow> string option \<Rightarrow> instant \<Rightarrow> ('j, cached_index) cache \<Rightarrow> ('j, cached_index) cache" where
  "record_renamed_app env addr tenant_id object_id display_name audience now c =
     (let c1 = snd (patch_index env addr as_app_rows AppRows (renamed_rows object_id display_name audience)
                      (apps_pairing_key tenant_id) now c);
          c2 = (case display_name of
                  None \<Rightarrow> c1
                | Some name \<Rightarrow>
                    snd (patch_index env addr as_cred_rows CredRows (renamed_creds object_id name)
                           (credential_expirations_key tenant_id) now
                      (snd (patch_index env addr as_app_names AppNames (renamed_names object_id name)
                              (app_name_index_key tenant_id) now c1))))
      in invalidate_app_list_projections tenant_id c2)"

record created_app =
  ca_application :: application
  ca_service_principal :: "service_principal option"
  ca_added_password :: "password_credential option"

definition with_added_password :: "created_app \<Rightarrow> application" where
  "with_added_password ca =
     (case ca_added_password ca of
        None \<Rightarrow> ca_application ca
      | Some added \<Rightarrow>
          (ca_application ca)\<lparr>password_credentials :=
             filter (\<lambda>p. pc_key_id p \<noteq> pc_key_id added) (password_credentials (ca_application ca))
               @ [added\<lparr>pc_secret_text := None\<rparr>]\<rparr>)"

definition within_max :: "nat \<Rightarrow> 'r list \<Rightarrow> 'r list patch" where
  "within_max n rows = (if length rows \<le> n then Replace rows else Invalidate)"

definition created_creds :: "string list \<Rightarrow> credential_row list \<Rightarrow> credential_row list \<Rightarrow> credential_row list patch" where
  "created_creds created_ids created_rows rows =
     (if created_rows = [] \<and> \<not> list_ex (\<lambda>r. cr_app_object_id r \<in> set created_ids) rows then Keep
      else Replace (sort_credential_rows
             (filter (\<lambda>r. cr_app_object_id r \<notin> set created_ids) rows @ created_rows)))"

definition record_created_apps ::
  "(nat \<Rightarrow> ('j, cached_index) cache \<Rightarrow> ('j, cached_index) cache) \<Rightarrow> (nat \<Rightarrow> nat) \<Rightarrow> string \<Rightarrow> created_app list
     \<Rightarrow> datetime \<Rightarrow> instant \<Rightarrow> ('j, cached_index) cache \<Rightarrow> ('j, cached_index) cache" where
  "record_created_apps env addr tenant_id created utc now c =
     (let apps = map (\<lambda>ca. (with_added_password ca, map_option svp_id (ca_service_principal ca))) created;
          created_ids = map (app_object_id \<circ> fst) apps;
          (pairing_patched, c1) =
            patch_index env addr as_app_rows AppRows
              (\<lambda>rows. within_max APPS_MAX
                 (fold (\<lambda>(app, sp_id). upsert (\<lambda>r. alr_id r = app_object_id app) (from_application app sp_id utc)) apps rows))
              (apps_pairing_key tenant_id) now c;
          c2 = snd (patch_index env addr as_app_names AppNames
              (\<lambda>rows. within_max APPS_MAX
                 (fold (\<lambda>(app, sp_id). upsert (\<lambda>r. app_object_id r = app_object_id app) (app_name_index_row app)) apps rows))
              (app_name_index_key tenant_id) now c1);
          c3 = (if pairing_patched
                then snd (patch_index env addr as_cred_rows CredRows
                       (created_creds created_ids (credential_rows (map fst apps) utc))
                       (credential_expirations_key tenant_id) now c2)
                else invalidate Lists (credential_expirations_key tenant_id) c2);
          sps = map sp_index_row (List.map_filter ca_service_principal created);
          c4 = (if sps = [] then c3
                else snd (patch_index env addr as_sp_index SpIndex
                       (\<lambda>index. within_max SP_INDEX_MAX (fold (\<lambda>sp. upsert (\<lambda>s. svp_id s = svp_id sp) sp) sps index))
                       (sp_index_key tenant_id) now c3))
      in invalidate_app_list_projections tenant_id c4)"

section \<open>What a patch leaves in an entry\<close>

text \<open>If an entry survives under a key it is typed and its payload satisfies a predicate.\<close>

definition index_ok :: "('j, cached_index) cache \<Rightarrow> string \<Rightarrow> (cached_index \<Rightarrow> bool) \<Rightarrow> bool" where
  "index_ok c key P \<longleftrightarrow> (\<forall>e. entry_at c Lists key = Some e \<longrightarrow> (\<exists>a v. e_typed e = Some (a, v) \<and> P v))"

lemma patch_index_alone:
  assumes len: "length (c_buckets c) = 4"
    and patch: "\<And>t v. down v = Some t \<Longrightarrow> (case f t of Replace n \<Rightarrow> P (up n) | Keep \<Rightarrow> P v | Invalidate \<Rightarrow> True)"
  shows "index_ok (snd (patch_index (\<lambda>_ d. d) addr down up f key now c)) key P"
proof -
  obtain landed d where d: "patch_index (\<lambda>_ d. d) addr down up f key now c = (landed, d)" by fastforce
  note out = patch_alone_outcome [OF len, where addr = addr and down = down and up = up and f = f and kind = Lists
      and key = key and now = now]
  show ?thesis
  proof (cases "Option.bind (Option.bind (live_entry c Lists key now) e_typed) (\<lambda>r. map_option f (down (snd r)))")
    case None
    with out d show ?thesis by (simp add: index_ok_def entry_at_def patch_index_def)
  next
    case (Some p)
    then obtain e a v t where e: "live_entry c Lists key now = Some e" "e_typed e = Some (a, v)" "down v = Some t" "p = f t"
      by (auto simp: bind_eq_Some_conv)
    show ?thesis
      using out d Some e(1-3) patch [OF e(3)] unfolding e(4) index_ok_def entry_at_def patch_index_def
      by (cases "f t") (auto simp del: kind_idx_simps)
  qed
qed

lemma patch_index_frame:
  assumes "length (c_buckets c) = 4"
  shows "key' \<noteq> key \<Longrightarrow> index_ok (snd (patch_index (\<lambda>_ d. d) addr down up f key now c)) key' P = index_ok c key' P"
    and "length (c_buckets (snd (patch_index (\<lambda>_ d. d) addr down up f key now c))) = 4"
  by (simp_all add: index_ok_def entry_at_def patch_index_def patch_alone_frame(1) [OF assms, where kind' = Lists]
      patch_alone_frame(2) [OF assms, where kind' = Audit and kind = Lists] del: kind_idx_simps)

lemma invalidate_index_ok:
  assumes "length (c_buckets c) = 4"
  shows "index_ok (invalidate Lists key c) key' P = (key' = key \<or> index_ok c key' P)"
    and "length (c_buckets (invalidate Lists key c)) = 4"
  using invalidate_entry [OF assms, of Lists key Lists key'] by (auto simp: index_ok_def)

lemma projections_index_ok:
  assumes "length (c_buckets c) = 4" and "index_ok c key P"
  shows "index_ok (invalidate_app_list_projections t c) key P"
  using assms(2)
  by (auto simp: index_ok_def invalidate_app_list_projections_def invalidate_app_role_resources_def
      invalidate_app_details_def invalidate_audit_cache_def Let_def invalidate_entry invalidate_prefix_entry assms(1)
      simp del: starts_with_code split: if_splits)

lemma index_hit_len:
  assumes "cache_inv now c" shows "cache_inv now (snd (index_hit down key now c))"
  using cache_get_typed_inv [OF assms, of down Lists key] by (simp add: index_hit_def case_prod_unfold)

lemma scanned_keys_distinct:
  "apps_pairing_key t \<noteq> app_name_index_key t" "apps_pairing_key t \<noteq> credential_expirations_key t"
  "apps_pairing_key t \<noteq> sp_index_key t" "app_name_index_key t \<noteq> credential_expirations_key t"
  "app_name_index_key t \<noteq> sp_index_key t" "credential_expirations_key t \<noteq> sp_index_key t"
  by (simp_all add: key_defs)

lemmas scanned_keys_differ = scanned_keys_distinct scanned_keys_distinct [symmetric]

lemma as_index_eq [simp]:
  "as_app_rows v = Some rs \<longleftrightarrow> v = AppRows rs" "as_app_names v = Some ns \<longleftrightarrow> v = AppNames ns"
  "as_cred_rows v = Some cs \<longleftrightarrow> v = CredRows cs" "as_sp_index v = Some sps \<longleftrightarrow> v = SpIndex sps"
  by (cases v; simp)+

text \<open>A created application is in every scanned entry that survives: its row in the list and its name in the index, next
  to every row of the others, and a secret added with it is counted but its text is never cached.\<close>

lemma upsert_keys: "set (map key (upsert (\<lambda>r. key r = key row) row rs)) = insert (key row) (set (map key rs))"
  by (induction rs) auto

lemma upsert_member: "row \<in> set (upsert same row rs)"
  by (induction rs) auto

lemma upsert_keeps: "r \<in> set rs \<Longrightarrow> \<not> same r \<Longrightarrow> r \<in> set (upsert same row rs)"
  by (induction rs) auto

lemma upsert_origin: "r \<in> set (upsert same row rs) \<Longrightarrow> r = row \<or> r \<in> set rs"
  by (induction rs) (auto split: if_splits)

lemma added_secret_text_dropped:
  assumes "\<forall>p \<in> set (password_credentials (ca_application ca)). pc_secret_text p = None"
  shows "\<forall>p \<in> set (password_credentials (with_added_password ca)). pc_secret_text p = None"
  using assms by (auto simp: with_added_password_def split: option.split)

lemma fold_upsert_keys:
  "set (map key (fold (\<lambda>x. upsert (\<lambda>r. key r = key (row x)) (row x)) xs rs)) = set (map key rs) \<union> set (map (key \<circ> row) xs)"
proof (induction xs arbitrary: rs)
  case (Cons x xs)
  then show ?case using upsert_keys [of key "row x" rs] by auto
qed simp

lemma created_rows_listed:
  assumes "length (c_buckets c) = 4"
  shows "index_ok (snd (patch_index (\<lambda>_ d. d) addr as_app_rows AppRows
      (\<lambda>rows. within_max APPS_MAX
         (fold (\<lambda>(app, sp_id). upsert (\<lambda>r. alr_id r = app_object_id app) (from_application app sp_id utc)) apps rows))
      (apps_pairing_key t) now c)) (apps_pairing_key t)
    (\<lambda>v. \<exists>rows. v = AppRows rows \<and> length rows \<le> APPS_MAX \<and> app_object_id ` fst ` set apps \<subseteq> alr_id ` set rows)"
proof -
  let ?row = "\<lambda>(app, sp_id). from_application app sp_id utc"
  have step: "(\<lambda>(app, sp_id). upsert (\<lambda>r. alr_id r = app_object_id app) (from_application app sp_id utc))
      = (\<lambda>x. upsert (\<lambda>r. alr_id r = alr_id (?row x)) (?row x))"
    by (auto simp: fun_eq_iff from_application_def)
  have ids: "map (alr_id \<circ> ?row) apps = map (app_object_id \<circ> fst) apps"
    by (auto simp: from_application_def)
  have "app_object_id ` fst ` set apps \<subseteq> alr_id ` set (fold (\<lambda>x. upsert (\<lambda>r. alr_id r = alr_id (?row x)) (?row x)) apps rows)" for rows
    using fold_upsert_keys [of alr_id ?row apps rows] unfolding ids by (auto simp: image_comp)
  then show ?thesis unfolding step
    by (intro patch_index_alone [OF assms]) (auto simp: within_max_def)
qed

section \<open>Properties\<close>

text \<open>The application ids of deleted applications that the cached indexes know.\<close>

definition cached_app_id :: "string \<Rightarrow> instant \<Rightarrow> ('j, cached_index) cache \<Rightarrow> string \<Rightarrow> string option" where
  "cached_app_id t now c i =
     (let (names, c1) = index_hit as_app_names (app_name_index_key t) now c
      in known_app_id names (fst (index_hit as_app_rows (apps_pairing_key t) now c1)) i)"

lemma record_deleted_index_ok:
  assumes "cache_reach now c"
  shows "let d = record_deleted_apps (\<lambda>_ d. d) addr t ids now c in
      index_ok d (apps_pairing_key t) (\<lambda>v. \<exists>rows. v = AppRows rows \<and> (\<forall>r \<in> set rows. alr_id r \<notin> set ids))
    \<and> index_ok d (app_name_index_key t) (\<lambda>v. \<exists>rows. v = AppNames rows \<and> (\<forall>a \<in> set rows. app_object_id a \<notin> set ids))
    \<and> index_ok d (credential_expirations_key t)
        (\<lambda>v. \<exists>rows. v = CredRows rows \<and> (\<forall>r \<in> set rows. cr_app_object_id r \<notin> set ids))
    \<and> index_ok d (sp_index_key t)
        (\<lambda>v. \<exists>sps. v = SpIndex sps \<and> (\<forall>i \<in> set ids. \<exists>a. cached_app_id t now c i = Some a \<and> (\<forall>sp \<in> set sps. svp_app_id sp \<noteq> a)))"
proof -
  obtain names c1 where names: "index_hit as_app_names (app_name_index_key t) now c = (names, c1)" by fastforce
  obtain rows c2 where rows: "index_hit as_app_rows (apps_pairing_key t) now c1 = (rows, c2)" by fastforce
  have "cache_inv now c2"
    using index_hit_len [OF index_hit_len [OF cache_reach_inv [OF assms]], of as_app_rows "apps_pairing_key t" as_app_names
        "app_name_index_key t"] names rows by simp
  then have l2: "length (c_buckets c2) = 4" by (rule cache_inv_len)
  let ?f3 = "\<lambda>rs. if APPS_MAX \<le> length rs then Invalidate else removed_by (\<lambda>r. alr_id r \<in> set ids) rs"
  let ?f4 = "\<lambda>rs. if APPS_MAX \<le> length rs then Invalidate else removed_by (\<lambda>a. app_object_id a \<in> set ids) rs"
  let ?P3 = "\<lambda>v. \<exists>rows. v = AppRows rows \<and> (\<forall>r \<in> set rows. alr_id r \<notin> set ids)"
  let ?P4 = "\<lambda>v. \<exists>rows. v = AppNames rows \<and> (\<forall>a \<in> set rows. app_object_id a \<notin> set ids)"
  let ?P5 = "\<lambda>v. \<exists>rows. v = CredRows rows \<and> (\<forall>r \<in> set rows. cr_app_object_id r \<notin> set ids)"
  let ?P6 = "\<lambda>v. \<exists>sps. v = SpIndex sps \<and> (\<forall>i \<in> set ids. \<exists>a. cached_app_id t now c i = Some a \<and> (\<forall>sp \<in> set sps. svp_app_id sp \<noteq> a))"
  obtain ok c3 where p3: "patch_index (\<lambda>_ d. d) addr as_app_rows AppRows ?f3 (apps_pairing_key t) now c2 = (ok, c3)" by fastforce
  note l3 = patch_index_frame(2) [OF l2, where addr = addr and down = as_app_rows and up = AppRows and f = ?f3
      and key = "apps_pairing_key t" and now = now, unfolded p3 snd_conv]
  have "index_ok (snd (patch_index (\<lambda>_ d. d) addr as_app_rows AppRows ?f3 (apps_pairing_key t) now c2)) (apps_pairing_key t) ?P3"
    by (intro patch_index_alone [OF l2]) (auto simp: removed_by_def list_ex_iff)
  then have i3: "index_ok c3 (apps_pairing_key t) ?P3" by (simp only: p3 snd_conv)
  let ?c4 = "snd (patch_index (\<lambda>_ d. d) addr as_app_names AppNames ?f4 (app_name_index_key t) now c3)"
  note l4 = patch_index_frame(2) [OF l3, where addr = addr and down = as_app_names and up = AppNames and f = ?f4
      and key = "app_name_index_key t" and now = now]
  have i4: "index_ok ?c4 (app_name_index_key t) ?P4" "index_ok ?c4 (apps_pairing_key t) ?P3"
    using patch_index_alone [OF l3, where down = as_app_names and f = ?f4 and P = ?P4 and up = AppNames and addr = addr
        and key = "app_name_index_key t" and now = now] i3
    by (auto simp: patch_index_frame [OF l3] scanned_keys_differ removed_by_def list_ex_iff)
  let ?c5 = "if ok then snd (patch_index (\<lambda>_ d. d) addr as_cred_rows CredRows (removed_by (\<lambda>r. cr_app_object_id r \<in> set ids))
      (credential_expirations_key t) now ?c4) else invalidate Lists (credential_expirations_key t) ?c4"
  have l5: "length (c_buckets ?c5) = 4" by (simp add: invalidate_index_ok(2) [OF l4] patch_index_frame(2) [OF l4])
  have i5: "index_ok ?c5 (credential_expirations_key t) ?P5" "index_ok ?c5 (app_name_index_key t) ?P4"
      "index_ok ?c5 (apps_pairing_key t) ?P3"
    using patch_index_alone [OF l4, where down = as_cred_rows and f = "removed_by (\<lambda>r. cr_app_object_id r \<in> set ids)"
        and P = ?P5 and up = CredRows and addr = addr and key = "credential_expirations_key t" and now = now] i4
    by (auto simp: patch_index_frame [OF l4] invalidate_index_ok [OF l4] scanned_keys_differ removed_by_def list_ex_iff)
  have cached: "cached_app_id t now c = known_app_id names rows" by (simp add: cached_app_id_def names rows fun_eq_iff)
  let ?c6 = "patch_deleted_sps (\<lambda>_ d. d) addr t (resolve_app_ids names rows ids) now ?c5"
  have i6: "index_ok ?c6 (sp_index_key t) ?P6 \<and> index_ok ?c6 (credential_expirations_key t) ?P5
      \<and> index_ok ?c6 (app_name_index_key t) ?P4 \<and> index_ok ?c6 (apps_pairing_key t) ?P3 \<and> length (c_buckets ?c6) = 4"
  proof (cases "resolve_app_ids names rows ids")
    case None
    then show ?thesis using i5
      by (simp add: patch_deleted_sps_def invalidate_index_ok [OF l5] del: if_split split del: if_split)
  next
    case (Some as)
    then have known: "\<forall>i \<in> set ids. \<exists>a. cached_app_id t now c i = Some a \<and> a \<in> set as"
      unfolding cached resolve_app_ids_def by (force simp: list_all_iff image_iff split: if_splits)
    let ?f6 = "\<lambda>index. if SP_INDEX_MAX \<le> length index then Invalidate else removed_by (\<lambda>sp. svp_app_id sp \<in> set as) index"
    have "index_ok (snd (patch_index (\<lambda>_ d. d) addr as_sp_index SpIndex ?f6 (sp_index_key t) now ?c5)) (sp_index_key t) ?P6"
      using known by (intro patch_index_alone [OF l5]) (fastforce simp: removed_by_def list_ex_iff)
    with Some i5 show ?thesis
      by (simp add: patch_deleted_sps_def patch_index_frame [OF l5] scanned_keys_differ del: if_split split del: if_split)
  qed
  have "record_deleted_apps (\<lambda>_ d. d) addr t ids now c = invalidate_app_list_projections t ?c6"
    by (simp add: record_deleted_apps_def names rows p3 Let_def)
  with i6 show ?thesis by (auto simp: Let_def intro: projections_index_ok)
qed

text \<open>After a delete is recorded, with no other thread in between, no scanned entry of the tenant that is still
  cached shows a deleted application: not the list, not the name index, not the expiry roll-up; and the service-principal
  index survives only if the application id of every deleted application was known, and then holds no principal of
  any of them.\<close>

theorem deleted_apps_leave_caches:
  assumes "cache_reach now c"
  shows "let d = record_deleted_apps (\<lambda>_ d. d) addr t ids now c in
      index_ok d (apps_pairing_key t) (\<lambda>v. \<exists>rows. v = AppRows rows \<and> (\<forall>r \<in> set rows. alr_id r \<notin> set ids))
    \<and> index_ok d (app_name_index_key t) (\<lambda>v. \<exists>rows. v = AppNames rows \<and> (\<forall>a \<in> set rows. app_object_id a \<notin> set ids))
    \<and> index_ok d (credential_expirations_key t)
        (\<lambda>v. \<exists>rows. v = CredRows rows \<and> (\<forall>r \<in> set rows. cr_app_object_id r \<notin> set ids))
    \<and> index_ok d (sp_index_key t)
        (\<lambda>v. \<exists>sps. v = SpIndex sps \<and> (\<forall>i \<in> set ids. \<exists>a. cached_app_id t now c i = Some a \<and> (\<forall>sp \<in> set sps. svp_app_id sp \<noteq> a)))"
  by (rule record_deleted_index_ok [OF assms])

definition demo_row :: "string \<Rightarrow> application_list_row" where
  "demo_row i = \<lparr>alr_id = i, alr_app_id = i, alr_display_name = i, alr_sign_in_audience = None, alr_publisher_domain = None,
     alr_created_date_time = None, alr_password_credential_count = 0, alr_key_credential_count = 0,
     alr_soonest_credential_expiry = None, alr_credential_status = List_None, alr_paired_service_principal_id = None\<rparr>"

definition demo_index_cache :: "(nat, cached_index) cache" where
  "demo_index_cache = put_typed_index 0 Lists (apps_pairing_key ''t'') (1, AppRows [demo_row ''a'', demo_row ''b'']) 5 cache_new"

theorem deleted_apps_leave_caches_witness:
  "index_ok (record_deleted_apps (\<lambda>_ d. d) (\<lambda>n. 7 + n) ''t'' [''a''] 6 demo_index_cache) (apps_pairing_key ''t'')
     (\<lambda>v. \<exists>rows. v = AppRows rows \<and> (\<forall>r \<in> set rows. alr_id r \<notin> {''a''}))"
proof -
  have "cache_reach 5 demo_index_cache" unfolding demo_index_cache_def
    by (rule cache_reach.step [OF cache_reach.start cache_step.put_typed_index])
  then have "cache_reach 6 demo_index_cache" by (rule cache_reach.later) simp
  from deleted_apps_leave_caches [OF this, of "\<lambda>n. 7 + n" "''t''" "[''a'']"] show ?thesis by (simp add: Let_def)
qed

end
