(* ===== verification/Bulk_Runs.thy ===== *)
theory Bulk_Runs
  imports Fanout Cache_Patches
begin

text \<open>
  The bulk commands (\<^verbatim>\<open>apps/desktop/src-tauri/src/commands/bulk.rs\<close>): the sequential and the capped driver, the delete
  and the expired-secret sweep with the folds that turn a run into what the operator is told and into cache updates.
  The environment of a run is an argument: when Cancel is pressed, when a task of the run latches the dead session, how the
  throttle moves the cap, which task completes next, and what each task returns (nothing when it panicked or was aborted).
\<close>

section \<open>Outcomes and progress\<close>

record bulk_error =
  be_code :: string
  be_message :: string
  be_retryable :: bool

definition bulk_error_from :: "ui_error \<Rightarrow> bulk_error" where
  "bulk_error_from e = \<lparr>be_code = ue_code e, be_message = ue_message e, be_retryable = ue_retryable e\<rparr>"

definition bulk_is_reauth_fatal :: "bulk_error \<Rightarrow> bool" where
  "bulk_is_reauth_fatal e \<longleftrightarrow> is_reauth_fatal (be_code e)"

definition error_fatal :: "bulk_error option \<Rightarrow> bool" where
  "error_fatal e \<longleftrightarrow> (case e of Some b \<Rightarrow> bulk_is_reauth_fatal b | None \<Rightarrow> False)"

definition LOST_TASK :: string where
  "LOST_TASK = ''lost_task''"

definition INTERRUPTED :: string where
  "INTERRUPTED = ''interrupted''"

record bulk_progress =
  bp_done :: nat
  bp_total :: nat
  bp_current_app :: "string option"
  bp_cancelled :: bool
  bp_in_flight_cap :: "nat option"

text \<open>The traits \<open>BulkOutcome\<close> and \<open>CappedOutcome\<close>.\<close>

record 'o outcome_ops =
  oo_session_fatal :: "'o \<Rightarrow> bool"
  oo_object_id :: "'o \<Rightarrow> string"
  oo_progress_label :: "'o \<Rightarrow> string"

record 'e bulk_env =
  en_cancelled :: "'e \<Rightarrow> bool \<times> 'e"
  en_latched :: "'e \<Rightarrow> bool \<times> 'e"
  en_limit :: "'e \<Rightarrow> nat \<times> 'e"
  en_next :: "nat \<Rightarrow> 'e \<Rightarrow> nat \<times> 'e"

section \<open>The sequential driver\<close>

fun run_seq_loop ::
  "'e bulk_env \<Rightarrow> ('o \<Rightarrow> bool) \<Rightarrow> ('i \<Rightarrow> string) \<Rightarrow> ('i \<Rightarrow> 'e \<Rightarrow> 'o \<times> 'e) \<Rightarrow> nat \<Rightarrow> nat \<Rightarrow> 'i list \<Rightarrow> 'e
     \<Rightarrow> 'o list \<times> bulk_progress list \<times> 'e" where
  "run_seq_loop E fatal label per_item n i [] e = ([], [], e)"
| "run_seq_loop E fatal label per_item n i (item # items) e =
     (let (stop, e1) = en_cancelled E e
      in if stop then ([], [], e1)
         else (let p = \<lparr>bp_done = i, bp_total = n, bp_current_app = Some (label item), bp_cancelled = False,
                        bp_in_flight_cap = None\<rparr>;
                   (o1, e2) = per_item item e1
               in if fatal o1 then ([o1], [p], e2)
                  else (let (os, ps, e3) = run_seq_loop E fatal label per_item n (Suc i) items e2
                        in (o1 # os, p # ps, e3))))"

definition run_bulk_seq ::
  "'e bulk_env \<Rightarrow> ('o \<Rightarrow> bool) \<Rightarrow> ('i \<Rightarrow> string) \<Rightarrow> ('i \<Rightarrow> 'e \<Rightarrow> 'o \<times> 'e) \<Rightarrow> 'i list \<Rightarrow> 'e
     \<Rightarrow> 'o list \<times> bool \<times> bulk_progress list \<times> 'e" where
  "run_bulk_seq E fatal label per_item items e =
     (let n = length items;
          (os, ps, e1) = run_seq_loop E fatal label per_item n 0 items e;
          (shown, e2) = en_cancelled E e1;
          (cancelled, e3) = en_cancelled E e2
      in (os, cancelled,
          ps @ [\<lparr>bp_done = length os, bp_total = n, bp_current_app = None, bp_cancelled = shown, bp_in_flight_cap = None\<rparr>], e3))"

section \<open>The capped driver\<close>

record 'o capped_run =
  cr_outcomes :: "'o list"
  cr_lost :: "string list"
  cr_dispatched :: nat
  cr_cancelled :: bool

record ('o, 'e) bulk_state =
  bs_env :: 'e
  bs_dead :: bool
  bs_done :: nat
  bs_outcomes :: "'o list"
  bs_dispatched :: "string list"
  bs_progress :: "bulk_progress list"

definition spawn_item ::
  "'e bulk_env \<Rightarrow> ('i \<Rightarrow> string) \<Rightarrow> ('i \<Rightarrow> 'e \<Rightarrow> 'o option \<times> 'e) \<Rightarrow> 'i \<Rightarrow> ('o, 'e) bulk_state
     \<Rightarrow> (string \<times> 'o option) option \<times> ('o, 'e) bulk_state" where
  "spawn_item E id_of per_item item c =
     (let (stop, e1) = en_cancelled E (bs_env c)
      in if stop then (None, c\<lparr>bs_env := e1\<rparr>)
         else (let (latched, e2) = en_latched E e1
               in if bs_dead c \<or> latched then (None, c\<lparr>bs_env := e2\<rparr>)
                  else (let (out, e3) = per_item item e2
                        in (Some (id_of item, out),
                            c\<lparr>bs_env := e3, bs_dispatched := bs_dispatched c @ [id_of item]\<rparr>))))"

definition collect_joined ::
  "'e bulk_env \<Rightarrow> 'o outcome_ops \<Rightarrow> nat \<Rightarrow> string \<times> 'o option \<Rightarrow> ('o, 'e) bulk_state \<Rightarrow> ('o, 'e) bulk_state" where
  "collect_joined E ops n h c =
     (let d = Suc (bs_done c);
          (cap, e1) = en_limit E (bs_env c);
          (current_app, c1) = (case snd h of
               Some out \<Rightarrow> (Some (oo_progress_label ops out),
                            c\<lparr>bs_dead := bs_dead c \<or> oo_session_fatal ops out, bs_outcomes := bs_outcomes c @ [out]\<rparr>)
             | None \<Rightarrow> (None, c));
          (shown, e2) = en_cancelled E e1
      in c1\<lparr>bs_env := e2, bs_done := d,
            bs_progress := bs_progress c1 @ [\<lparr>bp_done = d, bp_total = n, bp_current_app = current_app,
               bp_cancelled = shown, bp_in_flight_cap = Some cap\<rparr>]\<rparr>)"

definition bulk_dispatcher ::
  "'e bulk_env \<Rightarrow> 'o outcome_ops \<Rightarrow> nat \<Rightarrow> ('i \<Rightarrow> string) \<Rightarrow> ('i \<Rightarrow> 'e \<Rightarrow> 'o option \<times> 'e)
     \<Rightarrow> ('i, string \<times> 'o option, ('o, 'e) bulk_state) dispatcher" where
  "bulk_dispatcher E ops n id_of per_item =
     \<lparr>di_cap = (\<lambda>c. let (k, e) = en_limit E (bs_env c) in (k, c\<lparr>bs_env := e\<rparr>)),
      di_spawn = spawn_item E id_of per_item,
      di_next = (\<lambda>m c. let (k, e) = en_next E m (bs_env c) in (k, c\<lparr>bs_env := e\<rparr>)),
      di_collect = collect_joined E ops n\<rparr>"

definition stopped_by_cancel :: "'e bulk_env \<Rightarrow> bool \<Rightarrow> bool \<Rightarrow> 'e \<Rightarrow> bool \<times> 'e" where
  "stopped_by_cancel E cancelled_early dead e =
     (let (c, e1) = en_cancelled E e
      in if c then (True, e1)
         else if \<not> cancelled_early then (False, e1)
         else (let (l, e2) = en_latched E e1 in (\<not> (dead \<or> l), e2)))"

definition run_bulk_capped ::
  "'e bulk_env \<Rightarrow> 'o outcome_ops \<Rightarrow> ('i \<Rightarrow> string) \<Rightarrow> ('i \<Rightarrow> 'e \<Rightarrow> 'o option \<times> 'e) \<Rightarrow> bool \<Rightarrow> 'i list \<Rightarrow> 'e
     \<Rightarrow> 'o capped_run \<times> ('o, 'e) bulk_state \<times> (string \<times> 'o option) dispatch_event list" where
  "run_bulk_capped E ops id_of per_item dead items e =
     (let n = length items;
          (cap0, e0) = en_limit E e;
          c0 = \<lparr>bs_env = e0, bs_dead = dead, bs_done = 0, bs_outcomes = [], bs_dispatched = [],
                bs_progress = [\<lparr>bp_done = 0, bp_total = n, bp_current_app = None, bp_cancelled = False,
                                bp_in_flight_cap = Some cap0\<rparr>]\<rparr>;
          (cancelled_early, c1, ev) = dispatch_capped (bulk_dispatcher E ops n id_of per_item) items c0;
          lost = filter (\<lambda>i. i \<notin> oo_object_id ops ` set (bs_outcomes c1)) (bs_dispatched c1);
          (cancelled, e2) = stopped_by_cancel E cancelled_early (bs_dead c1) (bs_env c1);
          (cap, e3) = en_limit E e2
      in (\<lparr>cr_outcomes = bs_outcomes c1, cr_lost = lost, cr_dispatched = length (bs_dispatched c1),
           cr_cancelled = cancelled\<rparr>,
          c1\<lparr>bs_env := e3,
             bs_progress := bs_progress c1 @ [\<lparr>bp_done = bs_done c1, bp_total = n, bp_current_app = None,
               bp_cancelled = cancelled, bp_in_flight_cap = Some cap\<rparr>]\<rparr>, ev))"

section \<open>Delete\<close>

record bulk_delete_failure =
  bdf_object_id :: string
  bdf_message :: string
  bdf_code :: "string option"

record bulk_delete_result =
  bdr_deleted :: "string list"
  bdr_failed :: "bulk_delete_failure list"
  bdr_cancelled :: bool

type_synonym delete_outcome = "bulk_delete_failure + string"

definition delete_one :: "(string \<Rightarrow> 'w \<Rightarrow> ui_error option \<times> 'w) \<Rightarrow> string \<Rightarrow> 'w \<Rightarrow> delete_outcome \<times> 'w" where
  "delete_one delete_application object_id w =
     (case delete_application object_id w of
        (None, w1) \<Rightarrow> (Inr object_id, w1)
      | (Some ui, w1) \<Rightarrow>
          (Inl \<lparr>bdf_object_id = object_id, bdf_message = ue_message ui, bdf_code = Some (ue_code ui)\<rparr>, w1))"

definition delete_object_id :: "delete_outcome \<Rightarrow> string" where
  "delete_object_id out = (case out of Inr i \<Rightarrow> i | Inl failure \<Rightarrow> bdf_object_id failure)"

definition delete_session_fatal :: "delete_outcome \<Rightarrow> bool" where
  "delete_session_fatal out =
     (case out of
        Inr _ \<Rightarrow> False
      | Inl failure \<Rightarrow> (case bdf_code failure of Some code \<Rightarrow> ui_is_reauth_fatal (ui_error_new code [] False) | None \<Rightarrow> False))"

definition delete_ops :: "delete_outcome outcome_ops" where
  "delete_ops = \<lparr>oo_session_fatal = delete_session_fatal, oo_object_id = delete_object_id, oo_progress_label = delete_object_id\<rparr>"

definition lost_delete :: "string \<Rightarrow> bulk_delete_failure" where
  "lost_delete object_id = \<lparr>bdf_object_id = object_id,
     bdf_message = ''its delete ended without reporting an outcome; check Recently deleted before re-running'',
     bdf_code = Some LOST_TASK\<rparr>"

definition finish_bulk_delete ::
  "(nat \<Rightarrow> ('j, cached_index) cache \<Rightarrow> ('j, cached_index) cache) \<Rightarrow> (nat \<Rightarrow> nat) \<Rightarrow> string \<Rightarrow> delete_outcome capped_run
     \<Rightarrow> instant \<Rightarrow> ('j, cached_index) cache \<Rightarrow> bulk_delete_result \<times> ('j, cached_index) cache" where
  "finish_bulk_delete env addr tenant_id run now c =
     (let deleted = List.map_filter (\<lambda>out. case out of Inr i \<Rightarrow> Some i | Inl _ \<Rightarrow> None) (cr_outcomes run);
          reported = List.map_filter (\<lambda>out. case out of Inr _ \<Rightarrow> None | Inl failure \<Rightarrow> Some failure) (cr_outcomes run);
          failed = reported @ map lost_delete (cr_lost run);
          c1 = (if cr_lost run \<noteq> [] \<or> deleted \<noteq> [] \<and> failed \<noteq> [] then invalidate_app_lists tenant_id c
                else if deleted \<noteq> [] then record_deleted_apps env addr tenant_id deleted now c
                else c)
      in (\<lparr>bdr_deleted = deleted, bdr_failed = failed, bdr_cancelled = cr_cancelled run\<rparr>, c1))"

text \<open>The command.  A task that panics or is aborted may still have landed its DELETE: \<open>joins\<close> says which ones report.\<close>

definition delete_task ::
  "(string \<Rightarrow> 'e \<Rightarrow> ui_error option \<times> 'e) \<Rightarrow> ('e \<Rightarrow> bool \<times> 'e) \<Rightarrow> string \<Rightarrow> 'e \<Rightarrow> delete_outcome option \<times> 'e" where
  "delete_task delete_application joins object_id e =
     (let (out, e1) = delete_one delete_application object_id e; (ok, e2) = joins e1
      in (if ok then Some out else None, e2))"

definition bulk_delete_applications ::
  "'e bulk_env \<Rightarrow> (string \<Rightarrow> 'e \<Rightarrow> ui_error option \<times> 'e) \<Rightarrow> ('e \<Rightarrow> bool \<times> 'e)
     \<Rightarrow> (nat \<Rightarrow> ('j, cached_index) cache \<Rightarrow> ('j, cached_index) cache) \<Rightarrow> (nat \<Rightarrow> nat) \<Rightarrow> string \<Rightarrow> string list
     \<Rightarrow> instant \<Rightarrow> 'e \<Rightarrow> ('j, cached_index) cache \<Rightarrow> bulk_delete_result \<times> ('j, cached_index) cache" where
  "bulk_delete_applications E delete_application joins env addr tenant_id object_ids now e c =
     (let (run, st, ev) = run_bulk_capped E delete_ops id (delete_task delete_application joins) False object_ids e
      in finish_bulk_delete env addr tenant_id run now c)"

section \<open>The expired-secret sweep\<close>

record app_removal_summary =
  rs_object_id :: string
  rs_display_name :: string
  rs_removed_key_ids :: "string list"
  rs_failed_key_ids :: "string list"
  rs_error :: "bulk_error option"

record sweep_item =
  si_summary :: app_removal_summary
  si_unattempted :: nat

text \<open>The key loop: Cancel and the dead session are polled before every key; the first failure is kept unless a later
  one is fatal, which also stops the loop.  The latch is threaded through.\<close>

fun sweep_keys ::
  "'e bulk_env \<Rightarrow> (string \<Rightarrow> string \<Rightarrow> 'e \<Rightarrow> ui_error option \<times> 'e) \<Rightarrow> string \<Rightarrow> bool \<Rightarrow> string list
     \<Rightarrow> bulk_error option \<Rightarrow> 'e \<Rightarrow> string list \<times> string list \<times> bulk_error option \<times> bool \<times> 'e" where
  "sweep_keys E remove_password object_id dead [] err e = ([], [], err, dead, e)"
| "sweep_keys E remove_password object_id dead (key # keys) err e =
     (let (stop, e1) = en_cancelled E e;
          (latched, e2) = (if stop then (False, e1) else en_latched E e1)
      in if stop \<or> dead \<or> latched then ([], [], err, dead, e2)
         else (case remove_password object_id key e2 of
             (None, e3) \<Rightarrow>
               (let (removed, failed, err', dead', e4) = sweep_keys E remove_password object_id dead keys err e3
                in (key # removed, failed, err', dead', e4))
           | (Some ui, e3) \<Rightarrow>
               (let fatal = is_reauth_fatal (ue_code ui);
                    err1 = (if fatal \<or> err = None then Some (bulk_error_from ui) else err)
                in if fatal then ([], [key], err1, True, e3)
                   else (let (removed, failed, err', dead', e4) = sweep_keys E remove_password object_id dead keys err1 e3
                         in (removed, key # failed, err', dead', e4)))))"

definition sweep_one ::
  "'e bulk_env \<Rightarrow> (string \<Rightarrow> string \<Rightarrow> 'e \<Rightarrow> ui_error option \<times> 'e) \<Rightarrow> bool \<Rightarrow> datetime \<Rightarrow> application \<Rightarrow> 'e
     \<Rightarrow> sweep_item \<times> bool \<times> 'e" where
  "sweep_one E remove_password dead now app e =
     (let expired_key_ids = expired_password_key_ids app now;
          (removed, failed, err, dead', e1) = sweep_keys E remove_password (app_object_id app) dead expired_key_ids None e
      in (\<lparr>si_summary = \<lparr>rs_object_id = app_object_id app, rs_display_name = app_display_name app,
             rs_removed_key_ids = removed, rs_failed_key_ids = failed, rs_error = err\<rparr>,
           si_unattempted = length expired_key_ids - length removed - length failed\<rparr>, dead', e1))"

definition sweep_ops :: "sweep_item outcome_ops" where
  "sweep_ops = \<lparr>oo_session_fatal = (\<lambda>i. error_fatal (rs_error (si_summary i))),
     oo_object_id = (\<lambda>i. rs_object_id (si_summary i)), oo_progress_label = (\<lambda>i. rs_display_name (si_summary i))\<rparr>"

definition interrupted_error :: "nat \<Rightarrow> bulk_error" where
  "interrupted_error n = \<lparr>be_code = INTERRUPTED,
     be_message = (if n = 1 then ''the run stopped before 1 more expired secret was removed; re-run to finish''
       else ''the run stopped before '' @ show_nat n @ '' more expired secrets were removed; re-run to finish''),
     be_retryable = False\<rparr>"

definition tried_any :: "app_removal_summary \<Rightarrow> bool" where
  "tried_any r \<longleftrightarrow> rs_removed_key_ids r \<noteq> [] \<or> rs_failed_key_ids r \<noteq> []"

definition never_started :: "sweep_item \<Rightarrow> bool" where
  "never_started i \<longleftrightarrow> 0 < si_unattempted i \<and> \<not> tried_any (si_summary i)"

definition sweep_row :: "sweep_item \<Rightarrow> app_removal_summary option" where
  "sweep_row i =
     (if never_started i then None
      else (let r = si_summary i;
                r1 = (if 0 < si_unattempted i \<and> rs_error r = None
                      then r\<lparr>rs_error := Some (interrupted_error (si_unattempted i))\<rparr> else r)
            in if tried_any r1 \<or> rs_error r1 \<noteq> None then Some r1 else None))"

record bulk_remove_expired_result =
  brx_apps_scanned :: nat
  brx_summaries :: "app_removal_summary list"
  brx_cancelled :: bool
  brx_apps_checked :: "nat option"

definition lost_sweep :: "(string \<Rightarrow> string) \<Rightarrow> string \<Rightarrow> app_removal_summary" where
  "lost_sweep name_of object_id =
     \<lparr>rs_object_id = object_id, rs_display_name = name_of object_id, rs_removed_key_ids = [], rs_failed_key_ids = [],
      rs_error = Some \<lparr>be_code = LOST_TASK,
        be_message = ''its expired-secret removal ended without reporting an outcome; check the app's credentials before re-running'',
        be_retryable = False\<rparr>\<rparr>"

definition finish_expired_sweep ::
  "string \<Rightarrow> nat \<Rightarrow> app_removal_summary list \<Rightarrow> sweep_item capped_run \<Rightarrow> (string \<Rightarrow> string) \<Rightarrow> ('j, 'a) cache
     \<Rightarrow> bulk_remove_expired_result \<times> ('j, 'a) cache" where
  "finish_expired_sweep tenant_id apps_scanned unreadable run name_of c =
     (let summaries = unreadable @ List.map_filter sweep_row (cr_outcomes run);
          skipped = length (filter never_started (cr_outcomes run));
          mutated = filter (\<lambda>r. rs_removed_key_ids r \<noteq> []) summaries;
          c1 = fold (\<lambda>r. invalidate_app_credentials tenant_id (rs_object_id r)) mutated c;
          c2 = fold (\<lambda>i. invalidate_app_credentials tenant_id i) (cr_lost run) c1
      in (\<lparr>brx_apps_scanned = apps_scanned, brx_summaries = summaries @ map (lost_sweep name_of) (cr_lost run),
           brx_cancelled = cr_cancelled run,
           brx_apps_checked = Some (length unreadable + cr_dispatched run - skipped)\<rparr>, c2))"

section \<open>Restore pairing\<close>

text \<open>Deleted service principals grouped under the deleted application they pair with.\<close>

record deleted_object =
  del_id :: string
  del_app_id :: "string option"

definition sp_pairs_for :: "deleted_object list \<Rightarrow> deleted_object list \<Rightarrow> (string \<times> string list) list" where
  "sp_pairs_for apps sps =
     List.map_filter (\<lambda>a. Option.bind (del_app_id a) (\<lambda>i.
        (let ids = map del_id (filter (\<lambda>sp. del_app_id sp = Some i) sps)
         in if ids = [] then None else Some (del_id a, ids)))) apps"

section \<open>Lemmas on the capped driver\<close>

text \<open>What the collector has seen: the dispatched ids, the outcomes in completion order, the count, the progress events,
  and that nothing was spawned after a fatal outcome.\<close>

fun quiet_after_fatal :: "'o outcome_ops \<Rightarrow> bool \<Rightarrow> (string \<times> 'o option) dispatch_event list \<Rightarrow> bool" where
  "quiet_after_fatal ops dead [] \<longleftrightarrow> True"
| "quiet_after_fatal ops dead (Spawned h # es) \<longleftrightarrow> \<not> dead \<and> quiet_after_fatal ops dead es"
| "quiet_after_fatal ops dead (CapRead k # es) \<longleftrightarrow> quiet_after_fatal ops dead es"
| "quiet_after_fatal ops dead (Joined h # es) \<longleftrightarrow>
     quiet_after_fatal ops (dead \<or> (case snd h of Some out \<Rightarrow> oo_session_fatal ops out | None \<Rightarrow> False)) es"

definition dead_after :: "'o outcome_ops \<Rightarrow> bool \<Rightarrow> (string \<times> 'o option) dispatch_event list \<Rightarrow> bool" where
  "dead_after ops dead es \<longleftrightarrow> dead \<or> list_ex (\<lambda>h. case snd h of Some out \<Rightarrow> oo_session_fatal ops out | None \<Rightarrow> False) (joined es)"

lemma dead_after_step [simp]:
  "dead_after ops dead (es @ [Spawned h]) = dead_after ops dead es"
  "dead_after ops dead (es @ [CapRead k]) = dead_after ops dead es"
  "dead_after ops dead (es @ [Joined h]) =
     (dead_after ops dead es \<or> (case snd h of Some out \<Rightarrow> oo_session_fatal ops out | None \<Rightarrow> False))"
  by (auto simp: dead_after_def)

lemma quiet_append:
  "quiet_after_fatal ops dead (es @ fs) \<longleftrightarrow> quiet_after_fatal ops dead es \<and> quiet_after_fatal ops (dead_after ops dead es) fs"
proof (induction es arbitrary: dead)
  case (Cons x es)
  then show ?case by (cases x) (auto simp: dead_after_def)
qed (simp add: dead_after_def)

definition bulk_seen ::
  "'o outcome_ops \<Rightarrow> bool \<Rightarrow> ('i \<Rightarrow> string) \<Rightarrow> ('i \<Rightarrow> 'e \<Rightarrow> 'o option \<times> 'e)
     \<Rightarrow> (string \<times> 'o option) dispatch_event list \<Rightarrow> ('o, 'e) bulk_state \<Rightarrow> bool" where
  "bulk_seen ops dead id_of per_item es c \<longleftrightarrow>
     bs_dispatched c = map fst (spawned es)
     \<and> bs_outcomes c = List.map_filter snd (joined es)
     \<and> bs_done c = length (joined es)
     \<and> map bp_done (bs_progress c) = [0..<Suc (length (joined es))]
     \<and> bs_dead c = dead_after ops dead es
     \<and> quiet_after_fatal ops dead es
     \<and> (\<forall>h \<in> set (spawned es). \<exists>item e e'. fst h = id_of item \<and> per_item item e = (snd h, e'))"

interpretation bulk: dispatch_observer "bulk_dispatcher E ops n id_of per_item" "bulk_seen ops dead id_of per_item"
  for E :: "'e bulk_env" and ops :: "'o outcome_ops" and n id_of and per_item :: "'i \<Rightarrow> 'e \<Rightarrow> 'o option \<times> 'e" and dead
proof
  fix es c k c' and i :: 'i and h and m :: nat
  assume seen: "bulk_seen ops dead id_of per_item es c"
  show "di_cap (bulk_dispatcher E ops n id_of per_item) c = (k, c') \<Longrightarrow> bulk_seen ops dead id_of per_item (es @ [CapRead k]) c'"
    using seen by (auto simp: bulk_dispatcher_def bulk_seen_def quiet_append Let_def split: prod.splits)
  show "di_spawn (bulk_dispatcher E ops n id_of per_item) i c = (Some h, c') \<Longrightarrow> bulk_seen ops dead id_of per_item (es @ [Spawned h]) c'"
    using seen by (fastforce simp: bulk_dispatcher_def spawn_item_def bulk_seen_def quiet_append Let_def split: prod.splits if_splits)
  show "di_spawn (bulk_dispatcher E ops n id_of per_item) i c = (None, c') \<Longrightarrow> bulk_seen ops dead id_of per_item es c'"
    using seen by (auto simp: bulk_dispatcher_def spawn_item_def bulk_seen_def Let_def split: prod.splits if_splits)
  show "di_next (bulk_dispatcher E ops n id_of per_item) m c = (k, c')
      \<Longrightarrow> bulk_seen ops dead id_of per_item (es @ [Joined h]) (di_collect (bulk_dispatcher E ops n id_of per_item) h c')"
    using seen by (auto simp: bulk_dispatcher_def collect_joined_def bulk_seen_def quiet_append map_filter_def Let_def
        split: prod.splits option.splits)
qed

text \<open>The events of a run and the state it ends in.\<close>

lemma run_bulk_capped_seen:
  fixes E :: "'e bulk_env" and ops :: "'o outcome_ops"
  assumes "run_bulk_capped E ops id_of per_item dead items e = (run, st, ev)"
  shows "mset (joined ev) = mset (spawned ev)" "length (spawned ev) \<le> length items" "within_cap 0 1 ev"
    "map fst (spawned ev) = map id_of (take (length (spawned ev)) items)"
    "cr_outcomes run = List.map_filter snd (joined ev)" "cr_dispatched run = length (spawned ev)"
    "cr_lost run = filter (\<lambda>i. i \<notin> oo_object_id ops ` set (cr_outcomes run)) (map fst (spawned ev))"
    "map bp_done (bs_progress st) = [0..<Suc (length (spawned ev))] @ [length (spawned ev)]"
    "quiet_after_fatal ops dead ev"
    "\<forall>h \<in> set (spawned ev). \<exists>item e e'. fst h = id_of item \<and> per_item item e = (snd h, e')"
proof -
  let ?D = "bulk_dispatcher E ops (length items) id_of per_item"
  obtain cap0 e0 where cap0: "en_limit E e = (cap0, e0)" by fastforce
  define c0 :: "('o, 'e) bulk_state" where "c0 = \<lparr>bs_env = e0, bs_dead = dead, bs_done = 0, bs_outcomes = [], bs_dispatched = [],
      bs_progress = [\<lparr>bp_done = 0, bp_total = length items, bp_current_app = None, bp_cancelled = False,
                      bp_in_flight_cap = Some cap0\<rparr>]\<rparr>"
  obtain early c1 ev1 where disp: "dispatch_capped ?D items c0 = (early, c1, ev1)" by (metis prod_cases3)
  obtain cancelled e2 where cancel: "stopped_by_cancel E early (bs_dead c1) (bs_env c1) = (cancelled, e2)" by fastforce
  obtain cap e3 where cap: "en_limit E e2 = (cap, e3)" by fastforce
  have run: "ev = ev1" "cr_outcomes run = bs_outcomes c1" "cr_dispatched run = length (bs_dispatched c1)"
      "cr_lost run = filter (\<lambda>i. i \<notin> oo_object_id ops ` set (bs_outcomes c1)) (bs_dispatched c1)"
      "map bp_done (bs_progress st) = map bp_done (bs_progress c1) @ [bs_done c1]"
    using assms disp cancel cap unfolding run_bulk_capped_def c0_def by (auto simp: cap0 Let_def)
  have "bulk_seen ops dead id_of per_item [] c0" by (simp add: bulk_seen_def c0_def dead_after_def map_filter_def)
  from bulk.observed [OF disp this] have seen: "bulk_seen ops dead id_of per_item ev c1" using run(1) by simp
  have joined: "mset (joined ev) = mset (spawned ev)" "length (spawned ev) \<le> length items" "within_cap 0 1 ev"
    using dispatch_loop_spec [of ?D items "[]" c0 early c1 ev 1] disp run(1) by (simp_all add: dispatch_capped_def)
  then have len: "length (joined ev) = length (spawned ev)" by (metis size_mset)
  show "map fst (spawned ev) = map id_of (take (length (spawned ev)) items)"
    using dispatch_in_order [OF _ disp, of fst id_of] run(1)
    by (force simp: bulk_dispatcher_def spawn_item_def Let_def split: prod.splits if_splits)
  show "mset (joined ev) = mset (spawned ev)" "length (spawned ev) \<le> length items" "within_cap 0 1 ev"
    by (fact joined)+
  show "cr_outcomes run = List.map_filter snd (joined ev)" "cr_dispatched run = length (spawned ev)"
    "cr_lost run = filter (\<lambda>i. i \<notin> oo_object_id ops ` set (cr_outcomes run)) (map fst (spawned ev))"
    "map bp_done (bs_progress st) = [0..<Suc (length (spawned ev))] @ [length (spawned ev)]"
    "quiet_after_fatal ops dead ev"
    "\<forall>h \<in> set (spawned ev). \<exists>item e e'. fst h = id_of item \<and> per_item item e = (snd h, e')"
    using seen run len by (simp_all add: bulk_seen_def)
qed

section \<open>Properties\<close>

lemma reported_ids:
  assumes run: "run_bulk_capped E ops id_of per_item dead items e = (run, st, ev)"
    and ids: "\<forall>item e out e'. per_item item e = (Some out, e') \<longrightarrow> oo_object_id ops out = id_of item"
  shows "oo_object_id ops ` set (cr_outcomes run) = fst ` {h \<in> set (spawned ev). snd h \<noteq> None}"
proof -
  note seen = run_bulk_capped_seen [OF run]
  have same: "set (joined ev) = set (spawned ev)" using seen(1) by (metis set_mset_mset)
  have id: "oo_object_id ops out = fst h" if "h \<in> set (spawned ev)" "snd h = Some out" for h out
    using seen(10) ids that by metis
  show ?thesis unfolding seen(5) set_map_filter same using id by (force simp: image_iff)
qed

text \<open>A capped bulk run accounts for everything it started, whatever order its tasks finish in and however many are
  lost: the items dispatched are a prefix of the selection, each is reported or listed as lost and none is both (exactly
  one of the two per item when the ids are distinct), the progress counts \<open>0, 1, \<dots>, n, n\<close>, the throttle's cap is
  respected, and nothing is dispatched after an outcome that ended the session.\<close>

theorem bulk_run_accounts:
  assumes run: "run_bulk_capped E ops id_of per_item dead items e = (run, st, ev)"
    and ids: "\<forall>item e out e'. per_item item e = (Some out, e') \<longrightarrow> oo_object_id ops out = id_of item"
  shows "cr_dispatched run \<le> length items
       \<and> oo_object_id ops ` set (cr_outcomes run) \<union> set (cr_lost run) = set (map id_of (take (cr_dispatched run) items))
       \<and> oo_object_id ops ` set (cr_outcomes run) \<inter> set (cr_lost run) = {}
       \<and> (distinct (map id_of items) \<longrightarrow> length (cr_outcomes run) + length (cr_lost run) = cr_dispatched run)
       \<and> map bp_done (bs_progress st) = [0..<Suc (cr_dispatched run)] @ [cr_dispatched run]
       \<and> within_cap 0 1 ev \<and> quiet_after_fatal ops dead ev"
proof -
  note seen = run_bulk_capped_seen [OF run] and rep = reported_ids [OF run ids]
  have spawned: "set (map id_of (take (cr_dispatched run) items)) = fst ` set (spawned ev)"
    unfolding seen(6) seen(4) [symmetric] by simp
  have union: "oo_object_id ops ` set (cr_outcomes run) \<union> set (cr_lost run) = fst ` set (spawned ev)"
    unfolding seen(7) rep by auto
  have "length (cr_outcomes run) + length (cr_lost run) = cr_dispatched run" if "distinct (map id_of items)"
  proof -
    have dist: "distinct (map fst (spawned ev))" unfolding seen(4) using that by (simp add: take_map [symmetric])
    have "size (filter_mset (\<lambda>h. snd h \<noteq> None) (mset (joined ev))) = size (filter_mset (\<lambda>h. snd h \<noteq> None) (mset (spawned ev)))"
      by (simp add: seen(1))
    then have outs: "length (cr_outcomes run) = length (filter (\<lambda>h. snd h \<noteq> None) (spawned ev))"
      unfolding seen(5) by (simp add: map_filter_def flip: mset_filter)
    have "fst h \<in> fst ` {h \<in> set (spawned ev). snd h \<noteq> None} \<longleftrightarrow> snd h \<noteq> None" if "h \<in> set (spawned ev)" for h
    proof
      assume "fst h \<in> fst ` {h \<in> set (spawned ev). snd h \<noteq> None}"
      then obtain h' where "h' \<in> set (spawned ev)" "snd h' \<noteq> None" "fst h' = fst h" by auto
      with dist that show "snd h \<noteq> None" by (auto simp: distinct_map dest: inj_onD)
    qed (use that in auto)
    then have "filter (\<lambda>h. fst h \<notin> fst ` {h \<in> set (spawned ev). snd h \<noteq> None}) (spawned ev) = filter (\<lambda>h. snd h = None) (spawned ev)"
      by (intro filter_cong) auto
    then have "length (cr_lost run) = length (filter (\<lambda>h. snd h = None) (spawned ev))"
      unfolding seen(7) rep by (simp add: filter_map comp_def)
    with outs show ?thesis unfolding seen(6) using sum_length_filter_compl [of "\<lambda>h. snd h \<noteq> None" "spawned ev"] by simp
  qed
  with seen union spawned show ?thesis by auto
qed

definition demo_bulk_env :: "nat bulk_env" where
  "demo_bulk_env = \<lparr>en_cancelled = (\<lambda>e. (False, e)), en_latched = (\<lambda>e. (False, e)), en_limit = (\<lambda>e. (2, e)),
     en_next = (\<lambda>m e. (m - 1, e))\<rparr>"

definition demo_task :: "string \<Rightarrow> nat \<Rightarrow> delete_outcome option \<times> nat" where
  "demo_task i e = (if i = ''b'' then None else Some (Inr i), Suc e)"

lemma demo_bulk_run:
  "fst (run_bulk_capped demo_bulk_env delete_ops id demo_task False [''a'', ''b'', ''c''] 0)
     = \<lparr>cr_outcomes = [Inr ''c'', Inr ''a''], cr_lost = [''b''], cr_dispatched = 3, cr_cancelled = False\<rparr>"
  by code_simp

theorem bulk_run_accounts_witness:
  "delete_object_id ` set [Inr ''c'', Inr ''a''] \<union> set [''b''] = set (map id (take 3 [''a'', ''b'', ''c'']))"
proof -
  obtain run st ev where run: "run_bulk_capped demo_bulk_env delete_ops id demo_task False [''a'', ''b'', ''c''] 0 = (run, st, ev)"
    by (metis prod_cases3)
  have ids: "\<forall>item e out e'. demo_task item e = (Some out, e') \<longrightarrow> oo_object_id delete_ops out = id item"
    by (auto simp: demo_task_def delete_ops_def delete_object_id_def split: if_splits)
  from bulk_run_accounts [OF run ids] demo_bulk_run run show ?thesis by (simp add: delete_ops_def)
qed

lemma app_lists_gone:
  assumes "length (c_buckets c) = 4" and "key \<in> scanned_keys t"
  shows "index_ok (invalidate_app_lists t c) key P"
  using assms(2)
  by (auto simp: index_ok_def invalidate_app_lists_def invalidate_app_role_resources_def invalidate_app_details_def
      invalidate_audit_cache_def Let_def invalidate_entry invalidate_prefix_entry assms(1) scanned_keys_def
      simp del: starts_with_code)

lemma delete_task_id:
  "delete_task api joins i e = (Some out, e') \<Longrightarrow> delete_object_id out = i"
  by (auto simp: delete_task_def delete_one_def delete_object_id_def Let_def split: prod.splits option.splits if_splits)

lemma outcome_ids:
  "set (List.map_filter (\<lambda>out. case out of Inr i \<Rightarrow> Some i | Inl _ \<Rightarrow> None) outs)
     \<union> bdf_object_id ` set (List.map_filter (\<lambda>out. case out of Inr _ \<Rightarrow> None | Inl failure \<Rightarrow> Some failure) outs)
   = delete_object_id ` set outs"
proof (induction outs)
  case (Cons out outs)
  then show ?case by (cases out) (simp_all add: map_filter_simps delete_object_id_def)
qed (simp add: map_filter_simps)

text \<open>No scanned entry of the tenant shows one of the applications.\<close>

definition rows_free_of :: "string list \<Rightarrow> string \<Rightarrow> ('j, cached_index) cache \<Rightarrow> bool" where
  "rows_free_of ids t d \<longleftrightarrow>
     index_ok d (apps_pairing_key t) (\<lambda>v. \<exists>rows. v = AppRows rows \<and> (\<forall>r \<in> set rows. alr_id r \<notin> set ids))
     \<and> index_ok d (app_name_index_key t) (\<lambda>v. \<exists>rows. v = AppNames rows \<and> (\<forall>a \<in> set rows. app_object_id a \<notin> set ids))
     \<and> index_ok d (credential_expirations_key t)
         (\<lambda>v. \<exists>rows. v = CredRows rows \<and> (\<forall>r \<in> set rows. cr_app_object_id r \<notin> set ids))"

text \<open>A record, kept by the environment, of the DELETEs the API was asked for and of its answers.\<close>

definition logs_deletes ::
  "'e bulk_env \<Rightarrow> (string \<Rightarrow> 'e \<Rightarrow> ui_error option \<times> 'e) \<Rightarrow> ('e \<Rightarrow> bool \<times> 'e) \<Rightarrow> ('e \<Rightarrow> (string \<times> ui_error option) list) \<Rightarrow> bool" where
  "logs_deletes E api joins calls \<longleftrightarrow>
     (\<forall>e. calls (snd (en_cancelled E e)) = calls e \<and> calls (snd (en_latched E e)) = calls e \<and> calls (snd (en_limit E e)) = calls e
        \<and> calls (snd (joins e)) = calls e)
     \<and> (\<forall>m e. calls (snd (en_next E m e)) = calls e)
     \<and> (\<forall>i e. calls (snd (api i e)) = calls e @ [(i, fst (api i e))])"

lemma logs_deletesD:
  assumes "logs_deletes E api joins calls"
  shows "en_cancelled E e = (b, e') \<Longrightarrow> calls e' = calls e" "en_latched E e = (b, e') \<Longrightarrow> calls e' = calls e"
    "en_limit E e = (k, e') \<Longrightarrow> calls e' = calls e" "joins e = (b, e') \<Longrightarrow> calls e' = calls e" "en_next E m e = (k, e') \<Longrightarrow> calls e' = calls e"
    "api i e = (a, e') \<Longrightarrow> calls e' = calls e @ [(i, a)]"
  using assms unfolding logs_deletes_def by (metis fst_conv snd_conv)+

text \<open>What a task that reports says of the answer to its DELETE.\<close>

definition delete_answer :: "string \<times> ui_error option \<Rightarrow> delete_outcome" where
  "delete_answer call = (case snd call of
     None \<Rightarrow> Inr (fst call) | Some ui \<Rightarrow> Inl \<lparr>bdf_object_id = fst call, bdf_message = ue_message ui, bdf_code = Some (ue_code ui)\<rparr>)"

definition answers_task :: "string \<times> ui_error option \<Rightarrow> string \<times> delete_outcome option \<Rightarrow> bool" where
  "answers_task call h \<longleftrightarrow> fst h = fst call \<and> (snd h = None \<or> snd h = Some (delete_answer call))"

lemma delete_task_logged:
  assumes "logs_deletes E api joins calls" "delete_task api joins i e = (out, e')"
  shows "\<exists>a. calls e' = calls e @ [(i, a)] \<and> answers_task (i, a) (i, out)"
proof -
  obtain a e1 where a: "api i e = (a, e1)" by fastforce
  obtain ok e2 where ok: "joins e1 = (ok, e2)" by fastforce
  have "out = (if ok then Some (delete_answer (i, a)) else None)" "e' = e2"
    using assms(2) a ok by (auto simp: delete_task_def delete_one_def delete_answer_def split: option.splits)
  with logs_deletesD(4) [OF assms(1) ok] logs_deletesD(6) [OF assms(1) a] show ?thesis by (auto simp: answers_task_def)
qed

definition deletes_seen ::
  "('e \<Rightarrow> (string \<times> ui_error option) list) \<Rightarrow> (string \<times> ui_error option) list
     \<Rightarrow> (string \<times> delete_outcome option) dispatch_event list \<Rightarrow> (delete_outcome, 'e) bulk_state \<Rightarrow> bool" where
  "deletes_seen calls before es c \<longleftrightarrow> (\<exists>made. calls (bs_env c) = before @ made \<and> list_all2 answers_task made (spawned es))"

lemma deletes_seen_env:
  "calls (bs_env c') = calls (bs_env c) \<Longrightarrow> spawned es' = spawned es \<Longrightarrow> deletes_seen calls before es c \<Longrightarrow> deletes_seen calls before es' c'"
  by (simp add: deletes_seen_def)

lemma collect_joined_env: "bs_env (collect_joined E ops n h c) = snd (en_cancelled E (snd (en_limit E (bs_env c))))"
  by (auto simp: collect_joined_def Let_def split: prod.splits option.splits)

lemma spawn_item_env:
  assumes logged: "logs_deletes E api joins calls" and spawn: "spawn_item E id (delete_task api joins) i c = (q, c')"
  shows "case q of None \<Rightarrow> calls (bs_env c') = calls (bs_env c)
    | Some h \<Rightarrow> \<exists>call. calls (bs_env c') = calls (bs_env c) @ [call] \<and> answers_task call h"
proof -
  obtain stop e1 where stop: "en_cancelled E (bs_env c) = (stop, e1)" by fastforce
  obtain latched e2 where latched: "en_latched E e1 = (latched, e2)" by fastforce
  obtain out e3 where out: "delete_task api joins i e2 = (out, e3)" by fastforce
  note same = logs_deletesD(1) [OF logged stop] logs_deletesD(2) [OF logged latched]
  from delete_task_logged [OF logged out] same spawn stop latched out show ?thesis
    by (fastforce simp: spawn_item_def split: if_splits)
qed

lemma deletes_observed:
  assumes logged: "logs_deletes E api joins calls"
  shows "dispatch_observer (bulk_dispatcher E delete_ops n id (delete_task api joins)) (deletes_seen calls before)"
proof
  fix es c k c' and i :: string and h and m :: nat
  assume seen: "deletes_seen calls before es c"
  let ?D = "bulk_dispatcher E delete_ops n id (delete_task api joins)"
  show "di_cap ?D c = (k, c') \<Longrightarrow> deletes_seen calls before (es @ [CapRead k]) c'"
    using seen logs_deletesD(3) [OF logged] by (auto simp: bulk_dispatcher_def intro: deletes_seen_env [rotated 2] split: prod.splits)
  show "di_spawn ?D i c = (Some h, c') \<Longrightarrow> deletes_seen calls before (es @ [Spawned h]) c'"
    using seen spawn_item_env [OF logged, of i c "Some h" c'] by (auto simp: bulk_dispatcher_def deletes_seen_def intro: list_all2_appendI)
  show "di_spawn ?D i c = (None, c') \<Longrightarrow> deletes_seen calls before es c'"
    using seen spawn_item_env [OF logged, of i c None c'] by (auto simp: bulk_dispatcher_def intro: deletes_seen_env [rotated 2])
  show "di_next ?D m c = (k, c') \<Longrightarrow> deletes_seen calls before (es @ [Joined h]) (di_collect ?D h c')"
    using seen logs_deletesD(5) [OF logged] logged
    by (auto simp: bulk_dispatcher_def collect_joined_env logs_deletes_def intro: deletes_seen_env [rotated 2] split: prod.splits)
qed

text \<open>The DELETEs of a run, beside the tasks it spawned.\<close>

lemma run_deletes:
  fixes E :: "'e bulk_env"
  assumes logged: "logs_deletes E api joins calls"
    and run: "run_bulk_capped E delete_ops id (delete_task api joins) False ids e = (run, st, ev)"
  shows "\<exists>made. calls (bs_env st) = calls e @ made \<and> list_all2 answers_task made (spawned ev)"
proof -
  let ?D = "bulk_dispatcher E delete_ops (length ids) id (delete_task api joins)"
  obtain cap0 e0 where cap0: "en_limit E e = (cap0, e0)" by fastforce
  define c0 :: "(delete_outcome, 'e) bulk_state" where "c0 = \<lparr>bs_env = e0, bs_dead = False, bs_done = 0, bs_outcomes = [], bs_dispatched = [],
      bs_progress = [\<lparr>bp_done = 0, bp_total = length ids, bp_current_app = None, bp_cancelled = False,
                      bp_in_flight_cap = Some cap0\<rparr>]\<rparr>"
  obtain early c1 ev1 where disp: "dispatch_capped ?D ids c0 = (early, c1, ev1)" by (metis prod_cases3)
  obtain cancelled e2 where cancel: "stopped_by_cancel E early (bs_dead c1) (bs_env c1) = (cancelled, e2)" by fastforce
  obtain cap e3 where cap: "en_limit E e2 = (cap, e3)" by fastforce
  have res: "ev = ev1" "bs_env st = e3"
    using run disp cancel cap unfolding run_bulk_capped_def c0_def by (auto simp: cap0 Let_def)
  have "deletes_seen calls (calls e) [] c0" using logs_deletesD(3) [OF logged cap0] by (simp add: deletes_seen_def c0_def)
  from dispatch_observer.observed [OF deletes_observed [OF logged] disp this]
  have "deletes_seen calls (calls e) ev c1" using res(1) by simp
  moreover have "calls e2 = calls (bs_env c1)"
    using cancel logs_deletesD(1,2) [OF logged] by (auto simp: stopped_by_cancel_def split: prod.splits if_splits)
  ultimately show ?thesis using logs_deletesD(3) [OF logged cap] res(2) by (auto simp: deletes_seen_def)
qed

lemma reported_answers:
  assumes "list_all2 answers_task made tasks" "mset results = mset tasks" "out \<in> set (List.map_filter snd results)"
  shows "\<exists>call \<in> set made. out = delete_answer call"
proof -
  from assms(3) obtain h where h: "h \<in> set results" "snd h = Some out" by (auto simp: set_map_filter)
  then have "h \<in> set tasks" using assms(2) by (metis set_mset_mset)
  with assms(1) obtain call where "call \<in> set made" "answers_task call h"
    by (metis in_set_conv_nth list_all2_conv_all_nth)
  with h(2) show ?thesis by (auto simp: answers_task_def)
qed

lemma failure_listed:
  "f \<in> set (List.map_filter (\<lambda>out. case out of Inr _ \<Rightarrow> None | Inl failure \<Rightarrow> Some failure) outs) \<longleftrightarrow> Inl f \<in> set outs"
proof (induction outs)
  case (Cons out outs)
  then show ?case by (cases out) (auto simp: map_filter_simps)
qed (simp add: map_filter_simps)

lemma finish_bulk_delete_report:
  assumes "finish_bulk_delete env addr t run now c = (res, d)"
  shows "bdr_deleted res = List.map_filter (\<lambda>out. case out of Inr i \<Rightarrow> Some i | Inl _ \<Rightarrow> None) (cr_outcomes run)"
    "bdr_failed res = List.map_filter (\<lambda>out. case out of Inr _ \<Rightarrow> None | Inl failure \<Rightarrow> Some failure) (cr_outcomes run) @ map lost_delete (cr_lost run)"
  using assms by (auto simp: finish_bulk_delete_def Let_def)

lemma map_filter_lengths:
  "length (List.map_filter (\<lambda>out. case out of Inr i \<Rightarrow> Some i | Inl _ \<Rightarrow> None) outs)
     + length (List.map_filter (\<lambda>out. case out of Inr _ \<Rightarrow> None | Inl failure \<Rightarrow> Some failure) outs) = length outs"
proof (induction outs)
  case (Cons out outs)
  then show ?case by (cases out) (simp_all add: map_filter_simps)
qed (simp add: map_filter_simps)

text \<open>The cache after the command, when nothing else changes it while the command runs.\<close>

lemma finish_bulk_delete_cache:
  assumes reach: "cache_reach now c" and fin: "finish_bulk_delete (\<lambda>_ d. d) addr t run now c = (res, d)" and "bdr_deleted res \<noteq> []"
  shows "rows_free_of (bdr_deleted res) t d"
proof (cases "cr_lost run \<noteq> [] \<or> bdr_failed res \<noteq> []")
  case True
  have len: "length (c_buckets c) = 4" by (rule cache_inv_len [OF cache_reach_inv [OF reach]])
  from True fin assms(3) finish_bulk_delete_report [OF fin] have "d = invalidate_app_lists t c" by (auto simp: finish_bulk_delete_def Let_def)
  then show ?thesis by (simp add: rows_free_of_def app_lists_gone [OF len] scanned_keys_def)
next
  case False
  with fin assms(3) finish_bulk_delete_report [OF fin] have "d = record_deleted_apps (\<lambda>_ d. d) addr t (bdr_deleted res) now c"
    by (auto simp: finish_bulk_delete_def Let_def)
  with record_deleted_index_ok [OF reach, of addr t "bdr_deleted res"] show ?thesis
    by (simp add: rows_free_of_def Let_def)
qed

text \<open>C36: A bulk delete tells the truth about every application it touched.  Let the environment keep a record of the DELETEs the API
  was asked for and how it answered.  Those made by the run are for a prefix of the selection, in order; an application is
  reported deleted only when the API confirmed its DELETE, and failed only with the message and code of the error
  the API answered or as lost, when its task ended without an outcome; every application a DELETE was made for is reported,
  and exactly once when the selection has no repetitions.  When anything was deleted and nothing else changes the cache while
  the command runs, no cached list, name index or expiry roll-up of the tenant shows an application reported deleted.\<close>

theorem bulk_delete_tells_all:
  assumes reach: "cache_reach now c" and logged: "logs_deletes E api joins calls"
    and run: "run_bulk_capped E delete_ops id (delete_task api joins) False ids e = (run, st, ev)"
    and cmd: "bulk_delete_applications E api joins (\<lambda>_ d. d) addr t ids now e c = (res, d)"
  shows "\<exists>made. calls (bs_env st) = calls e @ made \<and> map fst made = take (length made) ids
     \<and> (\<forall>i \<in> set (bdr_deleted res). (i, None) \<in> set made)
     \<and> (\<forall>f \<in> set (bdr_failed res).
          (\<exists>ui. (bdf_object_id f, Some ui) \<in> set made \<and> bdf_message f = ue_message ui \<and> bdf_code f = Some (ue_code ui))
          \<or> f = lost_delete (bdf_object_id f) \<and> bdf_object_id f \<in> fst ` set made \<and> bdf_object_id f \<notin> set (bdr_deleted res))
     \<and> fst ` set made = set (bdr_deleted res) \<union> bdf_object_id ` set (bdr_failed res)
     \<and> (distinct ids \<longrightarrow> length (bdr_deleted res) + length (bdr_failed res) = length made)
     \<and> (bdr_deleted res \<noteq> [] \<longrightarrow> rows_free_of (bdr_deleted res) t d)"
proof -
  have keeps: "\<forall>item e out e'. delete_task api joins item e = (Some out, e') \<longrightarrow> oo_object_id delete_ops out = id item"
    by (simp add: delete_ops_def delete_task_id)
  note seen = run_bulk_capped_seen [OF run]
  have fin: "finish_bulk_delete (\<lambda>_ d. d) addr t run now c = (res, d)"
    using cmd by (simp add: bulk_delete_applications_def run)
  note del = finish_bulk_delete_report [OF fin]
  from run_deletes [OF logged run] obtain made where made: "calls (bs_env st) = calls e @ made" "list_all2 answers_task made (spawned ev)" by blast
  have len: "length made = length (spawned ev)" using made(2) by (rule list_all2_lengthD)
  have "map fst made = map fst (spawned ev)" using made(2) by (induction rule: list_all2_induct) (auto simp: answers_task_def)
  then have prefix: "map fst made = take (length made) ids" using seen(4) len by simp
  have outs: "\<exists>call \<in> set made. out = delete_answer call" if "out \<in> set (cr_outcomes run)" for out
    using reported_answers [OF made(2) seen(1)] that unfolding seen(5) by blast
  have deleted: "\<forall>i \<in> set (bdr_deleted res). (i, None) \<in> set made"
    using outs unfolding del(1) by (fastforce simp: set_map_filter delete_answer_def split: sum.splits option.splits)
  have ids: "delete_object_id ` set (cr_outcomes run) = set (bdr_deleted res) \<union>
      bdf_object_id ` set (List.map_filter (\<lambda>out. case out of Inr _ \<Rightarrow> None | Inl failure \<Rightarrow> Some failure) (cr_outcomes run))"
    unfolding del(1) by (rule outcome_ids [symmetric])
  have accounts: "delete_object_id ` set (cr_outcomes run) \<union> set (cr_lost run) = fst ` set made"
      "delete_object_id ` set (cr_outcomes run) \<inter> set (cr_lost run) = {}"
      "distinct ids \<longrightarrow> length (cr_outcomes run) + length (cr_lost run) = length made"
    using bulk_run_accounts [OF run keeps] seen(6) prefix len by (simp_all add: delete_ops_def flip: set_map)
  have lost: "bdf_object_id ` set (map lost_delete (cr_lost run)) = set (cr_lost run)" by (simp add: lost_delete_def image_image)
  have failed: "(\<exists>ui. (bdf_object_id f, Some ui) \<in> set made \<and> bdf_message f = ue_message ui \<and> bdf_code f = Some (ue_code ui))
          \<or> f = lost_delete (bdf_object_id f) \<and> bdf_object_id f \<in> fst ` set made \<and> bdf_object_id f \<notin> set (bdr_deleted res)"
    if "f \<in> set (bdr_failed res)" for f
  proof -
    from that consider (told) "Inl f \<in> set (cr_outcomes run)" | (lost) i where "i \<in> set (cr_lost run)" "f = lost_delete i"
      unfolding del(2) by (auto simp: failure_listed)
    then show ?thesis
    proof cases
      case told
      from outs [OF this] obtain i a where "(i, a) \<in> set made" "Inl f = delete_answer (i, a)" by (metis surj_pair)
      then show ?thesis by (auto simp: delete_answer_def split: option.splits)
    next
      case lost
      then have "bdf_object_id f = i" by (simp add: lost_delete_def)
      with lost accounts(1,2) ids show ?thesis by auto
    qed
  qed
  have all: "fst ` set made = set (bdr_deleted res) \<union> bdf_object_id ` set (bdr_failed res)"
    using accounts(1) ids lost unfolding del(2) set_append image_Un by auto
  have once: "distinct ids \<longrightarrow> length (bdr_deleted res) + length (bdr_failed res) = length made"
    using accounts(3) map_filter_lengths [of "cr_outcomes run"] unfolding del by auto
  from finish_bulk_delete_cache [OF reach fin] made(1) prefix deleted failed all once show ?thesis by blast
qed

text \<open>An API that refuses one of three deletions, and a task that is lost after its DELETE.\<close>

type_synonym delete_log = "(string \<times> ui_error option) list"

definition logged_env :: "delete_log bulk_env" where
  "logged_env = \<lparr>en_cancelled = (\<lambda>e. (False, e)), en_latched = (\<lambda>e. (False, e)), en_limit = (\<lambda>e. (2, e)), en_next = (\<lambda>m e. (m - 1, e))\<rparr>"

definition logged_api :: "string \<Rightarrow> delete_log \<Rightarrow> ui_error option \<times> delete_log" where
  "logged_api i e = (let a = (if i = ''b'' then Some (ui_error_new ''forbidden'' ''no'' False) else None) in (a, e @ [(i, a)]))"

definition logged_joins :: "delete_log \<Rightarrow> bool \<times> delete_log" where
  "logged_joins e = (length e \<noteq> 3, e)"

lemma logged_logs: "logs_deletes logged_env logged_api logged_joins id"
  by (simp add: logs_deletes_def logged_env_def logged_api_def logged_joins_def Let_def)

lemma logged_run:
  "fst (run_bulk_capped logged_env delete_ops id (delete_task logged_api logged_joins) False [''a'', ''b'', ''c''] [])
     = \<lparr>cr_outcomes = [Inl \<lparr>bdf_object_id = ''b'', bdf_message = ''no'', bdf_code = Some ''forbidden''\<rparr>, Inr ''a''], cr_lost = [''c''],
        cr_dispatched = 3, cr_cancelled = False\<rparr>"
  by code_simp

theorem bulk_delete_tells_all_witness:
  "\<exists>made :: delete_log. map fst made = [''a'', ''b'', ''c''] \<and> (''a'', None) \<in> set made \<and> (\<exists>ui. (''b'', Some ui) \<in> set made \<and> ue_message ui = ''no'')"
proof -
  let ?ids = "[''a'', ''b'', ''c'']"
  let ?cmd = "bulk_delete_applications logged_env logged_api logged_joins (\<lambda>_ d. d) (\<lambda>n. n) ''t'' ?ids 6 [] (cache_new :: (nat, cached_index) cache)"
  obtain run st ev where run: "run_bulk_capped logged_env delete_ops id (delete_task logged_api logged_joins) False ?ids [] = (run, st, ev)"
    by (metis prod_cases3)
  obtain res d where cmd: "?cmd = (res, d)" by fastforce
  have fin: "finish_bulk_delete (\<lambda>_ d. d) (\<lambda>n. n) ''t'' run 6 cache_new = (res, d)" using cmd by (simp add: bulk_delete_applications_def run)
  have res: "bdr_deleted res = [''a'']" "bdr_failed res = [\<lparr>bdf_object_id = ''b'', bdf_message = ''no'', bdf_code = Some ''forbidden''\<rparr>, lost_delete ''c'']"
    using logged_run finish_bulk_delete_report [OF fin] unfolding run by (simp_all add: map_filter_simps)
  from bulk_delete_tells_all [OF cache_reach.start logged_logs run cmd] show ?thesis
  proof (elim exE conjE)
    fix made :: delete_log
    assume m: "map fst made = take (length made) ?ids" "\<forall>i \<in> set (bdr_deleted res). (i, None) \<in> set made"
      "\<forall>f \<in> set (bdr_failed res).
          (\<exists>ui. (bdf_object_id f, Some ui) \<in> set made \<and> bdf_message f = ue_message ui \<and> bdf_code f = Some (ue_code ui))
          \<or> f = lost_delete (bdf_object_id f) \<and> bdf_object_id f \<in> fst ` set made \<and> bdf_object_id f \<notin> set (bdr_deleted res)"
      "distinct ?ids \<longrightarrow> length (bdr_deleted res) + length (bdr_failed res) = length made"
    have "length made = 3" using m(4) res by simp
    moreover have "\<exists>ui. (''b'', Some ui) \<in> set made \<and> ue_message ui = ''no''" using m(3) res(2) by (auto simp: lost_delete_def)
    ultimately show ?thesis using m(1,2) res(1) by (auto intro!: exI [of _ made])
  qed
qed

text \<open>Within one application every key is removed, failed or left untried, in order, and a fatal failure is the last
  thing tried.\<close>

lemma sweep_keys_accounts:
  assumes "sweep_keys E rm obj dead keys err e = (removed, failed, err', dead', e')"
  shows "\<exists>k \<le> length keys. mset removed + mset failed = mset (take k keys)
       \<and> (failed = [] \<longrightarrow> err' = err) \<and> (failed \<noteq> [] \<longrightarrow> err' \<noteq> None) \<and> (dead' \<and> \<not> dead \<longrightarrow> error_fatal err' \<and> failed \<noteq> [])"
  using assms
proof (induction keys arbitrary: err e removed failed err' dead' e')
  case Nil
  then show ?case by auto
next
  case (Cons key keys)
  obtain stop e1 where stop: "en_cancelled E e = (stop, e1)" by fastforce
  obtain latched e2 where latched: "(if stop then (False, e1) else en_latched E e1) = (latched, e2)" by fastforce
  show ?case
  proof (cases "stop \<or> dead \<or> latched")
    case True
    with Cons.prems stop latched show ?thesis by auto
  next
    case go: False
    obtain q e3 where q: "rm obj key e2 = (q, e3)" by fastforce
    show ?thesis
    proof (cases q)
      case None
      obtain rem fai er de ee where rest: "sweep_keys E rm obj dead keys err e3 = (rem, fai, er, de, ee)" by (metis prod_cases5)
      from Cons.prems stop latched go q None rest
      have eq: "removed = key # rem" "failed = fai" "err' = er" "dead' = de" by auto
      from Cons.IH [OF rest] eq obtain k where
        "k \<le> length keys" "mset rem + mset fai = mset (take k keys)" "(fai = [] \<longrightarrow> er = err)" "(fai \<noteq> [] \<longrightarrow> er \<noteq> None)"
        "(de \<and> \<not> dead \<longrightarrow> error_fatal er \<and> fai \<noteq> [])" by auto
      with eq show ?thesis by (intro exI [of _ "Suc k"]) auto
    next
      case (Some ui)
      show ?thesis
      proof (cases "is_reauth_fatal (ue_code ui)")
        case True
        with Cons.prems stop latched go q Some show ?thesis
          by (intro exI [of _ 1]) (auto simp: error_fatal_def bulk_is_reauth_fatal_def bulk_error_from_def)
      next
        case False
        let ?err = "if err = None then Some (bulk_error_from ui) else err"
        obtain rem fai er de ee where rest: "sweep_keys E rm obj dead keys ?err e3 = (rem, fai, er, de, ee)" by (metis prod_cases5)
        from Cons.prems stop latched go q Some False rest
        have eq: "removed = rem" "failed = key # fai" "err' = er" "dead' = de" by (auto split: if_splits)
        from Cons.IH [OF rest] eq obtain k where
          "k \<le> length keys" "mset rem + mset fai = mset (take k keys)" "(fai = [] \<longrightarrow> er = ?err)" "(fai \<noteq> [] \<longrightarrow> er \<noteq> None)"
          "(de \<and> \<not> dead \<longrightarrow> error_fatal er \<and> fai \<noteq> [])" by auto
        with eq show ?thesis by (intro exI [of _ "Suc k"]) (auto split: if_splits)
      qed
    qed
  qed
qed

text \<open>The expired-secret sweep reports each application truthfully.  The secrets it tried are a prefix of the expired
  ones, each removed or failed, and the rest are counted as unattempted; the application has a row exactly when it tried
  one, and the row carries no error exactly when every expired secret was removed.\<close>

theorem sweep_row_truthful:
  assumes "sweep_one E rm dead now app e = (item, dead', e')"
  shows "\<exists>k \<le> length (expired_password_key_ids app now).
      mset (rs_removed_key_ids (si_summary item)) + mset (rs_failed_key_ids (si_summary item))
        = mset (take k (expired_password_key_ids app now))
    \<and> si_unattempted item = length (expired_password_key_ids app now) - k
    \<and> (sweep_row item = None \<longleftrightarrow> k = 0)
    \<and> (\<forall>row. sweep_row item = Some row \<longrightarrow>
         rs_removed_key_ids row = rs_removed_key_ids (si_summary item) \<and> rs_failed_key_ids row = rs_failed_key_ids (si_summary item)
       \<and> (rs_error row = None \<longleftrightarrow> mset (rs_removed_key_ids row) = mset (expired_password_key_ids app now)))"
proof -
  define ks where "ks = expired_password_key_ids app now"
  obtain rem fai er de ee where run: "sweep_keys E rm (app_object_id app) dead ks None e = (rem, fai, er, de, ee)"
    by (metis prod_cases5)
  from sweep_keys_accounts [OF run] obtain k where k: "k \<le> length ks" "mset rem + mset fai = mset (take k ks)"
      "fai = [] \<longrightarrow> er = None" "fai \<noteq> [] \<longrightarrow> er \<noteq> None" by auto
  have len: "length rem + length fai = k"
    using arg_cong [OF k(2), of size] k(1) by simp
  have item: "si_summary item = \<lparr>rs_object_id = app_object_id app, rs_display_name = app_display_name app,
      rs_removed_key_ids = rem, rs_failed_key_ids = fai, rs_error = er\<rparr>" "si_unattempted item = length ks - k"
    using assms len run by (auto simp: sweep_one_def ks_def Let_def)
  have tried: "tried_any (si_summary item) \<longleftrightarrow> k \<noteq> 0"
    using len by (auto simp: tried_any_def item)
  have none: "sweep_row item = None \<longleftrightarrow> k = 0"
  proof (cases "k = 0")
    case True
    then have "rem = []" "fai = []" using len by simp_all
    with True k(3) show ?thesis
      by (auto simp: sweep_row_def never_started_def tried_any_def item Let_def)
  qed (use tried in \<open>auto simp: sweep_row_def never_started_def Let_def tried_any_def\<close>)
  have "rs_removed_key_ids row = rem \<and> rs_failed_key_ids row = fai \<and> (rs_error row = None \<longleftrightarrow> mset rem = mset ks)"
    if "sweep_row item = Some row" for row
  proof -
    have row: "rs_removed_key_ids row = rem" "rs_failed_key_ids row = fai" "rs_error row = None \<longleftrightarrow> er = None \<and> k = length ks"
      using that k(1) by (auto simp: sweep_row_def item Let_def split: if_splits)
    have "er = None \<and> k = length ks \<longleftrightarrow> mset rem = mset ks"
      using k len by (metis add.right_neutral length_0_conv le_add1 le_antisym mset.simps(1) size_mset take_all_iff add_left_cancel)
    with row show ?thesis by simp
  qed
  with k item none show ?thesis unfolding ks_def [symmetric] by auto
qed

definition demo_expired_app :: application where
  "demo_expired_app = \<lparr>app_object_id = ''o'', app_app_id = ''a'', app_display_name = ''App'', app_description = None,
     app_sign_in_audience = None, app_publisher_domain = None, app_created_date_time = None,
     password_credentials = [\<lparr>pc_key_id = ''k'', pc_display_name = None, pc_hint = None, pc_start_date_time = None,
       pc_end_date_time = Some (- 1000000000000000), pc_secret_text = None\<rparr>],
     key_credentials = [], app_required_resource_access = [], app_verified_publisher = None,
     sp_lock = None, is_fallback_public_client = None, owners = Some [], disabled_by_microsoft_status = None,
     app_notes = None\<rparr>"

definition demo_sweep_item :: sweep_item where
  "demo_sweep_item = \<lparr>si_summary = \<lparr>rs_object_id = ''o'', rs_display_name = ''App'', rs_removed_key_ids = [''k''],
     rs_failed_key_ids = [], rs_error = None\<rparr>, si_unattempted = 0\<rparr>"

lemma demo_sweep:
  "expired_password_key_ids demo_expired_app 0 = [''k'']"
  "sweep_one demo_bulk_env (\<lambda>_ _ e. (None, Suc e)) False 0 demo_expired_app 0 = (demo_sweep_item, False, 1)"
  by code_simp+

theorem sweep_row_truthful_witness:
  "sweep_row demo_sweep_item \<noteq> None \<and> si_unattempted demo_sweep_item = 0"
  using sweep_row_truthful [OF demo_sweep(2)] by (auto simp: demo_sweep demo_sweep_item_def)

end
