(* ===== verification/Http_Errors.thy ===== *)
theory Http_Errors
  imports Client_Errors
begin

text \<open>
  What the typed HTTP clients share above the socket: the error taxonomy the macro of
  \<^verbatim>\<open>core/src/http_error.rs\<close> generates (Graph, ARM and Key Vault are its instances), the classification of a failed
  response, the clean-up of error bodies, the caps on what is read of a body (\<^verbatim>\<open>core/src/http_body.rs\<close>), the origin
  guard and the log label (\<^verbatim>\<open>core/src/net.rs\<close>), and the transports of the ARM and Key Vault clients.

  The URL parser, the socket, the bearer provider and the legality of a header value are code of other packages: the
  records \<open>url_parts\<close> and \<open>http_net\<close> are arguments.  A transport error is the list of the texts of its source chain.
\<close>

section \<open>The error taxonomy\<close>

datatype http_error =
    HUnauthorized
  | HForbidden string
  | HNotFound string
  | HThrottled "64 word option"
  | HApi "16 word" string
  | HServer "16 word" string
  | HNetwork string
  | HDeserialize string
  | HToken token_error
  | HProtocol string
  | HExtra string

text \<open>What an instance of the macro supplies: its wire codes and the words of its API error.\<close>

record http_flavour =
  hf_api_display :: string
  hf_api_code :: string
  hf_extra_display :: string
  hf_extra_code :: string

definition graph_flavour :: http_flavour where
  "graph_flavour = \<lparr>hf_api_display = ''graph error'', hf_api_code = ''graph_error'', hf_extra_display = [], hf_extra_code = []\<rparr>"

definition arm_flavour :: http_flavour where
  "arm_flavour = \<lparr>hf_api_display = ''arm error'', hf_api_code = ''arm_error'', hf_extra_display = [], hf_extra_code = []\<rparr>"

definition keyvault_flavour :: http_flavour where
  "keyvault_flavour = \<lparr>hf_api_display = ''vault error'', hf_api_code = ''vault_error'', hf_extra_display = ''invalid name: '',
     hf_extra_code = ''invalid_name''\<rparr>"

fun http_ui_code :: "http_flavour \<Rightarrow> http_error \<Rightarrow> string" where
  "http_ui_code fl HUnauthorized = UNAUTHORIZED"
| "http_ui_code fl (HForbidden _) = ''forbidden''"
| "http_ui_code fl (HNotFound _) = ''not_found''"
| "http_ui_code fl (HThrottled _) = ''throttled''"
| "http_ui_code fl (HApi _ _) = hf_api_code fl"
| "http_ui_code fl (HServer _ _) = ''server_error''"
| "http_ui_code fl (HNetwork _) = ''network_error''"
| "http_ui_code fl (HDeserialize _) = ''deserialize_error''"
| "http_ui_code fl (HToken t) = (case passthrough_code (te_code t) of Some c \<Rightarrow> c | None \<Rightarrow> ''token_error'')"
| "http_ui_code fl (HProtocol _) = ''protocol_error''"
| "http_ui_code fl (HExtra _) = hf_extra_code fl"

definition http_is_retryable :: "http_flavour \<Rightarrow> http_error \<Rightarrow> bool" where
  "http_is_retryable fl e \<longleftrightarrow> is_retryable_code (http_ui_code fl e)"

fun http_error_text :: "http_flavour \<Rightarrow> http_error \<Rightarrow> string" where
  "http_error_text fl HUnauthorized = UNAUTHORIZED_STATUS"
| "http_error_text fl (HForbidden b) = ''forbidden (403): '' @ b"
| "http_error_text fl (HNotFound b) = ''not found (404): '' @ b"
| "http_error_text fl (HThrottled secs) =
     ''throttled (429): the service is limiting requests. '' @ throttle_wait secs @ '', then try again.''"
| "http_error_text fl (HApi status b) = hf_api_display fl @ '' ('' @ show_nat (unat status) @ ''): '' @ b"
| "http_error_text fl (HServer status b) = ''server error ('' @ show_nat (unat status) @ ''): '' @ b"
| "http_error_text fl (HNetwork s) = ''network: '' @ s"
| "http_error_text fl (HDeserialize s) = ''deserialize: '' @ s"
| "http_error_text fl (HToken t) = ''token: '' @ te_message t"
| "http_error_text fl (HProtocol s) = ''protocol: '' @ s"
| "http_error_text fl (HExtra s) = hf_extra_display fl @ s"

definition token_error_opaque :: "string \<Rightarrow> token_error" where
  "token_error_opaque message = \<lparr>te_code = ''token_error'', te_message = message\<rparr>"

text \<open>Key Vault: the failures that prove no request was sent.\<close>

definition sent_nothing :: "http_error \<Rightarrow> bool" where
  "sent_nothing e \<longleftrightarrow> (case e of HToken _ \<Rightarrow> True | HExtra _ \<Rightarrow> True | _ \<Rightarrow> False)"

section \<open>Error texts\<close>

definition MAX_ERROR_CHAIN_DEPTH :: nat where
  "MAX_ERROR_CHAIN_DEPTH = 8"

definition ERROR_BODY_MAX_CHARS :: nat where
  "ERROR_BODY_MAX_CHARS = 800"

fun describe_loop :: "nat \<Rightarrow> string \<Rightarrow> string list \<Rightarrow> string" where
  "describe_loop depth out [] = out"
| "describe_loop depth out (text # causes) =
     (if MAX_ERROR_CHAIN_DEPTH \<le> depth then out
      else describe_loop (Suc depth) (if text \<noteq> [] \<and> \<not> contains_str out text then out @ '': '' @ text else out) causes)"

definition describe_error_chain :: "string \<times> string list \<Rightarrow> string" where
  "describe_error_chain err = describe_loop 0 (fst err) (snd err)"

definition sanitize_error_body :: "string \<Rightarrow> string" where
  "sanitize_error_body raw =
     (let cleaned = concat (filter (\<lambda>c. \<not> is_control c \<or> c \<in> {[CHR 0x0A], [CHR 0x0D], [CHR 0x09]}) (utf8_chars raw));
          trimmed = trim cleaned
      in if trimmed = [] then ''<no body>''
         else (let cs = utf8_chars trimmed
               in concat (take ERROR_BODY_MAX_CHARS cs) @ (if ERROR_BODY_MAX_CHARS < length cs then ellipsis else [])))"

section \<open>Bodies\<close>

definition MAX_SUCCESS_BODY_BYTES :: nat where
  "MAX_SUCCESS_BODY_BYTES = 64 * 1024 * 1024"

definition MAX_ERROR_BODY_BYTES :: nat where
  "MAX_ERROR_BODY_BYTES = 64 * 1024"

text \<open>\<open>usize\<close> is 64 bits wide; \<open>checked_add\<close> is written out.\<close>

record body_cap =
  bc_max :: nat
  bc_declared :: "nat option"
  bc_read :: nat

definition body_cap_new :: "nat option \<Rightarrow> nat \<Rightarrow> body_cap" where
  "body_cap_new content_length m = \<lparr>bc_max = m, bc_declared = content_length, bc_read = 0\<rparr>"

definition check_declared :: "body_cap \<Rightarrow> nat option" where
  "check_declared b = (case bc_declared b of Some n \<Rightarrow> if bc_max b < n then Some (bc_max b) else None | None \<Rightarrow> None)"

definition cap_push :: "nat \<Rightarrow> body_cap \<Rightarrow> nat + body_cap" where
  "cap_push len b =
     (if bc_read b + len < 2 ^ 64 \<and> bc_read b + len \<le> bc_max b then Inr (b\<lparr>bc_read := bc_read b + len\<rparr>) else Inl (bc_max b))"

definition cap_take :: "nat \<Rightarrow> body_cap \<Rightarrow> nat \<times> body_cap" where
  "cap_take len b = (let n = min len (bc_max b - bc_read b) in (n, b\<lparr>bc_read := bc_read b + n\<rparr>))"

definition body_too_large_text :: "nat \<Rightarrow> string" where
  "body_too_large_text limit =
     (if 1024 * 1024 \<le> limit \<and> limit mod (1024 * 1024) = 0
      then ''response body exceeds the '' @ show_nat (limit div (1024 * 1024)) @ '' MiB limit''
      else if 1024 \<le> limit \<and> limit mod 1024 = 0
      then ''response body exceeds the '' @ show_nat (limit div 1024) @ '' KiB limit''
      else ''response body exceeds the '' @ show_nat limit @ ''-byte limit'')"

text \<open>A response: its status, the two headers the transports read, and its body as the chunks that arrive before the
  stream ends or breaks.\<close>

record http_response =
  rp_status :: "16 word"
  rp_retry_after :: "string option"
  rp_www_authenticate :: "string option"
  rp_content_length :: "nat option"
  rp_chunks :: "string list"
  rp_broken :: "(string \<times> string list) option"

datatype send_result = NoResponse "string \<times> string list" | Response http_response

fun read_chunks :: "(string \<times> string list) option \<Rightarrow> body_cap \<Rightarrow> string list \<Rightarrow> http_error + string list" where
  "read_chunks broken cap [] = (case broken of Some err \<Rightarrow> Inl (HNetwork (describe_error_chain err)) | None \<Rightarrow> Inr [])"
| "read_chunks broken cap (chunk # rest) =
     (case cap_push (length chunk) cap of
        Inl limit \<Rightarrow> Inl (HProtocol (body_too_large_text limit))
      | Inr cap' \<Rightarrow> (case read_chunks broken cap' rest of Inl e \<Rightarrow> Inl e | Inr chunks \<Rightarrow> Inr (chunk # chunks)))"

definition read_success_body :: "http_response \<Rightarrow> nat \<Rightarrow> http_error + string" where
  "read_success_body resp m =
     (let cap = body_cap_new (rp_content_length resp) m
      in case check_declared cap of
           Some limit \<Rightarrow> Inl (HProtocol (body_too_large_text limit))
         | None \<Rightarrow> map_sum id concat (read_chunks (rp_broken resp) cap (rp_chunks resp)))"

text \<open>\<open>String::from_utf8_lossy\<close>: one step decodes a character or replaces a maximal invalid run by U+FFFD, and says how
  many bytes it consumed.\<close>

definition replacement_char :: string where
  "replacement_char = [CHR 0xEF, CHR 0xBF, CHR 0xBD]"

definition in_range :: "nat \<Rightarrow> nat \<Rightarrow> string \<Rightarrow> nat \<Rightarrow> bool" where
  "in_range lo hi s i \<longleftrightarrow> i < length s \<and> lo \<le> (of_char (s ! i) :: nat) \<and> (of_char (s ! i) :: nat) \<le> hi"

definition second_range :: "nat \<Rightarrow> nat \<times> nat" where
  "second_range b = (if b = 0xE0 then (0xA0, 0xBF) else if b = 0xED then (0x80, 0x9F)
     else if b = 0xF0 then (0x90, 0xBF) else if b = 0xF4 then (0x80, 0x8F) else (0x80, 0xBF))"

definition utf8_width :: "nat \<Rightarrow> nat" where
  "utf8_width b = (if b < 0x80 then 1 else if 0xC2 \<le> b \<and> b \<le> 0xDF then 2 else if 0xE0 \<le> b \<and> b \<le> 0xEF then 3
     else if 0xF0 \<le> b \<and> b \<le> 0xF4 then 4 else 0)"

definition utf8_step :: "string \<Rightarrow> string \<times> nat" where
  "utf8_step s =
     (let b = of_char (hd s) :: nat; w = utf8_width b; (lo, hi) = second_range b
      in if w = 1 then (take 1 s, 1)
         else if w = 0 \<or> \<not> in_range lo hi s 1 then (replacement_char, 1)
         else if w = 2 then (take 2 s, 2)
         else if \<not> in_range 0x80 0xBF s 2 then (replacement_char, 2)
         else if w = 3 then (take 3 s, 3)
         else if \<not> in_range 0x80 0xBF s 3 then (replacement_char, 3)
         else (take 4 s, 4))"

lemma utf8_step_pos: "0 < snd (utf8_step s)"
  by (simp add: utf8_step_def Let_def split: prod.splits)

function from_utf8_lossy :: "string \<Rightarrow> string" where
  "from_utf8_lossy s = (if s = [] then [] else (let (out, n) = utf8_step s in out @ from_utf8_lossy (drop n s)))"
  by pat_completeness auto

termination
proof (relation "measure length")
  fix s :: string and x out n
  assume "s \<noteq> []" "x = utf8_step s" "(out, n) = x"
  then have "s \<noteq> []" "0 < n" using utf8_step_pos [of s] by (metis snd_conv)+
  then show "(drop n s, s) \<in> measure length" by (cases s) auto
qed simp

declare from_utf8_lossy.simps [simp del]

fun read_error_loop :: "body_cap \<Rightarrow> string list \<Rightarrow> string" where
  "read_error_loop cap [] = []"
| "read_error_loop cap (chunk # rest) =
     (let (n, cap') = cap_take (length chunk) cap
      in take n chunk @ (if n < length chunk then [] else read_error_loop cap' rest))"

definition read_error_body :: "http_response \<Rightarrow> string" where
  "read_error_body resp = from_utf8_lossy (read_error_loop (body_cap_new None MAX_ERROR_BODY_BYTES) (rp_chunks resp))"

section \<open>Classifying an attempt\<close>

definition is_success :: "16 word \<Rightarrow> bool" where
  "is_success status \<longleftrightarrow> 200 \<le> status \<and> status < 300"

definition failed_response :: "16 word \<Rightarrow> 64 word option \<Rightarrow> string \<Rightarrow> ('t, http_error) attempt" where
  "failed_response status retry_after_secs raw_body =
     (let b = sanitize_error_body raw_body
      in if status = 401 then Done (Inl HUnauthorized)
         else if status = 403 then Done (Inl (HForbidden b))
         else if status = 404 then Done (Inl (HNotFound b))
         else if status = 429 then Retry Throttled (Some status) retry_after_secs (HThrottled retry_after_secs)
         else if 400 \<le> status \<and> status < 500 then Done (Inl (HApi status b))
         else Retry Transient (Some status) retry_after_secs (HServer status b))"

definition send_failure :: "string \<times> string list \<Rightarrow> ('t, http_error) attempt" where
  "send_failure err = Retry Transient None None (HNetwork (describe_error_chain err))"

datatype http_method = GET | HEAD | PUT | DELETE | POST | PATCH

definition retry_class_for :: "http_method \<Rightarrow> retry_class" where
  "retry_class_for m = (if m \<in> {GET, HEAD, PUT, DELETE} then Idempotent else NonIdempotent)"

section \<open>Origins and log labels\<close>

text \<open>What \<open>Url::parse\<close> gives.  The origin is compared, never taken apart.\<close>

record 'o url_parts =
  up_username :: string
  up_password :: "string option"
  up_origin :: 'o
  up_host :: "string option"
  up_path :: string

definition same_origin :: "(string \<Rightarrow> 'o url_parts option) \<Rightarrow> string \<Rightarrow> string \<Rightarrow> bool" where
  "same_origin parse base candidate \<longleftrightarrow>
     (case (parse base, parse candidate) of
        (Some b, Some c) \<Rightarrow> up_username c = [] \<and> up_password c = None \<and> up_origin b = up_origin c
      | _ \<Rightarrow> False)"

definition redacted_host :: "(string \<Rightarrow> 'o url_parts option) \<Rightarrow> string \<Rightarrow> string" where
  "redacted_host parse url =
     (case Option.bind (parse url) up_host of Some h \<Rightarrow> h | None \<Rightarrow> ''<unparseable>'')"

definition is_ascii_alpha :: "char \<Rightarrow> bool" where
  "is_ascii_alpha c \<longleftrightarrow> (let n = of_char c :: nat in 65 \<le> n \<and> n \<le> 90 \<or> 97 \<le> n \<and> n \<le> 122)"

definition is_hexdigit :: "char \<Rightarrow> bool" where
  "is_hexdigit c \<longleftrightarrow> (let n = of_char c :: nat in is_digit c \<or> 65 \<le> n \<and> n \<le> 70 \<or> 97 \<le> n \<and> n \<le> 102)"

definition is_literal_path_segment :: "string \<Rightarrow> bool" where
  "is_literal_path_segment seg \<longleftrightarrow>
     list_all (\<lambda>c. is_ascii_alnum c \<or> c \<in> {CHR ''.'', CHR ''$'', CHR ''_''}) seg
     \<and> list_ex is_ascii_alpha seg
     \<and> \<not> (16 \<le> length seg \<and> list_all is_hexdigit seg)"

definition endpoint_family :: "(string \<Rightarrow> 'o url_parts option) \<Rightarrow> string \<Rightarrow> string" where
  "endpoint_family parse url =
     (case parse url of
        None \<Rightarrow> ''<invalid url>''
      | Some u \<Rightarrow> join ''/'' (map (\<lambda>seg. if seg = [] \<or> is_literal_path_segment seg then seg else ''{id}'')
                                (split_on (CHR ''/'') (up_path u))))"

definition is_guid :: "string \<Rightarrow> bool" where
  "is_guid input \<longleftrightarrow>
     length input = 36 \<and>
     list_all (\<lambda>(i, b). if i \<in> {8, 13, 18, 23} then b = CHR ''-'' else is_hexdigit b) (enumerate 0 input)"

section \<open>The ARM and Key Vault transports\<close>

record http_request =
  hr_method :: http_method
  hr_url :: string
  hr_query :: "(string \<times> string) list"
  hr_authorization :: string
  hr_eventual :: bool
  hr_prefer :: "string option"
  hr_body :: "string option"

text \<open>The world below a client: its token provider, which texts are not a legal header value (with the error's text), the
  socket, and the observer of 429s.\<close>

record 's http_net =
  hn_bearer :: "'s \<Rightarrow> (token_error + string) \<times> 's"
  hn_bearer_with_claims :: "string \<Rightarrow> 's \<Rightarrow> (token_error + string) \<times> 's"
  hn_header_value :: "string \<Rightarrow> string option"
  hn_send :: "http_request \<Rightarrow> 's \<Rightarrow> send_result \<times> 's"
  hn_on_throttle :: "64 word option \<Rightarrow> 's \<Rightarrow> 's"

definition plain_attempt :: "'s http_net \<Rightarrow> http_request \<Rightarrow> nat \<Rightarrow> 's \<Rightarrow> 32 word \<Rightarrow> (string, http_error) attempt \<times> 's" where
  "plain_attempt N rq max_body s n =
     (case hn_send N rq s of
        (NoResponse err, s') \<Rightarrow> (send_failure err, s')
      | (Response resp, s') \<Rightarrow>
          (if is_success (rp_status resp) then Done (read_success_body resp max_body)
           else failed_response (rp_status resp) (parse_retry_after_seconds (rp_retry_after resp)) (read_error_body resp), s'))"

definition send_with_retry ::
  "'s http_net \<Rightarrow> (32 word \<Rightarrow> 64 word) \<Rightarrow> http_method \<Rightarrow> string \<Rightarrow> (string \<times> string) list \<Rightarrow> string option \<Rightarrow> nat \<Rightarrow> 's
     \<Rightarrow> (http_error + string) \<times> 's" where
  "send_with_retry N nanos method url query body max_body s =
     (case hn_bearer N s of
        (Inl t, s1) \<Rightarrow> (Inl (HToken t), s1)
      | (Inr bearer, s1) \<Rightarrow>
          (case hn_header_value N (''Bearer '' @ bearer) of
             Some err \<Rightarrow> (Inl (HToken (token_error_opaque err)), s1)
           | None \<Rightarrow>
               (let rq = \<lparr>hr_method = method, hr_url = url, hr_query = query, hr_authorization = ''Bearer '' @ bearer,
                          hr_eventual = False, hr_prefer = None, hr_body = body\<rparr>;
                    (result, s2, sleeps) = with_retries (retry_class_for method) (plain_attempt N rq max_body) nanos s1
                in (result, s2))))"

definition keyvault_send_core_url ::
  "'s http_net \<Rightarrow> (string \<Rightarrow> 'o url_parts option) \<Rightarrow> string \<Rightarrow> string \<Rightarrow> nat \<Rightarrow> (32 word \<Rightarrow> 64 word) \<Rightarrow> http_method \<Rightarrow> string
     \<Rightarrow> bool \<Rightarrow> string option \<Rightarrow> bool \<Rightarrow> 's \<Rightarrow> (http_error + string) \<times> 's" where
  "keyvault_send_core_url N parse base_url api_version max_body nanos method url attach_api_version body check_origin s =
     (if check_origin \<and> \<not> same_origin parse base_url url
      then (Inl (HProtocol (''refusing to follow nextLink to a different origin (host: '' @ redacted_host parse url @ '')'')), s)
      else (case hn_bearer N s of
        (Inl t, s1) \<Rightarrow> (Inl (HToken t), s1)
      | (Inr bearer, s1) \<Rightarrow>
          (case hn_header_value N (''Bearer '' @ bearer) of
             Some err \<Rightarrow> (Inl (HToken (token_error_opaque err)), s1)
           | None \<Rightarrow>
               (let rq = \<lparr>hr_method = method, hr_url = url,
                          hr_query = (if attach_api_version then [(''api-version'', api_version)] else []),
                          hr_authorization = ''Bearer '' @ bearer, hr_eventual = False, hr_prefer = None, hr_body = body\<rparr>;
                    (result, s2, sleeps) = with_retries (retry_class_for method) (plain_attempt N rq max_body) nanos s1
                in (result, s2)))))"

section \<open>Names spliced into URLs\<close>

text \<open>\<open>quote\<close> is the \<open>Debug\<close> form of a string, which the error text carries.\<close>

definition validate_vault_name :: "(string \<Rightarrow> string) \<Rightarrow> string \<Rightarrow> http_error + unit" where
  "validate_vault_name quote name =
     (if 3 \<le> length name \<and> length name \<le> 24 \<and> is_ascii_alpha (hd name) \<and> is_ascii_alnum (last name)
         \<and> list_all (\<lambda>c. is_ascii_alnum c \<or> c = CHR ''-'') name \<and> \<not> contains_str name ''--''
      then Inr () else Inl (HExtra (quote name @ '' is not a valid Key Vault name'')))"

definition validate_secret_name :: "(string \<Rightarrow> string) \<Rightarrow> string \<Rightarrow> http_error + unit" where
  "validate_secret_name quote name =
     (if 1 \<le> length name \<and> length name \<le> 127 \<and> list_all (\<lambda>c. is_ascii_alnum c \<or> c = CHR ''-'') name
      then Inr () else Inl (HExtra (quote name @ '' is not a valid Key Vault secret name'')))"

definition validate_secret_version :: "(string \<Rightarrow> string) \<Rightarrow> string \<Rightarrow> http_error + unit" where
  "validate_secret_version quote version =
     (if length version = 32 \<and> list_all is_hexdigit version
      then Inr () else Inl (HExtra (quote version @ '' is not a valid Key Vault secret version'')))"

definition require_guid :: "string \<Rightarrow> string \<Rightarrow> http_error + unit" where
  "require_guid what v =
     (if is_guid v then Inr () else Inl (HProtocol (''refusing a '' @ what @ '' that is not a GUID'')))"

definition require_arm_path :: "string \<Rightarrow> string \<Rightarrow> http_error + unit" where
  "require_arm_path what v =
     (if starts_with v ''/'' \<and> list_all (\<lambda>c. c \<notin> {CHR ''?'', CHR ''#'', CHR 0x5C, CHR ''%''}) v
         \<and> \<not> list_ex is_control (utf8_chars v)
         \<and> \<not> list_ex (\<lambda>seg. seg = ''.'' \<or> seg = ''..'') (split_on (CHR ''/'') v)
      then Inr () else Inl (HProtocol (''refusing a '' @ what @ '' that is not an absolute ARM path'')))"

section \<open>Lemmas\<close>

lemma read_chunks_iff:
  "read_chunks broken cap chunks = Inr out \<longleftrightarrow>
     out = chunks \<and> broken = None
     \<and> (chunks = [] \<or> bc_read cap + length (concat chunks) \<le> bc_max cap \<and> bc_read cap + length (concat chunks) < 2 ^ 64)"
proof (induction chunks arbitrary: cap out)
  case Nil
  then show ?case by (auto split: option.splits)
next
  case (Cons chunk rest)
  show ?case
  proof (cases "bc_read cap + length chunk < 2 ^ 64 \<and> bc_read cap + length chunk \<le> bc_max cap")
    case True
    define cap' where "cap' = cap\<lparr>bc_read := bc_read cap + length chunk\<rparr>"
    have "read_chunks broken cap (chunk # rest) = Inr out \<longleftrightarrow>
        (\<exists>o'. out = chunk # o' \<and> read_chunks broken cap' rest = Inr o')"
      using True by (cases "read_chunks broken cap' rest") (auto simp: cap_push_def cap'_def)
    also have "\<dots> \<longleftrightarrow> out = chunk # rest \<and> broken = None \<and> (rest = [] \<or> bc_read cap + (length chunk + length (concat rest)) \<le> bc_max cap
        \<and> bc_read cap + (length chunk + length (concat rest)) < 2 ^ 64)"
      by (simp only: Cons.IH) (auto simp: cap'_def add.assoc)
    finally show ?thesis using True by (cases "rest = []") simp_all
  next
    case False
    then show ?thesis by (auto simp: cap_push_def)
  qed
qed

lemma read_chunks_error:
  "read_chunks broken cap chunks = Inl e \<Longrightarrow> (\<exists>t. e = HNetwork t) \<or> (\<exists>t. e = HProtocol t)"
  by (induction chunks arbitrary: cap) (auto split: option.splits sum.splits)

lemma read_success_body_error:
  "read_success_body resp m = Inl e \<Longrightarrow> (\<exists>t. e = HNetwork t) \<or> (\<exists>t. e = HProtocol t)"
  by (cases "read_chunks (rp_broken resp) (body_cap_new (rp_content_length resp) m) (rp_chunks resp)")
    (auto simp: read_success_body_def Let_def split: option.splits dest: read_chunks_error)

text \<open>Only the errors raised before the socket are spared by \<open>sent_nothing\<close>: no attempt yields one of them.\<close>

lemma failed_response_sent:
  "outcome (failed_response status ra b) = Inl e \<Longrightarrow> \<not> sent_nothing e"
  by (auto simp: failed_response_def sent_nothing_def Let_def split: if_splits)

lemma plain_attempt_sent: "outcome (fst (plain_attempt N rq m s n)) = Inl e \<Longrightarrow> \<not> sent_nothing e"
proof -
  assume e: "outcome (fst (plain_attempt N rq m s n)) = Inl e"
  obtain r s' where r: "hn_send N rq s = (r, s')" by fastforce
  show ?thesis
  proof (cases r)
    case (NoResponse err)
    with e r show ?thesis by (auto simp: plain_attempt_def send_failure_def sent_nothing_def)
  next
    case (Response resp)
    show ?thesis
    proof (cases "is_success (rp_status resp)")
      case True
      with e r Response have "read_success_body resp m = Inl e" by (simp add: plain_attempt_def)
      from read_success_body_error [OF this] show ?thesis by (auto simp: sent_nothing_def)
    next
      case False
      with e r Response show ?thesis by (auto simp: plain_attempt_def dest: failed_response_sent)
    qed
  qed
qed

lemma with_retries_plain_sent:
  "fst (with_retries cls (plain_attempt N rq m) nanos s) = Inl e \<Longrightarrow> \<not> sent_nothing e"
proof -
  assume "fst (with_retries cls (plain_attempt N rq m) nanos s) = Inl e"
  then obtain k where "outcome (run_attempt (plain_attempt N rq m) s k) = Inl e"
    using loop_closed_form [of 0 cls "plain_attempt N rq m" s nanos] by (auto simp: with_retries_def)
  then show ?thesis
    unfolding run_attempt_def by (rule plain_attempt_sent)
qed

text \<open>A Key Vault call that fails with such an error left everything requests change as it was.\<close>

lemma keyvault_unsent:
  fixes sends :: "'s \<Rightarrow> 'v"
  assumes call: "keyvault_send_core_url N parse base_url api_version max_body nanos method url attach body check s = (Inl e, s')"
    and unsent: "sent_nothing e"
    and bearer: "\<And>s. sends (snd (hn_bearer N s)) = sends s"
  shows "sends s' = sends s"
proof (cases "check \<and> \<not> same_origin parse base_url url")
  case True
  with call unsent show ?thesis by (auto simp: keyvault_send_core_url_def sent_nothing_def)
next
  case False
  obtain r s1 where r: "hn_bearer N s = (r, s1)" by fastforce
  with bearer [of s] have s1: "sends s1 = sends s" by simp
  show ?thesis
  proof (cases "\<exists>b. r = Inr b \<and> hn_header_value N (''Bearer '' @ b) = None")
    case True
    then obtain b where b: "r = Inr b" "hn_header_value N (''Bearer '' @ b) = None" by blast
    let ?rq = "\<lparr>hr_method = method, hr_url = url, hr_query = (if attach then [(''api-version'', api_version)] else []),
      hr_authorization = ''Bearer '' @ b, hr_eventual = False, hr_prefer = None, hr_body = body\<rparr>"
    obtain res s2 sl where w: "with_retries (retry_class_for method) (plain_attempt N ?rq max_body) nanos s1 = (res, s2, sl)"
      by (metis prod_cases3)
    have "keyvault_send_core_url N parse base_url api_version max_body nanos method url attach body check s = (res, s2)"
      unfolding keyvault_send_core_url_def r b(1) using False b(2) w by auto
    with call w have "fst (with_retries (retry_class_for method) (plain_attempt N ?rq max_body) nanos s1) = Inl e" by simp
    then have "\<not> sent_nothing e" by (rule with_retries_plain_sent)
    then show ?thesis using unsent by contradiction
  next
    case no: False
    with call r s1 False show ?thesis by (auto simp: keyvault_send_core_url_def split: sum.splits option.splits)
  qed
qed

section \<open>Properties\<close>

text \<open>A success body is handed over whole and never exceeds its cap, whatever length was declared.\<close>

lemma success_body_bounded:
  assumes "read_success_body resp m = Inr b"
  shows "b = concat (rp_chunks resp) \<and> length b \<le> m \<and> rp_broken resp = None"
proof -
  obtain chunks where "read_chunks (rp_broken resp) (body_cap_new (rp_content_length resp) m) (rp_chunks resp) = Inr chunks"
    and b: "b = concat chunks"
    using assms by (cases "read_chunks (rp_broken resp) (body_cap_new (rp_content_length resp) m) (rp_chunks resp)")
      (auto simp: read_success_body_def Let_def split: option.splits)
  from iffD1 [OF read_chunks_iff this(1)] b show ?thesis by (auto simp: body_cap_new_def)
qed

text \<open>An error body is cut to its cap.\<close>

lemma error_loop_bounded: "bc_read cap \<le> bc_max cap \<Longrightarrow> length (read_error_loop cap chunks) \<le> bc_max cap - bc_read cap"
proof (induction chunks arbitrary: cap)
  case (Cons chunk rest)
  let ?n = "min (length chunk) (bc_max cap - bc_read cap)"
  from Cons.prems have "bc_read (cap\<lparr>bc_read := bc_read cap + ?n\<rparr>) \<le> bc_max (cap\<lparr>bc_read := bc_read cap + ?n\<rparr>)" by simp
  from Cons.IH [OF this] show ?case by (auto simp: cap_take_def Let_def)
qed simp

lemma continuation_run:
  assumes "t = [] \<or> \<not> utf8_continuation (hd t)"
  shows "takeWhile utf8_continuation (takeWhile utf8_continuation s @ t) = takeWhile utf8_continuation s"
    "dropWhile utf8_continuation (takeWhile utf8_continuation s @ t) = t"
proof -
  have all: "\<forall>x \<in> set (takeWhile utf8_continuation s). utf8_continuation x" by (auto dest: set_takeWhileD)
  have "takeWhile utf8_continuation t = []" "dropWhile utf8_continuation t = t" using assms by (cases t; auto)+
  with all show "takeWhile utf8_continuation (takeWhile utf8_continuation s @ t) = takeWhile utf8_continuation s"
    "dropWhile utf8_continuation (takeWhile utf8_continuation s @ t) = t"
    by (simp_all add: takeWhile_append dropWhile_append)
qed

lemma utf8_chars_take: "utf8_chars (concat (take n (utf8_chars s))) = take n (utf8_chars s)"
proof (induction s arbitrary: n rule: utf8_chars.induct)
  case (2 c s)
  show ?case
  proof (cases n)
    case (Suc k)
    define t where "t = concat (take k (utf8_chars (dropWhile utf8_continuation s)))"
    have "t = [] \<or> \<not> utf8_continuation (hd t)"
    proof (cases "dropWhile utf8_continuation s")
      case Nil
      then show ?thesis unfolding t_def by (simp only: utf8_chars.simps take_Nil concat.simps) simp
    next
      case (Cons a u)
      then have "\<not> utf8_continuation a" by (metis hd_dropWhile list.discI list.sel(1))
      with Cons show ?thesis unfolding t_def by (cases k) auto
    qed
    from continuation_run [OF this, of s] 2 [of k] Suc show ?thesis by (simp add: t_def)
  qed simp
qed simp

lemma utf8_chars_append_length: "length (utf8_chars (a @ b)) \<le> length (utf8_chars a) + length (utf8_chars b)"
proof (induction a rule: utf8_chars.induct)
  case (2 c s)
  show ?case
  proof (cases "dropWhile utf8_continuation s")
    case Nil
    then have all: "\<forall>x \<in> set s. utf8_continuation x" by (simp add: dropWhile_eq_Nil_conv)
    have "length (utf8_chars (dropWhile utf8_continuation b)) \<le> length (utf8_chars b)"
    proof (cases b)
      case (Cons x t)
      then show ?thesis by (cases "utf8_continuation x") auto
    qed simp
    then show ?thesis using all Nil by (simp add: dropWhile_append)
  next
    case (Cons x t)
    then have "dropWhile utf8_continuation (s @ b) = dropWhile utf8_continuation s @ b"
      by (metis dropWhile_append1 dropWhile_eq_Nil_conv list.discI)
    then show ?thesis using 2 Cons by simp
  qed
qed simp

text \<open>The text an error keeps of a body is never empty and has at most 801 characters, the last one the ellipsis.\<close>

lemma sanitized_cut:
  assumes "out = (if t = [] then ''<no body>''
      else concat (take ERROR_BODY_MAX_CHARS (utf8_chars t)) @ (if ERROR_BODY_MAX_CHARS < length (utf8_chars t) then ellipsis else []))"
  shows "out \<noteq> [] \<and> length (utf8_chars out) \<le> Suc ERROR_BODY_MAX_CHARS"
proof -
  let ?cut = "concat (take ERROR_BODY_MAX_CHARS (utf8_chars t))"
  have e: "length (utf8_chars ellipsis) = 1" by (simp add: ellipsis_def utf8_continuation_def)
  have cut: "length (utf8_chars ?cut) \<le> ERROR_BODY_MAX_CHARS" by (simp add: utf8_chars_take)
  have ell: "length (utf8_chars (?cut @ ellipsis)) \<le> Suc ERROR_BODY_MAX_CHARS"
    using utf8_chars_append_length [of ?cut ellipsis] e cut by simp
  have none: "length (utf8_chars ''<no body>'') \<le> Suc ERROR_BODY_MAX_CHARS"
    by (simp add: utf8_continuation_def ERROR_BODY_MAX_CHARS_def)
  have "t \<noteq> [] \<Longrightarrow> ?cut \<noteq> []" by (cases t) (auto simp: ERROR_BODY_MAX_CHARS_def)
  with assms cut ell none show ?thesis
    by (cases "t = []"; cases "ERROR_BODY_MAX_CHARS < length (utf8_chars t)") (simp_all del: concat_eq_Nil_conv)
qed

lemma sanitized_bounded:
  "sanitize_error_body raw \<noteq> [] \<and> length (utf8_chars (sanitize_error_body raw)) \<le> Suc ERROR_BODY_MAX_CHARS"
  by (rule sanitized_cut) (simp only: sanitize_error_body_def Let_def)

end
