(* ===== verification/Graph_Transport.thy ===== *)
theory Graph_Transport
  imports Http_Errors
begin

text \<open>
  The Graph client's transport (\<^verbatim>\<open>crates/azapptoolkit-graph/src/client/transport.rs\<close>): one request through the shared
  retry loop with at most one re-mint of the token for a Continuous Access Evaluation challenge, the error of a failed
  status, the pagers with their origin guard and page limit, and the texts spliced into a query or a path
  (\<^verbatim>\<open>client/validate.rs\<close>).  Decoding a body is \<^verbatim>\<open>serde_json\<close>: an argument \<open>decode\<close> that gives a value or the error's text.
\<close>

section \<open>One request\<close>

definition map_error_status :: "16 word \<Rightarrow> string \<Rightarrow> 64 word option \<Rightarrow> http_error" where
  "map_error_status code b retry_after =
     (let b' = sanitize_error_body b
      in if code = 401 then HUnauthorized
         else if code = 403 then HForbidden b'
         else if code = 404 then HNotFound b'
         else if code = 429 then HThrottled retry_after
         else if 500 \<le> code then HServer code b'
         else HApi code b')"

text \<open>\<open>split("claims=").nth(1)\<close> is the text between the first and the second occurrence of the pattern.\<close>

fun split_str_once :: "string \<Rightarrow> string \<Rightarrow> (string \<times> string) option" where
  "split_str_once p [] = (if p = [] then Some ([], []) else None)"
| "split_str_once p (c # s) =
     (if starts_with (c # s) p then Some ([], drop (length p) (c # s))
      else map_option (\<lambda>(a, b). (c # a, b)) (split_str_once p s))"

definition up_to_str :: "string \<Rightarrow> string \<Rightarrow> string" where
  "up_to_str p s = (case split_str_once p s of Some (a, b) \<Rightarrow> a | None \<Rightarrow> s)"

definition parse_claims_challenge :: "string \<Rightarrow> string option" where
  "parse_claims_challenge www_authenticate =
     (if \<not> contains_str www_authenticate ''insufficient_claims'' then None
      else (case split_str_once ''claims='' www_authenticate of
              None \<Rightarrow> None
            | Some (_, rest) \<Rightarrow>
                (let after = trim_start (up_to_str ''claims='' rest);
                     v = trim (if after \<noteq> [] \<and> hd after = CHR 0x22 then takeWhile (\<lambda>c. c \<noteq> CHR 0x22) (tl after)
                               else takeWhile (\<lambda>c. c \<noteq> CHR '','' \<and> c \<noteq> CHR '' '') after)
                 in if v = [] then None else Some v)))"

datatype graph_outcome = Body string | ClaimsChallenge string

definition graph_classify :: "nat \<Rightarrow> http_response \<Rightarrow> (graph_outcome, http_error) attempt" where
  "graph_classify max_body resp =
     (let code = rp_status resp;
          retry_after = parse_retry_after_seconds (rp_retry_after resp);
          b = sanitize_error_body (read_error_body resp)
      in if is_success code then Done (map_sum id Body (read_success_body resp max_body))
         else if code = 401 then
           (case Option.bind (rp_www_authenticate resp) parse_claims_challenge of
              Some challenge \<Rightarrow> Done (Inr (ClaimsChallenge challenge))
            | None \<Rightarrow> Done (Inl HUnauthorized))
         else if code = 403 then Done (Inl (HForbidden b))
         else if code = 404 then Done (Inl (HNotFound b))
         else if 400 \<le> code \<and> code < 500 \<and> code \<noteq> 429 then Done (Inl (HApi code b))
         else if code = 429 then Retry Throttled (Some code) retry_after (HThrottled retry_after)
         else Retry Transient (Some code) retry_after (HServer code b))"

definition graph_attempt ::
  "'s http_net \<Rightarrow> http_request \<Rightarrow> nat \<Rightarrow> 's \<Rightarrow> 32 word \<Rightarrow> (graph_outcome, http_error) attempt \<times> 's" where
  "graph_attempt N rq max_body s n =
     (case hn_send N rq s of
        (NoResponse err, s') \<Rightarrow> (Retry Transient None None (HNetwork (describe_error_chain err)), s')
      | (Response resp, s') \<Rightarrow>
          (graph_classify max_body resp,
           if rp_status resp = 429 then hn_on_throttle N (parse_retry_after_seconds (rp_retry_after resp)) s' else s'))"

text \<open>The outer loop: a challenge re-mints the token once; the second pass turns another one into a plain 401.  The two
  passes read the clock separately.\<close>

function graph_pass ::
  "'s http_net \<Rightarrow> (bool \<Rightarrow> 32 word \<Rightarrow> 64 word) \<Rightarrow> retry_class \<Rightarrow> nat \<Rightarrow> bool \<Rightarrow> http_request \<Rightarrow> 's \<Rightarrow> (http_error + string) \<times> 's" where
  "graph_pass N nanos cls max_body cae_retried rq s =
     (case with_retries cls (graph_attempt N rq max_body) (nanos cae_retried) s of
        (Inl e, s1, sleeps) \<Rightarrow> (Inl e, s1)
      | (Inr (Body bytes), s1, sleeps) \<Rightarrow> (Inr bytes, s1)
      | (Inr (ClaimsChallenge challenge), s1, sleeps) \<Rightarrow>
          if cae_retried then (Inl HUnauthorized, s1)
          else (case hn_bearer_with_claims N challenge s1 of
             (Inr bearer, s2) \<Rightarrow>
               (case hn_header_value N (''Bearer '' @ bearer) of
                  Some err \<Rightarrow> (Inl (HToken (token_error_opaque err)), s2)
                | None \<Rightarrow> graph_pass N nanos cls max_body True (rq\<lparr>hr_authorization := ''Bearer '' @ bearer\<rparr>) s2)
           | (Inl t, s2) \<Rightarrow>
               (Inl (if passthrough_code (te_code t) \<noteq> None then HToken t else HUnauthorized), s2)))"
  by pat_completeness auto

termination
  by (relation "measure (\<lambda>(N, nanos, cls, max_body, cae_retried, rq, s). if cae_retried then 0 else 1)") simp_all

declare graph_pass.simps [simp del]

definition send_core_url_with ::
  "'s http_net \<Rightarrow> (bool \<Rightarrow> 32 word \<Rightarrow> 64 word) \<Rightarrow> nat \<Rightarrow> retry_class \<Rightarrow> http_method \<Rightarrow> string \<Rightarrow> (string \<times> string) list
     \<Rightarrow> bool \<Rightarrow> string option \<Rightarrow> string option \<Rightarrow> 's \<Rightarrow> (http_error + string) \<times> 's" where
  "send_core_url_with N nanos max_body cls method url query eventual body prefer s =
     (case hn_bearer N s of
        (Inl t, s1) \<Rightarrow> (Inl (HToken t), s1)
      | (Inr bearer, s1) \<Rightarrow>
          (case hn_header_value N (''Bearer '' @ bearer) of
             Some err \<Rightarrow> (Inl (HToken (token_error_opaque err)), s1)
           | None \<Rightarrow>
               (case Option.bind prefer (hn_header_value N) of
                  Some err \<Rightarrow> (Inl (HProtocol err), s1)
                | None \<Rightarrow>
                    graph_pass N nanos cls max_body False
                      \<lparr>hr_method = method, hr_url = url, hr_query = query, hr_authorization = ''Bearer '' @ bearer,
                       hr_eventual = eventual, hr_prefer = prefer, hr_body = body\<rparr> s1)))"

text \<open>The client: its read and write providers share the socket, and the verb selects the provider.\<close>

record ('s, 'o) graph_client =
  gc_read :: "'s http_net"
  gc_write :: "'s http_net"
  gc_base_url :: string
  gc_max_body :: nat
  gc_parse :: "string \<Rightarrow> 'o url_parts option"
  gc_nanos :: "bool \<Rightarrow> 32 word \<Rightarrow> 64 word"

definition send_core_url ::
  "('s, 'o) graph_client \<Rightarrow> http_method \<Rightarrow> string \<Rightarrow> (string \<times> string) list \<Rightarrow> bool \<Rightarrow> string option \<Rightarrow> 's
     \<Rightarrow> (http_error + string) \<times> 's" where
  "send_core_url G method url query eventual body s =
     send_core_url_with (if method = GET then gc_read G else gc_write G) (gc_nanos G) (gc_max_body G) (retry_class_for method)
       method url query eventual body None s"

definition send_core ::
  "('s, 'o) graph_client \<Rightarrow> http_method \<Rightarrow> string \<Rightarrow> (string \<times> string) list \<Rightarrow> bool \<Rightarrow> string option \<Rightarrow> 's
     \<Rightarrow> (http_error + string) \<times> 's" where
  "send_core G method path query eventual body s = send_core_url G method (gc_base_url G @ path) query eventual body s"

definition decode_json :: "(string \<Rightarrow> string + 'a) \<Rightarrow> http_error + string \<Rightarrow> http_error + 'a" where
  "decode_json decode r = (case r of Inl e \<Rightarrow> Inl e | Inr b \<Rightarrow> map_sum HDeserialize id (decode b))"

definition get_json ::
  "('s, 'o) graph_client \<Rightarrow> (string \<Rightarrow> string + 'a) \<Rightarrow> string \<Rightarrow> (string \<times> string) list \<Rightarrow> bool \<Rightarrow> 's \<Rightarrow> (http_error + 'a) \<times> 's" where
  "get_json G decode path query eventual s = apfst (decode_json decode) (send_core G GET path query eventual None s)"

definition guard_absolute_origin :: "('s, 'o) graph_client \<Rightarrow> string \<Rightarrow> http_error option" where
  "guard_absolute_origin G url =
     (if same_origin (gc_parse G) (gc_base_url G) url then None
      else Some (HProtocol (''refusing to follow nextLink to a different origin (host: '' @ redacted_host (gc_parse G) url @ '')'')))"

definition get_json_absolute_with ::
  "('s, 'o) graph_client \<Rightarrow> (string \<Rightarrow> string + 'a) \<Rightarrow> bool \<Rightarrow> string \<Rightarrow> 's \<Rightarrow> (http_error + 'a) \<times> 's" where
  "get_json_absolute_with G decode eventual url s =
     (case guard_absolute_origin G url of
        Some e \<Rightarrow> (Inl e, s)
      | None \<Rightarrow> apfst (decode_json decode) (send_core_url G GET url [] eventual None s))"

definition scoped_get_retried ::
  "('s, 'o) graph_client \<Rightarrow> 's http_net \<Rightarrow> (string \<Rightarrow> string + 'a) \<Rightarrow> string \<Rightarrow> 's \<Rightarrow> (http_error + 'a) \<times> 's" where
  "scoped_get_retried G token decode url s =
     apfst (decode_json decode)
       (send_core_url_with token (gc_nanos G) (gc_max_body G) Idempotent GET url [] False None None s)"

definition scoped_get ::
  "('s, 'o) graph_client \<Rightarrow> 's http_net \<Rightarrow> (string \<Rightarrow> string + 'a) \<Rightarrow> string \<Rightarrow> 's \<Rightarrow> (http_error + 'a) \<times> 's" where
  "scoped_get G token decode url s =
     (case hn_bearer token s of
        (Inl t, s1) \<Rightarrow> (Inl (HToken t), s1)
      | (Inr bearer, s1) \<Rightarrow>
          (case hn_send token \<lparr>hr_method = GET, hr_url = url, hr_query = [], hr_authorization = ''Bearer '' @ bearer,
                    hr_eventual = False, hr_prefer = None, hr_body = None\<rparr> s1 of
             (NoResponse err, s2) \<Rightarrow> (Inl (HNetwork (describe_error_chain err)), s2)
           | (Response resp, s2) \<Rightarrow>
               (if \<not> is_success (rp_status resp)
                then Inl (map_error_status (rp_status resp) (read_error_body resp) (parse_retry_after_seconds (rp_retry_after resp)))
                else decode_json decode (read_success_body resp (gc_max_body G)), s2)))"

definition scoped_send_core ::
  "('s, 'o) graph_client \<Rightarrow> 's http_net \<Rightarrow> http_method \<Rightarrow> string \<Rightarrow> string option \<Rightarrow> 's \<Rightarrow> (http_error + string) \<times> 's" where
  "scoped_send_core G token method url body s =
     send_core_url_with token (gc_nanos G) (gc_max_body G) (retry_class_for method) method url [] False body None s"

definition not_found_as_none :: "http_error + 'a \<Rightarrow> http_error + 'a option" where
  "not_found_as_none r = (case r of Inr v \<Rightarrow> Inr (Some v) | Inl (HNotFound b) \<Rightarrow> Inr None | Inl e \<Rightarrow> Inl e)"

section \<open>Paging\<close>

record 't paged =
  pg_items :: "'t list"
  pg_next_link :: "string option"
  pg_total_count :: "64 word option"

definition MAX_PAGES :: nat where
  "MAX_PAGES = 200"

datatype page_limit = FailAtLimit | TruncateAtLimit

text \<open>The loop the three pagers share.  They differ in the cap (\<open>None\<close> for no cap), in what the page limit does, and in the
  origin check, which two of them leave to \<open>fetch\<close>.\<close>

function pages_loop ::
  "(string \<Rightarrow> bool) \<Rightarrow> page_limit \<Rightarrow> nat option \<Rightarrow> (string \<Rightarrow> 's \<Rightarrow> (http_error + 't paged) \<times> 's) \<Rightarrow> nat \<Rightarrow> 't list \<Rightarrow> 't paged \<Rightarrow> 's
     \<Rightarrow> (http_error + 't list \<times> bool) \<times> 's" where
  "pages_loop origin_ok lim cap fetch pages out page s =
     (if (case cap of Some m \<Rightarrow> length out < m | None \<Rightarrow> True)
      then (case pg_next_link page of
              None \<Rightarrow> (Inr (out, False), s)
            | Some nxt \<Rightarrow>
                if \<not> origin_ok nxt then (Inl (HProtocol ''refusing to follow nextLink to a different origin''), s)
                else if MAX_PAGES \<le> pages
                then (if lim = FailAtLimit then (Inl (HProtocol ''paging exceeded the page limit''), s)
                      else (Inr (case cap of Some m \<Rightarrow> take m out | None \<Rightarrow> out, True), s))
                else (case fetch nxt s of
                        (Inl e, s1) \<Rightarrow> (Inl e, s1)
                      | (Inr p, s1) \<Rightarrow> pages_loop origin_ok lim cap fetch (Suc pages) (out @ pg_items p) p s1))
      else (case cap of
              Some m \<Rightarrow> (Inr (take m out, m < length out \<or> pg_next_link page \<noteq> None), s)
            | None \<Rightarrow> (Inr (out, False), s)))"
  by pat_completeness auto

termination
  by (relation "measure (\<lambda>(origin_ok, lim, cap, fetch, pages, out, page, s). MAX_PAGES - pages)") auto

declare pages_loop.simps [simp del]

definition collect_all_pages ::
  "('s, 'o) graph_client \<Rightarrow> (string \<Rightarrow> string + 't paged) \<Rightarrow> 't paged \<Rightarrow> bool \<Rightarrow> 's \<Rightarrow> (http_error + 't list) \<times> 's" where
  "collect_all_pages G decode page eventual s =
     apfst (map_sum id fst)
       (pages_loop (\<lambda>_. True) FailAtLimit None (get_json_absolute_with G decode eventual) 1 (pg_items page) page s)"

definition collect_all_pages_capped ::
  "('s, 'o) graph_client \<Rightarrow> (string \<Rightarrow> string + 't paged) \<Rightarrow> 't paged \<Rightarrow> nat \<Rightarrow> bool \<Rightarrow> 's
     \<Rightarrow> (http_error + 't list \<times> bool) \<times> 's" where
  "collect_all_pages_capped G decode page max_items eventual s =
     pages_loop (\<lambda>_. True) TruncateAtLimit (Some max_items) (get_json_absolute_with G decode eventual) 1 (pg_items page) page s"

definition collect_pages_from_capped ::
  "('s, 'o) graph_client \<Rightarrow> 't paged \<Rightarrow> nat \<Rightarrow> (string \<Rightarrow> 's \<Rightarrow> (http_error + 't paged) \<times> 's) \<Rightarrow> 's
     \<Rightarrow> (http_error + 't list \<times> bool) \<times> 's" where
  "collect_pages_from_capped G first_page max_items fetch_page s =
     pages_loop (same_origin (gc_parse G) (gc_base_url G)) FailAtLimit (Some max_items) fetch_page 1 (pg_items first_page)
       first_page s"

definition collect_pages_from ::
  "('s, 'o) graph_client \<Rightarrow> 't paged \<Rightarrow> (string \<Rightarrow> 's \<Rightarrow> (http_error + 't paged) \<times> 's) \<Rightarrow> 's \<Rightarrow> (http_error + 't list) \<times> 's" where
  "collect_pages_from G first_page fetch_page s =
     apfst (map_sum id fst) (collect_pages_from_capped G first_page (2 ^ 64 - 1) fetch_page s)"

section \<open>Texts spliced into a request\<close>

definition escape_odata :: "string \<Rightarrow> string" where
  "escape_odata input = concat (map (\<lambda>c. if c = CHR 0x27 then [CHR 0x27, CHR 0x27] else [c]) input)"

definition search_phrase :: "string \<Rightarrow> string \<Rightarrow> string" where
  "search_phrase field term =
     [CHR 0x22] @ field @ '':'' @ map (\<lambda>c. if c = CHR 0x22 then CHR '' '' else c) term @ [CHR 0x22]"

definition PATH_SPECIALS :: "char list" where
  "PATH_SPECIALS = [CHR ''/'', CHR 0x5C, CHR ''?'', CHR ''#'', CHR ''%'', CHR '':'']"

definition has_whitespace :: "string \<Rightarrow> bool" where
  "has_whitespace s \<longleftrightarrow> strip_whitespace s \<noteq> s"

definition require_path_segment :: "string \<Rightarrow> string \<Rightarrow> http_error + unit" where
  "require_path_segment what v =
     (if v \<noteq> [] \<and> v \<noteq> ''.'' \<and> v \<noteq> ''..'' \<and> \<not> list_ex (\<lambda>c. c \<in> set PATH_SPECIALS) v
         \<and> \<not> (list_ex is_control (utf8_chars v) \<or> has_whitespace v)
      then Inr ()
      else Inl (HProtocol (''refusing '' @ (if what \<noteq> [] \<and> hd what \<in> set ''aeiou'' then ''an'' else ''a'') @ '' '' @ what
                @ '' that is not a single path segment'')))"

section \<open>Lemmas on the retry loop\<close>

lemma with_retries_last:
  obtains m where "m \<le> 3" "\<forall>k < m. replays cls (run_attempt att s k)"
    "fst (with_retries cls att nanos s) = outcome (run_attempt att s m)"
    "fst (snd (with_retries cls att nanos s)) = run_state att s (Suc m)"
proof -
  from loop_closed_form [of 0 cls att s nanos] obtain m where "m \<le> 3" "\<forall>k. 0 \<le> k \<and> k < m \<longrightarrow> replays cls (run_attempt att s k)"
    "with_retries_loop cls att nanos ((advance ^^ 0) budget_new) (run_state att s 0) =
       (outcome (run_attempt att s m), run_state att s (Suc m),
        map (\<lambda>k. sleep_before_retry (nanos (of_nat k)) (advertised (run_attempt att s k)) (delay_at k)) [0..<m])" by auto
  then show thesis by (intro that [of m]) (auto simp: with_retries_def simp del: run_state.simps(2))
qed

lemma run_state_grows:
  fixes f :: "'s \<Rightarrow> nat"
  assumes "\<And>s n. f (snd (att s n)) \<le> f s + d"
  shows "f (run_state att s k) \<le> f s + k * d"
proof (induction k)
  case (Suc k)
  then show ?case using assms [of "run_state att s k" "of_nat k"] by simp
qed simp

lemma run_state_subset:
  assumes "\<And>s n. f (snd (att s n)) \<subseteq> f s \<union> A"
  shows "f (run_state att s k) \<subseteq> f s \<union> A"
proof (induction k)
  case (Suc k)
  then show ?case using assms [of "run_state att s k" "of_nat k"] by auto
qed simp

text \<open>An attempt touches the state through the socket and the observer only.\<close>

lemma graph_attempt_state:
  "\<exists>r s'. hn_send N rq s = (r, s') \<and> (snd (graph_attempt N rq m s n) = s' \<or> (\<exists>ra. snd (graph_attempt N rq m s n) = hn_on_throttle N ra s'))"
  by (cases "hn_send N rq s") (auto simp: graph_attempt_def split: send_result.splits)

lemma graph_attempt_measure:
  assumes "\<And>rq s. P s (snd (hn_send N rq s))" "\<And>ra s s'. P s s' \<Longrightarrow> P s (hn_on_throttle N ra s')"
  shows "P s (snd (graph_attempt N rq m s n))"
  using graph_attempt_state [of N rq s m n] assms(1) [of s rq] assms(2) [of s] by auto

section \<open>Mutations through a challenge\<close>

lemma classify_challenge: "graph_classify m resp = Done (Inr (ClaimsChallenge c)) \<Longrightarrow> rp_status resp = 401"
proof (rule ccontr)
  assume eq: "graph_classify m resp = Done (Inr (ClaimsChallenge c))" and ne: "rp_status resp \<noteq> 401"
  show False
  proof (cases "is_success (rp_status resp)")
    case True
    with eq show False by (cases "read_success_body resp m") (simp_all add: graph_classify_def Let_def)
  next
    case False
    with eq ne show False unfolding graph_classify_def Let_def by (simp only: if_False split: if_split_asm) simp_all
  qed
qed

lemma classify_throttled: "graph_classify m resp = Retry Throttled st ra e \<Longrightarrow> rp_status resp = 429"
proof (rule ccontr)
  assume eq: "graph_classify m resp = Retry Throttled st ra e" and ne: "rp_status resp \<noteq> 429"
  then show False unfolding graph_classify_def Let_def
    by (simp only: if_False not_False_eq_True simp_thms split: if_split_asm option.split_asm) simp_all
qed

lemma graph_attempt_refused:
  fixes commits :: "'s \<Rightarrow> nat"
  assumes refused: "\<And>s resp s'. hn_send N rq s = (Response resp, s') \<Longrightarrow> rp_status resp \<in> {401, 429} \<Longrightarrow> commits s' = commits s"
    and quiet: "\<And>ra s. commits (hn_on_throttle N ra s) = commits s"
    and out: "fst (graph_attempt N rq m s n) = Retry Throttled st ra e \<or> fst (graph_attempt N rq m s n) = Done (Inr (ClaimsChallenge c))"
  shows "commits (snd (graph_attempt N rq m s n)) = commits s"
proof -
  obtain r s' where r: "hn_send N rq s = (r, s')" by fastforce
  show ?thesis
  proof (cases r)
    case (NoResponse err)
    with out r show ?thesis by (simp add: graph_attempt_def)
  next
    case (Response resp)
    with out r have "rp_status resp \<in> {401, 429}"
      by (auto simp: graph_attempt_def dest: classify_challenge classify_throttled)
    with refused [of s resp s'] Response r quiet show ?thesis by (simp add: graph_attempt_def)
  qed
qed

lemma pass_commits:
  fixes commits :: "'s \<Rightarrow> nat"
  assumes once: "\<And>rq s. commits (snd (hn_send N rq s)) \<le> Suc (commits s)"
    and refused: "\<And>rq s resp s'. hn_send N rq s = (Response resp, s') \<Longrightarrow> rp_status resp \<in> {401, 429} \<Longrightarrow> commits s' = commits s"
    and quiet: "\<And>ra s. commits (hn_on_throttle N ra s) = commits s"
    and run: "with_retries NonIdempotent (graph_attempt N rq m) nanos s = (res, s', sl)"
  shows "commits s' \<le> Suc (commits s)" and "res = Inr (ClaimsChallenge c) \<Longrightarrow> commits s' = commits s"
proof -
  let ?att = "graph_attempt N rq m"
  obtain k where k: "\<forall>i < k. replays NonIdempotent (run_attempt ?att s i)" "res = outcome (run_attempt ?att s k)"
      "s' = run_state ?att s (Suc k)"
    by (rule with_retries_last [of NonIdempotent ?att s nanos]) (use run in auto)
  have step: "commits (snd (?att s n)) \<le> commits s + 1" for s n
    using graph_attempt_measure [of "\<lambda>s s'. commits s' \<le> commits s + 1" N] once quiet by simp
  have same: "commits (run_state ?att s i) = commits s" if "i \<le> k" for i
    by (rule throttled_prefix_quiet [OF k(1) _ that]) (rule graph_attempt_refused [OF refused quiet], auto)
  show "commits s' \<le> Suc (commits s)" using step [of "run_state ?att s k" "of_nat k"] same [of k] k(3) by simp
  assume "res = Inr (ClaimsChallenge c)"
  then have "run_attempt ?att s k = Done (Inr (ClaimsChallenge c))" using k(2) by (cases "run_attempt ?att s k") auto
  with graph_attempt_refused [of N rq commits m "run_state ?att s k" "of_nat k"] refused quiet same [of k] k(3)
  show "commits s' = commits s" by (simp add: run_attempt_def)
qed

text \<open>C7: A POST or PATCH to Graph, the methods the client does not count as idempotent, is applied at most once, through the
  retries and through a claims challenge.  (A DELETE or a PUT may be repeated after a failure, by design.)  The server may
  fail in any way; it is only assumed to apply a request at most once, and not to apply one it answers with 401 or 429.
  The token provider and the observer apply nothing.\<close>

theorem graph_mutation_at_most_once:
  fixes commits :: "'s \<Rightarrow> nat"
  assumes once: "\<And>rq s. commits (snd (hn_send N rq s)) \<le> Suc (commits s)"
    and refused: "\<And>rq s resp s'. hn_send N rq s = (Response resp, s') \<Longrightarrow> rp_status resp \<in> {401, 429} \<Longrightarrow> commits s' = commits s"
    and quiet: "\<And>ra s. commits (hn_on_throttle N ra s) = commits s" "\<And>s. commits (snd (hn_bearer N s)) = commits s"
      "\<And>c s. commits (snd (hn_bearer_with_claims N c s)) = commits s"
    and mutates: "method \<in> {POST, PATCH}"
  shows "commits (snd (send_core_url_with N nanos m (retry_class_for method) method url query eventual body prefer s)) \<le> Suc (commits s)"
proof -
  have facts: "commits s' \<le> Suc (commits s)" "res = Inr (ClaimsChallenge c) \<Longrightarrow> commits s' = commits s"
    if "with_retries NonIdempotent (graph_attempt N rq m) ns s = (res, s', sl)" for rq ns s res s' sl c
    using pass_commits [of commits N, OF _ _ _ that] once refused quiet(1) by blast+
  have pass: "commits (snd (graph_pass N nanos NonIdempotent m retried rq s)) \<le> Suc (commits s)" for retried rq s
  proof (induction "if retried then 0 else 1 :: nat" arbitrary: retried rq s rule: less_induct)
    case less
    obtain res s1 sl where run: "with_retries NonIdempotent (graph_attempt N rq m) (nanos retried) s = (res, s1, sl)"
      by (metis prod_cases3)
    from facts(1) [OF run] have s1: "commits s1 \<le> Suc (commits s)" by blast
    show ?case
    proof (cases "\<exists>c. res = Inr (ClaimsChallenge c) \<and> \<not> retried")
      case True
      then obtain c where c: "res = Inr (ClaimsChallenge c)" "\<not> retried" by blast
      from facts(2) [OF run c(1)] have eq: "commits s1 = commits s" by blast
      obtain r s2 where mint: "hn_bearer_with_claims N c s1 = (r, s2)" by fastforce
      have s2: "commits s2 = commits s" using quiet(3) [of c s1] mint eq by simp
      have "commits (snd (graph_pass N nanos NonIdempotent m True (rq\<lparr>hr_authorization := a\<rparr>) s2)) \<le> Suc (commits s)" for a
        using less [of True "rq\<lparr>hr_authorization := a\<rparr>" s2] c(2) s2 by simp
      with s2 run c mint show ?thesis
        by (subst graph_pass.simps) (auto split: sum.splits option.splits)
    next
      case False
      with run s1 show ?thesis
        by (subst graph_pass.simps) (auto split: sum.splits graph_outcome.splits)
    qed
  qed
  obtain r s1 where r: "hn_bearer N s = (r, s1)" by fastforce
  have "retry_class_for method = NonIdempotent" using mutates by (auto simp: retry_class_for_def)
  then show ?thesis
    using pass [where s = s1] quiet(2) [of s] r
    by (auto simp: send_core_url_with_def split: sum.splits option.splits)
qed

text \<open>A server that challenges the first token and then drops the connection after applying the request.\<close>

definition demo_response :: "16 word \<Rightarrow> string option \<Rightarrow> string list \<Rightarrow> http_response" where
  "demo_response status auth chunks = \<lparr>rp_status = status, rp_retry_after = None, rp_www_authenticate = auth,
     rp_content_length = None, rp_chunks = chunks, rp_broken = None\<rparr>"

definition challenge_net :: "(nat \<times> nat) http_net" where
  "challenge_net = \<lparr>hn_bearer = (\<lambda>s. (Inr ''old'', s)), hn_bearer_with_claims = (\<lambda>c s. (Inr ''new'', s)),
     hn_header_value = (\<lambda>v. None),
     hn_send = (\<lambda>rq s. if hr_authorization rq = ''Bearer old''
        then (Response (demo_response 401 (Some ''Bearer error=insufficient_claims, claims=abc'') []), (Suc (fst s), snd s))
        else (NoResponse (''reset'', []), (Suc (fst s), Suc (snd s)))),
     hn_on_throttle = (\<lambda>ra s. s)\<rparr>"

theorem graph_mutation_at_most_once_witness:
  "snd (snd (send_core_url_with challenge_net (\<lambda>_ _. 0) 100 (retry_class_for POST) POST ''u'' [] False None None (0, 0))) \<le> Suc (snd (0 :: nat, 0 :: nat))"
proof (rule graph_mutation_at_most_once [where commits = snd])
  fix rq :: http_request and s s' :: "nat \<times> nat" and resp
  assume "hn_send challenge_net rq s = (Response resp, s')"
  then show "snd s' = snd s" by (cases "hr_authorization rq = ''Bearer old''") (auto simp: challenge_net_def)
qed (simp_all add: challenge_net_def)

section \<open>Three status tables\<close>

lemma success_below_400: "is_success c \<Longrightarrow> \<not> 400 \<le> c"
  by (simp add: is_success_def word_le_nat_alt word_less_nat_alt)

text \<open>The three tables that turn a failed status into an error agree on every status from 400 up: the retrying core of
  the Graph client (a claims challenge apart), \<open>map_error_status\<close> for the reads outside it, and the one the ARM and Key Vault
  transports share; the two retrying ones also agree on whether, and for which reason, the attempt may be retried.\<close>

theorem status_tables_agree:
  assumes "400 \<le> rp_status resp" and "Option.bind (rp_www_authenticate resp) parse_claims_challenge = None"
  shows "outcome (graph_classify m resp)
       = Inl (map_error_status (rp_status resp) (read_error_body resp) (parse_retry_after_seconds (rp_retry_after resp)))
     \<and> outcome (failed_response (rp_status resp) (parse_retry_after_seconds (rp_retry_after resp)) (read_error_body resp))
       = (outcome (graph_classify m resp) :: http_error + graph_outcome)
     \<and> (\<forall>cls. replays cls (failed_response (rp_status resp) (parse_retry_after_seconds (rp_retry_after resp)) (read_error_body resp)
             :: (graph_outcome, http_error) attempt) = replays cls (graph_classify m resp))"
proof -
  let ?c = "rp_status resp"
  have no: "\<not> is_success ?c" using success_below_400 assms(1) by blast
  have split: "500 \<le> ?c \<longleftrightarrow> \<not> ?c < 500" by (simp add: not_less)
  consider "?c = 401" | "?c = 403" | "?c = 404" | "?c = 429" | "?c \<noteq> 401" "?c \<noteq> 403" "?c \<noteq> 404" "?c \<noteq> 429" by blast
  then show ?thesis
  proof cases
    case 5
    with assms no show ?thesis unfolding graph_classify_def failed_response_def map_error_status_def Let_def split
      by (cases "?c < 500") (simp_all add: replays_def)
  qed (use assms(2) no in \<open>simp_all add: graph_classify_def failed_response_def map_error_status_def replays_def Let_def\<close>)
qed

theorem status_tables_agree_witness:
  "outcome (graph_classify 10 (demo_response 503 None [])) = Inl (map_error_status 503 (read_error_body (demo_response 503 None [])) None)"
  using status_tables_agree [of "demo_response 503 None []" 10] by (simp add: demo_response_def parse_retry_after_seconds_def)

text \<open>Below 400 they do not: a redirect that is not followed is a retryable server error in the core and a terminal API
  error everywhere else.\<close>

lemma status_tables_differ:
  "outcome (graph_classify m (demo_response 304 None [])) = Inl (HServer 304 ''<no body>'')
   \<and> map_error_status 304 [] None = HApi 304 ''<no body>''"
  by (simp add: graph_classify_def map_error_status_def demo_response_def is_success_def read_error_body_def Let_def
      sanitize_error_body_def trim_def from_utf8_lossy.simps)

section \<open>The pagers\<close>

text \<open>The pages a fetch function gives when their links are followed.\<close>

inductive followed :: "(string \<Rightarrow> 's \<Rightarrow> (http_error + 't paged) \<times> 's) \<Rightarrow> 't paged \<Rightarrow> 's \<Rightarrow> 't paged list \<Rightarrow> 't paged \<Rightarrow> 's \<Rightarrow> bool"
  for fetch where
  stop: "followed fetch page s [] page s"
| follow: "pg_next_link page = Some nxt \<Longrightarrow> fetch nxt s = (Inr p, s1) \<Longrightarrow> followed fetch p s1 ps final s2
     \<Longrightarrow> followed fetch page s (p # ps) final s2"

definition all_items :: "'t list \<Rightarrow> 't paged list \<Rightarrow> 't list" where
  "all_items out ps = out @ concat (map pg_items ps)"

lemma pages_loop_exact:
  assumes "pages_loop ok lim cap fetch pages out page s = (Inr (rows, truncated), s')"
  shows "\<exists>ps final. followed fetch page s ps final s' \<and> (ps = [] \<or> pages + length ps \<le> MAX_PAGES)
     \<and> rows = (case cap of Some m \<Rightarrow> take m (all_items out ps) | None \<Rightarrow> all_items out ps)
     \<and> (truncated \<longleftrightarrow> (\<exists>m. cap = Some m \<and> m < length (all_items out ps)) \<or> pg_next_link final \<noteq> None)
     \<and> (lim = FailAtLimit \<and> cap = None \<longrightarrow> \<not> truncated)"
  using assms
proof (induction ok lim cap fetch pages out page s rule: pages_loop.induct)
  case (1 ok lim cap fetch pages out page s)
  let ?room = "case cap of Some m \<Rightarrow> length out < m | None \<Rightarrow> True"
  show ?case
  proof (cases "?room \<and> (\<exists>nxt. pg_next_link page = Some nxt \<and> ok nxt \<and> \<not> MAX_PAGES \<le> pages)")
    case True
    then obtain nxt where nxt: "?room" "pg_next_link page = Some nxt" "ok nxt" "\<not> MAX_PAGES \<le> pages" by blast
    obtain r s1 where r: "fetch nxt s = (r, s1)" by fastforce
    from 1(2) nxt r obtain p where p: "r = Inr p"
        and rest: "pages_loop ok lim cap fetch (Suc pages) (out @ pg_items p) p s1 = (Inr (rows, truncated), s')"
      by (subst (asm) pages_loop.simps) (auto split: sum.splits)
    from 1(1) [OF nxt(1,2) _ nxt(4) r [symmetric] p rest] nxt(3) obtain ps final where
        ps: "followed fetch p s1 ps final s'" "ps = [] \<or> Suc pages + length ps \<le> MAX_PAGES"
        "rows = (case cap of Some m \<Rightarrow> take m (all_items (out @ pg_items p) ps) | None \<Rightarrow> all_items (out @ pg_items p) ps)"
        "truncated \<longleftrightarrow> (\<exists>m. cap = Some m \<and> m < length (all_items (out @ pg_items p) ps)) \<or> pg_next_link final \<noteq> None"
        "lim = FailAtLimit \<and> cap = None \<longrightarrow> \<not> truncated" by blast
    have "followed fetch page s (p # ps) final s'" by (rule follow [OF nxt(2) r [unfolded p] ps(1)])
    moreover have items: "all_items (out @ pg_items p) ps = all_items out (p # ps)" by (simp add: all_items_def)
    moreover have "pages + length (p # ps) \<le> MAX_PAGES" using ps(2) nxt(4) by auto
    ultimately show ?thesis using ps(3-5) [unfolded items] by blast
  next
    case False
    with 1(2) have "s' = s \<and> rows = (case cap of Some m \<Rightarrow> take m out | None \<Rightarrow> out)
        \<and> (truncated \<longleftrightarrow> (\<exists>m. cap = Some m \<and> m < length out) \<or> pg_next_link page \<noteq> None)
        \<and> (lim = FailAtLimit \<and> cap = None \<longrightarrow> \<not> truncated)"
      by (subst (asm) pages_loop.simps) (auto split: option.splits if_splits)
    then have "followed fetch page s [] page s' \<and> rows = (case cap of Some m \<Rightarrow> take m (all_items out []) | None \<Rightarrow> all_items out [])
        \<and> (truncated \<longleftrightarrow> (\<exists>m. cap = Some m \<and> m < length (all_items out [])) \<or> pg_next_link page \<noteq> None)
        \<and> (lim = FailAtLimit \<and> cap = None \<longrightarrow> \<not> truncated)"
      unfolding all_items_def list.map concat.simps append_Nil2 using stop [of fetch page s] by auto
    then show ?thesis by blast
  qed
qed

text \<open>C21: The pagers return exactly what the server's chain of pages holds.  The capped one returns the first \<open>max_items\<close>
  rows of the pages it followed and says so exactly when rows or pages were left; the uncapped one never drops a row
  silently: it returns the whole chain or an error.  Neither follows more than \<open>MAX_PAGES\<close> pages.\<close>

theorem pagers_exact:
  "(\<forall>rows truncated s'. collect_all_pages_capped G decode page max_items eventual s = (Inr (rows, truncated), s') \<longrightarrow>
      (\<exists>ps final. followed (get_json_absolute_with G decode eventual) page s ps final s' \<and> length ps < MAX_PAGES
         \<and> rows = take max_items (all_items (pg_items page) ps)
         \<and> (truncated \<longleftrightarrow> max_items < length (all_items (pg_items page) ps) \<or> pg_next_link final \<noteq> None)))
   \<and> (\<forall>rows s'. collect_all_pages G decode page eventual s = (Inr rows, s') \<longrightarrow>
      (\<exists>ps final. followed (get_json_absolute_with G decode eventual) page s ps final s' \<and> length ps < MAX_PAGES
         \<and> rows = all_items (pg_items page) ps \<and> pg_next_link final = None))"
proof (intro conjI allI impI)
  fix rows truncated s'
  assume "collect_all_pages_capped G decode page max_items eventual s = (Inr (rows, truncated), s')"
  from pages_loop_exact [OF this [unfolded collect_all_pages_capped_def]] obtain ps final where
    "followed (get_json_absolute_with G decode eventual) page s ps final s'" "ps = [] \<or> 1 + length ps \<le> MAX_PAGES"
    "rows = take max_items (all_items (pg_items page) ps)"
    "truncated \<longleftrightarrow> max_items < length (all_items (pg_items page) ps) \<or> pg_next_link final \<noteq> None" by auto
  then show "\<exists>ps final. followed (get_json_absolute_with G decode eventual) page s ps final s' \<and> length ps < MAX_PAGES
         \<and> rows = take max_items (all_items (pg_items page) ps)
         \<and> (truncated \<longleftrightarrow> max_items < length (all_items (pg_items page) ps) \<or> pg_next_link final \<noteq> None)"
    by (intro exI [of _ ps] exI [of _ final]) (auto simp: MAX_PAGES_def)
next
  fix rows s'
  assume "collect_all_pages G decode page eventual s = (Inr rows, s')"
  then obtain truncated where
    "pages_loop (\<lambda>_. True) FailAtLimit None (get_json_absolute_with G decode eventual) 1 (pg_items page) page s = (Inr (rows, truncated), s')"
    by (cases "pages_loop (\<lambda>_. True) FailAtLimit None (get_json_absolute_with G decode eventual) 1 (pg_items page) page s")
      (auto simp: collect_all_pages_def map_sum_def split: sum.splits elim!: fst_conv [THEN subst])
  from pages_loop_exact [OF this] obtain ps final where
    "followed (get_json_absolute_with G decode eventual) page s ps final s'" "ps = [] \<or> 1 + length ps \<le> MAX_PAGES"
    "rows = all_items (pg_items page) ps" "pg_next_link final = None" by auto
  then show "\<exists>ps final. followed (get_json_absolute_with G decode eventual) page s ps final s' \<and> length ps < MAX_PAGES
         \<and> rows = all_items (pg_items page) ps \<and> pg_next_link final = None"
    by (intro exI [of _ ps] exI [of _ final]) (auto simp: MAX_PAGES_def)
qed

definition demo_graph :: "(nat \<times> nat, string) graph_client" where
  "demo_graph = \<lparr>gc_read = challenge_net, gc_write = challenge_net, gc_base_url = ''https://g'', gc_max_body = 100,
     gc_parse = (\<lambda>u. Some \<lparr>up_username = [], up_password = None, up_origin = take 9 u, up_host = None, up_path = []\<rparr>),
     gc_nanos = (\<lambda>_ _. 0)\<rparr>"

definition demo_page :: "nat paged" where
  "demo_page = \<lparr>pg_items = [1, 2, 3], pg_next_link = Some ''https://h/2'', pg_total_count = None\<rparr>"

theorem pagers_exact_witness:
  "collect_all_pages_capped demo_graph (\<lambda>_. Inl []) demo_page 2 False (0, 0) = (Inr ([1, 2], True), (0, 0))
   \<and> (\<exists>ps. [1, 2] = take 2 (all_items (pg_items demo_page) ps))"
proof -
  have run: "collect_all_pages_capped demo_graph (\<lambda>_. Inl []) demo_page 2 False (0, 0) = (Inr ([1, 2], True), (0, 0))"
    unfolding collect_all_pages_capped_def by (subst pages_loop.simps) (simp add: demo_page_def)
  then show ?thesis
    using conjunct1 [OF pagers_exact [of demo_graph "\<lambda>_. Inl []" demo_page 2 False "(0, 0)"], rule_format, OF run] by blast
qed

section \<open>Where the bearer goes\<close>

lemma graph_pass_log:
  assumes send: "\<And>rq s. log (snd (hn_send N rq s)) \<subseteq> insert rq (log s)"
    and quiet: "\<And>ra s. log (hn_on_throttle N ra s) = log s" "\<And>c s. log (snd (hn_bearer_with_claims N c s)) = log s"
  shows "log (snd (graph_pass N nanos cls m retried rq s)) \<subseteq> log s \<union> {q. hr_url q = hr_url rq \<and> hr_method q = hr_method rq}"
proof (induction "if retried then 0 else 1 :: nat" arbitrary: retried rq s rule: less_induct)
  case less
  let ?A = "{q. hr_url q = hr_url rq \<and> hr_method q = hr_method rq}"
  obtain res s1 sl where run: "with_retries cls (graph_attempt N rq m) (nanos retried) s = (res, s1, sl)"
    by (metis prod_cases3)
  obtain k where k: "s1 = run_state (graph_attempt N rq m) s (Suc k)"
    by (rule with_retries_last [of cls "graph_attempt N rq m" s "nanos retried"]) (use run in auto)
  have step: "log (snd (graph_attempt N rq m s n)) \<subseteq> log s \<union> ?A" for s n
    using graph_attempt_state [of N rq s m n] send [of rq s] quiet(1) by auto
  have s1: "log s1 \<subseteq> log s \<union> ?A" unfolding k by (rule run_state_subset [where f = log]) (rule step)
  show ?case
  proof (cases "\<exists>c. res = Inr (ClaimsChallenge c) \<and> \<not> retried")
    case True
    then obtain c where c: "res = Inr (ClaimsChallenge c)" "\<not> retried" by blast
    obtain r s2 where mint: "hn_bearer_with_claims N c s1 = (r, s2)" by fastforce
    have s2: "log s2 \<subseteq> log s \<union> ?A" using quiet(2) [of c s1] mint s1 by simp
    have "log (snd (graph_pass N nanos cls m True (rq\<lparr>hr_authorization := a\<rparr>) s2)) \<subseteq> log s \<union> ?A" for a
      using less [of True "rq\<lparr>hr_authorization := a\<rparr>" s2] c(2) s2 by auto
    with s2 run c mint show ?thesis
      by (subst graph_pass.simps) (auto split: sum.splits option.splits)
  next
    case False
    with run s1 show ?thesis
      by (subst graph_pass.simps) (auto split: sum.splits graph_outcome.splits)
  qed
qed

lemma send_core_log:
  assumes send: "\<And>rq s. log (snd (hn_send N rq s)) \<subseteq> insert rq (log s)"
    and quiet: "\<And>ra s. log (hn_on_throttle N ra s) = log s" "\<And>c s. log (snd (hn_bearer_with_claims N c s)) = log s"
      "\<And>s. log (snd (hn_bearer N s)) = log s"
  shows "log (snd (send_core_url_with N nanos m cls method url query eventual body prefer s))
     \<subseteq> log s \<union> {q. hr_url q = url \<and> hr_method q = method}"
proof -
  obtain r s1 where r: "hn_bearer N s = (r, s1)" by fastforce
  show ?thesis
    using graph_pass_log [of log N, OF send quiet(1,2)] quiet(3) [of s] r
    by (fastforce simp: send_core_url_with_def split: sum.splits option.splits)
qed

text \<open>A loop logs only what its fetches of the links it accepts log.\<close>

lemma pages_loop_log:
  assumes "\<And>u s. ok u \<Longrightarrow> log (snd (fetch u s)) \<subseteq> log s \<union> A"
  shows "log (snd (pages_loop ok lim cap fetch pages out page s)) \<subseteq> log s \<union> A"
  using assms
proof (induction ok lim cap fetch pages out page s rule: pages_loop.induct)
  case (1 ok lim cap fetch pages out page s)
  show ?case
  proof (cases "(case cap of Some m \<Rightarrow> length out < m | None \<Rightarrow> True) \<and> (\<exists>nxt. pg_next_link page = Some nxt \<and> ok nxt \<and> \<not> MAX_PAGES \<le> pages)")
    case True
    then obtain nxt where n: "case cap of Some m \<Rightarrow> length out < m | None \<Rightarrow> True" "pg_next_link page = Some nxt" "ok nxt"
      "\<not> MAX_PAGES \<le> pages" by blast
    obtain r s1 where r: "fetch nxt s = (r, s1)" by fastforce
    have s1: "log s1 \<subseteq> log s \<union> A" using 1(2) [OF n(3), of s] r by simp
    show ?thesis
    proof (cases r)
      case (Inl e)
      with n r s1 show ?thesis by (subst pages_loop.simps) simp
    next
      case (Inr p)
      have "log (snd (pages_loop ok lim cap fetch (Suc pages) (out @ pg_items p) p s1)) \<subseteq> log s1 \<union> A"
        using 1(1) [OF n(1,2) _ n(4) r [symmetric] Inr 1(2)] n(3) by blast
      with n r Inr s1 show ?thesis by (subst pages_loop.simps) auto
    qed
  next
    case False
    then have "snd (pages_loop ok lim cap fetch pages out page s) = s"
      by (subst pages_loop.simps) (auto split: option.splits)
    then show ?thesis by simp
  qed
qed

lemma scoped_get_log:
  assumes "\<And>rq s. log (snd (hn_send N rq s)) \<subseteq> insert rq (log s)" "\<And>s. log (snd (hn_bearer N s)) = log s"
  shows "log (snd (scoped_get G N decode u s)) \<subseteq> log s \<union> {q. hr_url q = u \<and> hr_method q = GET}"
proof -
  obtain b s1 where b: "hn_bearer N s = (b, s1)" by fastforce
  show ?thesis
  proof (cases b)
    case (Inl t)
    with b assms(2) [of s] show ?thesis by (simp add: scoped_get_def)
  next
    case (Inr bearer)
    let ?rq = "\<lparr>hr_method = GET, hr_url = u, hr_query = [], hr_authorization = ''Bearer '' @ bearer, hr_eventual = False, hr_prefer = None, hr_body = None\<rparr>"
    have "snd (scoped_get G N decode u s) = snd (hn_send N ?rq s1)"
      using b Inr by (simp add: scoped_get_def split: prod.splits send_result.splits)
    moreover have "log s1 = log s" using assms(2) [of s] b by simp
    ultimately show ?thesis using assms(1) [of ?rq s1] by auto
  qed
qed


definition logging_net :: "http_request list http_net" where
  "logging_net = \<lparr>hn_bearer = (\<lambda>s. (Inr ''t'', s)), hn_bearer_with_claims = (\<lambda>c s. (Inr ''t'', s)), hn_header_value = (\<lambda>v. None),
     hn_send = (\<lambda>rq s. (Response (demo_response 200 None [''p'']), rq # s)), hn_on_throttle = (\<lambda>ra s. s)\<rparr>"

definition logging_graph :: "(http_request list, string) graph_client" where
  "logging_graph = \<lparr>gc_read = logging_net, gc_write = logging_net, gc_base_url = ''https://g'', gc_max_body = 100,
     gc_parse = (\<lambda>u. Some \<lparr>up_username = [], up_password = None, up_origin = take 9 u, up_host = None, up_path = []\<rparr>),
     gc_nanos = (\<lambda>_ _. 0)\<rparr>"


section \<open>Spliced texts\<close>

text \<open>A checked id stands as one segment of its path: splicing it in adds that segment and no other, and it is not one the
  URL parser resolves away.\<close>

lemma path_segment_kept:
  assumes "require_path_segment what v = Inr ()"
  shows "split_on (CHR ''/'') (base @ CHR ''/'' # v @ CHR ''/'' # rest) = split_on (CHR ''/'') base @ [v] @ split_on (CHR ''/'') rest
     \<and> v \<notin> {[], ''.'', ''..''} \<and> CHR ''?'' \<notin> set v \<and> CHR ''#'' \<notin> set v \<and> CHR ''%'' \<notin> set v"
proof -
  have v: "\<not> list_ex (\<lambda>c. c \<in> set PATH_SPECIALS) v" "v \<noteq> []" "v \<noteq> ''.''" "v \<noteq> ''..''"
    using assms by (auto simp: require_path_segment_def split: if_splits)
  then have none: "\<forall>c \<in> set v. c \<notin> {CHR ''/'', CHR ''?'', CHR ''#'', CHR ''%''}" by (auto simp: list_ex_iff PATH_SPECIALS_def)
  have split: "split_on c (a @ c # b) = split_on c a @ split_on c b" for c a b
    by (induction a) (auto split: list.splits)
  have "split_on (CHR ''/'') v = [v]" using none by (induction v) auto
  with none v(2-4) show ?thesis by (auto simp: split)
qed

text \<open>The escape of a quoted literal is undone by the reader that pairs quotes.\<close>

fun read_quoted :: "string \<Rightarrow> (string \<times> string) option" where
  "read_quoted [] = None"
| "read_quoted (c # s) =
     (if c = CHR 0x27
      then (case s of (d # t) \<Rightarrow> if d = CHR 0x27 then map_option (\<lambda>(a, b). (CHR 0x27 # a, b)) (read_quoted t) else Some ([], s)
                    | [] \<Rightarrow> Some ([], []))
      else map_option (\<lambda>(a, b). (c # a, b)) (read_quoted s))"

lemma escape_odata_reads_back:
  assumes "rest = [] \<or> hd rest \<noteq> CHR 0x27"
  shows "read_quoted (escape_odata input @ CHR 0x27 # rest) = Some (input, rest)"
proof (induction input)
  case Nil
  then show ?case using assms by (cases rest) (auto simp: escape_odata_def)
qed (auto simp: escape_odata_def)

end
