(* ===== verification/Graph_Batch.thy ===== *)
theory Graph_Batch
  imports Graph_Transport
begin

text \<open>
  JSON batching in the Graph client (\<^verbatim>\<open>crates/azapptoolkit-graph/src/client/batch.rs\<close>): up to twenty GETs per POST, the
  re-batching of throttled or failed sub-requests on the shared retry budget, and the bookkeeping that gives every input its
  own answer, in order, including inputs refused before they were sent.

  Encoding the requests, decoding the envelope and decoding a sub-response's value are \<^verbatim>\<open>serde_json\<close>: arguments.  The
  chunks of a group run concurrently in the program; here they run one after the other.  No law below constrains the state
  between two requests, so the results hold for every server, and with it for what one chunk sees of the others.
\<close>

section \<open>Sub-responses\<close>

definition BATCH_MAX :: nat where
  "BATCH_MAX = 20"

definition CHUNK_CONCURRENCY :: nat where
  "CHUNK_CONCURRENCY = 4"

record 'j batch_sub_response =
  sr_id :: string
  sr_status :: "16 word"
  sr_body :: 'j
  sr_headers :: "(string \<times> string) list"

definition sub_retry_after_secs :: "'j batch_sub_response \<Rightarrow> 64 word option" where
  "sub_retry_after_secs r =
     Option.bind (find (\<lambda>(k, _). eq_ignore_ascii_case k ''retry-after'') (sr_headers r))
       (\<lambda>(_, v). parse_retry_after_seconds (Some v))"

definition map_batch_response :: "('j \<Rightarrow> string + 't) \<Rightarrow> ('j \<Rightarrow> string) \<Rightarrow> 'j batch_sub_response \<Rightarrow> http_error + 't" where
  "map_batch_response decode json_text r =
     (if is_success (sr_status r) then map_sum HDeserialize id (decode (sr_body r))
      else Inl (map_error_status (sr_status r) (json_text (sr_body r)) (sub_retry_after_secs r)))"

definition retried_sub_status :: "16 word \<Rightarrow> bool" where
  "retried_sub_status status \<longleftrightarrow> status = 429 \<or> 500 \<le> status"

section \<open>Refused inputs\<close>

fun checked_sub_urls :: "('i \<Rightarrow> http_error + string) \<Rightarrow> 'i list \<Rightarrow> string list \<times> http_error option list" where
  "checked_sub_urls build [] = ([], [])"
| "checked_sub_urls build (input # inputs) =
     (let (urls, refused) = checked_sub_urls build inputs
      in case build input of Inr url \<Rightarrow> (url # urls, None # refused) | Inl e \<Rightarrow> (urls, Some e # refused))"

fun rejoin_refused :: "http_error option list \<Rightarrow> (http_error + 't) list \<Rightarrow> (http_error + 't) list" where
  "rejoin_refused [] batched = []"
| "rejoin_refused (Some e # refused) batched = Inl e # rejoin_refused refused batched"
| "rejoin_refused (None # refused) [] =
     Inl (HProtocol ''$batch answered fewer sub-requests than it was sent'') # rejoin_refused refused []"
| "rejoin_refused (None # refused) (r # batched) = r # rejoin_refused refused batched"

section \<open>One chunk\<close>

text \<open>What one round keeps: the answers so far, the indices to send again, how many of them were throttled, and the longest
  wait asked for.\<close>

record 't batch_round =
  br_results :: "(http_error + 't) option list"
  br_retry :: "nat list"
  br_throttled :: nat
  br_retry_after :: "64 word option"

definition longest_wait :: "64 word option \<Rightarrow> 64 word option \<Rightarrow> 64 word option" where
  "longest_wait a b = (case (a, b) of (Some x, Some y) \<Rightarrow> Some (max x y) | (Some x, None) \<Rightarrow> Some x | (None, y) \<Rightarrow> y)"

definition batch_sub ::
  "('j \<Rightarrow> string + 't) \<Rightarrow> ('j \<Rightarrow> string) \<Rightarrow> nat \<Rightarrow> retry_budget \<Rightarrow> 'j batch_sub_response \<Rightarrow> 't batch_round \<Rightarrow> 't batch_round" where
  "batch_sub decode json_text n b sub st =
     (case parse_usize (sr_id sub) of
        None \<Rightarrow> st
      | Some idx \<Rightarrow>
          if n \<le> idx \<or> br_results st ! idx \<noteq> None then st
          else if retried_sub_status (sr_status sub) \<and> may_retry b
          then st\<lparr>br_retry := br_retry st @ [idx],
                  br_throttled := (if sr_status sub = 429 then br_throttled st + 1 else br_throttled st),
                  br_retry_after := longest_wait (br_retry_after st) (sub_retry_after_secs sub)\<rparr>
          else st\<lparr>br_results := (br_results st)[idx := Some (map_batch_response decode json_text sub)]\<rparr>)"

definition batch_round_of ::
  "('j \<Rightarrow> string + 't) \<Rightarrow> ('j \<Rightarrow> string) \<Rightarrow> nat \<Rightarrow> retry_budget \<Rightarrow> (http_error + 't) option list \<Rightarrow> 'j batch_sub_response list
     \<Rightarrow> 't batch_round" where
  "batch_round_of decode json_text n b results subs =
     fold (batch_sub decode json_text n b) subs
       \<lparr>br_results = results, br_retry = [], br_throttled = 0, br_retry_after = None\<rparr>"

lemma batch_sub_retry: "br_retry (batch_sub decode json_text n b sub st) = br_retry st \<or> may_retry b"
  by (simp add: batch_sub_def split: option.split)

lemma batch_round_retry: "br_retry (batch_round_of decode json_text n b results subs) \<noteq> [] \<Longrightarrow> may_retry b"
proof -
  have "br_retry (fold (batch_sub decode json_text n b) subs st) = br_retry st \<or> may_retry b" for st
    by (induction subs arbitrary: st) (simp, metis batch_sub_retry fold_simps(2))
  then show "br_retry (batch_round_of decode json_text n b results subs) \<noteq> [] \<Longrightarrow> may_retry b"
    unfolding batch_round_of_def by (metis batch_round.select_convs(2))
qed

type_synonym batch_request = "string \<times> string \<times> (string \<times> string) list"

definition batch_requests :: "string list \<Rightarrow> (string \<times> string) list \<Rightarrow> nat list \<Rightarrow> batch_request list" where
  "batch_requests urls headers pending = map (\<lambda>i. (show_nat i, urls ! i, headers)) pending"

text \<open>\<open>post\<close> sends one envelope and \<open>notify\<close> tells the throttle observer; the clock is read once per wait.\<close>

function batch_loop ::
  "(batch_request list \<Rightarrow> 's \<Rightarrow> (http_error + 'j batch_sub_response list) \<times> 's) \<Rightarrow> (64 word option \<Rightarrow> 's \<Rightarrow> 's) \<Rightarrow> (32 word \<Rightarrow> 64 word)
     \<Rightarrow> ('j \<Rightarrow> string + 't) \<Rightarrow> ('j \<Rightarrow> string) \<Rightarrow> string list \<Rightarrow> (string \<times> string) list \<Rightarrow> retry_budget \<Rightarrow> nat list
     \<Rightarrow> (http_error + 't) option list \<Rightarrow> 's \<Rightarrow> (http_error + (http_error + 't) option list) \<times> 's" where
  "batch_loop post notify nanos decode json_text urls headers b pending results s =
     (if pending = [] then (Inr results, s)
      else (case post (batch_requests urls headers pending) s of
              (Inl e, s1) \<Rightarrow> (Inl e, s1)
            | (Inr subs, s1) \<Rightarrow>
                (let r = batch_round_of decode json_text (length urls) b results subs
                 in if br_retry r = [] then (Inr (br_results r), s1)
                    else (let s2 = (if 0 < br_throttled r then notify (br_retry_after r) s1 else s1);
                              (slept, b1) = budget_wait (nanos (rb_attempt b)) (br_retry_after r) b
                          in batch_loop post notify nanos decode json_text urls headers b1 (br_retry r) (br_results r) s2))))"
  by pat_completeness auto

termination
  by (relation "measure (\<lambda>(post, notify, nanos, decode, json_text, urls, headers, b, pending, results, s). 3 - unat (rb_attempt b))")
    (auto simp: budget_wait_def dest!: batch_round_retry may_retry_advance)

declare batch_loop.simps [simp del]

definition post_batch ::
  "('s, 'o) graph_client \<Rightarrow> 's http_net \<Rightarrow> (batch_request list \<Rightarrow> string) \<Rightarrow> (string \<Rightarrow> string + 'j batch_sub_response list)
     \<Rightarrow> batch_request list \<Rightarrow> 's \<Rightarrow> (http_error + 'j batch_sub_response list) \<times> 's" where
  "post_batch G token encode decode_envelope requests s =
     apfst (decode_json decode_envelope)
       (send_core_url_with token (gc_nanos G) (gc_max_body G) Idempotent POST (gc_base_url G @ ''/$batch'') [] False
          (Some (encode requests)) None s)"

definition batch_chunk ::
  "(batch_request list \<Rightarrow> 's \<Rightarrow> (http_error + 'j batch_sub_response list) \<times> 's) \<Rightarrow> (64 word option \<Rightarrow> 's \<Rightarrow> 's) \<Rightarrow> (32 word \<Rightarrow> 64 word)
     \<Rightarrow> ('j \<Rightarrow> string + 't) \<Rightarrow> ('j \<Rightarrow> string) \<Rightarrow> (string \<times> string) list \<Rightarrow> string list \<Rightarrow> 's
     \<Rightarrow> (http_error + (http_error + 't) list) \<times> 's" where
  "batch_chunk post notify nanos decode json_text headers urls s =
     apfst (map_sum id (map (\<lambda>r. case r of Some x \<Rightarrow> x | None \<Rightarrow> Inl (HProtocol ''missing batch response''))))
       (batch_loop post notify nanos decode json_text urls headers budget_new [0..<length urls] (replicate (length urls) None) s)"

section \<open>All chunks\<close>

function slice_chunks :: "nat \<Rightarrow> 'a list \<Rightarrow> 'a list list" where
  "slice_chunks n xs = (if xs = [] \<or> n = 0 then [] else take n xs # slice_chunks n (drop n xs))"
  by pat_completeness auto

termination
  by (relation "measure (\<lambda>(n, xs). length xs)") auto

declare slice_chunks.simps [simp del]

fun run_chunks :: "('a \<Rightarrow> 's \<Rightarrow> 'b \<times> 's) \<Rightarrow> 'a list \<Rightarrow> 's \<Rightarrow> 'b list \<times> 's" where
  "run_chunks f [] s = ([], s)"
| "run_chunks f (c # cs) s = (let (r, s1) = f c s; (rs, s2) = run_chunks f cs s1 in (r # rs, s2))"

fun extend_ok :: "(http_error + 'a list) list \<Rightarrow> http_error + 'a list" where
  "extend_ok [] = Inr []"
| "extend_ok (Inl e # rs) = Inl e"
| "extend_ok (Inr xs # rs) = map_sum id (\<lambda>ys. xs @ ys) (extend_ok rs)"

fun run_groups :: "(string list \<Rightarrow> 's \<Rightarrow> (http_error + 'r list) \<times> 's) \<Rightarrow> string list list list \<Rightarrow> 's \<Rightarrow> (http_error + 'r list) \<times> 's" where
  "run_groups chunk [] s = (Inr [], s)"
| "run_groups chunk (g # gs) s =
     (let (results, s1) = run_chunks chunk g s
      in case extend_ok results of
           Inl e \<Rightarrow> (Inl e, s1)
         | Inr xs \<Rightarrow> apfst (map_sum id (\<lambda>ys. xs @ ys)) (run_groups chunk gs s1))"

definition batch_get_json_inner ::
  "('s, 'o) graph_client \<Rightarrow> 's http_net \<Rightarrow> (batch_request list \<Rightarrow> string) \<Rightarrow> (string \<Rightarrow> string + 'j batch_sub_response list)
     \<Rightarrow> (32 word \<Rightarrow> 64 word) \<Rightarrow> ('j \<Rightarrow> string + 't) \<Rightarrow> ('j \<Rightarrow> string) \<Rightarrow> string list \<Rightarrow> (string \<times> string) list \<Rightarrow> 's
     \<Rightarrow> (http_error + (http_error + 't) list) \<times> 's" where
  "batch_get_json_inner G token encode decode_envelope nanos decode json_text urls headers s =
     run_groups (batch_chunk (post_batch G token encode decode_envelope) (hn_on_throttle token) nanos decode json_text headers)
       (slice_chunks CHUNK_CONCURRENCY (slice_chunks BATCH_MAX urls)) s"

fun finish_paged_batch ::
  "('s, 'o) graph_client \<Rightarrow> (string \<Rightarrow> string + 't paged) \<Rightarrow> bool \<Rightarrow> (http_error + 't paged) list \<Rightarrow> 's \<Rightarrow> (http_error + 't list) list \<times> 's" where
  "finish_paged_batch G decode eventual [] s = ([], s)"
| "finish_paged_batch G decode eventual (Inr p # pages) s =
     (let (r, s1) = collect_all_pages G decode p eventual s; (rs, s2) = finish_paged_batch G decode eventual pages s1
      in (r # rs, s2))"
| "finish_paged_batch G decode eventual (Inl e # pages) s = apfst ((#) (Inl e)) (finish_paged_batch G decode eventual pages s)"

fun finish_paged_batch_scoped ::
  "('s, 'o) graph_client \<Rightarrow> 's http_net \<Rightarrow> (string \<Rightarrow> string + 't paged) \<Rightarrow> (http_error + 't paged) list \<Rightarrow> 's
     \<Rightarrow> (http_error + 't list) list \<times> 's" where
  "finish_paged_batch_scoped G token decode [] s = ([], s)"
| "finish_paged_batch_scoped G token decode (Inr p # pages) s =
     (let (r, s1) = collect_pages_from G p (scoped_get_retried G token decode) s;
          (rs, s2) = finish_paged_batch_scoped G token decode pages s1
      in (r # rs, s2))"
| "finish_paged_batch_scoped G token decode (Inl e # pages) s =
     apfst ((#) (Inl e)) (finish_paged_batch_scoped G token decode pages s)"

section \<open>Every answer in its place\<close>

text \<open>\<open>Good url sub\<close> says that \<open>sub\<close> is an answer to a GET of \<open>url\<close>.  Graph documents that sub-responses carry the id of their
  sub-request; \<open>correlates\<close> is that law and \<open>answers_all\<close> that none is left out.\<close>

definition correlates ::
  "(string \<Rightarrow> 'j batch_sub_response \<Rightarrow> bool) \<Rightarrow> (batch_request list \<Rightarrow> 's \<Rightarrow> (http_error + 'j batch_sub_response list) \<times> 's) \<Rightarrow> bool" where
  "correlates Good post \<longleftrightarrow>
     (\<forall>requests s subs s'. post requests s = (Inr subs, s') \<longrightarrow>
        (\<forall>sub \<in> set subs. \<exists>url headers. (sr_id sub, url, headers) \<in> set requests \<and> Good url sub))"

definition answers_all :: "(batch_request list \<Rightarrow> 's \<Rightarrow> (http_error + 'j batch_sub_response list) \<times> 's) \<Rightarrow> bool" where
  "answers_all post \<longleftrightarrow>
     (\<forall>requests s subs s'. post requests s = (Inr subs, s') \<longrightarrow> fst ` set requests \<subseteq> sr_id ` set subs)"

lemma show_nat_inj: "m < 2 ^ 64 \<Longrightarrow> n < 2 ^ 64 \<Longrightarrow> show_nat m = show_nat n \<Longrightarrow> m = n"
  by (metis option.inject parse_usize_show)

text \<open>The state of a chunk: each answer recorded belongs to its URL, and (when all are answered) each index is answered or
  pending.\<close>

definition chunk_ok ::
  "(string \<Rightarrow> 'j batch_sub_response \<Rightarrow> bool) \<Rightarrow> ('j batch_sub_response \<Rightarrow> http_error + 't) \<Rightarrow> string list
     \<Rightarrow> (http_error + 't) option list \<Rightarrow> bool" where
  "chunk_ok Good reply urls results \<longleftrightarrow>
     length results = length urls
     \<and> (\<forall>i < length urls. \<forall>r. results ! i = Some r \<longrightarrow> (\<exists>sub. Good (urls ! i) sub \<and> r = reply sub))"

lemma batch_sub_ok:
  assumes "chunk_ok Good (map_batch_response decode json_text) urls (br_results st)"
    and "parse_usize (sr_id sub) = Some i" "i < length urls" "Good (urls ! i) sub"
  shows "chunk_ok Good (map_batch_response decode json_text) urls (br_results (batch_sub decode json_text (length urls) b sub st))"
    and "set (br_retry (batch_sub decode json_text (length urls) b sub st)) \<subseteq> insert i (set (br_retry st))"
    and "br_results (batch_sub decode json_text (length urls) b sub st) ! i \<noteq> None
         \<or> i \<in> set (br_retry (batch_sub decode json_text (length urls) b sub st))"
  using assms by (auto simp: chunk_ok_def batch_sub_def nth_list_update)

lemma batch_sub_keeps:
  "k < length (br_results st) \<Longrightarrow> br_results st ! k \<noteq> None \<or> k \<in> set (br_retry st) \<Longrightarrow>
     br_results (batch_sub decode json_text n b sub st) ! k \<noteq> None \<or> k \<in> set (br_retry (batch_sub decode json_text n b sub st))"
  by (cases "parse_usize (sr_id sub)") (auto simp: batch_sub_def, (metis nth_list_update_neq option.distinct(1))+)

lemma length_batch_sub [simp]: "length (br_results (batch_sub decode json_text n b sub st)) = length (br_results st)"
  by (simp add: batch_sub_def split: option.split)

lemma batch_round_ok:
  assumes "chunk_ok Good (map_batch_response decode json_text) urls (br_results st)"
    and "\<forall>sub \<in> set subs. \<exists>i < length urls. i \<in> set pending \<and> parse_usize (sr_id sub) = Some i \<and> Good (urls ! i) sub"
    and "r = fold (batch_sub decode json_text (length urls) b) subs st"
  shows "chunk_ok Good (map_batch_response decode json_text) urls (br_results r)"
    and "set (br_retry r) \<subseteq> set (br_retry st) \<union> set pending"
    and "\<forall>k < length urls. br_results st ! k \<noteq> None \<or> k \<in> set (br_retry st) \<or> (\<exists>sub \<in> set subs. parse_usize (sr_id sub) = Some k)
         \<longrightarrow> br_results r ! k \<noteq> None \<or> k \<in> set (br_retry r)"
proof -
  have "chunk_ok Good (map_batch_response decode json_text) urls (br_results r) \<and> set (br_retry r) \<subseteq> set (br_retry st) \<union> set pending
     \<and> (\<forall>k < length urls. br_results st ! k \<noteq> None \<or> k \<in> set (br_retry st) \<or> (\<exists>sub \<in> set subs. parse_usize (sr_id sub) = Some k)
         \<longrightarrow> br_results r ! k \<noteq> None \<or> k \<in> set (br_retry r))"
    using assms
  proof (induction subs arbitrary: st)
    case (Cons sub subs)
    let ?st = "batch_sub decode json_text (length urls) b sub st"
    obtain i where i: "i < length urls" "i \<in> set pending" "parse_usize (sr_id sub) = Some i" "Good (urls ! i) sub"
      using Cons.prems(2) by auto
    note one = batch_sub_ok [OF Cons.prems(1) i(3,1,4), where b = b]
    have IH: "chunk_ok Good (map_batch_response decode json_text) urls (br_results r)"
        "set (br_retry r) \<subseteq> set (br_retry ?st) \<union> set pending"
        "\<forall>k < length urls. br_results ?st ! k \<noteq> None \<or> k \<in> set (br_retry ?st) \<or> (\<exists>sub \<in> set subs. parse_usize (sr_id sub) = Some k)
         \<longrightarrow> br_results r ! k \<noteq> None \<or> k \<in> set (br_retry r)"
      using Cons.IH [OF one(1)] Cons.prems(2,3) by auto
    have len: "length (br_results st) = length urls" using Cons.prems(1) by (simp add: chunk_ok_def)
    have "br_results r ! k \<noteq> None \<or> k \<in> set (br_retry r)"
      if k: "k < length urls"
        and met: "br_results st ! k \<noteq> None \<or> k \<in> set (br_retry st) \<or> (\<exists>s \<in> set (sub # subs). parse_usize (sr_id s) = Some k)" for k
    proof -
      have "br_results ?st ! k \<noteq> None \<or> k \<in> set (br_retry ?st) \<or> (\<exists>s \<in> set subs. parse_usize (sr_id s) = Some k)"
      proof (cases "br_results st ! k \<noteq> None \<or> k \<in> set (br_retry st)")
        case True
        then show ?thesis using batch_sub_keeps [of k st decode json_text "length urls" b sub] k len by auto
      next
        case False
        then have "k = i \<or> (\<exists>s \<in> set subs. parse_usize (sr_id s) = Some k)" using met i(3) by auto
        then show ?thesis using one(3) by blast
      qed
      with IH(3) k show ?thesis by blast
    qed
    with IH(1,2) one(2) i(2) show ?case by blast
  qed auto
  then show "chunk_ok Good (map_batch_response decode json_text) urls (br_results r)" "set (br_retry r) \<subseteq> set (br_retry st) \<union> set pending"
    "\<forall>k < length urls. br_results st ! k \<noteq> None \<or> k \<in> set (br_retry st) \<or> (\<exists>sub \<in> set subs. parse_usize (sr_id sub) = Some k)
         \<longrightarrow> br_results r ! k \<noteq> None \<or> k \<in> set (br_retry r)" by blast+
qed

lemma batch_loop_ok:
  assumes corr: "correlates Good post" and small: "length urls \<le> 2 ^ 64"
    and "chunk_ok Good (map_batch_response decode json_text) urls results" and "set pending \<subseteq> {..<length urls}"
    and "batch_loop post notify nanos decode json_text urls headers b pending results s = (Inr rs, s')"
  shows "chunk_ok Good (map_batch_response decode json_text) urls rs
     \<and> (answers_all post \<and> (\<forall>k < length urls. results ! k \<noteq> None \<or> k \<in> set pending) \<longrightarrow> (\<forall>k < length urls. rs ! k \<noteq> None))"
  using assms(3-)
proof (induction "3 - unat (rb_attempt b)" arbitrary: b pending results s rule: less_induct)
  case less
  show ?case
  proof (cases "pending = []")
    case True
    with less.prems show ?thesis by (subst (asm) batch_loop.simps) auto
  next
    case False
    obtain r s1 where r: "post (batch_requests urls headers pending) s = (r, s1)" by fastforce
    with less.prems(3) False obtain subs where subs: "r = Inr subs"
      by (cases r) (subst (asm) batch_loop.simps, simp_all)+
    define q where "q = batch_round_of decode json_text (length urls) b results subs"
    have known: "\<forall>sub \<in> set subs. \<exists>i < length urls. i \<in> set pending \<and> parse_usize (sr_id sub) = Some i \<and> Good (urls ! i) sub"
    proof
      fix sub assume "sub \<in> set subs"
      with corr r subs obtain url hs where "(sr_id sub, url, hs) \<in> set (batch_requests urls headers pending)" "Good url sub"
        unfolding correlates_def by blast
      then obtain i where "i \<in> set pending" "sr_id sub = show_nat i" "url = urls ! i" by (auto simp: batch_requests_def)
      moreover from this less.prems(2) small have "i < length urls" "i < 2 ^ 64" by auto
      ultimately show "\<exists>i < length urls. i \<in> set pending \<and> parse_usize (sr_id sub) = Some i \<and> Good (urls ! i) sub"
        using \<open>Good url sub\<close> by (auto simp: parse_usize_show)
    qed
    let ?start = "\<lparr>br_results = results, br_retry = [], br_throttled = 0, br_retry_after = None\<rparr>"
    note ok = batch_round_ok [of Good decode json_text urls ?start, OF _ known, of q b]
    have ok1: "chunk_ok Good (map_batch_response decode json_text) urls (br_results q)" "set (br_retry q) \<subseteq> set pending"
      using ok less.prems(1) by (simp_all add: q_def batch_round_of_def)
    have ok3: "\<forall>k < length urls. results ! k \<noteq> None \<or> (\<exists>sub \<in> set subs. parse_usize (sr_id sub) = Some k)
         \<longrightarrow> br_results q ! k \<noteq> None \<or> k \<in> set (br_retry q)"
      using ok(3) less.prems(1) by (simp add: q_def batch_round_of_def)
    have all: "\<forall>k < length urls. br_results q ! k \<noteq> None \<or> k \<in> set (br_retry q)"
      if ans: "answers_all post" and met: "\<forall>k < length urls. results ! k \<noteq> None \<or> k \<in> set pending"
    proof (intro allI impI)
      fix k assume k: "k < length urls"
      have "results ! k \<noteq> None \<or> (\<exists>sub \<in> set subs. parse_usize (sr_id sub) = Some k)"
      proof (cases "results ! k = None")
        case True
        with met k have "k \<in> set pending" by blast
        then have "show_nat k \<in> sr_id ` set subs" using ans r subs unfolding answers_all_def batch_requests_def by force
        then obtain sub where "sub \<in> set subs" "sr_id sub = show_nat k" by auto
        moreover from k small have "parse_usize (show_nat k) = Some k" unfolding parse_usize_show by auto
        ultimately show ?thesis by metis
      qed simp
      with ok3 k show "br_results q ! k \<noteq> None \<or> k \<in> set (br_retry q)" by blast
    qed
    show ?thesis
    proof (cases "br_retry q = []")
      case True
      with less.prems(3) False r subs have "rs = br_results q" by (subst (asm) batch_loop.simps) (simp add: q_def Let_def)
      with ok1 all True show ?thesis by auto
    next
      case again: False
      then have may: "may_retry b" unfolding q_def by (rule batch_round_retry)
      let ?s2 = "if 0 < br_throttled q then notify (br_retry_after q) s1 else s1"
      have rest: "batch_loop post notify nanos decode json_text urls headers (advance b) (br_retry q) (br_results q) ?s2 = (Inr rs, s')"
        using less.prems(3) False r subs again
        by (subst (asm) batch_loop.simps) (simp add: q_def [symmetric] Let_def budget_wait_advance)
      have "3 - unat (rb_attempt (advance b)) < 3 - unat (rb_attempt b)"
        using may_retry_advance [OF may] unfolding advance_def by simp linarith
      from less.hyps [OF this ok1(1) _ rest] ok1(2) less.prems(2) all show ?thesis by blast
    qed
  qed
qed

lemma chunks_concat: "0 < n \<Longrightarrow> concat (slice_chunks n xs) = xs"
proof (induction n xs rule: slice_chunks.induct)
  case (1 n xs)
  then show ?case by (subst slice_chunks.simps) simp
qed

lemma chunks_bounded: "c \<in> set (slice_chunks n xs) \<Longrightarrow> length c \<le> n"
proof (induction n xs rule: slice_chunks.induct)
  case (1 n xs)
  then show ?case by (subst (asm) slice_chunks.simps) (auto split: if_splits)
qed

text \<open>A slot of the result: an answer to its URL, or the error that says the server left it out.\<close>

definition slot_ok ::
  "(string \<Rightarrow> 'j batch_sub_response \<Rightarrow> bool) \<Rightarrow> ('j batch_sub_response \<Rightarrow> http_error + 't) \<Rightarrow> bool \<Rightarrow> string \<Rightarrow> http_error + 't \<Rightarrow> bool" where
  "slot_ok Good reply complete url r \<longleftrightarrow>
     (\<exists>sub. Good url sub \<and> r = reply sub) \<or> \<not> complete \<and> r = Inl (HProtocol ''missing batch response'')"

lemma batch_chunk_slots:
  assumes "correlates Good post" "length urls \<le> 2 ^ 64"
    and "batch_chunk post notify nanos decode json_text headers urls s = (Inr rs, s')"
  shows "list_all2 (slot_ok Good (map_batch_response decode json_text) (answers_all post)) urls rs"
proof -
  obtain results where run: "batch_loop post notify nanos decode json_text urls headers budget_new [0..<length urls]
      (replicate (length urls) None) s = (Inr results, s')"
    and rs: "rs = map (\<lambda>r. case r of Some x \<Rightarrow> x | None \<Rightarrow> Inl (HProtocol ''missing batch response'')) results"
    using assms(3)
    by (cases "batch_loop post notify nanos decode json_text urls headers budget_new [0..<length urls] (replicate (length urls) None) s";
        cases "fst (batch_loop post notify nanos decode json_text urls headers budget_new [0..<length urls] (replicate (length urls) None) s)")
      (auto simp: batch_chunk_def)
  have "chunk_ok Good (map_batch_response decode json_text) urls (replicate (length urls) None)" by (simp add: chunk_ok_def)
  from batch_loop_ok [OF assms(1,2) this _ run]
  have ok: "chunk_ok Good (map_batch_response decode json_text) urls results"
      "answers_all post \<longrightarrow> (\<forall>k < length urls. results ! k \<noteq> None)" by (simp_all add: subset_eq)
  have "slot_ok Good (map_batch_response decode json_text) (answers_all post) (urls ! i) (rs ! i)" if "i < length urls" for i
    using ok that unfolding chunk_ok_def slot_ok_def rs by (cases "results ! i") auto
  with ok(1) show ?thesis by (simp add: list_all2_conv_all_nth chunk_ok_def rs)
qed

lemma run_chunks_slots:
  assumes chunk: "\<And>c s rs s'. c \<in> set cs \<Longrightarrow> chunk c s = (Inr rs, s') \<Longrightarrow> list_all2 R c rs"
    and "run_chunks chunk cs s = (results, s')" "extend_ok results = Inr xs"
  shows "list_all2 R (concat cs) xs"
  using assms
proof (induction cs arbitrary: s results xs)
  case (Cons c cs)
  obtain r s1 where r: "chunk c s = (r, s1)" by fastforce
  obtain rs s2 where rest: "run_chunks chunk cs s1 = (rs, s2)" by fastforce
  from Cons.prems(2,3) r rest obtain ys zs where "r = Inr ys" "extend_ok rs = Inr zs" "xs = ys @ zs"
    by (cases r; cases "extend_ok rs") auto
  moreover have "list_all2 R c ys" using Cons.prems(1) [of c s ys s1] r \<open>r = Inr ys\<close> by simp
  moreover have "list_all2 R (concat cs) zs"
    using Cons.IH [of s1 rs zs] Cons.prems(1,2) r rest \<open>extend_ok rs = Inr zs\<close> by auto
  ultimately show ?case by (simp add: list_all2_appendI)
qed simp

lemma run_groups_slots:
  assumes chunk: "\<And>c s rs s'. c \<in> set (concat gs) \<Longrightarrow> chunk c s = (Inr rs, s') \<Longrightarrow> list_all2 R c rs"
    and "run_groups chunk gs s = (Inr xs, s')"
  shows "list_all2 R (concat (concat gs)) xs"
  using assms
proof (induction gs arbitrary: s xs)
  case (Cons g gs)
  obtain results s1 where run: "run_chunks chunk g s = (results, s1)" by fastforce
  from Cons.prems(2) run obtain ys zs where y: "extend_ok results = Inr ys" "run_groups chunk gs s1 = (Inr zs, s')" "xs = ys @ zs"
    by (cases "extend_ok results"; cases "run_groups chunk gs s1"; cases "fst (run_groups chunk gs s1)") auto
  have "list_all2 R (concat g) ys" by (rule run_chunks_slots [OF _ run y(1)]) (use Cons.prems(1) in auto)
  moreover have "list_all2 R (concat (concat gs)) zs" by (rule Cons.IH [OF _ y(2)]) (use Cons.prems(1) in auto)
  ultimately show ?case using y(3) by (simp add: list_all2_appendI)
qed simp

lemma rejoin_slots:
  assumes "checked_sub_urls build inputs = (urls, refused)" and "list_all2 R urls rs"
  shows "list_all2 (\<lambda>input r. case build input of Inl e \<Rightarrow> r = Inl e | Inr url \<Rightarrow> R url r) inputs (rejoin_refused refused rs)"
  using assms
proof (induction inputs arbitrary: urls refused rs)
  case (Cons input inputs)
  then show ?case by (cases "build input") (auto simp: list_all2_Cons1 split: prod.splits)
qed auto

text \<open>C8: A batched read gives every input its own answer, in order, whatever was refused, throttled or sent again.  Given
  that Graph's sub-responses carry the id of their sub-request, the slot of an input the shape check refused holds that
  refusal, and every other slot holds what its own URL answered, or the error saying that the server left it out; the latter
  never happens when the server answers every sub-request.  No row is ever shifted onto another input.\<close>

theorem batch_rows_in_place:
  assumes corr: "correlates Good (post_batch G token encode decode_envelope)"
    and urls: "checked_sub_urls build inputs = (urls, refused)"
    and run: "batch_get_json_inner G token encode decode_envelope nanos decode json_text urls headers s = (Inr rs, s')"
  shows "list_all2 (\<lambda>input r. case build input of
            Inl e \<Rightarrow> r = Inl e
          | Inr url \<Rightarrow> slot_ok Good (map_batch_response decode json_text) (answers_all (post_batch G token encode decode_envelope)) url r)
       inputs (rejoin_refused refused rs)"
proof -
  let ?R = "slot_ok Good (map_batch_response decode json_text) (answers_all (post_batch G token encode decode_envelope))"
  let ?gs = "slice_chunks CHUNK_CONCURRENCY (slice_chunks BATCH_MAX urls)"
  have chunks: "concat ?gs = slice_chunks BATCH_MAX urls" by (simp add: chunks_concat CHUNK_CONCURRENCY_def)
  have "list_all2 ?R (concat (concat ?gs)) rs"
  proof (rule run_groups_slots [OF _ run [unfolded batch_get_json_inner_def]])
    fix c s rs s'
    assume "c \<in> set (concat ?gs)"
      and chunk: "batch_chunk (post_batch G token encode decode_envelope) (hn_on_throttle token) nanos decode json_text headers c s = (Inr rs, s')"
    then have "length c \<le> 20" using chunks_bounded [of c BATCH_MAX urls] unfolding chunks by (simp add: BATCH_MAX_def)
    then have "length c \<le> 2 ^ 64" by simp
    from batch_chunk_slots [OF corr this chunk] show "list_all2 ?R c rs" .
  qed
  then have "list_all2 ?R urls rs" unfolding chunks by (simp add: chunks_concat BATCH_MAX_def)
  from rejoin_slots [OF urls this] show ?thesis .
qed

text \<open>A server that answers the first sub-request of each envelope.\<close>

definition echo_net :: "nat http_net" where
  "echo_net = \<lparr>hn_bearer = (\<lambda>s. (Inr ''t'', s)), hn_bearer_with_claims = (\<lambda>c s. (Inr ''t'', s)), hn_header_value = (\<lambda>v. None),
     hn_send = (\<lambda>rq s. (Response (demo_response 200 None [case hr_body rq of Some b \<Rightarrow> b | None \<Rightarrow> []]), Suc s)),
     hn_on_throttle = (\<lambda>ra s. s)\<rparr>"

definition echo_graph :: "(nat, string) graph_client" where
  "echo_graph = \<lparr>gc_read = echo_net, gc_write = echo_net, gc_base_url = ''https://g'', gc_max_body = 100,
     gc_parse = (\<lambda>u. None), gc_nanos = (\<lambda>_ _. 0)\<rparr>"

definition echo_encode :: "batch_request list \<Rightarrow> string" where
  "echo_encode requests = (case requests of [] \<Rightarrow> ''!'' | r # _ \<Rightarrow> fst r)"

definition echo_decode :: "string \<Rightarrow> string + string batch_sub_response list" where
  "echo_decode b = (if b = ''!'' then Inl ''empty''
     else Inr [\<lparr>sr_id = b, sr_status = 200, sr_body = ''row'', sr_headers = []\<rparr>])"

lemma post_echo:
  "post_batch echo_graph echo_net echo_encode echo_decode requests s
   = (if length (echo_encode requests) \<le> 100 then map_sum HDeserialize id (echo_decode (echo_encode requests))
      else Inl (HProtocol (body_too_large_text 100)), Suc s)"
  by (simp add: post_batch_def send_core_url_with_def graph_pass.simps with_retries_def with_retries_loop.simps graph_attempt_def
      graph_classify_def echo_net_def echo_graph_def demo_response_def is_success_def read_success_body_def body_cap_new_def
      check_declared_def cap_push_def decode_json_def Let_def)

lemma echo_correlates: "correlates (\<lambda>url sub. sr_body sub = ''row'') (post_batch echo_graph echo_net echo_encode echo_decode)"
  by (auto simp: correlates_def post_echo echo_decode_def echo_encode_def split: if_splits list.splits)

definition demo_build :: "string \<Rightarrow> http_error + string" where
  "demo_build v = map_sum id (\<lambda>_. ''/x/'' @ v) (require_path_segment ''id'' v)"

lemma demo_inputs: "checked_sub_urls demo_build [''a/b'', ''c'']
    = ([''/x/c''], [Some (HProtocol ''refusing an id that is not a single path segment''), None])"
  by (simp add: demo_build_def require_path_segment_def PATH_SPECIALS_def is_control_def has_whitespace_def utf8_continuation_def
      whitespace_len_def is_space_def)

lemma show_nat_0: "show_nat 0 = ''0''"
  by code_simp

lemma demo_run: "batch_get_json_inner echo_graph echo_net echo_encode echo_decode (\<lambda>_. 0) Inr id [''/x/c''] [] 0 = (Inr [Inr ''row''], 1)"
  by (simp add: batch_get_json_inner_def slice_chunks.simps CHUNK_CONCURRENCY_def BATCH_MAX_def batch_chunk_def batch_loop.simps
      batch_requests_def post_echo echo_encode_def echo_decode_def batch_round_of_def batch_sub_def parse_usize_def is_digit_def
      digit_value_def retried_sub_status_def map_batch_response_def is_success_def show_nat_0)

theorem batch_rows_in_place_witness:
  "length (rejoin_refused (snd (checked_sub_urls demo_build [''a/b'', ''c''])) [Inr ''row'' :: http_error + string]) = 2"
  using batch_rows_in_place [OF echo_correlates demo_inputs demo_run, THEN list_all2_lengthD] unfolding demo_inputs by simp

end
