(* ===== verification/Graph_Scan.thy ===== *)
theory Graph_Scan
  imports Graph_Transport
begin

text \<open>
  Tenant-wide directory scans (\<^verbatim>\<open>src/crates/azapptoolkit-graph/src/client/partition.rs\<close>): a collection is read either
  serially, by following its pages, or as sixteen slices by the first digit of the \<open>appId\<close>, merged and checked before
  the result is trusted.  What a collection has shown is kept in a memo per collection.

  The rows are any record that extends \<open>directory_row\<close> (the trait's two accessors).  The requests that the code sends
  concurrently (page one beside the count, the sixteen slices) are sent here one after the other in the order the code lists
  them; a slice that fails ends the wave.  Logging is left out, the strategy name is kept.

  Shown: what a merge that is accepted guarantees (no row of any slice lost, no duplicate, no row under a wrong prefix, none
  of page one missing, not fewer than the count), that an untruncated scan never loses a row of page one whatever path it
  took, and the memo's invariant: bounded strikes, and a pin that no scan undoes.
\<close>

section \<open>Data\<close>

datatype slice_mode = Plain | Advanced | Serial

record slice_memo =
  sm_mode :: "slice_mode option"
  lag_refusals :: "8 word"
  transient_refusals :: "8 word"

definition slice_memo_default :: slice_memo where
  "slice_memo_default = \<lparr>sm_mode = None, lag_refusals = 0, transient_refusals = 0\<rparr>"

type_synonym slice_memos = "string \<rightharpoonup> slice_memo"

definition SLICE_PREFIXES :: "char list" where
  "SLICE_PREFIXES = ''0123456789abcdef''"

definition MIN_PAGES_TO_PARTITION :: "64 word" where
  "MIN_PAGES_TO_PARTITION = 4"

definition MAX_LAG_REFUSALS :: "8 word" where
  "MAX_LAG_REFUSALS = 2"

definition MAX_TRANSIENT_REFUSALS :: "8 word" where
  "MAX_TRANSIENT_REFUSALS = 3"

datatype refusal = SlicePageLimit | PrefixMismatch | UnslicedRow | ProbeRowMissing | CountShortfall | SliceFailed
  | SliceTransient | ModeRejected

definition is_structural :: "refusal \<Rightarrow> bool" where
  "is_structural r \<longleftrightarrow> r \<in> {SlicePageLimit, PrefixMismatch, UnslicedRow}"

definition is_transient :: "refusal \<Rightarrow> bool" where
  "is_transient r \<longleftrightarrow> r = SliceTransient"

record refused =
  rf_reason :: refusal
  rf_union :: "string set"

definition refused_from :: "refusal \<Rightarrow> refused" where
  "refused_from r = \<lparr>rf_reason = r, rf_union = {}\<rparr>"

datatype slice_error = SliceRejected | SliceMismatch | SliceGraph http_error

record directory_row =
  row_object_id :: string
  row_app_id :: string

record 't slice =
  sl_prefix :: char
  sl_rows :: "'t list"
  sl_truncated :: bool

definition slice_of :: "'a directory_row_scheme \<Rightarrow> string option" where
  "slice_of row = (case utf8_chars (row_app_id row) of [] \<Rightarrow> None | c # _ \<Rightarrow> Some (map ascii_lower c))"

section \<open>Merging\<close>

fun merge_rows ::
  "char \<Rightarrow> 'a directory_row_scheme list \<Rightarrow> string set \<Rightarrow> 'a directory_row_scheme list
     \<Rightarrow> refused + string set \<times> 'a directory_row_scheme list" where
  "merge_rows p [] seen rows = Inr (seen, rows)"
| "merge_rows p (row # rest) seen rows =
     (if slice_of row \<noteq> Some [p] then Inl (refused_from PrefixMismatch)
      else if row_object_id row \<in> seen then merge_rows p rest seen rows
      else merge_rows p rest (insert (row_object_id row) seen) (rows @ [row]))"

fun merge_loop ::
  "nat \<Rightarrow> 'a directory_row_scheme slice list \<Rightarrow> string set \<Rightarrow> 'a directory_row_scheme list \<Rightarrow> bool
     \<Rightarrow> refused + string set \<times> 'a directory_row_scheme list \<times> bool" where
  "merge_loop cap [] seen rows any_truncated = Inr (seen, rows, any_truncated)"
| "merge_loop cap (sl # slices) seen rows any_truncated =
     (if sl_truncated sl \<and> length (sl_rows sl) < cap then Inl (refused_from SlicePageLimit)
      else (case merge_rows (sl_prefix sl) (sl_rows sl) seen rows of
              Inl e \<Rightarrow> Inl e
            | Inr (seen', rows') \<Rightarrow> merge_loop cap slices seen' rows' (any_truncated \<or> sl_truncated sl)))"

text \<open>\<open>u64::try_from(n).unwrap_or(u64::MAX)\<close>.\<close>

definition u64_of_usize :: "nat \<Rightarrow> 64 word" where
  "u64_of_usize n = (if n < 2 ^ 64 then of_nat n else - 1)"

definition merge_slices ::
  "'a directory_row_scheme list \<Rightarrow> 'a directory_row_scheme slice list \<Rightarrow> 64 word \<Rightarrow> nat
     \<Rightarrow> refused + 'a directory_row_scheme list \<times> bool" where
  "merge_slices probe slices n_count cap =
     (case merge_loop cap slices {} [] False of
        Inl e \<Rightarrow> Inl e
      | Inr (seen, rows, any_truncated) \<Rightarrow>
          if list_ex (\<lambda>r. row_app_id r = []) probe then Inl (refused_from UnslicedRow)
          else if list_ex (\<lambda>r. row_object_id r \<notin> seen) probe then Inl \<lparr>rf_reason = ProbeRowMissing, rf_union = seen\<rparr>
          else if \<not> any_truncated \<and> u64_of_usize (length rows) < n_count then Inl \<lparr>rf_reason = CountShortfall, rf_union = seen\<rparr>
          else Inr (take cap rows, any_truncated \<or> cap < length rows))"

section \<open>The memo\<close>

definition slice_memo_of :: "slice_memos \<Rightarrow> string \<Rightarrow> slice_memo" where
  "slice_memo_of memos path = (case memos path of Some m \<Rightarrow> m | None \<Rightarrow> slice_memo_default)"

definition update_slice_memo :: "slice_memos \<Rightarrow> string \<Rightarrow> (slice_memo \<Rightarrow> slice_memo) \<Rightarrow> slice_memos" where
  "update_slice_memo memos path f = memos(path \<mapsto> f (slice_memo_of memos path))"

definition pin_serial :: "slice_memo \<Rightarrow> slice_memo" where
  "pin_serial m = m\<lparr>sm_mode := Some Serial\<rparr>"

definition memo_validated :: "slice_mode \<Rightarrow> slice_memo \<Rightarrow> slice_memo" where
  "memo_validated mode m = m\<lparr>sm_mode := Some mode, lag_refusals := 0, transient_refusals := 0\<rparr>"

definition memo_after_refusal :: "bool \<Rightarrow> refusal \<Rightarrow> bool \<Rightarrow> slice_memo \<Rightarrow> slice_memo" where
  "memo_after_refusal structural reason slices_were_complete m =
     (if structural then pin_serial m
      else if is_transient reason
      then (let m' = m\<lparr>transient_refusals := saturating_add (transient_refusals m) 1\<rparr>
            in if MAX_TRANSIENT_REFUSALS \<le> transient_refusals m' then pin_serial m' else m')
      else if \<not> slices_were_complete
      then (let m' = m\<lparr>lag_refusals := saturating_add (lag_refusals m) 1\<rparr>
            in if MAX_LAG_REFUSALS \<le> lag_refusals m' then pin_serial m' else m')
      else m)"

section \<open>The count\<close>

text \<open>\<open>std::str::from_utf8\<close> with its error text, \<open>trim_start_matches\<close> of the byte-order mark, and \<open>parse::<u64>\<close> with its
  error text.\<close>

function utf8_error :: "nat \<Rightarrow> string \<Rightarrow> string option" where
  "utf8_error i s =
     (if s = [] then None
      else let (out, n) = utf8_step s
        in if out = take n s then utf8_error (i + n) (drop n s)
           else Some (if utf8_width (of_char (hd s)) \<noteq> 0 \<and> length s = n
                      then ''incomplete utf-8 byte sequence from index '' @ show_nat i
                      else ''invalid utf-8 sequence of '' @ show_nat n @ '' bytes from index '' @ show_nat i))"
  by pat_completeness auto

termination
proof (relation "measure (length \<circ> snd)")
  fix i s and x out n
  assume "s \<noteq> []" "x = utf8_step s" "(out, n) = x"
  then have "s \<noteq> []" "0 < n" using utf8_step_pos [of s] by (metis snd_conv)+
  then show "((i + n, drop n s), i, s) \<in> measure (length \<circ> snd)" by (cases s) auto
qed simp

declare utf8_error.simps [simp del]

definition BOM :: string where
  "BOM = [CHR 0xEF, CHR 0xBB, CHR 0xBF]"

function strip_bom :: "string \<Rightarrow> string" where
  "strip_bom s = (if starts_with s BOM then strip_bom (drop 3 s) else s)"
  by pat_completeness auto

termination
  by (relation "measure length") (auto simp: starts_with_def BOM_def intro!: diff_less)

declare strip_bom.simps [simp del]

definition parse_u64_error :: "string \<Rightarrow> string" where
  "parse_u64_error s =
     (let digits = (if s \<noteq> [] \<and> hd s = CHR ''+'' then tl s else s)
      in if s = [] then ''cannot parse integer from empty string''
         else if parse_digits (2 ^ 64) 0 (takeWhile is_digit digits) = None then ''number too large to fit in target type''
         else ''invalid digit found in string'')"

definition count_collection :: "('s, 'o) graph_client \<Rightarrow> string \<Rightarrow> 's \<Rightarrow> (http_error + 64 word) \<times> 's" where
  "count_collection G path s =
     (case send_core G GET (path @ ''/$count'') [] True None s of
        (Inl e, s1) \<Rightarrow> (Inl e, s1)
      | (Inr bytes, s1) \<Rightarrow>
          (case utf8_error 0 bytes of
             Some err \<Rightarrow> (Inl (HDeserialize err), s1)
           | None \<Rightarrow>
               (let text = trim (strip_bom bytes)
                in case parse_usize text of
                     Some n \<Rightarrow> (Inr (of_nat n), s1)
                   | None \<Rightarrow> (Inl (HDeserialize (''$count: '' @ parse_u64_error text)), s1))))"

section \<open>The reads\<close>

definition slice_query :: "(string \<times> string) list \<Rightarrow> slice_mode \<Rightarrow> char \<Rightarrow> (string \<times> string) list" where
  "slice_query params mode p =
     params @ [(''$filter'', ''startswith(appId,'' @ [CHR 0x27, p, CHR 0x27] @ '')'')]
       @ (if mode = Advanced then [(''$count'', ''true'')] else [])"

definition read_slice ::
  "('s, 'o) graph_client \<Rightarrow> (string \<Rightarrow> string + 'a directory_row_scheme paged) \<Rightarrow> string \<Rightarrow> (string \<times> string) list \<Rightarrow> nat
     \<Rightarrow> slice_mode \<Rightarrow> char \<Rightarrow> 's \<Rightarrow> (slice_error + 'a directory_row_scheme slice) \<times> 's" where
  "read_slice G decode path params cap mode p s =
     (let advanced = (mode = Advanced)
      in case get_json G decode path (slice_query params mode p) advanced s of
           (Inl (HApi st b), s1) \<Rightarrow> (Inl (if st = 400 then SliceRejected else SliceGraph (HApi st b)), s1)
         | (Inl e, s1) \<Rightarrow> (Inl (SliceGraph e), s1)
         | (Inr page, s1) \<Rightarrow>
             if list_ex (\<lambda>r. slice_of r \<noteq> Some [p]) (pg_items page) then (Inl SliceMismatch, s1)
             else (case collect_all_pages_capped G decode page cap advanced s1 of
                     (Inl e, s2) \<Rightarrow> (Inl (SliceGraph e), s2)
                   | (Inr (rows, truncated), s2) \<Rightarrow> (Inr \<lparr>sl_prefix = p, sl_rows = rows, sl_truncated = truncated\<rparr>, s2)))"

fun try_join_slices :: "('p \<Rightarrow> 's \<Rightarrow> ('e + 'a) \<times> 's) \<Rightarrow> 'p list \<Rightarrow> 's \<Rightarrow> ('e + 'a list) \<times> 's" where
  "try_join_slices f [] s = (Inr [], s)"
| "try_join_slices f (p # ps) s =
     (case f p s of
        (Inl e, s1) \<Rightarrow> (Inl e, s1)
      | (Inr x, s1) \<Rightarrow> apfst (map_sum id ((#) x)) (try_join_slices f ps s1))"

definition read_slices ::
  "('s, 'o) graph_client \<Rightarrow> (string \<Rightarrow> string + 'a directory_row_scheme paged) \<Rightarrow> string \<Rightarrow> (string \<times> string) list \<Rightarrow> nat
     \<Rightarrow> slice_mode \<Rightarrow> 's \<Rightarrow> (slice_error + 'a directory_row_scheme slice list) \<times> 's" where
  "read_slices G decode path params cap mode s = try_join_slices (read_slice G decode path params cap mode) SLICE_PREFIXES s"

definition serial_rest ::
  "('s, 'o) graph_client \<Rightarrow> (string \<Rightarrow> string + 't paged) \<Rightarrow> 't paged \<Rightarrow> nat \<Rightarrow> string \<Rightarrow> 's
     \<Rightarrow> (http_error + 't list \<times> bool \<times> string) \<times> 's" where
  "serial_rest G decode probe cap strategy s =
     apfst (map_sum id (\<lambda>(rows, truncated). (rows, truncated, strategy))) (collect_all_pages_capped G decode probe cap False s)"

definition refuse ::
  "('s, 'o) graph_client \<Rightarrow> (string \<Rightarrow> string + 'a directory_row_scheme paged) \<Rightarrow> string \<Rightarrow> 'a directory_row_scheme paged \<Rightarrow> nat
     \<Rightarrow> refused \<Rightarrow> slice_memos \<Rightarrow> 's \<Rightarrow> (http_error + 'a directory_row_scheme list \<times> bool \<times> string) \<times> slice_memos \<times> 's" where
  "refuse G decode path probe cap refused memos s =
     (let reason = rf_reason refused; union = rf_union refused;
          memos1 = (if is_structural reason then update_slice_memo memos path pin_serial else memos)
      in case serial_rest G decode probe cap ''serial_fallback'' s of
           (Inl e, s1) \<Rightarrow> (Inl e, memos1, s1)
         | (Inr (rows, truncated, strategy), s1) \<Rightarrow>
             (let structural = is_structural reason \<or> list_ex (\<lambda>r. row_app_id r = []) rows;
                  slices_were_complete = (\<not> structural \<and> \<not> truncated \<and> union \<noteq> {} \<and> list_all (\<lambda>r. row_object_id r \<in> union) rows)
              in (Inr (rows, truncated, strategy),
                  update_slice_memo memos1 path (memo_after_refusal structural reason slices_were_complete), s1)))"

definition slice_modes :: "slice_mode option \<Rightarrow> slice_mode list" where
  "slice_modes known =
     (if known = Some Plain then [Plain] else if known = Some Advanced then [Advanced] else [Plain, Advanced])"

definition slice_failure_reason :: "http_error \<Rightarrow> refusal" where
  "slice_failure_reason e = (case e of HThrottled _ \<Rightarrow> SliceTransient | _ \<Rightarrow> SliceFailed)"

fun try_modes ::
  "('s, 'o) graph_client \<Rightarrow> (string \<Rightarrow> string + 'a directory_row_scheme paged) \<Rightarrow> string \<Rightarrow> (string \<times> string) list
     \<Rightarrow> 'a directory_row_scheme paged \<Rightarrow> 64 word \<Rightarrow> slice_mode option \<Rightarrow> nat \<Rightarrow> slice_mode list \<Rightarrow> slice_memos \<Rightarrow> 's
     \<Rightarrow> (http_error + 'a directory_row_scheme list \<times> bool \<times> string) \<times> slice_memos \<times> 's" where
  "try_modes G decode path params probe n_count known cap [] memos s =
     (if known \<noteq> None then refuse G decode path probe cap (refused_from ModeRejected) memos s
      else (let (r, s1) = serial_rest G decode probe cap ''serial_fallback'' s
            in (r, update_slice_memo memos path pin_serial, s1)))"
| "try_modes G decode path params probe n_count known cap (mode # modes) memos s =
     (case read_slices G decode path params cap mode s of
        (Inl SliceRejected, s1) \<Rightarrow> try_modes G decode path params probe n_count known cap modes memos s1
      | (Inl SliceMismatch, s1) \<Rightarrow> refuse G decode path probe cap (refused_from PrefixMismatch) memos s1
      | (Inl (SliceGraph e), s1) \<Rightarrow>
          if http_is_retryable graph_flavour e \<or> (case e of HApi st _ \<Rightarrow> st = 400 | _ \<Rightarrow> False)
          then refuse G decode path probe cap (refused_from (slice_failure_reason e)) memos s1
          else (Inl e, memos, s1)
      | (Inr slices, s1) \<Rightarrow>
          (case merge_slices (pg_items probe) slices n_count cap of
             Inr (rows, truncated) \<Rightarrow>
               (Inr (rows, truncated, if mode = Advanced then ''partitioned_advanced'' else ''partitioned''),
                update_slice_memo memos path (memo_validated mode), s1)
           | Inl refused \<Rightarrow> refuse G decode path probe cap refused memos s1))"

definition div_ceil :: "64 word \<Rightarrow> 64 word \<Rightarrow> 64 word" where
  "div_ceil a b = (if a mod b > 0 then a div b + 1 else a div b)"

definition finish_scan ::
  "('s, 'o) graph_client \<Rightarrow> (string \<Rightarrow> string + 'a directory_row_scheme paged) \<Rightarrow> string \<Rightarrow> (string \<times> string) list
     \<Rightarrow> 'a directory_row_scheme paged \<Rightarrow> (http_error + 64 word) option \<Rightarrow> slice_mode option \<Rightarrow> nat \<Rightarrow> slice_memos \<Rightarrow> 's
     \<Rightarrow> (http_error + 'a directory_row_scheme list \<times> bool \<times> string) \<times> slice_memos \<times> 's" where
  "finish_scan G decode path params probe counted known cap memos s =
     (let serial = (\<lambda>strategy. case serial_rest G decode probe cap strategy s of (r, s1) \<Rightarrow> (r, memos, s1))
      in if pg_next_link probe = None then serial ''single_page''
         else case counted of
           None \<Rightarrow> serial ''serial''
         | Some (Inl e) \<Rightarrow> serial ''serial_no_count''
         | Some (Inr n_count) \<Rightarrow>
             let page_size = u64_of_usize (max (length (pg_items probe)) 1)
             in if div_ceil n_count page_size < MIN_PAGES_TO_PARTITION then serial ''serial_small''
                else if saturating_mul (u64_of_usize cap) 2 < n_count then serial ''serial_over_cap''
                else if list_ex (\<lambda>r. row_app_id r = []) (pg_items probe)
                then refuse G decode path probe cap (refused_from UnslicedRow) memos s
                else try_modes G decode path params probe n_count known cap (slice_modes known) memos s)"

definition scan_directory_capped ::
  "('s, 'o) graph_client \<Rightarrow> (string \<Rightarrow> string + 'a directory_row_scheme paged) \<Rightarrow> string \<Rightarrow> (string \<times> string) list \<Rightarrow> nat
     \<Rightarrow> slice_memos \<Rightarrow> 's \<Rightarrow> (http_error + 'a directory_row_scheme list \<times> bool) \<times> slice_memos \<times> 's" where
  "scan_directory_capped G decode path params cap memos s =
     (let known = sm_mode (slice_memo_of memos path);
          (probe, s1) = get_json G decode path params False s;
          (counted, s2) = (if known = Some Serial then (None, s1) else apfst Some (count_collection G path s1))
      in case probe of
           Inl e \<Rightarrow> (Inl e, memos, s2)
         | Inr page \<Rightarrow>
             (case finish_scan G decode path params page counted known cap memos s2 of
                (Inl e, memos1, s3) \<Rightarrow> (Inl e, memos1, s3)
              | (Inr (rows, truncated, strategy), memos1, s3) \<Rightarrow>
                  (Inr (rows, truncated),
                   if list_ex (\<lambda>r. row_app_id r = []) rows then update_slice_memo memos1 path pin_serial else memos1, s3)))"

section \<open>What a merge guarantees\<close>

lemma merge_rows_exact:
  "merge_rows p rest (set l) rows =
     (if list_all (\<lambda>r. slice_of r = Some [p]) rest
      then Inr (set (map row_object_id rest @ l), rows @ keep_first_aux row_object_id l rest)
      else Inl (refused_from PrefixMismatch))"
proof (induction rest arbitrary: l rows)
  case (Cons r rest)
  have ins: "insert (row_object_id r) (set l) = set (row_object_id r # l)" by simp
  show ?case by (simp add: Cons.IH [of l] Cons.IH [of "row_object_id r # l", simplified] insert_absorb)
qed simp

definition slice_sound :: "nat \<Rightarrow> 'a directory_row_scheme slice \<Rightarrow> bool" where
  "slice_sound cap sl \<longleftrightarrow> (sl_truncated sl \<longrightarrow> cap \<le> length (sl_rows sl)) \<and> list_all (\<lambda>r. slice_of r = Some [sl_prefix sl]) (sl_rows sl)"

definition all_rows :: "'t slice list \<Rightarrow> 't list" where
  "all_rows slices = concat (map sl_rows slices)"

lemma merge_loop_exact:
  "merge_loop cap slices (set l) rows t = Inr (seen, rows', t') \<longleftrightarrow>
     list_all (slice_sound cap) slices \<and> seen = set (map row_object_id (all_rows slices) @ l)
     \<and> rows' = rows @ keep_first_aux row_object_id l (all_rows slices) \<and> t' = (t \<or> list_ex sl_truncated slices)"
proof (induction slices arbitrary: l rows t)
  case Nil
  then show ?case by (auto simp: all_rows_def)
next
  case (Cons sl slices)
  let ?l = "map row_object_id (sl_rows sl) @ l"
  show ?case
  proof (cases "slice_sound cap sl")
    case True
    then have "merge_loop cap (sl # slices) (set l) rows t
        = merge_loop cap slices (set ?l) (rows @ keep_first_aux row_object_id l (sl_rows sl)) (t \<or> sl_truncated sl)"
      unfolding slice_sound_def merge_loop.simps merge_rows_exact by auto
    moreover have "set (map row_object_id (all_rows slices) @ ?l) = set (map row_object_id (all_rows (sl # slices)) @ l)"
      by (auto simp: all_rows_def)
    ultimately show ?thesis using True Cons.IH [of ?l]
      by (auto simp: all_rows_def keep_first_aux_app)
  next
    case False
    then show ?thesis unfolding slice_sound_def merge_loop.simps merge_rows_exact by auto
  qed
qed

lemma merge_slices_iff:
  "merge_slices probe slices n cap = Inr (rows, truncated) \<longleftrightarrow>
     (let merged = keep_first row_object_id (all_rows slices); cut = list_ex sl_truncated slices
      in list_all (slice_sound cap) slices
       \<and> list_all (\<lambda>r. row_app_id r \<noteq> [] \<and> row_object_id r \<in> row_object_id ` set merged) probe
       \<and> (\<not> cut \<longrightarrow> n \<le> u64_of_usize (length merged))
       \<and> rows = take cap merged \<and> truncated = (cut \<or> cap < length merged))"
proof (cases "merge_loop cap slices {} [] False")
  case (Inl e)
  then have "\<not> list_all (slice_sound cap) slices" using merge_loop_exact [of cap slices "[]" "[]" False] by auto
  with Inl show ?thesis by (simp add: merge_slices_def Let_def)
next
  case (Inr x)
  obtain seen rs t where x: "x = (seen, rs, t)" by (cases x)
  with Inr merge_loop_exact [of cap slices "[]" "[]" False seen rs t]
  have "list_all (slice_sound cap) slices" "seen = row_object_id ` set (all_rows slices)"
    "rs = keep_first row_object_id (all_rows slices)" "t = list_ex sl_truncated slices" by (auto simp: keep_first_def)
  with Inr x show ?thesis by (auto simp: merge_slices_def Let_def list_ex_iff list_all_iff not_less)
qed

section \<open>Where the rows of a scan come from\<close>

definition serial_read ::
  "('s, 'o) graph_client \<Rightarrow> (string \<Rightarrow> string + 't paged) \<Rightarrow> 't paged \<Rightarrow> nat \<Rightarrow> 't list \<Rightarrow> bool \<Rightarrow> bool" where
  "serial_read G decode page cap rows truncated \<longleftrightarrow>
     (\<exists>s0 s1. collect_all_pages_capped G decode page cap False s0 = (Inr (rows, truncated), s1))"

definition sliced_read ::
  "('s, 'o) graph_client \<Rightarrow> (string \<Rightarrow> string + 'a directory_row_scheme paged) \<Rightarrow> string \<Rightarrow> (string \<times> string) list
     \<Rightarrow> 'a directory_row_scheme paged \<Rightarrow> nat \<Rightarrow> 'a directory_row_scheme list \<Rightarrow> bool \<Rightarrow> bool" where
  "sliced_read G decode path params page cap rows truncated \<longleftrightarrow>
     (\<exists>mode s0 s1 slices n. read_slices G decode path params cap mode s0 = (Inr slices, s1)
        \<and> merge_slices (pg_items page) slices n cap = Inr (rows, truncated))"

lemma serial_rest_read: "serial_rest G decode probe cap st s = (Inr (rows, truncated, st'), s') \<Longrightarrow> serial_read G decode probe cap rows truncated"
  by (cases "collect_all_pages_capped G decode probe cap False s")
    (auto simp: serial_rest_def serial_read_def map_sum_def split: sum.splits prod.splits; blast)

lemma refuse_read:
  "refuse G decode path probe cap rf memos s = (Inr (rows, truncated, st), memos', s') \<Longrightarrow> serial_read G decode probe cap rows truncated"
  by (cases "serial_rest G decode probe cap ''serial_fallback'' s")
    (auto simp: refuse_def Let_def split: sum.splits dest: serial_rest_read)

lemma try_modes_read:
  "try_modes G decode path params probe n known cap modes memos s = (Inr (rows, truncated, st), memos', s') \<Longrightarrow>
     serial_read G decode probe cap rows truncated \<or> sliced_read G decode path params probe cap rows truncated"
proof (induction modes arbitrary: s)
  case Nil
  then show ?case by (auto split: if_splits prod.splits dest: refuse_read serial_rest_read)
next
  case (Cons mode modes)
  obtain r s1 where r: "read_slices G decode path params cap mode s = (r, s1)" by fastforce
  show ?case
  proof (cases r)
    case (Inl e)
    with Cons r show ?thesis by (cases e) (auto split: if_splits dest: refuse_read)
  next
    case (Inr slices)
    with Cons.prems r show ?thesis
      by (auto simp: sliced_read_def split: sum.splits prod.splits dest: refuse_read)
  qed
qed

lemma finish_scan_read:
  "finish_scan G decode path params probe counted known cap memos s = (Inr (rows, truncated, st), memos', s') \<Longrightarrow>
     serial_read G decode probe cap rows truncated \<or> sliced_read G decode path params probe cap rows truncated"
  unfolding finish_scan_def Let_def
  by (auto split: if_splits option.splits sum.splits prod.splits dest: refuse_read serial_rest_read try_modes_read)

text \<open>The answers of the server to one slice: its page one for the prefix's own filter, and the pages followed from there.\<close>

definition slice_answered ::
  "('s, 'o) graph_client \<Rightarrow> (string \<Rightarrow> string + 'a directory_row_scheme paged) \<Rightarrow> string \<Rightarrow> (string \<times> string) list \<Rightarrow> nat
     \<Rightarrow> slice_mode \<Rightarrow> char \<Rightarrow> 's \<Rightarrow> 'a directory_row_scheme slice \<Rightarrow> 's \<Rightarrow> bool" where
  "slice_answered G decode path params cap mode p s sl s' \<longleftrightarrow>
     (\<exists>page s1 ps final. get_json G decode path (slice_query params mode p) (mode = Advanced) s = (Inr page, s1)
        \<and> followed (get_json_absolute_with G decode (mode = Advanced)) page s1 ps final s'
        \<and> sl_prefix sl = p \<and> sl_rows sl = take cap (all_items (pg_items page) ps)
        \<and> (sl_truncated sl \<longleftrightarrow> cap < length (all_items (pg_items page) ps) \<or> pg_next_link final \<noteq> None))"

fun slices_answered ::
  "('s, 'o) graph_client \<Rightarrow> (string \<Rightarrow> string + 'a directory_row_scheme paged) \<Rightarrow> string \<Rightarrow> (string \<times> string) list \<Rightarrow> nat
     \<Rightarrow> slice_mode \<Rightarrow> char list \<Rightarrow> 's \<Rightarrow> 'a directory_row_scheme slice list \<Rightarrow> 's \<Rightarrow> bool" where
  "slices_answered G decode path params cap mode [] s slices s' \<longleftrightarrow> slices = [] \<and> s' = s"
| "slices_answered G decode path params cap mode (p # ps) s slices s' \<longleftrightarrow>
     (\<exists>sl rest s1. slices = sl # rest \<and> slice_answered G decode path params cap mode p s sl s1
        \<and> slices_answered G decode path params cap mode ps s1 rest s')"

lemma read_slice_answered:
  assumes "read_slice G decode path params cap mode p s = (Inr sl, s')"
  shows "slice_answered G decode path params cap mode p s sl s'"
proof -
  obtain page s1 where page: "get_json G decode path (slice_query params mode p) (mode = Advanced) s = (Inr page, s1)"
    using assms by (auto simp: read_slice_def Let_def split: prod.splits sum.splits http_error.splits if_splits)
  obtain rows truncated where rows: "collect_all_pages_capped G decode page cap (mode = Advanced) s1 = (Inr (rows, truncated), s')"
    "sl = \<lparr>sl_prefix = p, sl_rows = rows, sl_truncated = truncated\<rparr>"
    using assms page by (auto simp: read_slice_def Let_def split: prod.splits sum.splits if_splits)
  from pages_loop_exact [OF rows(1) [unfolded collect_all_pages_capped_def]] page rows(2) show ?thesis
    by (auto simp: slice_answered_def)
qed

lemma try_join_answered:
  "try_join_slices (read_slice G decode path params cap mode) ps s = (Inr slices, s') \<Longrightarrow> slices_answered G decode path params cap mode ps s slices s'"
proof (induction ps arbitrary: s slices)
  case (Cons p ps)
  obtain r s1 where r: "read_slice G decode path params cap mode p s = (r, s1)" by fastforce
  with Cons.prems obtain sl rest where "r = Inr sl" "try_join_slices (read_slice G decode path params cap mode) ps s1 = (Inr rest, s')" "slices = sl # rest"
    by (cases r; cases "try_join_slices (read_slice G decode path params cap mode) ps s1") (auto simp: map_sum_def split: sum.splits)
  with r Cons.IH read_slice_answered [of G decode path params cap mode p s sl s1] show ?case by auto
qed simp

lemma read_slices_answered:
  "read_slices G decode path params cap mode s = (Inr slices, s') \<Longrightarrow> slices_answered G decode path params cap mode SLICE_PREFIXES s slices s'"
  unfolding read_slices_def by (rule try_join_answered)

lemma all_items_first: "set out \<subseteq> set (all_items out ps)"
  by (auto simp: all_items_def)

text \<open>C6: A scan never silently loses a row.  Whatever it took (the serial chain, a sliced read that validated, a fallback after
  a refusal), a scan that returns gives at most the cap, and unless it says it was truncated every object of the unfiltered
  page one is in the result.  The rows are either the whole chain of pages followed from page one, cut to the cap, or come
  from a read of all sixteen slices, one after the other: each slice is what the server answered to the query for its prefix
  and to the links followed from there, cut to the cap, and the rows are exactly the slices' rows in order, each object
  once, cut to the cap; the scan says it was truncated exactly when the cap cut a slice or the union.\<close>

theorem scan_never_loses_page_one:
  assumes "scan_directory_capped G decode path params cap memos s = (Inr (rows, truncated), memos', s')"
  shows "\<exists>page s1. get_json G decode path params False s = (Inr page, s1) \<and> length rows \<le> cap
     \<and> (\<not> truncated \<longrightarrow> row_object_id ` set (pg_items page) \<subseteq> row_object_id ` set rows)
     \<and> ((\<exists>s0 s2 ps final. followed (get_json_absolute_with G decode False) page s0 ps final s2
           \<and> rows = take cap (all_items (pg_items page) ps)
           \<and> (truncated \<longleftrightarrow> cap < length (all_items (pg_items page) ps) \<or> pg_next_link final \<noteq> None))
        \<or> (\<exists>mode s0 slices s2. slices_answered G decode path params cap mode SLICE_PREFIXES s0 slices s2
           \<and> list_all (slice_sound cap) slices \<and> distinct (map row_object_id rows)
           \<and> rows = take cap (keep_first row_object_id (concat (map sl_rows slices)))
           \<and> (truncated \<longleftrightarrow> list_ex sl_truncated slices \<or> cap < length (keep_first row_object_id (concat (map sl_rows slices))))
           \<and> (\<not> truncated \<longrightarrow> row_object_id ` set rows = (\<Union>sl \<in> set slices. row_object_id ` set (sl_rows sl)))))"
proof -
  obtain page s1 where page: "get_json G decode path params False s = (Inr page, s1)"
    using assms by (cases "get_json G decode path params False s") (auto simp: scan_directory_capped_def Let_def split: prod.splits sum.splits)
  obtain counted known s2 st m2 s3 where "finish_scan G decode path params page counted known cap memos s2 = (Inr (rows, truncated, st), m2, s3)"
    using assms page by (auto simp: scan_directory_capped_def Let_def split: prod.splits sum.splits)
  from finish_scan_read [OF this] show ?thesis
  proof
    assume "serial_read G decode page cap rows truncated"
    then obtain s0 s2 where "pages_loop (\<lambda>_. True) TruncateAtLimit (Some cap) (get_json_absolute_with G decode False) 1 (pg_items page) page s0
        = (Inr (rows, truncated), s2)" by (auto simp: serial_read_def collect_all_pages_capped_def)
    from pages_loop_exact [OF this] obtain ps final where f: "followed (get_json_absolute_with G decode False) page s0 ps final s2"
      "rows = take cap (all_items (pg_items page) ps)"
      "truncated \<longleftrightarrow> cap < length (all_items (pg_items page) ps) \<or> pg_next_link final \<noteq> None" by auto
    then have "\<not> truncated \<Longrightarrow> set (pg_items page) \<subseteq> set rows" "length rows \<le> cap"
      using all_items_first [of "pg_items page" ps] by simp_all
    with page f show ?thesis by (blast intro: image_mono)
  next
    assume "sliced_read G decode path params page cap rows truncated"
    then obtain mode s0 s2 slices n where sl: "read_slices G decode path params cap mode s0 = (Inr slices, s2)"
      and m: "merge_slices (pg_items page) slices n cap = Inr (rows, truncated)" by (auto simp: sliced_read_def)
    let ?m = "keep_first row_object_id (concat (map sl_rows slices))"
    from m [unfolded merge_slices_iff Let_def all_rows_def] have acc: "list_all (slice_sound cap) slices" "rows = take cap ?m"
      "row_object_id ` set (pg_items page) \<subseteq> row_object_id ` set ?m" "truncated \<longleftrightarrow> list_ex sl_truncated slices \<or> cap < length ?m"
      by (auto simp: list_all_iff)
    have whole: "rows = ?m" if "\<not> truncated" using acc(2,4) that by (simp add: not_less)
    then have "\<not> truncated \<Longrightarrow> row_object_id ` set rows = (\<Union>sl \<in> set slices. row_object_id ` set (sl_rows sl))" by (auto simp: image_UN)
    moreover have "\<not> truncated \<Longrightarrow> row_object_id ` set (pg_items page) \<subseteq> row_object_id ` set rows" using whole acc(3) by simp
    moreover have "distinct (map row_object_id rows)" unfolding acc(2) take_map [symmetric] by (rule distinct_take) simp
    moreover have "length rows \<le> cap" using acc(2) by simp
    ultimately show ?thesis using page acc(1,2,4) read_slices_answered [OF sl] by blast
  qed
qed

section \<open>What the client remembers\<close>

text \<open>The moves a scan can make on the memo of its collection; every other memo stays as it was.\<close>

inductive memo_step :: "slice_memo \<Rightarrow> slice_memo \<Rightarrow> bool" where
  keep: "memo_step m m"
| pin: "memo_step m (pin_serial m)"
| validated: "sm_mode m \<noteq> Some Serial \<Longrightarrow> mode \<noteq> Serial \<Longrightarrow> memo_step m (memo_validated mode m)"
| refusal: "sm_mode m \<noteq> Some Serial \<Longrightarrow> memo_step m (memo_after_refusal structural reason complete m)"

inductive_cases memo_stepE: "memo_step m m'"

definition memo_move :: "string \<Rightarrow> slice_memos \<Rightarrow> slice_memos \<Rightarrow> bool" where
  "memo_move path memos memos' \<longleftrightarrow>
     memo_step (slice_memo_of memos path) (slice_memo_of memos' path) \<and> (\<forall>q. q \<noteq> path \<longrightarrow> slice_memo_of memos' q = slice_memo_of memos q)"

lemma slice_memo_of_update [simp]:
  "slice_memo_of (update_slice_memo memos path f) q = (if q = path then f (slice_memo_of memos path) else slice_memo_of memos q)"
  by (simp add: slice_memo_of_def update_slice_memo_def)

lemma memo_move_refl [simp]: "memo_move path memos memos"
  by (simp add: memo_move_def memo_step.keep)

lemma memo_move_pin [simp]: "memo_move path memos (update_slice_memo memos path pin_serial)"
  by (simp add: memo_move_def memo_step.pin)

lemma pin_serial_idem [simp]: "pin_serial (pin_serial m) = pin_serial m"
  by (simp add: pin_serial_def)

lemma refuse_move:
  assumes "refuse G decode path probe cap rf memos s = (r, memos', s')" and "sm_mode (slice_memo_of memos path) \<noteq> Some Serial"
  shows "memo_move path memos memos'"
proof -
  obtain x s1 where x: "serial_rest G decode probe cap ''serial_fallback'' s = (x, s1)" by fastforce
  show ?thesis
  proof (cases "is_structural (rf_reason rf)")
    case True
    with assms(1) x show ?thesis
      by (cases x) (auto simp: refuse_def Let_def memo_move_def memo_after_refusal_def intro: memo_step.pin)
  next
    case False
    with assms x show ?thesis
      by (cases x) (auto simp: refuse_def Let_def memo_move_def intro: memo_step.keep memo_step.refusal)
  qed
qed

lemma try_modes_move:
  assumes "sm_mode (slice_memo_of memos path) \<noteq> Some Serial"
  shows "Serial \<notin> set modes \<Longrightarrow> try_modes G decode path params probe n known cap modes memos s = (r, memos', s') \<Longrightarrow> memo_move path memos memos'"
proof (induction modes arbitrary: s)
  case Nil
  with assms show ?case by (auto split: if_splits prod.splits dest: refuse_move)
next
  case (Cons mode modes)
  obtain x s1 where x: "read_slices G decode path params cap mode s = (x, s1)" by fastforce
  show ?case
  proof (cases x)
    case (Inl e)
    with Cons x assms show ?thesis by (cases e) (auto split: if_splits dest: refuse_move)
  next
    case (Inr slices)
    with Cons.prems x assms show ?thesis
      by (auto simp: memo_move_def split: sum.splits prod.splits intro: memo_step.validated dest!: refuse_move)
  qed
qed

lemma finish_scan_move:
  assumes run: "finish_scan G decode path params probe counted known cap memos s = (r, memos', s')"
    and pinned: "sm_mode (slice_memo_of memos path) = Some Serial \<Longrightarrow> counted = None"
  shows "memo_move path memos memos'"
proof (cases counted)
  case None
  with run show ?thesis by (auto simp: finish_scan_def Let_def split: if_splits prod.splits)
next
  case (Some c)
  with pinned have free: "sm_mode (slice_memo_of memos path) \<noteq> Some Serial" by auto
  have "Serial \<notin> set (slice_modes known)" by (simp add: slice_modes_def)
  with run Some free show ?thesis unfolding finish_scan_def Let_def
    by (auto split: if_splits sum.splits prod.splits dest: refuse_move try_modes_move)
qed

lemma scan_moves:
  assumes "scan_directory_capped G decode path params cap memos s = (r, memos', s')"
  shows "\<exists>memos1. memo_move path memos memos1 \<and> memo_move path memos1 memos'"
proof -
  let ?known = "sm_mode (slice_memo_of memos path)"
  obtain p s1 where p: "get_json G decode path params False s = (p, s1)" by fastforce
  obtain counted s2 where c: "(if ?known = Some Serial then (None, s1) else apfst Some (count_collection G path s1)) = (counted, s2)" by fastforce
  show ?thesis
  proof (cases p)
    case (Inl e)
    with assms p c show ?thesis by (auto simp: scan_directory_capped_def Let_def intro: memo_move_refl)
  next
    case (Inr page)
    obtain x m1 s3 where f: "finish_scan G decode path params page counted ?known cap memos s2 = (x, m1, s3)" by (metis prod_cases3)
    moreover from c have "?known = Some Serial \<Longrightarrow> counted = None" by simp
    ultimately have "memo_move path memos m1" by (rule finish_scan_move)
    moreover have "memos' = m1 \<or> memos' = update_slice_memo m1 path pin_serial"
      using assms p c Inr f by (cases x) (auto simp: scan_directory_capped_def Let_def split: if_splits)
    ultimately show ?thesis by auto
  qed
qed

text \<open>The invariant: the strikes stay within their bounds, and a counter at its bound comes with the pin.\<close>

definition memo_ok :: "slice_memo \<Rightarrow> bool" where
  "memo_ok m \<longleftrightarrow> lag_refusals m \<le> MAX_LAG_REFUSALS \<and> transient_refusals m \<le> MAX_TRANSIENT_REFUSALS
     \<and> (lag_refusals m = MAX_LAG_REFUSALS \<or> transient_refusals m = MAX_TRANSIENT_REFUSALS \<longrightarrow> sm_mode m = Some Serial)"

lemma strike_within:
  fixes k b :: "8 word"
  assumes "k \<le> b" "k \<noteq> b"
  shows "saturating_add k 1 \<le> b"
proof -
  from assms have "unat k < unat b" unfolding word_less_nat_alt [symmetric] by simp
  then show ?thesis by (simp add: word_le_nat_alt unat_saturating_add)
qed

lemma memo_step_ok: "memo_step m m' \<Longrightarrow> memo_ok m \<Longrightarrow> memo_ok m'"
proof (induction rule: memo_step.induct)
  case (validated m mode)
  then show ?case by (simp add: memo_ok_def memo_validated_def MAX_LAG_REFUSALS_def MAX_TRANSIENT_REFUSALS_def)
next
  case (refusal m structural reason complete)
  then have "lag_refusals m \<noteq> MAX_LAG_REFUSALS" "transient_refusals m \<noteq> MAX_TRANSIENT_REFUSALS"
    "lag_refusals m \<le> MAX_LAG_REFUSALS" "transient_refusals m \<le> MAX_TRANSIENT_REFUSALS" by (auto simp: memo_ok_def)
  then show ?case
    using strike_within [of "lag_refusals m" MAX_LAG_REFUSALS] strike_within [of "transient_refusals m" MAX_TRANSIENT_REFUSALS]
    by (auto simp: memo_ok_def memo_after_refusal_def pin_serial_def Let_def)
qed (simp_all add: memo_ok_def pin_serial_def)

lemma memo_step_pinned: "memo_step m m' \<Longrightarrow> sm_mode m = Some Serial \<Longrightarrow> m' = m"
  by (induction rule: memo_step.induct) (simp_all add: pin_serial_def)

text \<open>The memos a client can have: none at first, then whatever its scans leave, those of applications and those of service
  principals, each with its decoder.\<close>

inductive scanned ::
  "('s, 'o) graph_client \<Rightarrow> (string \<Rightarrow> string + 'a directory_row_scheme paged) \<Rightarrow> (string \<Rightarrow> string + 'b directory_row_scheme paged)
     \<Rightarrow> slice_memos \<Rightarrow> bool"
  for G decode_apps decode_sps where
  fresh: "scanned G decode_apps decode_sps Map.empty"
| applications: "scanned G decode_apps decode_sps memos \<Longrightarrow>
    scan_directory_capped G decode_apps path params cap memos s = (r, memos', s') \<Longrightarrow> scanned G decode_apps decode_sps memos'"
| service_principals: "scanned G decode_apps decode_sps memos \<Longrightarrow>
    scan_directory_capped G decode_sps path params cap memos s = (r, memos', s') \<Longrightarrow> scanned G decode_apps decode_sps memos'"

lemma scan_memo_cases:
  assumes "scan_directory_capped G decode path params cap memos s = (r, memos', s')"
  obtains "q \<noteq> path" "slice_memo_of memos' q = slice_memo_of memos q"
  | m where "q = path" "memo_step (slice_memo_of memos path) m" "memo_step m (slice_memo_of memos' path)"
  using scan_moves [OF assms] by (cases "q = path") (auto simp: memo_move_def)

text \<open>C10: The scan memo is well formed after any sequence of scans of any collections: at most two lag strikes and three
  throttled waves are ever recorded, and a counter at its bound means that the collection is pinned to the serial read.
  A scan of a pinned collection, or of any other collection, leaves a memo exactly as it was, so a pin is for good.\<close>

theorem scan_memos_well_formed:
  assumes "scanned G decode_apps decode_sps memos"
  shows "memo_ok (slice_memo_of memos q)
     \<and> (scan_directory_capped G decode_apps path params cap memos s = (r, memos', s') \<longrightarrow>
          q \<noteq> path \<or> sm_mode (slice_memo_of memos q) = Some Serial \<longrightarrow> slice_memo_of memos' q = slice_memo_of memos q)"
proof (intro conjI impI)
  show "memo_ok (slice_memo_of memos q)" using assms
  proof (induction rule: scanned.induct)
    case fresh
    then show ?case by (simp add: slice_memo_of_def slice_memo_default_def memo_ok_def MAX_LAG_REFUSALS_def MAX_TRANSIENT_REFUSALS_def)
  next
    case (applications memos path params cap s r memos' s')
    from applications(2) show ?case by (cases rule: scan_memo_cases [where q = q]) (use applications.IH memo_step_ok in auto)
  next
    case (service_principals memos path params cap s r memos' s')
    from service_principals(2) show ?case by (cases rule: scan_memo_cases [where q = q]) (use service_principals.IH memo_step_ok in auto)
  qed
  assume "scan_directory_capped G decode_apps path params cap memos s = (r, memos', s')"
    "q \<noteq> path \<or> sm_mode (slice_memo_of memos q) = Some Serial"
  then show "slice_memo_of memos' q = slice_memo_of memos q"
    by (cases rule: scan_memo_cases [where q = q]) (auto dest!: memo_step_pinned)
qed

text \<open>Once a collection is pinned, its scan is the plain serial read and nothing else: page one, then its links up to the
  cap.  No count and no slice is asked for, and the memo stays.\<close>

theorem pinned_scan_is_serial:
  assumes "sm_mode (slice_memo_of memos path) = Some Serial"
  shows "map_prod id snd (scan_directory_capped G decode path params cap memos s) =
     (case get_json G decode path params False s of
        (Inl e, s1) \<Rightarrow> (Inl e, s1)
      | (Inr page, s1) \<Rightarrow> collect_all_pages_capped G decode page cap False s1)"
proof -
  have "map_prod id snd (finish_scan G decode path params page None (Some Serial) cap memos s1)
     = (case collect_all_pages_capped G decode page cap False s1 of
          (Inl e, s2) \<Rightarrow> (Inl e, s2)
        | (Inr (rows, truncated), s2) \<Rightarrow>
            (Inr (rows, truncated, if pg_next_link page = None then ''single_page'' else ''serial''), s2))" for page s1
    by (cases "collect_all_pages_capped G decode page cap False s1")
      (auto simp: finish_scan_def serial_rest_def Let_def map_sum_def split: sum.splits)
  note fin = this
  show ?thesis
  proof (cases "get_json G decode path params False s")
    case (Pair p s1)
    show ?thesis
    proof (cases p)
      case (Inr page)
      obtain x m2 s2 where f: "finish_scan G decode path params page None (Some Serial) cap memos s1 = (x, m2, s2)" by (metis prod_cases3)
      obtain y s3 where c: "collect_all_pages_capped G decode page cap False s1 = (y, s3)" by fastforce
      from fin [of page s1] f c assms Pair Inr show ?thesis
        by (cases y; cases x) (auto simp: scan_directory_capped_def Let_def)
    qed (use assms Pair in \<open>simp add: scan_directory_capped_def\<close>)
  qed
qed

section \<open>A sliced scan\<close>

text \<open>A server with one object under each prefix and a page one that holds the first of them and a link.\<close>

definition scan_body :: "string \<Rightarrow> (string \<times> string) list \<Rightarrow> string" where
  "scan_body url query =
     (if ends_with url ''/$count'' then ''16'' else case query of [] \<Rightarrow> ''!'' | (k, v) # _ \<Rightarrow> [v ! 18])"

definition scan_net :: "unit http_net" where
  "scan_net = \<lparr>hn_bearer = (\<lambda>s. (Inr ''t'', s)), hn_bearer_with_claims = (\<lambda>c s. (Inr ''t'', s)), hn_header_value = (\<lambda>v. None),
     hn_send = (\<lambda>rq s. (Response (demo_response 200 None [scan_body (hr_url rq) (hr_query rq)]), s)), hn_on_throttle = (\<lambda>ra s. s)\<rparr>"

definition scan_graph :: "(unit, string) graph_client" where
  "scan_graph = \<lparr>gc_read = scan_net, gc_write = scan_net, gc_base_url = ''https://g'', gc_max_body = 100,
     gc_parse = (\<lambda>u. None), gc_nanos = (\<lambda>_ _. 0)\<rparr>"

definition scan_row :: "char \<Rightarrow> directory_row" where
  "scan_row p = \<lparr>row_object_id = [p], row_app_id = [p]\<rparr>"

definition scan_decode :: "string \<Rightarrow> string + directory_row paged" where
  "scan_decode b = Inr (if b = ''!'' then \<lparr>pg_items = [scan_row (CHR ''0'')], pg_next_link = Some ''https://g/2'', pg_total_count = None\<rparr>
     else \<lparr>pg_items = [scan_row (hd b)], pg_next_link = None, pg_total_count = None\<rparr>)"

lemma scan_reply: "send_core scan_graph GET path query ev None s = (Inr (scan_body (''https://g'' @ path) query), s)"
proof -
  have "length (scan_body url q) \<le> 100" "length (scan_body url q) < 2 ^ 64" for url q by (auto simp: scan_body_def split: list.splits)
  then show ?thesis
    by (simp add: send_core_def send_core_url_def send_core_url_with_def graph_pass.simps with_retries_def with_retries_loop.simps
        graph_attempt_def graph_classify_def scan_net_def scan_graph_def demo_response_def is_success_def read_success_body_def
        body_cap_new_def check_declared_def cap_push_def Let_def)
qed

lemma try_join_total: "(\<And>p s. p \<in> set ps \<Longrightarrow> f p s = (Inr (g p), s)) \<Longrightarrow> try_join_slices f ps s = (Inr (map g ps), s)"
  by (induction ps) simp_all

lemma scan_slices:
  "read_slices scan_graph scan_decode ''/a'' [] 20 Plain s
   = (Inr (map (\<lambda>p. \<lparr>sl_prefix = p, sl_rows = [scan_row p], sl_truncated = False\<rparr>) SLICE_PREFIXES), s)"
  unfolding read_slices_def
  by (rule try_join_total)
    (auto simp: read_slice_def get_json_def scan_reply scan_body_def ends_with_def slice_query_def decode_json_def scan_decode_def
      collect_all_pages_capped_def pages_loop.simps slice_of_def scan_row_def SLICE_PREFIXES_def ascii_lower_def)

lemma scan_merge:
  "merge_slices [scan_row (CHR ''0'')] (map (\<lambda>p. \<lparr>sl_prefix = p, sl_rows = [scan_row p], sl_truncated = False\<rparr>) SLICE_PREFIXES) 16 20
   = Inr (map scan_row SLICE_PREFIXES, False)"
  by (simp add: merge_slices_def SLICE_PREFIXES_def scan_row_def slice_of_def ascii_lower_def u64_of_usize_def)

lemma scan_run:
  "scan_directory_capped scan_graph scan_decode ''/a'' [] 20 Map.empty ()
   = (Inr (map scan_row SLICE_PREFIXES, False),
      [''/a'' \<mapsto> \<lparr>sm_mode = Some Plain, lag_refusals = 0, transient_refusals = 0\<rparr>], ())"
proof -
  have "trim ''16'' = ''16''" by code_simp
  then have "count_collection scan_graph ''/a'' () = (Inr 16, ())"
    by (simp add: count_collection_def scan_reply scan_body_def ends_with_def utf8_error.simps utf8_step_def utf8_width_def second_range_def
        strip_bom.simps starts_with_def BOM_def parse_usize_def is_digit_def digit_value_def Let_def)
  moreover have "get_json scan_graph scan_decode ''/a'' [] False () = (map_sum HDeserialize id (scan_decode ''!''), ())"
    by (simp add: get_json_def scan_reply scan_body_def ends_with_def decode_json_def scan_decode_def)
  moreover have "row_app_id (scan_row p) \<noteq> []" for p by (simp add: scan_row_def)
  ultimately show ?thesis
    using scan_slices [of "()"] scan_merge
    by (simp add: scan_directory_capped_def finish_scan_def slice_memo_of_def slice_memo_default_def scan_decode_def
        u64_of_usize_def div_ceil_def MIN_PAGES_TO_PARTITION_def saturating_mul_def slice_modes_def update_slice_memo_def
        memo_validated_def list_ex_iff)
qed

theorem scan_never_loses_page_one_witness:
  "\<exists>page s1. get_json scan_graph scan_decode ''/a'' [] False () = (Inr page, s1) \<and> pg_items page = [scan_row (CHR ''0'')]
     \<and> row_object_id ` set (pg_items page) \<subseteq> row_object_id ` set (map scan_row SLICE_PREFIXES)"
proof -
  have "get_json scan_graph scan_decode ''/a'' [] False () = (map_sum HDeserialize id (scan_decode ''!''), ())"
    by (simp add: get_json_def scan_reply scan_body_def ends_with_def decode_json_def scan_decode_def)
  with scan_never_loses_page_one [OF scan_run] show ?thesis by (auto simp: scan_decode_def)
qed

theorem scan_memos_well_formed_witness:
  "memo_ok (slice_memo_of [''/a'' \<mapsto> \<lparr>sm_mode = Some Plain, lag_refusals = 0, transient_refusals = 0\<rparr>] ''/a'')"
  using scan_memos_well_formed [OF scanned.applications [OF scanned.fresh scan_run, where decode_sps = scan_decode]] by blast

theorem pinned_scan_is_serial_witness:
  "map_prod id snd (scan_directory_capped scan_graph scan_decode ''/a'' [] 1
       [''/a'' \<mapsto> \<lparr>sm_mode = Some Serial, lag_refusals = 2, transient_refusals = 0\<rparr>] ())
   = (Inr ([scan_row (CHR ''0'')], True), ())"
proof -
  let ?memos = "[''/a'' \<mapsto> \<lparr>sm_mode = Some Serial, lag_refusals = 2, transient_refusals = 0\<rparr>]"
  have pinned: "sm_mode (slice_memo_of ?memos ''/a'') = Some Serial" by (simp add: slice_memo_of_def)
  have "get_json scan_graph scan_decode ''/a'' [] False () = (map_sum HDeserialize id (scan_decode ''!''), ())"
    by (simp add: get_json_def scan_reply scan_body_def ends_with_def decode_json_def scan_decode_def)
  with pinned_scan_is_serial [OF pinned, of scan_graph scan_decode "[]" 1 "()"] show ?thesis
    by (simp add: scan_decode_def collect_all_pages_capped_def pages_loop.simps)
qed

text \<open>C9: A merge of slices is accepted exactly when it can be trusted.  Every slice holds only rows of its own prefix and was
  not cut below the cap, every object of page one has an \<open>appId\<close> and is in some slice, and unless the cap cut a slice the
  union is no shorter than the count.  The rows are then the slices' rows in order, each object once, cut to the cap,
  and the flag says whether anything was cut.\<close>

theorem merge_accepts_iff_trusted:
  "merge_slices probe slices n cap = Inr (rows, truncated) \<longleftrightarrow>
     (let merged = keep_first row_object_id (all_rows slices); cut = list_ex sl_truncated slices
      in list_all (\<lambda>sl. (sl_truncated sl \<longrightarrow> cap \<le> length (sl_rows sl))
             \<and> list_all (\<lambda>r. slice_of r = Some [sl_prefix sl]) (sl_rows sl)) slices
       \<and> list_all (\<lambda>r. row_app_id r \<noteq> [] \<and> row_object_id r \<in> row_object_id ` set merged) probe
       \<and> (cut \<or> n \<le> u64_of_usize (length merged))
       \<and> rows = take cap merged \<and> truncated = (cut \<or> cap < length merged))"
  unfolding merge_slices_iff Let_def slice_sound_def by blast

theorem merge_accepts_iff_trusted_witness:
  "let slices = map (\<lambda>p. \<lparr>sl_prefix = p, sl_rows = [scan_row p], sl_truncated = False\<rparr>) SLICE_PREFIXES
   in list_ex sl_truncated slices \<or> 16 \<le> u64_of_usize (length (keep_first row_object_id (all_rows slices)))"
  using merge_accepts_iff_trusted [THEN iffD1, OF scan_merge] unfolding Let_def by blast

text \<open>The pin holds for scans that run one after the other.  A scan that began before the pin still writes its own mode when
  its merge validates, and the later scan slices again.\<close>

lemma late_merge_unpins:
  "sm_mode (memo_validated Plain (memo_after_refusal True reason complete m)) = Some Plain"
  by (simp add: memo_validated_def memo_after_refusal_def)

end
