(* ===== verification/Vault_Rotation.thy ===== *)
theory Vault_Rotation
  imports Graph_Transport Cache_Tiers Tenant_Defaults Audit_Types
begin

text \<open>
  Rotating an application's client secret into Key Vault (\<^verbatim>\<open>src/apps/desktop/src-tauri/src/commands/keyvault.rs\<close>) and the
  Key Vault calls it makes (\<^verbatim>\<open>src/crates/azapptoolkit-keyvault/src/client.rs\<close>, over the transport of \<open>Http_Errors\<close>).

  A rotation checks who owns the vault secret, mints a client secret on the application, stores it as a new version, and
  removes the previous ones; every step can fail in ways that leave its outcome open.  The calls are the fields of
  \<open>rotation_env\<close>, so that the theorems speak of any directory and any vault; \<open>rotation_laws\<close> is what they document.

  Shown: a rotation that succeeds leaves the new secret on the application and in the vault; one that fails never revokes a
  secret the vault holds, and a secret it leaves behind is named in an error that is not offered for a retry, after the
  caches heard of it.  An owner other than the application stops a rotation before anything is minted.
\<close>

section \<open>The Key Vault client\<close>

record secret_attributes =
  sa_enabled :: "bool option"
  sa_created :: "datetime option"
  sa_updated :: "datetime option"
  sa_expires :: "datetime option"
  sa_not_before :: "datetime option"

type_synonym tags = "string \<rightharpoonup> string"

record secret_item =
  si_id :: string
  si_attributes :: "secret_attributes option"
  si_tags :: "tags option"
  si_content_type :: "string option"
  si_managed :: "bool option"

record secret_attributes_request =
  sar_enabled :: "bool option"
  sar_expires :: "datetime option"
  sar_not_before :: "datetime option"

record secret_set_request =
  ssr_value :: string
  ssr_content_type :: "string option"
  ssr_tags :: "tags option"
  ssr_attributes :: "secret_attributes_request option"

record 't kv_paged =
  kp_value :: "'t list"
  kp_next_link :: "string option"

definition KV_MAX_PAGES :: nat where
  "KV_MAX_PAGES = 1000"

record ('s, 'o) keyvault_client =
  kc_net :: "'s http_net"
  kc_base_url :: string
  kc_api_version :: string
  kc_max_body :: nat
  kc_parse :: "string \<Rightarrow> 'o url_parts option"
  kc_nanos :: "32 word \<Rightarrow> 64 word"
  kc_quote :: "string \<Rightarrow> string"

definition kv_send_core ::
  "('s, 'o) keyvault_client \<Rightarrow> http_method \<Rightarrow> string \<Rightarrow> string option \<Rightarrow> 's \<Rightarrow> (http_error + string) \<times> 's" where
  "kv_send_core K method path body s =
     keyvault_send_core_url (kc_net K) (kc_parse K) (kc_base_url K) (kc_api_version K) (kc_max_body K) (kc_nanos K) method
       (kc_base_url K @ path) True body False s"

definition kv_get_json :: "('s, 'o) keyvault_client \<Rightarrow> (string \<Rightarrow> string + 'a) \<Rightarrow> string \<Rightarrow> 's \<Rightarrow> (http_error + 'a) \<times> 's" where
  "kv_get_json K decode path s = apfst (decode_json decode) (kv_send_core K GET path None s)"

definition kv_get_json_absolute :: "('s, 'o) keyvault_client \<Rightarrow> (string \<Rightarrow> string + 'a) \<Rightarrow> string \<Rightarrow> 's \<Rightarrow> (http_error + 'a) \<times> 's" where
  "kv_get_json_absolute K decode url s =
     apfst (decode_json decode)
       (keyvault_send_core_url (kc_net K) (kc_parse K) (kc_base_url K) (kc_api_version K) (kc_max_body K) (kc_nanos K) GET url False None True s)"

function kv_pages :: "(string \<Rightarrow> 's \<Rightarrow> (http_error + 't kv_paged) \<times> 's) \<Rightarrow> nat \<Rightarrow> 't list \<Rightarrow> string option \<Rightarrow> 's \<Rightarrow> (http_error + 't list) \<times> 's" where
  "kv_pages fetch pages out link s =
     (case link of
        None \<Rightarrow> (Inr out, s)
      | Some l \<Rightarrow>
          if KV_MAX_PAGES \<le> pages
          then (Inl (HProtocol (''secret listing exceeded '' @ show_nat KV_MAX_PAGES @ '' pages; aborting'')), s)
          else (case fetch l s of
                  (Inl e, s1) \<Rightarrow> (Inl e, s1)
                | (Inr p, s1) \<Rightarrow> kv_pages fetch (Suc pages) (out @ kp_value p) (kp_next_link p) s1))"
  by pat_completeness auto

termination
  by (relation "measure (\<lambda>(fetch, pages, out, link, s). KV_MAX_PAGES - pages)") auto

declare kv_pages.simps [simp del]

definition list_paged :: "('s, 'o) keyvault_client \<Rightarrow> (string \<Rightarrow> string + 't kv_paged) \<Rightarrow> string \<Rightarrow> 's \<Rightarrow> (http_error + 't list) \<times> 's" where
  "list_paged K decode path s =
     (case kv_get_json K decode path s of
        (Inl e, s1) \<Rightarrow> (Inl e, s1)
      | (Inr p, s1) \<Rightarrow> kv_pages (kv_get_json_absolute K decode) 1 (kp_value p) (kp_next_link p) s1)"

definition list_secret_versions ::
  "('s, 'o) keyvault_client \<Rightarrow> (string \<Rightarrow> string + secret_item kv_paged) \<Rightarrow> string \<Rightarrow> 's \<Rightarrow> (http_error + secret_item list) \<times> 's" where
  "list_secret_versions K decode secret s =
     (case validate_secret_name (kc_quote K) secret of
        Inl e \<Rightarrow> (Inl e, s)
      | Inr _ \<Rightarrow> list_paged K decode (''/secrets/'' @ secret @ ''/versions'') s)"

definition set_secret ::
  "('s, 'o) keyvault_client \<Rightarrow> (secret_set_request \<Rightarrow> string + string) \<Rightarrow> (string \<Rightarrow> string + secret_item) \<Rightarrow> string \<Rightarrow> secret_set_request
     \<Rightarrow> 's \<Rightarrow> (http_error + secret_item) \<times> 's" where
  "set_secret K encode decode secret req s =
     (case validate_secret_name (kc_quote K) secret of
        Inl e \<Rightarrow> (Inl e, s)
      | Inr _ \<Rightarrow>
          (case encode req of
             Inl err \<Rightarrow> (Inl (HDeserialize err), s)
           | Inr b \<Rightarrow> apfst (decode_json decode) (kv_send_core K PUT (''/secrets/'' @ secret) (Some b) s)))"

section \<open>Ownership\<close>

definition TAG_APP_ID :: string where
  "TAG_APP_ID = ''azapptoolkit-app-id''"

definition TAG_OBJECT_ID :: string where
  "TAG_OBJECT_ID = ''azapptoolkit-object-id''"

definition TAG_KEY_ID :: string where
  "TAG_KEY_ID = ''azapptoolkit-key-id''"

definition own_app_id :: "string option \<Rightarrow> string option" where
  "own_app_id app_id = (case map_option trim app_id of Some a \<Rightarrow> if a = [] then None else Some a | None \<Rightarrow> None)"

definition rotation_tags :: "string option \<Rightarrow> string \<Rightarrow> string \<Rightarrow> tags" where
  "rotation_tags app_id object_id key_id =
     (let t = Map.empty(TAG_OBJECT_ID \<mapsto> to_ascii_lowercase (trim object_id));
          t = (case own_app_id app_id of Some a \<Rightarrow> t(TAG_APP_ID \<mapsto> to_ascii_lowercase a) | None \<Rightarrow> t)
      in t(TAG_KEY_ID \<mapsto> key_id))"

definition owned_by_other_app :: "tags \<Rightarrow> string \<Rightarrow> string option \<Rightarrow> string option" where
  "owned_by_other_app t object_id app_id =
     (case t TAG_OBJECT_ID of
        Some owner \<Rightarrow> if owner \<noteq> to_ascii_lowercase (trim object_id) then Some owner else None
      | None \<Rightarrow>
          (case t TAG_APP_ID of
             Some owner \<Rightarrow>
               (case own_app_id app_id of
                  Some mine \<Rightarrow> if owner \<noteq> to_ascii_lowercase mine then Some owner else None
                | None \<Rightarrow> Some owner)
           | None \<Rightarrow> None))"

definition claims_an_owner :: "secret_item \<Rightarrow> bool" where
  "claims_an_owner v \<longleftrightarrow> (case si_tags v of Some t \<Rightarrow> t TAG_OBJECT_ID \<noteq> None \<or> t TAG_APP_ID \<noteq> None | None \<Rightarrow> False)"

definition version_created :: "secret_item \<Rightarrow> datetime option" where
  "version_created v = Option.bind (si_attributes v) sa_created"

definition newest_created :: "datetime list \<Rightarrow> datetime option" where
  "newest_created ts = (case ts of [] \<Rightarrow> None | t # rest \<Rightarrow> Some (fold max rest t))"

definition current_owner_if_other :: "secret_item list \<Rightarrow> string \<Rightarrow> string option \<Rightarrow> string option" where
  "current_owner_if_other versions object_id app_id =
     (let claimed = filter claims_an_owner versions;
          newest = newest_created (List.map_filter version_created claimed);
          judged = filter (\<lambda>v. version_created v = None \<or> version_created v = newest) claimed
      in case List.map_filter (\<lambda>v. Option.bind (si_tags v) (\<lambda>t. owned_by_other_app t object_id app_id)) judged of
           [] \<Rightarrow> None
         | owner # _ \<Rightarrow> Some owner)"

section \<open>Errors\<close>

definition KEYVAULT_SECRETS_REMEDIATION :: string where
  "KEYVAULT_SECRETS_REMEDIATION = ''Key Vault secret access needs an Azure RBAC role on the vault '' @ em_dash @ '' Key Vault Secrets Officer, or a custom role with the secret DataActions readMetadata (list secrets and read their tags), getSecret (read a value) and setSecret (write a new version) '' @ em_dash @ '' and the vault must use RBAC permission mode, not legacy access policies.''"

definition keyvault_ui_hint :: "http_error \<Rightarrow> string option" where
  "keyvault_ui_hint e =
     (case e of
        HForbidden _ \<Rightarrow> Some KEYVAULT_SECRETS_REMEDIATION
      | HUnauthorized \<Rightarrow> Some ''Your Key Vault token was rejected. Use \"Refresh token\" (next to Sign out), then retry; if it persists, confirm the app has consented the vault.azure.net scope.''
      | _ \<Rightarrow> None)"

definition para :: string where
  "para = [CHR 0x0A, CHR 0x0A]"

definition ui_from_keyvault :: "http_error \<Rightarrow> ui_error" where
  "ui_from_keyvault e =
     \<lparr>ue_code = http_ui_code keyvault_flavour e,
      ue_message = (case keyvault_ui_hint e of
                      Some hint \<Rightarrow> http_error_text keyvault_flavour e @ para @ hint
                    | None \<Rightarrow> http_error_text keyvault_flavour e),
      ue_retryable = http_is_retryable keyvault_flavour e\<rparr>"

definition ui_from_graph :: "http_error \<Rightarrow> ui_error" where
  "ui_from_graph e =
     \<lparr>ue_code = http_ui_code graph_flavour e, ue_message = http_error_text graph_flavour e, ue_retryable = http_is_retryable graph_flavour e\<rparr>"

definition ownership_unknown :: "string \<Rightarrow> http_error \<Rightarrow> ui_error" where
  "ownership_unknown secret_name err =
     (let e = ui_from_keyvault err
      in e\<lparr>ue_message := ue_message e @ para @ ''Couldn't read the tags on vault secret '' @ [CHR 0x27] @ secret_name @ [CHR 0x27]
           @ '' to check which app owns it, so nothing was minted.''\<rparr>)"

section \<open>The rotation\<close>

record rotate_credential_input =
  rci_object_id :: string
  rci_app_id :: "string option"
  rci_vault_name :: string
  rci_secret_name :: string
  rci_lifetime_days :: "32 word option"
  rci_remove_key_ids :: "string list"

record rotate_credential_result =
  rcr_new_key_id :: string
  rcr_vault_name :: string
  rcr_secret_name :: string
  rcr_expires :: "string option"
  rcr_removed_key_ids :: "string list"
  rcr_warnings :: "string list"

text \<open>What a rotation calls: the vault's version listing and write, the directory's \<open>addPassword\<close> and \<open>removePassword\<close>, the
  settings file, the quoted form of a name, today's date and the RFC 3339 form of a time.\<close>

record 's rotation_env =
  re_list_versions :: "string \<Rightarrow> 's \<Rightarrow> (http_error + secret_item list) \<times> 's"
  re_set_secret :: "string \<Rightarrow> secret_set_request \<Rightarrow> 's \<Rightarrow> (http_error + secret_item) \<times> 's"
  re_add_password :: "string \<Rightarrow> string \<Rightarrow> 64 word \<Rightarrow> 's \<Rightarrow> (http_error + password_credential) \<times> 's"
  re_remove_password :: "string \<Rightarrow> string \<Rightarrow> 's \<Rightarrow> (http_error + unit) \<times> 's"
  re_remember :: "string \<Rightarrow> string \<Rightarrow> app_vault_binding \<Rightarrow> 's \<Rightarrow> string option \<times> 's"
  re_quote :: "string \<Rightarrow> string"
  re_today :: string
  re_rfc3339 :: "datetime \<Rightarrow> string"

record unstored =
  us_err :: ui_error
  us_left_on_app :: bool

definition roll_back :: "'s rotation_env \<Rightarrow> string \<Rightarrow> password_credential \<Rightarrow> string \<Rightarrow> ui_error \<Rightarrow> 's \<Rightarrow> unstored \<times> 's" where
  "roll_back E object_id minted display_name err s =
     (case re_remove_password E object_id (pc_key_id minted) s of
        (Inr _, s1) \<Rightarrow> (\<lparr>us_err = err, us_left_on_app = False\<rparr>, s1)
      | (Inl rollback, s1) \<Rightarrow>
          (\<lparr>us_err = err\<lparr>ue_message := ue_message err @ para @ ''The new client secret '' @ [CHR 0x27] @ display_name @ [CHR 0x27] @ '' (key id ''
               @ pc_key_id minted @ '') couldn't be removed again ('' @ http_error_text graph_flavour rollback
               @ ''). Nobody holds its value: refresh this app, then delete it from the Credentials tab.'',
               ue_retryable := False\<rparr>,
            us_left_on_app = True\<rparr>, s1))"

definition version_key :: "secret_item \<Rightarrow> string option" where
  "version_key v = Option.bind (si_tags v) (\<lambda>t. t TAG_KEY_ID)"

definition vault_holds_key :: "'s rotation_env \<Rightarrow> string \<Rightarrow> string \<Rightarrow> 's \<Rightarrow> (http_error + bool) \<times> 's" where
  "vault_holds_key E secret_name key_id s =
     (case re_list_versions E secret_name s of
        (Inr versions, s1) \<Rightarrow> (Inr (list_ex (\<lambda>v. version_key v = Some key_id) versions), s1)
      | (Inl (HNotFound _), s1) \<Rightarrow> (Inr False, s1)
      | (Inl e, s1) \<Rightarrow> (Inl e, s1))"

definition kept_error :: "string \<Rightarrow> string \<Rightarrow> string \<Rightarrow> http_error \<Rightarrow> http_error \<Rightarrow> ui_error" where
  "kept_error display_name key_id secret_name err read_back =
     (let e = ui_from_keyvault err
      in e\<lparr>ue_message := ue_message e @ para @ ''Couldn't check whether the vault stored the new secret anyway ('' @ http_error_text keyvault_flavour read_back
           @ ''), so client secret '' @ [CHR 0x27] @ display_name @ [CHR 0x27] @ '' (key id '' @ key_id
           @ '') was kept on the app rather than revoked while the vault may hold it. If no version of '' @ [CHR 0x27] @ secret_name @ [CHR 0x27]
           @ '' is tagged '' @ TAG_KEY_ID @ '' = '' @ key_id @ '', delete that client secret from this app's Credentials tab.'',
           ue_retryable := False\<rparr>)"

definition store_minted ::
  "'s rotation_env \<Rightarrow> rotate_credential_input \<Rightarrow> password_credential \<Rightarrow> string \<Rightarrow> 's \<Rightarrow> (unstored + string list) \<times> 's" where
  "store_minted E inp cred display_name s =
     (case pc_secret_text cred of
        None \<Rightarrow>
          (let (u, s1) = roll_back E (rci_object_id inp) cred display_name
                 (ui_validation ''no_secret_value'' ''Graph did not return the new secret value'') s
           in (Inl u, s1))
      | Some secret \<Rightarrow>
          (let req = \<lparr>ssr_value = secret, ssr_content_type = None,
                 ssr_tags = Some (rotation_tags (rci_app_id inp) (rci_object_id inp) (pc_key_id cred)),
                 ssr_attributes = map_option (\<lambda>e. \<lparr>sar_enabled = Some True, sar_expires = Some e, sar_not_before = None\<rparr>) (pc_end_date_time cred)\<rparr>
           in case re_set_secret E (rci_secret_name inp) req s of
                (Inr _, s1) \<Rightarrow> (Inr [], s1)
              | (Inl err, s1) \<Rightarrow>
                  if sent_nothing err
                  then (let (u, s2) = roll_back E (rci_object_id inp) cred display_name (ui_from_keyvault err) s1 in (Inl u, s2))
                  else (case vault_holds_key E (rci_secret_name inp) (pc_key_id cred) s1 of
                          (Inr True, s2) \<Rightarrow>
                            (Inr [''Key Vault reported an error storing the new version ('' @ http_error_text keyvault_flavour err
                                  @ ''), but the vault holds it, so the rotation went ahead''], s2)
                        | (Inr False, s2) \<Rightarrow>
                            (let (u, s3) = roll_back E (rci_object_id inp) cred display_name (ui_from_keyvault err) s2 in (Inl u, s3))
                        | (Inl read_back, s2) \<Rightarrow>
                            (Inl \<lparr>us_err = kept_error display_name (pc_key_id cred) (rci_secret_name inp) err read_back, us_left_on_app = True\<rparr>, s2))))"

fun remove_previous ::
  "'s rotation_env \<Rightarrow> string \<Rightarrow> string \<Rightarrow> string list \<Rightarrow> string list \<Rightarrow> string list \<Rightarrow> 's \<Rightarrow> string list \<times> string list \<times> 's" where
  "remove_previous E object_id new_key [] removed warnings s = (removed, warnings, s)"
| "remove_previous E object_id new_key (key_id # ids) removed warnings s =
     (if key_id = new_key then remove_previous E object_id new_key ids removed warnings s
      else (case re_remove_password E object_id key_id s of
              (Inr _, s1) \<Rightarrow> remove_previous E object_id new_key ids (removed @ [key_id]) warnings s1
            | (Inl e, s1) \<Rightarrow>
                remove_previous E object_id new_key ids removed
                  (warnings @ [''failed to remove '' @ key_id @ '': '' @ http_error_text graph_flavour e]) s1))"

definition DEFAULT_SECRET_LIFETIME_DAYS :: "32 word" where
  "DEFAULT_SECRET_LIFETIME_DAYS = 180"

definition MAX_SECRET_LIFETIME_DAYS :: "32 word" where
  "MAX_SECRET_LIFETIME_DAYS = 730"

definition lifetime_secs :: "32 word option \<Rightarrow> 64 word" where
  "lifetime_secs days =
     ucast (min (max (case days of Some d \<Rightarrow> d | None \<Rightarrow> DEFAULT_SECRET_LIFETIME_DAYS) 1) MAX_SECRET_LIFETIME_DAYS) * 86400"

definition owner_gate :: "'s rotation_env \<Rightarrow> rotate_credential_input \<Rightarrow> 's \<Rightarrow> ui_error option \<times> 's" where
  "owner_gate E inp s =
     (case re_list_versions E (rci_secret_name inp) s of
        (Inr versions, s1) \<Rightarrow>
          (case current_owner_if_other versions (rci_object_id inp) (rci_app_id inp) of
             Some owner \<Rightarrow>
               (Some (ui_validation ''secret_owned_by_other_app''
                  ([CHR 0x27] @ rci_secret_name inp @ [CHR 0x27] @ '' is tagged as owned by a different app ('' @ owner
                   @ ''). Rotate it from that app, or pick another secret name '' @ em_dash @ '' nothing was minted.'')), s1)
           | None \<Rightarrow> (None, s1))
      | (Inl (HNotFound _), s1) \<Rightarrow> (None, s1)
      | (Inl err, s1) \<Rightarrow> (Some (ownership_unknown (rci_secret_name inp) err), s1))"

definition remember_vault ::
  "'s rotation_env \<Rightarrow> string \<Rightarrow> rotate_credential_input \<Rightarrow> string list \<Rightarrow> 's \<Rightarrow> string list \<times> 's" where
  "remember_vault E tenant inp warnings s =
     (case rci_app_id inp of
        None \<Rightarrow> (warnings, s)
      | Some app_id \<Rightarrow>
          (case re_remember E tenant app_id \<lparr>vb_vault_name = rci_vault_name inp, vb_secret_name = Some (rci_secret_name inp)\<rparr> s of
             (None, s1) \<Rightarrow> (warnings, s1)
           | (Some e, s1) \<Rightarrow> (warnings @ [''rotation succeeded, but couldn't remember the vault for next time: '' @ e], s1)))"

definition rotate_app_credential_core ::
  "'s rotation_env \<Rightarrow> string \<Rightarrow> rotate_credential_input \<Rightarrow> ('j, 'a) cache \<Rightarrow> 's
     \<Rightarrow> (ui_error + rotate_credential_result) \<times> ('j, 'a) cache \<times> 's" where
  "rotate_app_credential_core E tenant inp c s =
     (case validate_vault_name (re_quote E) (rci_vault_name inp) of Inl e \<Rightarrow> (Inl (ui_from_keyvault e), c, s) | Inr _ \<Rightarrow>
      case owner_gate E inp s of
        (Some e, s1) \<Rightarrow> (Inl e, c, s1)
      | (None, s1) \<Rightarrow>
          (let display_name = ''rotated-'' @ re_today E
           in case re_add_password E (rci_object_id inp) display_name (lifetime_secs (rci_lifetime_days inp)) s1 of
                (Inl e, s2) \<Rightarrow> (Inl (ui_from_graph e), c, s2)
              | (Inr cred, s2) \<Rightarrow>
                  (case store_minted E inp cred display_name s2 of
                     (Inl u, s3) \<Rightarrow>
                       (Inl (us_err u), if us_left_on_app u then invalidate_app_credentials tenant (rci_object_id inp) c else c, s3)
                   | (Inr warnings, s3) \<Rightarrow>
                       (let (removed, w4, s4) = remove_previous E (rci_object_id inp) (pc_key_id cred) (rci_remove_key_ids inp) [] warnings s3;
                            (w5, s5) = remember_vault E tenant inp w4 s4
                        in (Inr \<lparr>rcr_new_key_id = pc_key_id cred, rcr_vault_name = rci_vault_name inp, rcr_secret_name = rci_secret_name inp,
                              rcr_expires = map_option (re_rfc3339 E) (pc_end_date_time cred), rcr_removed_key_ids = removed, rcr_warnings = w5\<rparr>,
                            invalidate_app_credentials tenant (rci_object_id inp) c, s5)))))"

section \<open>What the services document\<close>

text \<open>Two views of the services' state: which client secrets an application has, and which key ids the versions of a vault
  secret are tagged with.  A write of the vault that is not proved unsent may or may not have landed, and so may a removal
  that failed; nothing is said of a mint that failed.\<close>

definition list_law :: "'s rotation_env \<Rightarrow> ('s \<Rightarrow> string \<Rightarrow> string \<Rightarrow> bool) \<Rightarrow> ('s \<Rightarrow> string \<Rightarrow> string \<Rightarrow> bool) \<Rightarrow> bool" where
  "list_law E on_app in_vault \<longleftrightarrow>
     (\<forall>n s r s'. re_list_versions E n s = (r, s') \<longrightarrow> on_app s' = on_app s \<and> in_vault s' = in_vault s
        \<and> (\<forall>vs k. r = Inr vs \<longrightarrow> (Some k \<in> version_key ` set vs \<longleftrightarrow> in_vault s n k))
        \<and> (\<forall>b k. r = Inl (HNotFound b) \<longrightarrow> \<not> in_vault s n k))"

definition set_law :: "'s rotation_env \<Rightarrow> ('s \<Rightarrow> string \<Rightarrow> string \<Rightarrow> bool) \<Rightarrow> ('s \<Rightarrow> string \<Rightarrow> string \<Rightarrow> bool) \<Rightarrow> bool" where
  "set_law E on_app in_vault \<longleftrightarrow>
     (\<forall>n req s r s' t k. re_set_secret E n req s = (r, s') \<longrightarrow> ssr_tags req = Some t \<longrightarrow> t TAG_KEY_ID = Some k \<longrightarrow>
        on_app s' = on_app s
        \<and> (in_vault s' = in_vault s \<or> in_vault s' = (in_vault s)(n := (in_vault s n)(k := True)))
        \<and> (isl r \<or> in_vault s' n k)
        \<and> (\<forall>e. r = Inl e \<longrightarrow> sent_nothing e \<longrightarrow> in_vault s' = in_vault s))"

definition add_law :: "'s rotation_env \<Rightarrow> ('s \<Rightarrow> string \<Rightarrow> string \<Rightarrow> bool) \<Rightarrow> ('s \<Rightarrow> string \<Rightarrow> string \<Rightarrow> bool) \<Rightarrow> bool" where
  "add_law E on_app in_vault \<longleftrightarrow>
     (\<forall>obj name secs s r s'. re_add_password E obj name secs s = (r, s') \<longrightarrow> in_vault s' = in_vault s
        \<and> (\<forall>cred. r = Inr cred \<longrightarrow> on_app s' = (on_app s)(obj := (on_app s obj)(pc_key_id cred := True))
             \<and> (\<forall>n. \<not> in_vault s n (pc_key_id cred))))"

definition remove_law :: "'s rotation_env \<Rightarrow> ('s \<Rightarrow> string \<Rightarrow> string \<Rightarrow> bool) \<Rightarrow> ('s \<Rightarrow> string \<Rightarrow> string \<Rightarrow> bool) \<Rightarrow> bool" where
  "remove_law E on_app in_vault \<longleftrightarrow>
     (\<forall>obj k s r s'. re_remove_password E obj k s = (r, s') \<longrightarrow> in_vault s' = in_vault s
        \<and> (on_app s' = (on_app s)(obj := (on_app s obj)(k := False)) \<or> isl r \<and> on_app s' = on_app s))"

definition rotation_laws :: "'s rotation_env \<Rightarrow> ('s \<Rightarrow> string \<Rightarrow> string \<Rightarrow> bool) \<Rightarrow> ('s \<Rightarrow> string \<Rightarrow> string \<Rightarrow> bool) \<Rightarrow> bool" where
  "rotation_laws E on_app in_vault \<longleftrightarrow> list_law E on_app in_vault \<and> set_law E on_app in_vault \<and> add_law E on_app in_vault
     \<and> remove_law E on_app in_vault
     \<and> (\<forall>t a b s. on_app (snd (re_remember E t a b s)) = on_app s \<and> in_vault (snd (re_remember E t a b s)) = in_vault s)"

lemma list_lawD:
  assumes "rotation_laws E on_app in_vault" "re_list_versions E n s = (r, s')"
  shows "on_app s' = on_app s" "in_vault s' = in_vault s"
    "\<And>vs k. r = Inr vs \<Longrightarrow> Some k \<in> version_key ` set vs \<longleftrightarrow> in_vault s n k" "\<And>b k. r = Inl (HNotFound b) \<Longrightarrow> \<not> in_vault s n k"
proof -
  from assms(1) have "list_law E on_app in_vault" by (simp add: rotation_laws_def)
  note law = this [unfolded list_law_def, rule_format, OF assms(2)]
  then show "on_app s' = on_app s" "in_vault s' = in_vault s" by auto
  show "Some k \<in> version_key ` set vs \<longleftrightarrow> in_vault s n k" if "r = Inr vs" for vs k using law that by auto
  show "\<not> in_vault s n k" if "r = Inl (HNotFound b)" for b k using law that by auto
qed

lemma set_lawD:
  assumes "rotation_laws E on_app in_vault" "re_set_secret E n req s = (r, s')" "ssr_tags req = Some t" "t TAG_KEY_ID = Some k"
  shows "on_app s' = on_app s" "in_vault s' = in_vault s \<or> in_vault s' = (in_vault s)(n := (in_vault s n)(k := True))"
    "isl r \<or> in_vault s' n k" "\<And>e. r = Inl e \<Longrightarrow> sent_nothing e \<Longrightarrow> in_vault s' = in_vault s"
proof -
  from assms(1) have "set_law E on_app in_vault" by (simp add: rotation_laws_def)
  note law = this [unfolded set_law_def, rule_format, OF assms(2-4)]
  then show "on_app s' = on_app s" "in_vault s' = in_vault s \<or> in_vault s' = (in_vault s)(n := (in_vault s n)(k := True))"
    "isl r \<or> in_vault s' n k" by auto
  show "in_vault s' = in_vault s" if "r = Inl e" "sent_nothing e" for e using law that by auto
qed

lemma add_lawD:
  assumes "rotation_laws E on_app in_vault" "re_add_password E obj name secs s = (r, s')"
  shows "in_vault s' = in_vault s"
    "\<And>cred. r = Inr cred \<Longrightarrow> on_app s' = (on_app s)(obj := (on_app s obj)(pc_key_id cred := True)) \<and> (\<forall>n. \<not> in_vault s n (pc_key_id cred))"
proof -
  from assms(1) have "add_law E on_app in_vault" by (simp add: rotation_laws_def)
  note law = this [unfolded add_law_def, rule_format, OF assms(2)]
  then show "in_vault s' = in_vault s" by auto
  show "on_app s' = (on_app s)(obj := (on_app s obj)(pc_key_id cred := True)) \<and> (\<forall>n. \<not> in_vault s n (pc_key_id cred))"
    if "r = Inr cred" for cred using law that by auto
qed

lemma remove_lawD:
  assumes "rotation_laws E on_app in_vault" "re_remove_password E obj k s = (r, s')"
  shows "in_vault s' = in_vault s" "on_app s' = (on_app s)(obj := (on_app s obj)(k := False)) \<or> isl r \<and> on_app s' = on_app s"
  using assms by (auto simp: rotation_laws_def remove_law_def)

text \<open>The law on a write that sent nothing is the transport's: the Key Vault client satisfies it for every view of the server
  that only requests change.\<close>

lemma rotation_tags_key [simp]: "rotation_tags app_id object_id key_id TAG_KEY_ID = Some key_id"
  by (simp add: rotation_tags_def Let_def)

section \<open>The steps\<close>

lemma owner_gate_views:
  assumes "rotation_laws E on_app in_vault" "owner_gate E inp s = (r, s')"
  shows "on_app s' = on_app s \<and> in_vault s' = in_vault s"
proof -
  obtain x s1 where x: "re_list_versions E (rci_secret_name inp) s = (x, s1)" by fastforce
  with assms(2) have "s' = s1" by (auto simp: owner_gate_def split: sum.splits option.splits http_error.splits)
  with list_lawD [OF assms(1) x] show ?thesis by simp
qed

definition names_leftover :: "string \<Rightarrow> unstored \<Rightarrow> bool" where
  "names_leftover key u \<longleftrightarrow> us_left_on_app u \<and> \<not> ue_retryable (us_err u) \<and> contains_str (ue_message (us_err u)) key"

lemma roll_back_effect:
  assumes laws: "rotation_laws E on_app in_vault" and run: "roll_back E obj cred display_name err s = (u, s')"
  shows "in_vault s' = in_vault s" and "\<And>k. on_app s' obj k \<Longrightarrow> on_app s obj k"
    and "on_app s' obj (pc_key_id cred) \<Longrightarrow> names_leftover (pc_key_id cred) u"
proof -
  obtain x s1 where x: "re_remove_password E obj (pc_key_id cred) s = (x, s1)" by fastforce
  with run have s1: "s' = s1" by (auto simp: roll_back_def split: sum.splits)
  note eff = remove_lawD [OF laws x]
  from eff s1 show "in_vault s' = in_vault s" "\<And>k. on_app s' obj k \<Longrightarrow> on_app s obj k" by (auto split: if_splits)
  assume "on_app s' obj (pc_key_id cred)"
  with eff s1 have "isl x" by auto
  then obtain e where "x = Inl e" by (cases x) auto
  with run x have "us_left_on_app u" "\<not> ue_retryable (us_err u)"
    "ue_message (us_err u) = (ue_message err @ para @ ''The new client secret '' @ [CHR 0x27] @ display_name @ [CHR 0x27] @ '' (key id '')
       @ pc_key_id cred @ ('') couldn't be removed again ('' @ http_error_text graph_flavour e
       @ ''). Nobody holds its value: refresh this app, then delete it from the Credentials tab.'')"
    by (auto simp: roll_back_def)
  then show "names_leftover (pc_key_id cred) u" unfolding names_leftover_def by (simp only: contains_middle simp_thms)
qed

lemma vault_holds_key_effect:
  assumes laws: "rotation_laws E on_app in_vault" and run: "vault_holds_key E n k s = (r, s')"
  shows "on_app s' = on_app s \<and> in_vault s' = in_vault s" and "r = Inr b \<Longrightarrow> in_vault s n k = b"
proof -
  obtain x s1 where x: "re_list_versions E n s = (x, s1)" by fastforce
  note eff = list_lawD [OF laws x]
  from run x have s1: "s' = s1" by (auto simp: vault_holds_key_def split: sum.splits http_error.splits)
  with eff show "on_app s' = on_app s \<and> in_vault s' = in_vault s" by simp
  assume r: "r = Inr b"
  show "in_vault s n k = b"
  proof (cases x)
    case (Inl e)
    with run x r obtain m where "e = HNotFound m" "b = False" by (cases e) (auto simp: vault_holds_key_def)
    with eff(4) Inl show ?thesis by simp
  next
    case (Inr vs)
    with run x r have "b \<longleftrightarrow> Some k \<in> version_key ` set vs"
      by (auto simp: vault_holds_key_def list_ex_iff image_iff) metis+
    with eff(3) Inr show ?thesis by simp
  qed
qed

lemma kept_error_names: "names_leftover key \<lparr>us_err = kept_error name key sec err rb, us_left_on_app = True\<rparr>"
proof -
  have "ue_message (kept_error name key sec err rb) = (ue_message (ui_from_keyvault err) @ para
      @ ''Couldn't check whether the vault stored the new secret anyway ('' @ http_error_text keyvault_flavour rb
      @ ''), so client secret '' @ [CHR 0x27] @ name @ [CHR 0x27] @ '' (key id '') @ key
      @ ('') was kept on the app rather than revoked while the vault may hold it. If no version of '' @ [CHR 0x27] @ sec @ [CHR 0x27]
         @ '' is tagged '' @ TAG_KEY_ID @ '' = '' @ key @ '', delete that client secret from this app's Credentials tab.'')"
    by (simp add: kept_error_def Let_def)
  moreover have "\<not> ue_retryable (kept_error name key sec err rb)" by (simp add: kept_error_def Let_def)
  ultimately show ?thesis unfolding names_leftover_def by (simp only: contains_middle simp_thms unstored.simps)
qed

lemma store_minted_effect:
  assumes laws: "rotation_laws E on_app in_vault" and run: "store_minted E inp cred name s = (r, s')"
    and minted: "on_app s (rci_object_id inp) (pc_key_id cred)" and unstored: "\<not> in_vault s (rci_secret_name inp) (pc_key_id cred)"
  shows "r = Inr w \<Longrightarrow> on_app s' (rci_object_id inp) (pc_key_id cred) \<and> in_vault s' (rci_secret_name inp) (pc_key_id cred)"
    and "\<And>k. on_app s' (rci_object_id inp) k \<Longrightarrow> on_app s (rci_object_id inp) k"
    and "\<And>k. in_vault s' (rci_secret_name inp) k \<Longrightarrow> in_vault s (rci_secret_name inp) k \<or> k = pc_key_id cred"
    and "r = Inl u \<Longrightarrow> on_app s' (rci_object_id inp) (pc_key_id cred) \<Longrightarrow> names_leftover (pc_key_id cred) u"
    and "r = Inl u \<Longrightarrow> in_vault s' (rci_secret_name inp) (pc_key_id cred) \<Longrightarrow> on_app s' (rci_object_id inp) (pc_key_id cred)"
proof -
  let ?obj = "rci_object_id inp" and ?sec = "rci_secret_name inp" and ?key = "pc_key_id cred"
  let ?goal = "(\<forall>w. r = Inr w \<longrightarrow> on_app s' ?obj ?key \<and> in_vault s' ?sec ?key)
     \<and> (\<forall>k. on_app s' ?obj k \<longrightarrow> on_app s ?obj k) \<and> (\<forall>k. in_vault s' ?sec k \<longrightarrow> in_vault s ?sec k \<or> k = ?key)
     \<and> (\<forall>u. r = Inl u \<longrightarrow> on_app s' ?obj ?key \<longrightarrow> names_leftover ?key u)
     \<and> (\<forall>u. r = Inl u \<longrightarrow> in_vault s' ?sec ?key \<longrightarrow> on_app s' ?obj ?key)"
  have rolled: ?goal if undo: "roll_back E ?obj cred name err s1 = (u, s2)" and eq: "r = Inl u" "s' = s2"
    and s1: "on_app s1 = on_app s" "in_vault s1 = in_vault s" for err u s1 s2
    using roll_back_effect [OF laws undo] eq s1 unstored by auto
  have ?goal
  proof (cases "pc_secret_text cred")
    case None
    obtain u s1 where u: "roll_back E ?obj cred name (ui_validation ''no_secret_value'' ''Graph did not return the new secret value'') s = (u, s1)"
      by fastforce
    with run None have "r = Inl u" "s' = s1" by (auto simp: store_minted_def)
    from rolled [OF u this] show ?thesis by simp
  next
    case (Some secret)
    define req where "req = \<lparr>ssr_value = secret, ssr_content_type = None,
      ssr_tags = Some (rotation_tags (rci_app_id inp) ?obj ?key),
      ssr_attributes = map_option (\<lambda>e. \<lparr>sar_enabled = Some True, sar_expires = Some e, sar_not_before = None\<rparr>) (pc_end_date_time cred)\<rparr>"
    obtain x s1 where x: "re_set_secret E ?sec req s = (x, s1)" by fastforce
    note sent = set_lawD [OF laws x, of "rotation_tags (rci_app_id inp) ?obj ?key" ?key, simplified req_def, simplified]
    show ?thesis
    proof (cases x)
      case (Inr item)
      with run Some x have "r = Inr []" "s' = s1" by (auto simp: store_minted_def req_def)
      with sent Inr minted show ?thesis by (auto split: if_splits)
    next
      case (Inl err)
      obtain h s2 where h: "vault_holds_key E ?sec ?key s1 = (h, s2)" by fastforce
      note held = vault_holds_key_effect [OF laws h]
      obtain u s3 where u: "roll_back E ?obj cred name (ui_from_keyvault err) (if sent_nothing err then s1 else s2) = (u, s3)" by fastforce
      consider "sent_nothing err" | "\<not> sent_nothing err" "h = Inr False" | "\<not> sent_nothing err" "h = Inr True"
        | rb where "\<not> sent_nothing err" "h = Inl rb" by (cases h) auto
      then show ?thesis
      proof cases
        case 1
        with run Some x Inl u have "r = Inl u" "s' = s3" by (auto simp: store_minted_def req_def)
        from rolled [OF u this] 1 sent(1) sent(4) [OF Inl] show ?thesis by simp
      next
        case 2
        with run Some x Inl u h have eq: "r = Inl u" "s' = s3" by (auto simp: store_minted_def req_def)
        from held 2 have absent: "\<not> in_vault s1 ?sec ?key" by blast
        then have "in_vault s1 = in_vault s" using sent(2) by auto
        with rolled [OF u eq] 2 sent(1) held(1) show ?thesis by simp
      next
        case 3
        with run Some x Inl h have "s' = s2" "isl r = False" by (auto simp: store_minted_def req_def)
        with held 3 sent minted show ?thesis by (auto split: if_splits)
      next
        case 4
        with run Some x Inl h have "s' = s2"
          "r = Inl \<lparr>us_err = kept_error name ?key ?sec err rb, us_left_on_app = True\<rparr>" by (auto simp: store_minted_def req_def)
        moreover have "names_leftover ?key \<lparr>us_err = kept_error name ?key ?sec err rb, us_left_on_app = True\<rparr>"
          by (rule kept_error_names)
        ultimately show ?thesis using held sent minted by (auto split: if_splits)
      qed
    qed
  qed
  then show "r = Inr w \<Longrightarrow> on_app s' ?obj ?key \<and> in_vault s' ?sec ?key" "\<And>k. on_app s' ?obj k \<Longrightarrow> on_app s ?obj k"
    "\<And>k. in_vault s' ?sec k \<Longrightarrow> in_vault s ?sec k \<or> k = ?key" "r = Inl u \<Longrightarrow> on_app s' ?obj ?key \<Longrightarrow> names_leftover ?key u"
    "r = Inl u \<Longrightarrow> in_vault s' ?sec ?key \<Longrightarrow> on_app s' ?obj ?key" by blast+
qed

lemma remove_previous_effect:
  assumes laws: "rotation_laws E on_app in_vault"
  shows "remove_previous E obj new_key ids removed w s = (removed', w', s') \<Longrightarrow>
     in_vault s' = in_vault s \<and> (on_app s' obj new_key \<longleftrightarrow> on_app s obj new_key)
     \<and> ((\<forall>d \<in> set removed. \<not> on_app s obj d) \<longrightarrow> (\<forall>d \<in> set removed'. \<not> on_app s' obj d))"
proof (induction ids arbitrary: removed w s)
  case (Cons k ids)
  show ?case
  proof (cases "k = new_key")
    case True
    with Cons show ?thesis by simp
  next
    case False
    obtain x s1 where x: "re_remove_password E obj k s = (x, s1)" by fastforce
    note eff = remove_lawD [OF laws x]
    show ?thesis
    proof (cases x)
      case (Inl e)
      with Cons.prems False x have "remove_previous E obj new_key ids removed
          (w @ [''failed to remove '' @ k @ '': '' @ http_error_text graph_flavour e]) s1 = (removed', w', s')" by simp
      from Cons.IH [OF this] eff False show ?thesis by (auto split: if_splits)
    next
      case (Inr u)
      with Cons.prems False x have "remove_previous E obj new_key ids (removed @ [k]) w s1 = (removed', w', s')" by simp
      from Cons.IH [OF this] eff False Inr show ?thesis by (auto split: if_splits)
    qed
  qed
qed simp

lemma remember_vault_views:
  assumes "rotation_laws E on_app in_vault" "remember_vault E tenant inp w s = (w', s')"
  shows "on_app s' = on_app s \<and> in_vault s' = in_vault s"
proof (cases "rci_app_id inp")
  case None
  with assms(2) show ?thesis by (simp add: remember_vault_def)
next
  case (Some a)
  let ?b = "\<lparr>vb_vault_name = rci_vault_name inp, vb_secret_name = Some (rci_secret_name inp)\<rparr>"
  from assms(2) Some have "s' = snd (re_remember E tenant a ?b s)"
    by (cases "re_remember E tenant a ?b s") (auto simp: remember_vault_def split: option.splits)
  with assms(1) show ?thesis by (simp add: rotation_laws_def)
qed

section \<open>Properties\<close>

text \<open>C15: A rotation never loses a secret.  Whatever the vault and the directory answer, within what they document: a rotation
  that succeeds leaves the new secret on the application and tagged in the vault, and each previous secret it reports removed
  is gone.  A rotation that fails leaves on the application every key its vault secret gained, so it never revokes what a consumer of the
  vault may read; and a client secret it leaves behind is named in an error that does not offer a retry, with the
  credential caches invalidated.  Only a mint that itself failed is outside that promise.\<close>

theorem rotation_never_loses_secret:
  assumes laws: "rotation_laws E on_app in_vault"
    and run: "rotate_app_credential_core E tenant inp c s = (r, c', s')"
  shows "case r of
      Inr res \<Rightarrow>
        on_app s' (rci_object_id inp) (rcr_new_key_id res) \<and> in_vault s' (rci_secret_name inp) (rcr_new_key_id res)
        \<and> (\<forall>d \<in> set (rcr_removed_key_ids res). \<not> on_app s' (rci_object_id inp) d)
        \<and> c' = invalidate_app_credentials tenant (rci_object_id inp) c
    | Inl err \<Rightarrow>
        (\<forall>k. in_vault s' (rci_secret_name inp) k \<and> \<not> in_vault s (rci_secret_name inp) k \<longrightarrow> on_app s' (rci_object_id inp) k)
        \<and> (\<forall>k. on_app s' (rci_object_id inp) k \<and> \<not> on_app s (rci_object_id inp) k \<longrightarrow>
             (\<exists>e s1 s2. re_add_password E (rci_object_id inp) (''rotated-'' @ re_today E) (lifetime_secs (rci_lifetime_days inp)) s1 = (Inl e, s2)
                \<and> err = ui_from_graph e)
             \<or> \<not> ue_retryable err \<and> contains_str (ue_message err) k \<and> c' = invalidate_app_credentials tenant (rci_object_id inp) c)"
proof (cases "validate_vault_name (re_quote E) (rci_vault_name inp)")
  case (Inl e)
  with run show ?thesis by (auto simp: rotate_app_credential_core_def)
next
  case (Inr valid)
  let ?obj = "rci_object_id inp" and ?sec = "rci_secret_name inp" and ?name = "''rotated-'' @ re_today E"
  obtain g s1 where g: "owner_gate E inp s = (g, s1)" by fastforce
  note gate = owner_gate_views [OF laws g]
  obtain a s2 where a: "re_add_password E ?obj ?name (lifetime_secs (rci_lifetime_days inp)) s1 = (a, s2)" by fastforce
  note mint = add_lawD [OF laws a]
  show ?thesis
  proof (cases g)
    case (Some e)
    with run Inr g gate show ?thesis by (auto simp: rotate_app_credential_core_def)
  next
    case None
    show ?thesis
    proof (cases a)
      case (Inl e)
      with run Inr g None a have "r = Inl (ui_from_graph e)" "c' = c" "s' = s2" by (auto simp: rotate_app_credential_core_def)
      with mint gate a Inl show ?thesis by auto
    next
      case added: (Inr cred)
      let ?key = "pc_key_id cred"
      from mint(2) [OF added] mint(1) gate have app2: "on_app s2 = (on_app s)(?obj := (on_app s ?obj)(?key := True))"
        and vault2: "in_vault s2 = in_vault s" "\<not> in_vault s2 ?sec ?key" by auto
      obtain m s3 where m: "store_minted E inp cred ?name s2 = (m, s3)" by fastforce
      from app2 have "on_app s2 ?obj ?key" by simp
      note stored = store_minted_effect [OF laws m this vault2(2)]
      show ?thesis
      proof (cases m)
        case (Inl u)
        with run Inr g None a added m have res: "r = Inl (us_err u)" "s' = s3"
          "c' = (if us_left_on_app u then invalidate_app_credentials tenant ?obj c else c)" by (auto simp: rotate_app_credential_core_def)
        have new: "k = ?key" if "on_app s3 ?obj k" "\<not> on_app s ?obj k" for k using stored(2) [OF that(1)] that(2) app2 by (auto split: if_splits)
        have "on_app s3 ?obj k" if "in_vault s3 ?sec k" "\<not> in_vault s ?sec k" for k
          using stored(3) [OF that(1)] stored(5) [OF Inl] that vault2 by auto
        moreover have "names_leftover ?key u" if "on_app s3 ?obj ?key" using stored(4) [OF Inl that] .
        ultimately show ?thesis using new res by (auto simp: names_leftover_def)
      next
        case (Inr w)
        obtain removed w4 s4 where p: "remove_previous E ?obj ?key (rci_remove_key_ids inp) [] w s3 = (removed, w4, s4)" by (metis prod_cases3)
        obtain w5 s5 where q: "remember_vault E tenant inp w4 s4 = (w5, s5)" by fastforce
        from run \<open>validate_vault_name (re_quote E) (rci_vault_name inp) = Inr valid\<close> g None a added m Inr p q
        have "r = Inr \<lparr>rcr_new_key_id = ?key, rcr_vault_name = rci_vault_name inp, rcr_secret_name = ?sec,
                 rcr_expires = map_option (re_rfc3339 E) (pc_end_date_time cred), rcr_removed_key_ids = removed, rcr_warnings = w5\<rparr>"
          "s' = s5" "c' = invalidate_app_credentials tenant ?obj c" by (auto simp: rotate_app_credential_core_def)
        with stored(1) [OF Inr] remove_previous_effect [OF laws p] remember_vault_views [OF laws q] show ?thesis by simp
      qed
    qed
  qed
qed

text \<open>A directory and a vault whose reply to the write is always lost after it landed.\<close>

type_synonym rotation_world = "(string \<times> string) list \<times> (string \<times> string) list"

definition demo_cred :: password_credential where
  "demo_cred = \<lparr>pc_key_id = ''k1'', pc_display_name = None, pc_hint = None, pc_start_date_time = None, pc_end_date_time = None,
     pc_secret_text = Some ''v''\<rparr>"

definition demo_version :: "string \<Rightarrow> secret_item" where
  "demo_version k = \<lparr>si_id = k, si_attributes = None, si_tags = Some [TAG_KEY_ID \<mapsto> k], si_content_type = None, si_managed = None\<rparr>"

definition demo_rotation :: "rotation_world rotation_env" where
  "demo_rotation = \<lparr>
     re_list_versions = (\<lambda>n s. (Inr (map (\<lambda>p. demo_version (snd p)) (filter (\<lambda>p. fst p = n) (snd s))), s)),
     re_set_secret = (\<lambda>n req s. (Inl (HNetwork ''reset''),
        case Option.bind (ssr_tags req) (\<lambda>t. t TAG_KEY_ID) of Some k \<Rightarrow> (fst s, (n, k) # snd s) | None \<Rightarrow> s)),
     re_add_password = (\<lambda>obj name secs s. if list_ex (\<lambda>p. snd p = ''k1'') (snd s) then (Inl HUnauthorized, s)
        else (Inr demo_cred, ((obj, ''k1'') # fst s, snd s))),
     re_remove_password = (\<lambda>obj k s. (Inr (), (filter (\<lambda>p. p \<noteq> (obj, k)) (fst s), snd s))),
     re_remember = (\<lambda>t a b s. (None, s)), re_quote = id, re_today = ''20260101'', re_rfc3339 = (\<lambda>_. [])\<rparr>"

definition demo_on_app :: "rotation_world \<Rightarrow> string \<Rightarrow> string \<Rightarrow> bool" where
  "demo_on_app s obj k \<longleftrightarrow> (obj, k) \<in> set (fst s)"

definition demo_in_vault :: "rotation_world \<Rightarrow> string \<Rightarrow> string \<Rightarrow> bool" where
  "demo_in_vault s n k \<longleftrightarrow> (n, k) \<in> set (snd s)"

lemma demo_version_key [simp]: "version_key (demo_version k) = Some k"
  by (simp add: version_key_def demo_version_def)

lemma demo_rotation_laws: "rotation_laws demo_rotation demo_on_app demo_in_vault"
proof -
  have "list_law demo_rotation demo_on_app demo_in_vault"
    by (auto simp: list_law_def demo_rotation_def demo_in_vault_def image_iff)
  moreover have "set_law demo_rotation demo_on_app demo_in_vault"
    by (auto simp: set_law_def demo_rotation_def demo_in_vault_def demo_on_app_def fun_eq_iff sent_nothing_def)
  moreover have "add_law demo_rotation demo_on_app demo_in_vault"
    by (auto simp: add_law_def demo_rotation_def demo_in_vault_def demo_on_app_def fun_eq_iff demo_cred_def list_ex_iff split: if_splits)
  moreover have "remove_law demo_rotation demo_on_app demo_in_vault"
    by (auto simp: remove_law_def demo_rotation_def demo_in_vault_def demo_on_app_def fun_eq_iff)
  ultimately show ?thesis by (simp add: rotation_laws_def demo_rotation_def)
qed

definition demo_rotate_input :: rotate_credential_input where
  "demo_rotate_input = \<lparr>rci_object_id = ''o'', rci_app_id = None, rci_vault_name = ''vault'', rci_secret_name = ''s'',
     rci_lifetime_days = None, rci_remove_key_ids = [''k0'', ''k1'']\<rparr>"

theorem rotation_never_loses_secret_witness:
  "\<forall>c :: ('j, 'a) cache. \<exists>res c' s'. rotate_app_credential_core demo_rotation ''t'' demo_rotate_input c ([(''o'', ''k0'')], []) = (Inr res, c', s')
     \<and> demo_on_app s' ''o'' (rcr_new_key_id res) \<and> demo_in_vault s' ''s'' (rcr_new_key_id res)
     \<and> rcr_removed_key_ids res = [''k0''] \<and> \<not> demo_on_app s' ''o'' ''k0''"
proof
  fix c :: "('j, 'a) cache"
  have "isl (validate_vault_name id ''vault'') = False" by code_simp
  then have valid: "validate_vault_name id ''vault'' = Inr ()" by (cases "validate_vault_name id ''vault''") auto
  have "\<exists>res c' s'. rotate_app_credential_core demo_rotation ''t'' demo_rotate_input c ([(''o'', ''k0'')], []) = (Inr res, c', s')
     \<and> rcr_removed_key_ids res = [''k0'']"
    using valid
    by (simp add: rotate_app_credential_core_def demo_rotate_input_def demo_rotation_def owner_gate_def current_owner_if_other_def
        demo_cred_def store_minted_def sent_nothing_def vault_holds_key_def remember_vault_def rotation_tags_key [simplified])
  then obtain res c' s' where run: "rotate_app_credential_core demo_rotation ''t'' demo_rotate_input c ([(''o'', ''k0'')], []) = (Inr res, c', s')"
    and "rcr_removed_key_ids res = [''k0'']" by blast
  with rotation_never_loses_secret [OF demo_rotation_laws run] show "\<exists>res c' s'.
     rotate_app_credential_core demo_rotation ''t'' demo_rotate_input c ([(''o'', ''k0'')], []) = (Inr res, c', s')
     \<and> demo_on_app s' ''o'' (rcr_new_key_id res) \<and> demo_in_vault s' ''s'' (rcr_new_key_id res)
     \<and> rcr_removed_key_ids res = [''k0''] \<and> \<not> demo_on_app s' ''o'' ''k0''"
    by (auto simp: demo_rotate_input_def)
qed

text \<open>C16: The ownership tags a rotation writes are read back by the next one as they were meant.  A version the rotation wrote
  stops the next rotation exactly when that one is for another application object, compared without case and outer
  blanks; the application's own versions never stop it.  And when any version that counts is tagged for another object, the
  rotation stops before it mints: the directory and the vault are as they were and so is the cache.\<close>

theorem rotation_ownership:
  "(owned_by_other_app (rotation_tags app obj key) obj' app' =
      (if to_ascii_lowercase (trim obj) = to_ascii_lowercase (trim obj') then None else Some (to_ascii_lowercase (trim obj))))
   \<and> (rotation_laws E on_app in_vault \<longrightarrow> rotate_app_credential_core E tenant inp c s = (r, c', s') \<longrightarrow>
      re_list_versions E (rci_secret_name inp) s = (Inr versions, s1) \<longrightarrow>
      (\<exists>v \<in> set versions. \<exists>t owner. si_tags v = Some t \<and> t TAG_OBJECT_ID = Some owner \<and> owner \<noteq> to_ascii_lowercase (trim (rci_object_id inp))
         \<and> (version_created v = None \<or> version_created v = newest_created (List.map_filter version_created (filter claims_an_owner versions)))) \<longrightarrow>
      isl r \<and> c' = c \<and> on_app s' = on_app s \<and> in_vault s' = in_vault s)"
proof (intro conjI impI)
  show "owned_by_other_app (rotation_tags app obj key) obj' app' =
      (if to_ascii_lowercase (trim obj) = to_ascii_lowercase (trim obj') then None else Some (to_ascii_lowercase (trim obj)))"
    by (auto simp: owned_by_other_app_def rotation_tags_def Let_def TAG_OBJECT_ID_def TAG_KEY_ID_def TAG_APP_ID_def split: option.splits)
next
  assume laws: "rotation_laws E on_app in_vault" and run: "rotate_app_credential_core E tenant inp c s = (r, c', s')"
    and vs: "re_list_versions E (rci_secret_name inp) s = (Inr versions, s1)"
    and foreign: "\<exists>v \<in> set versions. \<exists>t owner. si_tags v = Some t \<and> t TAG_OBJECT_ID = Some owner \<and> owner \<noteq> to_ascii_lowercase (trim (rci_object_id inp))
         \<and> (version_created v = None \<or> version_created v = newest_created (List.map_filter version_created (filter claims_an_owner versions)))"
  let ?judged = "filter (\<lambda>v. version_created v = None \<or> version_created v = newest_created (List.map_filter version_created (filter claims_an_owner versions)))
     (filter claims_an_owner versions)"
  let ?owner = "\<lambda>v. Option.bind (si_tags v) (\<lambda>t. owned_by_other_app t (rci_object_id inp) (rci_app_id inp))"
  from foreign obtain v t owner where v: "v \<in> set versions" "si_tags v = Some t" "t TAG_OBJECT_ID = Some owner"
    "owner \<noteq> to_ascii_lowercase (trim (rci_object_id inp))"
    "version_created v = None \<or> version_created v = newest_created (List.map_filter version_created (filter claims_an_owner versions))" by blast
  then have "claims_an_owner v" by (simp add: claims_an_owner_def)
  with v have "v \<in> set ?judged" "?owner v \<noteq> None" by (simp_all add: owned_by_other_app_def)
  then have "List.map_filter ?owner ?judged \<noteq> []" by (auto simp: List.map_filter_def filter_empty_conv)
  then obtain o' rest where "List.map_filter ?owner ?judged = o' # rest" by (cases "List.map_filter ?owner ?judged") auto
  then have "current_owner_if_other versions (rci_object_id inp) (rci_app_id inp) = Some o'"
    unfolding current_owner_if_other_def Let_def by (simp only: list.case)
  with vs obtain e where g: "owner_gate E inp s = (Some e, s1)" by (auto simp: owner_gate_def)
  from owner_gate_views [OF laws g] run g show "isl r" "c' = c" "on_app s' = on_app s" "in_vault s' = in_vault s"
    by (auto simp: rotate_app_credential_core_def split: sum.splits)
qed

definition foreign_rotation :: "rotation_world rotation_env" where
  "foreign_rotation = demo_rotation\<lparr>re_list_versions := (\<lambda>n s. (Inr (demo_version ''k9''\<lparr>si_tags := Some (rotation_tags None '' O2 '' ''k9'')\<rparr>
     # map (\<lambda>p. demo_version (snd p)) (filter (\<lambda>p. fst p = n) (snd s))), s))\<rparr>"

definition foreign_in_vault :: "rotation_world \<Rightarrow> string \<Rightarrow> string \<Rightarrow> bool" where
  "foreign_in_vault s n k \<longleftrightarrow> k = ''k9'' \<or> (n, k) \<in> set (snd s)"

lemma foreign_rotation_laws: "rotation_laws foreign_rotation demo_on_app foreign_in_vault"
proof -
  note defs = foreign_rotation_def demo_rotation_def foreign_in_vault_def demo_on_app_def fun_eq_iff
  have "version_key (demo_version ''k9''\<lparr>si_tags := Some (rotation_tags None '' O2 '' ''k9'')\<rparr>) = Some ''k9''" by (simp add: version_key_def)
  then have "list_law foreign_rotation demo_on_app foreign_in_vault" by (auto simp: list_law_def defs image_iff)
  moreover have "set_law foreign_rotation demo_on_app foreign_in_vault" by (auto simp: set_law_def defs sent_nothing_def)
  moreover have "add_law foreign_rotation demo_on_app foreign_in_vault"
    by (auto simp: add_law_def defs demo_cred_def list_ex_iff split: if_splits)
  moreover have "remove_law foreign_rotation demo_on_app foreign_in_vault" by (auto simp: remove_law_def defs)
  ultimately show ?thesis by (simp add: rotation_laws_def defs)
qed

theorem rotation_ownership_witness:
  "\<forall>c :: ('j, 'a) cache. isl (fst (rotate_app_credential_core foreign_rotation ''t'' demo_rotate_input c ([], [])))"
proof
  fix c :: "('j, 'a) cache"
  let ?v = "demo_version ''k9''\<lparr>si_tags := Some (rotation_tags None '' O2 '' ''k9'')\<rparr>"
  obtain r c' s' where run: "rotate_app_credential_core foreign_rotation ''t'' demo_rotate_input c ([], []) = (r, c', s')" by (metis prod_cases3)
  have vs: "re_list_versions foreign_rotation (rci_secret_name demo_rotate_input) ([], []) = (Inr [?v], ([], []))"
    by (simp add: foreign_rotation_def)
  have "to_ascii_lowercase (trim '' O2 '') = ''o2''" "to_ascii_lowercase (trim ''o'') = ''o''" by code_simp+
  then have "\<exists>v \<in> set [?v]. \<exists>t owner. si_tags v = Some t \<and> t TAG_OBJECT_ID = Some owner
      \<and> owner \<noteq> to_ascii_lowercase (trim (rci_object_id demo_rotate_input))
      \<and> (version_created v = None \<or> version_created v = newest_created (List.map_filter version_created (filter claims_an_owner [?v])))"
    by (simp add: demo_version_def version_created_def demo_rotate_input_def rotation_tags_def own_app_id_def Let_def TAG_OBJECT_ID_def TAG_KEY_ID_def)
  from rotation_ownership [THEN conjunct2, rule_format, OF foreign_rotation_laws run vs this]
  show "isl (fst (rotate_app_credential_core foreign_rotation ''t'' demo_rotate_input c ([], [])))" by (simp add: run)
qed

section \<open>The client keeps the law on unsent writes\<close>

text \<open>\<open>set_law\<close> asks that a write whose error claims it was not sent changes nothing.  The Key Vault client satisfies that for
  every view of the server that only requests change, whatever the server does.\<close>

lemma set_secret_unsent:
  fixes view :: "'s \<Rightarrow> 'v"
  assumes call: "set_secret K encode decode n req s = (Inl e, s')" and unsent: "sent_nothing e"
    and bearer: "\<And>s. view (snd (hn_bearer (kc_net K) s)) = view s"
  shows "view s' = view s"
proof (cases "(\<exists>u. validate_secret_name (kc_quote K) n = Inr u) \<and> (\<exists>b. encode req = Inr b)")
  case True
  then obtain u b where "validate_secret_name (kc_quote K) n = Inr u" "encode req = Inr b" by blast
  moreover obtain x s1 where x: "kv_send_core K PUT (''/secrets/'' @ n) (Some b) s = (x, s1)" by fastforce
  ultimately have "decode_json decode x = Inl e" "s' = s1" using call by (auto simp: set_secret_def)
  with unsent have "x = Inl e" by (cases x) (auto simp: decode_json_def sent_nothing_def map_sum_def split: sum.splits)
  with x have "kv_send_core K PUT (''/secrets/'' @ n) (Some b) s = (Inl e, s1)" by simp
  from keyvault_unsent [OF this [unfolded kv_send_core_def] unsent, of view] bearer \<open>s' = s1\<close> show ?thesis by simp
next
  case False
  with call show ?thesis by (auto simp: set_secret_def split: sum.splits)
qed

text \<open>C14: \<open>sent_nothing\<close> is sound for a write to Key Vault.  When \<open>set_secret\<close>, or any single request of the client under it, fails with
  an error it accepts, no request reached the socket, whatever the provider, the server and the retries did.  And the name
  of the secret is checked first: with a name that is empty, longer than 127 or not made of letters, digits and dashes,
  neither the write nor the listing of its versions does anything at all, not even ask for a token, and the error says so.
  The rotation of a credential relies on it before it may remove the secret it just minted.\<close>

theorem unsent_write_sound:
  fixes sends :: "'s \<Rightarrow> nat"
  assumes bearer: "\<And>s. sends (snd (hn_bearer (kc_net K) s)) = sends s"
  shows "(\<forall>e s'. set_secret K encode decode n req s = (Inl e, s') \<and> sent_nothing e \<longrightarrow> sends s' = sends s)
     \<and> (\<forall>method url attach body check e s'.
          keyvault_send_core_url (kc_net K) (kc_parse K) (kc_base_url K) (kc_api_version K) (kc_max_body K) (kc_nanos K) method url attach body check s
            = (Inl e, s') \<and> sent_nothing e \<longrightarrow> sends s' = sends s)
     \<and> (\<not> (n \<noteq> [] \<and> length n \<le> 127 \<and> list_all (\<lambda>c. is_ascii_alnum c \<or> c = CHR ''-'') n) \<longrightarrow>
          (\<exists>e. set_secret K encode decode n req s = (Inl e, s) \<and> list_secret_versions K decode_list n s = (Inl e, s) \<and> sent_nothing e))"
proof (intro conjI allI impI)
  fix e s' assume "set_secret K encode decode n req s = (Inl e, s') \<and> sent_nothing e"
  then show "sends s' = sends s" using set_secret_unsent [of K encode decode n req s e s' sends] bearer by blast
next
  fix m url attach body check e s'
  assume "keyvault_send_core_url (kc_net K) (kc_parse K) (kc_base_url K) (kc_api_version K) (kc_max_body K) (kc_nanos K) m url attach body check s
      = (Inl e, s') \<and> sent_nothing e"
  then show "sends s' = sends s" using keyvault_unsent [of "kc_net K" _ _ _ _ _ _ _ _ _ _ s e s' sends] bearer by blast
next
  assume "\<not> (n \<noteq> [] \<and> length n \<le> 127 \<and> list_all (\<lambda>c. is_ascii_alnum c \<or> c = CHR ''-'') n)"
  then obtain m where "validate_secret_name (kc_quote K) n = Inl (HExtra m)" by (cases n) (auto simp: validate_secret_name_def)
  then show "\<exists>e. set_secret K encode decode n req s = (Inl e, s) \<and> list_secret_versions K decode_list n s = (Inl e, s) \<and> sent_nothing e"
    by (simp add: set_secret_def list_secret_versions_def sent_nothing_def)
qed

text \<open>A signed-out session in front of a server that counts the requests it gets.\<close>

definition signed_out_net :: "nat http_net" where
  "signed_out_net = \<lparr>hn_bearer = (\<lambda>s. (Inl \<lparr>te_code = ''refresh_missing'', te_message = ''gone''\<rparr>, s)),
     hn_bearer_with_claims = (\<lambda>c s. (Inr [], s)), hn_header_value = (\<lambda>v. None),
     hn_send = (\<lambda>rq s. (NoResponse (''reset'', []), Suc s)), hn_on_throttle = (\<lambda>ra s. s)\<rparr>"

definition signed_out_vault :: "(nat, unit) keyvault_client" where
  "signed_out_vault = \<lparr>kc_net = signed_out_net, kc_base_url = ''https://v'', kc_api_version = ''7.4'', kc_max_body = 100, kc_parse = (\<lambda>u. None),
     kc_nanos = (\<lambda>_. 0), kc_quote = id\<rparr>"

definition demo_write :: secret_set_request where
  "demo_write = \<lparr>ssr_value = ''v'', ssr_content_type = None, ssr_tags = None, ssr_attributes = None\<rparr>"

theorem unsent_write_sound_witness:
  "\<exists>e s'. set_secret signed_out_vault (\<lambda>_. Inr ''b'') (\<lambda>_. Inl ''x'') ''db-password'' demo_write 0 = (Inl e, s') \<and> sent_nothing e \<and> s' = 0
     \<and> (\<exists>e. set_secret signed_out_vault (\<lambda>_. Inr ''b'') (\<lambda>_. Inl ''x'') ''a/b'' demo_write 0 = (Inl e, 0) \<and> sent_nothing e)"
proof -
  let ?e = "HToken \<lparr>te_code = ''refresh_missing'', te_message = ''gone''\<rparr>"
  have "validate_secret_name id ''db-password'' = Inr ()" by code_simp
  then have call: "set_secret signed_out_vault (\<lambda>_. Inr ''b'') (\<lambda>_. Inl ''x'') ''db-password'' demo_write 0 = (Inl ?e, 0)"
    by (simp add: set_secret_def kv_send_core_def keyvault_send_core_url_def signed_out_vault_def signed_out_net_def decode_json_def)
  have quiet: "id (snd (hn_bearer (kc_net signed_out_vault) s)) = id s" for s by (simp add: signed_out_vault_def signed_out_net_def)
  have "\<not> list_all (\<lambda>c. is_ascii_alnum c \<or> c = CHR ''-'') ''a/b''" by code_simp
  then have "\<exists>e. set_secret signed_out_vault (\<lambda>_. Inr ''b'') (\<lambda>_. Inl ''x'') ''a/b'' demo_write 0 = (Inl e, 0) \<and> sent_nothing e"
    using unsent_write_sound [of id signed_out_vault "\<lambda>_. Inr ''b''" "\<lambda>_. Inl ''x''" "''a/b''" demo_write 0 "\<lambda>_. Inl ''x''", OF quiet] by blast
  with call show ?thesis by (auto simp: sent_nothing_def)
qed

end
