(* ===== verification/Trust_Inputs.thy ===== *)
theory Trust_Inputs
  imports Graph_Transport
begin

text \<open>
  The checks on values that decide whom an application trusts: redirect and logout URLs
  (\<^verbatim>\<open>src/crates/azapptoolkit-core/src/redirect.rs\<close>) and federated identity credentials
  (\<^verbatim>\<open>src/crates/azapptoolkit-core/src/federation.rs\<close>).  \<open>quote\<close> is the \<open>Debug\<close> form of a string.

  An accepted issuer names the host it shows: \<open>url_host\<close> reads the host after a literal \<open>https://\<close>, with the authority ended by the
  first of slash, backslash, question mark and number sign.  The accepted redirect and logout URLs are characterised on
  their texts; they include some whose host is hidden from the check.
\<close>

section \<open>The host a parser reads\<close>

definition AUTHORITY_ENDS :: "char list" where
  "AUTHORITY_ENDS = [CHR ''/'', CHR ''?'', CHR ''#'', CHR 0x5C]"

definition url_authority :: "string \<Rightarrow> string" where
  "url_authority rest = takeWhile (\<lambda>c. c \<notin> set AUTHORITY_ENDS) rest"

definition authority_host :: "string \<Rightarrow> string" where
  "authority_host a =
     (let h = last (split_on (CHR ''@'') a)
      in if starts_with h ''['' then takeWhile (\<lambda>c. c \<noteq> CHR '']'') (tl h) else takeWhile (\<lambda>c. c \<noteq> CHR '':'') h)"

definition url_host :: "string \<Rightarrow> string \<Rightarrow> string option" where
  "url_host scheme u =
     (let lower = to_ascii_lowercase u
      in if starts_with lower scheme then Some (authority_host (url_authority (drop (length scheme) lower))) else None)"

section \<open>Redirect URIs\<close>

definition MAX_REDIRECT_URI_LEN :: nat where
  "MAX_REDIRECT_URI_LEN = 256"

definition redirect_host :: "string \<Rightarrow> string" where
  "redirect_host rest =
     (let authority = last (split_on (CHR ''@'') (hd (split_on (CHR ''/'') rest)))
      in if starts_with authority ''['' then hd (split_on (CHR '']'') (tl authority)) else hd (split_on (CHR '':'') authority))"

definition validate_redirect_uri :: "string \<Rightarrow> string + unit" where
  "validate_redirect_uri uri =
     (let u = trim uri; len = length (utf8_chars u); lower = to_ascii_lowercase u
      in if u = [] then Inl ''redirect URI is empty''
         else if MAX_REDIRECT_URI_LEN < len
         then Inl (''redirect URI is '' @ show_nat len @ '' characters; Entra allows at most '' @ show_nat MAX_REDIRECT_URI_LEN @ '': '' @ uri)
         else if CHR ''*'' \<in> set u then Inl (''wildcard redirect URIs are not allowed: '' @ uri)
         else if starts_with lower ''urn:''
         then Inl (''insecure '' @ [CHR 0x27] @ ''urn:'' @ [CHR 0x27] @ '' redirect URIs are not allowed: '' @ uri)
         else if starts_with lower ''http://'' then
           (let host = redirect_host (drop 7 lower)
            in if host = ''::1''
               then Inl (''Entra doesn't support the IPv6 loopback address [::1] in redirect URIs; use http://localhost or http://127.0.0.1: '' @ uri)
               else if host \<notin> {''localhost'', ''127.0.0.1''} then Inl (''insecure http redirect URIs are not allowed (use https): '' @ uri)
               else Inr ())
         else Inr ())"

definition validate_logout_url :: "string \<Rightarrow> string + unit" where
  "validate_logout_url url =
     (case validate_redirect_uri url of
        Inl e \<Rightarrow> Inl e
      | Inr _ \<Rightarrow>
          (let lower = to_ascii_lowercase (trim url)
           in if starts_with lower ''https://'' \<or> starts_with lower ''http://'' then Inr ()
              else Inl (''front-channel logout URL must be an https address: '' @ url)))"

fun validate_redirect_uris :: "string list \<Rightarrow> string + unit" where
  "validate_redirect_uris [] = Inr ()"
| "validate_redirect_uris (u # uris) = (case validate_redirect_uri u of Inl e \<Rightarrow> Inl e | Inr _ \<Rightarrow> validate_redirect_uris uris)"

section \<open>Federated credentials\<close>

definition MAX_FIELD_LEN :: nat where
  "MAX_FIELD_LEN = 600"

definition NAME_MIN_LEN :: nat where
  "NAME_MIN_LEN = 3"

definition NAME_MAX_LEN :: nat where
  "NAME_MAX_LEN = 120"

definition ascii_alnum :: "char \<Rightarrow> bool" where
  "ascii_alnum c \<longleftrightarrow> is_ascii_alpha c \<or> is_digit c"

text \<open>A predicate on ASCII characters, of a character given by its bytes.\<close>

definition ascii_char :: "(char \<Rightarrow> bool) \<Rightarrow> string \<Rightarrow> bool" where
  "ascii_char p c \<longleftrightarrow> (case c of [a] \<Rightarrow> p a | _ \<Rightarrow> False)"

definition validate_credential_name :: "string \<Rightarrow> string + unit" where
  "validate_credential_name name =
     (let len = length (utf8_chars name)
      in if \<not> (NAME_MIN_LEN \<le> len \<and> len \<le> NAME_MAX_LEN)
         then Inl (''credential name must be '' @ show_nat NAME_MIN_LEN @ ''-'' @ show_nat NAME_MAX_LEN @ '' characters (got '' @ show_nat len @ '')'')
         else if \<not> (case utf8_chars name of [] \<Rightarrow> False | c # _ \<Rightarrow> ascii_char ascii_alnum c)
         then Inl (''credential name must start with a letter or digit: '' @ name)
         else (case List.find (\<lambda>c. \<not> ascii_char (\<lambda>a. ascii_alnum a \<or> a = CHR ''-'' \<or> a = CHR ''_'') c) (utf8_chars name) of
                 Some bad \<Rightarrow>
                   Inl (''credential name may only contain letters, digits, '' @ [CHR 0x27] @ ''-'' @ [CHR 0x27] @ '' and '' @ [CHR 0x27] @ ''_'' @ [CHR 0x27]
                        @ '' (found '' @ [CHR 0x27] @ bad @ [CHR 0x27] @ ''): '' @ name)
               | None \<Rightarrow> Inr ()))"

definition hex_digit_upper :: "nat \<Rightarrow> char" where
  "hex_digit_upper n = (if n < 10 then char_of (48 + n) else char_of (55 + n))"

text \<open>The code point of a control character, all of which are below 256, as four hexadecimal digits.\<close>

definition control_code_text :: "string \<Rightarrow> string" where
  "control_code_text c =
     (let n = of_char (last c) :: nat in ''00'' @ [hex_digit_upper (n div 16), hex_digit_upper (n mod 16)])"

definition validate_field :: "(string \<Rightarrow> string) \<Rightarrow> string \<Rightarrow> string \<Rightarrow> string + unit" where
  "validate_field quote label v =
     (if trim v = [] then Inl (label @ '' is required'')
      else if MAX_FIELD_LEN < length (utf8_chars v) then Inl (label @ '' is longer than '' @ show_nat MAX_FIELD_LEN @ '' characters'')
      else if trim v \<noteq> v then Inl (label @ '' has leading or trailing whitespace, which silently blocks the token exchange: '' @ quote v)
      else if CHR ''*'' \<in> set v then Inl (label @ '' may not contain a wildcard: '' @ v)
      else (case List.find is_control (utf8_chars v) of
              Some bad \<Rightarrow> Inl (label @ '' contains a control character (U+'' @ control_code_text bad @ '')'')
            | None \<Rightarrow> Inr ()))"

definition port_ok :: "string \<Rightarrow> bool" where
  "port_ok p \<longleftrightarrow> p \<noteq> [] \<and> length p \<le> 5 \<and> list_all is_digit p \<and> parse_digits (2 ^ 16) 0 p \<noteq> None"

definition is_host_and_port :: "string \<Rightarrow> bool" where
  "is_host_and_port authority \<longleftrightarrow>
     (if starts_with authority ''['' then
        (case split_once (CHR '']'') (tl authority) of
           None \<Rightarrow> False
         | Some (addr, after) \<Rightarrow>
             addr \<noteq> [] \<and> list_all (\<lambda>c. is_hexdigit c \<or> c = CHR '':'' \<or> c = CHR ''.'') addr
             \<and> (after = [] \<or> port_ok (if starts_with after '':'' then tl after else [])))
      else
        (let (host, port) = (case split_once (CHR '':'') authority of Some (h, p) \<Rightarrow> (h, Some p) | None \<Rightarrow> (authority, None))
         in host \<noteq> [] \<and> list_all (\<lambda>c. ascii_alnum c \<or> c = CHR ''.'' \<or> c = CHR ''-'') host
            \<and> (case port of None \<Rightarrow> True | Some p \<Rightarrow> port_ok p)))"

definition validate_issuer :: "(string \<Rightarrow> string) \<Rightarrow> string \<Rightarrow> string + unit" where
  "validate_issuer quote issuer =
     (case validate_field quote ''issuer'' issuer of
        Inl e \<Rightarrow> Inl e
      | Inr _ \<Rightarrow>
          (let lower = to_ascii_lowercase issuer;
               authority = takeWhile (\<lambda>c. c \<notin> {CHR ''/'', CHR ''?'', CHR ''#''}) (drop 8 lower)
           in if \<not> starts_with lower ''https://''
              then Inl (''issuer must be an https URL (the external provider's OpenID Connect issuer): '' @ issuer)
              else if CHR 0x5C \<in> set issuer
              then Inl (''issuer URL contains a backslash, which some parsers read as '' @ [CHR 0x27] @ ''/'' @ [CHR 0x27]
                        @ '' and so hides the host the keys are actually fetched from: '' @ issuer)
              else if has_whitespace issuer then Inl (''issuer URL contains whitespace: '' @ quote issuer)
              else if authority = [] then Inl (''issuer URL has no host: '' @ issuer)
              else if CHR ''@'' \<in> set authority
              then Inl (''issuer URL embeds credentials, which hide the host the keys are actually fetched from: '' @ issuer)
              else if \<not> is_host_and_port authority
              then Inl (''issuer URL host must be a plain host name (letters, digits, '' @ [CHR 0x27] @ ''.'' @ [CHR 0x27] @ '', '' @ [CHR 0x27] @ ''-'' @ [CHR 0x27]
                        @ ''; punycode for an internationalised name) with an optional port: '' @ issuer)
              else Inr ()))"

fun validate_audiences :: "(string \<Rightarrow> string) \<Rightarrow> string list \<Rightarrow> string + unit" where
  "validate_audiences quote [] = Inr ()"
| "validate_audiences quote (a # auds) = (case validate_field quote ''audience'' a of Inl e \<Rightarrow> Inl e | Inr _ \<Rightarrow> validate_audiences quote auds)"

definition validate_federated_credential ::
  "(string \<Rightarrow> string) \<Rightarrow> string option \<Rightarrow> string \<Rightarrow> string \<Rightarrow> string list \<Rightarrow> string option \<Rightarrow> string + unit" where
  "validate_federated_credential quote name issuer subject audiences description =
     (case (case name of Some n \<Rightarrow> validate_credential_name n | None \<Rightarrow> Inr ()) of Inl e \<Rightarrow> Inl e | Inr _ \<Rightarrow>
      case validate_issuer quote issuer of Inl e \<Rightarrow> Inl e | Inr _ \<Rightarrow>
      case validate_field quote ''subject'' subject of Inl e \<Rightarrow> Inl e | Inr _ \<Rightarrow>
      if audiences = []
      then Inl (''at least one audience is required (Entra recommends '' @ [CHR 0x27] @ ''api://AzureADTokenExchange'' @ [CHR 0x27] @ '')'')
      else if 1 < length audiences
      then Inl (''exactly one audience is allowed '' @ em_dash @ '' Entra accepts a single value (got '' @ show_nat (length audiences) @ '')'')
      else case validate_audiences quote audiences of Inl e \<Rightarrow> Inl e | Inr _ \<Rightarrow>
      (case description of
         Some d \<Rightarrow> if MAX_FIELD_LEN < length (utf8_chars d) then Inl (''description is longer than '' @ show_nat MAX_FIELD_LEN @ '' characters'') else Inr ()
       | None \<Rightarrow> Inr ()))"

section \<open>Lemmas on the helpers\<close>

lemma ascii_lower_eq:
  assumes "(of_char d :: nat) < 65 \<or> 90 < (of_char d :: nat) \<and> (of_char d :: nat) < 97 \<or> 122 < (of_char d :: nat)"
  shows "ascii_lower c = d \<longleftrightarrow> c = d"
proof -
  have "of_char (char_of ((of_char c :: nat) + 32)) = (of_char c :: nat) + 32" if "(of_char c :: nat) \<le> 90"
    using that by simp
  then show ?thesis using assms unfolding ascii_lower_def by (auto split: if_splits)
qed

lemma lower_keeps_special:
  assumes "d \<in> {CHR ''/'', CHR ''?'', CHR ''#'', CHR 0x5C, CHR ''@'', CHR '':''}"
  shows "d \<in> set (to_ascii_lowercase s) \<longleftrightarrow> d \<in> set s"
proof -
  have "\<And>c. ascii_lower c = d \<longleftrightarrow> c = d" by (rule ascii_lower_eq) (use assms in auto)
  then have "d \<in> ascii_lower ` set s \<longleftrightarrow> d \<in> set s" by (metis image_iff)
  then show ?thesis by (simp add: to_ascii_lowercase_def)
qed

lemma url_host_https:
  "url_host ''https://'' u = (let l = to_ascii_lowercase u in if starts_with l ''https://'' then Some (authority_host (url_authority (drop 8 l))) else None)"
  by (simp add: url_host_def Let_def numeral_eq_Suc)

lemma takeWhile_without: "e \<notin> set s \<Longrightarrow> takeWhile (\<lambda>c. P c \<and> c \<noteq> e) s = takeWhile P s"
  by (induction s) auto

section \<open>Properties\<close>

text \<open>What an issuer check that passed gives: the shape of the authority.\<close>

lemma validate_issuer_ok:
  assumes "validate_issuer quote issuer = Inr ()"
  defines "a \<equiv> takeWhile (\<lambda>c. c \<notin> {CHR ''/'', CHR ''?'', CHR ''#''}) (drop 8 (to_ascii_lowercase issuer))"
  shows "starts_with (to_ascii_lowercase issuer) ''https://''" "CHR 0x5C \<notin> set issuer" "\<not> has_whitespace issuer"
    "a \<noteq> []" "CHR ''@'' \<notin> set a" "is_host_and_port a" "validate_field quote ''issuer'' issuer = Inr ()"
  using assms by (auto simp: validate_issuer_def Let_def split: if_splits sum.splits)

lemma host_and_port_shape:
  assumes "is_host_and_port a" "CHR ''@'' \<notin> set a"
  shows "\<exists>port. a = (if starts_with a ''['' then ''['' @ authority_host a @ '']'' else authority_host a) @ port
     \<and> authority_host a \<noteq> [] \<and> (port = [] \<or> (\<exists>ds. port = '':'' @ ds \<and> port_ok ds))
     \<and> list_all (\<lambda>c. ascii_alnum c \<or> c \<in> set ''.:-'') (authority_host a)"
proof (cases "starts_with a ''[''")
  case True
  with assms(1) obtain addr after where split: "split_once (CHR '']'') (tl a) = Some (addr, after)" and ok: "addr \<noteq> []"
    "list_all (\<lambda>c. is_hexdigit c \<or> c = CHR '':'' \<or> c = CHR ''.'') addr" "after = [] \<or> port_ok (if starts_with after '':'' then tl after else [])"
    by (auto simp: is_host_and_port_def split: option.splits)
  from True have a: "a = CHR ''['' # tl a" by (cases a) (auto simp: starts_with_def)
  have host: "authority_host a = addr"
    using True split_once_SomeD [OF split] by (auto simp: authority_host_def last_split_on_absent [OF assms(2)] takeWhile_tail)
  have "port_ok [] = False" by (simp add: port_ok_def)
  with ok(3) have "after = [] \<or> (\<exists>ds. after = '':'' @ ds \<and> port_ok ds)"
    by (cases after) (auto simp: starts_with_def split: if_splits)
  moreover have "is_hexdigit c \<Longrightarrow> ascii_alnum c" for c by (auto simp: is_hexdigit_def ascii_alnum_def is_ascii_alpha_def Let_def)
  then have "list_all (\<lambda>c. ascii_alnum c \<or> c \<in> set ''.:-'') addr" using ok(2) by (auto simp: list_all_iff)
  moreover have "a = ''['' @ addr @ '']'' @ after" using split_once_SomeD [OF split] a by simp
  ultimately show ?thesis using True host ok(1) by (intro exI [of _ after]) simp
next
  case False
  have host: "authority_host a = takeWhile (\<lambda>c. c \<noteq> CHR '':'') a"
    using False by (simp add: authority_host_def last_split_on_absent [OF assms(2)])
  show ?thesis
  proof (cases "split_once (CHR '':'') a")
    case None
    from split_once_NoneD [OF this] have "authority_host a = a" unfolding host by (induction a) auto
    with False None assms(1) show ?thesis by (auto simp: is_host_and_port_def list_all_iff)
  next
    case (Some hp)
    obtain h p where hp: "hp = (h, p)" by (cases hp)
    from split_once_SomeD [OF Some [unfolded hp]] have eq: "a = h @ '':'' @ p" and "\<forall>c \<in> set h. c \<noteq> CHR '':''" by auto
    then have "takeWhile (\<lambda>c. c \<noteq> CHR '':'') a = h" by (simp add: takeWhile_append2)
    then have "authority_host a = h" using host by simp
    with eq False Some hp assms(1) show ?thesis
      by (intro exI [of _ "'':'' @ p"]) (auto simp: is_host_and_port_def list_all_iff)
  qed
qed

text \<open>C17: A federated credential is accepted only when the issuer names the host it shows.  After \<open>https://\<close> come exactly the
  host that a URL parser reads, in brackets when it is an IPv6 literal, an optional port that fits 16 bits, and then a path, a
  query or a fragment or nothing: no credentials, no backslash, no white space and no wildcard can put another host there.
  The credential has exactly one audience, and issuer, subject and audience carry no outer blanks.\<close>

theorem accepted_issuer_names_its_host:
  assumes "validate_federated_credential quote name issuer subject audiences description = Inr ()"
  shows "\<exists>host port rest. url_host ''https://'' issuer = Some host
     \<and> (to_ascii_lowercase issuer = ''https://'' @ host @ port @ rest \<or> to_ascii_lowercase issuer = ''https://['' @ host @ '']'' @ port @ rest)
     \<and> host \<noteq> [] \<and> list_all (\<lambda>c. ascii_alnum c \<or> c \<in> set ''.:-'') host
     \<and> (port = [] \<or> (\<exists>ds. port = '':'' @ ds \<and> port_ok ds))
     \<and> (rest = [] \<or> hd rest \<in> {CHR ''/'', CHR ''?'', CHR ''#''})
     \<and> CHR ''*'' \<notin> set issuer \<and> (\<exists>a. audiences = [a] \<and> trim a = a \<and> a \<noteq> []) \<and> trim subject = subject \<and> subject \<noteq> []"
proof -
  let ?l = "to_ascii_lowercase issuer" and ?stop = "\<lambda>c. c \<notin> {CHR ''/'', CHR ''?'', CHR ''#''}"
  define a where "a = takeWhile ?stop (drop 8 ?l)"
  from assms have issuer: "validate_issuer quote issuer = Inr ()" and subj: "validate_field quote ''subject'' subject = Inr ()"
    and auds: "length audiences = 1" "validate_audiences quote audiences = Inr ()"
    by (auto simp: validate_federated_credential_def split: sum.splits if_splits option.splits intro: le_antisym Suc_leI)
  note ok = validate_issuer_ok [OF issuer, folded a_def]
  have field: "trim v = v \<and> v \<noteq> [] \<and> CHR ''*'' \<notin> set v" if "validate_field quote label v = Inr ()" for label v
    using that by (auto simp: validate_field_def split: if_splits)
  have "CHR 0x5C \<notin> set (drop 8 ?l)" using ok(2) lower_keeps_special [of "CHR 0x5C" issuer] by (auto dest: in_set_dropD)
  from takeWhile_without [OF this, of ?stop] have auth: "url_authority (drop 8 ?l) = a"
    unfolding a_def url_authority_def AUTHORITY_ENDS_def by (simp add: conj_assoc)
  then have host: "url_host ''https://'' issuer = Some (authority_host a)" using ok(1) by (simp add: url_host_https Let_def del: starts_with_code)
  from host_and_port_shape [OF ok(6,5)] obtain port where shape:
    "a = (if starts_with a ''['' then ''['' @ authority_host a @ '']'' else authority_host a) @ port"
    "authority_host a \<noteq> []" "port = [] \<or> (\<exists>ds. port = '':'' @ ds \<and> port_ok ds)"
    "list_all (\<lambda>c. ascii_alnum c \<or> c \<in> set ''.:-'') (authority_host a)" by blast
  define rest where "rest = dropWhile ?stop (drop 8 ?l)"
  have len: "length ''https://'' = 8" by simp
  have "?l = ''https://'' @ drop 8 ?l" using starts_with_drop [OF ok(1)] unfolding len .
  also have "drop 8 ?l = a @ rest" by (simp add: a_def rest_def)
  finally have l: "?l = ''https://'' @ a @ rest" .
  have "rest = [] \<or> hd rest \<in> {CHR ''/'', CHR ''?'', CHR ''#''}" using hd_dropWhile [of ?stop "drop 8 ?l"] unfolding rest_def by blast
  moreover have "?l = ''https://'' @ authority_host a @ port @ rest \<or> ?l = ''https://['' @ authority_host a @ '']'' @ port @ rest"
  proof (cases "starts_with a ''[''")
    case True
    then have "a = ''['' @ authority_host a @ '']'' @ port" using shape(1) by (simp only: if_True append.assoc)
    then have "a @ rest = ''['' @ authority_host a @ '']'' @ port @ rest" by (metis append.assoc)
    with l show ?thesis by simp
  next
    case False
    then have "a = authority_host a @ port" using shape(1) by (simp only: if_False)
    then have "a @ rest = authority_host a @ port @ rest" by (metis append.assoc)
    with l show ?thesis by simp
  qed
  moreover have "\<exists>a. audiences = [a] \<and> trim a = a \<and> a \<noteq> []"
  proof -
    from auds(1) obtain x where x: "audiences = [x]" by (cases audiences) auto
    with auds(2) have "validate_field quote ''audience'' x = Inr ()" by (auto split: sum.splits)
    with x field show ?thesis by blast
  qed
  ultimately show ?thesis using host shape(2-4) field [OF ok(7)] field [OF subj]
    by - (rule exI [of _ "authority_host a"], rule exI [of _ port], rule exI [of _ rest], simp)
qed

text \<open>What may follow \<open>http://\<close> in an accepted URI, on the text itself: up to the first slash an optional part that ends with an at
  sign, then \<open>localhost\<close> or \<open>127.0.0.1\<close> with nothing or a colon after it, or the same behind an opening bracket with nothing
  or a closing one after it.\<close>

definition LOOPBACK_NAMES :: "string set" where
  "LOOPBACK_NAMES = {''localhost'', ''127.0.0.1''}"

definition loopback_authority :: "string \<Rightarrow> bool" where
  "loopback_authority r \<longleftrightarrow>
     (\<exists>userinfo host tail path. r = userinfo @ host @ tail @ path \<and> (userinfo = [] \<or> last userinfo = CHR ''@'')
        \<and> CHR ''/'' \<notin> set (userinfo @ host @ tail) \<and> CHR ''@'' \<notin> set (host @ tail) \<and> (path = [] \<or> hd path = CHR ''/'')
        \<and> (host \<in> LOOPBACK_NAMES \<and> (tail = [] \<or> hd tail = CHR '':'')
           \<or> host \<in> (#) (CHR ''['') ` LOOPBACK_NAMES \<and> (tail = [] \<or> hd tail = CHR '']'')))"

lemma loopback_names: "n \<in> LOOPBACK_NAMES \<Longrightarrow> CHR '':'' \<notin> set n \<and> CHR '']'' \<notin> set n \<and> n \<noteq> [] \<and> hd n \<noteq> CHR ''[''"
  by (auto simp: LOOPBACK_NAMES_def)

lemma takeWhile_until:
  assumes "sep \<notin> set x"
  shows "takeWhile (\<lambda>c. c \<noteq> sep) s = x \<longleftrightarrow> (\<exists>tail. s = x @ tail \<and> (tail = [] \<or> hd tail = sep))"
proof
  assume x: "takeWhile (\<lambda>c. c \<noteq> sep) s = x"
  have "s = x @ dropWhile (\<lambda>c. c \<noteq> sep) s" using takeWhile_dropWhile_id [of "\<lambda>c. c \<noteq> sep" s] x by simp
  moreover have "dropWhile (\<lambda>c. c \<noteq> sep) s = [] \<or> hd (dropWhile (\<lambda>c. c \<noteq> sep) s) = sep" using hd_dropWhile [of "\<lambda>c. c \<noteq> sep" s] by auto
  ultimately show "\<exists>tail. s = x @ tail \<and> (tail = [] \<or> hd tail = sep)" by blast
next
  assume "\<exists>tail. s = x @ tail \<and> (tail = [] \<or> hd tail = sep)"
  then obtain tail where t: "s = x @ tail" "tail = [] \<or> hd tail = sep" by blast
  have "\<forall>c \<in> set x. c \<noteq> sep" using assms by auto
  with t show "takeWhile (\<lambda>c. c \<noteq> sep) s = x" by (cases tail) (simp_all add: takeWhile_append2)
qed

lemma split_on_append_sep: "split_on c (a @ c # b) = split_on c a @ split_on c b"
  by (induction a) (auto split: list.splits)

lemma last_split_on_shape:
  "\<exists>u. s = u @ last (split_on sep s) \<and> (u = [] \<or> last u = sep) \<and> sep \<notin> set (last (split_on sep s))"
proof (cases "sep \<in> set s")
  case True
  then obtain u h where s: "s = u @ sep # h" "sep \<notin> set h" by (metis split_list_last)
  then have "last (split_on sep s) = h" by (simp add: split_on_append_sep last_split_on_absent)
  with s show ?thesis by (intro exI [of _ "u @ [sep]"]) simp
next
  case False
  then show ?thesis by (simp add: last_split_on_absent)
qed

lemma last_split_on_eq:
  assumes "u = [] \<or> last u = sep" "sep \<notin> set h"
  shows "last (split_on sep (u @ h)) = h"
proof (cases "u = []")
  case True
  with assms(2) show ?thesis by (simp add: last_split_on_absent)
next
  case False
  with assms(1) have "u @ h = butlast u @ sep # h" by (metis append_butlast_last_id append.assoc append_Cons append_Nil)
  with assms(2) show ?thesis by (simp only: split_on_append_sep) (simp add: last_split_on_absent)
qed

lemma host_named:
  "(if starts_with h ''['' then takeWhile (\<lambda>c. c \<noteq> CHR '']'') (tl h) else takeWhile (\<lambda>c. c \<noteq> CHR '':'') h) \<in> LOOPBACK_NAMES \<longleftrightarrow>
     (\<exists>x tail. h = x @ tail \<and> (x \<in> LOOPBACK_NAMES \<and> (tail = [] \<or> hd tail = CHR '':'')
        \<or> x \<in> (#) (CHR ''['') ` LOOPBACK_NAMES \<and> (tail = [] \<or> hd tail = CHR '']'')))"
proof (cases "starts_with h ''[''")
  case True
  then obtain t where t: "h = CHR ''['' # t" by (cases h) auto
  have bracket: "takeWhile (\<lambda>c. c \<noteq> CHR '']'') t = x \<longleftrightarrow> (\<exists>tail. t = x @ tail \<and> (tail = [] \<or> hd tail = CHR '']''))" if "x \<in> LOOPBACK_NAMES" for x
    using loopback_names [OF that] by (intro takeWhile_until) blast
  have "\<forall>x \<in> LOOPBACK_NAMES. \<forall>tail. h \<noteq> x @ tail"
  proof (intro ballI allI)
    fix x tail assume "x \<in> LOOPBACK_NAMES"
    with loopback_names [OF this] t show "h \<noteq> x @ tail" by (cases x) auto
  qed
  moreover have "(\<exists>x tail. h = x @ tail \<and> x \<in> (#) (CHR ''['') ` LOOPBACK_NAMES \<and> (tail = [] \<or> hd tail = CHR '']''))
      \<longleftrightarrow> (\<exists>y \<in> LOOPBACK_NAMES. \<exists>tail. CHR ''['' # t = (CHR ''['' # y) @ tail \<and> (tail = [] \<or> hd tail = CHR '']''))" unfolding t by blast
  moreover have "(\<exists>y \<in> LOOPBACK_NAMES. \<exists>tail. CHR ''['' # t = (CHR ''['' # y) @ tail \<and> (tail = [] \<or> hd tail = CHR '']''))
      \<longleftrightarrow> takeWhile (\<lambda>c. c \<noteq> CHR '']'') t \<in> LOOPBACK_NAMES"
    unfolding append_Cons list.inject using bracket by (metis (no_types, lifting))
  ultimately have rhs: "(\<exists>x tail. h = x @ tail \<and> (x \<in> LOOPBACK_NAMES \<and> (tail = [] \<or> hd tail = CHR '':'')
        \<or> x \<in> (#) (CHR ''['') ` LOOPBACK_NAMES \<and> (tail = [] \<or> hd tail = CHR '']''))) \<longleftrightarrow> takeWhile (\<lambda>c. c \<noteq> CHR '']'') t \<in> LOOPBACK_NAMES"
    by blast
  show ?thesis unfolding if_P [OF True] rhs by (simp add: t)
next
  case False
  have plain: "takeWhile (\<lambda>c. c \<noteq> CHR '':'') h = x \<longleftrightarrow> (\<exists>tail. h = x @ tail \<and> (tail = [] \<or> hd tail = CHR '':''))" if "x \<in> LOOPBACK_NAMES" for x
    using loopback_names [OF that] by (intro takeWhile_until) blast
  have "h \<noteq> x @ tail" if "x \<in> (#) (CHR ''['') ` LOOPBACK_NAMES" for x tail using that False by auto
  then have "(\<exists>x tail. h = x @ tail \<and> (x \<in> LOOPBACK_NAMES \<and> (tail = [] \<or> hd tail = CHR '':'')
        \<or> x \<in> (#) (CHR ''['') ` LOOPBACK_NAMES \<and> (tail = [] \<or> hd tail = CHR '']'')))
      \<longleftrightarrow> (\<exists>x \<in> LOOPBACK_NAMES. \<exists>tail. h = x @ tail \<and> (tail = [] \<or> hd tail = CHR '':''))" by blast
  also have "\<dots> \<longleftrightarrow> takeWhile (\<lambda>c. c \<noteq> CHR '':'') h \<in> LOOPBACK_NAMES" using plain by (metis (no_types, lifting))
  finally show ?thesis unfolding if_not_P [OF False] by simp
qed

lemma redirect_host_loopback: "redirect_host r \<in> LOOPBACK_NAMES \<longleftrightarrow> loopback_authority r"
proof -
  let ?names = LOOPBACK_NAMES
  define a where "a = takeWhile (\<lambda>c. c \<noteq> CHR ''/'') r"
  define h where "h = last (split_on (CHR ''@'') a)"
  have "redirect_host r = (if starts_with h ''['' then takeWhile (\<lambda>c. c \<noteq> CHR '']'') (tl h) else takeWhile (\<lambda>c. c \<noteq> CHR '':'') h)"
    by (simp add: redirect_host_def hd_split_on a_def h_def Let_def)
  then have names: "(redirect_host r \<in> ?names) \<longleftrightarrow>
      (\<exists>x tail. h = x @ tail \<and> (x \<in> ?names \<and> (tail = [] \<or> hd tail = CHR '':'') \<or> x \<in> (#) (CHR ''['') ` ?names \<and> (tail = [] \<or> hd tail = CHR '']'')))"
    by (simp only: host_named)
  obtain u where u: "a = u @ h" "u = [] \<or> last u = CHR ''@''" "CHR ''@'' \<notin> set h" using last_split_on_shape [of a "CHR ''@''"] unfolding h_def by blast
  obtain path where path: "r = a @ path" "path = [] \<or> hd path = CHR ''/''" using takeWhile_until [of "CHR ''/''" a r] a_def by (auto dest: set_takeWhileD)
  have slash: "CHR ''/'' \<notin> set a" by (auto simp: a_def dest: set_takeWhileD)
  show ?thesis
  proof
    assume "redirect_host r \<in> ?names"
    with names obtain x tail where x: "h = x @ tail"
      "x \<in> ?names \<and> (tail = [] \<or> hd tail = CHR '':'') \<or> x \<in> (#) (CHR ''['') ` ?names \<and> (tail = [] \<or> hd tail = CHR '']'')" by blast
    then have "r = u @ x @ tail @ path" using u(1) path(1) by simp
    moreover have "CHR ''/'' \<notin> set (u @ x @ tail)" using slash u(1) x(1) by simp
    moreover have "CHR ''@'' \<notin> set (x @ tail)" using u(3) x(1) by simp
    ultimately show "loopback_authority r" unfolding loopback_authority_def using u(2) path(2) x(2) by blast
  next
    assume "loopback_authority r"
    then obtain userinfo x tail p where r: "r = userinfo @ x @ tail @ p" "userinfo = [] \<or> last userinfo = CHR ''@''"
      "CHR ''/'' \<notin> set (userinfo @ x @ tail)" "CHR ''@'' \<notin> set (x @ tail)" "p = [] \<or> hd p = CHR ''/''"
      "x \<in> ?names \<and> (tail = [] \<or> hd tail = CHR '':'') \<or> x \<in> (#) (CHR ''['') ` ?names \<and> (tail = [] \<or> hd tail = CHR '']'')"
      unfolding loopback_authority_def by blast
    have "a = userinfo @ x @ tail" unfolding a_def using takeWhile_until [OF r(3), of r] r(1,5) by auto
    then have "h = x @ tail" unfolding h_def using last_split_on_eq [OF r(2,4)] by simp
    with names r(6) show "redirect_host r \<in> ?names" by blast
  qed
qed

text \<open>C18: Which redirect URIs are accepted, exactly and on the text itself.  Without its outer blanks the URI is not empty, has at most
  256 characters, no asterisk and no \<open>urn:\<close> scheme, and where it begins with \<open>http://\<close> in any case, a loopback authority follows.
  A front-channel logout URL is accepted exactly when in addition it begins with \<open>https://\<close> or \<open>http://\<close>.  So the only texts
  beginning with \<open>http://\<close> that pass, and the only logout URLs that are not \<open>https\<close>, have \<open>localhost\<close> or \<open>127.0.0.1\<close> between
  the last at sign before the first slash, if there is one, and that slash.\<close>

theorem redirect_accepted_iff:
  "(validate_redirect_uri uri = Inr () \<longleftrightarrow>
      trim uri \<noteq> [] \<and> length (utf8_chars (trim uri)) \<le> 256 \<and> CHR ''*'' \<notin> set (trim uri)
      \<and> (\<nexists>r. to_ascii_lowercase (trim uri) = ''urn:'' @ r)
      \<and> (\<forall>r. to_ascii_lowercase (trim uri) = ''http://'' @ r \<longrightarrow> loopback_authority r))
   \<and> (validate_logout_url uri = Inr () \<longleftrightarrow>
      validate_redirect_uri uri = Inr ()
      \<and> (\<exists>r. to_ascii_lowercase (trim uri) = ''https://'' @ r \<or> to_ascii_lowercase (trim uri) = ''http://'' @ r \<and> loopback_authority r))"
proof -
  let ?l = "to_ascii_lowercase (trim uri)"
  have prefix: "starts_with ?l p \<longleftrightarrow> (\<exists>r. ?l = p @ r)" for p by (metis starts_with_drop starts_with_append)
  have http: "(starts_with ?l ''http://'' \<longrightarrow> redirect_host (drop 7 ?l) \<in> LOOPBACK_NAMES)
      \<longleftrightarrow> (\<forall>r. ?l = ''http://'' @ r \<longrightarrow> loopback_authority r)"
    unfolding prefix redirect_host_loopback by auto
  have uri: "validate_redirect_uri uri = Inr () \<longleftrightarrow>
      trim uri \<noteq> [] \<and> length (utf8_chars (trim uri)) \<le> 256 \<and> CHR ''*'' \<notin> set (trim uri) \<and> \<not> starts_with ?l ''urn:''
      \<and> (starts_with ?l ''http://'' \<longrightarrow> redirect_host (drop 7 ?l) \<in> LOOPBACK_NAMES)"
    by (auto simp: validate_redirect_uri_def LOOPBACK_NAMES_def MAX_REDIRECT_URI_LEN_def Let_def simp del: starts_with_code)
  have logout: "validate_logout_url uri = Inr () \<longleftrightarrow> validate_redirect_uri uri = Inr () \<and> (starts_with ?l ''https://'' \<or> starts_with ?l ''http://'')"
    by (auto simp: validate_logout_url_def Let_def simp del: starts_with_code split: sum.splits)
  show ?thesis
  proof
    show "validate_redirect_uri uri = Inr () \<longleftrightarrow>
      trim uri \<noteq> [] \<and> length (utf8_chars (trim uri)) \<le> 256 \<and> CHR ''*'' \<notin> set (trim uri)
      \<and> (\<nexists>r. ?l = ''urn:'' @ r) \<and> (\<forall>r. ?l = ''http://'' @ r \<longrightarrow> loopback_authority r)"
      unfolding uri http unfolding prefix ..
    then show "validate_logout_url uri = Inr () \<longleftrightarrow> validate_redirect_uri uri = Inr ()
      \<and> (\<exists>r. ?l = ''https://'' @ r \<or> ?l = ''http://'' @ r \<and> loopback_authority r)"
      unfolding logout prefix by blast
  qed
qed

text \<open>What the check of redirect URIs does not see.  A query or a fragment before the at sign, or a backslash, and the text names
  another host than the one the check reads; and plain \<open>http\<close> with one slash or none is not checked at all.\<close>

lemma redirect_hides_host:
  "validate_redirect_uri ''http://evil.example?@localhost'' = Inr ()"
  "validate_redirect_uri ''http:/evil.example'' = Inr ()"
  "validate_redirect_uri ''http:evil.example'' = Inr ()"
proof -
  have ok: "x = Inr ()" if "isl x = False" for x :: "string + unit" using that by (cases x) auto
  show "validate_redirect_uri ''http://evil.example?@localhost'' = Inr ()" by (rule ok) code_simp
  show "validate_redirect_uri ''http:/evil.example'' = Inr ()" by (rule ok) code_simp
  show "validate_redirect_uri ''http:evil.example'' = Inr ()" by (rule ok) code_simp
qed

theorem accepted_issuer_names_its_host_witness:
  "\<exists>host. url_host ''https://'' ''https://A:8/'' = Some host \<and> host \<noteq> []"
proof -
  have field: "validate_field id l v = Inr ()" if "trim v = v" "v \<noteq> []" "length (utf8_chars v) \<le> 600" "CHR ''*'' \<notin> set v"
    "List.find is_control (utf8_chars v) = None" for l v using that by (simp add: validate_field_def MAX_FIELD_LEN_def)
  have t: "trim ''https://A:8/'' = ''https://A:8/''" "trim ''r'' = ''r''" "has_whitespace ''https://A:8/'' = False"
    "to_ascii_lowercase ''https://A:8/'' = ''https://a:8/''" by code_simp+
  have "validate_field id l ''https://A:8/'' = Inr ()" "validate_field id l ''r'' = Inr ()" for l
    using t by (auto intro!: field simp: utf8_continuation_def is_control_def)
  with t have "validate_federated_credential id None ''https://A:8/'' ''r'' [''r''] None = Inr ()"
    by (simp add: validate_federated_credential_def validate_issuer_def is_host_and_port_def port_ok_def ascii_alnum_def is_ascii_alpha_def
        is_digit_def digit_value_def)
  from accepted_issuer_names_its_host [OF this] show ?thesis by blast
qed

theorem redirect_accepted_iff_witness:
  "validate_logout_url ''http://localhost:80/cb'' = Inr () \<and> loopback_authority ''localhost:80/cb''"
proof -
  have "isl (validate_logout_url ''http://localhost:80/cb'') = False" by code_simp
  then have ok: "validate_logout_url ''http://localhost:80/cb'' = Inr ()" by (cases "validate_logout_url ''http://localhost:80/cb''") auto
  have lower: "to_ascii_lowercase (trim ''http://localhost:80/cb'') = ''http://localhost:80/cb''" by code_simp
  from iffD1 [OF conjunct2 [OF redirect_accepted_iff] ok] have "loopback_authority ''localhost:80/cb''" unfolding lower by simp
  with ok show ?thesis by blast
qed

end
