(* ===== verification/Restore_Plan.thy ===== *)
theory Restore_Plan
  imports Audit_Types
begin

text \<open>
  The pure half of a disaster-recovery restore (\<^verbatim>\<open>src/crates/azapptoolkit-core/src/restore_plan.rs\<close>): what a recreated
  application's permissions, identifier URIs and pre-authorized clients become, given the backup and the map from source to
  destination application ids that grows as the applications are recreated.

  Shown: the loop that merges repeated clients computes the reference \<open>dedup_spec\<close>; a restored API trusts no application of the
  source tenant that the backup owns and every other client is planned exactly once; identifier URIs keep their shape and
  no longer name the source application or tenant.
\<close>

section \<open>Definitions\<close>

type_synonym app_id_remap = "string \<rightharpoonup> string"

record backup_app =
  ba_source_app_id :: string
  ba_display_name :: string

type_synonym backup_apps = "string \<rightharpoonup> backup_app"

definition backup_apps_new :: "(string \<times> string) list \<Rightarrow> backup_apps" where
  "backup_apps_new apps =
     fold (\<lambda>(source, name) m. m(to_ascii_lowercase source \<mapsto> \<lparr>ba_source_app_id = source, ba_display_name = name\<rparr>)) apps Map.empty"

definition backup_get :: "backup_apps \<Rightarrow> string \<Rightarrow> backup_app option" where
  "backup_get apps app_id = apps (to_ascii_lowercase app_id)"

definition backup_contains :: "backup_apps \<Rightarrow> string \<Rightarrow> bool" where
  "backup_contains apps app_id \<longleftrightarrow> backup_get apps app_id \<noteq> None"

definition backup_display_name :: "backup_apps \<Rightarrow> string \<Rightarrow> string option" where
  "backup_display_name apps app_id =
     (case backup_get apps app_id of Some a \<Rightarrow> if ba_display_name a = [] then None else Some (ba_display_name a) | None \<Rightarrow> None)"

definition backup_source_app_id :: "backup_apps \<Rightarrow> string \<Rightarrow> string option" where
  "backup_source_app_id apps app_id = map_option ba_source_app_id (backup_get apps app_id)"

definition remap_or_keep :: "string \<Rightarrow> app_id_remap \<Rightarrow> string" where
  "remap_or_keep app_id remap = (case remap app_id of Some new \<Rightarrow> new | None \<Rightarrow> app_id)"

definition remap_required_resource_access :: "required_resource_access list \<Rightarrow> app_id_remap \<Rightarrow> required_resource_access list" where
  "remap_required_resource_access rra remap = map (\<lambda>r. r\<lparr>rra_resource_app_id := remap_or_keep (rra_resource_app_id r) remap\<rparr>) rra"

definition API_SCHEME :: string where
  "API_SCHEME = ''api://''"

definition names_id :: "string \<Rightarrow> string \<Rightarrow> bool" where
  "names_id seg i \<longleftrightarrow> i \<noteq> [] \<and> to_ascii_lowercase seg = to_ascii_lowercase i"

definition rewrite_segment :: "string \<Rightarrow> string \<Rightarrow> string \<Rightarrow> string \<Rightarrow> string \<Rightarrow> string" where
  "rewrite_segment source_app new_app source_tenant dest_tenant seg =
     (if names_id seg source_app then new_app else if names_id seg source_tenant then dest_tenant else seg)"

definition rewrite_identifier_uri :: "string \<Rightarrow> string \<Rightarrow> string \<Rightarrow> string \<Rightarrow> string \<Rightarrow> string" where
  "rewrite_identifier_uri source_app new_app source_tenant dest_tenant u =
     (if to_ascii_lowercase (take (length API_SCHEME) u) = API_SCHEME
      then take (length API_SCHEME) u
           @ join ''/'' (map (rewrite_segment source_app new_app source_tenant dest_tenant) (split_on (CHR ''/'') (drop (length API_SCHEME) u)))
      else u)"

definition rewrite_identifier_uris :: "string list \<Rightarrow> string \<Rightarrow> string \<Rightarrow> string \<Rightarrow> string \<Rightarrow> string list" where
  "rewrite_identifier_uris uris source_app new_app source_tenant dest_tenant =
     map (rewrite_identifier_uri source_app new_app source_tenant dest_tenant) uris"

record pre_authorized_application =
  pa_app_id :: string
  pa_delegated_permission_ids :: "string list"

text \<open>One client of the merge loop: \<open>seen\<close> maps its lower-case id to its place in the output and to the lower-case
  permission ids already there.\<close>

fun merge_ids :: "string list \<Rightarrow> string list \<Rightarrow> string set \<Rightarrow> string list \<times> string set" where
  "merge_ids [] out perms = (out, perms)"
| "merge_ids (i # ids) out perms =
     (if to_ascii_lowercase i \<in> perms then merge_ids ids out perms
      else merge_ids ids (out @ [i]) (insert (to_ascii_lowercase i) perms))"

fun dedup_loop ::
  "pre_authorized_application list \<Rightarrow> pre_authorized_application list \<Rightarrow> (string \<rightharpoonup> nat \<times> string set) \<Rightarrow> pre_authorized_application list" where
  "dedup_loop [] out seen = out"
| "dedup_loop (p # ps) out seen =
     (let key = to_ascii_lowercase (pa_app_id p);
          (out, i, perms) = (case seen key of
             Some (i, perms) \<Rightarrow> (out, i, perms)
           | None \<Rightarrow> (out @ [\<lparr>pa_app_id = pa_app_id p, pa_delegated_permission_ids = []\<rparr>], length out, {}));
          (ids, perms) = merge_ids (pa_delegated_permission_ids p) (pa_delegated_permission_ids (out ! i)) perms
      in dedup_loop ps (out[i := (out ! i)\<lparr>pa_delegated_permission_ids := ids\<rparr>]) (seen(key \<mapsto> (i, perms))))"

definition dedup_pre_authorized :: "pre_authorized_application list \<Rightarrow> pre_authorized_application list" where
  "dedup_pre_authorized pre_auth = dedup_loop pre_auth [] Map.empty"

fun plan_loop ::
  "app_id_remap \<Rightarrow> backup_apps \<Rightarrow> pre_authorized_application list \<Rightarrow> pre_authorized_application list \<Rightarrow> string list
     \<Rightarrow> pre_authorized_application list \<times> string list" where
  "plan_loop remap apps [] kept own_not_restored = (kept, own_not_restored)"
| "plan_loop remap apps (p # ps) kept own_not_restored =
     (case backup_source_app_id apps (pa_app_id p) of
        None \<Rightarrow> plan_loop remap apps ps (kept @ [p]) own_not_restored
      | Some source \<Rightarrow>
          (case remap source of
             Some new \<Rightarrow> plan_loop remap apps ps (kept @ [p\<lparr>pa_app_id := new\<rparr>]) own_not_restored
           | None \<Rightarrow> plan_loop remap apps ps kept (own_not_restored @ [pa_app_id p])))"

definition plan_pre_authorized ::
  "pre_authorized_application list \<Rightarrow> app_id_remap \<Rightarrow> backup_apps \<Rightarrow> pre_authorized_application list \<times> string list" where
  "plan_pre_authorized pre_auth remap apps = plan_loop remap apps (dedup_pre_authorized pre_auth) [] []"

section \<open>The merge\<close>

text \<open>The reference: each client once, at its first spelling, with the permission ids of all its entries, each once.\<close>

abbreviation client_key :: "pre_authorized_application \<Rightarrow> string" where
  "client_key p \<equiv> to_ascii_lowercase (pa_app_id p)"

definition listed_ids :: "string \<Rightarrow> pre_authorized_application list \<Rightarrow> string list" where
  "listed_ids key pre = concat (map pa_delegated_permission_ids (filter (\<lambda>p. client_key p = key) pre))"

definition dedup_spec :: "pre_authorized_application list \<Rightarrow> pre_authorized_application list" where
  "dedup_spec pre =
     map (\<lambda>p. \<lparr>pa_app_id = pa_app_id p, pa_delegated_permission_ids = keep_first to_ascii_lowercase (listed_ids (client_key p) pre)\<rparr>)
       (keep_first client_key pre)"

lemma merge_ids_exact:
  "merge_ids ids out (set l) = (out @ keep_first_aux to_ascii_lowercase l ids, to_ascii_lowercase ` set ids \<union> set l)"
proof (induction ids arbitrary: out l)
  case (Cons i ids)
  show ?case by (auto simp: Cons.IH [of _ l] Cons.IH [of _ "to_ascii_lowercase i # l", simplified] insert_absorb)
qed simp

lemma keep_first_snoc: "keep_first key (xs @ [x]) = keep_first key xs @ (if key x \<in> key ` set xs then [] else [x])"
  by (simp add: keep_first_def keep_first_aux_app)

lemma listed_ids_snoc:
  "keep_first to_ascii_lowercase (listed_ids key (xs @ [p])) =
     (if client_key p = key
      then keep_first to_ascii_lowercase (listed_ids key xs)
           @ keep_first_aux to_ascii_lowercase (map to_ascii_lowercase (listed_ids key xs)) (pa_delegated_permission_ids p)
      else keep_first to_ascii_lowercase (listed_ids key xs))"
  by (simp add: listed_ids_def keep_first_def keep_first_aux_app)

definition seen_ok :: "pre_authorized_application list \<Rightarrow> (string \<rightharpoonup> nat \<times> string set) \<Rightarrow> bool" where
  "seen_ok xs seen \<longleftrightarrow>
     (\<forall>key. seen key = None \<longleftrightarrow> key \<notin> client_key ` set xs)
     \<and> (\<forall>key i perms. seen key = Some (i, perms) \<longrightarrow> i < length (keep_first client_key xs) \<and> client_key (keep_first client_key xs ! i) = key
          \<and> perms = to_ascii_lowercase ` set (listed_ids key xs))"

lemma length_dedup_spec [simp]: "length (dedup_spec xs) = length (keep_first client_key xs)"
  by (simp add: dedup_spec_def)

lemma dedup_step:
  assumes "seen_ok xs seen"
  shows "\<exists>seen'. dedup_loop (p # ps) (dedup_spec xs) seen = dedup_loop ps (dedup_spec (xs @ [p])) seen' \<and> seen_ok (xs @ [p]) seen'"
proof (cases "seen (client_key p)")
  case None
  with assms have new: "client_key p \<notin> client_key ` set xs" by (simp add: seen_ok_def)
  then have none: "listed_ids (client_key p) xs = []" by (auto simp: listed_ids_def) (metis image_eqI)
  let ?ids = "keep_first_aux to_ascii_lowercase [] (pa_delegated_permission_ids p)"
  let ?seen = "seen(client_key p \<mapsto> (length (keep_first client_key xs), to_ascii_lowercase ` set (pa_delegated_permission_ids p)))"
  have nil: "keep_first to_ascii_lowercase [] = []" by (simp add: keep_first_def)
  have old: "client_key q \<noteq> client_key p" if "q \<in> set (keep_first client_key xs)" for q
    using that new keep_first_subset [of client_key xs] by (metis image_eqI subsetD)
  then have "dedup_spec (xs @ [p]) = dedup_spec xs @ [\<lparr>pa_app_id = pa_app_id p, pa_delegated_permission_ids = ?ids\<rparr>]"
    unfolding dedup_spec_def keep_first_snoc using new old [THEN not_sym] by (auto simp: listed_ids_snoc none nil)
  then have "dedup_loop (p # ps) (dedup_spec xs) seen = dedup_loop ps (dedup_spec (xs @ [p])) ?seen"
    using None merge_ids_exact [of "pa_delegated_permission_ids p" "[]" "[]"] by (simp add: nth_append list_update_append)
  moreover have "seen_ok (xs @ [p]) ?seen"
  proof -
    have "listed_ids key (xs @ [p]) = listed_ids key xs @ (if client_key p = key then pa_delegated_permission_ids p else [])" for key
      by (simp add: listed_ids_def)
    with assms none new show ?thesis unfolding seen_ok_def keep_first_snoc
      by (auto simp: nth_append split: if_splits intro: less_SucI)
  qed
  ultimately show ?thesis by blast
next
  case (Some ip)
  obtain i perms where ip: "ip = (i, perms)" by (cases ip)
  from assms Some ip have i: "i < length (keep_first client_key xs)" "client_key (keep_first client_key xs ! i) = client_key p"
    and perms: "perms = to_ascii_lowercase ` set (listed_ids (client_key p) xs)" by (auto simp: seen_ok_def)
  from assms Some have known: "client_key p \<in> client_key ` set xs" by (metis seen_ok_def option.distinct(1))
  let ?kf = "keep_first client_key xs" and ?more = "keep_first_aux to_ascii_lowercase (map to_ascii_lowercase (listed_ids (client_key p) xs)) (pa_delegated_permission_ids p)"
  have only: "client_key (?kf ! j) = client_key p \<longleftrightarrow> j = i" if "j < length ?kf" for j
    using nth_eq_iff_index_eq [OF distinct_keep_first [of client_key xs], of j i] that i by simp
  let ?old = "dedup_spec xs ! i"
  have ids: "pa_delegated_permission_ids ?old = keep_first to_ascii_lowercase (listed_ids (client_key p) xs)"
    using i by (simp add: dedup_spec_def)
  have "dedup_spec (xs @ [p]) = (dedup_spec xs)[i := ?old\<lparr>pa_delegated_permission_ids := pa_delegated_permission_ids ?old @ ?more\<rparr>]"
    (is "?l = ?r")
  proof (rule nth_equalityI)
    show "length ?l = length ?r" using known by (simp add: dedup_spec_def keep_first_snoc)
    fix j assume "j < length ?l"
    then have j: "j < length ?kf" using known by (simp add: dedup_spec_def keep_first_snoc)
    with only [OF j] i ids known show "?l ! j = ?r ! j"
      by (cases "j = i") (auto simp: dedup_spec_def keep_first_snoc listed_ids_snoc)
  qed
  moreover have "merge_ids (pa_delegated_permission_ids p) (pa_delegated_permission_ids ?old) perms
      = (pa_delegated_permission_ids ?old @ ?more, to_ascii_lowercase ` set (pa_delegated_permission_ids p) \<union> perms)"
    using merge_ids_exact [of "pa_delegated_permission_ids p" _ "map to_ascii_lowercase (listed_ids (client_key p) xs)"] perms by simp
  ultimately have "dedup_loop (p # ps) (dedup_spec xs) seen
      = dedup_loop ps (dedup_spec (xs @ [p])) (seen(client_key p \<mapsto> (i, to_ascii_lowercase ` set (pa_delegated_permission_ids p) \<union> perms)))"
    using Some ip by (simp add: Let_def)
  moreover have "seen_ok (xs @ [p]) (seen(client_key p \<mapsto> (i, to_ascii_lowercase ` set (pa_delegated_permission_ids p) \<union> perms)))"
  proof -
    have "listed_ids key (xs @ [p]) = listed_ids key xs @ (if client_key p = key then pa_delegated_permission_ids p else [])" for key
      by (simp add: listed_ids_def)
    with assms i perms known show ?thesis unfolding seen_ok_def keep_first_snoc by (auto split: if_splits)
  qed
  ultimately show ?thesis by blast
qed

lemma dedup_loop_exact: "seen_ok xs seen \<Longrightarrow> dedup_loop ps (dedup_spec xs) seen = dedup_spec (xs @ ps)"
proof (induction ps arbitrary: xs seen)
  case (Cons p ps)
  from dedup_step [OF Cons.prems] obtain seen' where
    "dedup_loop (p # ps) (dedup_spec xs) seen = dedup_loop ps (dedup_spec (xs @ [p])) seen'" "seen_ok (xs @ [p]) seen'" by blast
  with Cons.IH [of "xs @ [p]"] show ?case by simp
qed simp

lemma dedup_exact: "dedup_pre_authorized pre = dedup_spec pre"
proof -
  have "seen_ok [] Map.empty" by (simp add: seen_ok_def)
  from dedup_loop_exact [OF this, of pre] show ?thesis by (simp add: dedup_pre_authorized_def dedup_spec_def keep_first_def)
qed

section \<open>The plan\<close>

definition plan_entry :: "app_id_remap \<Rightarrow> backup_apps \<Rightarrow> pre_authorized_application \<Rightarrow> pre_authorized_application option" where
  "plan_entry remap apps p =
     (case backup_source_app_id apps (pa_app_id p) of
        None \<Rightarrow> Some p
      | Some source \<Rightarrow> map_option (\<lambda>new. p\<lparr>pa_app_id := new\<rparr>) (remap source))"

lemma plan_loop_exact:
  "plan_loop remap apps ps kept lost =
     (kept @ List.map_filter (plan_entry remap apps) ps, lost @ map pa_app_id (filter (\<lambda>p. plan_entry remap apps p = None) ps))"
  by (induction ps arbitrary: kept lost) (auto simp: List.map_filter_def plan_entry_def split: option.splits)

lemma dedup_spec_covers:
  assumes "p \<in> set pre"
  shows "\<exists>q \<in> set (dedup_spec pre). client_key q = client_key p
     \<and> to_ascii_lowercase ` set (pa_delegated_permission_ids p) \<subseteq> to_ascii_lowercase ` set (pa_delegated_permission_ids q)"
proof -
  have "client_key p \<in> client_key ` set (keep_first client_key pre)" unfolding keep_first_keys using assms by (rule imageI)
  then obtain q where q: "q \<in> set (keep_first client_key pre)" "client_key q = client_key p" by (metis (no_types, lifting) imageE)
  let ?q = "\<lparr>pa_app_id = pa_app_id q, pa_delegated_permission_ids = keep_first to_ascii_lowercase (listed_ids (client_key q) pre)\<rparr>"
  have "?q \<in> set (dedup_spec pre)" using q by (auto simp: dedup_spec_def)
  moreover have "set (pa_delegated_permission_ids p) \<subseteq> set (listed_ids (client_key q) pre)" using assms q by (auto simp: listed_ids_def)
  ultimately show ?thesis using q by (intro bexI [of _ ?q]) (auto intro!: image_mono)
qed

lemma dedup_spec_source: "q \<in> set (dedup_spec pre) \<Longrightarrow> \<exists>p \<in> set pre. pa_app_id q = pa_app_id p"
  using keep_first_subset [of client_key pre] by (auto simp: dedup_spec_def)

lemma dedup_spec_once:
  "distinct (map client_key (dedup_spec pre)) \<and> client_key ` set (dedup_spec pre) = client_key ` set pre
   \<and> (\<forall>q \<in> set (dedup_spec pre). distinct (map to_ascii_lowercase (pa_delegated_permission_ids q))
        \<and> to_ascii_lowercase ` set (pa_delegated_permission_ids q)
            = (\<Union>p \<in> {p \<in> set pre. client_key p = client_key q}. to_ascii_lowercase ` set (pa_delegated_permission_ids p)))"
proof -
  have keys: "map client_key (dedup_spec pre) = map client_key (keep_first client_key pre)" by (simp add: dedup_spec_def)
  have "client_key ` set (dedup_spec pre) = client_key ` set pre"
    using arg_cong [OF keys, of set] by (simp add: image_image)
  moreover have "distinct (map client_key (dedup_spec pre))" unfolding keys by simp
  moreover have "\<forall>q \<in> set (dedup_spec pre). distinct (map to_ascii_lowercase (pa_delegated_permission_ids q))
        \<and> to_ascii_lowercase ` set (pa_delegated_permission_ids q)
            = (\<Union>p \<in> {p \<in> set pre. client_key p = client_key q}. to_ascii_lowercase ` set (pa_delegated_permission_ids p))"
    by (auto simp: dedup_spec_def listed_ids_def)
  ultimately show ?thesis by blast
qed

lemma owned_by_key: "client_key p = client_key q \<Longrightarrow> backup_source_app_id apps (pa_app_id p) = backup_source_app_id apps (pa_app_id q)"
  by (simp add: backup_source_app_id_def backup_get_def)

lemma planned_kept_iff: "k \<in> set (List.map_filter (plan_entry remap apps) qs) \<longleftrightarrow> (\<exists>q \<in> set qs. plan_entry remap apps q = Some k)"
  by (force simp: List.map_filter_def)

lemma planned_client_accounted:
  assumes kept: "kept = List.map_filter (plan_entry remap apps) (dedup_spec pre)"
    and lost: "lost = map pa_app_id (filter (\<lambda>p. plan_entry remap apps p = None) (dedup_spec pre))"
    and p: "p \<in> set pre"
  shows "case backup_source_app_id apps (pa_app_id p) of
            None \<Rightarrow> \<exists>k \<in> set kept. client_key k = client_key p
                \<and> to_ascii_lowercase ` set (pa_delegated_permission_ids p) \<subseteq> to_ascii_lowercase ` set (pa_delegated_permission_ids k)
          | Some source \<Rightarrow>
              (case remap source of
                 Some new \<Rightarrow> \<exists>k \<in> set kept. pa_app_id k = new
                   \<and> to_ascii_lowercase ` set (pa_delegated_permission_ids p) \<subseteq> to_ascii_lowercase ` set (pa_delegated_permission_ids k)
               | None \<Rightarrow> \<exists>i \<in> set lost. to_ascii_lowercase i = client_key p)"
proof -
  from dedup_spec_covers [OF p] obtain q where q: "q \<in> set (dedup_spec pre)" "client_key q = client_key p"
    "to_ascii_lowercase ` set (pa_delegated_permission_ids p) \<subseteq> to_ascii_lowercase ` set (pa_delegated_permission_ids q)" by blast
  show ?thesis
  proof (cases "plan_entry remap apps q")
    case None
    with q have "pa_app_id q \<in> set lost" by (auto simp: lost)
    with None q owned_by_key [OF q(2), of apps] show ?thesis by (auto simp: plan_entry_def split: option.splits)
  next
    case (Some k)
    with q have "k \<in> set kept" by (auto simp: kept planned_kept_iff)
    moreover from Some have "pa_delegated_permission_ids k = pa_delegated_permission_ids q" by (auto simp: plan_entry_def split: option.splits)
    ultimately have k: "k \<in> set kept" "to_ascii_lowercase ` set (pa_delegated_permission_ids p) \<subseteq> to_ascii_lowercase ` set (pa_delegated_permission_ids k)"
      using q(3) by simp_all
    note same = owned_by_key [OF q(2), of apps]
    show ?thesis
    proof (cases "backup_source_app_id apps (pa_app_id q)")
      case None
      with Some q(2) have "client_key k = client_key p" by (simp add: plan_entry_def)
      with k show ?thesis unfolding same [symmetric] None by auto
    next
      case source: (Some source)
      with Some obtain new where "remap source = Some new" "pa_app_id k = new" by (auto simp: plan_entry_def)
      with k show ?thesis unfolding same [symmetric] source by auto
    qed
  qed
qed

text \<open>C19: The pre-authorized clients of a restored API are planned exactly, whatever case and repetitions the backup has.  Provided
  the destination ids are not ids the backup owns, no client the API is written with is a source application the backup
  owns.  Every client of the backup is accounted for: one from outside is kept with all its permissions, one that was
  recreated is kept under its new id with all its permissions, and one that was not is reported.  Each is planned once, and
  nothing is added: what is kept and what is reported come, in order, from one entry per listed client, which holds the
  permission ids of all the entries of that client in the backup, each once.\<close>

theorem restored_api_trusts_no_source_app:
  assumes plan: "plan_pre_authorized pre remap apps = (kept, lost)"
    and fresh: "\<And>source new. remap source = Some new \<Longrightarrow> \<not> backup_contains apps new"
  shows "(\<forall>k \<in> set kept. \<not> backup_contains apps (pa_app_id k))
     \<and> (\<forall>p \<in> set pre.
          case backup_source_app_id apps (pa_app_id p) of
            None \<Rightarrow> \<exists>k \<in> set kept. client_key k = client_key p
                \<and> to_ascii_lowercase ` set (pa_delegated_permission_ids p) \<subseteq> to_ascii_lowercase ` set (pa_delegated_permission_ids k)
          | Some source \<Rightarrow>
              (case remap source of
                 Some new \<Rightarrow> \<exists>k \<in> set kept. pa_app_id k = new
                   \<and> to_ascii_lowercase ` set (pa_delegated_permission_ids p) \<subseteq> to_ascii_lowercase ` set (pa_delegated_permission_ids k)
               | None \<Rightarrow> \<exists>i \<in> set lost. to_ascii_lowercase i = client_key p))
     \<and> (\<forall>i \<in> set lost. \<exists>source. backup_source_app_id apps i = Some source \<and> remap source = None)
     \<and> (\<exists>clients. distinct (map client_key clients) \<and> client_key ` set clients = client_key ` set pre
          \<and> (\<forall>q \<in> set clients. distinct (map to_ascii_lowercase (pa_delegated_permission_ids q))
               \<and> to_ascii_lowercase ` set (pa_delegated_permission_ids q)
                   = (\<Union>p \<in> {p \<in> set pre. client_key p = client_key q}. to_ascii_lowercase ` set (pa_delegated_permission_ids p)))
          \<and> kept = List.map_filter (\<lambda>q. case backup_source_app_id apps (pa_app_id q) of
                None \<Rightarrow> Some q | Some source \<Rightarrow> map_option (\<lambda>new. q\<lparr>pa_app_id := new\<rparr>) (remap source)) clients
          \<and> lost = map pa_app_id (filter (\<lambda>q. \<exists>source. backup_source_app_id apps (pa_app_id q) = Some source \<and> remap source = None) clients))"
proof -
  from plan have kept: "kept = List.map_filter (plan_entry remap apps) (dedup_spec pre)"
    and lost: "lost = map pa_app_id (filter (\<lambda>p. plan_entry remap apps p = None) (dedup_spec pre))"
    by (auto simp: plan_pre_authorized_def plan_loop_exact dedup_exact)
  have own: "\<not> backup_contains apps (pa_app_id k)" if "k \<in> set kept" for k
  proof -
    from that obtain q where q: "plan_entry remap apps q = Some k" by (auto simp: kept planned_kept_iff)
    show ?thesis
    proof (cases "backup_source_app_id apps (pa_app_id q)")
      case None
      with q show ?thesis by (auto simp: plan_entry_def backup_contains_def backup_source_app_id_def)
    next
      case (Some source)
      with q obtain new where "remap source = Some new" "pa_app_id k = new" by (auto simp: plan_entry_def)
      with fresh show ?thesis by simp
    qed
  qed
  note each = planned_client_accounted [OF kept lost]
  have lost_own: "\<exists>source. backup_source_app_id apps i = Some source \<and> remap source = None" if "i \<in> set lost" for i
    using that by (auto simp: lost plan_entry_def split: option.splits)
  have k: "kept = List.map_filter (\<lambda>q. case backup_source_app_id apps (pa_app_id q) of
                None \<Rightarrow> Some q | Some source \<Rightarrow> map_option (\<lambda>new. q\<lparr>pa_app_id := new\<rparr>) (remap source)) (dedup_spec pre)"
    unfolding kept plan_entry_def ..
  have l: "lost = map pa_app_id (filter (\<lambda>q. \<exists>source. backup_source_app_id apps (pa_app_id q) = Some source \<and> remap source = None) (dedup_spec pre))"
    unfolding lost plan_entry_def by (intro arg_cong [where f = "map pa_app_id"] filter_cong) (auto split: option.splits)
  note once = dedup_spec_once [of pre]
  show ?thesis
    by (intro conjI ballI own each lost_own, assumption+, intro exI [of _ "dedup_spec pre"] conjI k l once [THEN conjunct1]
        once [THEN conjunct2, THEN conjunct1] once [THEN conjunct2, THEN conjunct2])
qed

definition demo_client :: "string \<Rightarrow> string list \<Rightarrow> pre_authorized_application" where
  "demo_client a ids = \<lparr>pa_app_id = a, pa_delegated_permission_ids = ids\<rparr>"

theorem restored_api_trusts_no_source_app_witness:
  "list_all (\<lambda>k. \<not> backup_contains (backup_apps_new [(''aa'', ''A''), (''bb'', ''B'')]) (pa_app_id k))
     (fst (plan_pre_authorized [demo_client ''aa'' [''x''], demo_client ''AA'' [''X'', ''y''], demo_client ''bb'' [''z''], demo_client ''cc'' []]
       [''aa'' \<mapsto> ''new''] (backup_apps_new [(''aa'', ''A''), (''bb'', ''B'')])))"
proof -
  let ?apps = "backup_apps_new [(''aa'', ''A''), (''bb'', ''B'')]"
  let ?pre = "[demo_client ''aa'' [''x''], demo_client ''AA'' [''X'', ''y''], demo_client ''bb'' [''z''], demo_client ''cc'' []]"
  have "\<not> backup_contains ?apps ''new''" by code_simp
  then have fresh: "\<And>source new. [''aa'' \<mapsto> ''new''] source = Some new \<Longrightarrow> \<not> backup_contains ?apps new" by (auto split: if_splits)
  obtain kept lost where plan: "plan_pre_authorized ?pre [''aa'' \<mapsto> ''new''] ?apps = (kept, lost)" by fastforce
  from restored_api_trusts_no_source_app [OF plan fresh] plan show ?thesis by (simp add: list_all_iff)
qed

section \<open>Identifier URIs\<close>

lemma split_on_no_sep: "seg \<in> set (split_on sep s) \<Longrightarrow> sep \<notin> set seg"
  by (induction s arbitrary: seg) (auto split: if_splits list.splits)

text \<open>A rewritten \<open>api://\<close> URI keeps its scheme and its number of segments, and none of its segments names the source
  application or the source tenant any more; any other URI is left alone.\<close>

lemma rewritten_uri_is_clean:
  assumes api: "to_ascii_lowercase (take 6 u) = ''api://''"
    and plain: "CHR ''/'' \<notin> set new_app" "CHR ''/'' \<notin> set dest"
    and new: "\<not> names_id new_app source" "\<not> names_id new_app tenant" "\<not> names_id dest source" "\<not> names_id dest tenant"
  defines "v \<equiv> rewrite_identifier_uri source new_app tenant dest u"
  shows "take 6 v = take 6 u" and "length (split_on (CHR ''/'') (drop 6 v)) = length (split_on (CHR ''/'') (drop 6 u))"
    and "\<forall>seg \<in> set (split_on (CHR ''/'') (drop 6 v)). \<not> names_id seg source \<and> \<not> names_id seg tenant"
proof -
  let ?segs = "map (rewrite_segment source new_app tenant dest) (split_on (CHR ''/'') (drop 6 u))"
  have len: "length API_SCHEME = 6" by (simp add: API_SCHEME_def)
  have "length (to_ascii_lowercase (take 6 u)) = 6" unfolding api by simp
  then have l6: "length (take 6 u) = 6" unfolding to_ascii_lowercase_def length_map .
  have v: "v = take 6 u @ join ''/'' ?segs" unfolding v_def rewrite_identifier_uri_def len using api by (simp add: API_SCHEME_def)
  then show "take 6 v = take 6 u" using l6 by simp
  have "\<forall>seg \<in> set ?segs. CHR ''/'' \<notin> set seg" using plain split_on_no_sep by (auto simp: rewrite_segment_def)
  then have "split_on (CHR ''/'') (drop 6 v) = ?segs" unfolding v using l6 split_on_join [of ?segs "CHR ''/''"] by simp
  then show "length (split_on (CHR ''/'') (drop 6 v)) = length (split_on (CHR ''/'') (drop 6 u))"
    "\<forall>seg \<in> set (split_on (CHR ''/'') (drop 6 v)). \<not> names_id seg source \<and> \<not> names_id seg tenant"
    using new by (auto simp: rewrite_segment_def)
qed

end
