(* ===== verification/Token_Endpoint.thy ===== *)
theory Token_Endpoint
  imports Graph_Transport Token_Store
begin

text \<open>
  The OAuth token endpoint (\<^verbatim>\<open>auth/src/service/wire.rs\<close> and the POST of \<^verbatim>\<open>auth/src/service/mod.rs\<close>) and the loopback listener
  that catches the browser's redirect (\<^verbatim>\<open>auth/src/service/loopback.rs\<close>).  The socket, the JSON and base64 decoders and the form
  decoder are parameters.  The lemmas show which answers condemn a refresh token, that an authorization code is redeemed
  at most once, and that only a request with the pending state ends the wait for a redirect.
\<close>

section \<open>Errors\<close>

datatype entra_error =
    NotSignedIn
  | RefreshTokenMissing string
  | InvalidGrant string
  | ConsentRequired string
  | InteractionRequired string
  | TokenExchange string
  | UnexpectedResponder "16 word" string
  | ServiceUnavailable "16 word" string
  | Authorization string
  | Loopback string
  | StateMismatch
  | Cancelled
  | Stored auth_error
  | EHttp "string \<times> string list"
  | EUrl string
  | ESerde string
  | EIo string

section \<open>The wire\<close>

record token_response =
  tr_access_token :: string
  tr_refresh_token :: "string option"
  tr_id_token :: "string option"
  tr_expires_in :: "64 word"
  tr_scope :: "string option"

record token_error_body =
  eb_error :: string
  eb_error_description :: "string option"
  eb_correlation_id :: "string option"

record id_claims =
  ic_tid :: "string option"
  ic_oid :: "string option"
  ic_preferred_username :: "string option"
  ic_name :: "string option"
  ic_nonce :: "string option"

definition AADSTS :: string where
  "AADSTS = ''AADSTS''"

definition extract_aadsts_code :: "string \<Rightarrow> string option" where
  "extract_aadsts_code description =
     (case split_str_once AADSTS description of
        None \<Rightarrow> None
      | Some (_, rest) \<Rightarrow> (let digits = takeWhile is_digit rest in if digits = [] then None else Some (AADSTS @ digits)))"

definition redact_aad_error :: "string \<Rightarrow> string option \<Rightarrow> string" where
  "redact_aad_error error description =
     (case Option.bind description extract_aadsts_code of
        Some code \<Rightarrow> error @ '' ('' @ code @ '')''
      | None \<Rightarrow> error)"

definition redacted_aad_error :: "token_error_body \<Rightarrow> string" where
  "redacted_aad_error body = redact_aad_error (eb_error body) (eb_error_description body)"

definition CONDITIONAL_ACCESS_CODES :: "string list" where
  "CONDITIONAL_ACCESS_CODES =
     [''AADSTS50074'', ''AADSTS50076'', ''AADSTS50078'', ''AADSTS50079'', ''AADSTS50158'', ''AADSTS53000'', ''AADSTS53001'',
      ''AADSTS53002'', ''AADSTS53003'', ''AADSTS53004'', ''AADSTS530032'']"

definition classify_token_error :: "token_error_body \<Rightarrow> entra_error" where
  "classify_token_error body =
     (let safe = redacted_aad_error body;
          aadsts = Option.bind (eb_error_description body) extract_aadsts_code
      in if eb_error body = ''consent_required'' \<or> aadsts \<in> {Some ''AADSTS65001'', Some ''AADSTS65004''} then ConsentRequired safe
         else if eb_error body \<in> {''interaction_required'', ''login_required''}
              \<or> eb_error body = ''invalid_grant'' \<and> (case aadsts of Some code \<Rightarrow> code \<in> set CONDITIONAL_ACCESS_CODES | None \<Rightarrow> False)
         then InteractionRequired safe
         else if eb_error body = ''invalid_grant'' then InvalidGrant safe
         else TokenExchange safe)"

function whitespace_words :: "string \<Rightarrow> string list" where
  "whitespace_words [] = [[]]"
| "whitespace_words (c # s) =
     (if whitespace_len (c # s) = 0 then (case whitespace_words s of w # ws \<Rightarrow> (c # w) # ws | [] \<Rightarrow> [[c]])
      else [] # whitespace_words (drop (whitespace_len (c # s)) (c # s)))"
  by pat_completeness auto
termination
  by (relation "measure length") auto

definition split_whitespace :: "string \<Rightarrow> string list" where
  "split_whitespace s = filter (\<lambda>w. w \<noteq> []) (whitespace_words s)"

definition parse_scopes :: "string option \<Rightarrow> string list \<Rightarrow> string list" where
  "parse_scopes raw fallback = (case raw of Some s \<Rightarrow> split_whitespace s | None \<Rightarrow> fallback)"

text \<open>The base64 decoder and the JSON reader, which gives the string claims of an object, are parameters.\<close>

definition parse_id_token ::
  "(string \<Rightarrow> string + string) \<Rightarrow> (string \<Rightarrow> string + (string \<Rightarrow> string option)) \<Rightarrow> string option \<Rightarrow> entra_error + id_claims" where
  "parse_id_token b64 json id_token =
     (case id_token of
        None \<Rightarrow> Inl (TokenExchange ''no id_token in response'')
      | Some t \<Rightarrow>
          (let parts = split_on (CHR ''.'') t
           in if length parts < 2 then Inl (TokenExchange ''malformed id_token'')
              else (case b64 (parts ! 1) of
                      Inl e \<Rightarrow> Inl (TokenExchange (''id_token b64 decode: '' @ e))
                    | Inr decoded \<Rightarrow>
                        (case json decoded of
                           Inl e \<Rightarrow> Inl (ESerde e)
                         | Inr claim \<Rightarrow> Inr \<lparr>ic_tid = claim ''tid'', ic_oid = claim ''oid'', ic_preferred_username = claim ''preferred_username'',
                                          ic_name = claim ''name'', ic_nonce = claim ''nonce''\<rparr>))))"

section \<open>The POST\<close>

definition MAX_TOKEN_RESPONSE_BYTES :: nat where
  "MAX_TOKEN_RESPONSE_BYTES = 64 * 1024"

definition TOKEN_RETRY_AFTER_MAX_SECS :: "64 word" where
  "TOKEN_RETRY_AFTER_MAX_SECS = 30"

definition is_throttle_or_outage :: "16 word \<Rightarrow> bool" where
  "is_throttle_or_outage status \<longleftrightarrow> status = 429 \<or> 500 \<le> status \<and> status < 600"

definition content_type_class :: "string option \<Rightarrow> string" where
  "content_type_class content_type =
     (case content_type of
        None \<Rightarrow> ''untyped''
      | Some ct \<Rightarrow>
          (let media = to_ascii_lowercase (trim (hd (split_on (CHR '';'') ct)))
           in if media = ''text/html'' \<or> media = ''application/xhtml+xml'' then ''html''
              else if media = ''application/json'' \<or> ends_with media ''+json'' then ''json''
              else if starts_with media ''text/'' then ''text''
              else if media = [] then ''untyped''
              else ''other''))"

definition not_entras_answer :: "16 word \<Rightarrow> string option \<Rightarrow> entra_error" where
  "not_entras_answer status content_type =
     (let cls = content_type_class content_type
      in if is_throttle_or_outage status then ServiceUnavailable status (cls @ '' body'') else UnexpectedResponder status cls)"

definition grant_type :: "(string \<times> string) list \<Rightarrow> string option" where
  "grant_type params = map_option snd (List.find (\<lambda>(k, _). k = ''grant_type'') params)"

definition token_retry_class_for :: "(string \<times> string) list \<Rightarrow> retry_class" where
  "token_retry_class_for params = (if grant_type params = Some ''refresh_token'' then Idempotent else NonIdempotent)"

text \<open>The socket below the client, with the content type beside what the other transports read; what \<open>serde_json\<close> makes of a
  success body (the response, JSON of another shape, or no JSON) and of an error body.\<close>

record token_reply = http_response +
  rp_content_type :: "string option"

datatype token_sent = TimedOut "string \<times> string list" | Unsent "string \<times> string list" | Answered token_reply

datatype token_decoded = Decoded token_response | WrongShape string | NotJson string

record 's token_net =
  tn_post :: "string \<Rightarrow> (string \<times> string) list \<Rightarrow> 's \<Rightarrow> token_sent \<times> 's"
  tn_decode :: "string \<Rightarrow> token_decoded"
  tn_decode_error :: "string \<Rightarrow> token_error_body option"

datatype token_body = TooLarge | BrokenBody "string \<times> string list" | Whole string

fun read_token_body :: "(string \<times> string list) option \<Rightarrow> string \<Rightarrow> string list \<Rightarrow> token_body" where
  "read_token_body broken body [] = (case broken of Some e \<Rightarrow> BrokenBody e | None \<Rightarrow> Whole body)"
| "read_token_body broken body (chunk # chunks) =
     (if MAX_TOKEN_RESPONSE_BYTES < length body + length chunk then TooLarge
      else read_token_body broken (body @ chunk) chunks)"

definition success_answer :: "'s token_net \<Rightarrow> 16 word \<Rightarrow> string option \<Rightarrow> string \<Rightarrow> entra_error + token_response" where
  "success_answer N status content_type body =
     (case tn_decode N body of
        Decoded token \<Rightarrow> Inr token
      | NotJson e \<Rightarrow> Inl (not_entras_answer status content_type)
      | WrongShape e \<Rightarrow> Inl (ESerde e))"

definition failure_error :: "'s token_net \<Rightarrow> 16 word \<Rightarrow> string option \<Rightarrow> string \<Rightarrow> entra_error" where
  "failure_error N status content_type body =
     (case tn_decode_error N body of
        Some err_body \<Rightarrow>
          (case classify_token_error err_body of
             TokenExchange detail \<Rightarrow> if is_throttle_or_outage status then ServiceUnavailable status detail else TokenExchange detail
           | classified \<Rightarrow> classified)
      | None \<Rightarrow> not_entras_answer status content_type)"

definition token_answer :: "'s token_net \<Rightarrow> token_reply \<Rightarrow> (token_response, entra_error) attempt" where
  "token_answer N resp =
     (let status = rp_status resp;
          retry_after_secs = parse_retry_after_seconds (rp_retry_after resp);
          content_type = rp_content_type resp
      in case read_token_body (rp_broken resp) [] (rp_chunks resp) of
           TooLarge \<Rightarrow>
             Done (Inl (if is_success status \<and> content_type_class content_type = ''json'' then TokenExchange ''token response too large''
                        else not_entras_answer status content_type))
         | BrokenBody e \<Rightarrow> Done (Inl (EHttp e))
         | Whole body \<Rightarrow>
             if is_success status then Done (success_answer N status content_type body)
             else (let err = failure_error N status content_type body
                   in if (case retry_after_secs of Some s \<Rightarrow> TOKEN_RETRY_AFTER_MAX_SECS < s | None \<Rightarrow> False) then Done (Inl err)
                      else if status = 429 then Retry Throttled (Some 429) retry_after_secs err
                      else if 500 \<le> status then Retry Transient (Some status) retry_after_secs err
                      else Done (Inl err)))"

definition token_attempt ::
  "'s token_net \<Rightarrow> string \<Rightarrow> (string \<times> string) list \<Rightarrow> 's \<Rightarrow> 32 word \<Rightarrow> (token_response, entra_error) attempt \<times> 's" where
  "token_attempt N url params s n =
     (case tn_post N url params s of
        (TimedOut e, s') \<Rightarrow> (Done (Inl (EHttp e)), s')
      | (Unsent e, s') \<Rightarrow> (Retry Transient None None (EHttp e), s')
      | (Answered resp, s') \<Rightarrow> (token_answer N resp, s'))"

definition post_token ::
  "'s token_net \<Rightarrow> (32 word \<Rightarrow> 64 word) \<Rightarrow> string \<Rightarrow> (string \<times> string) list \<Rightarrow> 's \<Rightarrow> (entra_error + token_response) \<times> 's" where
  "post_token N nanos authority params s =
     (case with_retries (token_retry_class_for params) (token_attempt N (authority @ ''/oauth2/v2.0/token'') params) nanos s of
        (r, s', _) \<Rightarrow> (r, s'))"

section \<open>The loopback listener\<close>

definition MAX_INFLIGHT_CONNECTIONS :: nat where
  "MAX_INFLIGHT_CONNECTIONS = 16"

definition MAX_HEAD :: nat where
  "MAX_HEAD = 16 * 1024"

text \<open>What a read of a connection brings: bytes, the end of the stream or an error.  A connection is the reads that arrive within
  its time limit.\<close>

datatype conn_read = Bytes string | Eof | ReadFailed string

definition finish_head :: "string \<Rightarrow> entra_error + string" where
  "finish_head buf = (if buf = [] then Inl (Loopback ''connection closed before a request arrived'') else Inr (from_utf8_lossy buf))"

fun read_request_head :: "string \<Rightarrow> conn_read list \<Rightarrow> (entra_error + string) option" where
  "read_request_head buf [] = None"
| "read_request_head buf (Eof # reads) = Some (finish_head buf)"
| "read_request_head buf (ReadFailed e # reads) = Some (Inl (Loopback e))"
| "read_request_head buf (Bytes chunk # reads) =
     (if chunk = [] then Some (finish_head buf)
      else if contains_str (buf @ chunk) [CHR 0x0D, CHR 0x0A, CHR 0x0D, CHR 0x0A] \<or> MAX_HEAD < length (buf @ chunk)
      then Some (finish_head (buf @ chunk))
      else read_request_head (buf @ chunk) reads)"

definition first_line :: "string \<Rightarrow> string" where
  "first_line request =
     (let l = takeWhile (\<lambda>c. c \<noteq> CHR 0x0A) request
      in if length l < length request \<and> l \<noteq> [] \<and> last l = CHR 0x0D then butlast l else l)"

definition is_user_cancel :: "string \<Rightarrow> string option \<Rightarrow> string option \<Rightarrow> bool" where
  "is_user_cancel error subcode description \<longleftrightarrow>
     error = ''access_denied'' \<and> (subcode = Some ''cancel'' \<or> (case description of Some d \<Rightarrow> extract_aadsts_code d = None | None \<Rightarrow> False))"

definition redirect_error :: "string \<Rightarrow> string option \<Rightarrow> string option \<Rightarrow> entra_error" where
  "redirect_error error subcode description =
     (if is_user_cancel error subcode description then Cancelled
      else (let well_formed = 1 \<le> length error \<and> length error \<le> 64
                  \<and> list_all (\<lambda>b. 97 \<le> (of_char b :: nat) \<and> (of_char b :: nat) \<le> 122 \<or> b = CHR ''_'') error
            in Authorization (redact_aad_error (if well_formed then error else ''unrecognized_error'') description)))"

text \<open>The redirect a request carries, as \<open>form_urlencoded\<close> reads its query; of a repeated key the last value counts.\<close>

record redirect_request =
  rq_method :: string
  rq_code :: "string option"
  rq_state :: "string option"
  rq_error :: "string option"
  rq_error_subcode :: "string option"
  rq_error_description :: "string option"

definition parse_request :: "(string \<Rightarrow> (string \<times> string) list) \<Rightarrow> string \<Rightarrow> redirect_request" where
  "parse_request form request =
     (let parts = split_whitespace (first_line request);
          nth_or = (\<lambda>xs i. if i < length xs then xs ! i else []);
          query = nth_or (split_on (CHR ''?'') (nth_or parts 1)) 1;
          field = map_of (rev (form query))
      in \<lparr>rq_method = nth_or parts 0, rq_code = field ''code'', rq_state = field ''state'', rq_error = field ''error'',
          rq_error_subcode = field ''error_subcode'', rq_error_description = field ''error_description''\<rparr>)"

definition redirect_outcome :: "redirect_request \<Rightarrow> entra_error + string" where
  "redirect_outcome rq =
     (case rq_error rq of
        Some err \<Rightarrow> Inl (redirect_error err (rq_error_subcode rq) (rq_error_description rq))
      | None \<Rightarrow> (case rq_code rq of Some code \<Rightarrow> Inr code | None \<Rightarrow> Inl (Authorization ''no code returned'')))"

definition respond :: "string \<Rightarrow> string \<Rightarrow> string" where
  "respond status body =
     (let crlf = [CHR 0x0D, CHR 0x0A]
      in ''HTTP/1.1 '' @ status @ crlf @ (if body = [] then [] else ''Content-Type: text/html; charset=utf-8'' @ crlf)
         @ ''Content-Length: '' @ show_nat (length body) @ crlf @ ''Connection: close'' @ crlf @ crlf @ body)"

text \<open>One connection: the response written to it, if any, and the res that ends the wait, if any.\<close>

definition handle_connection ::
  "(string \<Rightarrow> (string \<times> string) list) \<Rightarrow> string \<Rightarrow> conn_read list \<Rightarrow> string option \<times> (entra_error + string) option" where
  "handle_connection form expected_state reads =
     (case read_request_head [] reads of
        Some (Inr request) \<Rightarrow>
          (let rq = parse_request form request
           in if rq_method rq \<noteq> ''GET'' \<or> rq_code rq = None \<and> rq_state rq = None \<and> rq_error rq = None
              then (Some (respond ''404 Not Found'' []), None)
              else if rq_state rq \<noteq> Some expected_state
              then (Some (respond ''400 Bad Request''
                      ''<html><body><h2>This request doesn't match a pending azapptoolkit sign-in.</h2><p>You can close this window.</p></body></html>''), None)
              else (let res = redirect_outcome rq
                    in (Some (respond ''200 OK''
                          (if \<not> isl res
                           then ''<html><body><h2>azapptoolkit received your sign-in.</h2><p>You can close this window and return to the app.</p></body></html>''
                           else ''<html><body><h2>Sign-in failed.</h2><p>You can close this window.</p></body></html>'')), Some res)))
      | _ \<Rightarrow> (None, None))"

text \<open>The wait, over the events in the order the runtime delivers them: a connection accepted, which needs a free slot, a peer that
  reset, a listener that failed, and a connection in flight that has been handled.  \<open>None\<close> is a wait that has not ended.\<close>

datatype listen_event = Accepted "conn_read list" | ResetByPeer | AcceptFailed string | Finished nat

fun listen_with ::
  "(string \<Rightarrow> (string \<times> string) list) \<Rightarrow> string \<Rightarrow> conn_read list list \<Rightarrow> listen_event list \<Rightarrow> (entra_error + string) option" where
  "listen_with form expected_state inflight [] = None"
| "listen_with form expected_state inflight (Finished i # events) =
     (if i < length inflight then
        (case snd (handle_connection form expected_state (inflight ! i)) of
           Some res \<Rightarrow> Some res
         | None \<Rightarrow> listen_with form expected_state (take i inflight @ drop (Suc i) inflight) events)
      else listen_with form expected_state inflight events)"
| "listen_with form expected_state inflight (Accepted conn # events) =
     (if length inflight < MAX_INFLIGHT_CONNECTIONS then listen_with form expected_state (inflight @ [conn]) events
      else listen_with form expected_state inflight events)"
| "listen_with form expected_state inflight (ResetByPeer # events) = listen_with form expected_state inflight events"
| "listen_with form expected_state inflight (AcceptFailed e # events) =
     (if length inflight < MAX_INFLIGHT_CONNECTIONS then Some (Inl (Loopback e)) else listen_with form expected_state inflight events)"

definition listen_for_code :: "(string \<Rightarrow> (string \<times> string) list) \<Rightarrow> string \<Rightarrow> listen_event list \<Rightarrow> (entra_error + string) option" where
  "listen_for_code form expected_state events = listen_with form expected_state [] events"

section \<open>What the listener accepts\<close>

lemma handle_connection_outcome:
  "snd (handle_connection form st conn) = Some res \<longleftrightarrow>
     (\<exists>request. read_request_head [] conn = Some (Inr request) \<and> rq_method (parse_request form request) = ''GET''
        \<and> rq_state (parse_request form request) = Some st \<and> res = redirect_outcome (parse_request form request))"
  by (auto simp: handle_connection_def Let_def split: option.splits sum.splits)

lemma listen_with_sound:
  assumes "listen_with form st inflight events = Some res"
  shows "(\<exists>e. AcceptFailed e \<in> set events \<and> res = Inl (Loopback e))
     \<or> (\<exists>conn. (conn \<in> set inflight \<or> Accepted conn \<in> set events) \<and> snd (handle_connection form st conn) = Some res)"
  using assms
proof (induction form st inflight events rule: listen_with.induct)
  case (2 form st inflight i events)
  show ?case
  proof (cases "i < length inflight \<and> snd (handle_connection form st (inflight ! i)) \<noteq> None")
    case True
    with "2.prems" have "snd (handle_connection form st (inflight ! i)) = Some res" by auto
    with True show ?thesis by (meson nth_mem)
  next
    case False
    have sub: "set (take i inflight @ drop (Suc i) inflight) \<subseteq> set inflight" using set_take_subset [of i inflight] set_drop_subset [of "Suc i" inflight] by auto
    from False "2.prems" consider "i < length inflight" "snd (handle_connection form st (inflight ! i)) = None"
        "listen_with form st (take i inflight @ drop (Suc i) inflight) events = Some res"
      | "\<not> i < length inflight" "listen_with form st inflight events = Some res" by (auto split: if_splits)
    then show ?thesis
    proof cases
      case 1
      from "2.IH"(1) [OF this] sub show ?thesis by auto
    next
      case 2
      from "2.IH"(2) [OF this] show ?thesis by auto
    qed
  qed
qed (auto split: if_splits)

text \<open>A request without the pending state is never noticed: whatever it carries, the wait goes on as if its slot had come free.\<close>

lemma stray_request_ignored:
  assumes "snd (handle_connection form st conn) = None" "length inflight < MAX_INFLIGHT_CONNECTIONS"
  shows "listen_with form st inflight (Accepted conn # Finished (length inflight) # events) = listen_with form st inflight events"
  using assms by simp

text \<open>C13: Only the redirect of the pending sign-in ends the wait.  Whatever requests reach the port, in whatever order they are
  handled, a code is returned only from a \<open>GET\<close> that carries the pending state, that code and no error; an error is
  returned only from a \<open>GET\<close> that carries the pending state or from a listener that broke.  And any other connection, one that
  never completes a request, or a request that is not a \<open>GET\<close> or does not carry the pending state, changes nothing.\<close>

theorem only_pending_redirect_ends_wait:
  "(listen_for_code form st events = Some res \<longrightarrow>
      (case res of
         Inr code \<Rightarrow>
           (\<exists>conn request. Accepted conn \<in> set events \<and> read_request_head [] conn = Some (Inr request) \<and> rq_method (parse_request form request) = ''GET''
              \<and> rq_state (parse_request form request) = Some st \<and> rq_code (parse_request form request) = Some code \<and> rq_error (parse_request form request) = None)
       | Inl err \<Rightarrow>
           (\<exists>e. AcceptFailed e \<in> set events \<and> err = Loopback e)
           \<or> (\<exists>conn request. Accepted conn \<in> set events \<and> read_request_head [] conn = Some (Inr request)
                \<and> rq_method (parse_request form request) = ''GET'' \<and> rq_state (parse_request form request) = Some st \<and> redirect_outcome (parse_request form request) = Inl err)))
   \<and> ((\<forall>request. read_request_head [] stray = Some (Inr request) \<longrightarrow>
         rq_method (parse_request form request) \<noteq> ''GET'' \<or> rq_state (parse_request form request) \<noteq> Some st) \<longrightarrow>
      length inflight < MAX_INFLIGHT_CONNECTIONS \<longrightarrow>
      listen_with form st inflight (Accepted stray # Finished (length inflight) # events) = listen_with form st inflight events)"
proof (intro conjI impI)
  assume "listen_for_code form st events = Some res"
  from listen_with_sound [OF this [unfolded listen_for_code_def]] consider
      (broken) e where "AcceptFailed e \<in> set events" "res = Inl (Loopback e)"
    | (redirect) conn request where "Accepted conn \<in> set events" "read_request_head [] conn = Some (Inr request)"
        "rq_method (parse_request form request) = ''GET''" "rq_state (parse_request form request) = Some st"
        "res = redirect_outcome (parse_request form request)"
    by (auto simp: handle_connection_outcome)
  then show "case res of
         Inr code \<Rightarrow>
           (\<exists>conn request. Accepted conn \<in> set events \<and> read_request_head [] conn = Some (Inr request) \<and> rq_method (parse_request form request) = ''GET''
              \<and> rq_state (parse_request form request) = Some st \<and> rq_code (parse_request form request) = Some code \<and> rq_error (parse_request form request) = None)
       | Inl err \<Rightarrow>
           (\<exists>e. AcceptFailed e \<in> set events \<and> err = Loopback e)
           \<or> (\<exists>conn request. Accepted conn \<in> set events \<and> read_request_head [] conn = Some (Inr request)
                \<and> rq_method (parse_request form request) = ''GET'' \<and> rq_state (parse_request form request) = Some st \<and> redirect_outcome (parse_request form request) = Inl err)"
  proof cases
    case redirect
    then have code: "rq_code (parse_request form request) = Some c \<and> rq_error (parse_request form request) = None" if "res = Inr c" for c
      using that by (auto simp: redirect_outcome_def split: option.splits)
    show ?thesis
    proof (cases res)
      case (Inl err)
      with redirect(5) have "redirect_outcome (parse_request form request) = Inl err" by simp
      with Inl redirect(1-4) show ?thesis by auto
    next
      case (Inr c)
      with redirect(1-4) code [OF Inr] show ?thesis by auto
    qed
  qed auto
next
  assume stray: "\<forall>request. read_request_head [] stray = Some (Inr request) \<longrightarrow>
         rq_method (parse_request form request) \<noteq> ''GET'' \<or> rq_state (parse_request form request) \<noteq> Some st"
    and "length inflight < MAX_INFLIGHT_CONNECTIONS"
  moreover have "snd (handle_connection form st stray) = None"
    using stray handle_connection_outcome [of form st stray] by (cases "snd (handle_connection form st stray)") auto
  ultimately show "listen_with form st inflight (Accepted stray # Finished (length inflight) # events) = listen_with form st inflight events"
    by (intro stray_request_ignored)
qed

definition demo_form :: "string \<Rightarrow> (string \<times> string) list" where
  "demo_form q = (if q = ''code=c&state=s'' then [(''code'', ''c''), (''state'', ''s'')] else [(''error'', ''x'')])"

definition demo_conn :: "string \<Rightarrow> conn_read list" where
  "demo_conn q = [Bytes (''GET /?'' @ q @ '' HTTP/1.1''), Eof]"

theorem only_pending_redirect_ends_wait_witness:
  "\<exists>conn request. Accepted conn \<in> set [Accepted (demo_conn ''error=x''), Finished 0, Accepted (demo_conn ''code=c&state=s''), Finished 0]
     \<and> read_request_head [] conn = Some (Inr request) \<and> rq_state (parse_request demo_form request) = Some ''s'' \<and> rq_code (parse_request demo_form request) = Some ''c''"
proof -
  let ?es = "[Accepted (demo_conn ''error=x''), Finished 0, Accepted (demo_conn ''code=c&state=s''), Finished 0]"
  have "(case listen_for_code demo_form ''s'' ?es of Some (Inr c) \<Rightarrow> c = ''c'' | _ \<Rightarrow> False)" by code_simp
  then have "listen_for_code demo_form ''s'' ?es = Some (Inr ''c'')" by (simp split: option.splits sum.splits)
  then show ?thesis using only_pending_redirect_ends_wait [of demo_form "''s''" ?es "Inr ''c''" "[]" "[]"] by auto
qed

section \<open>What the endpoint's answers are taken for\<close>

lemma read_token_body_whole:
  "read_token_body broken acc chunks = Whole body \<Longrightarrow> length acc \<le> MAX_TOKEN_RESPONSE_BYTES \<Longrightarrow>
     body = acc @ concat chunks \<and> length body \<le> MAX_TOKEN_RESPONSE_BYTES \<and> broken = None"
  by (induction broken acc chunks rule: read_token_body.induct) (auto split: if_splits option.splits)

lemma read_whole: "read_token_body broken [] chunks = Whole body \<Longrightarrow> broken = None \<and> body = concat chunks \<and> length body \<le> MAX_TOKEN_RESPONSE_BYTES"
  using read_token_body_whole [of broken "[]" chunks body] by auto

lemma classify_invalid_grant:
  "classify_token_error b = InvalidGrant safe \<longleftrightarrow>
     eb_error b = ''invalid_grant'' \<and> safe = redacted_aad_error b
     \<and> (case Option.bind (eb_error_description b) extract_aadsts_code of
          Some code \<Rightarrow> code \<notin> {''AADSTS65001'', ''AADSTS65004''} \<union> set CONDITIONAL_ACCESS_CODES | None \<Rightarrow> True)"
  by (auto simp: classify_token_error_def Let_def split: option.splits)

lemma failure_invalid_grant:
  "failure_error N status ct body = InvalidGrant safe \<longleftrightarrow> (\<exists>b. tn_decode_error N body = Some b \<and> classify_token_error b = InvalidGrant safe)"
  by (auto simp: failure_error_def not_entras_answer_def Let_def split: option.splits entra_error.splits)

lemma token_answer_ok:
  assumes "outcome (token_answer N resp) = Inr token"
  shows "is_success (rp_status resp) \<and> rp_broken resp = None \<and> length (concat (rp_chunks resp)) \<le> MAX_TOKEN_RESPONSE_BYTES \<and> tn_decode N (concat (rp_chunks resp)) = Decoded token"
  using assms
  by (auto simp: token_answer_def Let_def success_answer_def dest!: read_whole split: token_body.splits if_splits token_decoded.splits)

lemma token_answer_dead:
  assumes "outcome (token_answer N resp) = Inl (InvalidGrant safe)"
  shows "\<not> is_success (rp_status resp) \<and> rp_broken resp = None \<and> length (concat (rp_chunks resp)) \<le> MAX_TOKEN_RESPONSE_BYTES
    \<and> (\<exists>b. tn_decode_error N (concat (rp_chunks resp)) = Some b \<and> classify_token_error b = InvalidGrant safe)"
  using assms
  by (auto simp: token_answer_def Let_def success_answer_def not_entras_answer_def failure_invalid_grant dest!: read_whole
      split: token_body.splits if_splits token_decoded.splits)

lemma token_answer_throttled: "token_answer N resp = Retry Throttled status ra err \<Longrightarrow> rp_status resp = 429"
  by (auto simp: token_answer_def Let_def split: token_body.splits if_splits)

text \<open>The outcome of a POST is that of its last attempt.\<close>

lemma post_token_last:
  assumes "post_token N nanos authority params s = (r, s')"
  obtains k where "k \<le> 3" "\<forall>i < k. replays (token_retry_class_for params) (run_attempt (token_attempt N (authority @ ''/oauth2/v2.0/token'') params) s i)"
    "r = outcome (run_attempt (token_attempt N (authority @ ''/oauth2/v2.0/token'') params) s k)"
    "s' = run_state (token_attempt N (authority @ ''/oauth2/v2.0/token'') params) s (Suc k)"
proof -
  let ?att = "token_attempt N (authority @ ''/oauth2/v2.0/token'') params"
  show thesis
    by (rule with_retries_last [of "token_retry_class_for params" ?att s nanos], rule that)
      (use assms in \<open>auto simp: post_token_def split: prod.splits\<close>)
qed

lemma token_attempt_outcome:
  assumes "outcome (run_attempt (token_attempt N url params) s k) = r" "r = Inr token \<or> r = Inl (InvalidGrant safe)"
  obtains resp where "tn_post N url params (run_state (token_attempt N url params) s k) = (Answered resp, run_state (token_attempt N url params) s (Suc k))"
    "outcome (token_answer N resp) = r"
proof -
  let ?s = "run_state (token_attempt N url params) s k"
  obtain a s1 where a: "tn_post N url params ?s = (a, s1)" by fastforce
  with assms obtain resp where "a = Answered resp" by (cases a) (auto simp: run_attempt_def token_attempt_def)
  with a assms(1) show thesis by (intro that [of resp]) (simp_all add: run_attempt_def token_attempt_def)
qed

text \<open>C12: What the endpoint's answers are taken for.  A token is returned only from a success whose body arrived unbroken, is at
  most 64 KiB and decodes to it.  A refresh token is given up as dead only on an error body that arrived unbroken, is at
  most 64 KiB, says \<open>invalid_grant\<close> and names neither missing consent nor one of the codes of a Conditional Access interrupt:
  an answer that does not say so itself, a proxy's page, a bare throttle, an oversized or a broken body, never ends a
  session.  And an authorization code is redeemed at most once however the attempts fail, provided that the endpoint redeems
  it at most once in a request and not in one it answers with 429.\<close>

theorem token_answers_judged:
  assumes "post_token N nanos authority params s = (r, s')"
  shows "(\<forall>token. r = Inr token \<longrightarrow>
        (\<exists>resp s1. tn_post N (authority @ ''/oauth2/v2.0/token'') params s1 = (Answered resp, s') \<and> is_success (rp_status resp)
           \<and> rp_broken resp = None \<and> length (concat (rp_chunks resp)) \<le> 65536 \<and> tn_decode N (concat (rp_chunks resp)) = Decoded token))
     \<and> (\<forall>safe. r = Inl (InvalidGrant safe) \<longrightarrow>
        (\<exists>resp s1 b. tn_post N (authority @ ''/oauth2/v2.0/token'') params s1 = (Answered resp, s') \<and> \<not> is_success (rp_status resp)
           \<and> rp_broken resp = None \<and> length (concat (rp_chunks resp)) \<le> 65536 \<and> tn_decode_error N (concat (rp_chunks resp)) = Some b \<and> eb_error b = ''invalid_grant''
           \<and> (case Option.bind (eb_error_description b) extract_aadsts_code of
                Some code \<Rightarrow> code \<notin> {''AADSTS65001'', ''AADSTS65004''} \<union> set CONDITIONAL_ACCESS_CODES | None \<Rightarrow> True)))
     \<and> (\<forall>redeemed :: 's \<Rightarrow> nat. grant_type params \<noteq> Some ''refresh_token'' \<longrightarrow>
        (\<forall>url s. redeemed (snd (tn_post N url params s)) \<le> Suc (redeemed s)) \<longrightarrow>
        (\<forall>url s resp s1. tn_post N url params s = (Answered resp, s1) \<longrightarrow> rp_status resp = 429 \<longrightarrow> redeemed s1 = redeemed s) \<longrightarrow>
        redeemed s' \<le> Suc (redeemed s))"
proof (intro conjI allI impI)
  let ?url = "authority @ ''/oauth2/v2.0/token''" let ?att = "token_attempt N ?url params"
  obtain k where k: "\<forall>i < k. replays (token_retry_class_for params) (run_attempt ?att s i)" "r = outcome (run_attempt ?att s k)"
    "s' = run_state ?att s (Suc k)" by (rule post_token_last [OF assms])
  { fix token assume "r = Inr token"
    with k(2) obtain resp where "tn_post N ?url params (run_state ?att s k) = (Answered resp, s')" "outcome (token_answer N resp) = Inr token"
      by (metis token_attempt_outcome k(3))
    then show "\<exists>resp s1. tn_post N ?url params s1 = (Answered resp, s') \<and> is_success (rp_status resp)
           \<and> rp_broken resp = None \<and> length (concat (rp_chunks resp)) \<le> 65536 \<and> tn_decode N (concat (rp_chunks resp)) = Decoded token"
      using token_answer_ok [of N resp token] by (auto simp: MAX_TOKEN_RESPONSE_BYTES_def) }
  { fix safe assume "r = Inl (InvalidGrant safe)"
    with k(2) obtain resp where "tn_post N ?url params (run_state ?att s k) = (Answered resp, s')" "outcome (token_answer N resp) = Inl (InvalidGrant safe)"
      by (metis token_attempt_outcome k(3))
    then show "\<exists>resp s1 b. tn_post N ?url params s1 = (Answered resp, s') \<and> \<not> is_success (rp_status resp)
           \<and> rp_broken resp = None \<and> length (concat (rp_chunks resp)) \<le> 65536 \<and> tn_decode_error N (concat (rp_chunks resp)) = Some b \<and> eb_error b = ''invalid_grant''
           \<and> (case Option.bind (eb_error_description b) extract_aadsts_code of
                Some code \<Rightarrow> code \<notin> {''AADSTS65001'', ''AADSTS65004''} \<union> set CONDITIONAL_ACCESS_CODES | None \<Rightarrow> True)"
      using token_answer_dead [of N resp safe] classify_invalid_grant unfolding MAX_TOKEN_RESPONSE_BYTES_def by fastforce }
  fix redeemed :: "'s \<Rightarrow> nat"
  assume code: "grant_type params \<noteq> Some ''refresh_token''"
    and once: "\<forall>url s. redeemed (snd (tn_post N url params s)) \<le> Suc (redeemed s)"
    and refused: "\<forall>url s resp s1. tn_post N url params s = (Answered resp, s1) \<longrightarrow> rp_status resp = 429 \<longrightarrow> redeemed s1 = redeemed s"
  have post: "snd (?att s n) = snd (tn_post N ?url params s)" for s n by (auto simp: token_attempt_def split: prod.splits token_sent.splits)
  have "redeemed (snd (?att s n)) = redeemed s" if "fst (?att s n) = Retry Throttled status ra err" for s n status ra err
  proof -
    obtain a s1 where a: "tn_post N ?url params s = (a, s1)" by fastforce
    with that obtain resp where "a = Answered resp" "rp_status resp = 429"
      by (cases a) (auto simp: token_attempt_def dest: token_answer_throttled)
    with a refused post show ?thesis by simp
  qed
  from throttled_prefix_quiet [OF k(1) [unfolded token_retry_class_for_def if_not_P [OF code]] this order_refl]
  have "redeemed (run_state ?att s k) = redeemed s" .
  with once post k(3) show "redeemed s' \<le> Suc (redeemed s)" by (metis run_state.simps(2))
qed

definition demo_token :: token_response where
  "demo_token = \<lparr>tr_access_token = ''at'', tr_refresh_token = Some ''rt'', tr_id_token = None, tr_expires_in = 3600, tr_scope = None\<rparr>"

definition demo_reply :: token_reply where
  "demo_reply = \<lparr>rp_status = 200, rp_retry_after = None, rp_www_authenticate = None, rp_content_length = None, rp_chunks = [''ok''],
     rp_broken = None, rp_content_type = None\<rparr>"

definition demo_endpoint :: "nat token_net" where
  "demo_endpoint = \<lparr>tn_post = (\<lambda>url params n. (Answered demo_reply, Suc n)), tn_decode = (\<lambda>body. Decoded demo_token), tn_decode_error = (\<lambda>body. None)\<rparr>"

theorem token_answers_judged_witness:
  "snd (post_token demo_endpoint (\<lambda>_. 0) ''a'' [] 0) \<le> 1 \<and> fst (post_token demo_endpoint (\<lambda>_. 0) ''a'' [] 0) = Inr demo_token"
proof -
  have "token_attempt demo_endpoint (''a'' @ ''/oauth2/v2.0/token'') [] 0 0 = (Done (Inr demo_token), 1)"
    by (simp add: token_attempt_def demo_endpoint_def token_answer_def demo_reply_def success_answer_def is_success_def MAX_TOKEN_RESPONSE_BYTES_def)
  then have run: "post_token demo_endpoint (\<lambda>_. 0) ''a'' [] 0 = (Inr demo_token, 1)"
    by (simp add: post_token_def with_retries_def with_retries_loop.simps budget_new_def)
  have "\<forall>redeemed :: nat \<Rightarrow> nat. grant_type [] \<noteq> Some ''refresh_token'' \<longrightarrow>
        (\<forall>url s. redeemed (snd (tn_post demo_endpoint url [] s)) \<le> Suc (redeemed s)) \<longrightarrow>
        (\<forall>url s resp s1. tn_post demo_endpoint url [] s = (Answered resp, s1) \<longrightarrow> rp_status resp = 429 \<longrightarrow> redeemed s1 = redeemed s) \<longrightarrow>
        redeemed 1 \<le> Suc (redeemed 0)"
    using token_answers_judged [OF run] by blast
  from spec [OF this, of id] have "(1 :: nat) \<le> Suc 0" by (simp add: grant_type_def demo_endpoint_def demo_reply_def)
  with run show ?thesis by simp
qed

end
