(* ===== verification/Cloud_Scopes.thy ===== *)
theory Cloud_Scopes
  imports Toolkit_Prelude
begin

text \<open>
  The Microsoft clouds and their endpoints (\<^verbatim>\<open>core/src/cloud.rs\<close>), the choice of one from two layers of configuration, and the
  scope sets each feature asks a token for (\<^verbatim>\<open>auth/src/service/scopes.rs\<close>).  The lemmas show that a cloud's name is read back,
  that the first usable layer decides, and that exactly the Graph scope sets of the chosen cloud are taken for Graph ones.
\<close>

section \<open>Clouds\<close>

datatype cloud_environment = Commercial | UsGov | UsGovDod | China

definition ALL_CLOUDS :: "cloud_environment list" where
  "ALL_CLOUDS = [Commercial, UsGov, UsGovDod, China]"

fun cloud_as_str :: "cloud_environment \<Rightarrow> string" where
  "cloud_as_str Commercial = ''commercial''"
| "cloud_as_str UsGov = ''usgov''"
| "cloud_as_str UsGovDod = ''usgovdod''"
| "cloud_as_str China = ''china''"

fun cloud_display_name :: "cloud_environment \<Rightarrow> string" where
  "cloud_display_name Commercial = ''Commercial (global)''"
| "cloud_display_name UsGov = ''US Gov (GCC High)''"
| "cloud_display_name UsGovDod = ''US Gov DoD''"
| "cloud_display_name China = ''China (21Vianet)''"

fun accepted_names :: "cloud_environment \<Rightarrow> string list" where
  "accepted_names Commercial = [''commercial'', ''public'', ''global'', ''azurecloud'']"
| "accepted_names UsGov = [''usgov'', ''gcchigh'', ''gcc-high'', ''usgovernment'', ''azureusgovernment'']"
| "accepted_names UsGovDod = [''usgovdod'', ''dod'', ''usgovernmentdod'']"
| "accepted_names China = [''china'', ''21vianet'', ''mooncake'', ''azurechinacloud'']"

definition cloud_parse :: "string \<Rightarrow> cloud_environment option" where
  "cloud_parse s =
     (let name = to_ascii_lowercase (trim s)
      in if name = [] then Some Commercial else List.find (\<lambda>c. name \<in> set (accepted_names c)) ALL_CLOUDS)"

fun select_layers :: "(string \<times> string option) list \<Rightarrow> string list \<Rightarrow> cloud_environment \<times> string list" where
  "select_layers [] ignored = (Commercial, ignored)"
| "select_layers ((layer, text) # layers) ignored =
     (case text of
        None \<Rightarrow> select_layers layers ignored
      | Some v \<Rightarrow>
          if trim v = [] then select_layers layers ignored
          else (case cloud_parse v of
                  Some c \<Rightarrow> (c, ignored)
                | None \<Rightarrow> select_layers layers (ignored @ [[CHR 0x22] @ trim v @ [CHR 0x22] @ '' (from the '' @ layer @ '')''])))"

definition select_with_warning :: "string option \<Rightarrow> string option \<Rightarrow> cloud_environment \<times> string option" where
  "select_with_warning env baked =
     (let (chosen, ignored) = select_layers [(''environment variable'', env), (''build-time .env'', baked)] []
      in (chosen,
          if ignored = [] then None
          else Some (''AZAPPTOOLKIT_CLOUD '' @ join '' and '' ignored @ '' is not a cloud azapptoolkit knows, so it was ignored and sign-in uses ''
                 @ cloud_display_name chosen @ ''. Valid values: '' @ join '', '' (map cloud_as_str ALL_CLOUDS) @ '' '' @ em_dash
                 @ '' correct it, then restart azapptoolkit.'')))"

definition cloud_select :: "string option \<Rightarrow> string option \<Rightarrow> cloud_environment" where
  "cloud_select env baked = fst (select_with_warning env baked)"

fun login_authority_root :: "cloud_environment \<Rightarrow> string" where
  "login_authority_root Commercial = ''https://login.microsoftonline.com''"
| "login_authority_root UsGov = ''https://login.microsoftonline.us''"
| "login_authority_root UsGovDod = ''https://login.microsoftonline.us''"
| "login_authority_root China = ''https://login.partner.microsoftonline.cn''"

fun custom_app_template_id :: "cloud_environment \<Rightarrow> string" where
  "custom_app_template_id Commercial = ''8adf8e6e-67b2-4cf2-a259-e3dc5476c621''"
| "custom_app_template_id UsGov = ''4602d0b4-76bb-404b-bca9-2652e1a39c6d''"
| "custom_app_template_id UsGovDod = ''4602d0b4-76bb-404b-bca9-2652e1a39c6d''"
| "custom_app_template_id China = ''5a532e38-1581-4918-9658-008dc27c1d68''"

fun saml_issuer_root :: "cloud_environment \<Rightarrow> string" where
  "saml_issuer_root China = ''https://sts.chinacloudapi.cn''"
| "saml_issuer_root _ = ''https://sts.windows.net''"

fun graph_resource :: "cloud_environment \<Rightarrow> string" where
  "graph_resource Commercial = ''https://graph.microsoft.com''"
| "graph_resource UsGov = ''https://graph.microsoft.us''"
| "graph_resource UsGovDod = ''https://dod-graph.microsoft.us''"
| "graph_resource China = ''https://microsoftgraph.chinacloudapi.cn''"

definition graph_base :: "cloud_environment \<Rightarrow> string" where
  "graph_base c = graph_resource c @ ''/v1.0''"

fun exchange_resource :: "cloud_environment \<Rightarrow> string" where
  "exchange_resource Commercial = ''https://outlook.office365.com''"
| "exchange_resource UsGov = ''https://outlook.office365.us''"
| "exchange_resource UsGovDod = ''https://outlook-dod.office365.us''"
| "exchange_resource China = ''https://partner.outlook.cn''"

fun keyvault_dns_suffix :: "cloud_environment \<Rightarrow> string" where
  "keyvault_dns_suffix Commercial = ''vault.azure.net''"
| "keyvault_dns_suffix China = ''vault.azure.cn''"
| "keyvault_dns_suffix _ = ''vault.usgovcloudapi.net''"

definition keyvault_resource :: "cloud_environment \<Rightarrow> string" where
  "keyvault_resource c = ''https://'' @ keyvault_dns_suffix c"

fun arm_resource :: "cloud_environment \<Rightarrow> string" where
  "arm_resource Commercial = ''https://management.azure.com''"
| "arm_resource China = ''https://management.chinacloudapi.cn''"
| "arm_resource _ = ''https://management.usgovcloudapi.net''"

fun token_exchange_audience :: "cloud_environment \<Rightarrow> string" where
  "token_exchange_audience Commercial = ''api://AzureADTokenExchange''"
| "token_exchange_audience China = ''api://AzureADTokenExchangeChina''"
| "token_exchange_audience _ = ''api://AzureADTokenExchangeUSGov''"

fun log_analytics_resource :: "cloud_environment \<Rightarrow> string" where
  "log_analytics_resource Commercial = ''https://api.loganalytics.azure.com''"
| "log_analytics_resource China = ''https://api.loganalytics.azure.cn''"
| "log_analytics_resource _ = ''https://api.loganalytics.us''"

fun entra_admin_center :: "cloud_environment \<Rightarrow> string" where
  "entra_admin_center Commercial = ''https://entra.microsoft.com''"
| "entra_admin_center China = ''https://entra.microsoftonline.cn''"
| "entra_admin_center _ = ''https://entra.microsoft.us''"

definition pim_my_roles_url :: "cloud_environment \<Rightarrow> string" where
  "pim_my_roles_url c = entra_admin_center c @ ''/#view/Microsoft_Azure_PIMCommon/ActivationMenuBlade/~/aadmigratedroles''"

text \<open>The value read from a settings file; \<open>Inl\<close> is the error text of the deserializer.\<close>

definition cloud_deserialize :: "string \<Rightarrow> string + cloud_environment" where
  "cloud_deserialize s =
     (if trim s = [] then Inl ''cloud is empty''
      else (case cloud_parse s of Some c \<Rightarrow> Inr c | None \<Rightarrow> Inl (''unknown cloud '' @ [CHR 0x27] @ s @ [CHR 0x27])))"

section \<open>Scope sets\<close>

definition GRAPH_READ_SCOPES :: "string list" where
  "GRAPH_READ_SCOPES = [''Directory.Read.All'']"

definition GRAPH_WRITE_SCOPES :: "string list" where
  "GRAPH_WRITE_SCOPES = [''Application.ReadWrite.All'', ''AppRoleAssignment.ReadWrite.All'', ''DelegatedPermissionGrant.ReadWrite.All'']"

definition EXCHANGE_SCOPES :: "string list" where
  "EXCHANGE_SCOPES = [''Exchange.Manage'']"

definition RESERVED_SCOPES :: "string list" where
  "RESERVED_SCOPES = [''offline_access'', ''openid'', ''profile'']"

definition graph_scopes :: "cloud_environment \<Rightarrow> string list \<Rightarrow> string list" where
  "graph_scopes c permissions = map (\<lambda>p. graph_resource c @ ''/'' @ p) permissions @ [''offline_access'', ''openid'', ''profile'']"

definition default_graph_read_scopes :: "cloud_environment \<Rightarrow> string list" where
  "default_graph_read_scopes c = graph_scopes c GRAPH_READ_SCOPES"

definition default_graph_write_scopes :: "cloud_environment \<Rightarrow> string list" where
  "default_graph_write_scopes c = graph_scopes c GRAPH_WRITE_SCOPES"

definition default_graph_sync_scopes :: "cloud_environment \<Rightarrow> string list" where
  "default_graph_sync_scopes c = graph_scopes c [''Synchronization.Read.All'']"

definition default_graph_audit_log_scopes :: "cloud_environment \<Rightarrow> string list" where
  "default_graph_audit_log_scopes c = graph_scopes c [''AuditLog.Read.All'']"

definition default_graph_policy_scopes :: "cloud_environment \<Rightarrow> string list" where
  "default_graph_policy_scopes c = graph_scopes c [''Policy.Read.All'']"

definition default_graph_risky_service_principal_scopes :: "cloud_environment \<Rightarrow> string list" where
  "default_graph_risky_service_principal_scopes c = graph_scopes c [''IdentityRiskyServicePrincipal.Read.All'']"

definition default_graph_policy_write_scopes :: "cloud_environment \<Rightarrow> string list" where
  "default_graph_policy_write_scopes c = graph_scopes c [''Policy.ReadWrite.ApplicationConfiguration'', ''Application.ReadWrite.All'']"

definition default_graph_sharepoint_scopes :: "cloud_environment \<Rightarrow> string list" where
  "default_graph_sharepoint_scopes c = graph_scopes c [''Sites.FullControl.All'']"

definition default_graph_group_member_scopes :: "cloud_environment \<Rightarrow> string list" where
  "default_graph_group_member_scopes c = graph_scopes c [''GroupMember.ReadWrite.All'', ''Application.ReadWrite.All'']"

definition is_graph_scope_set :: "cloud_environment \<Rightarrow> string list \<Rightarrow> bool" where
  "is_graph_scope_set c scopes \<longleftrightarrow>
     (let resource_scopes = filter (\<lambda>s. s \<notin> {''offline_access'', ''openid'', ''profile''}) scopes
      in resource_scopes \<noteq> [] \<and> list_all (\<lambda>s. starts_with s (graph_resource c @ ''/'')) resource_scopes)"

definition default_exchange_scopes :: "cloud_environment \<Rightarrow> string list" where
  "default_exchange_scopes c = map (\<lambda>p. exchange_resource c @ ''/'' @ p) EXCHANGE_SCOPES @ [''offline_access'']"

definition trim_end_slashes :: "string \<Rightarrow> string" where
  "trim_end_slashes s = rev (dropWhile (\<lambda>c. c = CHR ''/'') (rev s))"

definition resource_default_scopes :: "string \<Rightarrow> string list" where
  "resource_default_scopes resource_url = [trim_end_slashes resource_url @ ''/.default'', ''offline_access'']"

section \<open>What the names and the scope sets mean\<close>

lemma accepted_names_disjoint: "n \<in> set (accepted_names c) \<Longrightarrow> n \<in> set (accepted_names d) \<Longrightarrow> c = d"
  by (cases c; cases d) auto

lemma accepted_name_parsed:
  assumes "to_ascii_lowercase (trim s) \<in> set (accepted_names c)"
  shows "cloud_parse s = Some c"
proof -
  let ?n = "to_ascii_lowercase (trim s)"
  have ne: "?n \<noteq> []" using assms by (cases c) auto
  have one: "?n \<in> set (accepted_names d) \<longleftrightarrow> d = c" for d using assms accepted_names_disjoint by blast
  from ne show ?thesis by (cases c) (simp_all add: cloud_parse_def Let_def one ALL_CLOUDS_def)
qed

text \<open>A name the parser accepts is a blank or one of the accepted names of the cloud it gives.\<close>

lemma cloud_parse_iff:
  "cloud_parse s = Some c \<longleftrightarrow> (if to_ascii_lowercase (trim s) = [] then c = Commercial else to_ascii_lowercase (trim s) \<in> set (accepted_names c))"
  using accepted_name_parsed [of s]
  by (auto simp: cloud_parse_def Let_def find_Some_iff split: if_splits)

text \<open>A Graph scope set is recognised in its own cloud and in no other, and the sets of the other audiences never are: a token
  is minted with the client capability exactly where the Graph adapters look for one.\<close>

lemma graph_resources_apart:
  "starts_with (graph_resource c @ ''/'' @ p) (graph_resource d @ ''/'') \<longleftrightarrow> c = d"
  by (cases c; cases d) (simp_all add: starts_with_code)

theorem graph_scope_sets_exact:
  "is_graph_scope_set c (graph_scopes d permissions) \<longleftrightarrow> c = d \<and> permissions \<noteq> []"
  "\<not> is_graph_scope_set c (default_exchange_scopes d)"
  "\<not> is_graph_scope_set c (resource_default_scopes (arm_resource d))"
  "\<not> is_graph_scope_set c (resource_default_scopes (keyvault_resource d))"
  "\<not> is_graph_scope_set c (resource_default_scopes (log_analytics_resource d))"
proof -
  let ?res = "\<lambda>s. s \<notin> {''offline_access'', ''openid'', ''profile''}"
  have https: "?res (graph_resource d @ ''/'' @ p)" for p by (cases d) simp_all
  have "filter ?res (graph_scopes d permissions) = map (\<lambda>p. graph_resource d @ ''/'' @ p) permissions"
    using https by (simp add: graph_scopes_def filter_map o_def)
  then have "is_graph_scope_set c (graph_scopes d permissions) \<longleftrightarrow>
      permissions \<noteq> [] \<and> (\<forall>p \<in> set permissions. starts_with (graph_resource d @ ''/'' @ p) (graph_resource c @ ''/''))"
    unfolding is_graph_scope_set_def Let_def by (simp only: list_all_iff set_map ball_simps map_is_Nil_conv)
  then show "is_graph_scope_set c (graph_scopes d permissions) \<longleftrightarrow> c = d \<and> permissions \<noteq> []"
    unfolding graph_resources_apart by (cases permissions) auto
  show "\<not> is_graph_scope_set c (default_exchange_scopes d)"
    by (cases c; cases d) (simp_all add: is_graph_scope_set_def default_exchange_scopes_def EXCHANGE_SCOPES_def starts_with_code)
  show "\<not> is_graph_scope_set c (resource_default_scopes (arm_resource d))"
    by (cases c; cases d) (simp_all add: is_graph_scope_set_def resource_default_scopes_def trim_end_slashes_def starts_with_code)
  show "\<not> is_graph_scope_set c (resource_default_scopes (keyvault_resource d))"
    by (cases c; cases d) (simp_all add: is_graph_scope_set_def resource_default_scopes_def keyvault_resource_def trim_end_slashes_def starts_with_code)
  show "\<not> is_graph_scope_set c (resource_default_scopes (log_analytics_resource d))"
    by (cases c; cases d) (simp_all add: is_graph_scope_set_def resource_default_scopes_def trim_end_slashes_def starts_with_code)
qed

text \<open>A cloud is read back from its own name, however it is padded and cased; the environment variable decides before the
  build-time value, a blank or unknown layer is skipped, and there is a warning exactly when an unknown one was.\<close>

theorem cloud_choice_exact:
  "cloud_deserialize (cloud_as_str c) = Inr c"
  "cloud_select env baked =
     (case env of
        Some v \<Rightarrow> if trim v \<noteq> [] \<and> cloud_parse v \<noteq> None then the (cloud_parse v)
                  else (case baked of Some b \<Rightarrow> if trim b = [] then Commercial else (case cloud_parse b of Some d \<Rightarrow> d | None \<Rightarrow> Commercial) | None \<Rightarrow> Commercial)
      | None \<Rightarrow> (case baked of Some b \<Rightarrow> if trim b = [] then Commercial else (case cloud_parse b of Some d \<Rightarrow> d | None \<Rightarrow> Commercial) | None \<Rightarrow> Commercial))"
  "(snd (select_with_warning env baked) \<noteq> None) =
     ((\<exists>v. env = Some v \<and> trim v \<noteq> [] \<and> cloud_parse v = None)
      \<or> (\<exists>b. baked = Some b \<and> trim b \<noteq> [] \<and> cloud_parse b = None \<and> \<not> (\<exists>v. env = Some v \<and> trim v \<noteq> [] \<and> cloud_parse v \<noteq> None)))"
proof -
  have "(case cloud_deserialize (cloud_as_str c) of Inr d \<Rightarrow> d = c | Inl e \<Rightarrow> False)"
    by (cases c) (simp_all only:, code_simp+)
  then show "cloud_deserialize (cloud_as_str c) = Inr c" by (simp split: sum.splits)
  show "cloud_select env baked =
     (case env of
        Some v \<Rightarrow> if trim v \<noteq> [] \<and> cloud_parse v \<noteq> None then the (cloud_parse v)
                  else (case baked of Some b \<Rightarrow> if trim b = [] then Commercial else (case cloud_parse b of Some d \<Rightarrow> d | None \<Rightarrow> Commercial) | None \<Rightarrow> Commercial)
      | None \<Rightarrow> (case baked of Some b \<Rightarrow> if trim b = [] then Commercial else (case cloud_parse b of Some d \<Rightarrow> d | None \<Rightarrow> Commercial) | None \<Rightarrow> Commercial))"
    by (auto simp: cloud_select_def select_with_warning_def split: option.splits)
  show "(snd (select_with_warning env baked) \<noteq> None) =
     ((\<exists>v. env = Some v \<and> trim v \<noteq> [] \<and> cloud_parse v = None)
      \<or> (\<exists>b. baked = Some b \<and> trim b \<noteq> [] \<and> cloud_parse b = None \<and> \<not> (\<exists>v. env = Some v \<and> trim v \<noteq> [] \<and> cloud_parse v \<noteq> None)))"
    by (auto simp: select_with_warning_def split: option.splits)
qed

end
