(* ===== verification/Auth_Sessions.thy ===== *)
theory Auth_Sessions
  imports Token_Endpoint Cloud_Scopes
begin

text \<open>
  The session protocol of the sign-in service (\<^verbatim>\<open>auth/src/service/mod.rs\<close>).  Sign-in, silent refresh, consent and step-up,
  re-authentication, the restore of a stored session and sign-out run concurrently and meet in four places: the session
  epoch, the registry of signed-in tenants, the access-token cache and the stored refresh tokens.  Each critical section of
  the code is a function on these; \<open>auth_step\<close> interleaves them, one flow per task.  The token endpoint and the browser answer
  with any token of the account they authenticated.  The stored tokens are a map from tenant and account, which is what
  the operations of \<open>Token_Store\<close> give under their lock; any of them may fail.  The epoch is a counter without bound.
\<close>

section \<open>Contexts and identity checks\<close>

record tenant_context =
  tc_tenant_id :: string
  tc_account_oid :: string
  tc_username :: "string option"
  tc_display_name :: "string option"

definition canonical_tenant_id :: "string \<Rightarrow> string" where
  "canonical_tenant_id raw = to_ascii_lowercase (trim raw)"

definition REFRESH_LEEWAY_SECS :: int where
  "REFRESH_LEEWAY_SECS = 60"

definition MAX_TOKEN_TTL_SECS :: int where
  "MAX_TOKEN_TTL_SECS = 2 * 24 * 60 * 60"

definition ensure_same_identity :: "id_claims \<Rightarrow> tenant_context \<Rightarrow> string \<Rightarrow> entra_error + unit" where
  "ensure_same_identity claims tenant action =
     (if ic_tid claims \<noteq> Some (tc_tenant_id tenant)
      then Inl (Authorization (action @ '' completed for a different tenant '' @ em_dash @ '' use Sign Out to switch''))
      else if ic_oid claims \<noteq> Some (tc_account_oid tenant)
      then Inl (Authorization (action @ '' completed with a different account '' @ em_dash @ '' use Sign Out to switch''))
      else Inr ())"

definition restored_context :: "tenant_context \<Rightarrow> (entra_error + id_claims) option \<Rightarrow> entra_error + tenant_context" where
  "restored_context remembered claims =
     (case claims of
        None \<Rightarrow> Inr remembered
      | Some (Inl e) \<Rightarrow> Inl e
      | Some (Inr c) \<Rightarrow>
          (case ensure_same_identity c remembered ''session restore'' of
             Inl e \<Rightarrow> Inl e
           | Inr _ \<Rightarrow> Inr (remembered\<lparr>
               tc_username := (case ic_preferred_username c of Some u \<Rightarrow> Some u | None \<Rightarrow> tc_username remembered),
               tc_display_name := (case ic_name c of Some n \<Rightarrow> Some n | None \<Rightarrow> tc_display_name remembered)\<rparr>)))"

definition held_by_another_account :: "(string \<rightharpoonup> tenant_context) \<Rightarrow> tenant_context \<Rightarrow> bool" where
  "held_by_another_account registry tenant \<longleftrightarrow>
     (case registry (tc_tenant_id tenant) of Some live \<Rightarrow> tc_account_oid live \<noteq> tc_account_oid tenant | None \<Rightarrow> False)"

definition sign_in_refused :: "string \<Rightarrow> entra_error option" where
  "sign_in_refused configured =
     (if CHR ''.'' \<in> set configured
      then Some (TokenExchange (''configured tenant '' @ configured @ '' is a domain; azapptoolkit needs the Directory (tenant) ID GUID from the app registration's Overview page''))
      else None)"

definition sign_in_context :: "string \<Rightarrow> id_claims \<Rightarrow> entra_error + tenant_context" where
  "sign_in_context configured claims =
     (case ic_tid claims of
        None \<Rightarrow> Inl (TokenExchange ''id token missing tid'')
      | Some tid \<Rightarrow>
          if tid \<noteq> configured then Inl (TokenExchange (''id token tid '' @ tid @ '' does not match configured tenant '' @ configured))
          else (case ic_oid claims of
                  None \<Rightarrow> Inl (TokenExchange ''id token missing oid'')
                | Some oid \<Rightarrow> Inr \<lparr>tc_tenant_id = tid, tc_account_oid = oid, tc_username = ic_preferred_username claims, tc_display_name = ic_name claims\<rparr>))"

text \<open>The reserved scopes an interactive round trip adds to the scopes it is for.\<close>

definition auth_scopes :: "string list \<Rightarrow> string list" where
  "auth_scopes scopes = scopes @ filter (\<lambda>r. r \<notin> set scopes) RESERVED_SCOPES"

section \<open>The critical sections\<close>

datatype refresh_token_save = Required | BestEffort

datatype registration = Keep | Claim | Replace

record auth_state =
  au_epoch :: nat
  au_registry :: "string \<rightharpoonup> tenant_context"
  au_cache :: token_cache
  au_stored :: "string \<times> string \<rightharpoonup> string"

text \<open>What a flow hands to the store: all its arguments but the token.\<close>

record grant =
  gr_tenant :: tenant_context
  gr_scopes :: "string list"
  gr_fallback :: "string list"
  gr_cae :: bool
  gr_save :: refresh_token_save
  gr_fence :: nat
  gr_registration :: registration

definition access_of :: "datetime \<Rightarrow> string list \<Rightarrow> token_response \<Rightarrow> access_token" where
  "access_of now fallback token =
     (let secs = tr_expires_in token;
          ttl = (if unat secs < 2 ^ 63 then min (uint secs) MAX_TOKEN_TTL_SECS else MAX_TOKEN_TTL_SECS)
      in \<lparr>at_token = tr_access_token token, at_expires_at = now + ttl * 1000000000, at_scopes = parse_scopes (tr_scope token) fallback\<rparr>)"

definition switch_session :: "string \<Rightarrow> 'z auth_state_scheme \<Rightarrow> nat \<times> 'z auth_state_scheme" where
  "switch_session t st =
     (Suc (au_epoch st),
      st\<lparr>au_cache := token_invalidate_tenant t (au_cache st), au_registry := (au_registry st)(t := None), au_epoch := Suc (au_epoch st)\<rparr>)"

definition capture_session :: "string \<Rightarrow> 'z auth_state_scheme \<Rightarrow> entra_error + tenant_context \<times> nat" where
  "capture_session t st = (case au_registry st t of None \<Rightarrow> Inl NotSignedIn | Some tenant \<Rightarrow> Inr (tenant, au_epoch st))"

definition begin_restore :: "tenant_context \<Rightarrow> 'z auth_state_scheme \<Rightarrow> tenant_context + nat" where
  "begin_restore tenant st = (case au_registry st (tc_tenant_id tenant) of Some live \<Rightarrow> Inl live | None \<Rightarrow> Inr (au_epoch st))"

definition begin_reauthenticate :: "tenant_context \<Rightarrow> 'z auth_state_scheme \<Rightarrow> entra_error + nat" where
  "begin_reauthenticate tenant st =
     (if held_by_another_account (au_registry st) tenant
      then Inl (Authorization (''re-authentication was asked for an account other than the one signed in '' @ em_dash @ '' use Sign Out to switch''))
      else Inr (au_epoch st))"

definition fresh_cached :: "datetime \<Rightarrow> string \<Rightarrow> string list \<Rightarrow> bool \<Rightarrow> 'z auth_state_scheme \<Rightarrow> access_token option" where
  "fresh_cached now t scopes cae st =
     (case token_get t scopes cae (au_cache st) of
        Some a \<Rightarrow> if needs_refresh now REFRESH_LEEWAY_SECS a then None else Some a
      | None \<Rightarrow> None)"

definition answer_before_lock :: "datetime \<Rightarrow> bool \<Rightarrow> bool \<Rightarrow> string \<Rightarrow> string list \<Rightarrow> bool \<Rightarrow> 'z auth_state_scheme \<Rightarrow> access_token option" where
  "answer_before_lock now restoring bypass t scopes cae st = (if restoring \<or> bypass then None else fresh_cached now t scopes cae st)"

definition answer_under_lock ::
  "datetime \<Rightarrow> bool \<Rightarrow> bool \<Rightarrow> access_token option \<Rightarrow> string \<Rightarrow> string list \<Rightarrow> bool \<Rightarrow> 'z auth_state_scheme \<Rightarrow> access_token option" where
  "answer_under_lock now restoring bypass before t scopes cae st =
     (if restoring then None
      else (case fresh_cached now t scopes cae st of
              Some fresh \<Rightarrow>
                if \<not> bypass \<or> (case before of Some b \<Rightarrow> at_expires_at b \<noteq> at_expires_at fresh | None \<Rightarrow> True) then Some fresh else None
            | None \<Rightarrow> None))"

fun save_verdict :: "auth_error + bool \<Rightarrow> refresh_token_save \<Rightarrow> entra_error option" where
  "save_verdict (Inr False) save = Some NotSignedIn"
| "save_verdict (Inr True) save = None"
| "save_verdict (Inl (Keyring e)) BestEffort = None"
| "save_verdict (Inl e) save = Some (Stored e)"

definition commit_token :: "datetime \<Rightarrow> grant \<Rightarrow> token_response \<Rightarrow> 'z auth_state_scheme \<Rightarrow> (entra_error + access_token) \<times> 'z auth_state_scheme" where
  "commit_token now g token st =
     (let access = access_of now (gr_fallback g) token; t = tc_tenant_id (gr_tenant g)
      in if au_epoch st \<noteq> gr_fence g then (Inl NotSignedIn, st)
         else if gr_registration g \<noteq> Replace \<and> held_by_another_account (au_registry st) (gr_tenant g) then (Inl NotSignedIn, st)
         else (Inr access,
               st\<lparr>au_cache := token_put t (gr_scopes g) (gr_cae g) access (au_cache st),
                  au_registry := (if gr_registration g \<noteq> Keep then (au_registry st)(t \<mapsto> gr_tenant g) else au_registry st)\<rparr>))"

definition purge_stored :: "string \<Rightarrow> string option \<Rightarrow> purge_outcome \<times> string option" where
  "purge_stored rejected found =
     (case found of
        Some current \<Rightarrow> if current = rejected then (Deleted, None) else (Superseded, found)
      | None \<Rightarrow> (AlreadyGone, None))"

datatype after_purge = LoadNewer | GiveUp entra_error | SessionDead

definition purged :: "auth_error + purge_outcome \<Rightarrow> nat \<Rightarrow> grant \<Rightarrow> bool \<Rightarrow> after_purge" where
  "purged result epoch g retried =
     (if result = Inr Superseded then
        (if epoch \<noteq> gr_fence g then GiveUp NotSignedIn
         else if \<not> retried then LoadNewer
         else GiveUp (RefreshTokenMissing (tc_tenant_id (gr_tenant g))))
      else SessionDead)"

definition drop_dead_session :: "grant \<Rightarrow> 'z auth_state_scheme \<Rightarrow> 'z auth_state_scheme" where
  "drop_dead_session g st =
     (let t = tc_tenant_id (gr_tenant g)
      in if au_epoch st = gr_fence g
         then st\<lparr>au_cache := token_invalidate_tenant t (au_cache st), au_registry := (au_registry st)(t := None)\<rparr>
         else st)"

definition sign_out_account :: "tenant_context \<Rightarrow> 'z auth_state_scheme \<Rightarrow> string" where
  "sign_out_account tenant st =
     (case au_registry st (tc_tenant_id tenant) of Some live \<Rightarrow> tc_account_oid live | None \<Rightarrow> tc_account_oid tenant)"

definition sweep_after_sign_out :: "string \<Rightarrow> nat \<Rightarrow> 'z auth_state_scheme \<Rightarrow> 'z auth_state_scheme" where
  "sweep_after_sign_out t bumped st =
     (if au_epoch st = bumped
      then st\<lparr>au_cache := token_invalidate_tenant t (au_cache st), au_registry := (au_registry st)(t := None)\<rparr>
      else st)"

definition refresh_session :: "string \<Rightarrow> 'z auth_state_scheme \<Rightarrow> 'z auth_state_scheme" where
  "refresh_session t st = st\<lparr>au_cache := token_invalidate_tenant t (au_cache st)\<rparr>"

definition forget_spares :: "string \<Rightarrow> string \<Rightarrow> 'z auth_state_scheme \<Rightarrow> bool" where
  "forget_spares t oid st \<longleftrightarrow> (case au_registry st t of Some live \<Rightarrow> tc_account_oid live = oid | None \<Rightarrow> False)"

section \<open>The interleaving\<close>

text \<open>Where a flow stands between two of its sections.\<close>

datatype flow =
    Idle
  | Loading grant bool
  | Posting grant bool string
  | Purging grant bool string
  | Dropping grant
  | Browsing grant string
  | SigningIn
  | Saving grant token_response
  | Committing grant token_response
  | Mismatched tenant_context nat entra_error
  | Deleting string string
  | Sweeping string nat
  | Forgetting string string
  | Over "entra_error option"

fun grant_of :: "flow \<Rightarrow> grant option" where
  "grant_of (Loading g _) = Some g"
| "grant_of (Posting g _ _) = Some g"
| "grant_of (Purging g _ _) = Some g"
| "grant_of (Dropping g) = Some g"
| "grant_of (Browsing g _) = Some g"
| "grant_of (Saving g _) = Some g"
| "grant_of (Committing g _) = Some g"
| "grant_of _ = None"

text \<open>The world: the shared state, the flow of each task and, for the statements only, the account whose session of a tenant is
  open.  A sign-in opens one where it moves the epoch, a re-authentication or a restore where it registers, and the sweep of
  a sign-out closes it.\<close>

record auth_world = auth_state +
  aw_flows :: "nat \<Rightarrow> flow"
  aw_session :: "string \<rightharpoonup> string"

abbreviation set_flow :: "nat \<Rightarrow> flow \<Rightarrow> auth_world \<Rightarrow> auth_world" where
  "set_flow i f w \<equiv> w\<lparr>aw_flows := (aw_flows w)(i := f)\<rparr>"

abbreviation set_stored :: "(string \<times> string) \<Rightarrow> string option \<Rightarrow> auth_world \<Rightarrow> auth_world" where
  "set_stored k v w \<equiv> w\<lparr>au_stored := (au_stored w)(k := v)\<rparr>"

abbreviation set_session :: "string \<Rightarrow> string option \<Rightarrow> auth_world \<Rightarrow> auth_world" where
  "set_session t a w \<equiv> w\<lparr>aw_session := (aw_session w)(t := a)\<rparr>"

abbreviation account :: "tenant_context \<Rightarrow> string \<times> string" where
  "account c \<equiv> (tc_tenant_id c, tc_account_oid c)"

text \<open>The tokens of a response were issued for one account.\<close>

definition issued :: "(string \<Rightarrow> string \<times> string) \<Rightarrow> token_response \<Rightarrow> string \<times> string \<Rightarrow> bool" where
  "issued who token a \<longleftrightarrow> who (tr_access_token token) = a \<and> (\<forall>r. tr_refresh_token token = Some r \<longrightarrow> who r = a)"

text \<open>Two things the isolation of sessions rests on.  A flow that takes its account from the registry does so while no sign-out
  that has moved the epoch still has to sweep; and a re-authentication or restore of a tenant with nothing
  registered is for the account whose session is open, or for any when none is.\<close>

definition sweep_pending :: "string \<Rightarrow> auth_world \<Rightarrow> bool" where
  "sweep_pending t w \<longleftrightarrow> (\<exists>j. aw_flows w j = Sweeping t (au_epoch w))"

definition claim_trusted :: "grant \<Rightarrow> auth_world \<Rightarrow> bool" where
  "claim_trusted g w \<longleftrightarrow>
     (gr_registration g = Claim \<longrightarrow> au_registry w (tc_tenant_id (gr_tenant g)) = None \<longrightarrow>
      aw_session w (tc_tenant_id (gr_tenant g)) \<in> {None, Some (tc_account_oid (gr_tenant g))})"

inductive auth_step :: "bool \<Rightarrow> (string \<Rightarrow> string \<times> string) \<Rightarrow> string \<Rightarrow> nat \<Rightarrow> auth_world \<Rightarrow> auth_world \<Rightarrow> bool"
  for calm :: bool and who :: "string \<Rightarrow> string \<times> string" and configured :: string and i :: nat where
  acquire: "aw_flows w i = Idle \<Longrightarrow> capture_session t w = Inr (tenant, fence) \<Longrightarrow> (calm \<longrightarrow> \<not> sweep_pending t w) \<Longrightarrow>
    auth_step calm who configured i w
      (set_flow i (Loading \<lparr>gr_tenant = tenant, gr_scopes = scopes, gr_fallback = scopes, gr_cae = cae, gr_save = BestEffort, gr_fence = fence, gr_registration = Keep\<rparr> False) w)"
| interactive: "aw_flows w i = Idle \<Longrightarrow> capture_session t w = Inr (tenant, fence) \<Longrightarrow> (calm \<longrightarrow> \<not> sweep_pending t w) \<Longrightarrow>
    auth_step calm who configured i w
      (set_flow i (Browsing \<lparr>gr_tenant = tenant, gr_scopes = scopes, gr_fallback = scopes, gr_cae = cae, gr_save = Required, gr_fence = fence, gr_registration = Keep\<rparr> action) w)"
| not_signed_in: "aw_flows w i = Idle \<Longrightarrow> capture_session t w = Inl e \<Longrightarrow> auth_step calm who configured i w (set_flow i (Over (Some e)) w)"
| restore: "aw_flows w i = Idle \<Longrightarrow> begin_restore tenant w = Inr fence \<Longrightarrow>
    auth_step calm who configured i w
      (set_flow i (Loading \<lparr>gr_tenant = tenant, gr_scopes = scopes, gr_fallback = scopes, gr_cae = True, gr_save = BestEffort, gr_fence = fence, gr_registration = Claim\<rparr> False) w)"
| restored_live: "aw_flows w i = Idle \<Longrightarrow> begin_restore tenant w = Inl live \<Longrightarrow> auth_step calm who configured i w (set_flow i (Over None) w)"
| reauthenticate: "aw_flows w i = Idle \<Longrightarrow> begin_reauthenticate tenant w = Inr fence \<Longrightarrow>
    auth_step calm who configured i w
      (set_flow i (Browsing \<lparr>gr_tenant = tenant, gr_scopes = scopes, gr_fallback = scopes, gr_cae = True, gr_save = Required, gr_fence = fence, gr_registration = Claim\<rparr>
         ''re-authentication'') w)"
| reauthenticate_refused: "aw_flows w i = Idle \<Longrightarrow> begin_reauthenticate tenant w = Inl e \<Longrightarrow>
    auth_step calm who configured i w (set_flow i (Over (Some e)) w)"
| load: "aw_flows w i = Loading g retried \<Longrightarrow> au_stored w (account (gr_tenant g)) = Some secret \<Longrightarrow>
    auth_step calm who configured i w (set_flow i (Posting g retried secret) w)"
| load_missing: "aw_flows w i = Loading g retried \<Longrightarrow> au_stored w (account (gr_tenant g)) = None \<Longrightarrow>
    auth_step calm who configured i w (set_flow i (Over (Some (RefreshTokenMissing (tc_tenant_id (gr_tenant g))))) w)"
| load_failed: "aw_flows w i = Loading g retried \<Longrightarrow> auth_step calm who configured i w (set_flow i (Over (Some (Stored e))) w)"
| refreshed: "aw_flows w i = Posting g retried secret \<Longrightarrow> issued who token (who secret) \<Longrightarrow>
    (if gr_registration g = Claim then restored_context (gr_tenant g) claims else Inr (gr_tenant g)) = Inr fresh \<Longrightarrow>
    auth_step calm who configured i w (set_flow i (Saving (g\<lparr>gr_tenant := fresh\<rparr>) token) w)"
| restore_mismatch: "aw_flows w i = Posting g retried secret \<Longrightarrow> gr_registration g = Claim \<Longrightarrow> restored_context (gr_tenant g) claims = Inl e \<Longrightarrow>
    auth_step calm who configured i w
      (set_flow i (if (\<exists>m. e = Authorization m) \<and> au_epoch w = gr_fence g then Mismatched (gr_tenant g) (gr_fence g) e
                   else Over (Some (if \<exists>m. e = Authorization m then NotSignedIn else e))) w)"
| mismatch_deleted: "aw_flows w i = Mismatched tenant fence e \<Longrightarrow>
    auth_step calm who configured i w (set_flow i (Over (Some e)) (if au_epoch w = fence \<and> landed then set_stored (account tenant) None w else w))"
| rejected: "aw_flows w i = Posting g retried secret \<Longrightarrow> auth_step calm who configured i w (set_flow i (Purging g retried secret) w)"
| post_failed: "aw_flows w i = Posting g retried secret \<Longrightarrow> auth_step calm who configured i w (set_flow i (Over (Some e)) w)"
| purge: "aw_flows w i = Purging g retried secret \<Longrightarrow> purge_stored secret (au_stored w (account (gr_tenant g))) = (res, left) \<Longrightarrow>
    purged (Inr res) (au_epoch w) g retried = next \<Longrightarrow>
    auth_step calm who configured i w
      (set_flow i (case next of LoadNewer \<Rightarrow> Loading g True | GiveUp e \<Rightarrow> Over (Some e) | SessionDead \<Rightarrow> Dropping g) (set_stored (account (gr_tenant g)) left w))"
| purge_failed: "aw_flows w i = Purging g retried secret \<Longrightarrow> left = au_stored w (account (gr_tenant g)) \<or> left = None \<and> au_stored w (account (gr_tenant g)) \<in> {None, Some secret} \<Longrightarrow>
    auth_step calm who configured i w (set_flow i (Dropping g) (set_stored (account (gr_tenant g)) left w))"
| drop_dead: "aw_flows w i = Dropping g \<Longrightarrow>
    auth_step calm who configured i w (set_flow i (Over (Some (RefreshTokenMissing (tc_tenant_id (gr_tenant g))))) (drop_dead_session g w))"
| browsed: "aw_flows w i = Browsing g action \<Longrightarrow> ic_tid claims = Some tid \<Longrightarrow> ic_oid claims = Some oid \<Longrightarrow> issued who token (tid, oid) \<Longrightarrow>
    ensure_same_identity claims (gr_tenant g) action = Inr () \<Longrightarrow>
    auth_step calm who configured i w (set_flow i (Saving g token) w)"
| browse_failed: "aw_flows w i = Browsing g action \<Longrightarrow> auth_step calm who configured i w (set_flow i (Over (Some e)) w)"
| sign_in: "aw_flows w i = Idle \<Longrightarrow> auth_step calm who configured i w (set_flow i (case sign_in_refused configured of Some e \<Rightarrow> Over (Some e) | None \<Rightarrow> SigningIn) w)"
| signed_in: "aw_flows w i = SigningIn \<Longrightarrow> ic_oid claims = Some oid \<Longrightarrow> issued who token (configured, oid) \<Longrightarrow>
    sign_in_context configured claims = Inr tenant \<Longrightarrow> switch_session (tc_tenant_id tenant) w = (fence, w1) \<Longrightarrow>
    auth_step calm who configured i w
      (set_flow i (Saving \<lparr>gr_tenant = tenant, gr_scopes = scopes, gr_fallback = [], gr_cae = True, gr_save = Required, gr_fence = fence, gr_registration = Replace\<rparr> token)
        (set_session (tc_tenant_id tenant) (Some (tc_account_oid tenant)) w1))"
| sign_in_failed: "aw_flows w i = SigningIn \<Longrightarrow> auth_step calm who configured i w (set_flow i (Over (Some e)) w)"
| nothing_to_save: "aw_flows w i = Saving g token \<Longrightarrow> tr_refresh_token token = None \<Longrightarrow>
    auth_step calm who configured i w (set_flow i (Committing g token) w)"
| save: "aw_flows w i = Saving g token \<Longrightarrow> tr_refresh_token token = Some r \<Longrightarrow> current = (au_epoch w = gr_fence g) \<Longrightarrow>
    auth_step calm who configured i w
      (set_flow i (case save_verdict (Inr current) (gr_save g) of Some e \<Rightarrow> Over (Some e) | None \<Rightarrow> Committing g token)
        (if current then set_stored (account (gr_tenant g)) (Some r) w else w))"
| save_failed: "aw_flows w i = Saving g token \<Longrightarrow> tr_refresh_token token = Some r \<Longrightarrow>
    left = au_stored w (account (gr_tenant g)) \<or> left = None \<and> au_epoch w = gr_fence g \<Longrightarrow>
    auth_step calm who configured i w
      (set_flow i (case save_verdict (Inl e) (gr_save g) of Some e \<Rightarrow> Over (Some e) | None \<Rightarrow> Committing g token) (set_stored (account (gr_tenant g)) left w))"
| commit: "aw_flows w i = Committing g token \<Longrightarrow> (calm \<longrightarrow> claim_trusted g w) \<Longrightarrow> commit_token now g token w = (r, w1) \<Longrightarrow>
    auth_step calm who configured i w
      (set_flow i (Over (case r of Inl e \<Rightarrow> Some e | Inr _ \<Rightarrow> None))
        (if \<not> isl r \<and> gr_registration g = Claim then set_session (tc_tenant_id (gr_tenant g)) (Some (tc_account_oid (gr_tenant g))) w1 else w1))"
| sign_out: "aw_flows w i = Idle \<Longrightarrow> auth_step calm who configured i w (set_flow i (Deleting (tc_tenant_id tenant) (sign_out_account tenant w)) w)"
| sign_out_deleted: "aw_flows w i = Deleting t oid \<Longrightarrow>
    auth_step calm who configured i w (set_flow i (Sweeping t (Suc (au_epoch w))) (set_stored (t, oid) None (w\<lparr>au_epoch := Suc (au_epoch w)\<rparr>)))"
| sign_out_failed: "aw_flows w i = Deleting t oid \<Longrightarrow> left = au_stored w (t, oid) \<or> left = None \<Longrightarrow>
    auth_step calm who configured i w (set_flow i (Over (Some (Stored e))) (set_stored (t, oid) left w))"
| sweep: "aw_flows w i = Sweeping t bumped \<Longrightarrow>
    auth_step calm who configured i w
      (set_flow i (Over None) (if au_epoch w = bumped then set_session t None (sweep_after_sign_out t bumped w) else sweep_after_sign_out t bumped w))"
| refresh: "aw_flows w i = Idle \<Longrightarrow> auth_step calm who configured i w (refresh_session t w)"
| forget: "aw_flows w i = Idle \<Longrightarrow> auth_step calm who configured i w (set_flow i (if forget_spares t oid w then Over None else Forgetting t oid) w)"
| forgotten: "aw_flows w i = Forgetting t oid \<Longrightarrow> left = au_stored w (t, oid) \<or> left = None \<Longrightarrow>
    auth_step calm who configured i w (set_flow i (Over e) (set_stored (t, oid) left w))"

definition auth_start :: "(string \<Rightarrow> string \<times> string) \<Rightarrow> auth_world \<Rightarrow> bool" where
  "auth_start who w \<longleftrightarrow> au_registry w = Map.empty \<and> au_cache w = [] \<and> aw_session w = Map.empty \<and> (\<forall>i. aw_flows w i = Idle)
     \<and> (\<forall>k r. au_stored w k = Some r \<longrightarrow> who r = k)"

definition auth_reach :: "bool \<Rightarrow> (string \<Rightarrow> string \<times> string) \<Rightarrow> string \<Rightarrow> auth_world \<Rightarrow> auth_world \<Rightarrow> bool" where
  "auth_reach calm who configured = (\<lambda>w w'. \<exists>i. auth_step calm who configured i w w')\<^sup>*\<^sup>*"

section \<open>The invariant\<close>

text \<open>One conjunct per place.  Refresh tokens are filed under the account they were issued for; what is registered is the open
  session; a cached token belongs to it; a flow that keeps its account carries the open session while its fence
  stands, and tokens of its own account; and a sign-out that still has to sweep is alone under its fence.\<close>

definition stored_ok :: "(string \<Rightarrow> string \<times> string) \<Rightarrow> auth_world \<Rightarrow> bool" where
  "stored_ok who w \<longleftrightarrow> (\<forall>k r. au_stored w k = Some r \<longrightarrow> who r = k)"

definition registry_ok :: "auth_world \<Rightarrow> bool" where
  "registry_ok w \<longleftrightarrow> (\<forall>t c. au_registry w t = Some c \<longrightarrow> tc_tenant_id c = t \<and> aw_session w t = Some (tc_account_oid c))"

definition cache_ok :: "(string \<Rightarrow> string \<times> string) \<Rightarrow> auth_world \<Rightarrow> bool" where
  "cache_ok who w \<longleftrightarrow> (\<forall>t k b a. ((t, k, b), a) \<in> set (au_cache w) \<longrightarrow> (\<exists>o'. aw_session w t = Some o' \<and> who (at_token a) = (t, o')))"

definition grant_ok :: "auth_world \<Rightarrow> grant \<Rightarrow> bool" where
  "grant_ok w g \<longleftrightarrow> gr_fence g \<le> au_epoch w
     \<and> (gr_registration g \<noteq> Claim \<longrightarrow> gr_fence g = au_epoch w \<longrightarrow> aw_session w (tc_tenant_id (gr_tenant g)) = Some (tc_account_oid (gr_tenant g)))"

definition grants_ok :: "auth_world \<Rightarrow> bool" where
  "grants_ok w \<longleftrightarrow> (\<forall>i g. grant_of (aw_flows w i) = Some g \<longrightarrow> grant_ok w g)"

fun tokens_ok :: "(string \<Rightarrow> string \<times> string) \<Rightarrow> flow \<Rightarrow> bool" where
  "tokens_ok who (Posting g _ secret) \<longleftrightarrow> who secret = account (gr_tenant g)"
| "tokens_ok who (Saving g token) \<longleftrightarrow> issued who token (account (gr_tenant g))"
| "tokens_ok who (Committing g token) \<longleftrightarrow> issued who token (account (gr_tenant g))"
| "tokens_ok who _ \<longleftrightarrow> True"

definition sweeps_ok :: "auth_world \<Rightarrow> bool" where
  "sweeps_ok w \<longleftrightarrow> (\<forall>j t b. aw_flows w j = Sweeping t b \<longrightarrow> b \<le> au_epoch w \<and>
     (\<forall>i g. b = au_epoch w \<longrightarrow> grant_of (aw_flows w i) = Some g \<longrightarrow> gr_registration g \<noteq> Claim \<longrightarrow> tc_tenant_id (gr_tenant g) = t \<longrightarrow> gr_fence g \<noteq> au_epoch w))"

definition auth_inv :: "(string \<Rightarrow> string \<times> string) \<Rightarrow> auth_world \<Rightarrow> bool" where
  "auth_inv who w \<longleftrightarrow> stored_ok who w \<and> registry_ok w \<and> cache_ok who w \<and> grants_ok w \<and> (\<forall>i. tokens_ok who (aw_flows w i)) \<and> sweeps_ok w"

lemmas section_defs = switch_session_def capture_session_def begin_restore_def begin_reauthenticate_def drop_dead_session_def
  sweep_after_sign_out_def refresh_session_def commit_token_def Let_def

text \<open>A step moves no other flow and never moves the epoch back.\<close>

lemma step_frame:
  assumes "auth_step calm who configured i w w'"
  shows "j \<noteq> i \<Longrightarrow> aw_flows w' j = aw_flows w j" and "au_epoch w \<le> au_epoch w'"
  using assms by (cases; auto simp: section_defs split: if_splits)+

lemma step_stored_ok:
  assumes "auth_step calm who configured i w w'" "stored_ok who w" "\<forall>i. tokens_ok who (aw_flows w i)"
  shows "stored_ok who w'"
proof -
  from assms(3) have tok: "tokens_ok who (aw_flows w i)" by blast
  from assms(1,2) tok show ?thesis
    by cases (auto simp: stored_ok_def section_defs issued_def purge_stored_def split: if_splits option.splits)
qed

lemma set_invalidate: "p \<in> set (token_invalidate_tenant t c) \<longleftrightarrow> p \<in> set c \<and> fst (fst p) \<noteq> t"
  by (auto simp: token_invalidate_tenant_def split: prod.splits)

lemma set_token_put: "p \<in> set (token_put t scopes cae a c) \<Longrightarrow> p = ((t, scope_key scopes, cae), a) \<or> p \<in> set c"
  unfolding token_put_def by (induction c) (auto split: if_splits)

lemma held_same: "\<not> held_by_another_account reg c \<Longrightarrow> reg (tc_tenant_id c) = Some live \<Longrightarrow> tc_account_oid live = tc_account_oid c"
  by (simp add: held_by_another_account_def)

text \<open>A commit that goes through is for the open session, or opens one.\<close>

lemma commit_session:
  assumes "commit_token now g token w = (Inr a, w1)" "registry_ok w" "grant_ok w g" "claim_trusted g w"
  shows "aw_session w (tc_tenant_id (gr_tenant g)) = Some (tc_account_oid (gr_tenant g))
     \<or> gr_registration g = Claim \<and> aw_session w (tc_tenant_id (gr_tenant g)) = None"
proof (cases "gr_registration g = Claim")
  case True
  with assms(1) have held: "\<not> held_by_another_account (au_registry w) (gr_tenant g)" by (auto simp: commit_token_def Let_def split: if_splits)
  show ?thesis
  proof (cases "au_registry w (tc_tenant_id (gr_tenant g))")
    case None
    with assms(4) True show ?thesis by (auto simp: claim_trusted_def)
  next
    case (Some live)
    with held_same [OF held Some] assms(2) show ?thesis by (auto simp: registry_ok_def)
  qed
next
  case False
  with assms(1,3) show ?thesis by (auto simp: commit_token_def grant_ok_def Let_def split: if_splits)
qed

lemma invD:
  assumes "auth_inv who w"
  shows "stored_ok who w" "registry_ok w" "cache_ok who w" "grants_ok w" "tokens_ok who (aw_flows w i)" "sweeps_ok w"
    "grant_of (aw_flows w i) = Some g \<Longrightarrow> grant_ok w g"
  using assms by (auto simp: auth_inv_def grants_ok_def)

lemma sweeps_okD: "sweeps_ok w \<Longrightarrow> aw_flows w j = Sweeping t b \<Longrightarrow> b \<le> au_epoch w"
  unfolding sweeps_ok_def by blast

lemma cache_okD: "cache_ok who w \<Longrightarrow> ((t, k, b), a) \<in> set (au_cache w) \<Longrightarrow> \<exists>o'. aw_session w t = Some o' \<and> who (at_token a) = (t, o')"
  unfolding cache_ok_def by blast

lemma captured:
  "capture_session t w = Inr (c, f) \<Longrightarrow> registry_ok w \<Longrightarrow> f = au_epoch w \<and> tc_tenant_id c = t \<and> aw_session w t = Some (tc_account_oid c)"
  by (auto simp: capture_session_def registry_ok_def split: option.splits)

lemma restored_account:
  "(if gr_registration g = Claim then restored_context (gr_tenant g) claims else Inr (gr_tenant g)) = Inr fresh \<Longrightarrow> account fresh = account (gr_tenant g)"
  by (auto simp: restored_context_def split: if_splits option.splits sum.splits)

text \<open>What a commit leaves of the world.\<close>

lemma commit_effect:
  assumes "commit_token now g token w = (r, w1)"
  shows "au_epoch w1 = au_epoch w" "aw_flows w1 = aw_flows w" "aw_session w1 = aw_session w" "au_stored w1 = au_stored w"
    "isl r \<Longrightarrow> w1 = w"
    "\<not> isl r \<Longrightarrow> au_cache w1 = token_put (tc_tenant_id (gr_tenant g)) (gr_scopes g) (gr_cae g) (access_of now (gr_fallback g) token) (au_cache w)"
    "\<not> isl r \<Longrightarrow> au_registry w1 = (if gr_registration g \<noteq> Keep then (au_registry w)(tc_tenant_id (gr_tenant g) \<mapsto> gr_tenant g) else au_registry w)"
    "\<not> isl r \<Longrightarrow> gr_fence g = au_epoch w"
  using assms by (auto simp: commit_token_def Let_def split: if_splits)

text \<open>Under one epoch an open session stays open until its own sign-out sweeps.\<close>

lemma step_session:
  assumes step: "auth_step True who configured i w w'" and inv: "auth_inv who w"
    and "au_epoch w' = au_epoch w" "aw_session w t = Some a"
  shows "aw_session w' t = Some a \<or> aw_flows w i = Sweeping t (au_epoch w)"
  using step
proof cases
  case (commit g token now r w1)
  note eff = commit_effect [OF commit(4)]
  have "grant_ok w g" using invD(7) [OF inv, of i] commit(2) by simp
  with commit_session [of now g token w _ w1] commit(3,4) invD(2) [OF inv] eff(3) assms(4) commit(1) show ?thesis
    by (cases r) auto
qed (use assms(3,4) in \<open>auto simp: section_defs split: if_splits\<close>)

lemma step_registry_ok:
  assumes step: "auth_step True who configured i w w'" and inv: "auth_inv who w"
  shows "registry_ok w'"
  using step
proof cases
  case (commit g token now r w1)
  note eff = commit_effect [OF commit(4)]
  have "grant_ok w g" using invD(7) [OF inv, of i] commit(2) by simp
  with commit_session [of now g token w _ w1] commit(1,3,4) invD(2) [OF inv] eff show ?thesis
    by (cases r) (auto simp: registry_ok_def)
qed (use invD(2) [OF inv] in \<open>auto simp: registry_ok_def section_defs split: if_splits option.splits\<close>)

lemma step_cache_ok:
  assumes step: "auth_step True who configured i w w'" and inv: "auth_inv who w"
  shows "cache_ok who w'"
  using step
proof cases
  case (commit g token now r w1)
  note eff = commit_effect [OF commit(4)]
  have g: "grant_ok w g" using invD(7) [OF inv, of i] commit(2) by simp
  have tok: "who (tr_access_token token) = account (gr_tenant g)" using invD(5) [OF inv, of i] commit(2) by (simp add: issued_def)
  show ?thesis
  proof (cases r)
    case (Inl e)
    with commit(1) eff(5) invD(3) [OF inv] show ?thesis by (simp add: cache_ok_def)
  next
    case (Inr a)
    with commit_session [of now g token w a w1] commit(3,4) invD(2) [OF inv] g
    have sess: "aw_session w (tc_tenant_id (gr_tenant g)) = Some (tc_account_oid (gr_tenant g))
        \<or> gr_registration g = Claim \<and> aw_session w (tc_tenant_id (gr_tenant g)) = None" by auto
    show ?thesis unfolding cache_ok_def
    proof (intro allI impI)
      fix t k b x assume "((t, k, b), x) \<in> set (au_cache w')"
      then have "((t, k, b), x) \<in> set (au_cache w1)" using commit(1) by (auto split: if_splits)
      with eff(6) Inr have "((t, k, b), x) \<in> set (token_put (tc_tenant_id (gr_tenant g)) (gr_scopes g) (gr_cae g) (access_of now (gr_fallback g) token) (au_cache w))"
        by simp
      from set_token_put [OF this]
      show "\<exists>o'. aw_session w' t = Some o' \<and> who (at_token x) = (t, o')"
      proof
        assume "((t, k, b), x) = ((tc_tenant_id (gr_tenant g), scope_key (gr_scopes g), gr_cae g), access_of now (gr_fallback g) token)"
        with tok sess commit(1) eff(3) Inr show ?thesis by (auto simp: access_of_def Let_def)
      next
        assume "((t, k, b), x) \<in> set (au_cache w)"
        then obtain o' where "aw_session w t = Some o'" "who (at_token x) = (t, o')" using cache_okD [OF invD(3) [OF inv]] by blast
        with sess commit(1) eff(3) Inr show ?thesis by (auto split: if_splits)
      qed
    qed
  qed
qed (use invD(3) [OF inv] in \<open>fastforce simp: cache_ok_def section_defs set_invalidate split: if_splits\<close>)+

lemma step_tokens_ok:
  assumes step: "auth_step calm who configured i w w'" and inv: "auth_inv who w"
  shows "tokens_ok who (aw_flows w' j)"
proof (cases "j = i")
  case True
  have "tokens_ok who (aw_flows w' i)" using step invD(1) [OF inv] invD(5) [OF inv, of i]
  proof cases
    case (refreshed g retried secret token claims fresh)
    with restored_account [OF refreshed(4)] invD(5) [OF inv, of i] show ?thesis by simp
  qed (auto simp: stored_ok_def issued_def section_defs ensure_same_identity_def sign_in_context_def split: if_splits option.splits after_purge.splits)
  with True show ?thesis by simp
next
  case False
  with step_frame(1) [OF step False] invD(5) [OF inv, of j] show ?thesis by simp
qed

text \<open>The grant of a flow that moved is its old one, or one captured at the present epoch.\<close>

lemma step_own_grant:
  assumes step: "auth_step True who configured i w w'" and inv: "auth_inv who w" and g: "grant_of (aw_flows w' i) = Some g"
  shows "(\<exists>g0. grant_of (aw_flows w i) = Some g0 \<and> gr_fence g = gr_fence g0 \<and> gr_registration g = gr_registration g0 \<and> account (gr_tenant g) = account (gr_tenant g0))
     \<or> gr_fence g = au_epoch w' \<and> (gr_registration g = Claim \<or>
          aw_session w' (tc_tenant_id (gr_tenant g)) = Some (tc_account_oid (gr_tenant g))
          \<and> (au_epoch w' = au_epoch w \<longrightarrow> \<not> sweep_pending (tc_tenant_id (gr_tenant g)) w))"
  using step
proof cases
  case (refreshed g0 retried secret token claims fresh)
  from refreshed(1) g have "g = g0\<lparr>gr_tenant := fresh\<rparr>" by simp
  with restored_account [OF refreshed(4)] refreshed(2) show ?thesis by (intro disjI1 exI [of _ g0]) simp
next
  case (acquire t tenant fence scopes cae)
  with captured [OF acquire(3) invD(2) [OF inv]] g show ?thesis by auto
next
  case (interactive t tenant fence scopes cae action)
  with captured [OF interactive(3) invD(2) [OF inv]] g show ?thesis by auto
qed (use g in \<open>auto simp: section_defs split: if_splits option.splits after_purge.splits\<close>)

lemma step_grants_ok:
  assumes step: "auth_step True who configured i w w'" and inv: "auth_inv who w"
  shows "grants_ok w'"
  unfolding grants_ok_def
proof (intro allI impI)
  fix j g assume g: "grant_of (aw_flows w' j) = Some g"
  have kept: "grant_ok w' h" if h: "grant_of (aw_flows w k) = Some h" for k h
  proof -
    from invD(7) [OF inv h] step_frame(2) [OF step] have le: "gr_fence h \<le> au_epoch w" "au_epoch w \<le> au_epoch w'" by (auto simp: grant_ok_def)
    have "aw_session w' (tc_tenant_id (gr_tenant h)) = Some (tc_account_oid (gr_tenant h))"
      if now: "gr_registration h \<noteq> Claim" "gr_fence h = au_epoch w'"
    proof -
      from le now have same: "au_epoch w' = au_epoch w" by simp
      from now same invD(7) [OF inv h] have "aw_session w (tc_tenant_id (gr_tenant h)) = Some (tc_account_oid (gr_tenant h))" by (simp add: grant_ok_def)
      from step_session [OF step inv same this] show ?thesis
        using invD(6) [OF inv] h now same by (auto simp: sweeps_ok_def)
    qed
    with le show ?thesis by (auto simp: grant_ok_def)
  qed
  show "grant_ok w' g"
  proof (cases "j = i")
    case True
    from step_own_grant [OF step inv g [unfolded True]] show ?thesis
    proof (elim disjE exE conjE)
      fix g0 assume "grant_of (aw_flows w i) = Some g0" "gr_fence g = gr_fence g0" "gr_registration g = gr_registration g0" "account (gr_tenant g) = account (gr_tenant g0)"
      with kept [of i g0] show ?thesis by (simp add: grant_ok_def)
    qed (auto simp: grant_ok_def)
  next
    case False
    with g step_frame(1) [OF step False] kept show ?thesis by simp
  qed
qed

text \<open>Only a sign-in and a sign-out move the epoch, and the sign-out carries no grant.\<close>

lemma step_sweep_begins:
  assumes "auth_step calm who configured i w w'" "au_epoch w < au_epoch w'" "aw_flows w' j = Sweeping t (au_epoch w')" "sweeps_ok w"
  shows "grant_of (aw_flows w' i) = None"
  using assms by cases (auto simp: section_defs sweeps_ok_def split: if_splits, fastforce?)

lemma step_sweeps_ok:
  assumes step: "auth_step True who configured i w w'" and inv: "auth_inv who w"
  shows "sweeps_ok w'"
  unfolding sweeps_ok_def
proof (intro allI impI conjI)
  fix j t b assume sw: "aw_flows w' j = Sweeping t b"
  have old: "aw_flows w j = Sweeping t b \<or> b = au_epoch w' \<and> au_epoch w < au_epoch w'"
  proof (cases "j = i")
    case True
    from step sw show ?thesis unfolding True by cases (auto simp: section_defs split: if_splits option.splits after_purge.splits)
  next
    case False
    with sw step_frame(1) [OF step False] show ?thesis by simp
  qed
  with sweeps_okD [OF invD(6) [OF inv], of j t b] step_frame(2) [OF step] show "b \<le> au_epoch w'" by auto
  fix k g assume now: "b = au_epoch w'" and g: "grant_of (aw_flows w' k) = Some g" "gr_registration g \<noteq> Claim" "tc_tenant_id (gr_tenant g) = t"
  show "gr_fence g \<noteq> au_epoch w'"
  proof
    assume fence: "gr_fence g = au_epoch w'"
    have fresh: "gr_fence h \<le> au_epoch w" if "grant_of (aw_flows w n) = Some h" for n h using invD(7) [OF inv that] by (simp add: grant_ok_def)
    from old show False
    proof
      assume "b = au_epoch w' \<and> au_epoch w < au_epoch w'"
      with step_sweep_begins [OF step _ _ invD(6) [OF inv], of j t] sw now g(1) have "k \<noteq> i" by auto
      with g(1) step_frame(1) [OF step this] fresh [of k g] fence \<open>b = au_epoch w' \<and> au_epoch w < au_epoch w'\<close> show False by simp
    next
      assume j: "aw_flows w j = Sweeping t b"
      with sweeps_okD [OF invD(6) [OF inv] j] now step_frame(2) [OF step] have same: "au_epoch w' = au_epoch w" by simp
      with j now have pend: "sweep_pending t w" by (auto simp: sweep_pending_def)
      have none: "\<not> (grant_of (aw_flows w n) = Some h \<and> gr_registration h \<noteq> Claim \<and> tc_tenant_id (gr_tenant h) = t \<and> gr_fence h = au_epoch w)" for n h
        using invD(6) [OF inv] j now same unfolding sweeps_ok_def by metis
      show False
      proof (cases "k = i")
        case True
        from step_own_grant [OF step inv g(1) [unfolded True]] g fence same pend none [of i] show False by auto
      next
        case False
        with none [of k g] g fence same step_frame(1) [OF step False] show False by simp
      qed
    qed
  qed
qed

lemma step_inv: "auth_step True who configured i w w' \<Longrightarrow> auth_inv who w \<Longrightarrow> auth_inv who w'"
  using step_stored_ok [of True who configured i w w'] step_registry_ok step_cache_ok step_grants_ok step_tokens_ok step_sweeps_ok
  unfolding auth_inv_def by (metis (no_types, lifting))

lemma start_inv: "auth_start who w \<Longrightarrow> auth_inv who w"
  by (auto simp: auth_start_def auth_inv_def stored_ok_def registry_ok_def cache_ok_def grants_ok_def sweeps_ok_def)

lemma reach_inv: "auth_reach True who configured w0 w \<Longrightarrow> auth_inv who w0 \<Longrightarrow> auth_inv who w"
  unfolding auth_reach_def by (induction rule: rtranclp_induct) (auto intro: step_inv)

section \<open>Sessions are isolated and end\<close>

text \<open>C5: Sessions never mix.  In every interleaving of sign-ins, refreshes, consents, re-authentications, restores and
  sign-outs, with any failure of the credential store: a token served from the cache while a tenant is
  registered was issued for the registered account; when no session of a tenant is open, nothing of it is registered or
  cached; and every stored refresh token is filed under the account it was issued for.  The endpoint and the browser are
  assumed to issue tokens for the account they name, and the two conditions of a calm run to hold.\<close>

theorem sessions_never_mix:
  assumes "auth_start who w0" "auth_reach True who configured w0 w"
  shows "(\<forall>t live now restoring bypass before scopes cae a. au_registry w t = Some live \<longrightarrow>
       answer_before_lock now restoring bypass t scopes cae w = Some a \<or> answer_under_lock now restoring bypass before t scopes cae w = Some a \<longrightarrow>
       who (at_token a) = (t, tc_account_oid live))
     \<and> (\<forall>t. aw_session w t = None \<longrightarrow> au_registry w t = None \<and> (\<forall>scopes cae. token_get t scopes cae (au_cache w) = None))
     \<and> (\<forall>t oid r. au_stored w (t, oid) = Some r \<longrightarrow> who r = (t, oid))"
proof -
  from reach_inv [OF assms(2) start_inv [OF assms(1)]] have inv: "auth_inv who w" .
  have cached: "\<exists>o'. aw_session w t = Some o' \<and> who (at_token a) = (t, o')" if "token_get t scopes cae (au_cache w) = Some a" for t scopes cae a
    using that cache_okD [OF invD(3) [OF inv]] by (auto simp: token_get_def dest: map_of_SomeD)
  have served: "token_get t scopes cae (au_cache w) = Some a"
    if "answer_before_lock now restoring bypass t scopes cae w = Some a \<or> answer_under_lock now restoring bypass before t scopes cae w = Some a"
    for now restoring bypass t scopes cae before a
    using that by (auto simp: answer_before_lock_def answer_under_lock_def fresh_cached_def split: if_splits option.splits)
  have reg: "aw_session w t = Some (tc_account_oid c)" if "au_registry w t = Some c" for t c
    using that invD(2) [OF inv] by (simp add: registry_ok_def)
  from cached served reg have "\<forall>t live now restoring bypass before scopes cae a. au_registry w t = Some live \<longrightarrow>
       answer_before_lock now restoring bypass t scopes cae w = Some a \<or> answer_under_lock now restoring bypass before t scopes cae w = Some a \<longrightarrow>
       who (at_token a) = (t, tc_account_oid live)"
    by (metis option.inject)
  moreover from cached reg have "\<forall>t. aw_session w t = None \<longrightarrow> au_registry w t = None \<and> (\<forall>scopes cae. token_get t scopes cae (au_cache w) = None)"
    by (metis not_Some_eq)
  moreover have "\<forall>t oid r. au_stored w (t, oid) = Some r \<longrightarrow> who r = (t, oid)" using invD(1) [OF inv] by (simp add: stored_ok_def)
  ultimately show ?thesis by blast
qed

text \<open>The fence a flow in flight carries.\<close>

fun fence_of :: "flow \<Rightarrow> nat option" where
  "fence_of (Mismatched tenant fence e) = Some fence"
| "fence_of f = map_option gr_fence (grant_of f)"

text \<open>A fence is captured from the epoch and kept, and no fence is ahead of the epoch.\<close>

lemma step_own_fence:
  assumes "auth_step calm who configured i w w'" "fence_of (aw_flows w' i) = Some f"
  shows "fence_of (aw_flows w i) = Some f \<or> f = au_epoch w'"
  using assms by cases (auto simp: section_defs split: if_splits option.splits after_purge.splits)

definition fences_ok :: "auth_world \<Rightarrow> bool" where
  "fences_ok w \<longleftrightarrow> (\<forall>i f. fence_of (aw_flows w i) = Some f \<longrightarrow> f \<le> au_epoch w)"

lemma fences_okD: "fences_ok w \<Longrightarrow> fence_of (aw_flows w i) = Some f \<Longrightarrow> f \<le> au_epoch w"
  by (simp add: fences_ok_def)

lemma step_fences_ok:
  assumes step: "auth_step calm who configured i w w'" and ok: "fences_ok w"
  shows "fences_ok w'"
  unfolding fences_ok_def
proof (intro allI impI)
  fix j f assume f: "fence_of (aw_flows w' j) = Some f"
  then have "fence_of (aw_flows w j) = Some f \<or> f = au_epoch w'"
    using step_own_fence [OF step] step_frame(1) [OF step, of j] by (cases "j = i") auto
  then show "f \<le> au_epoch w'" using fences_okD [OF ok, of j f] step_frame(2) [OF step] by auto
qed

lemma reach_fences_ok:
  assumes "auth_start who w0" "auth_reach calm who configured w0 w"
  shows "fences_ok w"
proof -
  have "fences_ok w0" using assms(1) by (simp add: auth_start_def fences_ok_def)
  with assms(2) show ?thesis unfolding auth_reach_def
    by (induction rule: rtranclp_induct) (auto intro: step_fences_ok)
qed

text \<open>A step of a flow behind the epoch.\<close>

lemma late_step:
  assumes "auth_step calm who configured i w w'" "fence_of (aw_flows w i) = Some f" "f < au_epoch w"
  shows "au_cache w' = au_cache w \<and> au_registry w' = au_registry w \<and> au_epoch w' = au_epoch w \<and> aw_session w' = aw_session w
     \<and> au_stored w' \<subseteq>\<^sub>m au_stored w \<and> (fence_of (aw_flows w' i) = Some f \<or> (\<exists>e. aw_flows w' i = Over e))"
  using assms
proof cases
  case (purge h retried secret res left nxt)
  with assms(2,3) show ?thesis
    by (auto simp: purge_stored_def map_le_def split: option.splits if_splits after_purge.splits)
qed (auto simp: section_defs map_le_def split: if_splits option.splits)

lemma over_is_final: "auth_step calm who configured i w w' \<Longrightarrow> aw_flows w i = Over e \<Longrightarrow> False"
  by (erule auth_step.cases) auto

lemma reach_late:
  assumes "auth_reach calm who configured w w1" "fence_of (aw_flows w i) = Some f" "f < au_epoch w"
  shows "au_epoch w \<le> au_epoch w1 \<and> (fence_of (aw_flows w1 i) = Some f \<or> (\<exists>e. aw_flows w1 i = Over e))"
  using assms(1) unfolding auth_reach_def
proof (induction rule: rtranclp_induct)
  case base
  with assms(2) show ?case by simp
next
  case (step w1 w2)
  then obtain j where j: "auth_step calm who configured j w1 w2" by blast
  have "fence_of (aw_flows w2 i) = Some f \<or> (\<exists>e. aw_flows w2 i = Over e)"
  proof (cases "j = i")
    case True
    with j step.IH over_is_final have "fence_of (aw_flows w1 i) = Some f" by blast
    with late_step [OF j [unfolded True] this] step.IH assms(3) show ?thesis by auto
  next
    case False
    with step_frame(1) [OF j, of i] step.IH show ?thesis by auto
  qed
  with step_frame(2) [OF j] step.IH show ?case by auto
qed

text \<open>C11: A flow that outlived its session leaves nothing behind.  In every run, calm or not: once the epoch is no longer the fence a
  flow in flight carries (a sign-out or another sign-in has moved it), then however the run goes on the epoch never comes back
  to that fence, and whenever the flow takes a step, at any later moment, the step leaves the cache, the registry, the
  epoch and the open sessions as they are, stores no refresh token (it can only delete the one it was told is dead), and
  leaves the flow with its old fence or at its end.\<close>

theorem late_flow_leaves_nothing:
  assumes "auth_start who w0" "auth_reach calm who configured w0 w" "fence_of (aw_flows w i) = Some f" "f \<noteq> au_epoch w"
    and "auth_reach calm who configured w w1" "auth_step calm who configured i w1 w2"
  shows "f < au_epoch w \<and> au_epoch w \<le> au_epoch w1 \<and> fence_of (aw_flows w1 i) = Some f
     \<and> au_cache w2 = au_cache w1 \<and> au_registry w2 = au_registry w1 \<and> au_epoch w2 = au_epoch w1 \<and> aw_session w2 = aw_session w1
     \<and> au_stored w2 \<subseteq>\<^sub>m au_stored w1 \<and> (fence_of (aw_flows w2 i) = Some f \<or> (\<exists>e. aw_flows w2 i = Over e))"
proof -
  have late: "f < au_epoch w" using fences_okD [OF reach_fences_ok [OF assms(1,2)] assms(3)] assms(4) by simp
  from reach_late [OF assms(5,3) late] over_is_final [OF assms(6)]
  have w1: "au_epoch w \<le> au_epoch w1" "fence_of (aw_flows w1 i) = Some f" by blast+
  with late late_step [OF assms(6) w1(2)] show ?thesis by simp
qed

section \<open>Runs that reach the end\<close>

definition demo_who :: "string \<Rightarrow> string \<times> string" where
  "demo_who s = (''t'', if s \<in> {''at'', ''rt''} then ''o'' else ''x'')"

definition demo_tenant :: tenant_context where
  "demo_tenant = \<lparr>tc_tenant_id = ''t'', tc_account_oid = ''o'', tc_username = None, tc_display_name = None\<rparr>"

definition demo_claims :: id_claims where
  "demo_claims = \<lparr>ic_tid = Some ''t'', ic_oid = Some ''o'', ic_preferred_username = None, ic_name = None, ic_nonce = None\<rparr>"

definition demo_launch :: auth_world where
  "demo_launch = \<lparr>au_epoch = 1, au_registry = Map.empty, au_cache = [], au_stored = Map.empty, aw_flows = (\<lambda>_. Idle), aw_session = Map.empty\<rparr>"

definition demo_signed :: auth_world where
  "demo_signed = \<lparr>au_epoch = 2, au_registry = [''t'' \<mapsto> demo_tenant], au_cache = [((''t'', scope_key [''r''], True), access_of 0 [] demo_token)],
     au_stored = [(''t'', ''o'') \<mapsto> ''rt''], aw_flows = (\<lambda>_. Idle)(0 := Over None), aw_session = [''t'' \<mapsto> ''o'']\<rparr>"

lemma demo_issued: "issued demo_who demo_token (''t'', ''o'')"
  by (simp add: issued_def demo_token_def demo_who_def)

lemma auth_reach_step: "auth_reach calm who configured w0 w \<Longrightarrow> auth_step calm who configured i w w' \<Longrightarrow> auth_reach calm who configured w0 w'"
  unfolding auth_reach_def by (auto intro: rtranclp.rtrancl_into_rtrancl)

lemma demo_sign_in: "auth_reach calm demo_who ''t'' demo_launch demo_signed"
proof -
  let ?g = "\<lparr>gr_tenant = demo_tenant, gr_scopes = [''r''], gr_fallback = [], gr_cae = True, gr_save = Required, gr_fence = 2, gr_registration = Replace\<rparr>"
  let ?w1 = "set_flow 0 SigningIn demo_launch"
  let ?w2 = "set_flow 0 (Saving ?g demo_token) (set_session ''t'' (Some ''o'') (snd (switch_session ''t'' ?w1)))"
  let ?w3 = "set_flow 0 (Committing ?g demo_token) (set_stored (''t'', ''o'') (Some ''rt'') ?w2)"
  have "auth_reach calm demo_who ''t'' demo_launch demo_launch" by (simp add: auth_reach_def)
  moreover have "auth_step calm demo_who ''t'' 0 demo_launch ?w1"
    using auth_step.sign_in [of demo_launch 0 calm demo_who "''t''"] by (simp add: demo_launch_def sign_in_refused_def)
  moreover have "auth_step calm demo_who ''t'' 0 ?w1 ?w2"
    using auth_step.signed_in [of ?w1 0 demo_claims "''o''" demo_who demo_token "''t''" demo_tenant 2 "snd (switch_session ''t'' ?w1)" calm "[''r'']"] demo_issued
    by (simp add: demo_claims_def demo_tenant_def sign_in_context_def switch_session_def demo_launch_def numeral_2_eq_2)
  moreover have "auth_step calm demo_who ''t'' 0 ?w2 ?w3"
    using auth_step.save [of ?w2 0 ?g demo_token "''rt''" True calm demo_who "''t''"]
    by (simp add: demo_token_def switch_session_def demo_launch_def demo_tenant_def)
  moreover have "auth_step calm demo_who ''t'' 0 ?w3 demo_signed"
  proof -
    have "commit_token 0 ?g demo_token ?w3 =
        (Inr (access_of 0 [] demo_token), ?w3\<lparr>au_cache := [((''t'', scope_key [''r''], True), access_of 0 [] demo_token)], au_registry := [''t'' \<mapsto> demo_tenant]\<rparr>)"
      by (simp add: commit_token_def switch_session_def demo_launch_def demo_tenant_def token_put_def token_invalidate_tenant_def Let_def)
    from auth_step.commit [OF _ _ this, of 0 calm demo_who "''t''"] show ?thesis
      by (simp add: claim_trusted_def switch_session_def demo_launch_def demo_signed_def token_invalidate_tenant_def numeral_2_eq_2)
  qed
  ultimately show ?thesis by (blast intro: auth_reach_step)
qed

lemma demo_launch_start: "auth_start demo_who demo_launch"
  by (simp add: auth_start_def demo_launch_def)

theorem sessions_never_mix_witness:
  "\<exists>a. answer_before_lock 0 False False ''t'' [''r''] True demo_signed = Some a \<and> demo_who (at_token a) = (''t'', ''o'')"
proof -
  have ttl: "at_expires_at (access_of 0 [] demo_token) = 3600000000000"
    by (simp add: access_of_def demo_token_def MAX_TOKEN_TTL_SECS_def)
  then have ans: "answer_before_lock 0 False False ''t'' [''r''] True demo_signed = Some (access_of 0 [] demo_token)"
    by (simp add: answer_before_lock_def fresh_cached_def token_get_def demo_signed_def needs_refresh_def num_seconds_def REFRESH_LEEWAY_SECS_def)
  have "au_registry demo_signed ''t'' = Some demo_tenant" by (simp add: demo_signed_def)
  with sessions_never_mix [OF demo_launch_start demo_sign_in] ans have "demo_who (at_token (access_of 0 [] demo_token)) = (''t'', tc_account_oid demo_tenant)" by blast
  with ans show ?thesis by (simp add: demo_tenant_def)
qed

text \<open>A consent is in the browser when the account signs out; its answer comes afterwards, with a refresh token that is not stored.\<close>

definition demo_consent :: grant where
  "demo_consent = \<lparr>gr_tenant = demo_tenant, gr_scopes = [''c''], gr_fallback = [''c''], gr_cae = False, gr_save = Required, gr_fence = 2, gr_registration = Keep\<rparr>"

lemma map_le_None: "m \<subseteq>\<^sub>m m' \<Longrightarrow> m' k = None \<Longrightarrow> m k = None"
  by (metis domIff map_le_implies_dom_le subsetD)

lemma demo_late_run:
  "\<exists>w w1 w2. auth_reach True demo_who ''t'' demo_launch w \<and> fence_of (aw_flows w 1) = Some 2 \<and> au_epoch w = 3 \<and> auth_reach True demo_who ''t'' w w1
     \<and> aw_flows w1 1 = Saving demo_consent demo_token \<and> au_stored w1 (''t'', ''o'') = None \<and> token_get ''t'' [''c''] False (au_cache w1) = None
     \<and> auth_step True demo_who ''t'' 1 w1 w2 \<and> aw_flows w2 1 = Over (Some NotSignedIn)"
proof -
  let ?a = "set_flow 1 (Browsing demo_consent ''consent'') demo_signed"
  let ?b = "set_flow 2 (Deleting ''t'' ''o'') ?a"
  let ?w = "set_flow 2 (Sweeping ''t'' 3) (set_stored (''t'', ''o'') None (?b\<lparr>au_epoch := 3\<rparr>))"
  let ?w1 = "set_flow 1 (Saving demo_consent demo_token) ?w"
  let ?w2 = "set_flow 1 (Over (Some NotSignedIn)) ?w1"
  have a: "auth_step True demo_who ''t'' 1 demo_signed ?a"
    using auth_step.interactive [of demo_signed 1 "''t''" demo_tenant 2 True demo_who "''t''" "[''c'']" False "''consent''"]
    by (simp add: demo_signed_def capture_session_def sweep_pending_def demo_consent_def)
  have b: "auth_step True demo_who ''t'' 2 ?a ?b"
    using auth_step.sign_out [of ?a 2 True demo_who "''t''" demo_tenant] by (simp add: demo_signed_def demo_tenant_def sign_out_account_def)
  have c: "auth_step True demo_who ''t'' 2 ?b ?w"
    using auth_step.sign_out_deleted [of ?b 2 "''t''" "''o''" True demo_who "''t''"] by (simp add: demo_signed_def)
  have d: "auth_step True demo_who ''t'' 1 ?w ?w1"
    using auth_step.browsed [of ?w 1 demo_consent "''consent''" demo_claims "''t''" "''o''" demo_who demo_token True "''t''"] demo_issued
    by (simp add: demo_claims_def demo_tenant_def demo_consent_def ensure_same_identity_def)
  have e: "auth_step True demo_who ''t'' 1 ?w1 ?w2"
    using auth_step.save [of ?w1 1 demo_consent demo_token "''rt''" False True demo_who "''t''"] by (simp add: demo_token_def demo_consent_def)
  have w: "auth_reach True demo_who ''t'' demo_launch ?w" by (rule auth_reach_step [OF auth_reach_step [OF auth_reach_step [OF demo_sign_in a] b] c])
  have "auth_reach True demo_who ''t'' ?w ?w" by (simp add: auth_reach_def)
  from auth_reach_step [OF this d] have w1: "auth_reach True demo_who ''t'' ?w ?w1" .
  show ?thesis
    by (rule exI [of _ ?w], rule exI [of _ ?w1], rule exI [of _ ?w2], intro conjI w w1 e)
      (simp_all add: demo_consent_def demo_signed_def token_get_def)
qed

theorem late_flow_leaves_nothing_witness:
  "\<exists>w1 w2. auth_reach True demo_who ''t'' demo_launch w1 \<and> aw_flows w1 1 = Saving demo_consent demo_token \<and> tr_refresh_token demo_token = Some ''rt''
     \<and> auth_step True demo_who ''t'' 1 w1 w2 \<and> aw_flows w2 1 = Over (Some NotSignedIn)
     \<and> au_stored w2 (''t'', ''o'') = None \<and> token_get ''t'' [''c''] False (au_cache w2) = None"
proof -
  obtain w w1 w2 where w: "auth_reach True demo_who ''t'' demo_launch w" "fence_of (aw_flows w 1) = Some 2" "au_epoch w = 3"
    and w1: "auth_reach True demo_who ''t'' w w1" "aw_flows w1 1 = Saving demo_consent demo_token" "au_stored w1 (''t'', ''o'') = None"
      "token_get ''t'' [''c''] False (au_cache w1) = None"
    and w2: "auth_step True demo_who ''t'' 1 w1 w2" "aw_flows w2 1 = Over (Some NotSignedIn)"
    using demo_late_run by blast
  from w(3) have "2 \<noteq> au_epoch w" by simp
  from late_flow_leaves_nothing [OF demo_launch_start w(1,2) this w1(1) w2(1)]
  have late: "au_cache w2 = au_cache w1" "au_stored w2 \<subseteq>\<^sub>m au_stored w1" by blast+
  have "auth_reach True demo_who ''t'' demo_launch w1" using w(1) w1(1) unfolding auth_reach_def by (rule rtranclp_trans)
  moreover have "au_stored w2 (''t'', ''o'') = None" using late(2) w1(3) by (rule map_le_None)
  moreover have "tr_refresh_token demo_token = Some ''rt''" by (simp add: demo_token_def)
  ultimately show ?thesis using w1(2,4) w2 late(1) by metis
qed

text \<open>Outside a calm run the promise of the source is not kept.  A consent that reads its account and its fence between the move of
  the epoch by a sign-out and the sweep of that sign-out carries the new fence with the old account: its refresh token is
  stored and its access token cached after the sign-out has ended.\<close>

lemma consent_outlives_sign_out:
  "\<exists>w. auth_reach False demo_who ''t'' demo_launch w \<and> aw_session w ''t'' = None \<and> au_registry w ''t'' = None
     \<and> au_stored w (''t'', ''o'') = Some ''rt'' \<and> token_get ''t'' [''c''] False (au_cache w) \<noteq> None"
proof -
  let ?g = "\<lparr>gr_tenant = demo_tenant, gr_scopes = [''c''], gr_fallback = [''c''], gr_cae = False, gr_save = Required, gr_fence = 3, gr_registration = Keep\<rparr>"
  let ?w1 = "set_flow 1 (Deleting ''t'' ''o'') demo_signed"
  let ?w2 = "set_flow 1 (Sweeping ''t'' 3) (set_stored (''t'', ''o'') None (?w1\<lparr>au_epoch := 3\<rparr>))"
  let ?w3 = "set_flow 2 (Browsing ?g ''consent'') ?w2"
  let ?w4 = "set_flow 1 (Over None) (set_session ''t'' None (sweep_after_sign_out ''t'' 3 ?w3))"
  let ?w5 = "set_flow 2 (Saving ?g demo_token) ?w4"
  let ?w6 = "set_flow 2 (Committing ?g demo_token) (set_stored (''t'', ''o'') (Some ''rt'') ?w5)"
  let ?w7 = "set_flow 2 (Over None) (snd (commit_token 0 ?g demo_token ?w6))"
  have s1: "auth_step False demo_who ''t'' 1 demo_signed ?w1"
    using auth_step.sign_out [of demo_signed 1 False demo_who "''t''" demo_tenant] by (simp add: demo_signed_def demo_tenant_def sign_out_account_def)
  have s2: "auth_step False demo_who ''t'' 1 ?w1 ?w2"
    using auth_step.sign_out_deleted [of ?w1 1 "''t''" "''o''" False demo_who "''t''"] by (simp add: demo_signed_def)
  have s3: "auth_step False demo_who ''t'' 2 ?w2 ?w3"
    using auth_step.interactive [of ?w2 2 "''t''" demo_tenant 3 False demo_who "''t''" "[''c'']" False "''consent''"]
    by (simp add: demo_signed_def capture_session_def)
  have s4: "auth_step False demo_who ''t'' 1 ?w3 ?w4"
    using auth_step.sweep [of ?w3 1 "''t''" 3 False demo_who "''t''"] by (simp add: demo_signed_def)
  have s5: "auth_step False demo_who ''t'' 2 ?w4 ?w5"
    using auth_step.browsed [of ?w4 2 ?g "''consent''" demo_claims "''t''" "''o''" demo_who demo_token False "''t''"] demo_issued
    by (simp add: sweep_after_sign_out_def demo_signed_def demo_claims_def demo_tenant_def ensure_same_identity_def)
  have s6: "auth_step False demo_who ''t'' 2 ?w5 ?w6"
    using auth_step.save [of ?w5 2 ?g demo_token "''rt''" True False demo_who "''t''"]
    by (simp add: sweep_after_sign_out_def demo_signed_def demo_token_def demo_tenant_def)
  have s7: "auth_step False demo_who ''t'' 2 ?w6 ?w7"
    using auth_step.commit [of ?w6 2 ?g demo_token False 0 _ "snd (commit_token 0 ?g demo_token ?w6)" demo_who "''t''"]
    by (simp add: commit_token_def sweep_after_sign_out_def demo_signed_def held_by_another_account_def Let_def)
  from auth_reach_step [OF auth_reach_step [OF auth_reach_step [OF auth_reach_step [OF auth_reach_step [OF auth_reach_step [OF auth_reach_step
      [OF demo_sign_in s1] s2] s3] s4] s5] s6] s7]
  show ?thesis
    by (intro exI [of _ ?w7])
      (simp add: commit_token_def sweep_after_sign_out_def demo_signed_def held_by_another_account_def demo_tenant_def token_get_def token_put_def token_invalidate_tenant_def Let_def)
qed

end
