(* ===== verification/Spec2Isabelle.thy ===== *)
theory Spec2Isabelle
  imports Cache_Watch_Protocol Audit_Findings Exchange_Verdict Scope_Moves Token_Store Bulk_Runs Graph_Batch Graph_Scan Vault_Rotation Trust_Inputs Restore_Plan Auth_Sessions
begin

text \<open>
  A verification development of azapptoolkit, a Rust desktop application that inventories, audits and repairs the
  application registrations and service principals of a Microsoft Entra tenant.

  \<^bold>\<open>The program.\<close>  A Tauri backend (\<^verbatim>\<open>apps/desktop/src-tauri\<close>) runs one command per operator action.  A command reads
  the directory through typed HTTP clients (\<^verbatim>\<open>crates/azapptoolkit-graph\<close>, \<^verbatim>\<open>-exchange\<close>, \<^verbatim>\<open>-arm\<close>, \<^verbatim>\<open>-keyvault\<close>), which
  share one retry policy; it keeps what it read in an in-memory LRU + TTL cache; and it decides what to show or write with
  the pure functions of \<^verbatim>\<open>crates/azapptoolkit-core\<close> and \<^verbatim>\<open>crates/azapptoolkit-exchange\<close>.  Tokens come from
  \<^verbatim>\<open>crates/azapptoolkit-auth\<close>.  A Leptos front end (\<^verbatim>\<open>apps/desktop/web-rs\<close>) renders the results.

  \<^bold>\<open>The theories\<close>, each with the source it translates; paths are relative to \<^verbatim>\<open>src/\<close>, crate names shortened.

  \<^item> \<open>Toolkit_Prelude\<close>: strings as UTF-8 bytes with the \<^verbatim>\<open>str\<close> methods the sources use, decimal parsing and printing,
    clocks, saturating words, first-occurrence filtering, sorted association lists as \<^verbatim>\<open>BTreeMap\<close> (locale
    \<open>ordered_index\<close> and its interpretation).
  \<^item> \<open>Cache_Bucket\<close>, \<open>Cache_Core\<close>, \<open>Cache_Runs\<close>, \<open>Cache_Watch_Protocol\<close>: \<^verbatim>\<open>core/src/cache.rs\<close>.  A bucket keeps its
    entries, its LRU index, the pinned count and the oldest-insert bound; the cache adds the four buckets, the statistics,
    the configuration and the watch table.  \<open>cache_step\<close> has a rule per public operation and \<open>cache_reach\<close> closes it, so the
    invariant holds of every reachable cache.  \<open>proto_step\<close> splits the guarded store and the invalidation into their
    critical sections, for any number of threads, and shows that no stale entry outlives an invalidation.
  \<^item> \<open>Cache_Tiers\<close>: the cache keys and invalidation tiers of \<^verbatim>\<open>commands/applications/cache.rs\<close> and the keys of
    \<^verbatim>\<open>commands/audit/cache.rs\<close> and \<^verbatim>\<open>commands/managed_identity.rs\<close>.
  \<^item> \<open>Http_Retry\<close>: \<^verbatim>\<open>core/src/http_retry.rs\<close>, the retry budget, back-off and jitter at their machine widths, and
    the retry loop over a scripted server, with what it commits.
  \<^item> \<open>Client_Errors\<close>: the classification of a failed call, \<^verbatim>\<open>core/src/reauth.rs\<close>, \<^verbatim>\<open>token.rs\<close>, \<^verbatim>\<open>http_error.rs\<close>,
    \<^verbatim>\<open>exchange/src/error.rs\<close> and the \<^verbatim>\<open>UiError\<close> conversions.
  \<^item> \<open>Token_Store\<close>: \<^verbatim>\<open>auth/src/token_cache.rs\<close>, the refresh token split over several entries of the OS credential store.
    Processes that crash, interleave or delete are the relation \<open>torn_store\<close>; no load returns a splice of two tokens.
  \<^item> \<open>Fanout\<close>: the cancel flag of \<^verbatim>\<open>state.rs\<close>, \<^verbatim>\<open>commands/throttle.rs\<close> and \<^verbatim>\<open>commands/dispatch.rs\<close>: the
    dispatcher over every completion order (locale \<open>dispatch_observer\<close> is what a client proves about its collector).
    Every launched task reaches the collector's state or the list of lost tasks, once.
  \<^item> \<open>Cache_Patches\<close>: the patch tier of \<^verbatim>\<open>commands/applications/cache.rs\<close> and the rows it patches.
  \<^item> \<open>Bulk_Runs\<close>: \<^verbatim>\<open>commands/bulk.rs\<close>, the drivers as clients of the dispatcher (interpretation \<open>bulk\<close>), the bulk
    delete and the expired-secret sweep.
  \<^item> \<open>Http_Errors\<close>: \<^verbatim>\<open>core/src/http_error.rs\<close>, \<^verbatim>\<open>http_body.rs\<close> and \<^verbatim>\<open>net.rs\<close>, the error type the clients share, bounded
    bodies, origin checks and log masking, and the transports of \<^verbatim>\<open>arm\<close> and \<^verbatim>\<open>keyvault\<close> with their name checks.
  \<^item> \<open>Graph_Transport\<close>, \<open>Graph_Batch\<close>, \<open>Graph_Scan\<close>: \<^verbatim>\<open>graph/src/client/\<close> \<^verbatim>\<open>transport.rs\<close>, \<^verbatim>\<open>batch.rs\<close> and
    \<^verbatim>\<open>partition.rs\<close>.  A send with its claims challenge commits a mutation at most once, the pagers return exactly what they
    followed and stay on their origin, a batch puts each answer in its own slot, and a sliced scan is accepted only when it
    is complete; \<open>memo_step\<close> is the step relation of what the client remembers of a collection.
  \<^item> \<open>Vault_Rotation\<close>: \<^verbatim>\<open>commands/keyvault.rs\<close> and \<^verbatim>\<open>keyvault/src/client.rs\<close>, rotating a client secret into a
    vault: the ownership gate, the mint, the store with its read-back, the rollback and the removal of the old secrets,
    and that a vault write reported as never sent called no network.
  \<^item> \<open>Trust_Inputs\<close>: \<^verbatim>\<open>core/src/redirect.rs\<close> and \<^verbatim>\<open>federation.rs\<close>, the checks of reply URLs and of federated issuers.
    The reply-URL check is characterised exactly on the text it accepts; a lemma names plaintext spellings it lets
    through.  The issuer check is stated against a reference reading of the host of a URL that starts with \<^verbatim>\<open>https://\<close>.
  \<^item> \<open>Restore_Plan\<close>: \<^verbatim>\<open>core/src/restore_plan.rs\<close>, what a restored application is written with.
  \<^item> \<open>Cloud_Scopes\<close>, \<open>Token_Endpoint\<close>, \<open>Auth_Sessions\<close>: \<^verbatim>\<open>core/src/cloud.rs\<close> and \<^verbatim>\<open>auth/src/service/\<close>.  The clouds and
    scope sets, the token POST with its verdicts, the listener for the browser's redirect, and the sessions: \<open>auth_step\<close>
    interleaves the critical sections of all flows.  In the runs called calm (\<open>sweep_pending\<close>, \<open>claim_trusted\<close>) no session is served a
    token of another account; a lemma shows a run outside them that keeps tokens past a sign-out.
  \<^item> \<open>Scoping\<close>: \<^verbatim>\<open>core/src/scoping.rs\<close>, which permissions can be confined and by which mechanism.
  \<^item> \<open>Audit_Types\<close>, \<open>Audit_Permissions\<close>, \<open>Audit_Credentials\<close>, \<open>Audit_Scoring\<close>, \<open>Audit_Findings\<close>:
    \<^verbatim>\<open>core/src/audit/\<close>, the permission tables and subsumption, credential statuses and policy caps, every scoring rule at
    its 32-bit width, the issue texts, the fixes, the finding groups and the posture counts.
  \<^item> \<open>Exchange_Filter\<close>, \<open>Exchange_Models\<close>, \<open>Exchange_Plan\<close>, \<open>Exchange_Verdict\<close>: \<^verbatim>\<open>exchange/src/\<close>, the management-scope
    filters written and read back, the tolerant parsing of Exchange objects, the scoping and migration plans, and the
    verdict an operator is shown about an application's mailbox reach.
  \<^item> \<open>Tenant_Defaults\<close>: \<^verbatim>\<open>core/src/defaults.rs\<close>, per-tenant naming patterns.
  \<^item> \<open>Exchange_Client\<close>, \<open>Scope_Group\<close>, \<open>Scope_Moves\<close>: \<^verbatim>\<open>exchange/src/client/\<close> and
    \<^verbatim>\<open>commands/exchange/scope_group.rs\<close>, consolidating scopes onto one managed group, with every early return.

  \<^bold>\<open>Conventions.\<close>  Structs are records, enums datatypes, fallible code a sum with the error on the left.  Integers keep
  their width where the code can overflow or saturate; a \<^verbatim>\<open>usize\<close> that only counts list elements is a \<^typ>\<open>nat\<close>.
  Clocks and random bytes are arguments.  Loops are structural or have a termination proof; where a loop is driven by a
  remote party it takes fuel, and a theorem states how much is enough (\<open>patch_loop\<close> takes the source's own attempt bound).

  \<^bold>\<open>Parameters.\<close>  Code outside the repository is an argument of the definitions that use it: the Exchange Online
  endpoint (record \<open>exo\<close>, scripted answers), Unicode tables (\<open>lower\<close>, \<open>uni_alnum\<close>), the OS credential store
  (record \<open>keyring\<close>), the directory and vault a rotation calls (record \<open>rotation_env\<close>), the token provider and the socket (record \<open>http_net\<close>), the URL parser and the decoders of
  response bodies.  What a theorem needs of one is a named hypothesis, and a witness instantiates it.

  \<^bold>\<open>Not modelled.\<close>  The front end, the Tauri plumbing and the wire formats handled by serde; the HTTP library below
  a single request; certificate generation and other calls into third-party crates.  The manifest lists every part.
\<close>

end
